(* ===== verification/Prelude.thy ===== *)
theory Prelude
  imports Main "HOL-Library.Sublist"
begin

text \<open>
  Shared vocabulary of the development: results of fallible code, the operations of Go's
  \<^verbatim>\<open>strings\<close> package that the sources use, association lists for Go maps, and the
  generic transition-system interface behind every invariant proof.

  A Go string is a sequence of bytes; an Isabelle \<^typ>\<open>char\<close> is a byte, so \<^typ>\<open>string\<close> is
  the exact carrier. \<^verbatim>\<open>ToLower\<close> and \<^verbatim>\<open>TrimSpace\<close> are modelled on ASCII, the
  range of every host, reference and size literal the program handles.
\<close>

named_theorems go_str \<open>rewrite rules for the model of Go's strings package\<close>
named_theorems res_simps \<open>rewrite rules for results of fallible operations\<close>

subsection \<open>Results\<close>

text \<open>
  A fallible Go function returns a value or an error. The model returns \<^term>\<open>Inl e\<close> for
  the error and \<^term>\<open>Inr x\<close> for the value; \<open>bind_r\<close> is the early return
  \<^verbatim>\<open>if err != nil { return err }\<close>.
\<close>

definition bind_r :: "'e + 'a \<Rightarrow> ('a \<Rightarrow> 'e + 'b) \<Rightarrow> 'e + 'b" where
  "bind_r r f = (case r of Inl e \<Rightarrow> Inl e | Inr x \<Rightarrow> f x)"

definition guard_r :: "bool \<Rightarrow> 'e \<Rightarrow> 'e + unit" where
  "guard_r ok e = (if ok then Inr () else Inl e)"

definition is_ok :: "'e + 'a \<Rightarrow> bool" where
  "is_ok r = (case r of Inl _ \<Rightarrow> False | Inr _ \<Rightarrow> True)"

lemma bind_r_simps [simp, res_simps]:
  "bind_r (Inl e) f = Inl e" "bind_r (Inr x) f = f x"
  by (simp_all add: bind_r_def)

lemma is_ok_simps [simp]: "is_ok (Inl e) = False" "is_ok (Inr x) = True"
  by (simp_all add: is_ok_def)

lemma bind_r_Inr_iff [res_simps]:
  "bind_r r f = Inr y \<longleftrightarrow> (\<exists>x. r = Inr x \<and> f x = Inr y)"
  by (cases r) auto

lemma guard_r_Inr_iff [simp, res_simps]: "guard_r ok e = Inr u \<longleftrightarrow> ok"
  by (simp add: guard_r_def)

lemma is_ok_iff: "is_ok r \<longleftrightarrow> (\<exists>x. r = Inr x)"
  by (cases r) auto

subsection \<open>Strings\<close>

abbreviation has_prefix :: "string \<Rightarrow> string \<Rightarrow> bool" where
  "has_prefix s p \<equiv> prefix p s"

abbreviation has_suffix :: "string \<Rightarrow> string \<Rightarrow> bool" where
  "has_suffix s p \<equiv> suffix p s"

abbreviation contains :: "string \<Rightarrow> string \<Rightarrow> bool" where
  "contains s p \<equiv> sublist p s"

text \<open>\<^verbatim>\<open>strings.Split\<close> with a one-byte separator.\<close>

fun split_on :: "char \<Rightarrow> string \<Rightarrow> string list" where
  "split_on c [] = [[]]"
| "split_on c (x # xs) =
     (if x = c then [] # split_on c xs
      else (case split_on c xs of [] \<Rightarrow> [[x]] | p # ps \<Rightarrow> (x # p) # ps))"

fun join_with :: "char \<Rightarrow> string list \<Rightarrow> string" where
  "join_with c [] = []"
| "join_with c [p] = p"
| "join_with c (p # q # ps) = p @ c # join_with c (q # ps)"

text \<open>\<^verbatim>\<open>strings.IndexByte\<close>, \<^verbatim>\<open>strings.LastIndexByte\<close>, \<^verbatim>\<open>strings.Index\<close>.\<close>

fun index_byte :: "char \<Rightarrow> string \<Rightarrow> nat option" where
  "index_byte c [] = None"
| "index_byte c (x # xs) = (if x = c then Some 0 else map_option Suc (index_byte c xs))"

fun last_index_byte :: "char \<Rightarrow> string \<Rightarrow> nat option" where
  "last_index_byte c [] = None"
| "last_index_byte c (x # xs) =
     (case last_index_byte c xs of
        Some i \<Rightarrow> Some (Suc i)
      | None \<Rightarrow> if x = c then Some 0 else None)"

fun str_index :: "string \<Rightarrow> string \<Rightarrow> nat option" where
  "str_index [] sub = (if sub = [] then Some 0 else None)"
| "str_index (x # xs) sub =
     (if prefix sub (x # xs) then Some 0 else map_option Suc (str_index xs sub))"

text \<open>ASCII case folding and trimming.\<close>

definition is_upper :: "char \<Rightarrow> bool" where
  "is_upper c = (65 \<le> (of_char c :: nat) \<and> (of_char c :: nat) \<le> 90)"

definition lower_char :: "char \<Rightarrow> char" where
  "lower_char c = (if is_upper c then char_of ((of_char c :: nat) + 32) else c)"

definition to_lower :: "string \<Rightarrow> string" where
  "to_lower s = map lower_char s"

definition is_digit :: "char \<Rightarrow> bool" where
  "is_digit c = (48 \<le> (of_char c :: nat) \<and> (of_char c :: nat) \<le> 57)"

definition is_space :: "char \<Rightarrow> bool" where
  "is_space c = ((of_char c :: nat) \<in> {9, 10, 11, 12, 13, 32})"

definition trim_by :: "(char \<Rightarrow> bool) \<Rightarrow> string \<Rightarrow> string" where
  "trim_by P s = rev (dropWhile P (rev (dropWhile P s)))"

definition trim_space :: "string \<Rightarrow> string" where
  "trim_space s = trim_by is_space s"

text \<open>\<^verbatim>\<open>strings.ReplaceAll\<close> of one byte by another.\<close>

definition replace_byte :: "char \<Rightarrow> char \<Rightarrow> string \<Rightarrow> string" where
  "replace_byte a b s = map (\<lambda>c. if c = a then b else c) s"

text \<open>\<^verbatim>\<open>hex.EncodeToString\<close> and the test \<^verbatim>\<open>hex.DecodeString\<close> applies.\<close>

definition hex_digit :: "nat \<Rightarrow> char" where
  "hex_digit n = char_of (if n < 10 then 48 + n else 87 + n)"

definition hex_encode :: "string \<Rightarrow> string" where
  "hex_encode s = concat (map (\<lambda>c. [hex_digit (of_char c div 16), hex_digit (of_char c mod 16)]) s)"

definition is_hex :: "char \<Rightarrow> bool" where
  "is_hex c = (let n = (of_char c :: nat) in
     48 \<le> n \<and> n \<le> 57 \<or> 97 \<le> n \<and> n \<le> 102 \<or> 65 \<le> n \<and> n \<le> 70)"

text \<open>\<^verbatim>\<open>strconv.Itoa\<close> of a length.\<close>

fun nat_str :: "nat \<Rightarrow> string" where
  "nat_str n = (if n < 10 then [char_of (48 + n)] else nat_str (n div 10) @ [char_of (48 + n mod 10)])"

declare nat_str.simps [simp del]

text \<open>Reading a \<^verbatim>\<open>map[string]string\<close>: an absent key yields the empty string.\<close>

definition go_get :: "(string \<times> string) list \<Rightarrow> string \<Rightarrow> string" where
  "go_get m k = (case map_of m k of None \<Rightarrow> [] | Some v \<Rightarrow> v)"

text \<open>\<^verbatim>\<open>filepath.Clean\<close> and \<^verbatim>\<open>filepath.Join\<close> of two elements, on Unix paths.\<close>

fun clean_segs :: "bool \<Rightarrow> string list \<Rightarrow> string list \<Rightarrow> string list" where
  "clean_segs rooted stack [] = rev stack"
| "clean_segs rooted stack (x # xs) =
     (if x = [] \<or> x = ''.'' then clean_segs rooted stack xs
      else if x = ''..'' then
        (case stack of
           [] \<Rightarrow> clean_segs rooted (if rooted then [] else [''..'']) xs
         | t # ts \<Rightarrow> if t = ''..'' then clean_segs rooted (''..'' # stack) xs
                     else clean_segs rooted ts xs)
      else clean_segs rooted (x # stack) xs)"

definition filepath_clean :: "string \<Rightarrow> string" where
  "filepath_clean p =
     (if p = [] then ''.''
      else (let rooted = has_prefix p ''/'';
                body = join_with CHR ''/'' (clean_segs rooted [] (split_on CHR ''/'' p))
            in if rooted then CHR ''/'' # body else if body = [] then ''.'' else body))"

definition filepath_join :: "string \<Rightarrow> string \<Rightarrow> string" where
  "filepath_join a b =
     (if a = [] \<and> b = [] then [] else if a = [] then filepath_clean b
      else if b = [] then filepath_clean a else filepath_clean (a @ ''/'' @ b))"

text \<open>Go's 64-bit \<^verbatim>\<open>int\<close>: every arithmetic result is wrapped, \<^verbatim>\<open>strconv.Atoi\<close>
  refuses what does not fit.\<close>

definition wrap64 :: "int \<Rightarrow> int" where
  "wrap64 x = (x + 2 ^ 63) mod 2 ^ 64 - 2 ^ 63"

definition fits64 :: "int \<Rightarrow> bool" where
  "fits64 x \<longleftrightarrow> - (2 ^ 63) \<le> x \<and> x < 2 ^ 63"

definition digits_value :: "string \<Rightarrow> nat" where
  "digits_value s = foldl (\<lambda>v c. v * 10 + (of_char c - 48)) 0 s"

definition atoi :: "string \<Rightarrow> int option" where
  "atoi s =
     (let neg = has_prefix s ''-''; body = (if neg \<or> has_prefix s ''+'' then tl s else s);
          v = (if neg then - int (digits_value body) else int (digits_value body))
      in if body \<noteq> [] \<and> list_all is_digit body \<and> fits64 v then Some v else None)"

lemma split_on_nonempty [simp]: "split_on c s \<noteq> []"
  by (cases s) (auto split: list.splits)

lemma join_split [simp]: "join_with c (split_on c s) = s"
proof (induction s)
  case (Cons x xs)
  then show ?case
    by (cases "split_on c xs") (auto, (metis join_with.simps(2,3) append_Cons neq_Nil_conv)+)
qed simp

lemma split_on_free: "p \<in> set (split_on c s) \<Longrightarrow> c \<notin> set p"
  by (induction s arbitrary: p) (auto split: if_splits list.splits)

lemma split_on_no_sep [simp]: "c \<notin> set s \<Longrightarrow> split_on c s = [s]"
  by (induction s) auto

lemma split_on_sep: "c \<notin> set p \<Longrightarrow> split_on c (p @ c # s) = p # split_on c s"
  by (induction p) auto

lemma length_split_on_1 [simp]: "length (split_on c s) = Suc 0 \<longleftrightarrow> c \<notin> set s"
  by (induction s) (auto split: list.splits)

lemma index_byte_None [go_str]: "index_byte c s = None \<longleftrightarrow> c \<notin> set s"
  by (induction s) auto

lemma index_byte_free [simp]: "c \<notin> set s \<Longrightarrow> index_byte c s = None"
  by (simp add: index_byte_None)

lemma index_byte_append [simp]:
  "c \<notin> set u \<Longrightarrow> index_byte c (u @ c # v) = Some (length u)"
  by (induction u) auto

lemma index_byte_SomeE:
  assumes "index_byte c s = Some i"
  obtains u v where "s = u @ c # v" "c \<notin> set u" "length u = i"
proof -
  have "c \<in> set s" using assms index_byte_None [of c s] by auto
  then obtain u v where uv: "s = u @ c # v" "c \<notin> set u"
    by (meson split_list_first)
  with assms have "length u = i" by simp
  with uv show ?thesis by (rule that)
qed

lemma last_index_byte_None [go_str]: "last_index_byte c s = None \<longleftrightarrow> c \<notin> set s"
  by (induction s) (auto split: option.splits)

lemma last_index_byte_append [simp]:
  "c \<notin> set v \<Longrightarrow> last_index_byte c (u @ c # v) = Some (length u)"
proof (induction u)
  case Nil
  then show ?case by (simp add: last_index_byte_None [THEN iffD2])
qed simp

lemma str_index_None: "str_index s sub = None \<Longrightarrow> s \<noteq> u @ sub @ v"
proof (induction s arbitrary: u)
  case Nil
  then show ?case by (auto split: if_splits)
next
  case (Cons x xs)
  then show ?case
    by (cases u) (auto split: if_splits)
qed

lemma str_index_Some:
  "str_index s sub = Some i \<Longrightarrow> s = take i s @ sub @ drop (i + length sub) s \<and> i + length sub \<le> length s"
proof (induction s arbitrary: i)
  case Nil
  then show ?case by (auto split: if_splits)
next
  case (Cons x xs)
  show ?case
  proof (cases "prefix sub (x # xs)")
    case True
    with Cons.prems have "i = 0" by simp
    moreover from True obtain w where "x # xs = sub @ w" by (auto simp: prefix_def)
    ultimately show ?thesis by (metis append_Nil append_eq_conv_conj add_0 length_append
          le_add1 take_0)
  next
    case False
    with Cons.prems obtain j where j: "str_index xs sub = Some j" "i = Suc j"
      by auto
    show ?thesis using Cons.IH [OF j(1)] j(2) by auto
  qed
qed

lemma str_index_least:
  "str_index s sub = Some i \<Longrightarrow> s = u @ sub @ v \<Longrightarrow> i \<le> length u"
proof (induction s arbitrary: i u)
  case Nil
  then show ?case by (auto split: if_splits)
next
  case (Cons x xs)
  show ?case
  proof (cases u)
    case Nil
    with Cons.prems(2) have "prefix sub (x # xs)" by simp
    with Cons.prems(1) show ?thesis by simp
  next
    case (Cons y ys)
    with Cons.prems Cons.IH show ?thesis by (auto split: if_splits)
  qed
qed

lemma lower_char_not_upper [simp]: "\<not> is_upper (lower_char c)"
proof (cases "is_upper c")
  case True
  then have "(of_char c :: nat) + 32 < 256" by (simp add: is_upper_def)
  with True show ?thesis by (simp add: lower_char_def is_upper_def of_char_of)
next
  case False
  then show ?thesis by (simp add: lower_char_def)
qed

lemma lower_char_idem [simp]: "lower_char (lower_char c) = lower_char c"
  by (metis lower_char_def lower_char_not_upper)

lemma to_lower_idem [simp]: "to_lower (to_lower s) = to_lower s"
  by (simp add: to_lower_def)

lemma length_to_lower [simp]: "length (to_lower s) = length s"
  by (simp add: to_lower_def)

lemma to_lower_append [simp]: "to_lower (s @ t) = to_lower s @ to_lower t"
  by (simp add: to_lower_def)

lemma to_lower_Nil_iff [simp]: "to_lower s = [] \<longleftrightarrow> s = []"
  by (simp add: to_lower_def)

lemma lower_char_code:
  "(of_char (lower_char c) :: nat) = (if is_upper c then of_char c + 32 else of_char c)"
  by (auto simp: lower_char_def is_upper_def)

definition is_letter :: "char \<Rightarrow> bool" where
  "is_letter c = (is_upper c \<or> (97 \<le> (of_char c :: nat) \<and> (of_char c :: nat) \<le> 122))"

lemma lower_char_eq_iff: "\<not> is_letter d \<Longrightarrow> lower_char c = d \<longleftrightarrow> c = d"
proof -
  assume "\<not> is_letter d"
  then have "(of_char (lower_char c) :: nat) = of_char d \<longleftrightarrow> (of_char c :: nat) = of_char d"
    by (auto simp: is_letter_def is_upper_def lower_char_code)
  then show ?thesis by (simp only: of_char_eq_iff)
qed

lemma to_lower_mem_iff: "\<not> is_letter d \<Longrightarrow> d \<in> set (to_lower s) \<longleftrightarrow> d \<in> set s"
  using lower_char_eq_iff [of d] by (induction s) (simp_all add: to_lower_def eq_commute [of d])

lemma first_sep_unique:
  "c \<notin> set u \<Longrightarrow> c \<notin> set h \<Longrightarrow> u @ c # v = h @ c # r \<longleftrightarrow> u = h \<and> v = r"
proof (induction u arbitrary: h)
  case Nil
  then show ?case by (cases h) auto
next
  case (Cons a u)
  then show ?case by (cases h) auto
qed

lemma sublist_set_subset: "sublist p s \<Longrightarrow> set p \<subseteq> set s"
  by (auto simp: sublist_def)

lemma replace_byte_free [simp]: "a \<notin> set s \<Longrightarrow> replace_byte a b s = s"
  by (induction s) (auto simp: replace_byte_def)

lemma replace_byte_append [simp]:
  "replace_byte a b (s @ t) = replace_byte a b s @ replace_byte a b t"
  by (simp add: replace_byte_def)

lemma replace_byte_Cons [simp]:
  "replace_byte a b (c # s) = (if c = a then b else c) # replace_byte a b s"
  by (simp add: replace_byte_def)

lemma replace_byte_removes: "a \<noteq> b \<Longrightarrow> a \<notin> set (replace_byte a b s)"
  by (auto simp: replace_byte_def)

lemma list_all2_left: "list_all2 P xs ys \<Longrightarrow> x \<in> set xs \<Longrightarrow> \<exists>y \<in> set ys. P x y"
  by (induction rule: list_all2_induct) auto

lemma list_all2_right: "list_all2 P xs ys \<Longrightarrow> y \<in> set ys \<Longrightarrow> \<exists>x \<in> set xs. P x y"
  by (induction rule: list_all2_induct) auto

subsection \<open>Decimal rendering\<close>

lemma nat_str_digits: "list_all is_digit (nat_str n)"
proof (induction n rule: nat_str.induct)
  case (1 n)
  show ?case
  proof (cases "n < 10")
    case True
    then show ?thesis by (simp add: nat_str.simps [of n] is_digit_def)
  next
    case False
    then show ?thesis using 1 by (simp add: nat_str.simps [of n] is_digit_def)
  qed
qed

lemma nat_str_free: "\<not> is_digit c \<Longrightarrow> c \<notin> set (nat_str n)"
  using nat_str_digits [of n] by (auto simp: list_all_iff)

lemma digits_value_snoc [simp]:
  "digits_value (s @ [c]) = digits_value s * 10 + (of_char c - 48)"
  by (simp add: digits_value_def)

lemma digits_value_nat_str [simp]: "digits_value (nat_str n) = n"
proof (induction n rule: nat_str.induct)
  case (1 n)
  show ?case
  proof (cases "n < 10")
    case True
    then show ?thesis using digits_value_snoc [of "[]"] by (simp add: nat_str.simps [of n] digits_value_def)
  next
    case False
    then have "digits_value (nat_str n) = n div 10 * 10 + n mod 10"
      using 1 by (simp add: nat_str.simps [of n])
    then show ?thesis by simp
  qed
qed

lemma nat_str_inj [simp]: "nat_str m = nat_str n \<longleftrightarrow> m = n"
  by (metis digits_value_nat_str)

lemma nat_str_not_Nil [simp]: "nat_str n \<noteq> []"
  by (subst nat_str.simps) auto

lemma wrap64_id [simp]: "fits64 x \<Longrightarrow> wrap64 x = x"
  by (simp add: wrap64_def fits64_def)

lemma nat_str_head: "\<not> is_digit c \<Longrightarrow> \<not> prefix [c] (nat_str n)"
  using nat_str_digits [of n] by (cases "nat_str n") (auto simp: list_all_iff)

lemma atoi_nat_str: "fits64 (int n) \<Longrightarrow> atoi (nat_str n) = Some (int n)"
  by (simp add: atoi_def Let_def nat_str_head is_digit_def nat_str_digits)

subsection \<open>Transition systems\<close>

text \<open>
  The states a component can reach, and the interface of an invariant: it holds initially and
  every step keeps it. Each component with a step relation interprets \<open>invariant\<close> on its
  own states.
\<close>

inductive reach :: "('s \<Rightarrow> bool) \<Rightarrow> ('s \<Rightarrow> 's \<Rightarrow> bool) \<Rightarrow> 's \<Rightarrow> bool"
  for init :: "'s \<Rightarrow> bool" and step :: "'s \<Rightarrow> 's \<Rightarrow> bool" where
  reach_init: "init s \<Longrightarrow> reach init step s"
| reach_step: "reach init step s \<Longrightarrow> step s s' \<Longrightarrow> reach init step s'"

locale invariant =
  fixes init :: "'s \<Rightarrow> bool" and step :: "'s \<Rightarrow> 's \<Rightarrow> bool" and inv :: "'s \<Rightarrow> bool"
  assumes inv_init: "init s \<Longrightarrow> inv s"
    and inv_step: "inv s \<Longrightarrow> step s s' \<Longrightarrow> inv s'"
begin

lemma reach_inv: "reach init step s \<Longrightarrow> inv s"
  by (induction rule: reach.induct) (auto intro: inv_init inv_step)

end

text \<open>
  Runs with their events, and the interface of a functional refinement: every step changes the
  abstract state the way the specification does on what is observable of the event.
\<close>

inductive trace_of :: "('s \<Rightarrow> 'e \<Rightarrow> 's \<Rightarrow> bool) \<Rightarrow> 's \<Rightarrow> 'e list \<Rightarrow> 's \<Rightarrow> bool"
  for step :: "'s \<Rightarrow> 'e \<Rightarrow> 's \<Rightarrow> bool" and s :: 's where
  trace_nil: "trace_of step s [] s"
| trace_snoc: "trace_of step s es s' \<Longrightarrow> step s' e s'' \<Longrightarrow> trace_of step s (es @ [e]) s''"

locale refinement =
  fixes step :: "'s \<Rightarrow> 'e \<Rightarrow> 's \<Rightarrow> bool" and spec :: "'a \<Rightarrow> 'o \<Rightarrow> 'a" and obs :: "'e \<Rightarrow> 'o" and abst :: "'s \<Rightarrow> 'a"
  assumes refines: "step s e s' \<Longrightarrow> abst s' = spec (abst s) (obs e)"
begin

lemma trace_refines: "trace_of step s es s' \<Longrightarrow> abst s' = foldl spec (abst s) (map obs es)"
  by (induction rule: trace_of.induct) (auto dest: refines)

end

lemma trace_keeps:
  assumes "trace_of step s es s'" and "\<And>s e s'. step s e s' \<Longrightarrow> f s' = f s"
  shows "f s' = f s"
  using assms(1) by (induction rule: trace_of.induct) (auto simp: assms(2))

subsection \<open>Association lists as Go maps\<close>

text \<open>\<open>m[k] = v\<close> and \<open>delete(m, k)\<close> on an association list with distinct keys, whose order
  is the order Go iterates the map in.\<close>

fun map_put :: "'k \<Rightarrow> 'v \<Rightarrow> ('k \<times> 'v) list \<Rightarrow> ('k \<times> 'v) list" where
  "map_put k v [] = [(k, v)]"
| "map_put k v ((k', v') # m) = (if k = k' then (k, v) # m else (k', v') # map_put k v m)"

definition map_del :: "'k \<Rightarrow> ('k \<times> 'v) list \<Rightarrow> ('k \<times> 'v) list" where
  "map_del k m = filter (\<lambda>(k', v). k' \<noteq> k) m"

lemma map_of_put [simp]: "map_of (map_put k v m) = (map_of m)(k \<mapsto> v)"
  by (induction m) auto

lemma map_of_del [simp]: "map_of (map_del k m) = (map_of m)(k := None)"
  by (induction m) (auto simp: map_del_def)

lemma keys_put: "fst ` set (map_put k v m) = insert k (fst ` set m)"
proof (induction m)
  case (Cons a m)
  then show ?case by (cases a) (simp add: insert_commute)
qed simp

lemma keys_del [simp]: "fst ` set (map_del k m) = fst ` set m - {k}"
  by (force simp: map_del_def)

lemma distinct_put: "distinct (map fst m) \<Longrightarrow> distinct (map fst (map_put k v m))"
proof (induction m)
  case (Cons a m)
  then show ?case using keys_put [of k v m] by (cases a) auto
qed simp

lemma distinct_del: "distinct (map fst m) \<Longrightarrow> distinct (map fst (map_del k m))"
  unfolding map_del_def by (rule distinct_map_filter)

end
