(* ===== verification/Relocate.thy ===== *)
theory Relocate
  imports Prelude
begin

text \<open>
  The relocation convention of \<^verbatim>\<open>internal/relocate/relocate.go\<close>: where an
  ingredient named by a nominal reference lands, and the canonical name of a registry host.
  Every error return of \<open>splitRef\<close> is a constructor of \<open>ref_error\<close>, in source order.
\<close>

datatype ref_error =
    EmptyReference
  | HasScheme string
  | IPv6Host string
  | PinsDigest string
  | NoExplicitHost string
  | CarriesTag string
  | EmptyComponent string
  | MalformedPort string

text \<open>The closed alias table \<open>dockerHubAliases\<close>.\<close>

definition dockerHubAliases :: "(string \<times> string) list" where
  "dockerHubAliases =
     [(''index.docker.io'', ''docker.io''), (''registry-1.docker.io'', ''docker.io'')]"

definition canonical_alias :: "string \<Rightarrow> string" where
  "canonical_alias h = (case map_of dockerHubAliases h of Some c \<Rightarrow> c | None \<Rightarrow> h)"

text \<open>The port rewriting: \<^verbatim>\<open>host:5000\<close> becomes \<^verbatim>\<open>host_5000\<close>.\<close>

definition rewrite_port :: "string \<Rightarrow> string \<Rightarrow> ref_error + string" where
  "rewrite_port ref host =
     (case index_byte CHR '':'' host of
        None \<Rightarrow> Inr host
      | Some colon \<Rightarrow>
          (let port = drop (Suc colon) host in
           if port = [] \<or> CHR '':'' \<in> set port then Inl (MalformedPort ref)
           else if \<exists>r \<in> set port. \<not> is_digit r then Inl (MalformedPort ref)
           else Inr (take colon host @ CHR ''_'' # port)))"

definition splitRef :: "string \<Rightarrow> ref_error + (string \<times> string)" where
  "splitRef ref =
     (if ref = [] then Inl EmptyReference
      else if contains ref ''://'' then Inl (HasScheme ref)
      else if has_prefix ref ''['' then Inl (IPv6Host ref)
      else if CHR ''@'' \<in> set ref then Inl (PinsDigest ref)
      else (case index_byte CHR ''/'' ref of
          None \<Rightarrow> Inl (NoExplicitHost ref)
        | Some slash \<Rightarrow>
            if slash = 0 then Inl (NoExplicitHost ref)
            else (let host = take slash ref; repo = drop (Suc slash) ref in
              if CHR '':'' \<in> set repo then Inl (CarriesTag ref)
              else if repo = [] \<or> has_prefix repo ''/'' \<or> has_suffix repo ''/''
                      \<or> contains repo ''//'' then Inl (EmptyComponent ref)
              else (let host = to_lower host in
                if CHR ''.'' \<notin> set host \<and> CHR '':'' \<notin> set host \<and> host \<noteq> ''localhost''
                then Inl (NoExplicitHost ref)
                else bind_r (rewrite_port ref host)
                       (\<lambda>host. Inr (canonical_alias host, repo))))))"

definition Path :: "string \<Rightarrow> ref_error + string" where
  "Path nominalRef = bind_r (splitRef nominalRef) (\<lambda>(host, repo). Inr (host @ ''/'' @ repo))"

definition PathWithBase :: "string \<Rightarrow> string \<Rightarrow> ref_error + string" where
  "PathWithBase base nominalRef =
     bind_r (Path nominalRef)
       (\<lambda>p. let base = trim_by (\<lambda>c. c = CHR ''/'') base in
            if base = [] then Inr p else Inr (base @ ''/'' @ p))"

definition Host :: "string \<Rightarrow> ref_error + string" where
  "Host host =
     bind_r (splitRef (host @ ''/x'')) (\<lambda>(h, _). Inr (replace_byte CHR ''_'' CHR '':'' h))"

subsection \<open>The shape of a successful split\<close>

lemma separators_not_letters [simp]:
  "\<not> is_letter CHR '':''" "\<not> is_letter CHR ''/''" "\<not> is_letter CHR ''_''"
  "\<not> is_letter CHR ''.''" "\<not> is_letter CHR ''@''" "\<not> is_letter CHR ''[''"
  by (simp_all add: is_letter_def is_upper_def)

lemmas to_lower_sep [simp] =
  to_lower_mem_iff [of "CHR '':''", simplified] to_lower_mem_iff [of "CHR ''/''", simplified]
  to_lower_mem_iff [of "CHR ''_''", simplified] to_lower_mem_iff [of "CHR ''.''", simplified]
  to_lower_mem_iff [of "CHR ''@''", simplified]

text \<open>What the repository half of a reference must look like.\<close>

definition repo_ok :: "string \<Rightarrow> bool" where
  "repo_ok repo \<longleftrightarrow> CHR '':'' \<notin> set repo \<and> repo \<noteq> [] \<and> \<not> has_prefix repo ''/''
     \<and> \<not> has_suffix repo ''/'' \<and> \<not> contains repo ''//''"

definition host_recognizable :: "string \<Rightarrow> bool" where
  "host_recognizable h \<longleftrightarrow> CHR ''.'' \<in> set h \<or> CHR '':'' \<in> set h \<or> h = ''localhost''"

lemma no_scheme:
  assumes "CHR ''/'' \<notin> set h" and "\<not> has_prefix repo ''/''" and "CHR '':'' \<notin> set repo"
  shows "\<not> contains (h @ CHR ''/'' # repo) ''://''"
proof
  assume "contains (h @ CHR ''/'' # repo) ''://''"
  then obtain u v where uv: "h @ CHR ''/'' # repo = u @ ''://'' @ v"
    by (auto simp: sublist_def)
  show False
  proof (cases "CHR ''/'' \<in> set u")
    case True
    then obtain u1 u2 where u: "u = u1 @ CHR ''/'' # u2" "CHR ''/'' \<notin> set u1"
      by (meson split_list_first)
    with uv have "u1 @ CHR ''/'' # (u2 @ ''://'' @ v) = h @ CHR ''/'' # repo" by simp
    with u(2) assms(1) have "repo = u2 @ ''://'' @ v" by (metis first_sep_unique)
    with assms(3) show False by simp
  next
    case False
    then have "CHR ''/'' \<notin> set (u @ '':'')" by simp
    moreover from uv have "(u @ '':'') @ CHR ''/'' # (CHR ''/'' # v) = h @ CHR ''/'' # repo" by simp
    ultimately have "repo = CHR ''/'' # v" using assms(1) by (metis first_sep_unique)
    with assms(2) show False by simp
  qed
qed

text \<open>
  The characterisation every other lemma of this theory rests on: a split succeeds exactly
  on \<open>h/repo\<close> with a recognizable host, a clean repository and a well-formed port.
\<close>

lemma splitRef_iff:
  "splitRef ref = Inr (host, repo) \<longleftrightarrow>
     (\<exists>h h'. ref = h @ CHR ''/'' # repo \<and> h \<noteq> [] \<and> CHR ''/'' \<notin> set h \<and> CHR ''@'' \<notin> set ref
        \<and> \<not> has_prefix h ''['' \<and> repo_ok repo \<and> host_recognizable (to_lower h)
        \<and> rewrite_port ref (to_lower h) = Inr h' \<and> host = canonical_alias h')"
    (is "?L \<longleftrightarrow> ?R")
proof
  assume L: ?L
  then obtain slash where s: "index_byte CHR ''/'' ref = Some slash" "slash \<noteq> 0"
    by (auto simp: splitRef_def split: if_splits option.splits)
  from s(1) obtain h r where hr: "ref = h @ CHR ''/'' # r" "CHR ''/'' \<notin> set h" "length h = slash"
    by (rule index_byte_SomeE)
  have "h \<noteq> []" using hr(3) s(2) by auto
  with L hr show ?R
    by (auto simp: splitRef_def repo_ok_def host_recognizable_def Let_def bind_r_Inr_iff
        split: if_splits)
next
  assume ?R
  then obtain h h' where h: "ref = h @ CHR ''/'' # repo" "h \<noteq> []" "CHR ''/'' \<notin> set h"
    "CHR ''@'' \<notin> set ref" "\<not> has_prefix h ''[''" "repo_ok repo"
    "host_recognizable (to_lower h)" "rewrite_port ref (to_lower h) = Inr h'"
    "host = canonical_alias h'" by blast
  have "\<not> has_prefix ref ''[''" using h(1,2,5) by (cases h) auto
  moreover have "\<not> contains ref ''://''"
    using no_scheme [of h repo] h(1,3,6) by (simp add: repo_ok_def)
  ultimately show ?L using h
    by (auto simp: splitRef_def repo_ok_def host_recognizable_def Let_def)
qed

subsection \<open>Canonical hosts\<close>

lemma canonical_alias_cases:
  "canonical_alias h = h \<and> h \<noteq> ''index.docker.io'' \<and> h \<noteq> ''registry-1.docker.io''
   \<or> canonical_alias h = ''docker.io'' \<and> (h = ''index.docker.io'' \<or> h = ''registry-1.docker.io'')"
  by (auto simp: canonical_alias_def dockerHubAliases_def)

lemma canonical_alias_idem [simp]: "canonical_alias (canonical_alias h) = canonical_alias h"
  by (auto simp: canonical_alias_def dockerHubAliases_def)

lemma canonical_alias_sep:
  "c \<in> {CHR ''_'', CHR '':'', CHR ''/'', CHR ''@'', CHR ''[''} \<Longrightarrow>
     c \<in> set (canonical_alias h) \<longleftrightarrow> c \<in> set h"
  using canonical_alias_cases [of h] by auto

lemma to_lower_canonical_alias:
  "to_lower h = h \<Longrightarrow> to_lower (canonical_alias h) = canonical_alias h"
  using canonical_alias_cases [of h]
  by (auto simp: to_lower_def lower_char_def is_upper_def)

lemma to_lower_digits: "list_all is_digit p \<Longrightarrow> to_lower p = p"
  by (induction p) (auto simp: to_lower_def lower_char_def is_upper_def is_digit_def)

text \<open>The two outcomes of the port rewriting.\<close>

lemma rewrite_port_iff:
  "rewrite_port ref h = Inr h' \<longleftrightarrow>
     CHR '':'' \<notin> set h \<and> h' = h
   \<or> (\<exists>n p. h = n @ CHR '':'' # p \<and> CHR '':'' \<notin> set n \<and> p \<noteq> [] \<and> CHR '':'' \<notin> set p
         \<and> list_all is_digit p \<and> h' = n @ CHR ''_'' # p)"
proof (cases "CHR '':'' \<in> set h")
  case True
  then obtain n p where np: "h = n @ CHR '':'' # p" "CHR '':'' \<notin> set n"
    by (meson split_list_first)
  then have "index_byte CHR '':'' h = Some (length n)" by simp
  with np show ?thesis
    by (auto simp: rewrite_port_def Let_def list_all_iff split: if_splits) (metis first_sep_unique)+
next
  case False
  then show ?thesis by (auto simp: rewrite_port_def)
qed

lemma rewrite_port_plain [simp]: "CHR '':'' \<notin> set h \<Longrightarrow> rewrite_port ref h = Inr h"
  by (simp add: rewrite_port_def)

text \<open>The canonical host of a nominal host, in the two shapes it can take.\<close>

inductive canonical_host :: "string \<Rightarrow> string \<Rightarrow> bool" where
  plain: "CHR '':'' \<notin> set h \<Longrightarrow> canonical_host h (canonical_alias (to_lower h))"
| ported: "CHR '':'' \<notin> set n \<Longrightarrow> p \<noteq> [] \<Longrightarrow> list_all is_digit p \<Longrightarrow>
     canonical_host (n @ CHR '':'' # p) (to_lower n @ CHR ''_'' # p)"

inductive_cases canonical_hostE: "canonical_host h c"

lemma digit_sep [simp]:
  "\<not> is_digit CHR '':''" "\<not> is_digit CHR ''_''" "\<not> is_digit CHR ''/''"
  "\<not> is_digit CHR ''@''" "\<not> is_digit CHR ''.''" "\<not> is_digit CHR ''[''"
  by (simp_all add: is_digit_def)

lemma digits_free [simp]:
  "list_all is_digit p \<Longrightarrow> CHR '':'' \<notin> set p" "list_all is_digit p \<Longrightarrow> CHR ''_'' \<notin> set p"
  "list_all is_digit p \<Longrightarrow> CHR ''/'' \<notin> set p" "list_all is_digit p \<Longrightarrow> CHR ''@'' \<notin> set p"
  by (auto simp: list_all_iff)

lemma canonical_alias_underscore: "CHR ''_'' \<in> set h \<Longrightarrow> canonical_alias h = h"
  using canonical_alias_cases [of h] by auto

lemma to_lower_Cons [simp]: "to_lower (c # s) = lower_char c # to_lower s"
  by (simp add: to_lower_def)

lemma to_lower_Nil [simp]: "to_lower [] = []"
  by (simp add: to_lower_def)

lemma lower_char_sep [simp]: "lower_char CHR '':'' = CHR '':''" "lower_char CHR ''_'' = CHR ''_''"
  "lower_char CHR ''/'' = CHR ''/''"
  by (simp_all add: lower_char_def is_upper_def)

lemma rewrite_canonical:
  "(\<exists>h'. rewrite_port ref (to_lower h) = Inr h' \<and> c = canonical_alias h') \<longleftrightarrow> canonical_host h c"
    (is "?L \<longleftrightarrow> ?R")
proof
  assume ?L
  then obtain h' where h': "rewrite_port ref (to_lower h) = Inr h'" "c = canonical_alias h'" by blast
  show ?R
  proof (cases "CHR '':'' \<in> set h")
    case False
    with h' show ?thesis by (auto intro: canonical_host.intros)
  next
    case True
    then obtain n p where np: "h = n @ CHR '':'' # p" "CHR '':'' \<notin> set n"
      by (meson split_list_first)
    from h'(1) True obtain n' p' where l: "to_lower h = n' @ CHR '':'' # p'" "CHR '':'' \<notin> set n'"
      "p' \<noteq> []" "list_all is_digit p'" "h' = n' @ CHR ''_'' # p'"
      by (auto simp: rewrite_port_iff)
    from l(1) np have "to_lower n @ CHR '':'' # to_lower p = n' @ CHR '':'' # p'" by simp
    with l(2) np(2) have e: "n' = to_lower n" "p' = to_lower p"
      by (metis first_sep_unique to_lower_sep(1))+
    have "list_all is_digit p"
      using l(4) e(2) by (auto simp: to_lower_def list_all_iff is_digit_def lower_char_code is_upper_def
          split: if_splits)
    moreover have "p \<noteq> []" using l(3) e(2) by auto
    ultimately show ?thesis using np e h'(2) l(5)
      by (auto simp: canonical_alias_underscore to_lower_digits intro: canonical_host.ported)
  qed
next
  assume ?R
  then show ?L
  proof (cases rule: canonical_host.cases)
    case plain
    then show ?thesis by (auto simp: rewrite_port_iff)
  next
    case (ported n p)
    then have "to_lower h = to_lower n @ CHR '':'' # p" by (simp add: to_lower_digits)
    with ported have "rewrite_port ref (to_lower h) = Inr (to_lower n @ CHR ''_'' # p)"
      by (simp add: rewrite_port_def) (simp add: list_all_iff)
    moreover have "c = canonical_alias (to_lower n @ CHR ''_'' # p)"
      using ported by (simp add: canonical_alias_underscore)
    ultimately show ?thesis by blast
  qed
qed

lemma splitRef_canonical:
  "splitRef ref = Inr (host, repo) \<longleftrightarrow>
     (\<exists>h. ref = h @ CHR ''/'' # repo \<and> h \<noteq> [] \<and> CHR ''/'' \<notin> set h \<and> CHR ''@'' \<notin> set ref
        \<and> \<not> has_prefix h ''['' \<and> repo_ok repo \<and> host_recognizable (to_lower h)
        \<and> canonical_host h host)"
  by (auto simp: splitRef_iff simp flip: rewrite_canonical [of ref])

lemma canonical_alias_Nil [simp]:
  "canonical_alias h = [] \<longleftrightarrow> h = []" "[] = canonical_alias h \<longleftrightarrow> h = []"
  using canonical_alias_cases [of h] by auto

lemma canonical_host_no_colon: "canonical_host h c \<Longrightarrow> CHR '':'' \<notin> set c"
  by (erule canonical_hostE) (simp_all add: canonical_alias_sep)

lemma canonical_host_slash: "canonical_host h c \<Longrightarrow> CHR ''/'' \<notin> set h \<Longrightarrow> CHR ''/'' \<notin> set c"
  by (auto elim!: canonical_hostE simp: canonical_alias_sep)

lemma canonical_host_at: "canonical_host h c \<Longrightarrow> CHR ''@'' \<notin> set h \<Longrightarrow> CHR ''@'' \<notin> set c"
  by (auto elim!: canonical_hostE simp: canonical_alias_sep)

lemma canonical_host_lower: "canonical_host h c \<Longrightarrow> to_lower c = c"
  by (auto elim!: canonical_hostE simp: to_lower_canonical_alias to_lower_digits)

lemma canonical_host_Nil: "canonical_host h c \<Longrightarrow> h \<noteq> [] \<Longrightarrow> c \<noteq> []"
  by (auto elim!: canonical_hostE)

lemma canonical_host_bracket:
  "canonical_host h c \<Longrightarrow> h \<noteq> [] \<Longrightarrow> \<not> has_prefix h ''['' \<Longrightarrow> \<not> has_prefix c ''[''"
proof (erule canonical_hostE)
  assume a: "\<not> has_prefix h ''[''" "h \<noteq> []" "c = canonical_alias (to_lower h)"
  then have "\<not> has_prefix (to_lower h) ''[''"
    by (cases h) (auto simp: lower_char_eq_iff eq_commute [of "CHR ''[''"])
  with a(3) canonical_alias_cases [of "to_lower h"] show ?thesis by auto
next
  fix n p assume a: "\<not> has_prefix h ''[''" "h = n @ CHR '':'' # p" "c = to_lower n @ CHR ''_'' # p"
  then show ?thesis
    by (cases n) (auto simp: lower_char_eq_iff eq_commute [of "CHR ''[''"])
qed

lemmas canonical_host_facts = canonical_host_no_colon canonical_host_slash canonical_host_at
  canonical_host_lower canonical_host_Nil canonical_host_bracket

subsection \<open>Properties of the relocation\<close>

lemma Path_iff:
  "Path ref = Inr p \<longleftrightarrow> (\<exists>host repo. splitRef ref = Inr (host, repo) \<and> p = host @ ''/'' @ repo)"
  by (auto simp: Path_def bind_r_Inr_iff)

lemma Path_shape:
  assumes "Path ref = Inr p"
  obtains h host repo where "ref = h @ CHR ''/'' # repo" "p = host @ CHR ''/'' # repo"
    "CHR ''/'' \<notin> set h" "h \<noteq> []" "\<not> has_prefix h ''[''" "CHR ''@'' \<notin> set ref"
    "repo_ok repo" "canonical_host h host"
  using assms by (auto simp: Path_iff splitRef_canonical)

lemma canonical_host_stable:
  assumes "canonical_host h c"
  shows "canonical_host c c"
proof -
  have "canonical_host c (canonical_alias (to_lower c))"
    by (rule canonical_host.plain) (rule canonical_host_no_colon [OF assms])
  moreover have "canonical_alias (to_lower c) = c"
    using assms by (auto elim!: canonical_hostE
        simp: to_lower_canonical_alias to_lower_digits canonical_alias_underscore)
  ultimately show ?thesis by simp
qed

text \<open>Reading back the host form of a canonical host: \<open>_\<close> becomes \<open>:\<close> again.\<close>

lemma canonical_host_host_form:
  assumes "canonical_host h c" and "CHR ''_'' \<notin> set h"
  shows "canonical_host (replace_byte CHR ''_'' CHR '':'' c) c"
  using assms(1)
proof (cases rule: canonical_host.cases)
  case plain
  then have "CHR ''_'' \<notin> set c" using assms(2) by (simp add: canonical_alias_sep)
  then show ?thesis using canonical_host_stable [OF assms(1)] by simp
next
  case (ported n p)
  then have "replace_byte CHR ''_'' CHR '':'' c = to_lower n @ CHR '':'' # p"
    using assms(2) by simp
  moreover have "canonical_host (to_lower n @ CHR '':'' # p) (to_lower (to_lower n) @ CHR ''_'' # p)"
    using ported by (intro canonical_host.ported) auto
  ultimately show ?thesis using ported by simp
qed

lemma repo_ok_x: "repo_ok ''x''"
  by (simp add: repo_ok_def suffix_Cons sublist_Cons_right)

lemma Host_iff:
  assumes "CHR ''/'' \<notin> set h"
  shows "Host h = Inr c \<longleftrightarrow> h \<noteq> [] \<and> CHR ''@'' \<notin> set h \<and> \<not> has_prefix h ''[''
     \<and> host_recognizable (to_lower h)
     \<and> (\<exists>c'. canonical_host h c' \<and> c = replace_byte CHR ''_'' CHR '':'' c')"
proof -
  have eq: "h @ ''/x'' = g @ CHR ''/'' # repo \<and> CHR ''/'' \<notin> set g \<longleftrightarrow> g = h \<and> repo = ''x''" for g repo
    using assms first_sep_unique [of "CHR ''/''" h g "''x''" repo] by auto
  have "Host h = Inr c \<longleftrightarrow>
      (\<exists>host repo g. h @ ''/x'' = g @ CHR ''/'' # repo \<and> CHR ''/'' \<notin> set g \<and> g \<noteq> []
         \<and> CHR ''@'' \<notin> set (h @ ''/x'') \<and> \<not> has_prefix g ''['' \<and> repo_ok repo
         \<and> host_recognizable (to_lower g) \<and> canonical_host g host
         \<and> c = replace_byte CHR ''_'' CHR '':'' host)"
    unfolding Host_def bind_r_Inr_iff by (simp add: splitRef_canonical split: prod.splits) blast
  also have "\<dots> \<longleftrightarrow> h \<noteq> [] \<and> CHR ''@'' \<notin> set h \<and> \<not> has_prefix h ''[''
     \<and> host_recognizable (to_lower h)
     \<and> (\<exists>c'. canonical_host h c' \<and> c = replace_byte CHR ''_'' CHR '':'' c')"
    using eq repo_ok_x by simp metis
  finally show ?thesis .
qed

subsection \<open>Main results\<close>

text \<open>A successful relocation keeps the repository half of the nominal reference byte for
  byte, puts it under one lower-case host component that carries no \<open>:\<close>, \<open>@\<close> or \<open>/\<close>, and so
  always yields a clean repository path.\<close>

theorem Path_well_formed:
  assumes "Path ref = Inr p"
  shows "\<exists>h host repo. ref = h @ ''/'' @ repo \<and> p = host @ ''/'' @ repo \<and> repo_ok repo
    \<and> host \<noteq> [] \<and> to_lower host = host \<and> CHR ''/'' \<notin> set host
    \<and> CHR '':'' \<notin> set p \<and> CHR ''@'' \<notin> set p"
proof -
  from assms obtain h host repo where r: "ref = h @ CHR ''/'' # repo" "p = host @ CHR ''/'' # repo"
    "CHR ''/'' \<notin> set h" "h \<noteq> []" "CHR ''@'' \<notin> set ref" "repo_ok repo" "canonical_host h host"
    by (elim Path_shape)
  have "CHR '':'' \<notin> set p" "CHR ''@'' \<notin> set p"
    using r canonical_host_no_colon [OF r(7)] canonical_host_at [OF r(7)]
    by (auto simp: repo_ok_def)
  with r canonical_host_facts [OF r(7)] show ?thesis by auto
qed

theorem Path_well_formed_witness:
  "\<exists>h host repo. ''Reg.Example.com:5000/a/b'' = h @ ''/'' @ repo
    \<and> ''reg.example.com_5000/a/b'' = host @ ''/'' @ repo \<and> repo_ok repo
    \<and> host \<noteq> [] \<and> to_lower host = host \<and> CHR ''/'' \<notin> set host
    \<and> CHR '':'' \<notin> set ''reg.example.com_5000/a/b'' \<and> CHR ''@'' \<notin> set ''reg.example.com_5000/a/b''"
proof -
  have "Path ''Reg.Example.com:5000/a/b'' = Inr ''reg.example.com_5000/a/b''" by code_simp
  then show ?thesis by (rule Path_well_formed)
qed

text \<open>The relocated path is invariant across cascaded hops: relocating a relocated path
  whose host is still recognizable changes nothing.\<close>

theorem Path_idempotent:
  assumes "Path ref = Inr (host @ ''/'' @ repo)" and "CHR ''/'' \<notin> set host"
    and "CHR ''.'' \<in> set host"
  shows "Path (host @ ''/'' @ repo) = Inr (host @ ''/'' @ repo)"
proof -
  from assms(1) obtain h host' repo' where r: "host @ ''/'' @ repo = host' @ CHR ''/'' # repo'"
    "CHR ''/'' \<notin> set h" "h \<noteq> []" "\<not> has_prefix h ''[''" "CHR ''@'' \<notin> set ref"
    "repo_ok repo'" "canonical_host h host'" "ref = h @ CHR ''/'' # repo'"
    by (elim Path_shape)
  have e: "host' = host" "repo' = repo"
    using r(1) assms(2) canonical_host_slash [OF r(7) r(2)] first_sep_unique [of "CHR ''/''" host host' repo repo']
    by auto
  have "splitRef (host @ CHR ''/'' # repo) = Inr (host, repo)"
    using assms(2,3) r e canonical_host_facts [OF r(7)] canonical_host_stable [OF r(7)]
    by (auto simp: splitRef_canonical host_recognizable_def)
  then show ?thesis by (auto simp: Path_iff)
qed

theorem Path_idempotent_witness:
  "Path (''docker.io'' @ ''/'' @ ''library/nginx'') = Inr (''docker.io'' @ ''/'' @ ''library/nginx'')"
proof -
  have "Path ''index.docker.io/library/nginx'' = Inr (''docker.io'' @ ''/'' @ ''library/nginx'')"
    by code_simp
  then show ?thesis by (rule Path_idempotent) simp_all
qed

text \<open>C24: Distinct registries never share a relocated path: if two references over
  underscore-free hosts relocate to the same path, they name the same repository on hosts with
  the same canonical form.\<close>

theorem Path_separates_registries:
  assumes "Path (h1 @ ''/'' @ r1) = Inr p" and "Path (h2 @ ''/'' @ r2) = Inr p"
    and "CHR ''/'' \<notin> set h1" and "CHR ''/'' \<notin> set h2"
    and "CHR ''_'' \<notin> set h1" and "CHR ''_'' \<notin> set h2"
  shows "r1 = r2 \<and> Host h1 = Host h2 \<and> is_ok (Host h1)"
proof -
  from assms(1,3) obtain c1 where c1: "p = c1 @ CHR ''/'' # r1" "canonical_host h1 c1"
    "h1 \<noteq> []" "\<not> has_prefix h1 ''[''" "CHR ''@'' \<notin> set h1" "host_recognizable (to_lower h1)"
    by (auto simp: Path_iff splitRef_canonical first_sep_unique)
  from assms(2,4) obtain c2 where c2: "p = c2 @ CHR ''/'' # r2" "canonical_host h2 c2"
    "h2 \<noteq> []" "\<not> has_prefix h2 ''[''" "CHR ''@'' \<notin> set h2" "host_recognizable (to_lower h2)"
    by (auto simp: Path_iff splitRef_canonical first_sep_unique)
  have "c1 = c2 \<and> r1 = r2"
    using c1(1) c2(1) canonical_host_slash [OF c1(2) assms(3)] canonical_host_slash [OF c2(2) assms(4)]
    by (simp add: first_sep_unique)
  moreover have "Host h1 = Inr (replace_byte CHR ''_'' CHR '':'' c1)"
    using c1 assms(3) by (auto simp: Host_iff)
  moreover have "Host h2 = Inr (replace_byte CHR ''_'' CHR '':'' c2)"
    using c2 assms(4) by (auto simp: Host_iff)
  ultimately show ?thesis by simp
qed

theorem Path_separates_registries_witness:
  "''library/nginx'' = ''library/nginx'' \<and> Host ''index.docker.io'' = Host ''docker.io''
   \<and> is_ok (Host ''index.docker.io'')"
proof (rule Path_separates_registries)
  show "Path (''index.docker.io'' @ ''/'' @ ''library/nginx'') = Inr ''docker.io/library/nginx''"
    by code_simp
  show "Path (''docker.io'' @ ''/'' @ ''library/nginx'') = Inr ''docker.io/library/nginx''"
    by code_simp
qed simp_all

text \<open>The comment on the port rewriting relies on hostnames never containing an underscore,
  which the code does not check: a host \<^verbatim>\<open>reg.example.com_5000\<close> is accepted, shares
  its relocated path with port 5000 of \<^verbatim>\<open>reg.example.com\<close>, is canonicalized to it,
  and a host with an underscore elsewhere has a canonical form that is itself refused.\<close>

theorem Host_underscore_collision:
  "Path ''reg.example.com_5000/a'' = Path ''reg.example.com:5000/a''
   \<and> Host ''reg.example.com_5000'' = Inr ''reg.example.com:5000''
   \<and> Host ''my_host.example.com'' = Inr ''my:host.example.com''
   \<and> \<not> is_ok (Host ''my:host.example.com'')"
  by code_simp

subsection \<open>Hosts as comparison keys\<close>

text \<open>
  What the clients of \<open>Host\<close> rely on: on underscore-free hosts it is a projection, so both
  sides of a comparison can be canonicalized any number of times.
\<close>

lemma Host_idem:
  assumes "Host h = Inr c" and "CHR ''/'' \<notin> set h" and "CHR ''_'' \<notin> set h"
  shows "Host c = Inr c"
proof -
  from assms(1,2) obtain c' where c: "h \<noteq> []" "CHR ''@'' \<notin> set h" "\<not> has_prefix h ''[''"
    "host_recognizable (to_lower h)" "canonical_host h c'" "c = replace_byte CHR ''_'' CHR '':'' c'"
    by (auto simp: Host_iff)
  note k = canonical_host_host_form [OF c(5) assms(3)]
  have "CHR ''/'' \<notin> set c" "CHR ''@'' \<notin> set c" "c \<noteq> []" "\<not> has_prefix c ''[''"
    using c(6) canonical_host_slash [OF c(5) assms(2)] canonical_host_at [OF c(5) c(2)]
      canonical_host_Nil [OF c(5) c(1)] canonical_host_bracket [OF c(5) c(1) c(3)]
    by (cases c'; auto simp: replace_byte_def split: if_splits)+
  moreover have "host_recognizable (to_lower c)"
    using c(4,5) unfolding c(6)
  proof (cases rule: canonical_host.cases [OF c(5)])
    case plain: 1
    have "CHR ''_'' \<notin> set c'" using plain assms(3) by (simp add: canonical_alias_sep)
    with plain c(4) show "host_recognizable (to_lower (replace_byte CHR ''_'' CHR '':'' c'))"
      using canonical_alias_cases [of "to_lower h"]
      by (auto simp: host_recognizable_def to_lower_canonical_alias)
  next
    case (2 n p)
    then show "host_recognizable (to_lower (replace_byte CHR ''_'' CHR '':'' c'))"
      by (simp add: host_recognizable_def)
  qed
  ultimately show ?thesis using k c(6) by (auto simp: Host_iff)
qed

end
