(* ===== verification/Wildcard.thy ===== *)
theory Wildcard
  imports Prelude
begin

text \<open>
  The wildcard vocabulary shared by the registry allowlist and the trust scopes. The sources
  spell the matcher twice (\<^verbatim>\<open>matchLabel\<close>/\<^verbatim>\<open>matchLabels\<close> in
  \<^verbatim>\<open>internal/policy\<close>, \<^verbatim>\<open>matchSegment\<close>/\<^verbatim>\<open>matchSegments\<close> in
  \<^verbatim>\<open>internal/engine/trust.go\<close>). This theory states the language they are meant to
  recognise, proves that the leftmost greedy search they both use recognises it, and gives
  the interface through which both are used.
\<close>

subsection \<open>The language of one segment\<close>

text \<open>\<open>*\<close> stands for any run of characters, every other character for itself.\<close>

fun glob :: "string \<Rightarrow> string \<Rightarrow> bool" where
  "glob [] s = (s = [])"
| "glob (c # p) s =
     (if c = CHR ''*'' then glob p s \<or> (case s of [] \<Rightarrow> False | _ # s' \<Rightarrow> glob (c # p) s')
      else (case s of [] \<Rightarrow> False | x # s' \<Rightarrow> x = c \<and> glob p s'))"

text \<open>The same language read off the pieces between the stars.\<close>

fun tails_match :: "string list \<Rightarrow> string \<Rightarrow> bool" where
  "tails_match [] s = True"
| "tails_match [p] s = suffix p s"
| "tails_match (m # q # ms) s = (\<exists>u v. s = u @ m @ v \<and> tails_match (q # ms) v)"

definition parts_match :: "string list \<Rightarrow> string \<Rightarrow> bool" where
  "parts_match parts s =
     (case parts of [] \<Rightarrow> s = [] | [p] \<Rightarrow> s = p
      | p # ps \<Rightarrow> \<exists>v. s = p @ v \<and> tails_match ps v)"

lemma tails_match_extend: "tails_match ps v \<Longrightarrow> tails_match ps (w @ v)"
proof (induction ps arbitrary: v w rule: induct_list012)
  case (2 p)
  then show ?case by (simp add: suffix_appendI)
next
  case (3 m q ms)
  from "3.prems" obtain u v' where "v = u @ m @ v'" "tails_match (q # ms) v'" by auto
  then have "w @ v = (w @ u) @ m @ v'" "tails_match (q # ms) v'" by simp_all
  then show ?case by (metis tails_match.simps(3))
qed simp

lemma tails_match_suffix: "tails_match ps v \<Longrightarrow> suffix v s \<Longrightarrow> tails_match ps s"
  using tails_match_extend by (auto simp: suffix_def)

lemma glob_star: "glob (CHR ''*'' # p) s \<longleftrightarrow> (\<exists>v. suffix v s \<and> glob p v)"
proof (induction s)
  case (Cons x xs)
  then show ?case by (auto simp: suffix_Cons)
qed auto

lemma glob_star_free: "CHR ''*'' \<notin> set p \<Longrightarrow> glob (p @ q) s \<longleftrightarrow> (\<exists>v. s = p @ v \<and> glob q v)"
proof (induction p arbitrary: s)
  case (Cons c p)
  then show ?case by (cases s) auto
qed simp

lemma glob_literal: "CHR ''*'' \<notin> set p \<Longrightarrow> glob p s \<longleftrightarrow> s = p"
  using glob_star_free [of p "[]" s] by simp

lemma tails_match_glob:
  "list_all (\<lambda>p. CHR ''*'' \<notin> set p) ps \<Longrightarrow> ps \<noteq> [] \<Longrightarrow>
     glob (CHR ''*'' # join_with CHR ''*'' ps) s \<longleftrightarrow> tails_match ps s"
proof (induction ps arbitrary: s rule: induct_list012)
  case (2 p)
  then show ?case by (auto simp: glob_star glob_literal simp del: glob.simps)
next
  case (3 m q ms)
  have "glob (CHR ''*'' # join_with CHR ''*'' (m # q # ms)) s \<longleftrightarrow>
      (\<exists>w. suffix w s \<and> (\<exists>v. w = m @ v \<and> glob (CHR ''*'' # join_with CHR ''*'' (q # ms)) v))"
    using "3.prems" by (simp add: glob_star glob_star_free del: glob.simps)
  also have "\<dots> \<longleftrightarrow> (\<exists>w. suffix w s \<and> (\<exists>v. w = m @ v \<and> tails_match (q # ms) v))"
    using "3.IH" "3.prems" by (simp del: glob.simps)
  also have "\<dots> \<longleftrightarrow> tails_match (m # q # ms) s"
    by (auto simp: suffix_def)
  finally show ?case .
qed simp

lemma parts_match_glob: "glob pat s \<longleftrightarrow> parts_match (split_on CHR ''*'' pat) s"
proof -
  have free: "list_all (\<lambda>p. CHR ''*'' \<notin> set p) (split_on CHR ''*'' pat)"
    by (auto simp: list_all_iff dest: split_on_free)
  obtain p ps where pps: "split_on CHR ''*'' pat = p # ps"
    by (cases "split_on CHR ''*'' pat") auto
  have pat: "pat = join_with CHR ''*'' (p # ps)"
    using join_split [of "CHR ''*''" pat] pps by simp
  show ?thesis
  proof (cases ps)
    case Nil
    with pat pps free show ?thesis by (simp add: parts_match_def glob_literal)
  next
    case (Cons q qs)
    with pat have "pat = p @ CHR ''*'' # join_with CHR ''*'' ps" by simp
    with pps free Cons show ?thesis
      by (simp add: parts_match_def glob_star_free tails_match_glob del: glob.simps)
  qed
qed

lemma split_on_inj: "split_on c s = split_on c t \<longleftrightarrow> s = t"
  by (metis join_split)

lemma split_on_star_free:
  "CHR ''*'' \<notin> set h \<Longrightarrow> list_all (\<lambda>p. CHR ''*'' \<notin> set p) (split_on c h)"
proof (induction h)
  case (Cons x xs)
  then show ?case by (auto split: list.splits)
qed simp

subsection \<open>Leftmost greedy search\<close>

text \<open>
  The loop both matchers run over the middle pieces: find the leftmost occurrence, drop
  everything up to its end. It loses no match, because any other choice leaves a shorter
  remainder.
\<close>

fun match_mids :: "string list \<Rightarrow> string \<Rightarrow> string option" where
  "match_mids [] s = Some s"
| "match_mids (mid # mids) s =
     (case str_index s mid of
        None \<Rightarrow> None
      | Some i \<Rightarrow> match_mids mids (drop (i + length mid) s))"

lemma leftmost_suffix:
  assumes "str_index s m = Some i" and "s = u @ m @ v"
  shows "suffix v (drop (i + length m) s)"
proof -
  have "i \<le> length u" using assms by (rule str_index_least)
  then have "drop (i + length m) s = drop (i + length m) (u @ m) @ v"
    using assms(2) by (simp add: drop_append)
  then show ?thesis by (simp add: suffix_def)
qed

lemma match_mids_tails:
  "(case match_mids mids s of None \<Rightarrow> False | Some r \<Rightarrow> suffix l r) \<longleftrightarrow> tails_match (mids @ [l]) s"
proof (induction mids arbitrary: s)
  case (Cons m mids)
  obtain q qs where q: "mids @ [l] = q # qs" by (cases mids) auto
  show ?case
  proof (cases "str_index s m")
    case None
    then show ?thesis using q by (auto dest: str_index_None)
  next
    case (Some i)
    have "tails_match (m # q # qs) s \<longleftrightarrow> tails_match (q # qs) (drop (i + length m) s)"
    proof
      assume "tails_match (m # q # qs) s"
      then obtain u v where "s = u @ m @ v" "tails_match (q # qs) v" by auto
      then show "tails_match (q # qs) (drop (i + length m) s)"
        using leftmost_suffix [OF Some] tails_match_suffix by blast
    next
      assume "tails_match (q # qs) (drop (i + length m) s)"
      moreover have "s = take i s @ m @ drop (i + length m) s"
        using str_index_Some [OF Some] by simp
      ultimately show "tails_match (m # q # qs) s" by (metis tails_match.simps(3))
    qed
    then show ?thesis using Cons [of "drop (i + length m) s"] Some q by simp
  qed
qed simp

text \<open>The whole search of one segment, as both sources write it.\<close>

lemma greedy_glob:
  "(let parts = split_on CHR ''*'' pat in
    if length parts = 1 then pat = s
    else if \<not> has_prefix s (hd parts) then False
    else (case match_mids (butlast (tl parts)) (drop (length (hd parts)) s) of
            None \<Rightarrow> False
          | Some rest \<Rightarrow> has_suffix rest (last parts))) = glob pat s" (is "?greedy = _")
proof -
  obtain p ps where pps: "split_on CHR ''*'' pat = p # ps"
    by (cases "split_on CHR ''*'' pat") auto
  show ?thesis
  proof (cases ps)
    case Nil
    then have "CHR ''*'' \<notin> set pat" using pps length_split_on_1 [of "CHR ''*''" pat] by simp
    then show ?thesis by (auto simp: Let_def glob_literal)
  next
    case (Cons q qs)
    then have ne: "ps \<noteq> []" by simp
    then have mids: "butlast ps @ [last ps] = ps" by simp
    have "glob pat s \<longleftrightarrow> (\<exists>v. s = p @ v \<and> tails_match ps v)"
      using pps Cons by (simp add: parts_match_glob parts_match_def)
    also have "\<dots> \<longleftrightarrow> prefix p s \<and> tails_match ps (drop (length p) s)"
      by (auto simp: prefix_def)
    also have "\<dots> \<longleftrightarrow> ?greedy"
      using pps ne match_mids_tails [where mids = "butlast ps" and s = "drop (length p) s" and l = "last ps"] mids
      by (auto simp: Let_def last_ConsR split: option.splits)
    finally show ?thesis by simp
  qed
qed

subsection \<open>Paths of segments\<close>

text \<open>\<open>**\<close> absorbs any number of segments; every other pattern matches exactly one.\<close>

inductive path_match :: "string list \<Rightarrow> string list \<Rightarrow> bool" where
  pm_nil: "path_match [] []"
| pm_span: "path_match ps ys \<Longrightarrow> path_match (''**'' # ps) (xs @ ys)"
| pm_seg: "p \<noteq> ''**'' \<Longrightarrow> glob p x \<Longrightarrow> path_match ps xs \<Longrightarrow> path_match (p # ps) (x # xs)"

inductive_simps path_match_Nil [simp]: "path_match [] xs"
inductive_simps path_match_Cons: "path_match (p # ps) xs"

text \<open>
  The interface: a segment matcher that recognises \<^const>\<open>glob\<close>, and a path matcher that
  walks both lists the way the sources do. Whoever implements it recognises
  \<^const>\<open>path_match\<close>.
\<close>

locale segment_matcher =
  fixes seg :: "string \<Rightarrow> string \<Rightarrow> bool"
    and segs :: "string list \<Rightarrow> string list \<Rightarrow> bool"
  assumes seg_glob: "seg p s = glob p s"
    and segs_Nil: "segs [] xs = (xs = [])"
    and segs_Cons: "segs (p # ps) xs =
          (if p = ''**'' then (\<exists>k \<in> {0..length xs}. segs ps (drop k xs))
           else (case xs of [] \<Rightarrow> False | y # ys \<Rightarrow> seg p y \<and> segs ps ys))"
begin

lemma segs_path_match: "segs pat xs \<longleftrightarrow> path_match pat xs"
proof (induction pat arbitrary: xs)
  case Nil
  then show ?case by (simp add: segs_Nil)
next
  case (Cons p ps)
  show ?case
  proof (cases "p = ''**''")
    case True
    have "segs (p # ps) xs \<longleftrightarrow> (\<exists>k \<in> {0..length xs}. path_match ps (drop k xs))"
      using True Cons by (simp add: segs_Cons)
    also have "\<dots> \<longleftrightarrow> (\<exists>us ys. xs = us @ ys \<and> path_match ps ys)"
    proof
      assume "\<exists>k \<in> {0..length xs}. path_match ps (drop k xs)"
      then show "\<exists>us ys. xs = us @ ys \<and> path_match ps ys" by (metis append_take_drop_id)
    next
      assume "\<exists>us ys. xs = us @ ys \<and> path_match ps ys"
      then obtain us ys where "xs = us @ ys" "path_match ps ys" by blast
      then have "length us \<in> {0..length xs}" "path_match ps (drop (length us) xs)" by simp_all
      then show "\<exists>k \<in> {0..length xs}. path_match ps (drop k xs)" by blast
    qed
    also have "\<dots> \<longleftrightarrow> path_match (p # ps) xs"
      using True by (simp add: path_match_Cons) blast
    finally show ?thesis .
  next
    case False
    with Cons show ?thesis
      by (cases xs) (auto simp: segs_Cons path_match_Cons seg_glob)
  qed
qed

lemma segs_literal: "list_all (\<lambda>p. CHR ''*'' \<notin> set p) pat \<Longrightarrow> segs pat xs \<longleftrightarrow> xs = pat"
  unfolding segs_path_match
proof (induction pat arbitrary: xs)
  case (Cons p ps)
  from Cons.prems have "p \<noteq> ''**''" by auto
  with Cons show ?case by (auto simp: path_match_Cons glob_literal)
qed simp

lemma segs_span_all: "segs [''**''] xs"
  unfolding segs_path_match using pm_span [OF pm_nil, of xs] by simp

lemma segs_length: "''**'' \<notin> set pat \<Longrightarrow> segs pat xs \<Longrightarrow> length xs = length pat"
proof (induction pat arbitrary: xs)
  case Nil
  then show ?case by (simp add: segs_Nil)
next
  case (Cons p ps)
  then show ?case by (cases xs) (auto simp: segs_Cons)
qed

end

end
