(* ===== verification/Allowlist.thy ===== *)
theory Allowlist
  imports Relocate Wildcard "HOL-Library.Char_ord" "HOL-Library.List_Lexorder"
begin

text \<open>
  The registry allowlist of \<^verbatim>\<open>internal/policy/allowlist.go\<close>. A pointer receiver that
  may be nil is an \<open>option\<close>; the configuration slice, whose nil-ness carries meaning, is a
  \<open>string list option\<close>. The refusal hook is observable as the list of hosts it was called
  with.
\<close>

datatype allow_error =
    EmptyEntry
  | PatternNotHost string
  | PatternInvalid string ref_error

datatype policy_refusal = NotAllowlisted string

record allowlist =
  al_declared :: bool
  al_patterns :: "string list"
  al_observed :: bool

definition canonicalPattern :: "string \<Rightarrow> allow_error + string" where
  "canonicalPattern p =
     (if CHR ''/'' \<in> set p then Inl (PatternNotHost p)
      else if CHR ''*'' \<in> set p then Inr (to_lower p)
      else (case Host p of Inl e \<Rightarrow> Inl (PatternInvalid p e) | Inr host \<Rightarrow> Inr host))"

fun canonicalPatterns :: "string list \<Rightarrow> allow_error + string list" where
  "canonicalPatterns [] = Inr []"
| "canonicalPatterns (raw # rest) =
     (let p = trim_space raw in
      if p = [] then Inl EmptyEntry
      else bind_r (canonicalPattern p)
             (\<lambda>c. bind_r (canonicalPatterns rest) (\<lambda>cs. Inr (c # cs))))"

definition NewAllowlist :: "string list option \<Rightarrow> allow_error + allowlist" where
  "NewAllowlist entries =
     bind_r (canonicalPatterns (case entries of None \<Rightarrow> [] | Some es \<Rightarrow> es))
       (\<lambda>ps. Inr \<lparr>al_declared = (entries \<noteq> None), al_patterns = sort ps, al_observed = False\<rparr>)"

definition Observe :: "allowlist option \<Rightarrow> allowlist option" where
  "Observe a = map_option (\<lambda>a. a\<lparr>al_observed := True\<rparr>) a"

definition Declared :: "allowlist option \<Rightarrow> bool" where
  "Declared a = (case a of None \<Rightarrow> False | Some a \<Rightarrow> al_declared a)"

definition Patterns :: "allowlist option \<Rightarrow> string list" where
  "Patterns a = (case a of None \<Rightarrow> [] | Some a \<Rightarrow> al_patterns a)"

definition splitPort :: "string \<Rightarrow> string \<times> string" where
  "splitPort hostport =
     (case last_index_byte CHR '':'' hostport of
        Some i \<Rightarrow> (take i hostport, drop (Suc i) hostport)
      | None \<Rightarrow> (hostport, []))"

definition matchLabel :: "string \<Rightarrow> string \<Rightarrow> bool" where
  "matchLabel pat s =
     (let parts = split_on CHR ''*'' pat in
      if length parts = 1 then pat = s
      else if \<not> has_prefix s (hd parts) then False
      else (case match_mids (butlast (tl parts)) (drop (length (hd parts)) s) of
              None \<Rightarrow> False
            | Some rest \<Rightarrow> has_suffix rest (last parts)))"

fun matchLabels :: "string list \<Rightarrow> string list \<Rightarrow> bool" where
  "matchLabels [] labels = (labels = [])"
| "matchLabels (p # pat) labels =
     (if p = ''**'' then (\<exists>skip \<in> {0..length labels}. matchLabels pat (drop skip labels))
      else (case labels of [] \<Rightarrow> False | l # ls \<Rightarrow> matchLabel p l \<and> matchLabels pat ls))"

definition matchHost :: "string \<Rightarrow> string \<Rightarrow> bool" where
  "matchHost pattern host =
     (let (patHost, patPort) = splitPort pattern; (gotHost, gotPort) = splitPort host in
      if patPort \<noteq> gotPort then False
      else matchLabels (split_on CHR ''.'' patHost) (split_on CHR ''.'' gotHost))"

definition Allows :: "allowlist option \<Rightarrow> string \<Rightarrow> bool" where
  "Allows a host =
     (if \<not> Declared a then True
      else (case Host host of
              Inl _ \<Rightarrow> False
            | Inr canonical \<Rightarrow> (\<exists>p \<in> set (Patterns a). matchHost p canonical)))"

text \<open>\<open>Check\<close> returns the refusal, if any, and the hosts handed to the hook.\<close>

definition Check :: "allowlist option \<Rightarrow> string \<Rightarrow> policy_refusal option \<times> string list" where
  "Check a host =
     (if Allows a host then (None, [])
      else (Some (NotAllowlisted host),
            case a of Some al \<Rightarrow> if al_observed al then [host] else [] | None \<Rightarrow> []))"

subsection \<open>The matcher recognises its language\<close>

lemma matchLabel_glob: "matchLabel pat s = glob pat s"
  unfolding matchLabel_def by (rule greedy_glob)

interpretation label_match: segment_matcher matchLabel matchLabels
  by unfold_locales (simp_all add: matchLabel_glob)

text \<open>C36: The allowlist's label matcher, with its leftmost greedy search and its \<open>**\<close>
  backtracking, recognises exactly the declared glob language: \<open>*\<close> inside one DNS label, \<open>**\<close>
  across any number of labels.\<close>

theorem matchLabels_sound_complete: "matchLabels pat labels = path_match pat labels"
  by (rule label_match.segs_path_match)

subsection \<open>What a policy admits\<close>

lemma matchHost_iff:
  "matchHost p c \<longleftrightarrow> snd (splitPort p) = snd (splitPort c)
     \<and> path_match (split_on CHR ''.'' (fst (splitPort p))) (split_on CHR ''.'' (fst (splitPort c)))"
  by (auto simp: matchHost_def label_match.segs_path_match split: prod.splits)

lemma splitPort_noport [simp]: "CHR '':'' \<notin> set h \<Longrightarrow> splitPort h = (h, [])"
  by (simp add: splitPort_def last_index_byte_None [THEN iffD2])

lemma splitPort_port [simp]: "CHR '':'' \<notin> set p \<Longrightarrow> splitPort (h @ CHR '':'' # p) = (h, p)"
  by (simp add: splitPort_def)

text \<open>A canonical host splits into a name and a port that determine it.\<close>

definition canonical_form :: "string \<Rightarrow> bool" where
  "canonical_form c \<longleftrightarrow> CHR '':'' \<notin> set c
     \<or> (\<exists>n p. c = n @ CHR '':'' # p \<and> CHR '':'' \<notin> set n \<and> p \<noteq> [] \<and> CHR '':'' \<notin> set p)"

lemma Host_canonical_form:
  assumes "Host h = Inr c" and "CHR ''/'' \<notin> set h" and "CHR ''_'' \<notin> set h"
  shows "canonical_form c"
proof -
  from assms(1,2) obtain c' where c': "canonical_host h c'" "c = replace_byte CHR ''_'' CHR '':'' c'"
    by (auto simp: Host_iff)
  from c'(1) show ?thesis
  proof (cases rule: canonical_host.cases)
    case plain
    then have "CHR ''_'' \<notin> set c'" using assms(3) by (simp add: canonical_alias_sep)
    with c' canonical_host_no_colon [OF c'(1)] show ?thesis by (simp add: canonical_form_def)
  next
    case (ported n p)
    then have "c = to_lower n @ CHR '':'' # p" using c'(2) assms(3) by simp
    with ported show ?thesis
      unfolding canonical_form_def by (intro disjI2 exI [of _ "to_lower n"] exI [of _ p]) simp
  qed
qed

lemma splitPort_inj:
  "canonical_form a \<Longrightarrow> canonical_form b \<Longrightarrow> splitPort a = splitPort b \<longleftrightarrow> a = b"
  by (auto simp: canonical_form_def)

lemma matchHost_literal:
  assumes "canonical_form p" and "canonical_form c" and "CHR ''*'' \<notin> set p"
  shows "matchHost p c \<longleftrightarrow> p = c"
proof -
  obtain ph pp gh gp where s: "splitPort p = (ph, pp)" "splitPort c = (gh, gp)" by fastforce
  have "CHR ''*'' \<notin> set ph"
    using assms(3) s(1) by (auto simp: splitPort_def split: option.splits dest: in_set_takeD)
  then have "matchLabels (split_on CHR ''.'' ph) (split_on CHR ''.'' gh) \<longleftrightarrow> ph = gh"
    by (auto simp: label_match.segs_literal [OF split_on_star_free] split_on_inj)
  then have "matchHost p c \<longleftrightarrow> splitPort p = splitPort c"
    using s by (auto simp: matchHost_def)
  with splitPort_inj [OF assms(1,2)] show ?thesis by simp
qed

lemma canonicalPatterns_iff:
  "canonicalPatterns es = Inr cs \<longleftrightarrow>
     list_all2 (\<lambda>e c. trim_space e \<noteq> [] \<and> canonicalPattern (trim_space e) = Inr c) es cs"
proof (induction es arbitrary: cs)
  case (Cons e es)
  then show ?case by (cases cs) (auto simp: Let_def bind_r_Inr_iff)
qed auto

lemma NewAllowlist_iff:
  "NewAllowlist entries = Inr a \<longleftrightarrow>
     (\<exists>cs. canonicalPatterns (case entries of None \<Rightarrow> [] | Some es \<Rightarrow> es) = Inr cs
       \<and> a = \<lparr>al_declared = (entries \<noteq> None), al_patterns = sort cs, al_observed = False\<rparr>)"
  by (auto simp: NewAllowlist_def bind_r_Inr_iff)

lemma canonicalPattern_literal:
  "CHR ''*'' \<notin> set p \<Longrightarrow> canonicalPattern p = Inr c \<longleftrightarrow> CHR ''/'' \<notin> set p \<and> Host p = Inr c"
  by (auto simp: canonicalPattern_def split: sum.splits)

lemma set_trim_by: "set (trim_by P s) \<subseteq> set s"
  by (auto simp: trim_by_def dest!: set_dropWhileD)

lemma Host_no_star:
  assumes "Host h = Inr c" and "CHR ''/'' \<notin> set h" and "CHR ''*'' \<notin> set h"
  shows "CHR ''*'' \<notin> set c"
proof -
  from assms(1,2) obtain c' where c': "canonical_host h c'" "c = replace_byte CHR ''_'' CHR '':'' c'"
    by (auto simp: Host_iff)
  have star: "\<not> is_letter CHR ''*''" by (simp add: is_letter_def is_upper_def)
  from c'(1) have "CHR ''*'' \<notin> set c'"
    using assms(3) canonical_alias_cases [of "to_lower h"]
    by (auto elim!: canonical_hostE simp: to_lower_mem_iff [OF star])
  with c'(2) show ?thesis by (auto simp: replace_byte_def split: if_splits)
qed

subsection \<open>Main results\<close>

text \<open>An entry without wildcards grants exactly the registry it names: under a policy of
  literal, underscore-free entries a host is admitted if and only if its canonical form is
  that of one of the entries, port included.\<close>

theorem Allows_literal_exact:
  assumes "NewAllowlist (Some es) = Inr a"
    and "\<forall>e \<in> set es. CHR ''*'' \<notin> set e \<and> CHR ''_'' \<notin> set e"
    and "CHR ''/'' \<notin> set h" and "CHR ''_'' \<notin> set h"
  shows "Allows (Some a) h \<longleftrightarrow> (\<exists>e \<in> set es. is_ok (Host h) \<and> Host (trim_space e) = Host h)"
proof -
  from assms(1) obtain cs where cs: "canonicalPatterns es = Inr cs"
    "a = \<lparr>al_declared = True, al_patterns = sort cs, al_observed = False\<rparr>"
    by (auto simp: NewAllowlist_iff)
  have lit: "CHR ''*'' \<notin> set (trim_space e) \<and> CHR ''_'' \<notin> set (trim_space e)" if "e \<in> set es" for e
    using assms(2) that set_trim_by [of is_space e] by (auto simp: trim_space_def)
  have pats: "p \<in> set cs \<longleftrightarrow> (\<exists>e \<in> set es. CHR ''/'' \<notin> set (trim_space e) \<and> Host (trim_space e) = Inr p)" for p
  proof -
    have "list_all2 (\<lambda>e c. CHR ''/'' \<notin> set (trim_space e) \<and> Host (trim_space e) = Inr c) es cs"
      using cs(1) lit unfolding canonicalPatterns_iff
      by (elim list_all2_mono [rotated] list.rel_mono_strong) (auto simp: canonicalPattern_literal)
    then show ?thesis
      by (induction rule: list_all2_induct) auto
  qed
  have slash: "CHR ''/'' \<notin> set (trim_space e)" if "e \<in> set es" for e
  proof -
    from that cs(1) obtain c where "canonicalPattern (trim_space e) = Inr c"
      unfolding canonicalPatterns_iff by (blast dest: list_all2_left)
    then show ?thesis by (auto simp: canonicalPattern_def split: if_splits)
  qed
  have m: "matchHost p c \<longleftrightarrow> p = c" if "e \<in> set es" "Host (trim_space e) = Inr p" "Host h = Inr c" for e p c
    using that slash [OF that(1)] lit [OF that(1)] assms(3,4)
    by (intro matchHost_literal) (auto intro: Host_canonical_form dest: Host_no_star)
  show ?thesis
  proof (cases "Host h")
    case (Inl e)
    then show ?thesis using cs(2) by (simp add: Allows_def Declared_def)
  next
    case (Inr c)
    have "Allows (Some a) h \<longleftrightarrow> (\<exists>p \<in> set cs. matchHost p c)"
      using cs(2) Inr by (simp add: Allows_def Declared_def Patterns_def)
    also have "\<dots> \<longleftrightarrow> (\<exists>e \<in> set es. \<exists>p. Host (trim_space e) = Inr p \<and> matchHost p c)"
      using pats slash by blast
    also have "\<dots> \<longleftrightarrow> (\<exists>e \<in> set es. Host (trim_space e) = Inr c)"
      by (rule bex_cong [OF refl]) (use m [OF _ _ Inr] in auto)
    finally show ?thesis using Inr by auto
  qed
qed

theorem Allows_literal_exact_witness:
  "\<exists>a. NewAllowlist (Some ['' Docker.io '', ''reg.example.com:5000'']) = Inr a
     \<and> Allows (Some a) ''index.docker.io''"
proof -
  have "canonicalPatterns ['' Docker.io '', ''reg.example.com:5000'']
      = Inr [''docker.io'', ''reg.example.com:5000'']" by code_simp
  then obtain a where a: "NewAllowlist (Some ['' Docker.io '', ''reg.example.com:5000'']) = Inr a"
    by (auto simp: NewAllowlist_iff)
  have "Allows (Some a) ''index.docker.io'' \<longleftrightarrow>
      (\<exists>e \<in> set ['' Docker.io '', ''reg.example.com:5000'']. is_ok (Host ''index.docker.io'')
         \<and> Host (trim_space e) = Host ''index.docker.io'')"
    by (rule Allows_literal_exact [OF a]) simp_all
  also have "\<dots> \<longleftrightarrow> True" by code_simp
  finally show ?thesis using a by blast
qed

text \<open>\<open>Check\<close> lets a host through exactly when no policy is declared, or when its canonical
  form matches a pattern label by label with an equal port; otherwise it returns the refusal
  naming the host and calls an installed hook once, with that host.\<close>

theorem Check_spec:
  "fst (Check a h) =
     (if Declared a then
        (if \<exists>c p. Host h = Inr c \<and> p \<in> set (Patterns a) \<and> snd (splitPort p) = snd (splitPort c)
            \<and> path_match (split_on CHR ''.'' (fst (splitPort p))) (split_on CHR ''.'' (fst (splitPort c)))
         then None else Some (NotAllowlisted h))
      else None)
   \<and> snd (Check (Observe a) h) = (if fst (Check a h) = None then [] else [h])"
proof -
  have allows: "Allows a h \<longleftrightarrow> (Declared a \<longrightarrow> (\<exists>c p. Host h = Inr c \<and> p \<in> set (Patterns a)
        \<and> snd (splitPort p) = snd (splitPort c)
        \<and> path_match (split_on CHR ''.'' (fst (splitPort p))) (split_on CHR ''.'' (fst (splitPort c)))))"
    by (cases "Host h") (auto simp: Allows_def matchHost_iff)
  have obs: "Allows (Observe a) h = Allows a h"
    by (cases a) (auto simp: Allows_def Observe_def Declared_def Patterns_def split: sum.splits)
  have "\<not> Allows a h \<Longrightarrow> a \<noteq> None" by (cases a) (auto simp: Allows_def Declared_def)
  with allows obs show ?thesis
    by (cases a) (auto simp: Check_def Observe_def)
qed

text \<open>An absent allowlist key admits every host; a declared empty list admits none, whatever
  the host.\<close>

theorem Allows_absent_vs_empty:
  "\<exists>a b. NewAllowlist None = Inr a \<and> NewAllowlist (Some []) = Inr b
     \<and> (\<forall>h. Allows (Some a) h \<and> \<not> Allows (Some b) h)"
proof -
  have "\<not> Allows (Some \<lparr>al_declared = True, al_patterns = [], al_observed = False\<rparr>) h" for h
    by (cases "Host h") (simp_all add: Allows_def Declared_def Patterns_def)
  moreover have "Allows (Some \<lparr>al_declared = False, al_patterns = [], al_observed = False\<rparr>) h" for h
    by (simp add: Allows_def Declared_def)
  ultimately show ?thesis
    by (auto simp: NewAllowlist_iff)
qed

end
