(* ===== verification/SigVerify.thy ===== *)
theory SigVerify
  imports Prelude
begin

text \<open>
  Signature verification, \<^verbatim>\<open>internal/sigverify\<close>: key sets (\<^verbatim>\<open>keys.go\<close>), the
  classic cosign layout (\<^verbatim>\<open>verify.go\<close>) and Sigstore bundles
  (\<^verbatim>\<open>bundle.go\<close>). The source of manifests and blobs is the record
  \<open>manifests\<close>, one field per method of the Go interfaces; the primitives of
  \<^verbatim>\<open>crypto/*\<close>, \<^verbatim>\<open>encoding/pem\<close>, \<^verbatim>\<open>encoding/base64\<close> and the JSON
  decoders are the fields of \<open>codec\<close> and \<open>keycodec\<close>. No theorem assumes anything about
  them, so the results hold whatever a hash or a decoder does. A non-empty reason string is
  a value of \<open>sig_reason\<close>; cancellation reaches the code as an error of the source.
\<close>

type_synonym bytes = string

subsection \<open>Data\<close>

record sigDescriptor =
  sd_MediaType :: string
  sd_Digest :: string
  sd_Size :: int
  sd_Annotations :: "(string \<times> string) list"

record simpleSigning =
  ss_DockerReference :: string
  ss_DockerManifestDigest :: string
  ss_Type :: string

record referringManifest =
  rm_ArtifactType :: string
  rm_Layers :: "sigDescriptor list"
  rm_Subject :: "sigDescriptor option"

record dsseEnvelope =
  de_Payload :: string
  de_PayloadType :: string
  de_Signatures :: "string list"

record sigstoreBundle =
  sb_PublicKey :: bool
  sb_Certificate :: bool
  sb_X509CertificateChain :: bool
  sb_DSSEEnvelope :: "dsseEnvelope option"
  sb_MessageSignature :: bool

record inTotoStatement =
  it_Type :: string
  it_Subject :: "(string \<times> string) list list"

record trustedKey =
  tk_fingerprint :: string
  tk_verify :: "bytes \<Rightarrow> bytes \<Rightarrow> bool"

type_synonym Keys = "trustedKey list"

datatype src_error = NotFound | SrcFailed string

record manifests =
  ms_Manifest :: "string \<Rightarrow> string \<Rightarrow> src_error + bytes"
  ms_Blob :: "string \<Rightarrow> string \<Rightarrow> src_error + bytes"
  ms_Referrers :: "(string \<Rightarrow> string \<Rightarrow> string list \<times> src_error option) option"

record codec =
  cd_sum256 :: "bytes \<Rightarrow> bytes"
  cd_base64 :: "string \<Rightarrow> bytes option"
  cd_sigManifest :: "bytes \<Rightarrow> sigDescriptor list option"
  cd_simpleSigning :: "bytes \<Rightarrow> simpleSigning option"
  cd_referrersIndex :: "bytes \<Rightarrow> sigDescriptor list option"
  cd_referringManifest :: "bytes \<Rightarrow> referringManifest option"
  cd_sigstoreBundle :: "bytes \<Rightarrow> sigstoreBundle option"
  cd_inTotoStatement :: "bytes \<Rightarrow> inTotoStatement option"

abbreviation MediaTypeSimpleSigning :: string where
  "MediaTypeSimpleSigning \<equiv> ''application/vnd.dev.cosign.simplesigning.v1+json''"
abbreviation AnnotationSignature :: string where
  "AnnotationSignature \<equiv> ''dev.cosignproject.cosign/signature''"
abbreviation MaxPayloadSize :: int where "MaxPayloadSize \<equiv> 1048576"
abbreviation payloadType :: string where "payloadType \<equiv> ''cosign container image signature''"
abbreviation mediaTypeBundlePrefix :: string where
  "mediaTypeBundlePrefix \<equiv> ''application/vnd.dev.sigstore.bundle''"
abbreviation payloadTypeInToto :: string where "payloadTypeInToto \<equiv> ''application/vnd.in-toto+json''"
abbreviation statementType :: string where "statementType \<equiv> ''https://in-toto.io/Statement/v1''"

datatype digest_error = NotSha256 string | WrongLength string | NotHex string

datatype sig_reason =
    MissingAnnotation
  | PayloadTooBig int
  | DescriptorDigest digest_error
  | BlobMissing string
  | BlobTooBig nat
  | BlobMismatch string
  | PayloadNotJSON
  | PayloadCriticalType string
  | PayloadPins string
  | SignatureNotBase64
  | RefersElsewhere string
  | NoBundleLayer
  | BundleNotJSON
  | BlobSignature
  | NoEnvelope
  | Keyless
  | EnvelopePayloadType string
  | EnvelopeNotBase64
  | EnvelopeTooBig nat
  | NotStatement
  | StatementType string
  | SubjectDigest digest_error
  | SubjectNotNamed string
  | NoDecodableSignature
  | ManifestNotJSON
  | NoSimpleSigningLayer

datatype verify_error =
    NoTrustRoots
  | BadSubjectDigest digest_error
  | ReadFailed string string src_error
  | ErrNoSignature
  | NoTrustedKeyError "string list"
  | BadSignatureError "(string \<times> sig_reason) list"

subsection \<open>Key sets\<close>

datatype curve = P256 | P384 | OtherCurve string

datatype pubkey = EcdsaPub curve bytes | Ed25519Pub bytes | RsaPub nat bytes | OtherPub string

record keycodec =
  kc_pemDecode :: "bytes \<Rightarrow> ((string \<times> bytes) \<times> bytes) option"
  kc_parsePKIX :: "bytes \<Rightarrow> pubkey option"
  kc_marshalPKIX :: "pubkey \<Rightarrow> bytes option"
  kc_sum256 :: "bytes \<Rightarrow> bytes"
  kc_sum384 :: "bytes \<Rightarrow> bytes"
  kc_ecdsaVerify :: "curve \<Rightarrow> bytes \<Rightarrow> bytes \<Rightarrow> bytes \<Rightarrow> bool"
  kc_ed25519Verify :: "bytes \<Rightarrow> bytes \<Rightarrow> bytes \<Rightarrow> bool"
  kc_rsaVerify :: "bytes \<Rightarrow> bytes \<Rightarrow> bytes \<Rightarrow> bool"

datatype key_error =
    ParsingKey | ReencodingKey | UnsupportedCurve string | RSATooSmall nat | UnsupportedKeyType string
  | UnsupportedBlock nat string | InInput nat key_error | NoBlock nat | NoPublicKey

abbreviation minRSABits :: nat where "minRSABits \<equiv> 2048"

definition newTrustedKey :: "keycodec \<Rightarrow> bytes \<Rightarrow> key_error + trustedKey" where
  "newTrustedKey kc der =
     (case kc_parsePKIX kc der of
        None \<Rightarrow> Inl ParsingKey
      | Some pub \<Rightarrow>
          (case kc_marshalPKIX kc pub of
             None \<Rightarrow> Inl ReencodingKey
           | Some canonical \<Rightarrow>
               (let fp = ''sha256:'' @ hex_encode (kc_sum256 kc canonical) in
                case pub of
                  EcdsaPub P256 pk \<Rightarrow> Inr \<lparr>tk_fingerprint = fp,
                    tk_verify = \<lambda>payload sig. kc_ecdsaVerify kc P256 pk (kc_sum256 kc payload) sig\<rparr>
                | EcdsaPub P384 pk \<Rightarrow> Inr \<lparr>tk_fingerprint = fp,
                    tk_verify = \<lambda>payload sig. kc_ecdsaVerify kc P384 pk (kc_sum384 kc payload) sig\<rparr>
                | EcdsaPub (OtherCurve n) pk \<Rightarrow> Inl (UnsupportedCurve n)
                | Ed25519Pub pk \<Rightarrow> Inr \<lparr>tk_fingerprint = fp,
                    tk_verify = \<lambda>payload sig. kc_ed25519Verify kc pk payload sig\<rparr>
                | RsaPub bits pk \<Rightarrow>
                    if bits < minRSABits then Inl (RSATooSmall bits)
                    else Inr \<lparr>tk_fingerprint = fp,
                      tk_verify = \<lambda>payload sig. kc_rsaVerify kc pk (kc_sum256 kc payload) sig\<rparr>
                | OtherPub n \<Rightarrow> Inl (UnsupportedKeyType n))))"

text \<open>
  The loop over the PEM blocks of one input. \<^verbatim>\<open>pem.Decode\<close> returns a strictly shorter
  rest with every block, so one more step than the input has bytes is enough
  (\<open>parseBlocks_enough\<close> below).
\<close>

fun parseBlocks :: "keycodec \<Rightarrow> nat \<Rightarrow> nat \<Rightarrow> bytes \<Rightarrow> key_error + Keys" where
  "parseBlocks kc 0 i rest = Inr []"
| "parseBlocks kc (Suc fuel) i rest =
     (case kc_pemDecode kc rest of
        None \<Rightarrow> Inr []
      | Some ((typ, der), rest') \<Rightarrow>
          if typ \<noteq> ''PUBLIC KEY'' then Inl (UnsupportedBlock i typ)
          else (case newTrustedKey kc der of
                  Inl e \<Rightarrow> Inl (InInput i e)
                | Inr key \<Rightarrow> bind_r (parseBlocks kc fuel i rest') (\<lambda>ks. Inr (key # ks))))"

fun parseInputs :: "keycodec \<Rightarrow> nat \<Rightarrow> bytes list \<Rightarrow> key_error + Keys" where
  "parseInputs kc i [] = Inr []"
| "parseInputs kc i (input # pems) =
     bind_r (parseBlocks kc (Suc (length input)) i input)
       (\<lambda>ks. if ks = [] then Inl (NoBlock i)
             else bind_r (parseInputs kc (Suc i) pems) (\<lambda>rest. Inr (ks @ rest)))"

definition ParsePublicKeys :: "keycodec \<Rightarrow> bytes list \<Rightarrow> key_error + Keys" where
  "ParsePublicKeys kc pems =
     bind_r (parseInputs kc 0 pems) (\<lambda>ks. if ks = [] then Inl NoPublicKey else Inr ks)"

definition Fingerprints :: "Keys \<Rightarrow> string list" where
  "Fingerprints ks = map tk_fingerprint ks"

fun union_keys :: "string set \<Rightarrow> Keys \<Rightarrow> Keys \<times> string set" where
  "union_keys seen [] = ([], seen)"
| "union_keys seen (k # ks) =
     (if tk_fingerprint k \<in> seen then union_keys seen ks
      else (let (out, seen') = union_keys (insert (tk_fingerprint k) seen) ks in (k # out, seen')))"

fun union_sets :: "string set \<Rightarrow> Keys option list \<Rightarrow> Keys" where
  "union_sets seen [] = []"
| "union_sets seen (None # sets) = union_sets seen sets"
| "union_sets seen (Some ks # sets) =
     (let (out, seen') = union_keys seen ks in out @ union_sets seen' sets)"

definition Union_keys :: "Keys option list \<Rightarrow> Keys" where
  "Union_keys sets = union_sets {} sets"

subsection \<open>Payload checks\<close>

definition parseSHA256Digest :: "string \<Rightarrow> digest_error + string" where
  "parseSHA256Digest d =
     (if \<not> has_prefix d ''sha256:'' then Inl (NotSha256 d)
      else (let hexPart = drop 7 d in
            if length hexPart \<noteq> 64 then Inl (WrongLength d)
            else if \<not> list_all is_hex hexPart then Inl (NotHex d)
            else Inr (to_lower hexPart)))"

definition annotation :: "sigDescriptor \<Rightarrow> string \<Rightarrow> string" where
  "annotation layer key = go_get (sd_Annotations layer) key"

text \<open>
  Fetching and integrity-checking one layer: \<open>Inl\<close> is the fatal error, \<open>Inr (Inl r)\<close> the
  reason the layer is passed over, \<open>Inr (Inr b)\<close> its bytes.
\<close>

definition bundleBlob ::
  "codec \<Rightarrow> manifests \<Rightarrow> string \<Rightarrow> sigDescriptor \<Rightarrow> verify_error + (sig_reason + bytes)" where
  "bundleBlob cd src repo layer =
     (if sd_Size layer > MaxPayloadSize then Inr (Inl (PayloadTooBig (sd_Size layer)))
      else (case parseSHA256Digest (sd_Digest layer) of
              Inl e \<Rightarrow> Inr (Inl (DescriptorDigest e))
            | Inr layerHex \<Rightarrow>
                (case ms_Blob src repo (sd_Digest layer) of
                   Inl NotFound \<Rightarrow> Inr (Inl (BlobMissing (sd_Digest layer)))
                 | Inl e \<Rightarrow> Inl (ReadFailed repo (sd_Digest layer) e)
                 | Inr blob \<Rightarrow>
                     if int (length blob) > MaxPayloadSize then Inr (Inl (BlobTooBig (length blob)))
                     else if hex_encode (cd_sum256 cd blob) \<noteq> layerHex
                       then Inr (Inl (BlobMismatch (sd_Digest layer)))
                     else Inr (Inr blob))))"

definition signaturePayload ::
  "codec \<Rightarrow> manifests \<Rightarrow> string \<Rightarrow> sigDescriptor \<Rightarrow> verify_error + (sig_reason + bytes)" where
  "signaturePayload cd src repo layer =
     (if annotation layer AnnotationSignature = [] then Inr (Inl MissingAnnotation)
      else if sd_Size layer > MaxPayloadSize then Inr (Inl (PayloadTooBig (sd_Size layer)))
      else (case parseSHA256Digest (sd_Digest layer) of
              Inl e \<Rightarrow> Inr (Inl (DescriptorDigest e))
            | Inr layerHex \<Rightarrow>
                (case ms_Blob src repo (sd_Digest layer) of
                   Inl NotFound \<Rightarrow> Inr (Inl (BlobMissing (sd_Digest layer)))
                 | Inl e \<Rightarrow> Inl (ReadFailed repo (sd_Digest layer) e)
                 | Inr blob \<Rightarrow>
                     if int (length blob) > MaxPayloadSize then Inr (Inl (BlobTooBig (length blob)))
                     else if hex_encode (cd_sum256 cd blob) \<noteq> layerHex
                       then Inr (Inl (BlobMismatch (sd_Digest layer)))
                     else Inr (Inr blob))))"

text \<open>The first trusted key that verifies a signature over the given bytes.\<close>

fun verifying_key :: "Keys \<Rightarrow> bytes \<Rightarrow> bytes \<Rightarrow> trustedKey option" where
  "verifying_key [] payload sig = None"
| "verifying_key (k # ks) payload sig =
     (if tk_verify k payload sig then Some k else verifying_key ks payload sig)"

subsection \<open>Sigstore bundles\<close>

definition preAuthEncoding :: "string \<Rightarrow> bytes \<Rightarrow> bytes" where
  "preAuthEncoding pt payload =
     ''DSSEv1'' @ '' '' @ nat_str (length pt) @ '' '' @ pt @ '' '' @ nat_str (length payload) @ '' ''
     @ payload"

text \<open>
  The loop over the signatures of an envelope: the fingerprint of a key that verifies one,
  and whether any signature was decodable.
\<close>

fun try_signatures ::
  "codec \<Rightarrow> Keys \<Rightarrow> bytes \<Rightarrow> string list \<Rightarrow> bool \<Rightarrow> string option \<times> bool" where
  "try_signatures cd keys pae [] tried = (None, tried)"
| "try_signatures cd keys pae (s # sigs) tried =
     (case cd_base64 cd s of
        None \<Rightarrow> try_signatures cd keys pae sigs tried
      | Some sig \<Rightarrow>
          (case verifying_key keys pae sig of
             Some k \<Rightarrow> (Some (tk_fingerprint k), True)
           | None \<Rightarrow> try_signatures cd keys pae sigs True))"

text \<open>\<open>Inr (Some fp)\<close> is \<^verbatim>\<open>ok\<close>, \<open>Inl r\<close> a reason, \<open>Inr None\<close> the third outcome of the
  code: well formed, bound to the digest, signed by nobody configured.\<close>

definition verifyBundleBlob ::
  "codec \<Rightarrow> bytes \<Rightarrow> string \<Rightarrow> Keys \<Rightarrow> sig_reason + string option" where
  "verifyBundleBlob cd blob subjectDigest keys =
     (case cd_sigstoreBundle cd blob of
        None \<Rightarrow> Inl BundleNotJSON
      | Some b \<Rightarrow>
     (case sb_DSSEEnvelope b of
        None \<Rightarrow> if sb_MessageSignature b then Inl BlobSignature else Inl NoEnvelope
      | Some env \<Rightarrow>
          if \<not> sb_PublicKey b \<and> (sb_Certificate b \<or> sb_X509CertificateChain b) then Inl Keyless
          else if de_PayloadType env \<noteq> payloadTypeInToto
            then Inl (EnvelopePayloadType (de_PayloadType env))
          else
     (case cd_base64 cd (de_Payload env) of
        None \<Rightarrow> Inl EnvelopeNotBase64
      | Some payload \<Rightarrow>
          if int (length payload) > MaxPayloadSize then Inl (EnvelopeTooBig (length payload))
          else
     (case cd_inTotoStatement cd payload of
        None \<Rightarrow> Inl NotStatement
      | Some st \<Rightarrow>
          if it_Type st \<noteq> statementType then Inl (StatementType (it_Type st))
          else
     (case parseSHA256Digest subjectDigest of
        Inl e \<Rightarrow> Inl (SubjectDigest e)
      | Inr wantHex \<Rightarrow>
          if \<not> list_ex (\<lambda>s. to_lower (go_get s ''sha256'')
                            = to_lower wantHex) (it_Subject st)
            then Inl (SubjectNotNamed wantHex)
          else (case try_signatures cd keys (preAuthEncoding (de_PayloadType env) payload)
                       (de_Signatures env) False of
                  (Some fp, _) \<Rightarrow> Inr (Some fp)
                | (None, False) \<Rightarrow> Inl NoDecodableSignature
                | (None, True) \<Rightarrow> Inr None))))))"

text \<open>The four outcomes of one candidate.\<close>

datatype bundle_outcome = Signed string | WellFormed | Malformed sig_reason | Skipped

fun bundle_layers ::
  "codec \<Rightarrow> manifests \<Rightarrow> string \<Rightarrow> string \<Rightarrow> Keys \<Rightarrow> bool \<Rightarrow> sigDescriptor list
     \<Rightarrow> verify_error + bundle_outcome" where
  "bundle_layers cd src repo subjectDigest keys verifiable [] =
     Inr (if verifiable then WellFormed else Malformed NoBundleLayer)"
| "bundle_layers cd src repo subjectDigest keys verifiable (layer # layers) =
     (if \<not> has_prefix (sd_MediaType layer) mediaTypeBundlePrefix
        then bundle_layers cd src repo subjectDigest keys verifiable layers
      else (case bundleBlob cd src repo layer of
              Inl e \<Rightarrow> Inl e
            | Inr (Inl why) \<Rightarrow> Inr (Malformed why)
            | Inr (Inr blob) \<Rightarrow>
                (case verifyBundleBlob cd blob subjectDigest keys of
                   Inl why \<Rightarrow> Inr (Malformed why)
                 | Inr (Some fp) \<Rightarrow> Inr (Signed fp)
                 | Inr None \<Rightarrow> bundle_layers cd src repo subjectDigest keys True layers)))"

definition verifyOneBundle ::
  "codec \<Rightarrow> manifests \<Rightarrow> string \<Rightarrow> string \<Rightarrow> string \<Rightarrow> Keys \<Rightarrow> verify_error + bundle_outcome" where
  "verifyOneBundle cd src repo subjectDigest manifestDigest keys =
     (case ms_Manifest src repo manifestDigest of
        Inl NotFound \<Rightarrow> Inr Skipped
      | Inl e \<Rightarrow> Inl (ReadFailed repo manifestDigest e)
      | Inr raw \<Rightarrow>
          (case cd_referringManifest cd raw of
             None \<Rightarrow> Inr Skipped
           | Some man \<Rightarrow>
               if \<not> has_prefix (rm_ArtifactType man) mediaTypeBundlePrefix then Inr Skipped
               else (case rm_Subject man of
                       Some sub \<Rightarrow>
                         if sd_Digest sub \<noteq> [] \<and> sd_Digest sub \<noteq> subjectDigest
                           then Inr (Malformed (RefersElsewhere (sd_Digest sub)))
                         else bundle_layers cd src repo subjectDigest keys False (rm_Layers man)
                     | None \<Rightarrow> bundle_layers cd src repo subjectDigest keys False (rm_Layers man))))"

fun add_new :: "string list \<Rightarrow> string list \<Rightarrow> string list" where
  "add_new out [] = out"
| "add_new out (d # ds) = add_new (if d = [] \<or> d \<in> set out then out else out @ [d]) ds"

definition bundleCandidates ::
  "codec \<Rightarrow> manifests \<Rightarrow> string \<Rightarrow> string \<Rightarrow> string \<Rightarrow> verify_error + string list" where
  "bundleCandidates cd src repo subjectDigest subjectHex =
     bind_r (case ms_Referrers src of
               None \<Rightarrow> Inr []
             | Some lister \<Rightarrow>
                 (case lister repo subjectDigest of
                    (digests, Some (SrcFailed m)) \<Rightarrow> Inl (ReadFailed repo subjectDigest (SrcFailed m))
                  | (digests, _) \<Rightarrow> Inr (add_new [] digests)))
       (\<lambda>out.
         case ms_Manifest src repo (''sha256-'' @ subjectHex) of
           Inr raw \<Rightarrow>
             Inr (case cd_referrersIndex cd raw of
                    None \<Rightarrow> out
                  | Some ms \<Rightarrow> add_new out (map sd_Digest ms))
         | Inl NotFound \<Rightarrow> Inr out
         | Inl e \<Rightarrow> Inl (ReadFailed repo (''sha256-'' @ subjectHex) e))"

record bundles_result =
  br_fp :: string
  br_found :: bool
  br_verifiable :: bool
  br_reasons :: "(string \<times> sig_reason) list"

fun bundles_loop ::
  "codec \<Rightarrow> manifests \<Rightarrow> string \<Rightarrow> string \<Rightarrow> Keys \<Rightarrow> bool \<Rightarrow> bool \<Rightarrow> (string \<times> sig_reason) list
     \<Rightarrow> string list \<Rightarrow> verify_error + bundles_result" where
  "bundles_loop cd src repo subjectDigest keys found verifiable reasons [] =
     Inr \<lparr>br_fp = [], br_found = found, br_verifiable = verifiable, br_reasons = reasons\<rparr>"
| "bundles_loop cd src repo subjectDigest keys found verifiable reasons (d # ds) =
     (case verifyOneBundle cd src repo subjectDigest d keys of
        Inl e \<Rightarrow> Inl e
      | Inr (Signed fp) \<Rightarrow>
          Inr \<lparr>br_fp = fp, br_found = True, br_verifiable = False, br_reasons = []\<rparr>
      | Inr WellFormed \<Rightarrow> bundles_loop cd src repo subjectDigest keys True True reasons ds
      | Inr (Malformed why) \<Rightarrow>
          bundles_loop cd src repo subjectDigest keys True verifiable (reasons @ [(d, why)]) ds
      | Inr Skipped \<Rightarrow> bundles_loop cd src repo subjectDigest keys found verifiable reasons ds)"

definition verifyBundles ::
  "codec \<Rightarrow> manifests \<Rightarrow> string \<Rightarrow> string \<Rightarrow> string \<Rightarrow> Keys \<Rightarrow> verify_error + bundles_result" where
  "verifyBundles cd src repo subjectDigest subjectHex keys =
     bind_r (bundleCandidates cd src repo subjectDigest subjectHex)
       (bundles_loop cd src repo subjectDigest keys False False [])"

subsection \<open>Verification\<close>

text \<open>
  One classic layer: \<open>Inl\<close> fatal, otherwise passed over with a reason, or verifiable with
  the signed bytes and the decoded signature.
\<close>

definition classic_layer ::
  "codec \<Rightarrow> manifests \<Rightarrow> string \<Rightarrow> string \<Rightarrow> sigDescriptor
     \<Rightarrow> verify_error + (sig_reason + bytes \<times> bytes)" where
  "classic_layer cd src repo manifestDigest layer =
     (case signaturePayload cd src repo layer of
        Inl e \<Rightarrow> Inl e
      | Inr (Inl r) \<Rightarrow> Inr (Inl r)
      | Inr (Inr blob) \<Rightarrow>
     (case cd_simpleSigning cd blob of
        None \<Rightarrow> Inr (Inl PayloadNotJSON)
      | Some payload \<Rightarrow>
          if ss_Type payload \<noteq> payloadType then Inr (Inl (PayloadCriticalType (ss_Type payload)))
          else if ss_DockerManifestDigest payload \<noteq> manifestDigest
            then Inr (Inl (PayloadPins (ss_DockerManifestDigest payload)))
          else (case cd_base64 cd (annotation layer AnnotationSignature) of
                  None \<Rightarrow> Inr (Inl SignatureNotBase64)
                | Some sig \<Rightarrow> Inr (Inr (blob, sig)))))"

record classic_state =
  cs_reasons :: "(string \<times> sig_reason) list"
  cs_sawVerifiable :: bool
  cs_candidates :: nat

text \<open>The loop over the layers: \<open>Inr (Inl fp)\<close> is the early return with a fingerprint.\<close>

fun classic_layers ::
  "codec \<Rightarrow> manifests \<Rightarrow> string \<Rightarrow> string \<Rightarrow> Keys \<Rightarrow> nat \<Rightarrow> classic_state \<Rightarrow> sigDescriptor list
     \<Rightarrow> verify_error + (string + classic_state)" where
  "classic_layers cd src repo manifestDigest keys i st [] = Inr (Inr st)"
| "classic_layers cd src repo manifestDigest keys i st (layer # layers) =
     (if sd_MediaType layer \<noteq> MediaTypeSimpleSigning
        then classic_layers cd src repo manifestDigest keys (Suc i) st layers
      else
        (let st = st\<lparr>cs_candidates := cs_candidates st + 1\<rparr> in
         case classic_layer cd src repo manifestDigest layer of
           Inl e \<Rightarrow> Inl e
         | Inr (Inl r) \<Rightarrow>
             classic_layers cd src repo manifestDigest keys (Suc i)
               (st\<lparr>cs_reasons := cs_reasons st @ [(''layer '' @ nat_str i, r)]\<rparr>) layers
         | Inr (Inr (blob, sig)) \<Rightarrow>
             (case verifying_key keys blob sig of
                Some k \<Rightarrow> Inr (Inl (tk_fingerprint k))
              | None \<Rightarrow> classic_layers cd src repo manifestDigest keys (Suc i)
                          (st\<lparr>cs_sawVerifiable := True\<rparr>) layers)))"

definition Verify ::
  "codec \<Rightarrow> manifests \<Rightarrow> string \<Rightarrow> string \<Rightarrow> Keys option \<Rightarrow> verify_error + string" where
  "Verify cd src repo manifestDigest okeys =
     (case okeys of None \<Rightarrow> Inl NoTrustRoots | Some keys \<Rightarrow>
      if keys = [] then Inl NoTrustRoots
      else
     (case parseSHA256Digest manifestDigest of
        Inl e \<Rightarrow> Inl (BadSubjectDigest e)
      | Inr subjectHex \<Rightarrow>
     (let sigTag = ''sha256-'' @ subjectHex @ ''.sig'' in
      case ms_Manifest src repo sigTag of
        Inl (SrcFailed m) \<Rightarrow> Inl (ReadFailed repo sigTag (SrcFailed m))
      | Inl NotFound \<Rightarrow>
          (case verifyBundles cd src repo manifestDigest subjectHex keys of
             Inl e \<Rightarrow> Inl e
           | Inr b \<Rightarrow>
               if br_fp b \<noteq> [] then Inr (br_fp b)
               else if \<not> br_found b then Inl ErrNoSignature
               else if br_verifiable b then Inl (NoTrustedKeyError (Fingerprints keys))
               else Inl (BadSignatureError (br_reasons b)))
      | Inr raw \<Rightarrow>
     (case cd_sigManifest cd raw of
        None \<Rightarrow> Inl (BadSignatureError [(sigTag, ManifestNotJSON)])
      | Some layers \<Rightarrow>
     (case classic_layers cd src repo manifestDigest keys 0
             \<lparr>cs_reasons = [], cs_sawVerifiable = False, cs_candidates = 0\<rparr> layers of
        Inl e \<Rightarrow> Inl e
      | Inr (Inl fp) \<Rightarrow> Inr fp
      | Inr (Inr st) \<Rightarrow>
          (case verifyBundles cd src repo manifestDigest subjectHex keys of
             Inl e \<Rightarrow> Inl e
           | Inr b \<Rightarrow>
               if br_fp b \<noteq> [] then Inr (br_fp b)
               else if cs_sawVerifiable st \<or> br_verifiable b
                 then Inl (NoTrustedKeyError (Fingerprints keys))
               else if cs_candidates st = 0
                 then Inl (BadSignatureError [(sigTag, NoSimpleSigningLayer)])
               else Inl (BadSignatureError (cs_reasons st @ br_reasons b))))))))"

subsection \<open>What a valid signature is\<close>

text \<open>
  The abstract contract. A repository holds a classic signature of a digest by a key when the
  signature tag's manifest has a SimpleSigning layer whose bytes hash to its own descriptor,
  name the digest, and carry a signature the key accepts over exactly those bytes.
\<close>

definition layer_bytes :: "codec \<Rightarrow> manifests \<Rightarrow> string \<Rightarrow> sigDescriptor \<Rightarrow> bytes \<Rightarrow> bool" where
  "layer_bytes cd src repo layer blob \<longleftrightarrow>
     ms_Blob src repo (sd_Digest layer) = Inr blob
     \<and> parseSHA256Digest (sd_Digest layer) = Inr (hex_encode (cd_sum256 cd blob))
     \<and> sd_Size layer \<le> MaxPayloadSize \<and> int (length blob) \<le> MaxPayloadSize"

definition classic_signature ::
  "codec \<Rightarrow> manifests \<Rightarrow> string \<Rightarrow> string \<Rightarrow> sigDescriptor \<Rightarrow> trustedKey \<Rightarrow> bool" where
  "classic_signature cd src repo dgst layer k \<longleftrightarrow>
     sd_MediaType layer = MediaTypeSimpleSigning
     \<and> annotation layer AnnotationSignature \<noteq> []
     \<and> (\<exists>blob payload sig. layer_bytes cd src repo layer blob
          \<and> cd_simpleSigning cd blob = Some payload
          \<and> ss_Type payload = payloadType \<and> ss_DockerManifestDigest payload = dgst
          \<and> cd_base64 cd (annotation layer AnnotationSignature) = Some sig
          \<and> tk_verify k blob sig)"

text \<open>A bundle signs the encoding of an in-toto statement that names the digest.\<close>

definition bundle_signature ::
  "codec \<Rightarrow> manifests \<Rightarrow> string \<Rightarrow> string \<Rightarrow> sigDescriptor \<Rightarrow> trustedKey \<Rightarrow> bool" where
  "bundle_signature cd src repo dgst layer k \<longleftrightarrow>
     has_prefix (sd_MediaType layer) mediaTypeBundlePrefix
     \<and> (\<exists>blob b env payload st s sig wantHex. layer_bytes cd src repo layer blob
          \<and> cd_sigstoreBundle cd blob = Some b \<and> sb_DSSEEnvelope b = Some env
          \<and> de_PayloadType env = payloadTypeInToto
          \<and> cd_base64 cd (de_Payload env) = Some payload
          \<and> cd_inTotoStatement cd payload = Some st \<and> it_Type st = statementType
          \<and> parseSHA256Digest dgst = Inr wantHex
          \<and> (\<exists>sub \<in> set (it_Subject st). to_lower (go_get sub ''sha256'') = wantHex)
          \<and> s \<in> set (de_Signatures env) \<and> cd_base64 cd s = Some sig
          \<and> tk_verify k (preAuthEncoding payloadTypeInToto payload) sig)"

definition signed_by ::
  "codec \<Rightarrow> manifests \<Rightarrow> string \<Rightarrow> string \<Rightarrow> trustedKey \<Rightarrow> bool" where
  "signed_by cd src repo dgst k \<longleftrightarrow>
     (\<exists>hex. parseSHA256Digest dgst = Inr hex \<and>
       ((\<exists>raw layers layer. ms_Manifest src repo (''sha256-'' @ hex @ ''.sig'') = Inr raw
           \<and> cd_sigManifest cd raw = Some layers \<and> layer \<in> set layers
           \<and> classic_signature cd src repo dgst layer k)
        \<or> (\<exists>d raw man layer. ms_Manifest src repo d = Inr raw
           \<and> cd_referringManifest cd raw = Some man
           \<and> has_prefix (rm_ArtifactType man) mediaTypeBundlePrefix
           \<and> (\<forall>sub. rm_Subject man = Some sub \<longrightarrow> sd_Digest sub \<in> {[], dgst})
           \<and> layer \<in> set (rm_Layers man)
           \<and> bundle_signature cd src repo dgst layer k)))"

text \<open>A concrete source for the examples: one manifest under the signature tag of \<open>demo_digest\<close>,
  with a foreign layer and a layer signed by \<open>demo_key\<close>; toy decoders and a constant hash.\<close>

definition demo_digest :: string where
  "demo_digest = ''sha256:'' @ replicate 64 CHR ''1''"

definition demo_key :: trustedKey where
  "demo_key = \<lparr>tk_fingerprint = ''sha256:key'', tk_verify = \<lambda>p sig. p = ''payload'' \<and> sig = ''good''\<rparr>"

definition demo_layer :: "string \<Rightarrow> sigDescriptor" where
  "demo_layer sig = \<lparr>sd_MediaType = MediaTypeSimpleSigning, sd_Digest = demo_digest, sd_Size = 7,
     sd_Annotations = [(AnnotationSignature, sig)]\<rparr>"

definition demo_codec :: codec where
  "demo_codec = \<lparr>cd_sum256 = \<lambda>_. replicate 32 CHR 0x11, cd_base64 = Some,
     cd_sigManifest = \<lambda>raw. if raw = ''m'' then Some [demo_layer ''bad'', demo_layer ''good''] else None,
     cd_simpleSigning = \<lambda>_. Some \<lparr>ss_DockerReference = [], ss_DockerManifestDigest = demo_digest,
       ss_Type = payloadType\<rparr>,
     cd_referrersIndex = \<lambda>_. None, cd_referringManifest = \<lambda>_. None,
     cd_sigstoreBundle = \<lambda>_. None, cd_inTotoStatement = \<lambda>_. None\<rparr>"

definition demo_src :: manifests where
  "demo_src = \<lparr>ms_Manifest = \<lambda>repo ref. if ref = ''sha256-'' @ replicate 64 CHR ''1'' @ ''.sig''
       then Inr ''m'' else Inl NotFound,
     ms_Blob = \<lambda>repo d. if d = demo_digest then Inr ''payload'' else Inl NotFound,
     ms_Referrers = None\<rparr>"

subsection \<open>Lemmas\<close>

lemma verifying_key_Some: "verifying_key ks p s = Some k \<Longrightarrow> k \<in> set ks \<and> tk_verify k p s"
  by (induction ks) (auto split: if_splits)

lemma verifying_key_None: "verifying_key ks p s = None \<longleftrightarrow> (\<forall>k \<in> set ks. \<not> tk_verify k p s)"
  by (induction ks) auto

lemma parse_lower: "parseSHA256Digest d = Inr h \<Longrightarrow> to_lower h = h"
  by (auto simp: parseSHA256Digest_def Let_def split: if_splits)

lemma bundleBlob_bytes: "bundleBlob cd src repo layer = Inr (Inr blob) \<longleftrightarrow> layer_bytes cd src repo layer blob"
  by (auto simp: bundleBlob_def layer_bytes_def split: sum.splits if_splits src_error.splits)

lemma signaturePayload_bytes:
  "signaturePayload cd src repo layer = Inr (Inr blob) \<longleftrightarrow>
     annotation layer AnnotationSignature \<noteq> [] \<and> layer_bytes cd src repo layer blob"
  by (auto simp: signaturePayload_def layer_bytes_def split: sum.splits if_splits src_error.splits)

lemma classic_layer_verifiable:
  "classic_layer cd src repo dgst layer = Inr (Inr (blob, sig)) \<longleftrightarrow>
     annotation layer AnnotationSignature \<noteq> [] \<and> layer_bytes cd src repo layer blob
     \<and> (\<exists>p. cd_simpleSigning cd blob = Some p \<and> ss_Type p = payloadType \<and> ss_DockerManifestDigest p = dgst)
     \<and> cd_base64 cd (annotation layer AnnotationSignature) = Some sig"
proof -
  have "classic_layer cd src repo dgst layer = Inr (Inr (blob, sig)) \<longleftrightarrow>
      signaturePayload cd src repo layer = Inr (Inr blob)
      \<and> (\<exists>p. cd_simpleSigning cd blob = Some p \<and> ss_Type p = payloadType \<and> ss_DockerManifestDigest p = dgst)
      \<and> cd_base64 cd (annotation layer AnnotationSignature) = Some sig"
    by (auto simp: classic_layer_def split: sum.splits option.splits if_splits)
  then show ?thesis by (simp add: signaturePayload_bytes)
qed

lemma classic_layers_sound:
  "classic_layers cd src repo dgst keys i st layers = Inr (Inl fp) \<Longrightarrow>
     \<exists>layer \<in> set layers. \<exists>k \<in> set keys. fp = tk_fingerprint k \<and> classic_signature cd src repo dgst layer k"
proof (induction layers arbitrary: i st)
  case (Cons layer layers)
  show ?case
  proof (cases "sd_MediaType layer = MediaTypeSimpleSigning")
    case False
    with Cons show ?thesis by auto
  next
    case True
    show ?thesis
    proof (cases "\<exists>blob sig. classic_layer cd src repo dgst layer = Inr (Inr (blob, sig))
                   \<and> verifying_key keys blob sig \<noteq> None")
      case True
      then obtain blob sig k where l: "classic_layer cd src repo dgst layer = Inr (Inr (blob, sig))"
        "verifying_key keys blob sig = Some k" by auto
      with Cons.prems \<open>sd_MediaType layer = _\<close> have "fp = tk_fingerprint k" by (simp add: Let_def)
      moreover have "classic_signature cd src repo dgst layer k"
        using l \<open>sd_MediaType layer = _\<close> verifying_key_Some [OF l(2)]
        by (auto simp: classic_signature_def classic_layer_verifiable)
      ultimately show ?thesis using verifying_key_Some [OF l(2)] by auto
    next
      case False
      then have "\<exists>j st'. classic_layers cd src repo dgst keys j st' layers = Inr (Inl fp)"
        using Cons.prems True by (auto simp: Let_def split: sum.splits option.splits; blast)
      with Cons.IH show ?thesis by auto
    qed
  qed
qed simp

lemma try_signatures_sound:
  "try_signatures cd keys pae sigs t = (Some fp, t') \<Longrightarrow>
     \<exists>s \<in> set sigs. \<exists>sig. \<exists>k \<in> set keys. cd_base64 cd s = Some sig \<and> fp = tk_fingerprint k \<and> tk_verify k pae sig"
proof (induction sigs arbitrary: t)
  case (Cons s sigs)
  then show ?case
    by (auto split: option.splits dest!: verifying_key_Some)
qed simp

lemma verifyBundleBlob_sound:
  assumes "verifyBundleBlob cd blob dgst keys = Inr (Some fp)"
    and "layer_bytes cd src repo layer blob" and "has_prefix (sd_MediaType layer) mediaTypeBundlePrefix"
  shows "\<exists>k \<in> set keys. fp = tk_fingerprint k \<and> bundle_signature cd src repo dgst layer k"
proof -
  from assms(1) obtain b env payload st wantHex t where
    1: "cd_sigstoreBundle cd blob = Some b" "sb_DSSEEnvelope b = Some env"
      "de_PayloadType env = payloadTypeInToto" "cd_base64 cd (de_Payload env) = Some payload"
      "cd_inTotoStatement cd payload = Some st" "it_Type st = statementType"
      "parseSHA256Digest dgst = Inr wantHex"
    and 2: "\<exists>sub \<in> set (it_Subject st). to_lower (go_get sub ''sha256'')
              = to_lower wantHex"
    and 3: "try_signatures cd keys (preAuthEncoding payloadTypeInToto payload) (de_Signatures env) False = (Some fp, t)"
    unfolding verifyBundleBlob_def list_ex_iff
    by (auto split: option.splits if_splits sum.splits prod.splits bool.splits)
  from 3 obtain s sig k where "s \<in> set (de_Signatures env)" "k \<in> set keys" "cd_base64 cd s = Some sig"
    "fp = tk_fingerprint k" "tk_verify k (preAuthEncoding payloadTypeInToto payload) sig"
    using try_signatures_sound by blast
  with 1 2 assms(2,3) parse_lower [OF 1(7)] show ?thesis
    unfolding bundle_signature_def by metis
qed

lemma bundle_layers_sound:
  "bundle_layers cd src repo dgst keys v layers = Inr (Signed fp) \<Longrightarrow>
     \<exists>layer \<in> set layers. \<exists>k \<in> set keys. fp = tk_fingerprint k \<and> bundle_signature cd src repo dgst layer k"
proof (induction layers arbitrary: v)
  case (Cons layer layers)
  consider "\<exists>v'. bundle_layers cd src repo dgst keys v' layers = Inr (Signed fp)"
    | blob where "has_prefix (sd_MediaType layer) mediaTypeBundlePrefix"
        "layer_bytes cd src repo layer blob" "verifyBundleBlob cd blob dgst keys = Inr (Some fp)"
    using Cons.prems by (fastforce simp flip: bundleBlob_bytes split: if_splits sum.splits option.splits)
  then show ?case
  proof cases
    case 1
    with Cons.IH show ?thesis by auto
  next
    case 2
    with verifyBundleBlob_sound show ?thesis by auto
  qed
qed (auto split: if_splits)

lemma verifyOneBundle_sound:
  assumes "verifyOneBundle cd src repo dgst d keys = Inr (Signed fp)" and "parseSHA256Digest dgst = Inr hex"
  shows "\<exists>k \<in> set keys. fp = tk_fingerprint k \<and> signed_by cd src repo dgst k"
proof -
  from assms(1) obtain raw man where 1: "ms_Manifest src repo d = Inr raw"
      "cd_referringManifest cd raw = Some man" "has_prefix (rm_ArtifactType man) mediaTypeBundlePrefix"
      "bundle_layers cd src repo dgst keys False (rm_Layers man) = Inr (Signed fp)"
    and sub: "\<forall>sub. rm_Subject man = Some sub \<longrightarrow> sd_Digest sub \<in> {[], dgst}"
    unfolding verifyOneBundle_def
    by (auto split: sum.splits option.splits if_splits src_error.splits)
  from bundle_layers_sound [OF 1(4)] obtain layer k where
    "layer \<in> set (rm_Layers man)" "k \<in> set keys" "fp = tk_fingerprint k"
    "bundle_signature cd src repo dgst layer k" by blast
  with 1 sub assms(2) show ?thesis unfolding signed_by_def by blast
qed

lemma bundles_loop_sound:
  "bundles_loop cd src repo dgst keys fo ve rs ds = Inr b \<Longrightarrow> br_fp b \<noteq> [] \<Longrightarrow>
     \<exists>d \<in> set ds. verifyOneBundle cd src repo dgst d keys = Inr (Signed (br_fp b))"
proof (induction ds arbitrary: fo ve rs)
  case (Cons d ds)
  then show ?case by (auto split: sum.splits bundle_outcome.splits)
qed auto

lemma verifyBundles_sound:
  assumes "verifyBundles cd src repo dgst hex keys = Inr b" and "br_fp b \<noteq> []"
    and "parseSHA256Digest dgst = Inr h"
  shows "\<exists>k \<in> set keys. br_fp b = tk_fingerprint k \<and> signed_by cd src repo dgst k"
  using assms bundles_loop_sound verifyOneBundle_sound
  unfolding verifyBundles_def bind_r_Inr_iff by metis

text \<open>Completeness of the classic layout.\<close>

lemma classic_layer_no_fatal:
  "\<forall>m. ms_Blob src repo (sd_Digest layer) \<noteq> Inl (SrcFailed m) \<Longrightarrow>
     classic_layer cd src repo dgst layer \<noteq> Inl e"
  by (auto simp: classic_layer_def signaturePayload_def split: sum.splits option.splits src_error.splits)

lemma classic_layers_complete:
  assumes "layer \<in> set layers" and "classic_signature cd src repo dgst layer k" and "k \<in> set keys"
    and "\<forall>l \<in> set layers. \<forall>m. ms_Blob src repo (sd_Digest l) \<noteq> Inl (SrcFailed m)"
  shows "\<exists>fp. classic_layers cd src repo dgst keys i st layers = Inr (Inl fp)"
  using assms
proof (induction layers arbitrary: i st)
  case (Cons l layers)
  have nf: "classic_layer cd src repo dgst l \<noteq> Inl e" for e
    using Cons.prems(4) by (intro classic_layer_no_fatal) simp
  show ?case
  proof (cases "l = layer")
    case True
    from Cons.prems(2) obtain blob sig where "classic_layer cd src repo dgst l = Inr (Inr (blob, sig))"
        "tk_verify k blob sig"
      unfolding True classic_signature_def by (metis classic_layer_verifiable)
    moreover from this(2) Cons.prems(3) have "verifying_key keys blob sig \<noteq> None"
      by (auto simp: verifying_key_None)
    moreover have "sd_MediaType l = MediaTypeSimpleSigning"
      using Cons.prems(2) True by (simp add: classic_signature_def)
    ultimately show ?thesis by (auto simp: Let_def)
  next
    case False
    then have "\<exists>fp. classic_layers cd src repo dgst keys j st' layers = Inr (Inl fp)" for j st'
      using Cons by auto
    with nf show ?thesis by (auto simp: Let_def split: sum.splits option.splits)
  qed
qed simp

text \<open>The unsigned verdict.\<close>

lemma bundle_layers_error:
  "bundle_layers cd src repo dgst keys v layers = Inl e \<Longrightarrow> e \<noteq> ErrNoSignature"
  by (induction layers arbitrary: v)
     (auto simp: bundleBlob_def split: if_splits sum.splits option.splits src_error.splits)

lemma verifyOneBundle_error:
  "verifyOneBundle cd src repo dgst d keys = Inl e \<Longrightarrow> e \<noteq> ErrNoSignature"
  by (auto simp: verifyOneBundle_def dest: bundle_layers_error
      split: sum.splits option.splits if_splits src_error.splits)

lemma bundles_loop_error:
  "bundles_loop cd src repo dgst keys fo ve rs ds = Inl e \<Longrightarrow> e \<noteq> ErrNoSignature"
  by (induction ds arbitrary: fo ve rs)
     (auto split: sum.splits bundle_outcome.splits dest: verifyOneBundle_error)

lemma bundleCandidates_error:
  "bundleCandidates cd src repo dgst hex = Inl e \<Longrightarrow> e \<noteq> ErrNoSignature"
  by (auto simp: bundleCandidates_def bind_r_def split: sum.splits option.splits prod.splits src_error.splits)

lemma verifyBundles_error: "verifyBundles cd src repo dgst hex keys \<noteq> Inl ErrNoSignature"
  by (auto simp: verifyBundles_def bind_r_def split: sum.splits
      dest: bundleCandidates_error bundles_loop_error)

lemma classic_layers_error:
  "classic_layers cd src repo dgst keys i st layers = Inl e \<Longrightarrow> e \<noteq> ErrNoSignature"
proof (induction layers arbitrary: i st)
  case (Cons l ls)
  have "classic_layer cd src repo dgst l = Inl e \<Longrightarrow> e \<noteq> ErrNoSignature" for e
    by (auto simp: classic_layer_def signaturePayload_def split: sum.splits option.splits if_splits src_error.splits)
  with Cons show ?case by (auto simp: Let_def split: if_splits sum.splits option.splits)
qed simp

lemma bundles_loop_not_found:
  "(\<exists>b. bundles_loop cd src repo dgst keys fo ve rs ds = Inr b \<and> \<not> br_found b) \<longleftrightarrow>
     \<not> fo \<and> (\<forall>d \<in> set ds. verifyOneBundle cd src repo dgst d keys = Inr Skipped)"
proof (induction ds arbitrary: fo ve rs)
  case (Cons d ds)
  then show ?case
    by (cases "verifyOneBundle cd src repo dgst d keys")
       (auto split: bundle_outcome.splits)
qed simp

lemma bundles_loop_not_found_fp:
  "bundles_loop cd src repo dgst keys fo ve rs ds = Inr b \<Longrightarrow> \<not> br_found b \<Longrightarrow> br_fp b = []"
  by (induction ds arbitrary: fo ve rs) (auto split: sum.splits bundle_outcome.splits)

text \<open>The pre-authentication encoding is uniquely decodable.\<close>

lemma space_nat_str: "CHR '' '' \<notin> set (nat_str n)"
  by (rule nat_str_free) (simp add: is_digit_def)

lemma length_prefixed_inj:
  "nat_str (length a) @ '' '' @ a @ s = nat_str (length b) @ '' '' @ b @ t \<longleftrightarrow> a = b \<and> s = t"
proof
  assume "nat_str (length a) @ '' '' @ a @ s = nat_str (length b) @ '' '' @ b @ t"
  then have "nat_str (length a) = nat_str (length b) \<and> a @ s = b @ t"
    using first_sep_unique [OF space_nat_str space_nat_str] by simp
  then show "a = b \<and> s = t" by auto
qed simp

text \<open>The example source.\<close>

lemma hex_encode_demo: "hex_encode (replicate 32 CHR 0x11) = replicate 64 CHR ''1''"
proof -
  have "concat (replicate n [c, c]) = replicate (2 * n) (c :: char)" for n c by (induction n) auto
  moreover have "hex_digit 1 = CHR ''1''" by code_simp
  ultimately show ?thesis by (simp add: hex_encode_def)
qed

lemma parse_demo: "parseSHA256Digest demo_digest = Inr (replicate 64 CHR ''1'')"
  by (simp add: parseSHA256Digest_def demo_digest_def is_hex_def to_lower_def lower_char_def is_upper_def
      list_all_iff Let_def)

lemma demo_simps:
  "annotation (demo_layer sig) AnnotationSignature = sig"
  "sd_MediaType (demo_layer sig) = MediaTypeSimpleSigning"
  "sd_Digest (demo_layer sig) = demo_digest" "sd_Size (demo_layer sig) = 7"
  "ms_Blob demo_src r demo_digest = Inr ''payload''"
  "ms_Manifest demo_src r (''sha256-'' @ replicate 64 CHR ''1'' @ ''.sig'') = Inr ''m''"
  "cd_sigManifest demo_codec ''m'' = Some [demo_layer ''bad'', demo_layer ''good'']"
  "cd_base64 demo_codec sig = Some sig"
  "cd_simpleSigning demo_codec blob = Some \<lparr>ss_DockerReference = [],
     ss_DockerManifestDigest = demo_digest, ss_Type = payloadType\<rparr>"
  "tk_verify demo_key p sig = (p = ''payload'' \<and> sig = ''good'')"
  "tk_fingerprint demo_key = ''sha256:key''"
  "cd_sum256 demo_codec blob = replicate 32 CHR 0x11"
  by (simp_all add: annotation_def go_get_def demo_layer_def demo_src_def demo_codec_def demo_key_def)

lemma demo_classic_layer:
  "sig \<noteq> [] \<Longrightarrow> classic_layer demo_codec demo_src ''r'' demo_digest (demo_layer sig) = Inr (Inr (''payload'', sig))"
  by (simp add: classic_layer_def signaturePayload_def parse_demo hex_encode_demo demo_simps)

lemma demo_Verify:
  "Verify demo_codec demo_src ''r'' demo_digest (Some [demo_key]) = Inr ''sha256:key''"
  using demo_simps(6) by (simp add: Verify_def Let_def parse_demo demo_simps demo_classic_layer)

subsection \<open>Main results\<close>

lemma Verify_signed:
  assumes "Verify cd src repo dgst okeys = Inr fp"
  shows "\<exists>keys k. okeys = Some keys \<and> k \<in> set keys \<and> fp = tk_fingerprint k \<and> signed_by cd src repo dgst k"
proof -
  from assms obtain keys hex where k: "okeys = Some keys" "parseSHA256Digest dgst = Inr hex"
    by (auto simp: Verify_def split: option.splits if_splits sum.splits)
  consider b where "verifyBundles cd src repo dgst hex keys = Inr b" "br_fp b \<noteq> []" "fp = br_fp b"
    | raw layers st where "ms_Manifest src repo (''sha256-'' @ hex @ ''.sig'') = Inr raw"
        "cd_sigManifest cd raw = Some layers"
        "classic_layers cd src repo dgst keys 0 st layers = Inr (Inl fp)"
    using assms k by (auto simp: Verify_def Let_def split: option.splits if_splits sum.splits src_error.splits)
  then show ?thesis
  proof cases
    case 1
    then show ?thesis using verifyBundles_sound [OF _ _ k(2)] k by blast
  next
    case 2
    then show ?thesis using classic_layers_sound [OF 2(3)] k unfolding signed_by_def by blast
  qed
qed

text \<open>C3: A fingerprint returned by \<open>Verify\<close> is the fingerprint of a configured key that really
  signed the subject: the repository holds a payload that hashes to its descriptor, names
  exactly the digest under verification, and carries a signature this key accepts over those
  bytes, in the classic layout or in a bundle.\<close>

theorem Verify_sound:
  assumes "Verify cd src repo dgst okeys = Inr fp"
  shows "\<exists>keys k. okeys = Some keys \<and> k \<in> set keys \<and> fp = tk_fingerprint k \<and> signed_by cd src repo dgst k"
  using Verify_signed [OF assms] .

theorem Verify_sound_witness: "signed_by demo_codec demo_src ''r'' demo_digest demo_key"
  using Verify_sound [OF demo_Verify] by auto

text \<open>Key rotation by overlap: when the signature manifest is readable and any one of its
  layers carries a valid signature by any configured key, \<open>Verify\<close> succeeds, whatever else
  the manifest lists. Only an unreadable source can prevent it.\<close>

theorem Verify_complete:
  assumes "k \<in> set keys" and "parseSHA256Digest dgst = Inr hex"
    and "ms_Manifest src repo (''sha256-'' @ hex @ ''.sig'') = Inr raw"
    and "cd_sigManifest cd raw = Some layers" and "layer \<in> set layers"
    and "classic_signature cd src repo dgst layer k"
    and "\<forall>l \<in> set layers. \<forall>m. ms_Blob src repo (sd_Digest l) \<noteq> Inl (SrcFailed m)"
  shows "\<exists>fp. Verify cd src repo dgst (Some keys) = Inr fp"
proof -
  have "keys \<noteq> []" using assms(1) by auto
  moreover obtain fp where "classic_layers cd src repo dgst keys 0
      \<lparr>cs_reasons = [], cs_sawVerifiable = False, cs_candidates = 0\<rparr> layers = Inr (Inl fp)"
    using classic_layers_complete [OF assms(5,6,1,7)] by blast
  ultimately show ?thesis using assms(2-4) by (simp add: Verify_def)
qed

theorem Verify_complete_witness:
  "\<exists>fp. Verify demo_codec demo_src ''r'' demo_digest (Some [demo_key]) = Inr fp"
  by (rule Verify_complete [OF _ parse_demo demo_simps(6,7), where k = demo_key and layer = "demo_layer ''good''"])
     (auto simp: classic_signature_def layer_bytes_def demo_simps parse_demo hex_encode_demo)

text \<open>The verdict ``unsigned'', the only one a declared scope may waive, is given exactly when
  there is no signature tag and every artifact referring to the subject is absent or is not a
  signature bundle: a malformed or wrongly signed artifact is never reported as unsigned.\<close>

theorem Verify_unsigned_iff:
  "Verify cd src repo dgst okeys = Inl ErrNoSignature \<longleftrightarrow>
     (\<exists>keys hex ds. okeys = Some keys \<and> keys \<noteq> [] \<and> parseSHA256Digest dgst = Inr hex
        \<and> ms_Manifest src repo (''sha256-'' @ hex @ ''.sig'') = Inl NotFound
        \<and> bundleCandidates cd src repo dgst hex = Inr ds
        \<and> list_all (\<lambda>d. verifyOneBundle cd src repo dgst d keys = Inr Skipped) ds)"
proof -
  have loop: "(\<exists>b. verifyBundles cd src repo dgst hex keys = Inr b \<and> br_fp b = [] \<and> \<not> br_found b) \<longleftrightarrow>
      (\<exists>ds. bundleCandidates cd src repo dgst hex = Inr ds
        \<and> list_all (\<lambda>d. verifyOneBundle cd src repo dgst d keys = Inr Skipped) ds)" for hex keys
    using bundles_loop_not_found [of cd src repo dgst keys False False "[]"] bundles_loop_not_found_fp
    unfolding verifyBundles_def bind_r_Inr_iff list_all_iff by metis
  have "Verify cd src repo dgst okeys = Inl ErrNoSignature \<longleftrightarrow>
      (\<exists>keys hex. okeys = Some keys \<and> keys \<noteq> [] \<and> parseSHA256Digest dgst = Inr hex
        \<and> ms_Manifest src repo (''sha256-'' @ hex @ ''.sig'') = Inl NotFound
        \<and> (\<exists>b. verifyBundles cd src repo dgst hex keys = Inr b \<and> br_fp b = [] \<and> \<not> br_found b))"
    using verifyBundles_error classic_layers_error
    by (fastforce simp: Verify_def Let_def split: option.splits sum.splits src_error.splits if_splits)
  with loop show ?thesis by auto
qed

text \<open>The pre-authentication encoding a bundle's signature covers determines both the payload
  type and the payload: no signature over one pair is a signature over another.\<close>

theorem preAuthEncoding_injective:
  "preAuthEncoding pt payload = preAuthEncoding pt' payload' \<longleftrightarrow> pt = pt' \<and> payload = payload'"
proof -
  have "preAuthEncoding pt payload = preAuthEncoding pt' payload' \<longleftrightarrow>
      pt = pt' \<and> nat_str (length payload) @ '' '' @ payload @ [] = nat_str (length payload') @ '' '' @ payload' @ []"
    unfolding preAuthEncoding_def using length_prefixed_inj
      [of pt "'' '' @ nat_str (length payload) @ '' '' @ payload" pt' "'' '' @ nat_str (length payload') @ '' '' @ payload'"]
    by simp
  then show ?thesis by (simp only: length_prefixed_inj) simp
qed

subsection \<open>Key sets\<close>

lemma union_keys_spec:
  assumes "union_keys seen ks = (out, seen')"
  shows "seen' = seen \<union> tk_fingerprint ` set ks" and "set out \<subseteq> set ks"
    and "tk_fingerprint ` set out = tk_fingerprint ` set ks - seen"
    and "distinct (Fingerprints out)"
proof -
  have "seen' = seen \<union> tk_fingerprint ` set ks \<and> set out \<subseteq> set ks
    \<and> tk_fingerprint ` set out = tk_fingerprint ` set ks - seen \<and> distinct (Fingerprints out)"
    using assms
  proof (induction seen ks arbitrary: out seen' rule: union_keys.induct)
    case (2 seen k ks)
    show ?case
    proof (cases "tk_fingerprint k \<in> seen")
      case True
      with 2 show ?thesis by fastforce
    next
      case False
      with "2.prems" obtain out1 where o: "union_keys (insert (tk_fingerprint k) seen) ks = (out1, seen')"
        "out = k # out1" by (auto split: prod.splits)
      from "2.IH"(2) [OF False o(1)] have ih:
        "seen' = insert (tk_fingerprint k) seen \<union> tk_fingerprint ` set ks" "set out1 \<subseteq> set ks"
        "tk_fingerprint ` set out1 = tk_fingerprint ` set ks - insert (tk_fingerprint k) seen"
        "distinct (Fingerprints out1)" by simp_all
      have "tk_fingerprint k \<notin> set (Fingerprints out1)"
        using ih(3) by (simp add: Fingerprints_def)
      with ih o(2) False show ?thesis by (auto simp: Fingerprints_def)
    qed
  qed (auto simp: Fingerprints_def)
  then show "seen' = seen \<union> tk_fingerprint ` set ks" "set out \<subseteq> set ks"
    "tk_fingerprint ` set out = tk_fingerprint ` set ks - seen" "distinct (Fingerprints out)" by simp_all
qed

lemma union_sets_spec:
  "distinct (Fingerprints (union_sets seen sets))
   \<and> tk_fingerprint ` set (union_sets seen sets) = (\<Union>ks \<in> {ks. Some ks \<in> set sets}. tk_fingerprint ` set ks) - seen
   \<and> set (union_sets seen sets) \<subseteq> (\<Union>ks \<in> {ks. Some ks \<in> set sets}. set ks)"
proof (induction seen sets rule: union_sets.induct)
  case (3 seen ks sets)
  obtain out seen' where u: "union_keys seen ks = (out, seen')" by fastforce
  note spec = union_keys_spec [OF u] and ih = "3.IH" [OF u [symmetric] refl]
  have eq: "{ks'. Some ks' \<in> set (Some ks # sets)} = insert ks {ks'. Some ks' \<in> set sets}" by auto
  have "distinct (Fingerprints (out @ union_sets seen' sets))"
    using spec ih by (auto simp: Fingerprints_def)
  moreover have "tk_fingerprint ` set (out @ union_sets seen' sets) =
      (\<Union>ks \<in> insert ks {ks. Some ks \<in> set sets}. tk_fingerprint ` set ks) - seen"
    using spec ih by (auto simp: image_Un)
  moreover have "set (out @ union_sets seen' sets) \<subseteq> (\<Union>ks \<in> insert ks {ks. Some ks \<in> set sets}. set ks)"
    using spec(2) ih by auto
  ultimately show ?case using u unfolding eq by simp
qed (auto simp: Fingerprints_def)

lemma Union_keys_members: "set (Union_keys sets) \<subseteq> (\<Union>ks \<in> {ks. Some ks \<in> set sets}. set ks)"
  using union_sets_spec [of "{}" sets] by (simp add: Union_keys_def)

text \<open>The loop over PEM blocks: more fuel than bytes changes nothing.\<close>

lemma parseBlocks_enough:
  assumes "\<And>r b r'. kc_pemDecode kc r = Some (b, r') \<Longrightarrow> length r' < length r"
    and "length rest < fuel" and "length rest < fuel'"
  shows "parseBlocks kc fuel i rest = parseBlocks kc fuel' i rest"
  using assms(2,3)
proof (induction fuel arbitrary: fuel' rest)
  case (Suc fuel)
  then obtain f where f: "fuel' = Suc f" by (cases fuel') auto
  show ?case
  proof (cases "kc_pemDecode kc rest")
    case (Some x)
    obtain t der r where x: "x = ((t, der), r)" by (cases x) auto
    have "length r < length rest" using assms(1) Some x by auto
    then have "parseBlocks kc fuel i r = parseBlocks kc f i r" using Suc f by (intro Suc.IH) auto
    then show ?thesis using Some x f by (auto split: sum.splits)
  qed (simp add: f)
qed simp

definition key_ok :: "trustedKey \<Rightarrow> bool" where
  "key_ok k \<longleftrightarrow> has_prefix (tk_fingerprint k) ''sha256:''"

lemma newTrustedKey_ok: "newTrustedKey kc der = Inr k \<Longrightarrow> key_ok k"
  by (auto simp: newTrustedKey_def key_ok_def Let_def split: option.splits pubkey.splits curve.splits if_splits)

lemma parseBlocks_ok: "parseBlocks kc fuel i rest = Inr ks \<Longrightarrow> list_all key_ok ks"
  by (induction fuel arbitrary: rest ks)
     (auto split: option.splits prod.splits if_splits sum.splits simp: bind_r_Inr_iff dest: newTrustedKey_ok)

lemma parseInputs_ok: "parseInputs kc i pems = Inr ks \<Longrightarrow> list_all key_ok ks"
  by (induction pems arbitrary: i ks)
     (auto simp: bind_r_Inr_iff simp del: parseBlocks.simps split: if_splits dest: parseBlocks_ok)

lemma ParsePublicKeys_ok: "ParsePublicKeys kc pems = Inr ks \<Longrightarrow> ks \<noteq> [] \<and> list_all key_ok ks"
  by (auto simp: ParsePublicKeys_def bind_r_Inr_iff split: if_splits dest: parseInputs_ok)

text \<open>A union of key sets holds one key per fingerprint, exactly the fingerprints of its
  non-nil operands, and only keys of those operands; the union of nothing is empty, with which
  \<open>Verify\<close> refuses every subject.\<close>

theorem Union_keys_spec:
  "distinct (Fingerprints (Union_keys sets))
   \<and> set (Fingerprints (Union_keys sets)) = (\<Union>ks \<in> {ks. Some ks \<in> set sets}. set (Fingerprints ks))
   \<and> set (Union_keys sets) \<subseteq> (\<Union>ks \<in> {ks. Some ks \<in> set sets}. set ks)
   \<and> Verify cd src repo dgst (Some (Union_keys [])) = Inl NoTrustRoots"
  using union_sets_spec [of "{}" sets] by (simp add: Union_keys_def Fingerprints_def Verify_def)

end
