(* ===== verification/Trust.thy ===== *)
theory Trust
  imports SigVerify Wildcard Relocate
begin

text \<open>
  The trust configuration (\<^verbatim>\<open>validateTrust\<close> in \<^verbatim>\<open>internal/config/config.go\<close>), the loaded
  policy and its decisions (\<^verbatim>\<open>internal/engine/trust.go\<close>), and the two places the engine
  applies them: \<^verbatim>\<open>verifyRecipe\<close> (\<^verbatim>\<open>sync.go\<close>) and
  \<^verbatim>\<open>verifyStored\<close>, \<^verbatim>\<open>verifySignedStored\<close> (\<^verbatim>\<open>promote.go\<close>).
  The world \<^verbatim>\<open>LoadTrust\<close> acts on is explicit: the files it reads and writes, the answer of
  every URL, and which paths can be written.
\<close>

subsection \<open>Configuration\<close>

record TrustRoot =
  tr_Name :: string
  tr_Key :: string
  tr_KeyFile :: string
  tr_KeyURL :: string

record TrustScope =
  ts_Name :: string
  ts_Repositories :: "string list"
  ts_AllowUnsigned :: bool
  ts_Roots :: "string list"

record trust_config =
  tc_Roots :: "TrustRoot list"
  tc_Scopes :: "TrustScope list"

datatype trust_error =
    RootNameRequired nat | RootDuplicate nat string | RootSources nat string | RootNotHTTPS nat string
  | ScopeNameRequired nat | ScopeDuplicate nat string | ScopeNoPatterns nat string
  | ScopeChangesNothing nat string | ScopeUnknownRoot nat string string

fun validate_roots :: "nat \<Rightarrow> string list \<Rightarrow> TrustRoot list \<Rightarrow> trust_error list \<times> string list" where
  "validate_roots i names [] = ([], names)"
| "validate_roots i names (r # rs) =
     (let nameErr = (if tr_Name r = [] then [RootNameRequired i]
                     else if tr_Name r \<in> set names then [RootDuplicate i (tr_Name r)] else []);
          set_count = length (filter (\<lambda>v. v \<noteq> []) [tr_Key r, tr_KeyFile r, tr_KeyURL r]);
          srcErr = (if set_count \<noteq> 1 then [RootSources i (tr_Name r)] else []);
          urlErr = (if tr_KeyURL r \<noteq> [] \<and> \<not> has_prefix (tr_KeyURL r) ''https://''
                    then [RootNotHTTPS i (tr_Name r)] else []);
          (errs, names') = validate_roots (Suc i) (tr_Name r # names) rs
      in (nameErr @ srcErr @ urlErr @ errs, names'))"

fun validate_scopes :: "nat \<Rightarrow> string list \<Rightarrow> string list \<Rightarrow> TrustScope list \<Rightarrow> trust_error list" where
  "validate_scopes i rootNames names [] = []"
| "validate_scopes i rootNames names (s # ss) =
     (if ts_Name s = [] then [ScopeNameRequired i]
      else if ts_Name s \<in> set names then [ScopeDuplicate i (ts_Name s)] else [])
     @ (if ts_Repositories s = [] then [ScopeNoPatterns i (ts_Name s)] else [])
     @ (if \<not> ts_AllowUnsigned s \<and> ts_Roots s = [] then [ScopeChangesNothing i (ts_Name s)] else [])
     @ map (ScopeUnknownRoot i (ts_Name s)) (filter (\<lambda>w. w \<notin> set rootNames) (ts_Roots s))
     @ validate_scopes (Suc i) rootNames (ts_Name s # names) ss"

definition validateTrust :: "trust_config \<Rightarrow> trust_error list" where
  "validateTrust c =
     (let (errs, rootNames) = validate_roots 0 [] (tc_Roots c)
      in errs @ validate_scopes 0 rootNames [] (tc_Scopes c))"

subsection \<open>Loading\<close>

datatype http_answer = Unreachable | Answer int "bytes option"

record trust_world =
  tw_http :: "string \<Rightarrow> http_answer"
  tw_writable :: "string \<Rightarrow> bool"
  tw_keys :: keycodec

type_synonym files = "string \<Rightarrow> bytes option"

datatype load_error =
    UnreadableFile string string
  | FetchFailed string string
  | FetchStatus string string int
  | BadKeys string key_error
  | BadKeySet key_error

abbreviation keyLimit :: nat where "keyLimit \<equiv> 1048576"

definition fetchCachedKeyAt ::
  "trust_world \<Rightarrow> string \<Rightarrow> string \<Rightarrow> string \<Rightarrow> files \<Rightarrow> (load_error + bytes) \<times> files" where
  "fetchCachedKeyAt w name url cachePath fs =
     (let fallback = \<lambda>err. (case fs cachePath of Some cached \<Rightarrow> Inr cached | None \<Rightarrow> Inl err) in
      case tw_http w url of
        Unreachable \<Rightarrow> (fallback (FetchFailed name url), fs)
      | Answer status body \<Rightarrow>
          (if status = 200 then
             (case body of
                Some b \<Rightarrow>
                  (let pem = take keyLimit b in
                   (Inr pem, if tw_writable w cachePath then fs(cachePath \<mapsto> pem) else fs))
              | None \<Rightarrow> (fallback (FetchStatus name url status), fs))
           else (fallback (FetchStatus name url status), fs)))"

definition fetchCachedKey ::
  "trust_world \<Rightarrow> string \<Rightarrow> string \<Rightarrow> string \<Rightarrow> files \<Rightarrow> (load_error + bytes) \<times> files" where
  "fetchCachedKey w name url cachePath fs =
     (if cachePath = [] then
        (case tw_http w url of
           Unreachable \<Rightarrow> Inl (FetchFailed name url)
         | Answer status body \<Rightarrow>
             if status \<noteq> 200 then Inl (FetchStatus name url status)
             else (case body of None \<Rightarrow> Inl (FetchFailed name url) | Some b \<Rightarrow> Inr (take keyLimit b)), fs)
      else fetchCachedKeyAt w name url cachePath fs)"

definition root_pem ::
  "trust_world \<Rightarrow> string \<Rightarrow> TrustRoot \<Rightarrow> files \<Rightarrow> (load_error + bytes) \<times> files" where
  "root_pem w cacheDir r fs =
     (if tr_Key r \<noteq> [] then (Inr (tr_Key r), fs)
      else if tr_KeyFile r \<noteq> [] then
        (case fs (tr_KeyFile r) of
           None \<Rightarrow> Inl (UnreadableFile (tr_Name r) (tr_KeyFile r))
         | Some b \<Rightarrow> Inr b, fs)
      else if tr_KeyURL r \<noteq> [] then
        fetchCachedKey w (tr_Name r) (tr_KeyURL r) (filepath_join cacheDir (tr_Name r @ ''.pub'')) fs
      else (Inr [], fs))"

record TrustPolicy =
  tp_roots :: "(string \<times> Keys) list"
  tp_all :: "Keys option"
  tp_scopes :: "TrustScope list"

fun load_roots ::
  "trust_world \<Rightarrow> string \<Rightarrow> TrustRoot list \<Rightarrow> files
     \<Rightarrow> (load_error + (string \<times> Keys) list \<times> bytes list) \<times> files" where
  "load_roots w cacheDir [] fs = (Inr ([], []), fs)"
| "load_roots w cacheDir (r # rs) fs =
     (case root_pem w cacheDir r fs of
        (Inl e, fs') \<Rightarrow> (Inl e, fs')
      | (Inr pem, fs') \<Rightarrow>
          (case ParsePublicKeys (tw_keys w) [pem] of
             Inl e \<Rightarrow> (Inl (BadKeys (tr_Name r) e), fs')
           | Inr keys \<Rightarrow>
               (case load_roots w cacheDir rs fs' of
                  (Inl e, fs'') \<Rightarrow> (Inl e, fs'')
                | (Inr (roots, pems), fs'') \<Rightarrow> (Inr (roots @ [(tr_Name r, keys)], pem # pems), fs''))))"

definition LoadTrust ::
  "trust_world \<Rightarrow> trust_config \<Rightarrow> string \<Rightarrow> files \<Rightarrow> (load_error + TrustPolicy) \<times> files" where
  "LoadTrust w cfg cacheDir fs =
     (case load_roots w cacheDir (tc_Roots cfg) fs of
        (Inl e, fs') \<Rightarrow> (Inl e, fs')
      | (Inr (roots, pems), fs') \<Rightarrow>
          (if pems = [] then Inr \<lparr>tp_roots = roots, tp_all = None, tp_scopes = tc_Scopes cfg\<rparr>
           else (case ParsePublicKeys (tw_keys w) pems of
                   Inl e \<Rightarrow> Inl (BadKeySet e)
                 | Inr all \<Rightarrow> Inr \<lparr>tp_roots = roots, tp_all = Some all, tp_scopes = tc_Scopes cfg\<rparr>), fs'))"

subsection \<open>Matching\<close>

definition matchSegment :: "string \<Rightarrow> string \<Rightarrow> bool" where
  "matchSegment pat s =
     (let parts = split_on CHR ''*'' pat in
      if length parts = 1 then pat = s
      else if \<not> has_prefix s (hd parts) then False
      else (case match_mids (butlast (tl parts)) (drop (length (hd parts)) s) of
              None \<Rightarrow> False
            | Some rest \<Rightarrow> has_suffix rest (last parts)))"

fun matchSegments :: "string list \<Rightarrow> string list \<Rightarrow> bool" where
  "matchSegments [] parts = (parts = [])"
| "matchSegments (p # pat) parts =
     (if p = ''**'' then (\<exists>skip \<in> {0..length parts}. matchSegments pat (drop skip parts))
      else (case parts of [] \<Rightarrow> False | x # xs \<Rightarrow> matchSegment p x \<and> matchSegments pat xs))"

definition matchPattern :: "string \<Rightarrow> string \<Rightarrow> bool" where
  "matchPattern pattern path = matchSegments (split_on CHR ''/'' pattern) (split_on CHR ''/'' path)"

definition nominalRepoOf :: "string \<Rightarrow> string \<Rightarrow> ref_error + string" where
  "nominalRepoOf cookbook name = Path (cookbook @ ''/'' @ name)"

subsection \<open>Decisions\<close>

record Decision =
  dc_AllowUnsigned :: bool
  dc_Scope :: string
  dc_Keys :: "Keys option"

definition merge :: "TrustPolicy \<Rightarrow> string list \<Rightarrow> Keys" where
  "merge p names = Union_keys (map Some (List.map_filter (map_of (tp_roots p)) names))"

fun scope_for :: "TrustScope list \<Rightarrow> string \<Rightarrow> TrustScope option" where
  "scope_for [] repo = None"
| "scope_for (s # ss) repo =
     (if list_ex (\<lambda>pattern. matchPattern pattern repo) (ts_Repositories s) then Some s
      else scope_for ss repo)"

definition Decide :: "TrustPolicy \<Rightarrow> string \<Rightarrow> Decision" where
  "Decide p nominalRepo =
     (case scope_for (tp_scopes p) nominalRepo of
        Some s \<Rightarrow> \<lparr>dc_AllowUnsigned = ts_AllowUnsigned s, dc_Scope = ts_Name s,
                    dc_Keys = (if ts_Roots s \<noteq> [] then Some (merge p (ts_Roots s)) else tp_all p)\<rparr>
      | None \<Rightarrow> \<lparr>dc_AllowUnsigned = False, dc_Scope = [], dc_Keys = tp_all p\<rparr>)"

definition HasRoots :: "TrustPolicy \<Rightarrow> bool" where
  "HasRoots p = (tp_all p \<noteq> None)"

text \<open>\<^verbatim>\<open>MediaTrust.Decide\<close>: the adapter handed to the media package; a nil policy decides
  nothing.\<close>

definition MediaTrust_Decide :: "TrustPolicy option \<Rightarrow> string \<Rightarrow> Decision" where
  "MediaTrust_Decide m nominalRepo =
     (case m of
        None \<Rightarrow> \<lparr>dc_AllowUnsigned = False, dc_Scope = [], dc_Keys = None\<rparr>
      | Some p \<Rightarrow> Decide p nominalRepo)"

definition RelaxedScopes :: "TrustPolicy \<Rightarrow> string list" where
  "RelaxedScopes p = map ts_Name (filter ts_AllowUnsigned (tp_scopes p))"

subsection \<open>Admission\<close>

datatype admit_error = SignatureError verify_error | NoRootConfigured string

text \<open>\<open>(verified, scope, err)\<close>, as the Go function returns them.\<close>

definition verifyRecipe ::
  "codec \<Rightarrow> manifests \<Rightarrow> string \<Rightarrow> string \<Rightarrow> string \<Rightarrow> Decision \<Rightarrow> bool \<times> string \<times> admit_error option" where
  "verifyRecipe cd src nominalRepo tag manifestDigest d =
     (case dc_Keys d of
        Some keys \<Rightarrow>
          (case Verify cd src nominalRepo manifestDigest (Some keys) of
             Inr _ \<Rightarrow> (True, dc_Scope d, None)
           | Inl err \<Rightarrow>
               if err = ErrNoSignature \<and> dc_AllowUnsigned d then (False, dc_Scope d, None)
               else (False, dc_Scope d, Some (SignatureError err)))
      | None \<Rightarrow>
          if dc_AllowUnsigned d then (False, dc_Scope d, None)
          else (False, dc_Scope d, Some (NoRootConfigured (nominalRepo @ '':'' @ tag))))"

definition verifyStored ::
  "codec \<Rightarrow> manifests \<Rightarrow> TrustPolicy \<Rightarrow> string \<Rightarrow> string \<Rightarrow> string \<Rightarrow> string \<Rightarrow> admit_error option" where
  "verifyStored cd src p localRepo nominalRepo manifestDigest subject =
     (let d = Decide p nominalRepo in
      case dc_Keys d of
        Some keys \<Rightarrow>
          (case Verify cd src localRepo manifestDigest (Some keys) of
             Inr _ \<Rightarrow> None
           | Inl err \<Rightarrow> if err = ErrNoSignature \<and> dc_AllowUnsigned d then None else Some (SignatureError err))
      | None \<Rightarrow> if dc_AllowUnsigned d then None else Some (NoRootConfigured subject))"

definition verifySignedStored ::
  "codec \<Rightarrow> manifests \<Rightarrow> TrustPolicy \<Rightarrow> string \<Rightarrow> string \<Rightarrow> string \<Rightarrow> verify_error option" where
  "verifySignedStored cd src p localRepo nominalRepo manifestDigest =
     (let d = Decide p nominalRepo in
      case dc_Keys d of
        None \<Rightarrow> None
      | Some keys \<Rightarrow>
          (case Verify cd src localRepo manifestDigest (Some keys) of
             Inr _ \<Rightarrow> None
           | Inl err \<Rightarrow> if err = ErrNoSignature then None else Some err))"

text \<open>An example configuration: one inline root, one relaxed scope; a toy key format in which
  every text is one block.\<close>

definition demo_keycodec :: keycodec where
  "demo_keycodec = \<lparr>kc_pemDecode = \<lambda>r. if r = [] then None else Some ((''PUBLIC KEY'', r), []),
     kc_parsePKIX = \<lambda>der. Some (Ed25519Pub der), kc_marshalPKIX = \<lambda>_. Some [],
     kc_sum256 = \<lambda>_. [], kc_sum384 = \<lambda>_. [],
     kc_ecdsaVerify = \<lambda>_ _ _ _. False, kc_ed25519Verify = \<lambda>pk p sig. sig = pk, kc_rsaVerify = \<lambda>_ _ _. False\<rparr>"

definition demo_world :: "http_answer \<Rightarrow> trust_world" where
  "demo_world a = \<lparr>tw_http = \<lambda>_. a, tw_writable = \<lambda>_. True, tw_keys = demo_keycodec\<rparr>"

definition demo_config :: trust_config where
  "demo_config = \<lparr>
     tc_Roots = [\<lparr>tr_Name = ''acme'', tr_Key = ''K'', tr_KeyFile = [], tr_KeyURL = []\<rparr>],
     tc_Scopes = [\<lparr>ts_Name = ''lab'', ts_Repositories = [''h.io/lab/*''], ts_AllowUnsigned = True, ts_Roots = []\<rparr>]\<rparr>"

definition demo_url_root :: TrustRoot where
  "demo_url_root = \<lparr>tr_Name = ''acme'', tr_Key = [], tr_KeyFile = [], tr_KeyURL = ''https://k''\<rparr>"

definition demo_root_key :: trustedKey where
  "demo_root_key = \<lparr>tk_fingerprint = ''sha256:'', tk_verify = \<lambda>p sig. sig = ''K''\<rparr>"

definition demo_bare_src :: manifests where
  "demo_bare_src = \<lparr>ms_Manifest = \<lambda>_ _. Inl NotFound, ms_Blob = \<lambda>_ _. Inl NotFound, ms_Referrers = None\<rparr>"

subsection \<open>The contract of a trust policy\<close>

text \<open>
  What \<^verbatim>\<open>media.Trust\<close> and the engine rely on: an unsigned recipe is allowed only under the
  name of a declared relaxed scope, and every key handed out is a configured one.
\<close>

locale trust_decider =
  fixes decide :: "string \<Rightarrow> Decision"
    and relaxed :: "string \<Rightarrow> string \<Rightarrow> bool"
    and configured :: "trustedKey \<Rightarrow> bool"
  assumes allow_declared: "dc_AllowUnsigned (decide repo) \<Longrightarrow> relaxed (dc_Scope (decide repo)) repo"
    and keys_configured: "dc_Keys (decide repo) = Some keys \<Longrightarrow> k \<in> set keys \<Longrightarrow> configured k"
begin

text \<open>Whatever passes is signed by a configured key, or waived by a declared scope for want of
  any signature.\<close>

lemma admitted:
  assumes "verifyRecipe cd src repo tag dgst (decide nominal) = (verified, scope, None)"
  shows "(verified \<longrightarrow> (\<exists>k. configured k \<and> signed_by cd src repo dgst k))
    \<and> (\<not> verified \<longrightarrow> relaxed scope nominal \<and>
         (case dc_Keys (decide nominal) of None \<Rightarrow> True
          | Some keys \<Rightarrow> Verify cd src repo dgst (Some keys) = Inl ErrNoSignature))"
proof (cases "dc_Keys (decide nominal)")
  case None
  with assms allow_declared show ?thesis by (auto simp: verifyRecipe_def split: if_splits)
next
  case (Some keys)
  show ?thesis
  proof (cases "Verify cd src repo dgst (Some keys)")
    case (Inl e)
    with Some assms allow_declared show ?thesis by (auto simp: verifyRecipe_def split: if_splits)
  next
    case (Inr fp)
    with Verify_signed obtain k where "k \<in> set keys" "signed_by cd src repo dgst k" by blast
    with Some Inr assms keys_configured show ?thesis by (auto simp: verifyRecipe_def)
  qed
qed

end

text \<open>The relaxed scopes of a policy that cover a repository, and its configured keys.\<close>

definition relaxed_scope :: "TrustPolicy \<Rightarrow> string \<Rightarrow> string \<Rightarrow> bool" where
  "relaxed_scope p name repo \<longleftrightarrow>
     (\<exists>s \<in> set (tp_scopes p). ts_Name s = name \<and> ts_AllowUnsigned s
        \<and> (\<exists>pat \<in> set (ts_Repositories s). path_match (split_on CHR ''/'' pat) (split_on CHR ''/'' repo)))"

definition policy_key :: "TrustPolicy \<Rightarrow> trustedKey \<Rightarrow> bool" where
  "policy_key p k \<longleftrightarrow> (\<exists>ks. tp_all p = Some ks \<and> k \<in> set ks) \<or> (\<exists>n ks. (n, ks) \<in> set (tp_roots p) \<and> k \<in> set ks)"

lemma matchSegment_glob: "matchSegment pat s = glob pat s"
  unfolding matchSegment_def by (rule greedy_glob)

interpretation scope_match: segment_matcher matchSegment matchSegments
  by unfold_locales (simp_all add: matchSegment_glob)

lemma matchPattern_iff:
  "matchPattern pat repo \<longleftrightarrow> path_match (split_on CHR ''/'' pat) (split_on CHR ''/'' repo)"
  by (simp add: matchPattern_def scope_match.segs_path_match)

lemma matchPattern_literal: "CHR ''*'' \<notin> set pat \<Longrightarrow> matchPattern pat repo \<longleftrightarrow> repo = pat"
  by (auto simp: matchPattern_def scope_match.segs_literal [OF split_on_star_free] split_on_inj)

lemma scope_for_Some:
  "scope_for ss repo = Some s \<longleftrightarrow>
     (\<exists>us vs. ss = us @ s # vs \<and> list_ex (\<lambda>pat. matchPattern pat repo) (ts_Repositories s)
        \<and> list_all (\<lambda>u. \<not> list_ex (\<lambda>pat. matchPattern pat repo) (ts_Repositories u)) us)"
proof (induction ss)
  case (Cons x xs)
  show ?case
  proof (cases "list_ex (\<lambda>pat. matchPattern pat repo) (ts_Repositories x)")
    case True
    then show ?thesis by (auto simp: Cons_eq_append_conv)
  next
    case False
    let ?cov = "\<lambda>u. list_ex (\<lambda>pat. matchPattern pat repo) (ts_Repositories u)"
    have "(\<exists>us vs. x # xs = us @ s # vs \<and> ?cov s \<and> list_all (\<lambda>u. \<not> ?cov u) us) \<longleftrightarrow>
        (\<exists>us vs. xs = us @ s # vs \<and> ?cov s \<and> list_all (\<lambda>u. \<not> ?cov u) us)" (is "?l \<longleftrightarrow> ?r")
    proof
      assume ?l
      then obtain us vs where l: "x # xs = us @ s # vs" "?cov s" "list_all (\<lambda>u. \<not> ?cov u) us" by blast
      with False obtain us' where "us = x # us'" by (cases us) auto
      with l show ?r by auto
    next
      assume ?r
      then obtain us vs where r: "xs = us @ s # vs" "?cov s" "list_all (\<lambda>u. \<not> ?cov u) us" by blast
      with False show ?l by (intro exI [of _ "x # us"] exI [of _ vs]) simp
    qed
    with Cons False show ?thesis by simp
  qed
qed simp

lemma scope_for_None:
  "scope_for ss repo = None \<longleftrightarrow>
     (\<forall>s \<in> set ss. \<forall>pat \<in> set (ts_Repositories s). \<not> matchPattern pat repo)"
  by (induction ss) (auto simp: list_ex_iff)

lemma merge_members: "k \<in> set (merge p names) \<Longrightarrow> \<exists>n ks. (n, ks) \<in> set (tp_roots p) \<and> k \<in> set ks"
  using Union_keys_members unfolding merge_def
  by (fastforce simp: List.map_filter_def split: option.splits dest: map_of_SomeD)

interpretation policy_trust: trust_decider "Decide p" "relaxed_scope p" "policy_key p" for p
proof
  fix repo
  show "relaxed_scope p (dc_Scope (Decide p repo)) repo" if "dc_AllowUnsigned (Decide p repo)"
  proof -
    from that obtain s where s: "scope_for (tp_scopes p) repo = Some s" "ts_AllowUnsigned s"
      by (auto simp: Decide_def split: option.splits)
    then have "s \<in> set (tp_scopes p)" "\<exists>pat \<in> set (ts_Repositories s). matchPattern pat repo"
      by (auto simp: scope_for_Some list_ex_iff)
    with s show ?thesis by (auto simp: relaxed_scope_def Decide_def matchPattern_iff)
  qed
  show "policy_key p k" if "dc_Keys (Decide p repo) = Some keys" "k \<in> set keys" for keys k
    using that merge_members by (auto simp: Decide_def policy_key_def split: option.splits if_splits)
qed

interpretation media_trust: trust_decider "MediaTrust_Decide m"
    "\<lambda>name repo. \<exists>p. m = Some p \<and> relaxed_scope p name repo" "\<lambda>k. \<exists>p. m = Some p \<and> policy_key p k" for m
  using policy_trust.allow_declared policy_trust.keys_configured
  by unfold_locales (auto simp: MediaTrust_Decide_def split: option.splits)

subsection \<open>Loading\<close>

lemma load_roots_keys:
  "load_roots w dir rs fs = (Inr (roots, pems), fs') \<Longrightarrow>
     length pems = length rs \<and> fst ` set roots = tr_Name ` set rs
     \<and> (\<forall>(n, ks) \<in> set roots. \<exists>pem \<in> set pems. ParsePublicKeys (tw_keys w) [pem] = Inr ks)"
proof (induction rs arbitrary: roots pems fs)
  case (Cons r rs)
  from Cons.prems obtain pem fs1 keys roots1 pems1 where
    l: "root_pem w dir r fs = (Inr pem, fs1)" "ParsePublicKeys (tw_keys w) [pem] = Inr keys"
      "load_roots w dir rs fs1 = (Inr (roots1, pems1), fs')" "roots = roots1 @ [(tr_Name r, keys)]"
      "pems = pem # pems1"
    by (auto split: prod.splits sum.splits)
  from Cons.IH [OF l(3)] l show ?case by auto
qed simp

lemma parseInputs_append:
  "parseInputs kc i pems = Inr ks \<Longrightarrow> pem \<in> set pems \<Longrightarrow>
     \<exists>j ks1. parseBlocks kc (Suc (length pem)) j pem = Inr ks1 \<and> ks1 \<noteq> [] \<and> set ks1 \<subseteq> set ks"
proof (induction pems arbitrary: i ks)
  case (Cons p pems)
  from Cons.prems(1) obtain k1 k2 where k: "parseBlocks kc (Suc (length p)) i p = Inr k1" "k1 \<noteq> []"
    "parseInputs kc (Suc i) pems = Inr k2" "ks = k1 @ k2"
    by (auto simp: bind_r_Inr_iff simp del: parseBlocks.simps split: if_splits)
  show ?case
  proof (cases "pem = p")
    case True
    with k show ?thesis by (metis Un_upper1 set_append)
  next
    case False
    with Cons.prems(2) Cons.IH [OF k(3)] k(4) show ?thesis by fastforce
  qed
qed simp

lemma parseBlocks_index:
  "parseBlocks kc fuel i rest = Inr ks \<longleftrightarrow> parseBlocks kc fuel j rest = Inr ks"
  by (induction fuel arbitrary: rest ks)
     (auto split: option.splits prod.splits if_splits sum.splits simp: bind_r_Inr_iff)

lemma ParsePublicKeys_single:
  "ParsePublicKeys kc [pem] = Inr ks \<longleftrightarrow> parseBlocks kc (Suc (length pem)) 0 pem = Inr ks \<and> ks \<noteq> []"
  by (auto simp: ParsePublicKeys_def bind_r_Inr_iff simp del: parseBlocks.simps split: if_splits)

lemma LoadTrust_keys:
  assumes "LoadTrust w cfg dir fs = (Inr p, fs')" and "policy_key p k"
  shows "\<exists>all. tp_all p = Some all \<and> k \<in> set all"
proof -
  from assms(1) obtain roots pems where l: "load_roots w dir (tc_Roots cfg) fs = (Inr (roots, pems), fs')"
    and p: "tp_roots p = roots" "pems = [] \<Longrightarrow> tp_all p = None"
      "pems \<noteq> [] \<Longrightarrow> \<exists>all. ParsePublicKeys (tw_keys w) pems = Inr all \<and> tp_all p = Some all"
    by (auto simp: LoadTrust_def split: prod.splits sum.splits if_splits)
  note lr = load_roots_keys [OF l]
  have "\<exists>all. tp_all p = Some all \<and> k \<in> set all" if "(n, ks) \<in> set (tp_roots p)" "k \<in> set ks" for n ks
  proof -
    from lr that(1) p(1) obtain pem where pem: "pem \<in> set pems" "ParsePublicKeys (tw_keys w) [pem] = Inr ks"
      by blast
    then obtain all where all: "ParsePublicKeys (tw_keys w) pems = Inr all" "tp_all p = Some all"
      using p(3) by fastforce
    then obtain j ks1 where "parseBlocks (tw_keys w) (Suc (length pem)) j pem = Inr ks1" "set ks1 \<subseteq> set all"
      using parseInputs_append [OF _ pem(1)] by (fastforce simp: ParsePublicKeys_def bind_r_Inr_iff split: if_splits)
    moreover from pem(2) have "parseBlocks (tw_keys w) (Suc (length pem)) 0 pem = Inr ks"
      by (simp only: ParsePublicKeys_single)
    ultimately have "ks1 = ks" using parseBlocks_index by (metis sum.inject(2))
    with \<open>set ks1 \<subseteq> set all\<close> that(2) all(2) show ?thesis by blast
  qed
  with assms(2) show ?thesis by (auto simp: policy_key_def)
qed

lemma LoadTrust_scopes: "LoadTrust w cfg dir fs = (Inr p, fs') \<Longrightarrow> tp_scopes p = tc_Scopes cfg"
  by (auto simp: LoadTrust_def split: prod.splits sum.splits if_splits)

lemma validate_scopes_named: "validate_scopes i rn ns ss = [] \<Longrightarrow> s \<in> set ss \<Longrightarrow> ts_Name s \<noteq> []"
  by (induction ss arbitrary: i ns) (auto split: if_splits)

lemma validateTrust_named: "validateTrust c = [] \<Longrightarrow> s \<in> set (tc_Scopes c) \<Longrightarrow> ts_Name s \<noteq> []"
  by (auto simp: validateTrust_def split: prod.splits dest: validate_scopes_named)

lemma clean_segs_noempty: "[] \<notin> set stack \<Longrightarrow> [] \<notin> set (clean_segs rooted stack xs)"
  by (induction rooted stack xs rule: clean_segs.induct) (auto split: list.splits)

lemma filepath_clean_nonempty: "filepath_clean p \<noteq> []"
  by (simp add: filepath_clean_def Let_def)

lemma cache_path_nonempty: "filepath_join dir (name @ ''.pub'') \<noteq> []"
  using filepath_clean_nonempty by (auto simp: filepath_join_def)

lemma demo_LoadTrust:
  "LoadTrust (demo_world a) demo_config [] fs =
     (Inr \<lparr>tp_roots = [(''acme'', [demo_root_key])], tp_all = Some [demo_root_key],
           tp_scopes = tc_Scopes demo_config\<rparr>, fs)"
  by (simp add: LoadTrust_def demo_config_def root_pem_def ParsePublicKeys_def demo_world_def demo_keycodec_def
      newTrustedKey_def demo_root_key_def hex_encode_def Let_def)

subsection \<open>Main results\<close>

text \<open>C4: Admission end to end. Under a validated configuration, a recipe the engine lets in is
  either verified, and then some configured trust root really signed its digest in its
  repository, or admitted by a scope the configuration declares by a non-empty name, marks
  \<open>allowUnsigned\<close> and whose patterns cover the nominal repository, and then no signature
  exists or no key applies. There is no other way in.\<close>

theorem recipe_admission_sound:
  assumes "validateTrust cfg = []" and "LoadTrust w cfg dir fs = (Inr p, fs')"
    and "verifyRecipe cd src repo tag dgst (Decide p nominal) = (verified, scope, None)"
  shows "if verified then \<exists>all k. tp_all p = Some all \<and> k \<in> set all \<and> signed_by cd src repo dgst k
    else \<exists>s \<in> set (tc_Scopes cfg). ts_Name s = scope \<and> scope \<noteq> [] \<and> ts_AllowUnsigned s
      \<and> (\<exists>pat \<in> set (ts_Repositories s). path_match (split_on CHR ''/'' pat) (split_on CHR ''/'' nominal))
      \<and> (case dc_Keys (Decide p nominal) of None \<Rightarrow> True
         | Some keys \<Rightarrow> Verify cd src repo dgst (Some keys) = Inl ErrNoSignature)"
proof (cases verified)
  case True
  with policy_trust.admitted [OF assms(3)] obtain k where "policy_key p k" "signed_by cd src repo dgst k"
    by blast
  with LoadTrust_keys [OF assms(2), of k] True show ?thesis by auto
next
  case False
  with policy_trust.admitted [OF assms(3)] have r: "relaxed_scope p scope nominal"
    "case dc_Keys (Decide p nominal) of None \<Rightarrow> True
     | Some keys \<Rightarrow> Verify cd src repo dgst (Some keys) = Inl ErrNoSignature" by simp_all
  from r(1) obtain s where s: "s \<in> set (tc_Scopes cfg)" "ts_Name s = scope" "ts_AllowUnsigned s"
    "\<exists>pat \<in> set (ts_Repositories s). path_match (split_on CHR ''/'' pat) (split_on CHR ''/'' nominal)"
    by (auto simp: relaxed_scope_def LoadTrust_scopes [OF assms(2)])
  moreover have "scope \<noteq> []" using validateTrust_named [OF assms(1) s(1)] s(2) by simp
  ultimately show ?thesis using r(2) False by auto
qed

theorem recipe_admission_sound_witness:
  "\<exists>s \<in> set (tc_Scopes demo_config). ts_Name s = ''lab'' \<and> ts_AllowUnsigned s
     \<and> (\<exists>pat \<in> set (ts_Repositories s). path_match (split_on CHR ''/'' pat) [''h.io'', ''lab'', ''x''])"
proof -
  obtain p where p: "LoadTrust (demo_world Unreachable) demo_config [] Map.empty = (Inr p, Map.empty)"
    "tp_scopes p = tc_Scopes demo_config" "tp_roots p = [(''acme'', [demo_root_key])]"
    by (simp add: demo_LoadTrust)
  have ok: "validateTrust demo_config = []" by (simp add: validateTrust_def demo_config_def)
  have "matchPattern ''h.io/lab/*'' ''h.io/lab/x''" by code_simp
  then have d: "Decide p ''h.io/lab/x'' = \<lparr>dc_AllowUnsigned = True, dc_Scope = ''lab'', dc_Keys = tp_all p\<rparr>"
    using p(2) by (simp add: Decide_def demo_config_def)
  have all: "tp_all p = Some [demo_root_key]" using p(1) by (auto simp: demo_LoadTrust)
  have "Verify demo_codec demo_bare_src ''r'' demo_digest (Some [demo_root_key]) = Inl ErrNoSignature"
    by (simp add: Verify_def parse_demo Let_def demo_bare_src_def verifyBundles_def bundleCandidates_def)
  then have "verifyRecipe demo_codec demo_bare_src ''r'' ''1.0'' demo_digest (Decide p ''h.io/lab/x'') = (False, ''lab'', None)"
    using d all by (simp add: verifyRecipe_def)
  from recipe_admission_sound [OF ok p(1) this] show ?thesis by auto
qed

text \<open>Re-verification before a promotion applies exactly the rule that admitted the recipe:
  over the same content it refuses precisely when the import rule refuses, so there is no
  ``already checked'' shortcut in either direction.\<close>

theorem verifyStored_same_rule:
  "verifyStored cd src p localRepo nominal dgst subject = None \<longleftrightarrow>
     snd (snd (verifyRecipe cd src localRepo tag dgst (Decide p nominal))) = None"
  by (simp add: verifyStored_def verifyRecipe_def Let_def split: option.splits sum.splits)

text \<open>Restricting a scope to named roots never widens trust: every key a decision hands out
  is one of the full configured set.\<close>

theorem Decide_keys_configured:
  assumes "LoadTrust w cfg dir fs = (Inr p, fs')" and "dc_Keys (Decide p repo) = Some keys"
    and "k \<in> set keys"
  shows "\<exists>all. tp_all p = Some all \<and> k \<in> set all"
  using LoadTrust_keys [OF assms(1)] policy_trust.keys_configured [OF assms(2,3)] by blast

theorem Decide_keys_configured_witness:
  "\<exists>p all. LoadTrust (demo_world Unreachable) demo_config [] Map.empty = (Inr p, Map.empty)
     \<and> tp_all p = Some all \<and> demo_root_key \<in> set all"
proof -
  obtain p where p: "LoadTrust (demo_world Unreachable) demo_config [] Map.empty = (Inr p, Map.empty)"
    by (simp add: demo_LoadTrust)
  then have "tp_scopes p = tc_Scopes demo_config" "tp_all p = Some [demo_root_key]" by (auto simp: demo_LoadTrust)
  moreover have "\<not> matchPattern ''h.io/lab/*'' ''h.io/prod/x''" by code_simp
  ultimately have "dc_Keys (Decide p ''h.io/prod/x'') = Some [demo_root_key]"
    by (simp add: Decide_def demo_config_def)
  from Decide_keys_configured [OF p this, of demo_root_key] p show ?thesis by auto
qed

text \<open>The documented ``no state directory, no cache'' mode does not exist: with an empty cache
  directory a downloaded key is still written to \<open>NAME.pub\<close> in the working directory, and when
  the key server is unreachable whatever that file holds is taken as the trust root.\<close>

theorem LoadTrust_empty_cache_dir:
  assumes "tr_Key r = []" and "tr_KeyFile r = []" and "tr_KeyURL r \<noteq> []"
    and "cwd_file = filepath_clean (tr_Name r @ ''.pub'')"
  shows "(tw_http w (tr_KeyURL r) = Unreachable \<and> fs cwd_file = Some planted \<longrightarrow>
            root_pem w [] r fs = (Inr planted, fs))
     \<and> (tw_http w (tr_KeyURL r) = Answer 200 (Some b) \<and> tw_writable w cwd_file \<longrightarrow>
            root_pem w [] r fs = (Inr (take keyLimit b), fs(cwd_file \<mapsto> take keyLimit b)))"
  using assms filepath_clean_nonempty [of "tr_Name r @ ''.pub''"]
  by (simp add: root_pem_def fetchCachedKey_def fetchCachedKeyAt_def filepath_join_def Let_def)

theorem LoadTrust_empty_cache_dir_witness:
  "root_pem (demo_world Unreachable) [] demo_url_root [''acme.pub'' \<mapsto> ''evil''] = (Inr ''evil'', [''acme.pub'' \<mapsto> ''evil''])"
proof -
  have "filepath_clean (tr_Name demo_url_root @ ''.pub'') = ''acme.pub''" by code_simp
  then show ?thesis
    using LoadTrust_empty_cache_dir [of demo_url_root "''acme.pub''" "demo_world Unreachable" "[''acme.pub'' \<mapsto> ''evil'']" "''evil''" "[]"]
    by (simp add: demo_url_root_def demo_world_def)
qed

end
