(* ===== verification/Taxonomy.thy ===== *)
theory Taxonomy
  imports Prelude "HOL-Library.Char_ord" "HOL-Library.List_Lexorder"
begin

text \<open>
  The error taxonomy of \<^verbatim>\<open>internal/taxonomy\<close>: the catalog of stable codes
  (\<^verbatim>\<open>catalog.go\<close>), errors as code and parameters with the principal-error rule
  (\<^verbatim>\<open>taxonomy.go\<close>), and the exit-code table (\<^verbatim>\<open>exit.go\<close>). Parameter values
  are kept in the rendered form \<^verbatim>\<open>%v\<close> gives them. Localized messages belong to a
  third-party bundle and are not modelled.

  Go iterates a map in an unspecified order. \<open>Principal\<close> therefore takes the iteration order
  as an argument, and its theorems hold for every order.
\<close>

type_synonym code = string
type_synonym params = "(string \<times> string) list"

datatype errclass = ClassOperational | ClassPolicy | ClassVerification

record entry =
  en_code :: code
  en_class :: errclass
  en_httpStatus :: int
  en_params :: "string list"

definition mk_entry :: "code \<Rightarrow> errclass \<Rightarrow> int \<Rightarrow> string list \<Rightarrow> entry" where
  "mk_entry c cl h ps = \<lparr>en_code = c, en_class = cl, en_httpStatus = h, en_params = ps\<rparr>"

subsection \<open>Exit codes\<close>

abbreviation (input) ExitOK :: int where "ExitOK \<equiv> 0"
abbreviation (input) ExitFailure :: int where "ExitFailure \<equiv> 1"
abbreviation (input) ExitUsage :: int where "ExitUsage \<equiv> 2"
abbreviation (input) ExitPolicy :: int where "ExitPolicy \<equiv> 3"
abbreviation (input) ExitVerification :: int where "ExitVerification \<equiv> 4"
abbreviation (input) ExitChangesPlanned :: int where "ExitChangesPlanned \<equiv> 5"

fun class_ExitCode :: "errclass \<Rightarrow> int" where
  "class_ExitCode ClassPolicy = ExitPolicy"
| "class_ExitCode ClassVerification = ExitVerification"
| "class_ExitCode ClassOperational = ExitFailure"

fun severity :: "errclass \<Rightarrow> int" where
  "severity ClassOperational = 0"
| "severity ClassPolicy = 1"
| "severity ClassVerification = 2"

definition ExitCodes :: "(int \<times> string) list" where
  "ExitCodes =
     [(ExitOK, ''ok''), (ExitFailure, ''failure''), (ExitUsage, ''usage''),
      (ExitPolicy, ''policy''), (ExitVerification, ''verification''),
      (ExitChangesPlanned, ''changes-planned'')]"

definition Classes :: "errclass list" where
  "Classes = [ClassOperational, ClassPolicy, ClassVerification]"

fun find_exit :: "(int \<times> string) list \<Rightarrow> int \<Rightarrow> string \<times> bool" where
  "find_exit [] code = ([], False)"
| "find_exit ((c, n) # rest) code = (if c = code then (n, True) else find_exit rest code)"

definition ExitCodeName :: "int \<Rightarrow> string \<times> bool" where
  "ExitCodeName code = find_exit ExitCodes code"

text \<open>\<open>itoa\<close> panics outside the single-digit range: \<^term>\<open>None\<close>.\<close>

definition itoa :: "int \<Rightarrow> string option" where
  "itoa n = (if n < 0 \<or> n > 9 then None else Some [char_of (48 + nat n)])"

subsection \<open>The catalog\<close>

abbreviation CodeNoAccount :: code where "CodeNoAccount \<equiv> ''TBY-AUTH-001''"
abbreviation CodeAuthFailed :: code where "CodeAuthFailed \<equiv> ''TBY-AUTH-002''"
abbreviation CodeRoleDenied :: code where "CodeRoleDenied \<equiv> ''TBY-AUTH-003''"
abbreviation CodeCSRF :: code where "CodeCSRF \<equiv> ''TBY-AUTH-004''"
abbreviation CodeSessionExpired :: code where "CodeSessionExpired \<equiv> ''TBY-AUTH-005''"
abbreviation CodePasswordCurrent :: code where "CodePasswordCurrent \<equiv> ''TBY-AUTH-006''"
abbreviation CodePasswordInvalid :: code where "CodePasswordInvalid \<equiv> ''TBY-AUTH-007''"
abbreviation CodeAccountInvalid :: code where "CodeAccountInvalid \<equiv> ''TBY-AUTH-008''"
abbreviation CodeAccountExists :: code where "CodeAccountExists \<equiv> ''TBY-AUTH-009''"
abbreviation CodeAccountUnknown :: code where "CodeAccountUnknown \<equiv> ''TBY-AUTH-010''"
abbreviation CodeLastAdmin :: code where "CodeLastAdmin \<equiv> ''TBY-AUTH-011''"
abbreviation CodeAuthRateLimited :: code where "CodeAuthRateLimited \<equiv> ''TBY-AUTH-012''"
abbreviation CodeConfigInvalid :: code where "CodeConfigInvalid \<equiv> ''TBY-CFG-001''"
abbreviation CodeSecretInStore :: code where "CodeSecretInStore \<equiv> ''TBY-CFG-002''"
abbreviation CodeProxyInvalid :: code where "CodeProxyInvalid \<equiv> ''TBY-NET-001''"
abbreviation CodeTrustStore :: code where "CodeTrustStore \<equiv> ''TBY-NET-002''"
abbreviation CodeServerTLS :: code where "CodeServerTLS \<equiv> ''TBY-NET-003''"
abbreviation CodeServerCertReplace :: code where "CodeServerCertReplace \<equiv> ''TBY-NET-004''"
abbreviation CodeValidation :: code where "CodeValidation \<equiv> ''TBY-VAL-001''"
abbreviation CodeBadReference :: code where "CodeBadReference \<equiv> ''TBY-REG-001''"
abbreviation CodeRegistryUnreachable :: code where "CodeRegistryUnreachable \<equiv> ''TBY-REG-002''"
abbreviation CodeRegistryAuth :: code where "CodeRegistryAuth \<equiv> ''TBY-REG-003''"
abbreviation CodeInspectTimeout :: code where "CodeInspectTimeout \<equiv> ''TBY-REG-004''"
abbreviation CodeRefNotFound :: code where "CodeRefNotFound \<equiv> ''TBY-REG-005''"
abbreviation CodeVersionResolve :: code where "CodeVersionResolve \<equiv> ''TBY-REG-006''"
abbreviation CodeRangeUnusable :: code where "CodeRangeUnusable \<equiv> ''TBY-REG-007''"
abbreviation CodePlatformMissing :: code where "CodePlatformMissing \<equiv> ''TBY-REG-008''"
abbreviation CodeNotAllowlisted :: code where "CodeNotAllowlisted \<equiv> ''TBY-POL-001''"
abbreviation CodeRecipeManaged :: code where "CodeRecipeManaged \<equiv> ''TBY-POL-002''"
abbreviation CodeSeedContent :: code where "CodeSeedContent \<equiv> ''TBY-POL-003''"
abbreviation CodeTagImmutable :: code where "CodeTagImmutable \<equiv> ''TBY-POL-004''"
abbreviation CodeSignature :: code where "CodeSignature \<equiv> ''TBY-SIG-001''"
abbreviation CodeDigestMismatch :: code where "CodeDigestMismatch \<equiv> ''TBY-SIG-002''"
abbreviation CodeArtifactType :: code where "CodeArtifactType \<equiv> ''TBY-SIG-003''"
abbreviation CodeDestinationLimit :: code where "CodeDestinationLimit \<equiv> ''TBY-DST-001''"
abbreviation CodePackInput :: code where "CodePackInput \<equiv> ''TBY-FIL-001''"
abbreviation CodePackUnsafe :: code where "CodePackUnsafe \<equiv> ''TBY-FIL-002''"
abbreviation CodePackNotAllowed :: code where "CodePackNotAllowed \<equiv> ''TBY-FIL-003''"
abbreviation CodeChartDependency :: code where "CodeChartDependency \<equiv> ''TBY-CHT-001''"
abbreviation CodeStoreRead :: code where "CodeStoreRead \<equiv> ''TBY-STO-001''"
abbreviation CodeStoreWrite :: code where "CodeStoreWrite \<equiv> ''TBY-STO-002''"
abbreviation CodeResumeSpool :: code where "CodeResumeSpool \<equiv> ''TBY-STO-003''"
abbreviation CodeInsufficientSpace :: code where "CodeInsufficientSpace \<equiv> ''TBY-STO-004''"
abbreviation CodeFileTooLarge :: code where "CodeFileTooLarge \<equiv> ''TBY-STO-005''"
abbreviation CodeMediaManifestMissing :: code where "CodeMediaManifestMissing \<equiv> ''TBY-MED-001''"
abbreviation CodeMediaManifestUnreadable :: code where "CodeMediaManifestUnreadable \<equiv> ''TBY-MED-002''"
abbreviation CodeMediaFormatUnsupported :: code where "CodeMediaFormatUnsupported \<equiv> ''TBY-MED-003''"
abbreviation CodeMediaStoreFormat :: code where "CodeMediaStoreFormat \<equiv> ''TBY-MED-004''"
abbreviation CodeMediaGraphAltered :: code where "CodeMediaGraphAltered \<equiv> ''TBY-MED-005''"
abbreviation CodeMediaZoneMismatch :: code where "CodeMediaZoneMismatch \<equiv> ''TBY-MED-006''"
abbreviation CodeMediaStale :: code where "CodeMediaStale \<equiv> ''TBY-MED-007''"
abbreviation CodeMediaFileMissing :: code where "CodeMediaFileMissing \<equiv> ''TBY-MED-010''"
abbreviation CodeMediaFileSize :: code where "CodeMediaFileSize \<equiv> ''TBY-MED-011''"
abbreviation CodeMediaFileDigest :: code where "CodeMediaFileDigest \<equiv> ''TBY-MED-012''"
abbreviation CodeMediaFileUninventoried :: code where "CodeMediaFileUninventoried \<equiv> ''TBY-MED-013''"
abbreviation CodeMediaContentUnreadable :: code where "CodeMediaContentUnreadable \<equiv> ''TBY-MED-014''"
abbreviation CodeMediaContentAddress :: code where "CodeMediaContentAddress \<equiv> ''TBY-MED-015''"
abbreviation CodeMediaUncovered :: code where "CodeMediaUncovered \<equiv> ''TBY-MED-020''"
abbreviation CodeMediaUnreachable :: code where "CodeMediaUnreachable \<equiv> ''TBY-MED-021''"
abbreviation CodeMediaMetadataAltered :: code where "CodeMediaMetadataAltered \<equiv> ''TBY-MED-022''"
abbreviation CodeMediaUnverified :: code where "CodeMediaUnverified \<equiv> ''TBY-MED-030''"
abbreviation CodeMediaVerificationRunning :: code where "CodeMediaVerificationRunning \<equiv> ''TBY-MED-031''"
abbreviation CodeMediaNotCleared :: code where "CodeMediaNotCleared \<equiv> ''TBY-MED-032''"
abbreviation CodeResetConfirmation :: code where "CodeResetConfirmation \<equiv> ''TBY-STO-006''"
abbreviation CodeLayoutInvalid :: code where "CodeLayoutInvalid \<equiv> ''TBY-LAY-001''"
abbreviation CodeLayoutUnsafe :: code where "CodeLayoutUnsafe \<equiv> ''TBY-LAY-002''"
abbreviation CodeLayoutTarget :: code where "CodeLayoutTarget \<equiv> ''TBY-LAY-003''"
abbreviation CodeTaskNotFound :: code where "CodeTaskNotFound \<equiv> ''TBY-TSK-001''"
abbreviation CodeInternal :: code where "CodeInternal \<equiv> ''TBY-SRV-001''"
abbreviation CodeNotFound :: code where "CodeNotFound \<equiv> ''TBY-SRV-002''"
abbreviation CodeUnreachable :: code where "CodeUnreachable \<equiv> ''TBY-SRV-003''"

definition catalog :: "(code \<times> entry) list" where
  "catalog =
     [(CodeNoAccount, mk_entry CodeNoAccount ClassPolicy 0 []),
      (CodeAuthFailed, mk_entry CodeAuthFailed ClassOperational 401 []),
      (CodeRoleDenied, mk_entry CodeRoleDenied ClassPolicy 403 [''role'']),
      (CodeCSRF, mk_entry CodeCSRF ClassOperational 403 []),
      (CodeSessionExpired, mk_entry CodeSessionExpired ClassOperational 401 []),
      (CodePasswordCurrent, mk_entry CodePasswordCurrent ClassOperational 422 []),
      (CodePasswordInvalid, mk_entry CodePasswordInvalid ClassOperational 422 []),
      (CodeAccountInvalid, mk_entry CodeAccountInvalid ClassOperational 422 []),
      (CodeAccountExists, mk_entry CodeAccountExists ClassOperational 409 [''name'']),
      (CodeAccountUnknown, mk_entry CodeAccountUnknown ClassOperational 404 [''name'']),
      (CodeLastAdmin, mk_entry CodeLastAdmin ClassPolicy 409 [''name'']),
      (CodeAuthRateLimited, mk_entry CodeAuthRateLimited ClassOperational 429 []),
      (CodeConfigInvalid, mk_entry CodeConfigInvalid ClassOperational 0 [''detail'']),
      (CodeSecretInStore, mk_entry CodeSecretInStore ClassPolicy 0 [''paths'', ''root'']),
      (CodeProxyInvalid, mk_entry CodeProxyInvalid ClassOperational 0 [''setting'', ''proxy'']),
      (CodeTrustStore, mk_entry CodeTrustStore ClassOperational 0 [''source'']),
      (CodeServerTLS, mk_entry CodeServerTLS ClassOperational 0 [''source'']),
      (CodeServerCertReplace, mk_entry CodeServerCertReplace ClassOperational 422 [''detail'']),
      (CodeValidation, mk_entry CodeValidation ClassOperational 422 [''file'', ''path'', ''constraint'']),
      (CodeBadReference, mk_entry CodeBadReference ClassOperational 400 [''reference'']),
      (CodeRegistryUnreachable, mk_entry CodeRegistryUnreachable ClassOperational 502 [''host'']),
      (CodeRegistryAuth, mk_entry CodeRegistryAuth ClassOperational 502 [''host'']),
      (CodeInspectTimeout, mk_entry CodeInspectTimeout ClassOperational 504 [''host'', ''timeout'']),
      (CodeRefNotFound, mk_entry CodeRefNotFound ClassOperational 502 [''reference'']),
      (CodeNotAllowlisted, mk_entry CodeNotAllowlisted ClassPolicy 403 [''host'']),
      (CodeRecipeManaged, mk_entry CodeRecipeManaged ClassPolicy 403 [''repository'', ''recipes'']),
      (CodeSeedContent, mk_entry CodeSeedContent ClassPolicy 403 [''repository'']),
      (CodeTagImmutable, mk_entry CodeTagImmutable ClassPolicy 409 [''reference'', ''published'', ''candidate'']),
      (CodeRangeUnusable, mk_entry CodeRangeUnusable ClassOperational 502 [''reference'', ''detail'']),
      (CodeVersionResolve, mk_entry CodeVersionResolve ClassOperational 422 [''reference'', ''constraint'', ''detail'']),
      (CodePlatformMissing, mk_entry CodePlatformMissing ClassOperational 422 [''reference'', ''platforms'', ''available'']),
      (CodeSignature, mk_entry CodeSignature ClassVerification 422 [''recipe'', ''fingerprints'']),
      (CodeDigestMismatch, mk_entry CodeDigestMismatch ClassVerification 422 [''reference'', ''expected'', ''actual'']),
      (CodeArtifactType, mk_entry CodeArtifactType ClassVerification 422 [''reference'', ''expected'', ''actual'']),
      (CodeDestinationLimit, mk_entry CodeDestinationLimit ClassOperational 422 [''reference'', ''limit'']),
      (CodeChartDependency, mk_entry CodeChartDependency ClassVerification 422 [''chart'', ''dependency'']),
      (CodePackInput, mk_entry CodePackInput ClassOperational 422 [''detail'']),
      (CodePackUnsafe, mk_entry CodePackUnsafe ClassPolicy 422 [''detail'']),
      (CodePackNotAllowed, mk_entry CodePackNotAllowed ClassPolicy 403 [''path'']),
      (CodeStoreRead, mk_entry CodeStoreRead ClassOperational 500 [''detail'']),
      (CodeStoreWrite, mk_entry CodeStoreWrite ClassOperational 500 [''detail'']),
      (CodeResumeSpool, mk_entry CodeResumeSpool ClassOperational 500 [''path'', ''detail'']),
      (CodeInsufficientSpace, mk_entry CodeInsufficientSpace ClassOperational 507 [''path'', ''needed'', ''available'', ''shortfall'', ''margin'', ''free'']),
      (CodeFileTooLarge, mk_entry CodeFileTooLarge ClassOperational 507 [''path'', ''filesystem'', ''limit'', ''size'', ''what'']),
      (CodeMediaManifestMissing, mk_entry CodeMediaManifestMissing ClassVerification 422 [''path'']),
      (CodeMediaManifestUnreadable, mk_entry CodeMediaManifestUnreadable ClassVerification 422 [''path'', ''detail'']),
      (CodeMediaFormatUnsupported, mk_entry CodeMediaFormatUnsupported ClassVerification 422 [''found'', ''supported'']),
      (CodeMediaStoreFormat, mk_entry CodeMediaStoreFormat ClassVerification 422 [''found'', ''supported'']),
      (CodeMediaGraphAltered, mk_entry CodeMediaGraphAltered ClassVerification 422 [''path'', ''expected'', ''actual'']),
      (CodeMediaZoneMismatch, mk_entry CodeMediaZoneMismatch ClassPolicy 409 [''expected'', ''found'']),
      (CodeMediaStale, mk_entry CodeMediaStale ClassPolicy 409 [''zone'', ''resolved'', ''recorded'', ''media'']),
      (CodeMediaFileMissing, mk_entry CodeMediaFileMissing ClassVerification 422 [''path'', ''recipe'']),
      (CodeMediaFileSize, mk_entry CodeMediaFileSize ClassVerification 422 [''path'', ''expected'', ''actual'']),
      (CodeMediaFileDigest, mk_entry CodeMediaFileDigest ClassVerification 422 [''path'', ''expected'', ''actual'']),
      (CodeMediaFileUninventoried, mk_entry CodeMediaFileUninventoried ClassVerification 422 [''path'', ''recipe'']),
      (CodeMediaContentUnreadable, mk_entry CodeMediaContentUnreadable ClassVerification 422 [''path'', ''detail'']),
      (CodeMediaContentAddress, mk_entry CodeMediaContentAddress ClassVerification 422 [''path'', ''expected'', ''actual'']),
      (CodeMediaUncovered, mk_entry CodeMediaUncovered ClassOperational 0 [''path'']),
      (CodeMediaUnreachable, mk_entry CodeMediaUnreachable ClassOperational 0 [''path'']),
      (CodeMediaMetadataAltered, mk_entry CodeMediaMetadataAltered ClassOperational 0 [''path'']),
      (CodeMediaUnverified, mk_entry CodeMediaUnverified ClassPolicy 403 [''surface'', ''media'', ''screen'']),
      (CodeMediaVerificationRunning, mk_entry CodeMediaVerificationRunning ClassOperational 409 [''stage'']),
      (CodeMediaNotCleared, mk_entry CodeMediaNotCleared ClassPolicy 403 [''surface'', ''media'', ''verdict'', ''screen'']),
      (CodeResetConfirmation, mk_entry CodeResetConfirmation ClassOperational 422 [''phrase'']),
      (CodeLayoutInvalid, mk_entry CodeLayoutInvalid ClassOperational 422 [''path'', ''detail'']),
      (CodeLayoutUnsafe, mk_entry CodeLayoutUnsafe ClassVerification 422 [''path'', ''entry'', ''reason'']),
      (CodeLayoutTarget, mk_entry CodeLayoutTarget ClassOperational 409 [''path'']),
      (CodeTaskNotFound, mk_entry CodeTaskNotFound ClassOperational 404 [''id'']),
      (CodeInternal, mk_entry CodeInternal ClassOperational 500 []),
      (CodeNotFound, mk_entry CodeNotFound ClassOperational 404 []),
      (CodeUnreachable, mk_entry CodeUnreachable ClassOperational 0 [])]"

definition Lookup :: "code \<Rightarrow> entry option" where
  "Lookup c = map_of catalog c"

definition All_entries :: "entry list" where
  "All_entries = sort_key en_code (map snd catalog)"

text \<open>The zero \<open>Entry\<close> a missing map key reads as has class \<^const>\<open>ClassOperational\<close>.\<close>

definition class_of :: "code \<Rightarrow> errclass" where
  "class_of c = (case Lookup c of Some e \<Rightarrow> en_class e | None \<Rightarrow> ClassOperational)"

subsection \<open>Errors\<close>

record tax_error =
  te_code :: code
  te_params :: params
  te_correlation :: string
  te_cause :: "string option"

text \<open>\<open>New\<close> panics on an unknown code: \<^term>\<open>None\<close>.\<close>

definition New :: "code \<Rightarrow> params \<Rightarrow> tax_error option" where
  "New c ps = (if Lookup c = None then None
     else Some \<lparr>te_code = c, te_params = ps, te_correlation = [], te_cause = None\<rparr>)"

definition WithCause :: "tax_error \<Rightarrow> string \<Rightarrow> tax_error" where
  "WithCause e cause = e\<lparr>te_cause := Some cause\<rparr>"

definition WithCorrelation :: "tax_error \<Rightarrow> string \<Rightarrow> tax_error" where
  "WithCorrelation e i = e\<lparr>te_correlation := i\<rparr>"

fun render_params :: "params \<Rightarrow> string" where
  "render_params [] = []"
| "render_params [(k, v)] = k @ ''='' @ v"
| "render_params ((k, v) # p # ps) = k @ ''='' @ v @ '' '' @ render_params (p # ps)"

definition Error_string :: "tax_error \<Rightarrow> string" where
  "Error_string e =
     te_code e
     @ (if te_params e = [] then [] else '' ['' @ render_params (sort_key fst (te_params e)) @ '']'')
     @ (case te_cause e of None \<Rightarrow> [] | Some c \<Rightarrow> '': '' @ c)"

subsection \<open>The principal error\<close>

text \<open>The two maps the rule builds first: occurrences per code and first error per code.\<close>

definition counts :: "tax_error option list \<Rightarrow> code \<Rightarrow> nat" where
  "counts errs c = length (filter (\<lambda>e. case e of None \<Rightarrow> False | Some e \<Rightarrow> te_code e = c) errs)"

fun first_of :: "tax_error option list \<Rightarrow> code \<Rightarrow> tax_error option" where
  "first_of [] c = None"
| "first_of (None # es) c = first_of es c"
| "first_of (Some e # es) c = (if te_code e = c then Some e else first_of es c)"

fun codes_of :: "tax_error option list \<Rightarrow> code set" where
  "codes_of [] = {}"
| "codes_of (None # es) = codes_of es"
| "codes_of (Some e # es) = insert (te_code e) (codes_of es)"

definition principal_step :: "(code \<Rightarrow> nat) \<Rightarrow> code \<Rightarrow> code \<Rightarrow> code" where
  "principal_step cnt best c =
     (if best = [] then c
      else (let bc = severity (class_of best); cc = severity (class_of c) in
        if cc > bc then c
        else if cc = bc \<and> cnt c > cnt best then c
        else if cc = bc \<and> cnt c = cnt best \<and> c < best then c
        else best))"

definition Principal :: "code list \<Rightarrow> tax_error option list \<Rightarrow> tax_error option" where
  "Principal order errs =
     (let best = foldl (principal_step (counts errs)) [] order in
      if best = [] then None else first_of errs best)"

text \<open>A possible iteration order of the \<open>counts\<close> map.\<close>

definition iteration_order :: "code list \<Rightarrow> tax_error option list \<Rightarrow> bool" where
  "iteration_order order errs \<longleftrightarrow> distinct order \<and> set order = codes_of errs"

text \<open>A list with a repeated code, a success and a code of a higher class.\<close>

definition sample_errs :: "tax_error option list" where
  "sample_errs = map (map_option (\<lambda>c. \<lparr>te_code = c, te_params = [], te_correlation = [], te_cause = None\<rparr>))
     [Some CodeInternal, None, Some CodeInternal, Some CodeSignature]"

subsection \<open>Selecting a best element by a left fold\<close>

text \<open>
  The interface behind the rule: a strict total order \<open>better\<close>. Folding with \<open>take the
  newcomer if it is better\<close> returns the greatest element, whatever the order of the list.
\<close>

locale best_fold =
  fixes better :: "'a \<Rightarrow> 'a \<Rightarrow> bool"
  assumes better_irrefl: "\<not> better x x"
    and better_trans: "better x y \<Longrightarrow> better y z \<Longrightarrow> better x z"
    and better_total: "x \<noteq> y \<Longrightarrow> better x y \<or> better y x"
begin

lemma fold_in: "foldl (\<lambda>b c. if better c b then c else b) x xs \<in> insert x (set xs)"
proof (induction xs arbitrary: x)
  case (Cons a xs)
  show ?case using Cons [of "if better a x then a else x"] by (auto split: if_splits)
qed simp

lemma fold_best:
  "y \<in> insert x (set xs) \<Longrightarrow>
     y = foldl (\<lambda>b c. if better c b then c else b) x xs
     \<or> better (foldl (\<lambda>b c. if better c b then c else b) x xs) y"
proof (induction xs arbitrary: x y)
  case (Cons a xs)
  let ?x = "if better a x then a else x"
  let ?r = "foldl (\<lambda>b c. if better c b then c else b) ?x xs"
  have x: "?x = ?r \<or> better ?r ?x" using Cons.IH [where x = ?x and y = ?x] by simp
  have "y \<in> set xs \<or> y = a \<or> y = x" using Cons.prems by auto
  then show ?case
  proof (elim disjE)
    assume "y \<in> set xs"
    then show ?thesis using Cons.IH [where x = ?x and y = y] by simp
  next
    assume "y = a"
    then have "y = ?x \<or> better ?x y" using better_total [of a x] by auto
    then have "y = ?r \<or> better ?r y" using x better_trans [of ?r ?x y] by auto
    then show ?thesis by simp
  next
    assume "y = x"
    then have "y = ?x \<or> better ?x y" by auto
    then have "y = ?r \<or> better ?r y" using x better_trans [of ?r ?x y] by auto
    then show ?thesis by simp
  qed
qed simp

lemma greatest_unique:
  assumes "a \<in> S" and "b \<in> S" and "\<forall>y \<in> S. y = a \<or> better a y" and "\<forall>y \<in> S. y = b \<or> better b y"
  shows "a = b"
  using assms better_irrefl better_trans by metis

end

definition outranks :: "(code \<Rightarrow> nat) \<Rightarrow> code \<Rightarrow> code \<Rightarrow> bool" where
  "outranks cnt c d \<longleftrightarrow>
     severity (class_of d) < severity (class_of c)
     \<or> severity (class_of c) = severity (class_of d)
       \<and> (cnt d < cnt c \<or> cnt c = cnt d \<and> c < d)"

interpretation principal: best_fold "outranks cnt" for cnt
  by unfold_locales (auto simp: outranks_def)

lemma principal_step_outranks:
  "b \<noteq> [] \<Longrightarrow> principal_step cnt b c = (if outranks cnt c b then c else b)"
  by (auto simp: principal_step_def outranks_def Let_def)

lemma principal_fold:
  assumes "[] \<notin> set xs" and "x \<noteq> []"
  shows "foldl (principal_step cnt) x xs = foldl (\<lambda>b c. if outranks cnt c b then c else b) x xs"
  using assms
proof (induction xs arbitrary: x)
  case (Cons a xs)
  then have "a \<noteq> []" by auto
  with Cons show ?case by (simp add: principal_step_outranks)
qed simp

lemma codes_of_iff: "c \<in> codes_of errs \<longleftrightarrow> (\<exists>e. Some e \<in> set errs \<and> te_code e = c)"
  by (induction errs rule: codes_of.induct) auto

lemma first_of_code: "first_of errs c = Some e \<Longrightarrow> Some e \<in> set errs \<and> te_code e = c"
  by (induction errs c rule: first_of.induct) (auto split: if_splits)

lemma first_of_some: "Some e \<in> set errs \<Longrightarrow> first_of errs (te_code e) \<noteq> None"
  by (induction errs "te_code e" rule: first_of.induct) auto

lemma Principal_best:
  assumes "iteration_order order errs" and "[] \<notin> codes_of errs"
  defines "best \<equiv> foldl (principal_step (counts errs)) [] order"
  shows "codes_of errs = {} \<Longrightarrow> best = []"
    and "codes_of errs \<noteq> {} \<Longrightarrow> best \<in> codes_of errs
         \<and> (\<forall>c \<in> codes_of errs. c = best \<or> outranks (counts errs) best c)"
proof -
  show "codes_of errs = {} \<Longrightarrow> best = []"
    using assms by (simp add: iteration_order_def)
  assume "codes_of errs \<noteq> {}"
  then obtain x xs where o: "order = x # xs" using assms(1) by (cases order) (auto simp: iteration_order_def)
  have ne: "x \<noteq> []" "[] \<notin> set xs" using assms(1,2) o by (auto simp: iteration_order_def)
  have "principal_step (counts errs) [] x = x" by (simp add: principal_step_def)
  then have b: "best = foldl (\<lambda>b c. if outranks (counts errs) c b then c else b) x xs"
    using o ne by (simp add: best_def principal_fold)
  have "insert x (set xs) = codes_of errs" using assms(1) o by (simp add: iteration_order_def)
  then show "best \<in> codes_of errs \<and> (\<forall>c \<in> codes_of errs. c = best \<or> outranks (counts errs) best c)"
    using principal.fold_in [where cnt = "counts errs" and x = x and xs = xs]
      principal.fold_best [where cnt = "counts errs" and x = x and xs = xs] b
    by simp
qed

subsection \<open>Main results\<close>

text \<open>The principal error of a multi-item operation does not depend on the order in which
  Go happens to iterate the map of counted codes.\<close>

theorem Principal_order_independent:
  assumes "iteration_order o1 errs" and "iteration_order o2 errs" and "[] \<notin> codes_of errs"
  shows "Principal o1 errs = Principal o2 errs"
proof (cases "codes_of errs = {}")
  case True
  then show ?thesis
    using Principal_best(1) [OF assms(1,3)] Principal_best(1) [OF assms(2,3)] by (simp add: Principal_def)
next
  case False
  note b1 = Principal_best(2) [OF assms(1,3) False] and b2 = Principal_best(2) [OF assms(2,3) False]
  have "foldl (principal_step (counts errs)) [] o1 = foldl (principal_step (counts errs)) [] o2"
    using principal.greatest_unique [where cnt = "counts errs"] b1 b2 by blast
  then show ?thesis by (simp add: Principal_def)
qed

theorem Principal_order_independent_witness:
  "Principal [CodeInternal, CodeSignature]
     (map (\<lambda>c. New c []) [CodeInternal, CodeInternal, CodeSignature]) =
   Principal [CodeSignature, CodeInternal]
     (map (\<lambda>c. New c []) [CodeInternal, CodeInternal, CodeSignature])"
proof -
  have errs: "map (\<lambda>c. New c []) [CodeInternal, CodeInternal, CodeSignature] =
      map (\<lambda>c. Some \<lparr>te_code = c, te_params = [], te_correlation = [], te_cause = None\<rparr>)
        [CodeInternal, CodeInternal, CodeSignature]"
    by code_simp
  show ?thesis unfolding errs
    by (rule Principal_order_independent) (auto simp: iteration_order_def)
qed

text \<open>The principal error is the first occurrence of the code that outranks every other
  code present: highest class (verification over policy over operational), then most
  frequent, then lexicographically smallest; there is none exactly when every item succeeded.\<close>

theorem Principal_greatest:
  assumes "iteration_order order errs" and "[] \<notin> codes_of errs"
  shows "case Principal order errs of
      None \<Rightarrow> \<forall>e. Some e \<notin> set errs
    | Some e \<Rightarrow> first_of errs (te_code e) = Some e
        \<and> (\<forall>e'. Some e' \<in> set errs \<longrightarrow>
             te_code e' = te_code e \<or> outranks (counts errs) (te_code e) (te_code e'))"
proof (cases "codes_of errs = {}")
  case True
  then have "\<forall>e. Some e \<notin> set errs" using codes_of_iff [of _ errs] by auto
  with True show ?thesis using Principal_best(1) [OF assms] by (simp add: Principal_def)
next
  case False
  let ?b = "foldl (principal_step (counts errs)) [] order"
  note b = Principal_best(2) [OF assms False]
  then obtain e where e: "first_of errs ?b = Some e"
    using first_of_some by (fastforce simp: codes_of_iff)
  have "te_code e = ?b" using first_of_code [OF e] by simp
  moreover have "?b \<noteq> []" using b assms(2) by auto
  moreover have "te_code e' \<in> codes_of errs" if "Some e' \<in> set errs" for e'
    using that codes_of_iff by blast
  ultimately show ?thesis using b e by (auto simp: Principal_def)
qed

theorem Principal_greatest_witness:
  "case Principal [CodeInternal, CodeSignature] sample_errs of
      None \<Rightarrow> \<forall>e. Some e \<notin> set sample_errs
    | Some e \<Rightarrow> first_of sample_errs (te_code e) = Some e
        \<and> (\<forall>e'. Some e' \<in> set sample_errs \<longrightarrow>
             te_code e' = te_code e \<or> outranks (counts sample_errs) (te_code e) (te_code e'))"
  by (rule Principal_greatest) (auto simp: iteration_order_def sample_errs_def)

text \<open>The published exit-code table is closed: it numbers its rows without repetition, it
  contains the exit code of every error class under a name, and rendering a row never
  panics.\<close>

theorem ExitCodes_closed:
  "distinct (map fst ExitCodes) \<and> distinct (map snd ExitCodes)
   \<and> (\<forall>cl. snd (ExitCodeName (class_ExitCode cl))) \<and> set Classes = UNIV
   \<and> list_all (\<lambda>(c, n). itoa c \<noteq> None \<and> ExitCodeName c = (n, True)) ExitCodes"
proof -
  have "snd (ExitCodeName (class_ExitCode cl))" for cl
    by (cases cl) (simp_all add: ExitCodeName_def ExitCodes_def)
  moreover have "set Classes = UNIV"
  proof -
    have "cl \<in> set Classes" for cl by (cases cl) (simp_all add: Classes_def)
    then show ?thesis by blast
  qed
  moreover have "list_all (\<lambda>(c, n). itoa c \<noteq> None \<and> ExitCodeName c = (n, True)) ExitCodes"
    by code_simp
  ultimately show ?thesis by (simp add: ExitCodes_def)
qed

text \<open>The catalog is well formed: no code is listed twice, every entry carries the code it
  is filed under, and so \<open>New\<close> panics on none of its codes.\<close>

lemma catalog_well_formed:
  "distinct (map fst catalog) \<and> list_all (\<lambda>(c, e). en_code e = c \<and> c \<noteq> []) catalog
   \<and> (\<forall>c ps. New c ps \<noteq> None \<longleftrightarrow> c \<in> set (map fst catalog))"
proof -
  have "distinct (map fst catalog)" by code_simp
  moreover have "list_all (\<lambda>(c, e). en_code e = c \<and> c \<noteq> []) catalog" by code_simp
  moreover have "New c ps \<noteq> None \<longleftrightarrow> c \<in> set (map fst catalog)" for c ps
    by (simp add: New_def Lookup_def map_of_eq_None_iff)
  ultimately show ?thesis by blast
qed

end
