(* ===== verification/Tasks.thy ===== *)
theory Tasks
  imports Taxonomy
begin

text \<open>
  The data of a task, \<^verbatim>\<open>internal/tasks/tasks.go\<close>: its items with per-blob progress rows,
  the persisted errors, the counters and the principal error of the listings. Times are
  nanoseconds since Go's zero time. Values are immutable here, so a deep copy
  (\<^verbatim>\<open>cloneItems\<close>) is the value itself.
\<close>

datatype Status = StatusPending | StatusRunning | StatusDone | StatusFailed | StatusSkipped

type_synonym time = int

record ItemError =
  ie_Code :: code
  ie_Params :: params
  ie_Detail :: string

record BlobProgress =
  bp_Digest :: string
  bp_SizeBytes :: int
  bp_ReceivedBytes :: int
  bp_Resumed :: bool
  bp_Done :: bool

record Item =
  it_Name :: string
  it_Digest :: string
  it_SizeBytes :: int
  it_Status :: Status
  it_Error :: "ItemError option"
  it_Blobs :: "BlobProgress list"

record ChartDependency =
  ch_Chart :: string
  ch_Name :: string
  ch_Version :: string
  ch_Repository :: string
  ch_Embedded :: bool

record Pruned =
  pr_Repo :: string
  pr_Tag :: string
  pr_Digest :: string
  pr_Recipe :: string

record Resolution =
  rs_Recipe :: string
  rs_Ingredient :: string
  rs_Requested :: string
  rs_Resolved :: string
  rs_Digest :: string
  rs_Status :: string
  rs_Effective :: string
  rs_TrustScope :: string
  rs_Destination :: string
  rs_DestinationStatus :: string
  rs_PushedBytes :: int

record Layout =
  ly_Format :: string
  ly_Recipes :: "string list"
  ly_Repositories :: "string list"
  ly_Repository :: string
  ly_Overwrite :: bool

record Task =
  tk_ID :: string
  tk_RunID :: string
  tk_Type :: string
  tk_Reference :: string
  tk_Actor :: string
  tk_Status :: Status
  tk_Created :: time
  tk_Started :: time
  tk_Finished :: time
  tk_Resumed :: bool
  tk_VendorDependencies :: bool
  tk_Layout :: "Layout option"
  tk_MediaOverrides :: "string list"
  tk_Error :: "ItemError option"
  tk_Items :: "Item list"
  tk_ChartDependencies :: "ChartDependency list"
  tk_Prune :: bool
  tk_Pruned :: "Pruned list"
  tk_Resolutions :: "Resolution list"

subsection \<open>Blob progress\<close>

fun track_rows ::
  "string \<Rightarrow> int \<Rightarrow> int \<Rightarrow> bool \<Rightarrow> bool \<Rightarrow> BlobProgress list \<Rightarrow> BlobProgress list" where
  "track_rows dgst received sz resumed done [] =
     [\<lparr>bp_Digest = dgst, bp_SizeBytes = sz, bp_ReceivedBytes = received,
       bp_Resumed = resumed, bp_Done = done\<rparr>]"
| "track_rows dgst received sz resumed done (b # bs) =
     (if bp_Digest b \<noteq> dgst then b # track_rows dgst received sz resumed done bs
      else b\<lparr>bp_ReceivedBytes := received, bp_Done := done,
              bp_SizeBytes := (if sz > 0 then sz else bp_SizeBytes b),
              bp_Resumed := bp_Resumed b \<or> resumed\<rparr> # bs)"

definition TrackBlob :: "string \<Rightarrow> int \<Rightarrow> int \<Rightarrow> bool \<Rightarrow> bool \<Rightarrow> Item \<Rightarrow> Item" where
  "TrackBlob dgst received sz resumed done it =
     it\<lparr>it_Blobs := track_rows dgst received sz resumed done (it_Blobs it)\<rparr>"

fun done_rows :: "string \<Rightarrow> BlobProgress list \<Rightarrow> BlobProgress list" where
  "done_rows dgst [] = []"
| "done_rows dgst (b # bs) =
     (if bp_Digest b = dgst
      then b\<lparr>bp_Done := True,
              bp_ReceivedBytes := (if bp_SizeBytes b > 0 then bp_SizeBytes b else bp_ReceivedBytes b)\<rparr> # bs
      else b # done_rows dgst bs)"

definition TrackBlobDone :: "string \<Rightarrow> Item \<Rightarrow> Item" where
  "TrackBlobDone dgst it = it\<lparr>it_Blobs := done_rows dgst (it_Blobs it)\<rparr>"

subsection \<open>Errors and counters\<close>

definition FromTaxonomy :: "tax_error option \<Rightarrow> ItemError option" where
  "FromTaxonomy oe =
     map_option (\<lambda>e. \<lparr>ie_Code = te_code e, ie_Params = te_params e,
       ie_Detail = (case te_cause e of None \<Rightarrow> [] | Some c \<Rightarrow> c)\<rparr>) oe"

text \<open>\<open>None\<close> is the panic of \<^verbatim>\<open>taxonomy.New\<close> on a code outside the catalog.\<close>

definition ItemError_Taxonomy :: "string \<Rightarrow> ItemError \<Rightarrow> tax_error option" where
  "ItemError_Taxonomy correlation ie =
     map_option (\<lambda>e. WithCorrelation e correlation) (New (ie_Code ie) (ie_Params ie))"

record Aggregates =
  ag_Total :: nat
  ag_Done :: nat
  ag_Failed :: nat
  ag_Skipped :: nat

fun aggregate_items :: "Aggregates \<Rightarrow> Item list \<Rightarrow> Aggregates" where
  "aggregate_items a [] = a"
| "aggregate_items a (it # its) =
     aggregate_items
       (case it_Status it of
          StatusDone \<Rightarrow> a\<lparr>ag_Done := ag_Done a + 1\<rparr>
        | StatusFailed \<Rightarrow> a\<lparr>ag_Failed := ag_Failed a + 1\<rparr>
        | StatusSkipped \<Rightarrow> a\<lparr>ag_Skipped := ag_Skipped a + 1\<rparr>
        | StatusPending \<Rightarrow> a
        | StatusRunning \<Rightarrow> a) its"

definition Aggregate :: "Task \<Rightarrow> Aggregates" where
  "Aggregate t =
     aggregate_items \<lparr>ag_Total = length (tk_Items t), ag_Done = 0, ag_Failed = 0, ag_Skipped = 0\<rparr> (tk_Items t)"

definition task_errors :: "Task \<Rightarrow> ItemError list" where
  "task_errors t =
     (case tk_Error t of None \<Rightarrow> [] | Some e \<Rightarrow> [e]) @ List.map_filter it_Error (tk_Items t)"

definition Task_Principal :: "code list \<Rightarrow> Task \<Rightarrow> tax_error option option" where
  "Task_Principal order t =
     (let errs = map (ItemError_Taxonomy (tk_RunID t)) (task_errors t) in
      if None \<in> set errs then None else Some (Principal order errs))"

definition Active :: "Task \<Rightarrow> bool" where
  "Active t = (tk_Status t = StatusPending \<or> tk_Status t = StatusRunning)"

definition WithMediaOverrides :: "string list \<Rightarrow> Task \<Rightarrow> Task" where
  "WithMediaOverrides guards t = t\<lparr>tk_MediaOverrides := tk_MediaOverrides t @ guards\<rparr>"

subsection \<open>Lemmas\<close>

lemma track_rows_keys:
  "map bp_Digest (track_rows d r s re dn bs) =
     map bp_Digest bs @ (if d \<in> bp_Digest ` set bs then [] else [d])"
  by (induction bs) auto

lemma track_rows_distinct:
  "distinct (map bp_Digest bs) \<Longrightarrow> distinct (map bp_Digest (track_rows d r s re dn bs))"
  by (auto simp: track_rows_keys)

lemma aggregate_items_count:
  "aggregate_items a its =
     a\<lparr>ag_Done := ag_Done a + length (filter (\<lambda>i. it_Status i = StatusDone) its),
        ag_Failed := ag_Failed a + length (filter (\<lambda>i. it_Status i = StatusFailed) its),
        ag_Skipped := ag_Skipped a + length (filter (\<lambda>i. it_Status i = StatusSkipped) its)\<rparr>"
  by (induction its arbitrary: a) (auto split: Status.splits)

lemma Aggregate_Failed: "ag_Failed (Aggregate t) > 0 \<longleftrightarrow> (\<exists>i \<in> set (tk_Items t). it_Status i = StatusFailed)"
  by (auto simp: Aggregate_def aggregate_items_count filter_empty_conv)

lemma track_rows_find:
  "find (\<lambda>b. bp_Digest b = d) (track_rows d r s re dn bs) =
     Some (case find (\<lambda>b. bp_Digest b = d) bs of
             None \<Rightarrow> \<lparr>bp_Digest = d, bp_SizeBytes = s, bp_ReceivedBytes = r, bp_Resumed = re, bp_Done = dn\<rparr>
           | Some b \<Rightarrow> b\<lparr>bp_ReceivedBytes := r, bp_Done := dn,
               bp_SizeBytes := (if s > 0 then s else bp_SizeBytes b), bp_Resumed := bp_Resumed b \<or> re\<rparr>)"
  by (induction bs) auto

lemma track_rows_other:
  "d' \<noteq> d \<Longrightarrow> find (\<lambda>b. bp_Digest b = d') (track_rows d r s re dn bs) = find (\<lambda>b. bp_Digest b = d') bs"
  by (induction bs) auto

text \<open>Progress rows are keyed by digest: recording an advance keeps one row per digest,
  updates (or appends) exactly the row of that blob, never clears the \<open>Resumed\<close> mark, and
  leaves every other blob's row alone.\<close>

theorem TrackBlob_keyed:
  assumes "distinct (map bp_Digest (it_Blobs it))"
  shows "distinct (map bp_Digest (it_Blobs (TrackBlob d r s re dn it)))
    \<and> (\<exists>b. find (\<lambda>b. bp_Digest b = d) (it_Blobs (TrackBlob d r s re dn it)) = Some b
         \<and> bp_ReceivedBytes b = r \<and> bp_Done b = dn
         \<and> bp_Resumed b = (re \<or> (case find (\<lambda>b. bp_Digest b = d) (it_Blobs it) of
              None \<Rightarrow> False | Some b0 \<Rightarrow> bp_Resumed b0)))
    \<and> (\<forall>d'. d' \<noteq> d \<longrightarrow> find (\<lambda>b. bp_Digest b = d') (it_Blobs (TrackBlob d r s re dn it)) =
         find (\<lambda>b. bp_Digest b = d') (it_Blobs it))"
  using track_rows_distinct [OF assms] track_rows_other
  by (auto simp: TrackBlob_def track_rows_find split: option.splits)

definition demo_item :: Item where
  "demo_item = \<lparr>it_Name = ''linux/amd64'', it_Digest = [], it_SizeBytes = 0, it_Status = StatusRunning,
     it_Error = None, it_Blobs = [\<lparr>bp_Digest = ''sha256:a'', bp_SizeBytes = 10, bp_ReceivedBytes = 4,
       bp_Resumed = True, bp_Done = False\<rparr>]\<rparr>"

theorem TrackBlob_keyed_witness:
  "\<exists>b. find (\<lambda>b. bp_Digest b = ''sha256:a'') (it_Blobs (TrackBlob ''sha256:a'' 9 0 False False demo_item)) = Some b
     \<and> bp_ReceivedBytes b = 9 \<and> bp_Resumed b"
  using TrackBlob_keyed [of demo_item "''sha256:a''" 9 0 False False] by (simp add: demo_item_def) blast

end
