(* ===== verification/Queue.thy ===== *)
theory Queue
  imports Tasks "HOL-Library.Multiset"
begin

text \<open>
  The persistent task queue, \<^verbatim>\<open>internal/tasks/queue.go\<close>. The state is the queue's own
  (the task map, the bounded hand-off channel, the resume backlog) plus the task directory on
  disk. The order of \<open>q_tasks\<close> is the order Go iterates the map in: every theorem holds for
  every order. \<open>q_diskOK\<close> says which files of the task directory can be written and removed at the moment; every
  failure is swallowed, as the code only logs it. A runner is its observable behaviour: the task as it stood at each
  \<^verbatim>\<open>save()\<close>, the task it leaves, and how it returned.

  The mutex makes each section below atomic; \<open>qstep\<close> interleaves the sections of the worker
  with the other callers, with crashes and with a disk that fails and recovers. Taking a task and beginning it is
  one step: between the two nobody else reads or writes a task that waits for its turn.
\<close>

datatype disk_file = TaskFile Task | BadFile | UnreadableFile | LogFile | DirEntry

record Queue =
  q_keepFinished :: int
  q_boundary :: bool
  q_tasks :: "(string \<times> Task) list"
  q_pending :: "string list"
  q_resuming :: "string list"
  q_disk :: "(string \<times> disk_file) list"
  q_diskOK :: "string \<Rightarrow> bool"
  q_flushes :: nat

abbreviation pendingCapacity :: nat where "pendingCapacity \<equiv> 256"
abbreviation ListPageSize :: int where "ListPageSize \<equiv> 25"

abbreviation json_name :: "string \<Rightarrow> string" where "json_name tid \<equiv> tid @ ''.json''"
abbreviation log_name :: "string \<Rightarrow> string" where "log_name tid \<equiv> tid @ ''.log''"

subsection \<open>Persistence and retention\<close>

definition persist :: "Task \<Rightarrow> Queue \<Rightarrow> Queue" where
  "persist t q =
     (if q_diskOK q (json_name (tk_ID t)) then q\<lparr>q_disk := map_put (json_name (tk_ID t)) (TaskFile t) (q_disk q)\<rparr> else q)"

definition finished_tasks :: "Queue \<Rightarrow> Task list" where
  "finished_tasks q = filter (\<lambda>t. \<not> Active t) (map snd (q_tasks q))"

definition remove_file :: "string \<Rightarrow> Queue \<Rightarrow> Queue" where
  "remove_file name q = (if q_diskOK q name then q\<lparr>q_disk := map_del name (q_disk q)\<rparr> else q)"

definition purge_one :: "Queue \<Rightarrow> Task \<Rightarrow> Queue" where
  "purge_one q t =
     remove_file (log_name (tk_ID t)) (remove_file (json_name (tk_ID t)) (q\<lparr>q_tasks := map_del (tk_ID t) (q_tasks q)\<rparr>))"

definition purgeFinished :: "Queue \<Rightarrow> Queue" where
  "purgeFinished q =
     (if q_keepFinished q \<le> 0 then q
      else (let finished = finished_tasks q in
            if int (length finished) \<le> q_keepFinished q then q
            else foldl purge_one q
                   (drop (nat (q_keepFinished q)) (sort_key (\<lambda>t. - tk_Created t) finished))))"

subsection \<open>Opening\<close>

datatype open_error = CreatingDir | ReadingDir | ReadingFile string

fun open_entries ::
  "(string \<times> disk_file) list \<Rightarrow> string list \<Rightarrow> (string \<times> Task) list
     \<Rightarrow> open_error + string list \<times> (string \<times> Task) list" where
  "open_entries [] resumed tasks = Inr (resumed, tasks)"
| "open_entries ((name, f) # entries) resumed tasks =
     (if f = DirEntry \<or> \<not> has_suffix name ''.json'' then open_entries entries resumed tasks
      else (case f of
              TaskFile t \<Rightarrow>
                if Active t
                then open_entries entries (resumed @ [tk_ID t])
                       (map_put (tk_ID t) (t\<lparr>tk_Status := StatusPending, tk_Resumed := True\<rparr>) tasks)
                else open_entries entries resumed (map_put (tk_ID t) t tasks)
            | UnreadableFile \<Rightarrow> Inl (ReadingFile name)
            | _ \<Rightarrow> open_entries entries resumed tasks))"

definition created_of :: "(string \<times> Task) list \<Rightarrow> string \<Rightarrow> time" where
  "created_of tasks tid = (case map_of tasks tid of None \<Rightarrow> 0 | Some t \<Rightarrow> tk_Created t)"

definition persist_id :: "Queue \<Rightarrow> string \<Rightarrow> Queue" where
  "persist_id q tid = (case map_of (q_tasks q) tid of None \<Rightarrow> q | Some t \<Rightarrow> persist t q)"

text \<open>\<^verbatim>\<open>os.ReadDir\<close> lists a directory in file-name order.\<close>

definition Open_queue ::
  "int \<Rightarrow> bool \<Rightarrow> (string \<Rightarrow> bool) \<Rightarrow> (string \<times> disk_file) list \<Rightarrow> open_error + Queue" where
  "Open_queue keep boundary diskOK disk =
     (case open_entries (sort_key fst disk) [] [] of
        Inl e \<Rightarrow> Inl e
      | Inr (found, tasks) \<Rightarrow>
          (let resumed = sort_key (created_of tasks) found;
               q = \<lparr>q_keepFinished = keep, q_boundary = boundary, q_tasks = tasks, q_pending = [],
                    q_resuming = [], q_disk = disk, q_diskOK = diskOK, q_flushes = 0\<rparr>;
               q = foldl persist_id q resumed
           in Inr (purgeFinished (q\<lparr>q_resuming := resumed\<rparr>))))"

subsection \<open>Creating\<close>

datatype TaskOption =
    WithVendorDependencies | WithLayout Layout | WithPrune bool | WithOverrides "string list"

fun apply_option :: "TaskOption \<Rightarrow> Task \<Rightarrow> Task" where
  "apply_option WithVendorDependencies t = t\<lparr>tk_VendorDependencies := True\<rparr>"
| "apply_option (WithLayout l) t = t\<lparr>tk_Layout := Some l\<rparr>"
| "apply_option (WithPrune b) t = t\<lparr>tk_Prune := b\<rparr>"
| "apply_option (WithOverrides gs) t = WithMediaOverrides gs t"

definition new_task ::
  "string \<Rightarrow> string \<Rightarrow> time \<Rightarrow> string \<Rightarrow> string \<Rightarrow> string \<Rightarrow> Item list \<Rightarrow> TaskOption list \<Rightarrow> Task" where
  "new_task tid runID now taskType reference actor items opts =
     foldl (\<lambda>t opt. apply_option opt t)
       \<lparr>tk_ID = tid, tk_RunID = runID, tk_Type = taskType, tk_Reference = reference, tk_Actor = actor,
        tk_Status = StatusPending, tk_Created = now, tk_Started = 0, tk_Finished = 0, tk_Resumed = False,
        tk_VendorDependencies = False, tk_Layout = None, tk_MediaOverrides = [], tk_Error = None,
        tk_Items = items, tk_ChartDependencies = [], tk_Prune = False, tk_Pruned = [],
        tk_Resolutions = []\<rparr> opts"

datatype create_error = QueueFull

definition Create ::
  "string \<Rightarrow> string \<Rightarrow> time \<Rightarrow> string \<Rightarrow> string \<Rightarrow> string \<Rightarrow> Item list \<Rightarrow> TaskOption list \<Rightarrow> Queue
     \<Rightarrow> (create_error + Task) \<times> Queue" where
  "Create tid runID now taskType reference actor items opts q =
     (let t = new_task tid runID now taskType reference actor items opts in
      if length (q_pending q) < pendingCapacity then
        (let q = q\<lparr>q_pending := q_pending q @ [tk_ID t]\<rparr>;
             q = q\<lparr>q_tasks := map_put (tk_ID t) t (q_tasks q)\<rparr>;
             q = persist t q
         in (Inr t, purgeFinished q))
      else (Inl QueueFull, q))"

definition HasPending :: "string \<Rightarrow> Queue \<Rightarrow> bool" where
  "HasPending taskType q = list_ex (\<lambda>(_, t). tk_Type t = taskType \<and> tk_Status t = StatusPending) (q_tasks q)"

definition ActiveCount :: "Queue \<Rightarrow> nat" where
  "ActiveCount q = length (filter (\<lambda>(_, t). Active t) (q_tasks q))"

subsection \<open>Running\<close>

datatype run_error = Canceled | TaxErr tax_error | OtherErr string | Panicked string

record run =
  run_saves :: "Task list"
  run_work :: Task
  run_err :: "run_error option"

type_synonym Runner = "Task \<Rightarrow> run"

definition internal_error :: "string \<Rightarrow> tax_error" where
  "internal_error cause =
     \<lparr>te_code = CodeInternal, te_params = [], te_correlation = [], te_cause = Some cause\<rparr>"

definition runProtected :: "Runner \<Rightarrow> Task \<Rightarrow> run" where
  "runProtected runner work =
     (let r = runner work in
      case run_err r of
        Some (Panicked m) \<Rightarrow> r\<lparr>run_err := Some (TaxErr (internal_error (''task runner panicked: '' @ m)))\<rparr>
      | _ \<Rightarrow> r)"

text \<open>
  \<open>publish\<close> writes through the pointer to the canonical task: \<open>dst\<close> is what it points to,
  present in the map or already purged from it.
\<close>

definition publish :: "Task \<Rightarrow> Task \<Rightarrow> Queue \<Rightarrow> Task \<times> Queue" where
  "publish dst src q =
     (let dst = dst\<lparr>tk_Status := tk_Status src, tk_Error := tk_Error src, tk_Finished := tk_Finished src,
                    tk_Items := tk_Items src, tk_ChartDependencies := tk_ChartDependencies src,
                    tk_Resolutions := tk_Resolutions src\<rparr>;
          q = (if map_of (q_tasks q) (tk_ID dst) = None then q
               else q\<lparr>q_tasks := map_put (tk_ID dst) dst (q_tasks q)\<rparr>)
      in (dst, persist dst q))"

definition settle :: "time \<Rightarrow> tax_error option \<Rightarrow> Task \<Rightarrow> Task" where
  "settle now te work =
     (let work = (case te of None \<Rightarrow> work | Some _ \<Rightarrow> work\<lparr>tk_Error := FromTaxonomy te\<rparr>);
          agg = Aggregate work
      in work\<lparr>tk_Status := (if te \<noteq> None \<or> ag_Failed agg > 0 then StatusFailed else StatusDone),
              tk_Finished := now\<rparr>)"

definition finish :: "time \<Rightarrow> Task \<Rightarrow> Task \<Rightarrow> tax_error option \<Rightarrow> Queue \<Rightarrow> Queue" where
  "finish now dst work te q = snd (publish dst (settle now te work) q)"

definition atBoundary :: "Queue \<Rightarrow> Queue" where
  "atBoundary q = (if q_boundary q then q\<lparr>q_flushes := q_flushes q + 1\<rparr> else q)"

definition taskLogger :: "Task \<Rightarrow> Queue \<Rightarrow> Queue" where
  "taskLogger t q = (if q_diskOK q (log_name (tk_ID t)) then q\<lparr>q_disk := map_put (log_name (tk_ID t)) LogFile (q_disk q)\<rparr> else q)"

text \<open>The first critical section of \<open>execute\<close>: the task is marked running, persisted, and
  copied for the runner.\<close>

definition begin_task :: "time \<Rightarrow> string \<Rightarrow> Queue \<Rightarrow> (Task \<times> Queue) option" where
  "begin_task now tid q =
     (case map_of (q_tasks q) tid of
        None \<Rightarrow> None
      | Some t \<Rightarrow>
          (let t = t\<lparr>tk_Status := StatusRunning, tk_Started := now\<rparr>;
               q = q\<lparr>q_tasks := map_put tid t (q_tasks q)\<rparr>
           in Some (t, taskLogger t (persist t q))))"

definition save_all :: "Task \<Rightarrow> Task list \<Rightarrow> Queue \<Rightarrow> Task \<times> Queue" where
  "save_all dst works q = foldl (\<lambda>(dst, q) work. publish dst work q) (dst, q) works"

text \<open>The last section: an interruption only saves, everything else settles the task.\<close>

definition end_task :: "time \<Rightarrow> Task \<Rightarrow> Task \<Rightarrow> run_error option \<Rightarrow> Queue \<Rightarrow> Queue" where
  "end_task now dst work err q =
     atBoundary
       (case err of
          Some Canceled \<Rightarrow> snd (publish dst work q)
        | None \<Rightarrow> finish now dst work None q
        | Some (TaxErr te) \<Rightarrow> finish now dst work (Some te) q
        | Some (OtherErr m) \<Rightarrow> finish now dst work (Some (internal_error m)) q
        | Some (Panicked m) \<Rightarrow> finish now dst work (Some (internal_error (''task runner panicked: '' @ m))) q)"

definition execute ::
  "(string \<Rightarrow> Runner option) \<Rightarrow> time \<Rightarrow> time \<Rightarrow> string \<Rightarrow> Queue \<Rightarrow> Queue" where
  "execute runners start stop tid q =
     (case begin_task start tid q of
        None \<Rightarrow> q
      | Some (t, q) \<Rightarrow>
          (case runners (tk_Type t) of
             None \<Rightarrow> atBoundary (finish stop t t
                       (Some (internal_error (''no runner for task type '' @ tk_Type t))) q)
           | Some runner \<Rightarrow>
               (let r = runProtected runner t;
                    (dst, q) = save_all t (run_saves r) q
                in end_task stop dst (run_work r) (run_err r) q)))"

definition nextResuming :: "Queue \<Rightarrow> (string \<times> Queue) option" where
  "nextResuming q =
     (case q_resuming q of [] \<Rightarrow> None | tid # rest \<Rightarrow> Some (tid, q\<lparr>q_resuming := rest\<rparr>))"

text \<open>What the worker takes next: the backlog first, then the channel.\<close>

definition take_next :: "Queue \<Rightarrow> (string \<times> Queue) option" where
  "take_next q =
     (case nextResuming q of
        Some r \<Rightarrow> Some r
      | None \<Rightarrow> (case q_pending q of [] \<Rightarrow> None | tid # rest \<Rightarrow> Some (tid, q\<lparr>q_pending := rest\<rparr>)))"

subsection \<open>Reading\<close>

fun status_string :: "Status \<Rightarrow> string" where
  "status_string StatusPending = ''pending''"
| "status_string StatusRunning = ''running''"
| "status_string StatusDone = ''done''"
| "status_string StatusFailed = ''failed''"
| "status_string StatusSkipped = ''skipped''"

definition Get :: "string \<Rightarrow> Queue \<Rightarrow> Task option" where
  "Get tid q = map_of (q_tasks q) tid"

definition List_tasks :: "string \<Rightarrow> string \<Rightarrow> string \<Rightarrow> Queue \<Rightarrow> Task list" where
  "List_tasks status taskType query q =
     sort_key (\<lambda>t. - tk_Created t)
       (filter (\<lambda>t. (status \<noteq> [] \<longrightarrow> status_string (tk_Status t) = status)
                  \<and> (taskType \<noteq> [] \<longrightarrow> tk_Type t = taskType)
                  \<and> (query \<noteq> [] \<longrightarrow> contains (tk_Reference t) query)) (map snd (q_tasks q)))"

record ListQuery =
  lq_Q :: string
  lq_Status :: string
  lq_Type :: string
  lq_Page :: int

definition ParseListQuery :: "(string \<times> string) list \<Rightarrow> ListQuery" where
  "ParseListQuery v =
     \<lparr>lq_Q = go_get v ''q'', lq_Status = go_get v ''status'', lq_Type = go_get v ''type'',
      lq_Page = (case atoi (go_get v ''page'') of Some p \<Rightarrow> if p > 1 then p else 1 | None \<Rightarrow> 1)\<rparr>"

definition ListQuery_Values :: "ListQuery \<Rightarrow> (string \<times> string) list" where
  "ListQuery_Values lq =
     (if lq_Q lq \<noteq> [] then [(''q'', lq_Q lq)] else [])
     @ (if lq_Status lq \<noteq> [] then [(''status'', lq_Status lq)] else [])
     @ (if lq_Type lq \<noteq> [] then [(''type'', lq_Type lq)] else [])
     @ (if lq_Page lq > 1 then [(''page'', nat_str (nat (lq_Page lq)))] else [])"

definition ListQuery_HasFilter :: "ListQuery \<Rightarrow> bool" where
  "ListQuery_HasFilter lq = (lq_Q lq \<noteq> [] \<or> lq_Status lq \<noteq> [] \<or> lq_Type lq \<noteq> [])"

definition paginate :: "int \<Rightarrow> int \<Rightarrow> int \<Rightarrow> int \<times> int \<times> int" where
  "paginate n page sz =
     (let totalPages = wrap64 (wrap64 (n + sz) - 1) div sz;
          totalPages = (if totalPages = 0 then 1 else totalPages);
          page = (if page < 1 then 1 else page);
          start = wrap64 (wrap64 (page - 1) * sz)
      in if start > n then (n, n, totalPages)
         else (start, min (wrap64 (start + sz)) n, totalPages))"

text \<open>A Go slice expression \<open>xs[a:b]\<close> panics (\<open>None\<close>) outside \<open>0 \<le> a \<le> b \<le> len\<close>.\<close>

definition go_slice :: "'a list \<Rightarrow> int \<Rightarrow> int \<Rightarrow> 'a list option" where
  "go_slice xs a b =
     (if 0 \<le> a \<and> a \<le> b \<and> b \<le> int (length xs) then Some (take (nat (b - a)) (drop (nat a) xs)) else None)"

record TaskPage =
  pg_Tasks :: "Task list"
  pg_Total :: int
  pg_Page :: int
  pg_TotalPages :: int

definition ListPage :: "ListQuery \<Rightarrow> Queue \<Rightarrow> TaskPage option" where
  "ListPage lq q =
     (let matched = List_tasks (lq_Status lq) (lq_Type lq) (lq_Q lq) q;
          (start, stop, totalPages) = paginate (int (length matched)) (lq_Page lq) ListPageSize
      in map_option (\<lambda>ts. \<lparr>pg_Tasks = ts, pg_Total = int (length matched), pg_Page = lq_Page lq,
                           pg_TotalPages = totalPages\<rparr>) (go_slice matched start stop))"

subsection \<open>The system\<close>

text \<open>
  The queue with its worker: \<open>qs_run\<close> is the task being executed (the canonical task and the
  runner's copy), \<open>qs_stopped\<close> that the context was cancelled. The environment may create
  tasks under fresh identifiers, cancel, make any file writable or not, or kill the process, after which the
  queue is opened again from what the disk holds. A runner works on its own copy, leaves the status and the identity
  alone, and reports a cancellation only when the context was cancelled.
\<close>

record qsys =
  qs_q :: Queue
  qs_run :: "Task option"
  qs_stopped :: bool

definition fresh :: "string \<Rightarrow> Queue \<Rightarrow> bool" where
  "fresh tid q \<longleftrightarrow> map_of (q_tasks q) tid = None \<and> map_of (q_disk q) (json_name tid) = None
     \<and> tid \<notin> set (q_pending q) \<and> tid \<notin> set (q_resuming q)"

inductive qstep :: "qsys \<Rightarrow> qsys \<Rightarrow> bool" where
  create: "fresh tid q \<Longrightarrow> Create tid rid now ty ref actor items opts q = (res, q') \<Longrightarrow>
     qstep \<lparr>qs_q = q, qs_run = r, qs_stopped = st\<rparr> \<lparr>qs_q = q', qs_run = r, qs_stopped = st\<rparr>"
| iterate: "mset ts = mset (q_tasks q) \<Longrightarrow>
     qstep \<lparr>qs_q = q, qs_run = r, qs_stopped = st\<rparr> \<lparr>qs_q = q\<lparr>q_tasks := ts\<rparr>, qs_run = r, qs_stopped = st\<rparr>"
| begin_run: "take_next q = Some (tid, q1) \<Longrightarrow> begin_task now tid q1 = Some (t, q2) \<Longrightarrow>
     qstep \<lparr>qs_q = q, qs_run = None, qs_stopped = False\<rparr> \<lparr>qs_q = q2, qs_run = Some t, qs_stopped = False\<rparr>"
| save: "tk_Status work = StatusRunning \<Longrightarrow> publish dst work q = (dst', q') \<Longrightarrow>
     qstep \<lparr>qs_q = q, qs_run = Some dst, qs_stopped = st\<rparr> \<lparr>qs_q = q', qs_run = Some dst', qs_stopped = st\<rparr>"
| settled: "err \<noteq> Some Canceled \<Longrightarrow> end_task now dst work err q = q' \<Longrightarrow>
     qstep \<lparr>qs_q = q, qs_run = Some dst, qs_stopped = st\<rparr> \<lparr>qs_q = q', qs_run = None, qs_stopped = st\<rparr>"
| interrupted: "tk_Status work = StatusRunning \<Longrightarrow> end_task now dst work (Some Canceled) q = q' \<Longrightarrow>
     qstep \<lparr>qs_q = q, qs_run = Some dst, qs_stopped = True\<rparr> \<lparr>qs_q = q', qs_run = None, qs_stopped = True\<rparr>"
| cancel: "qstep \<lparr>qs_q = q, qs_run = r, qs_stopped = st\<rparr> \<lparr>qs_q = q, qs_run = r, qs_stopped = True\<rparr>"
| medium: "qstep \<lparr>qs_q = q, qs_run = r, qs_stopped = st\<rparr> \<lparr>qs_q = q\<lparr>q_diskOK := ok\<rparr>, qs_run = r, qs_stopped = st\<rparr>"
| crash: "Open_queue keep b ok (q_disk q) = Inr q' \<Longrightarrow>
     qstep \<lparr>qs_q = q, qs_run = r, qs_stopped = st\<rparr> \<lparr>qs_q = q', qs_run = None, qs_stopped = False\<rparr>"

definition empty_queue :: "int \<Rightarrow> bool \<Rightarrow> Queue" where
  "empty_queue keep b = \<lparr>q_keepFinished = keep, q_boundary = b, q_tasks = [], q_pending = [],
     q_resuming = [], q_disk = [], q_diskOK = (\<lambda>_. True), q_flushes = 0\<rparr>"

definition qinit :: "qsys \<Rightarrow> bool" where
  "qinit s \<longleftrightarrow> (\<exists>keep b. s = \<lparr>qs_q = empty_queue keep b, qs_run = None, qs_stopped = False\<rparr>)"

subsection \<open>The invariant\<close>

text \<open>Every task is filed under its own identifier, in memory and on disk, and the task directory holds nothing but
  task files and logs.\<close>

definition good_entry :: "string \<times> disk_file \<Rightarrow> bool" where
  "good_entry e \<longleftrightarrow> (\<exists>t. e = (json_name (tk_ID t), TaskFile t)) \<or> (\<exists>i. e = (log_name i, LogFile))"

definition filed :: "Queue \<Rightarrow> bool" where
  "filed q \<longleftrightarrow> distinct (map fst (q_tasks q)) \<and> distinct (map fst (q_disk q))
     \<and> (\<forall>tid t. map_of (q_tasks q) tid = Some t \<longrightarrow> tk_ID t = tid) \<and> (\<forall>e \<in> set (q_disk q). good_entry e)"

text \<open>As long as no file operation fails, memory and disk agree.\<close>

definition disk_agrees :: "Queue \<Rightarrow> bool" where
  "disk_agrees q \<longleftrightarrow>
     (\<forall>tid t. map_of (q_tasks q) tid = Some t \<longleftrightarrow> map_of (q_disk q) (json_name tid) = Some (TaskFile t))"

definition steady_step :: "qsys \<Rightarrow> qsys \<Rightarrow> bool" where
  "steady_step s s' \<longleftrightarrow> qstep s s' \<and> q_diskOK (qs_q s') = (\<lambda>_. True)"

text \<open>Whoever waits is pending and waits once; whoever is pending waits; whoever is running is
  the one the worker runs, unless a cancellation interrupted it.\<close>

definition waiting :: "Queue \<Rightarrow> string list" where
  "waiting q = q_resuming q @ q_pending q"

definition scheduled :: "qsys \<Rightarrow> bool" where
  "scheduled s \<longleftrightarrow> (let q = qs_q s in
     distinct (waiting q)
     \<and> (\<forall>tid. tid \<in> set (waiting q) \<longleftrightarrow> (\<exists>t. map_of (q_tasks q) tid = Some t \<and> tk_Status t = StatusPending))
     \<and> (\<forall>tid t. map_of (q_tasks q) tid = Some t \<and> tk_Status t = StatusRunning \<longrightarrow> qs_run s = Some t \<or> qs_stopped s)
     \<and> (\<forall>t. qs_run s = Some t \<longrightarrow> map_of (q_tasks q) (tk_ID t) = Some t \<and> tk_Status t = StatusRunning)
     \<and> length (q_pending q) \<le> pendingCapacity)"

definition qinv :: "qsys \<Rightarrow> bool" where
  "qinv s \<longleftrightarrow> filed (qs_q s) \<and> scheduled s"

end
