(* ===== verification/Queue_Invariant.thy ===== *)
theory Queue_Invariant
  imports Queue
begin

text \<open>
  The invariant of the task queue: \<open>qinv\<close> holds in every state the system reaches, whatever
  the interleaving of creations, worker steps, cancellations, failing writes and crashes. From it: no active
  task is ever orphaned, and opening the queue again finds every one of them.
\<close>

subsection \<open>File names\<close>

lemma json_name_inj [simp]: "json_name a = json_name b \<longleftrightarrow> a = b" by simp

lemma json_log_neq [simp]: "json_name a \<noteq> log_name b"
proof
  assume "json_name a = log_name b"
  then have "last (json_name a) = last (log_name b)" by simp
  then show False by simp
qed

lemma json_name_suffix [simp]: "suffix ''.json'' (json_name a)"
  by (simp add: suffix_def)

lemma log_name_suffix [simp]: "\<not> suffix ''.json'' (log_name a)"
  using json_log_neq by (metis suffix_def)

subsection \<open>Storing a task\<close>

text \<open>The pair of writes every section performs: the map entry, then the file.\<close>

definition store_task :: "Task \<Rightarrow> Queue \<Rightarrow> Queue" where
  "store_task t q = persist t (q\<lparr>q_tasks := map_put (tk_ID t) t (q_tasks q)\<rparr>)"

lemma store_task_simps [simp]:
  "map_of (q_tasks (store_task t q)) = (map_of (q_tasks q))(tk_ID t \<mapsto> t)"
  "q_pending (store_task t q) = q_pending q" "q_resuming (store_task t q) = q_resuming q"
  "q_diskOK (store_task t q) = q_diskOK q" "q_keepFinished (store_task t q) = q_keepFinished q"
  by (simp_all add: store_task_def persist_def)

lemma good_put: "\<forall>e \<in> set m. good_entry e \<Longrightarrow> good_entry (k, v) \<Longrightarrow> \<forall>e \<in> set (map_put k v m). good_entry e"
  by (induction m) (auto split: if_splits)

lemma good_del: "\<forall>e \<in> set m. good_entry e \<Longrightarrow> \<forall>e \<in> set (map_del k m). good_entry e"
  by (simp add: map_del_def)

lemma good_names [simp]: "good_entry (json_name (tk_ID t), TaskFile t)" "good_entry (log_name i, LogFile)"
  by (auto simp: good_entry_def)

lemma filed_persist: "filed q \<Longrightarrow> filed (persist t q)"
  using good_put [of "q_disk q" "json_name (tk_ID t)" "TaskFile t"] by (auto simp: filed_def persist_def distinct_put)

lemma filed_store: "filed q \<Longrightarrow> filed (store_task t q)"
  unfolding store_task_def by (rule filed_persist) (auto simp: filed_def distinct_put)

lemma filed_taskLogger: "filed q \<Longrightarrow> filed (taskLogger t q)"
  using good_put [of "q_disk q" "log_name (tk_ID t)" LogFile] by (auto simp: filed_def taskLogger_def distinct_put)

text \<open>The same for a disk that takes every write.\<close>

abbreviation healthy :: "Queue \<Rightarrow> bool" where
  "healthy q \<equiv> q_diskOK q = (\<lambda>_. True)"

lemma agrees_store: "healthy q \<Longrightarrow> disk_agrees q \<Longrightarrow> disk_agrees (store_task t q)"
  by (auto simp: disk_agrees_def store_task_def persist_def)

lemma agrees_taskLogger: "disk_agrees q \<Longrightarrow> disk_agrees (taskLogger t q)"
  using json_log_neq by (fastforce simp: disk_agrees_def taskLogger_def)

lemma agrees_atBoundary [simp]: "disk_agrees (atBoundary q) = disk_agrees q" "q_diskOK (atBoundary q) = q_diskOK q"
  by (simp_all add: disk_agrees_def atBoundary_def)

lemma taskLogger_simps [simp]:
  "q_tasks (taskLogger t q) = q_tasks q" "q_pending (taskLogger t q) = q_pending q"
  "q_resuming (taskLogger t q) = q_resuming q"
  "q_diskOK (taskLogger t q) = q_diskOK q"
  by (simp_all add: taskLogger_def)

lemma atBoundary_simps [simp]:
  "q_tasks (atBoundary q) = q_tasks q" "q_pending (atBoundary q) = q_pending q"
  "q_resuming (atBoundary q) = q_resuming q" "filed (atBoundary q) = filed q"
  by (simp_all add: atBoundary_def filed_def)

definition published :: "Task \<Rightarrow> Task \<Rightarrow> Task" where
  "published dst src = dst\<lparr>tk_Status := tk_Status src, tk_Error := tk_Error src, tk_Finished := tk_Finished src,
     tk_Items := tk_Items src, tk_ChartDependencies := tk_ChartDependencies src,
     tk_Resolutions := tk_Resolutions src\<rparr>"

lemma published_simps [simp]:
  "tk_ID (published dst src) = tk_ID dst" "tk_Status (published dst src) = tk_Status src"
  "tk_Pruned (published dst src) = tk_Pruned dst" "tk_Created (published dst src) = tk_Created dst"
  by (simp_all add: published_def)

lemma publish_store:
  "map_of (q_tasks q) (tk_ID dst) \<noteq> None \<Longrightarrow> publish dst src q = (published dst src, store_task (published dst src) q)"
  by (auto simp: publish_def published_def store_task_def Let_def)

lemma begin_task_store:
  "begin_task now tid q = Some (t, q') \<longleftrightarrow>
     (\<exists>t0. map_of (q_tasks q) tid = Some t0 \<and> t = t0\<lparr>tk_Status := StatusRunning, tk_Started := now\<rparr>
        \<and> q' = taskLogger t (persist t (q\<lparr>q_tasks := map_put tid t (q_tasks q)\<rparr>)))"
  by (auto simp: begin_task_def Let_def split: option.splits)

lemma settle_status: "tk_Status (settle now te work) \<in> {StatusDone, StatusFailed}"
  by (simp add: settle_def Let_def)

subsection \<open>Retention\<close>

lemma purge_one_simps [simp]:
  "map_of (q_tasks (purge_one q t)) = (map_of (q_tasks q))(tk_ID t := None)"
  "q_pending (purge_one q t) = q_pending q" "q_resuming (purge_one q t) = q_resuming q"
  "q_diskOK (purge_one q t) = q_diskOK q" "q_keepFinished (purge_one q t) = q_keepFinished q"
  by (simp_all add: purge_one_def remove_file_def)

lemma filed_remove: "filed q \<Longrightarrow> filed (remove_file name q)"
  using good_del [of "q_disk q" name] by (auto simp: filed_def remove_file_def distinct_del)

lemma filed_purge_one: "filed q \<Longrightarrow> filed (purge_one q t)"
  unfolding purge_one_def by (intro filed_remove) (auto simp: filed_def distinct_del split: if_splits)

lemma agrees_purge_one: "healthy q \<Longrightarrow> disk_agrees q \<Longrightarrow> disk_agrees (purge_one q t)"
  using json_log_neq by (auto simp: disk_agrees_def purge_one_def remove_file_def)

lemma purge_fold:
  "map_of (q_tasks (foldl purge_one q ts)) tid = (if tid \<in> tk_ID ` set ts then None else map_of (q_tasks q) tid)"
  "q_pending (foldl purge_one q ts) = q_pending q" "q_resuming (foldl purge_one q ts) = q_resuming q"
  "q_keepFinished (foldl purge_one q ts) = q_keepFinished q"
  "filed q \<Longrightarrow> filed (foldl purge_one q ts)" "q_diskOK (foldl purge_one q ts) = q_diskOK q"
  "healthy q \<Longrightarrow> disk_agrees q \<Longrightarrow> disk_agrees (foldl purge_one q ts)"
  by (induction ts arbitrary: q) (auto simp: filed_purge_one agrees_purge_one)

lemma filed_purge: "filed q \<Longrightarrow> filed (purgeFinished q)"
  by (simp add: purgeFinished_def Let_def purge_fold)

lemma agrees_purge: "healthy q \<Longrightarrow> disk_agrees q \<Longrightarrow> disk_agrees (purgeFinished q)"
  and purge_diskOK [simp]: "q_diskOK (purgeFinished q) = q_diskOK q"
  by (simp_all add: purgeFinished_def Let_def purge_fold)

lemma purge_waiting [simp]:
  "q_pending (purgeFinished q) = q_pending q" "q_resuming (purgeFinished q) = q_resuming q"
  "waiting (purgeFinished q) = waiting q"
  by (simp_all add: purgeFinished_def Let_def purge_fold waiting_def)

lemma finished_tasks_iff:
  assumes "filed q"
  shows "t \<in> set (finished_tasks q) \<longleftrightarrow> map_of (q_tasks q) (tk_ID t) = Some t \<and> \<not> Active t"
proof -
  have "t \<in> snd ` set (q_tasks q) \<longleftrightarrow> map_of (q_tasks q) (tk_ID t) = Some t"
  proof
    assume "t \<in> snd ` set (q_tasks q)"
    then obtain k where "(k, t) \<in> set (q_tasks q)" by auto
    then have "map_of (q_tasks q) k = Some t" using assms by (simp add: filed_def)
    moreover from this have "tk_ID t = k" using assms by (simp add: filed_def)
    ultimately show "map_of (q_tasks q) (tk_ID t) = Some t" by simp
  next
    assume "map_of (q_tasks q) (tk_ID t) = Some t"
    then have "(tk_ID t, t) \<in> set (q_tasks q)" by (rule map_of_SomeD)
    then show "t \<in> snd ` set (q_tasks q)" by force
  qed
  then show ?thesis by (auto simp: finished_tasks_def)
qed

lemma purge_map:
  assumes "filed q"
  shows "map_of (q_tasks (purgeFinished q)) tid = Some t \<Longrightarrow> map_of (q_tasks q) tid = Some t"
    and "map_of (q_tasks q) tid = Some t \<Longrightarrow> Active t \<Longrightarrow> map_of (q_tasks (purgeFinished q)) tid = Some t"
proof -
  show "map_of (q_tasks (purgeFinished q)) tid = Some t \<Longrightarrow> map_of (q_tasks q) tid = Some t"
    by (auto simp: purgeFinished_def Let_def purge_fold split: if_splits)
  assume t: "map_of (q_tasks q) tid = Some t" "Active t"
  have "tid \<notin> tk_ID ` set (drop n (sort_key (\<lambda>t. - tk_Created t) (finished_tasks q)))" for n
  proof
    assume "tid \<in> tk_ID ` set (drop n (sort_key (\<lambda>t. - tk_Created t) (finished_tasks q)))"
    then obtain t' where "tid = tk_ID t'" "t' \<in> set (finished_tasks q)"
      by (auto dest: in_set_dropD)
    with t finished_tasks_iff [OF assms, of t'] show False by auto
  qed
  with t show "map_of (q_tasks (purgeFinished q)) tid = Some t"
    by (simp add: purgeFinished_def Let_def purge_fold)
qed

lemma scheduled_purge:
  assumes "filed q" and "scheduled \<lparr>qs_q = q, qs_run = r, qs_stopped = st\<rparr>"
  shows "scheduled \<lparr>qs_q = purgeFinished q, qs_run = r, qs_stopped = st\<rparr>"
proof -
  note m = purge_map [OF assms(1)]
  have "map_of (q_tasks (purgeFinished q)) tid = Some t \<and> Active t \<longleftrightarrow> map_of (q_tasks q) tid = Some t \<and> Active t" for tid t
    using m by blast
  then have "map_of (q_tasks (purgeFinished q)) tid = Some t \<and> tk_Status t = s \<longleftrightarrow> map_of (q_tasks q) tid = Some t \<and> tk_Status t = s"
    if "s \<in> {StatusPending, StatusRunning}" for tid t s
    using that by (auto simp: Active_def)
  then have "map_of (q_tasks (purgeFinished q)) tid = Some t \<and> tk_Status t = StatusPending \<longleftrightarrow>
        map_of (q_tasks q) tid = Some t \<and> tk_Status t = StatusPending"
    and "map_of (q_tasks (purgeFinished q)) tid = Some t \<and> tk_Status t = StatusRunning \<longleftrightarrow>
        map_of (q_tasks q) tid = Some t \<and> tk_Status t = StatusRunning" for tid t by simp_all
  with assms(2) show ?thesis unfolding scheduled_def Let_def by (simp add: conj_ac) blast
qed

subsection \<open>Opening\<close>

definition resume :: "Task \<Rightarrow> Task" where
  "resume t = (if Active t then t\<lparr>tk_Status := StatusPending, tk_Resumed := True\<rparr> else t)"

lemma resume_simps [simp]: "tk_ID (resume t) = tk_ID t" "Active (resume t) = Active t"
  "tk_Created (resume t) = tk_Created t"
  by (simp_all add: resume_def Active_def)

lemma open_entries_good:
  assumes "list_all good_entry es" and "distinct (map fst es)" and "distinct (map fst ts)"
  shows "\<exists>found tasks. open_entries es res ts = Inr (res @ found, tasks) \<and> distinct found
    \<and> distinct (map fst tasks)
    \<and> (\<forall>tid. tid \<in> set found \<longleftrightarrow> (\<exists>t. map_of es (json_name tid) = Some (TaskFile t) \<and> Active t))
    \<and> (\<forall>tid. map_of tasks tid = (case map_of es (json_name tid) of
          Some (TaskFile t) \<Rightarrow> Some (resume t) | _ \<Rightarrow> map_of ts tid))"
  using assms
proof (induction es arbitrary: res ts)
  case Nil
  then show ?case by simp
next
  case (Cons e es)
  from Cons.prems(1) consider (task) t where "e = (json_name (tk_ID t), TaskFile t)"
    | (log) i where "e = (log_name i, LogFile)" by (auto simp: good_entry_def)
  then show ?case
  proof cases
    case task
    let ?ts = "map_put (tk_ID t) (resume t) ts"
    let ?res = "if Active t then res @ [tk_ID t] else res"
    have step: "open_entries (e # es) res ts = open_entries es ?res ?ts"
      using task by (simp add: resume_def)
    have none: "map_of es (json_name (tk_ID t)) = None"
      using Cons.prems(2) task by (simp add: map_of_eq_None_iff)
    obtain found tasks where ih: "open_entries es ?res ?ts = Inr (?res @ found, tasks)" "distinct found"
      "distinct (map fst tasks)"
      "\<forall>tid. tid \<in> set found \<longleftrightarrow> (\<exists>t. map_of es (json_name tid) = Some (TaskFile t) \<and> Active t)"
      "\<forall>tid. map_of tasks tid = (case map_of es (json_name tid) of
          Some (TaskFile t) \<Rightarrow> Some (resume t) | _ \<Rightarrow> map_of ?ts tid)"
      using Cons.IH [of ?ts ?res] Cons.prems distinct_put by force
    let ?found = "if Active t then tk_ID t # found else found"
    have "open_entries (e # es) res ts = Inr (res @ ?found, tasks)" using ih(1) step by simp
    moreover have "distinct ?found" using ih(2,4) none by simp
    moreover have "\<forall>tid. tid \<in> set ?found \<longleftrightarrow>
        (\<exists>t. map_of (e # es) (json_name tid) = Some (TaskFile t) \<and> Active t)"
      using ih(4) none task by auto
    moreover have "\<forall>tid. map_of tasks tid = (case map_of (e # es) (json_name tid) of
          Some (TaskFile t) \<Rightarrow> Some (resume t) | _ \<Rightarrow> map_of ts tid)"
      using ih(5) none task by (auto split: option.splits disk_file.splits)
    ultimately show ?thesis using ih(3) by blast
  next
    case log
    then have step: "open_entries (e # es) res ts = open_entries es res ts" by simp
    have "map_of (e # es) (json_name tid) = map_of es (json_name tid)" for tid
      using log json_log_neq by simp
    with Cons.IH [of ts res] Cons.prems step show ?thesis by simp
  qed
qed

lemma persist_id_simps [simp]:
  "q_tasks (persist_id q i) = q_tasks q" "q_pending (persist_id q i) = q_pending q" "q_resuming (persist_id q i) = q_resuming q"
  "q_keepFinished (persist_id q i) = q_keepFinished q" "q_diskOK (persist_id q i) = q_diskOK q"
  by (simp_all add: persist_id_def persist_def split: option.split)

lemma filed_persist_id: "filed q \<Longrightarrow> filed (persist_id q i)"
  by (simp add: persist_id_def filed_persist split: option.split)

lemma persist_id_fold:
  "q_tasks (foldl persist_id q ids) = q_tasks q" "q_pending (foldl persist_id q ids) = q_pending q"
  "q_keepFinished (foldl persist_id q ids) = q_keepFinished q" "q_diskOK (foldl persist_id q ids) = q_diskOK q"
  "filed q \<Longrightarrow> filed (foldl persist_id q ids)"
  by (induction ids arbitrary: q) (simp_all add: filed_persist_id)

text \<open>A healthy disk holds the tasks named as they are in memory, and what it held of the others.\<close>

lemma persist_id_disk:
  assumes "healthy q" "\<And>i t. map_of (q_tasks q) i = Some t \<Longrightarrow> tk_ID t = i" "\<forall>i \<in> set ids. map_of (q_tasks q) i \<noteq> None"
  shows "map_of (q_disk (foldl persist_id q ids)) (json_name i) =
    (if i \<in> set ids then map_option TaskFile (map_of (q_tasks q) i) else map_of (q_disk q) (json_name i))"
  using assms
proof (induction ids arbitrary: q)
  case (Cons a ids)
  obtain t where t: "map_of (q_tasks q) a = Some t" "tk_ID t = a" using Cons.prems by auto
  then have "map_of (q_disk (persist_id q a)) (json_name i) = (if i = a then Some (TaskFile t) else map_of (q_disk q) (json_name i))"
    using Cons.prems(1) by (simp add: persist_id_def persist_def)
  then show ?case using Cons.IH [of "persist_id q a"] Cons.prems t by (auto split: if_splits)
qed simp

lemma filed_entries: "filed q \<Longrightarrow> list_all good_entry (sort_key fst (q_disk q))"
  by (simp add: filed_def list_all_iff)

lemma map_of_sorted: "distinct (map fst m) \<Longrightarrow> map_of (sort_key f m) = map_of m"
proof -
  assume d: "distinct (map fst m)"
  have "mset (map fst (sort_key f m)) = mset (map fst m)" by simp
  then have "distinct (map fst (sort_key f m))" using d by (metis mset_eq_imp_distinct_iff)
  then show ?thesis using d by (simp add: map_of_inject_set)
qed

text \<open>Opening a well-filed directory succeeds, files the tasks it found, and puts exactly the active ones in the
  backlog, oldest first. What it finds is what the disk holds, whatever memory held.\<close>

lemma Open_filed:
  assumes "filed q"
  shows "\<exists>q0 ids. Open_queue keep b ok (q_disk q) = Inr (purgeFinished q0) \<and> filed q0
    \<and> (\<forall>tid t. map_of (q_tasks q0) tid = Some t \<longleftrightarrow> (\<exists>u. map_of (q_disk q) (json_name tid) = Some (TaskFile u) \<and> t = resume u))
    \<and> q_resuming q0 = ids \<and> q_pending q0 = [] \<and> distinct ids
    \<and> (\<forall>tid. tid \<in> set ids \<longleftrightarrow> (\<exists>t. map_of (q_disk q) (json_name tid) = Some (TaskFile t) \<and> Active t))
    \<and> sorted (map (created_of (q_tasks q0)) ids) \<and> q_keepFinished q0 = keep \<and> q_diskOK q0 = ok \<and> (ok = (\<lambda>_. True) \<longrightarrow> disk_agrees q0)"
proof -
  let ?es = "sort_key fst (q_disk q)"
  have d: "distinct (map fst (q_disk q))" "\<forall>e \<in> set (q_disk q). good_entry e" using assms by (simp_all add: filed_def)
  have m: "map_of ?es = map_of (q_disk q)" by (rule map_of_sorted [OF d(1)])
  have "mset (map fst ?es) = mset (map fst (q_disk q))" by simp
  then have "distinct (map fst ?es)" using d by (metis mset_eq_imp_distinct_iff)
  with open_entries_good [OF filed_entries [OF assms], of "[]" "[]"] obtain found tasks where
    o: "open_entries ?es [] [] = Inr (found, tasks)" "distinct found" "distinct (map fst tasks)"
      "\<forall>tid. tid \<in> set found \<longleftrightarrow> (\<exists>t. map_of (q_disk q) (json_name tid) = Some (TaskFile t) \<and> Active t)"
      "\<forall>tid. map_of tasks tid = (case map_of (q_disk q) (json_name tid) of
          Some (TaskFile t) \<Rightarrow> Some (resume t) | _ \<Rightarrow> map_of [] tid)"
    by (auto simp: m)
  have tasks: "map_of tasks tid = Some t \<longleftrightarrow> (\<exists>u. map_of (q_disk q) (json_name tid) = Some (TaskFile u) \<and> t = resume u)" for tid t
    using o(5) by (auto split: option.splits disk_file.splits)
  have named: "tk_ID u = tid" if "map_of (q_disk q) (json_name tid) = Some (TaskFile u)" for tid u
    using d(2) map_of_SomeD [OF that] by (auto simp: good_entry_def)
  have ids: "map_of tasks tid = Some t \<Longrightarrow> tk_ID t = tid" for tid t using tasks named by auto
  define q1 where "q1 = \<lparr>q_keepFinished = keep, q_boundary = b, q_tasks = tasks, q_pending = [],
      q_resuming = [], q_disk = q_disk q, q_diskOK = ok, q_flushes = 0\<rparr>"
  let ?ids = "sort_key (created_of tasks) found"
  define q0 where "q0 = (foldl persist_id q1 ?ids)\<lparr>q_resuming := ?ids\<rparr>"
  have "filed q1" using d o(3) ids by (simp add: q1_def filed_def del: map_of_eq_Some_iff)
  then have f: "filed q0" using persist_id_fold(5) [of q1] by (simp add: q0_def filed_def)
  have q0: "q_tasks q0 = tasks" "q_pending q0 = []" "q_keepFinished q0 = keep" "q_diskOK q0 = ok" "q_resuming q0 = ?ids"
    by (simp_all add: q0_def persist_id_fold q1_def)
  have "disk_agrees q0" if "ok = (\<lambda>_. True)"
  proof -
    have found: "\<forall>i \<in> set ?ids. map_of (q_tasks q1) i \<noteq> None" using o(4) tasks by (auto simp: q1_def)
    have "map_of (q_disk q0) (json_name i) = (if i \<in> set found then map_option TaskFile (map_of tasks i) else map_of (q_disk q) (json_name i))" for i
      using persist_id_disk [OF _ _ found, of i] ids that by (simp add: q0_def q1_def del: map_of_eq_Some_iff)
    then show ?thesis using tasks o(4) q0(1) unfolding disk_agrees_def by (fastforce simp: resume_def)
  qed
  moreover have "Open_queue keep b ok (q_disk q) = Inr (purgeFinished q0)" using o(1) by (simp add: Open_queue_def q0_def q1_def Let_def)
  ultimately show ?thesis using tasks o(2,4) q0 f by (intro exI [of _ q0] exI [of _ ?ids]) simp
qed

subsection \<open>Every step keeps the invariant\<close>

lemma new_task_simps [simp]:
  "tk_ID (new_task tid rid now ty ref actor items opts) = tid"
  "tk_Status (new_task tid rid now ty ref actor items opts) = StatusPending"
proof -
  have "tk_ID (foldl (\<lambda>t opt. apply_option opt t) t opts) = tk_ID t
      \<and> tk_Status (foldl (\<lambda>t opt. apply_option opt t) t opts) = tk_Status t" for t
  proof (induction opts arbitrary: t)
    case (Cons opt opts)
    have "tk_ID (apply_option opt t) = tk_ID t \<and> tk_Status (apply_option opt t) = tk_Status t"
      by (cases opt) (simp_all add: WithMediaOverrides_def)
    with Cons show ?case by simp
  qed simp
  then show "tk_ID (new_task tid rid now ty ref actor items opts) = tid"
    "tk_Status (new_task tid rid now ty ref actor items opts) = StatusPending"
    by (simp_all add: new_task_def)
qed

lemma Create_cases:
  assumes "Create tid rid now ty ref actor items opts q = (res, q')"
  obtains (full) "res = Inl QueueFull" "q' = q" "length (q_pending q) \<ge> pendingCapacity"
  | (taken) t where "res = Inr t" "t = new_task tid rid now ty ref actor items opts"
      "length (q_pending q) < pendingCapacity"
      "q' = purgeFinished (store_task t (q\<lparr>q_pending := q_pending q @ [tid]\<rparr>))"
  using assms
  by (auto simp: Create_def Let_def store_task_def split: if_splits)

lemma filed_fields:
  "filed (q\<lparr>q_pending := p\<rparr>) = filed q" "filed (q\<lparr>q_resuming := r\<rparr>) = filed q" "filed (q\<lparr>q_diskOK := ok\<rparr>) = filed q"
  by (simp_all add: filed_def)

lemma create_keeps:
  assumes "qinv \<lparr>qs_q = q, qs_run = r, qs_stopped = st\<rparr>" and "fresh tid q"
    and "Create tid rid now ty ref actor items opts q = (res, q')"
  shows "qinv \<lparr>qs_q = q', qs_run = r, qs_stopped = st\<rparr>"
  using assms(3)
proof (cases rule: Create_cases)
  case full
  with assms(1) show ?thesis by simp
next
  case (taken t)
  let ?q = "store_task t (q\<lparr>q_pending := q_pending q @ [tid]\<rparr>)"
  have id: "tk_ID t = tid" "tk_Status t = StatusPending" using taken by simp_all
  have f: "filed ?q" using assms(1) by (simp add: qinv_def filed_store filed_fields)
  have "scheduled \<lparr>qs_q = ?q, qs_run = r, qs_stopped = st\<rparr>"
    using assms(1,2) id taken(3)
    unfolding qinv_def scheduled_def Let_def waiting_def fresh_def by auto
  with f taken(4) show ?thesis by (simp add: qinv_def filed_purge scheduled_purge)
qed

lemma take_next_cases:
  assumes "take_next q = Some (tid, q1)"
  shows "waiting q = tid # waiting q1" and "q_tasks q1 = q_tasks q" and "filed q1 = filed q"
    and "length (q_pending q1) \<le> length (q_pending q)"
  using assms
  by (auto simp: take_next_def nextResuming_def waiting_def filed_fields split: option.splits list.splits)

lemma begin_keeps:
  assumes inv: "qinv \<lparr>qs_q = q, qs_run = None, qs_stopped = False\<rparr>"
    and n: "take_next q = Some (tid, q1)" and b: "begin_task now tid q1 = Some (t, q2)"
  shows "qinv \<lparr>qs_q = q2, qs_run = Some t, qs_stopped = False\<rparr>"
proof -
  note tn = take_next_cases [OF n]
  from b tn(2) obtain t0 where t0: "map_of (q_tasks q) tid = Some t0"
    "t = t0\<lparr>tk_Status := StatusRunning, tk_Started := now\<rparr>"
    "q2 = taskLogger t (persist t (q1\<lparr>q_tasks := map_put tid t (q_tasks q1)\<rparr>))"
    by (auto simp: begin_task_store)
  have id: "tk_ID t = tid" using inv t0 by (simp add: qinv_def filed_def)
  then have q2: "q2 = taskLogger t (store_task t q1)" using t0(3) by (simp add: store_task_def)
  have f: "filed q2" using inv q2 tn(3) by (simp add: qinv_def filed_store filed_taskLogger)
  have w: "waiting q2 = waiting q1" "map_of (q_tasks q2) = (map_of (q_tasks q))(tid \<mapsto> t)"
    "length (q_pending q2) \<le> length (q_pending q)"
    using q2 id tn by (simp_all add: waiting_def)
  have "scheduled \<lparr>qs_q = q2, qs_run = Some t, qs_stopped = False\<rparr>"
    using inv tn(1) w id t0(2) unfolding qinv_def scheduled_def Let_def by auto
  with f show ?thesis by (simp add: qinv_def)
qed

lemma publish_keeps:
  assumes inv: "qinv \<lparr>qs_q = q, qs_run = Some dst, qs_stopped = st\<rparr>"
    and p: "publish dst work q = (dst', q')"
  shows "tk_Status work = StatusRunning \<Longrightarrow> qinv \<lparr>qs_q = q', qs_run = Some dst', qs_stopped = st\<rparr>"
    and "tk_Status work = StatusRunning \<Longrightarrow> st \<Longrightarrow> qinv \<lparr>qs_q = q', qs_run = None, qs_stopped = st\<rparr>"
    and "\<not> Active work \<Longrightarrow> qinv \<lparr>qs_q = q', qs_run = None, qs_stopped = st\<rparr>"
proof -
  have m: "map_of (q_tasks q) (tk_ID dst) = Some dst" using inv by (simp add: qinv_def scheduled_def Let_def)
  then have s: "dst' = published dst work" "q' = store_task (published dst work) q"
    using p publish_store [of q dst work] by auto
  have f: "filed q'" using inv s by (simp add: qinv_def filed_store)
  have w: "waiting q' = waiting q" "q_pending q' = q_pending q"
    "map_of (q_tasks q') = (map_of (q_tasks q))(tk_ID dst \<mapsto> dst')"
    using s by (simp_all add: waiting_def)
  have st: "tk_Status dst' = tk_Status work" "tk_ID dst' = tk_ID dst" using s by simp_all
  have ids: "map_of (q_tasks q) tid = Some t \<Longrightarrow> tk_ID t = tid" for tid t
    using inv by (simp add: qinv_def filed_def)
  have sch: "distinct (waiting q)" "length (q_pending q) \<le> pendingCapacity" "tk_Status dst = StatusRunning"
    "\<forall>tid. tid \<in> set (waiting q) \<longleftrightarrow> (\<exists>t. map_of (q_tasks q) tid = Some t \<and> tk_Status t = StatusPending)"
    "\<forall>tid t. map_of (q_tasks q) tid = Some t \<and> tk_Status t = StatusRunning \<longrightarrow> dst = t \<or> st"
    using inv unfolding qinv_def scheduled_def Let_def by (simp_all del: map_of_eq_Some_iff) blast
  have pend: "(\<exists>t. map_of (q_tasks q') tid = Some t \<and> tk_Status t = StatusPending) \<longleftrightarrow> tid \<in> set (waiting q)"
    if "tk_Status work \<noteq> StatusPending" for tid
    using that m sch(3,4) st w(3) by (cases "tid = tk_ID dst") auto
  have run: "t = dst' \<or> st" if "map_of (q_tasks q') tid = Some t" "tk_Status t = StatusRunning" for tid t
    using that w(3) sch(5) ids by (cases "tid = tk_ID dst") auto
  have here: "map_of (q_tasks q') (tk_ID dst') = Some dst'" using w(3) st by simp
  show "qinv \<lparr>qs_q = q', qs_run = Some dst', qs_stopped = st\<rparr>" if "tk_Status work = StatusRunning"
    using f w(1,2) sch(1,2) pend run here st that
    unfolding qinv_def scheduled_def Let_def by (simp del: map_of_eq_Some_iff) blast
  show "qinv \<lparr>qs_q = q', qs_run = None, qs_stopped = st\<rparr>" if "tk_Status work = StatusRunning" st
    using f w(1,2) sch(1,2) pend that
    unfolding qinv_def scheduled_def Let_def by (simp del: map_of_eq_Some_iff)
  show "qinv \<lparr>qs_q = q', qs_run = None, qs_stopped = st\<rparr>" if "\<not> Active work"
  proof -
    have "tk_Status work \<noteq> StatusPending" "tk_Status dst' \<noteq> StatusRunning"
      using that st by (auto simp: Active_def)
    then show ?thesis using f w(1,2) sch(1,2) pend run
      unfolding qinv_def scheduled_def Let_def by (simp del: map_of_eq_Some_iff) blast
  qed
qed

lemma end_task_settles:
  assumes "err \<noteq> Some Canceled"
  obtains te where "end_task now dst work err q = atBoundary (finish now dst work te q)"
proof (cases err)
  case (Some a)
  with assms that show ?thesis by (cases a) (auto simp: end_task_def)
qed (auto simp: end_task_def intro: that)

lemma settled_keeps:
  assumes "qinv \<lparr>qs_q = q, qs_run = Some dst, qs_stopped = st\<rparr>" and "err \<noteq> Some Canceled"
  shows "qinv \<lparr>qs_q = end_task now dst work err q, qs_run = None, qs_stopped = st\<rparr>"
proof -
  obtain te where e: "end_task now dst work err q = atBoundary (finish now dst work te q)"
    using assms(2) by (rule end_task_settles)
  obtain dst' q' where p: "publish dst (settle now te work) q = (dst', q')" by fastforce
  have "\<not> Active (settle now te work)" using settle_status [of now te work] by (auto simp: Active_def)
  then have "qinv \<lparr>qs_q = q', qs_run = None, qs_stopped = st\<rparr>" by (rule publish_keeps(3) [OF assms(1) p])
  then show ?thesis using e p by (simp add: finish_def qinv_def scheduled_def waiting_def)
qed

lemma interrupted_keeps:
  assumes "qinv \<lparr>qs_q = q, qs_run = Some dst, qs_stopped = True\<rparr>" and "tk_Status work = StatusRunning"
  shows "qinv \<lparr>qs_q = end_task now dst work (Some Canceled) q, qs_run = None, qs_stopped = True\<rparr>"
proof -
  obtain dst' q' where p: "publish dst work q = (dst', q')" by fastforce
  have "qinv \<lparr>qs_q = q', qs_run = None, qs_stopped = True\<rparr>"
    using publish_keeps(2) [OF assms(1) p assms(2)] by simp
  then show ?thesis using p by (simp add: end_task_def qinv_def scheduled_def waiting_def)
qed

lemma iterate_keeps:
  assumes "qinv \<lparr>qs_q = q, qs_run = r, qs_stopped = st\<rparr>" and "mset ts = mset (q_tasks q)"
  shows "qinv \<lparr>qs_q = q\<lparr>q_tasks := ts\<rparr>, qs_run = r, qs_stopped = st\<rparr>"
proof -
  have d: "distinct (map fst (q_tasks q))" using assms(1) by (simp add: qinv_def filed_def)
  have "mset (map fst ts) = mset (map fst (q_tasks q))" using assms(2) by simp
  then have d': "distinct (map fst ts)" using d by (metis mset_eq_imp_distinct_iff)
  have "map_of ts = map_of (q_tasks q)"
    using d d' assms(2) by (simp add: map_of_inject_set) (metis set_mset_mset)
  then have "filed (q\<lparr>q_tasks := ts\<rparr>)" "scheduled \<lparr>qs_q = q\<lparr>q_tasks := ts\<rparr>, qs_run = r, qs_stopped = st\<rparr> =
      scheduled \<lparr>qs_q = q, qs_run = r, qs_stopped = st\<rparr>"
    using assms(1) d' by (simp_all add: qinv_def filed_def scheduled_def waiting_def Let_def
        del: map_of_eq_Some_iff)
  with assms(1) show ?thesis by (simp add: qinv_def)
qed

lemma resume_status [simp]: "tk_Status (resume t) = StatusPending \<longleftrightarrow> Active t" "tk_Status (resume t) \<noteq> StatusRunning"
  by (auto simp: resume_def Active_def)

lemma crash_keeps:
  assumes "qinv s" and "Open_queue keep b ok (q_disk (qs_q s)) = Inr q'"
  shows "qinv \<lparr>qs_q = q', qs_run = None, qs_stopped = False\<rparr>" and "ok = (\<lambda>_. True) \<Longrightarrow> disk_agrees q'"
proof -
  let ?q = "qs_q s"
  have "filed ?q" using assms(1) by (simp add: qinv_def)
  from Open_filed [OF this, of keep b ok] assms(2) obtain q0 ids where o:
    "q' = purgeFinished q0" "filed q0" "\<forall>tid t. map_of (q_tasks q0) tid = Some t \<longleftrightarrow> (\<exists>u. map_of (q_disk ?q) (json_name tid) = Some (TaskFile u) \<and> t = resume u)"
    "q_resuming q0 = ids" "q_pending q0 = []" "distinct ids"
    "\<forall>tid. tid \<in> set ids \<longleftrightarrow> (\<exists>t. map_of (q_disk ?q) (json_name tid) = Some (TaskFile t) \<and> Active t)" "q_diskOK q0 = ok" "ok = (\<lambda>_. True) \<longrightarrow> disk_agrees q0" by auto
  have "scheduled \<lparr>qs_q = q0, qs_run = None, qs_stopped = False\<rparr>"
    using o(3-7) unfolding scheduled_def Let_def waiting_def by (auto simp del: map_of_eq_Some_iff)
  with o(1,2) show "qinv \<lparr>qs_q = q', qs_run = None, qs_stopped = False\<rparr>" by (simp add: qinv_def filed_purge scheduled_purge)
  show "disk_agrees q'" if "ok = (\<lambda>_. True)" using o(1,8,9) that agrees_purge by simp
qed

interpretation queue_inv: invariant qinit qstep qinv
proof
  fix s :: qsys
  assume "qinit s"
  then show "qinv s"
    by (auto simp: qinit_def empty_queue_def qinv_def filed_def scheduled_def waiting_def)
next
  fix s s' :: qsys
  assume inv: "qinv s" and "qstep s s'"
  from this(2) show "qinv s'"
  proof cases
    case create
    then show ?thesis using inv create_keeps by metis
  next
    case iterate
    then show ?thesis using inv iterate_keeps by metis
  next
    case begin_run
    then show ?thesis using inv begin_keeps by metis
  next
    case save
    then show ?thesis using inv publish_keeps(1) by metis
  next
    case settled
    then show ?thesis using inv settled_keeps by metis
  next
    case interrupted
    then show ?thesis using inv interrupted_keeps by metis
  next
    case cancel
    then show ?thesis using inv by (simp add: qinv_def scheduled_def)
  next
    case medium
    then show ?thesis using inv by (auto simp: qinv_def scheduled_def filed_fields waiting_def)
  next
    case crash
    then show ?thesis using inv crash_keeps(1) by force
  qed
qed

subsection \<open>A healthy disk\<close>

lemma publish_agrees:
  assumes "healthy q" "disk_agrees q" "map_of (q_tasks q) (tk_ID dst) \<noteq> None" "publish dst src q = (dst', q')"
  shows "disk_agrees q'"
  using assms publish_store [OF assms(3), of src] agrees_store by auto

lemma end_task_agrees:
  assumes "healthy q" "disk_agrees q" "map_of (q_tasks q) (tk_ID dst) \<noteq> None"
  shows "disk_agrees (end_task now dst work err q)"
proof -
  have p: "disk_agrees (snd (publish dst src q))" for src using publish_agrees [OF assms] by (metis prod.collapse)
  show ?thesis using p by (auto simp: end_task_def finish_def split: option.split run_error.split)
qed

definition qsteady :: "qsys \<Rightarrow> bool" where
  "qsteady s \<longleftrightarrow> qinv s \<and> disk_agrees (qs_q s) \<and> healthy (qs_q s)"

interpretation queue_steady: invariant qinit steady_step qsteady
proof
  fix s :: qsys
  assume "qinit s"
  then show "qsteady s" using queue_inv.inv_init by (auto simp: qsteady_def qinit_def empty_queue_def disk_agrees_def)
next
  fix s s' :: qsys
  assume inv: "qsteady s" and "steady_step s s'"
  then have step: "qstep s s'" and ok: "healthy (qs_q s')" by (simp_all add: steady_step_def)
  have "qinv s'" using inv step queue_inv.inv_step by (auto simp: qsteady_def)
  moreover from step have "disk_agrees (qs_q s')"
  proof cases
    case (create tid q rid now ty ref actor items opts res q' r st)
    from create(4) show ?thesis
    proof (cases rule: Create_cases)
      case (taken t)
      have "disk_agrees (q\<lparr>q_pending := q_pending q @ [tid]\<rparr>)" "healthy q" using inv create(1) by (simp_all add: qsteady_def disk_agrees_def)
      then show ?thesis using taken(4) create(2) by (simp add: agrees_purge agrees_store)
    qed (use inv create in \<open>simp add: qsteady_def\<close>)
  next
    case (iterate ts q r st)
    have d: "distinct (map fst (q_tasks q))" using inv iterate(1) by (simp add: qsteady_def qinv_def filed_def)
    have "mset (map fst ts) = mset (map fst (q_tasks q))" using iterate(3) by simp
    then have "distinct (map fst ts)" using d by (metis mset_eq_imp_distinct_iff)
    then have "map_of ts = map_of (q_tasks q)" using d iterate(3) by (simp add: map_of_inject_set) (metis set_mset_mset)
    then show ?thesis using inv iterate by (simp add: qsteady_def disk_agrees_def del: map_of_eq_Some_iff)
  next
    case (begin_run q tid q1 now t q2)
    note tn = take_next_cases [OF begin_run(3)]
    from begin_run(4) tn(2) obtain t0 where t0: "map_of (q_tasks q) tid = Some t0" "t = t0\<lparr>tk_Status := StatusRunning, tk_Started := now\<rparr>"
      "q2 = taskLogger t (persist t (q1\<lparr>q_tasks := map_put tid t (q_tasks q1)\<rparr>))" by (auto simp: begin_task_store)
    have "tk_ID t = tid" using inv begin_run(1) t0 by (simp add: qsteady_def qinv_def filed_def)
    then have q2: "q2 = taskLogger t (store_task t q1)" using t0(3) by (simp add: store_task_def)
    have "disk_agrees q1" "healthy q1" using inv begin_run(1,3) by (auto simp: qsteady_def disk_agrees_def take_next_def nextResuming_def split: option.splits list.splits)
    then show ?thesis using begin_run(2) q2 by (simp add: agrees_taskLogger agrees_store)
  next
    case (save work dst q dst' q' st)
    have "map_of (q_tasks q) (tk_ID dst) \<noteq> None" using inv save(1) by (simp add: qsteady_def qinv_def scheduled_def)
    then show ?thesis using inv save(1,2) publish_agrees [OF _ _ _ save(4)] by (simp add: qsteady_def)
  next
    case (settled err now dst work q q' st)
    have "map_of (q_tasks q) (tk_ID dst) \<noteq> None" using inv settled(1) by (simp add: qsteady_def qinv_def scheduled_def)
    then show ?thesis using inv settled end_task_agrees by (auto simp: qsteady_def)
  next
    case (interrupted work now dst q q')
    have "map_of (q_tasks q) (tk_ID dst) \<noteq> None" using inv interrupted(1) by (simp add: qsteady_def qinv_def scheduled_def)
    then show ?thesis using inv interrupted end_task_agrees by (auto simp: qsteady_def)
  next
    case cancel
    then show ?thesis using inv by (simp add: qsteady_def)
  next
    case medium
    then show ?thesis using inv by (simp add: qsteady_def disk_agrees_def)
  next
    case (crash keep b ok' q q' r st)
    have i: "qinv s" using inv by (simp add: qsteady_def)
    have "q_diskOK q' = ok'" using crash(3) by (auto simp: Open_queue_def Let_def persist_id_fold split: sum.splits prod.splits)
    then have "ok' = (\<lambda>_. True)" using ok crash(2) by simp
    then show ?thesis using crash_keeps(2) [OF i, of keep b ok' q'] crash by simp
  qed
  ultimately show "qsteady s'" using ok by (simp add: qsteady_def)
qed

subsection \<open>Main results\<close>

text \<open>C1: No task is ever orphaned. In every reachable state, whatever the interleaving of
  creations, worker steps, cancellations, failing writes and crashes, an active task is either waiting (pending,
  and queued exactly once) or the one the worker runs; only a cancelled context leaves a
  running task behind, for the next start.\<close>

theorem no_task_orphaned:
  assumes "reach qinit qstep s" and "map_of (q_tasks (qs_q s)) tid = Some t" and "Active t"
  shows "(tk_Status t = StatusPending \<and> count (mset (q_resuming (qs_q s) @ q_pending (qs_q s))) tid = 1)
    \<or> qs_run s = Some t \<or> qs_stopped s"
proof -
  have inv: "qinv s" using queue_inv.reach_inv assms(1) by blast
  show ?thesis
  proof (cases "tk_Status t = StatusPending")
    case True
    then have "tid \<in> set (waiting (qs_q s))" "distinct (waiting (qs_q s))"
      using inv assms(2) unfolding qinv_def scheduled_def Let_def by auto
    then have "count (mset (waiting (qs_q s))) tid = 1" by (simp add: distinct_count_atmost_1)
    then show ?thesis using True by (simp add: waiting_def)
  next
    case False
    then have "tk_Status t = StatusRunning" using assms(3) by (simp add: Active_def)
    then show ?thesis using inv assms(2) unfolding qinv_def scheduled_def Let_def by blast
  qed
qed

definition demo_created :: Queue where
  "demo_created = snd (Create ''tsk_1'' ''run'' 7 ''sync'' ''r'' ''admin'' [] [] (empty_queue 3 False))"

lemma demo_create:
  "qstep \<lparr>qs_q = empty_queue 3 False, qs_run = None, qs_stopped = False\<rparr> \<lparr>qs_q = demo_created, qs_run = None, qs_stopped = False\<rparr>"
  unfolding demo_created_def
  by (rule qstep.create [where tid = "''tsk_1''", OF _ prod.collapse [symmetric]]) (simp add: fresh_def empty_queue_def)

lemma demo_reach: "reach qinit qstep \<lparr>qs_q = demo_created, qs_run = None, qs_stopped = False\<rparr>"
proof (rule reach_step)
  show "reach qinit qstep \<lparr>qs_q = empty_queue 3 False, qs_run = None, qs_stopped = False\<rparr>"
    by (rule reach_init) (auto simp: qinit_def)
qed (rule demo_create)

lemma demo_steady: "reach qinit steady_step \<lparr>qs_q = demo_created, qs_run = None, qs_stopped = False\<rparr>"
proof (rule reach_step)
  show "reach qinit steady_step \<lparr>qs_q = empty_queue 3 False, qs_run = None, qs_stopped = False\<rparr>"
    by (rule reach_init) (auto simp: qinit_def)
  have "q_diskOK demo_created = (\<lambda>_. True)"
    by (simp add: demo_created_def Create_def empty_queue_def persist_def purgeFinished_def finished_tasks_def new_task_def Active_def Let_def)
  then show "steady_step \<lparr>qs_q = empty_queue 3 False, qs_run = None, qs_stopped = False\<rparr>
      \<lparr>qs_q = demo_created, qs_run = None, qs_stopped = False\<rparr>" using demo_create by (simp add: steady_step_def)
qed

lemma demo_task:
  "\<exists>t. map_of (q_tasks demo_created) ''tsk_1'' = Some t \<and> tk_Status t = StatusPending \<and> tk_ID t = ''tsk_1''"
  by (simp add: demo_created_def Create_def empty_queue_def persist_def purgeFinished_def finished_tasks_def
      new_task_def Active_def Let_def)

theorem no_task_orphaned_witness:
  "\<exists>t. map_of (q_tasks demo_created) ''tsk_1'' = Some t
     \<and> count (mset (q_resuming demo_created @ q_pending demo_created)) ''tsk_1'' = 1"
proof -
  obtain t where t: "map_of (q_tasks demo_created) ''tsk_1'' = Some t" "tk_Status t = StatusPending"
    using demo_task by blast
  with no_task_orphaned [OF demo_reach, of "''tsk_1''" t] show ?thesis by (simp add: Active_def)
qed

text \<open>C2: Crash safety. Whenever the process dies, opening the queue again succeeds, whatever writes failed before and
  fail now, and finds every task whose file on disk is active: it comes back pending, marked resumed, in the
  backlog the worker drains first, oldest first; finished tasks are never resumed. As long as no write or removal in
  the task directory failed, the files are exactly the tasks in memory, so no active task is lost.\<close>

theorem crash_loses_no_task:
  assumes "reach qinit qstep s"
  shows "(\<exists>q'. Open_queue keep b ok (q_disk (qs_q s)) = Inr q'
      \<and> (\<forall>tid t. map_of (q_disk (qs_q s)) (json_name tid) = Some (TaskFile t) \<and> Active t \<longrightarrow>
           map_of (q_tasks q') tid = Some (t\<lparr>tk_Status := StatusPending, tk_Resumed := True\<rparr>))
      \<and> (\<forall>tid. tid \<in> set (q_resuming q') \<longleftrightarrow> (\<exists>t. map_of (q_disk (qs_q s)) (json_name tid) = Some (TaskFile t) \<and> Active t))
      \<and> distinct (q_resuming q') \<and> sorted (map (created_of (q_tasks q')) (q_resuming q')))
    \<and> (reach qinit steady_step s \<longrightarrow>
        (\<forall>tid t. map_of (q_tasks (qs_q s)) tid = Some t \<longleftrightarrow> map_of (q_disk (qs_q s)) (json_name tid) = Some (TaskFile t)))"
proof -
  have "filed (qs_q s)" using queue_inv.reach_inv assms(1) by (auto simp: qinv_def)
  from Open_filed [OF this, of keep b ok] obtain q0 ids where o:
    "Open_queue keep b ok (q_disk (qs_q s)) = Inr (purgeFinished q0)" "filed q0"
    "\<forall>tid t. map_of (q_tasks q0) tid = Some t \<longleftrightarrow> (\<exists>u. map_of (q_disk (qs_q s)) (json_name tid) = Some (TaskFile u) \<and> t = resume u)"
    "q_resuming q0 = ids" "distinct ids"
    "\<forall>tid. tid \<in> set ids \<longleftrightarrow> (\<exists>t. map_of (q_disk (qs_q s)) (json_name tid) = Some (TaskFile t) \<and> Active t)"
    "sorted (map (created_of (q_tasks q0)) ids)" by auto
  have kept: "map_of (q_tasks (purgeFinished q0)) tid = Some (resume t)" "map_of (q_tasks q0) tid = Some (resume t)"
    if "map_of (q_disk (qs_q s)) (json_name tid) = Some (TaskFile t)" "Active t" for tid t
    using purge_map(2) [OF o(2)] o(3) that by (auto simp del: map_of_eq_Some_iff)
  have "created_of (q_tasks (purgeFinished q0)) tid = created_of (q_tasks q0) tid" if "tid \<in> set ids" for tid
    using that o(6) kept by (auto simp: created_of_def simp del: map_of_eq_Some_iff)
  then have "map (created_of (q_tasks (purgeFinished q0))) ids = map (created_of (q_tasks q0)) ids" by simp
  then have "sorted (map (created_of (q_tasks (purgeFinished q0))) ids)" using o(7) by (simp only:)
  moreover have "map_of (q_tasks (purgeFinished q0)) tid = Some (t\<lparr>tk_Status := StatusPending, tk_Resumed := True\<rparr>)"
    if "map_of (q_disk (qs_q s)) (json_name tid) = Some (TaskFile t)" "Active t" for tid t
    using kept(1) [OF that] that(2) by (simp add: resume_def)
  moreover have "map_of (q_tasks (qs_q s)) tid = Some t \<longleftrightarrow> map_of (q_disk (qs_q s)) (json_name tid) = Some (TaskFile t)"
    if "reach qinit steady_step s" for tid t using queue_steady.reach_inv [OF that] by (simp add: qsteady_def disk_agrees_def del: map_of_eq_Some_iff)
  ultimately show ?thesis using o(1,4-6) by (intro conjI exI [of _ "purgeFinished q0"]) (simp_all del: map_of_eq_Some_iff)
qed

theorem crash_loses_no_task_witness:
  "\<exists>q' t. Open_queue 3 False (\<lambda>_. True) (q_disk demo_created) = Inr q'
     \<and> map_of (q_tasks q') ''tsk_1'' = Some t \<and> tk_Resumed t \<and> ''tsk_1'' \<in> set (q_resuming q')"
proof -
  obtain t where t: "map_of (q_tasks demo_created) ''tsk_1'' = Some t" "tk_Status t = StatusPending"
    using demo_task by blast
  then have a: "Active t" by (simp add: Active_def)
  note c = crash_loses_no_task [OF demo_reach, of 3 False "\<lambda>_. True", unfolded qsys.simps]
  have f: "map_of (q_disk demo_created) (json_name ''tsk_1'') = Some (TaskFile t)" using c demo_steady t(1) by blast
  with c a show ?thesis by fastforce
qed

text \<open>Without that proviso the task is gone: a creation whose file could not be written is accepted all the same, and
  the next start knows nothing of it.\<close>

theorem unwritten_task_lost:
  assumes "tid \<notin> set (q_pending q)" "length (q_pending q) < pendingCapacity" "filed q" "map_of (q_disk q) (json_name tid) = None"
    "\<not> q_diskOK q (json_name tid)" "Create tid rid now ty ref actor items opts q = (res, q')" "Open_queue keep b ok (q_disk q') = Inr q''"
  shows "(\<exists>t. res = Inr t \<and> Active t) \<and> map_of (q_tasks q'') tid = None"
  using assms(6)
proof (cases rule: Create_cases)
  case (taken t)
  let ?q = "store_task t (q\<lparr>q_pending := q_pending q @ [tid]\<rparr>)"
  have t: "tk_ID t = tid" "Active t" using taken(2) by (simp_all add: Active_def)
  have f: "filed ?q" using assms(3) by (simp add: filed_store filed_fields)
  have "map_of (q_disk (foldl purge_one p ts)) (json_name tid) = None" if "map_of (q_disk p) (json_name tid) = None" for p ts
    using that
  proof (induction ts arbitrary: p)
    case (Cons a ts)
    have "map_of (q_disk (purge_one p a)) (json_name tid) = None" using Cons.prems by (auto simp: purge_one_def remove_file_def)
    then show ?case using Cons.IH by simp
  qed simp
  moreover have "map_of (q_disk ?q) (json_name tid) = None" using assms(4,5) t by (simp add: store_task_def persist_def)
  ultimately have none: "map_of (q_disk q') (json_name tid) = None" using taken(4) by (simp add: purgeFinished_def Let_def)
  have "filed q'" using f taken(4) filed_purge by simp
  from Open_filed [OF this, of keep b ok] assms(7) obtain q0 where q0: "q'' = purgeFinished q0" "filed q0"
    "\<forall>i t. map_of (q_tasks q0) i = Some t \<longleftrightarrow> (\<exists>u. map_of (q_disk q') (json_name i) = Some (TaskFile u) \<and> t = resume u)" by auto
  have absent: "map_of (q_tasks q0) tid \<noteq> Some t" for t using q0(3) none by (simp del: map_of_eq_Some_iff)
  have "map_of (q_tasks q'') tid \<noteq> Some t" for t using purge_map(1) [OF q0(2), of tid t] absent q0(1) by (auto simp del: map_of_eq_Some_iff)
  then have "map_of (q_tasks q'') tid = None" using not_None_eq by blast
  then show ?thesis using taken(1) t by simp
qed (use assms(2) in simp)

subsection \<open>Retention\<close>

lemma purge_fold_tasks:
  "q_tasks (foldl purge_one q ts) = filter (\<lambda>(k, v). k \<notin> tk_ID ` set ts) (q_tasks q)"
proof (induction ts arbitrary: q)
  case (Cons t ts)
  show ?case unfolding foldl_Cons Cons
    by (simp add: purge_one_def remove_file_def map_del_def) (rule filter_cong, auto)
qed simp

lemma finished_distinct:
  assumes "filed q"
  shows "distinct (map tk_ID (finished_tasks q))"
proof -
  have "map tk_ID (map snd (q_tasks q)) = map fst (q_tasks q)"
  proof -
    have "tk_ID (snd e) = fst e" if "e \<in> set (q_tasks q)" for e
      using assms that by (cases e) (simp add: filed_def)
    then show ?thesis by simp
  qed
  then have "distinct (map tk_ID (map snd (q_tasks q)))" using assms by (simp only: filed_def)
  then show ?thesis unfolding finished_tasks_def by (rule distinct_map_filter)
qed

lemma filter_take_drop:
  assumes "distinct (map f xs)"
  shows "filter (\<lambda>x. f x \<notin> f ` set (drop n xs)) xs = take n xs"
proof -
  have "distinct (map f (take n xs @ drop n xs))" using assms by simp
  then have d: "f ` set (take n xs) \<inter> f ` set (drop n xs) = {}" by (simp only: map_append distinct_append set_map)
  have "filter (\<lambda>x. f x \<notin> f ` set (drop n xs)) (take n xs @ drop n xs) = take n xs"
  proof -
    have "filter (\<lambda>x. f x \<notin> f ` set (drop n xs)) (take n xs) = take n xs" using d by (intro filter_True) auto
    moreover have "filter (\<lambda>x. f x \<notin> f ` set (drop n xs)) (drop n xs) = []" by (auto simp: filter_empty_conv)
    ultimately show ?thesis by (simp only: filter_append append_Nil2)
  qed
  then show ?thesis by simp
qed

lemma purge_finished_tasks:
  assumes "filed q" and "q_keepFinished q > 0"
  shows "mset (finished_tasks (purgeFinished q)) =
    mset (take (nat (q_keepFinished q)) (sort_key (\<lambda>t. - tk_Created t) (finished_tasks q)))"
proof (cases "int (length (finished_tasks q)) \<le> q_keepFinished q")
  case True
  then have "length (finished_tasks q) \<le> nat (q_keepFinished q)" by linarith
  then show ?thesis using True assms(2) by (simp add: purgeFinished_def Let_def)
next
  case False
  let ?xs = "sort_key (\<lambda>t. - tk_Created t) (finished_tasks q)" and ?n = "nat (q_keepFinished q)"
  let ?D = "tk_ID ` set (drop ?n ?xs)"
  have "mset (map tk_ID ?xs) = mset (map tk_ID (finished_tasks q))" by simp
  then have dx: "distinct (map tk_ID ?xs)" using finished_distinct [OF assms(1)] by (metis mset_eq_imp_distinct_iff)
  have key: "k = tk_ID t" if "(k, t) \<in> set (q_tasks q)" for k t
    using assms(1) that by (simp add: filed_def)
  have "map snd (filter (\<lambda>(k, v). k \<notin> ?D) (q_tasks q)) = filter (\<lambda>t. tk_ID t \<notin> ?D) (map snd (q_tasks q))"
  proof -
    have "(case e of (k, v) \<Rightarrow> k \<notin> ?D) \<longleftrightarrow> tk_ID (snd e) \<notin> ?D" if "e \<in> set (q_tasks q)" for e
      using key [of "fst e" "snd e"] that by (simp add: case_prod_beta)
    then have "filter (\<lambda>(k, v). k \<notin> ?D) (q_tasks q) = filter (\<lambda>e. tk_ID (snd e) \<notin> ?D) (q_tasks q)"
      by (intro filter_cong) auto
    then show ?thesis by (simp add: filter_map o_def)
  qed
  then have "finished_tasks (purgeFinished q) = filter (\<lambda>t. tk_ID t \<notin> ?D) (finished_tasks q)"
    using False assms(2) by (simp add: purgeFinished_def Let_def finished_tasks_def purge_fold_tasks conj_commute)
  then have "mset (finished_tasks (purgeFinished q)) = mset (filter (\<lambda>t. tk_ID t \<notin> ?D) ?xs)" by simp
  then show ?thesis using filter_take_drop [OF dx, of ?n] by simp
qed

text \<open>Retention. With a positive bound the purge keeps every active task, leaves at most
  that many finished ones, and those are the most recent: nothing purged is newer than
  anything kept.\<close>

theorem purge_retention:
  assumes "reach qinit qstep s" and "q = qs_q s" and "q_keepFinished q > 0"
  shows "int (length (finished_tasks (purgeFinished q))) \<le> q_keepFinished q
    \<and> (\<forall>tid t. map_of (q_tasks q) tid = Some t \<and> Active t \<longrightarrow> map_of (q_tasks (purgeFinished q)) tid = Some t)
    \<and> (\<forall>old \<in> set (finished_tasks q) - set (finished_tasks (purgeFinished q)).
         \<forall>kept \<in> set (finished_tasks (purgeFinished q)). tk_Created old \<le> tk_Created kept)"
proof -
  have f: "filed q" using queue_inv.reach_inv assms(1,2) by (auto simp: qinv_def)
  let ?xs = "sort_key (\<lambda>t. - tk_Created t) (finished_tasks q)" and ?n = "nat (q_keepFinished q)"
  note m = purge_finished_tasks [OF f assms(3)]
  have len: "length (finished_tasks (purgeFinished q)) \<le> ?n" using arg_cong [OF m, of size] by simp
  have kept: "set (finished_tasks (purgeFinished q)) = set (take ?n ?xs)" using m by (metis set_mset_mset)
  have split: "set (finished_tasks q) = set (take ?n ?xs) \<union> set (drop ?n ?xs)"
    by (metis append_take_drop_id set_append set_sort)
  have "sorted (map (\<lambda>t. - tk_Created t) (take ?n ?xs @ drop ?n ?xs))" by simp
  then have "\<forall>x \<in> set (take ?n ?xs). \<forall>y \<in> set (drop ?n ?xs). tk_Created y \<le> tk_Created x"
    by (simp only: map_append sorted_append) auto
  then show ?thesis using len kept split purge_map(2) [OF f] assms(3) by auto
qed

theorem purge_retention_witness:
  "int (length (finished_tasks (purgeFinished demo_created))) \<le> 3"
proof -
  have "q_keepFinished demo_created = 3"
    by (simp add: demo_created_def Create_def empty_queue_def persist_def purgeFinished_def finished_tasks_def
        new_task_def Active_def Let_def)
  with purge_retention [OF demo_reach, of demo_created] show ?thesis by simp
qed

end
