(* ===== verification/Queue_Results.thy ===== *)
theory Queue_Results
  imports Queue_Invariant
begin

text \<open>
  What one execution does to a task, that the worker empties the queue, and the listing: the
  pages of a listing, their links, and the arithmetic of the page window on 64-bit integers.
\<close>

subsection \<open>One execution\<close>

lemma save_all_published:
  assumes "map_of (q_tasks q) (tk_ID dst) \<noteq> None" and "save_all dst works q = (dst', q')"
  shows "map_of (q_tasks q') = (map_of (q_tasks q))(tk_ID dst := (if works = [] then map_of (q_tasks q) (tk_ID dst) else Some dst'))
    \<and> tk_ID dst' = tk_ID dst \<and> tk_Pruned dst' = tk_Pruned dst \<and> waiting q' = waiting q"
  using assms unfolding save_all_def
proof (induction works arbitrary: dst q)
  case (Cons w works)
  let ?d = "published dst w"
  have p: "publish dst w q = (?d, store_task ?d q)" using Cons.prems(1) by (rule publish_store)
  have "foldl (\<lambda>(dst, q) work. publish dst work q) (?d, store_task ?d q) works = (dst', q')"
    using Cons.prems(2) p by simp
  from Cons.IH [OF _ this] this show ?case
    by (cases "works = []") (auto simp: waiting_def fun_eq_iff split: if_splits)
qed auto

text \<open>The task as the last section publishes it: the runner's copy after an interruption, the
  settled copy otherwise.\<close>

definition ended :: "time \<Rightarrow> Task \<Rightarrow> run_error option \<Rightarrow> Task \<Rightarrow> bool" where
  "ended now work err src \<longleftrightarrow>
     (if err = Some Canceled then src = work
      else (\<exists>te. src = settle now te work \<and> (te = None \<longleftrightarrow> err = None)
              \<and> (\<forall>e. err = Some (TaxErr e) \<longrightarrow> te = Some e)))"

lemma end_task_published:
  assumes "map_of (q_tasks q) (tk_ID dst) \<noteq> None"
  shows "\<exists>src. map_of (q_tasks (end_task now dst work err q)) = (map_of (q_tasks q))(tk_ID dst \<mapsto> published dst src)
    \<and> waiting (end_task now dst work err q) = waiting q \<and> ended now work err src"
proof -
  note p = publish_store [OF assms]
  show ?thesis
  proof (cases err)
    case None
    then show ?thesis
      by (intro exI [of _ "settle now None work"]) (auto simp: end_task_def finish_def p waiting_def ended_def)
  next
    case (Some e)
    let ?te = "case e of TaxErr te \<Rightarrow> Some te | OtherErr m \<Rightarrow> Some (internal_error m)
        | Panicked m \<Rightarrow> Some (internal_error (''task runner panicked: '' @ m)) | Canceled \<Rightarrow> None"
    show ?thesis
    proof (cases "e = Canceled")
      case True
      with Some show ?thesis by (intro exI [of _ work]) (auto simp: end_task_def p waiting_def ended_def)
    next
      case False
      with Some show ?thesis
        by (intro exI [of _ "settle now ?te work"])
           (cases e; auto simp: end_task_def finish_def p waiting_def ended_def)
    qed
  qed
qed

lemma execute_unfold:
  assumes "map_of (q_tasks q) tid = Some t0" and "tk_ID t0 = tid"
  shows "\<exists>t q1. begin_task start tid q = Some (t, q1) \<and> tk_ID t = tid \<and> tk_Type t = tk_Type t0
    \<and> tk_Pruned t = tk_Pruned t0 \<and> t = t0\<lparr>tk_Status := StatusRunning, tk_Started := start\<rparr>
    \<and> map_of (q_tasks q1) = (map_of (q_tasks q))(tid \<mapsto> t) \<and> waiting q1 = waiting q"
  using assms by (auto simp: begin_task_def Let_def persist_def taskLogger_def waiting_def)

text \<open>The outcome of the runner as the queue sees it: no runner counts as an internal error.\<close>

definition outcome :: "(string \<Rightarrow> Runner option) \<Rightarrow> Task \<Rightarrow> run_error option" where
  "outcome runners t =
     (case runners (tk_Type t) of
        None \<Rightarrow> Some (OtherErr (''no runner for task type '' @ tk_Type t))
      | Some runner \<Rightarrow> run_err (runProtected runner t))"

definition final_work :: "(string \<Rightarrow> Runner option) \<Rightarrow> Task \<Rightarrow> Task" where
  "final_work runners t =
     (case runners (tk_Type t) of None \<Rightarrow> t | Some runner \<Rightarrow> run_work (runner t))"

lemma run_work_protected [simp]: "run_work (runProtected runner t) = run_work (runner t)"
  by (simp add: runProtected_def Let_def split: option.splits run_error.splits)

lemma execute_published:
  assumes "map_of (q_tasks q) tid = Some t0" and "tk_ID t0 = tid"
    and t_def: "t = t0\<lparr>tk_Status := StatusRunning, tk_Started := start\<rparr>"
  shows "\<exists>dst src. map_of (q_tasks (execute runners start stop tid q)) = (map_of (q_tasks q))(tid \<mapsto> published dst src)
    \<and> tk_ID dst = tid \<and> tk_Pruned dst = tk_Pruned t0
    \<and> waiting (execute runners start stop tid q) = waiting q
    \<and> ended stop (final_work runners t) (outcome runners t) src"
proof -
  from execute_unfold [OF assms(1,2), of start] obtain q1 where
    b: "begin_task start tid q = Some (t, q1)" "tk_ID t = tid" "tk_Type t = tk_Type t0"
      "tk_Pruned t = tk_Pruned t0" "map_of (q_tasks q1) = (map_of (q_tasks q))(tid \<mapsto> t)" "waiting q1 = waiting q"
    by (auto simp: t_def)
  show ?thesis
  proof (cases "runners (tk_Type t)")
    case None
    let ?te = "Some (internal_error (''no runner for task type '' @ tk_Type t))"
    have p: "publish t (settle stop ?te t) q1 =
        (published t (settle stop ?te t), store_task (published t (settle stop ?te t)) q1)"
      using b by (intro publish_store) simp
    have "execute runners start stop tid q = atBoundary (finish stop t t ?te q1)"
      using b None by (simp add: execute_def)
    then show ?thesis using b None p
      by (intro exI [of _ t] exI [of _ "settle stop ?te t"])
         (auto simp: finish_def outcome_def final_work_def waiting_def ended_def)
  next
    case (Some runner)
    let ?r = "runProtected runner t"
    obtain dst q2 where s: "save_all t (run_saves ?r) q1 = (dst, q2)" by fastforce
    from save_all_published [OF _ s] b have sp:
      "map_of (q_tasks q2) = (map_of (q_tasks q1))(tid := (if run_saves ?r = [] then Some t else Some dst))"
      "tk_ID dst = tid" "tk_Pruned dst = tk_Pruned t" "waiting q2 = waiting q1" by auto
    have e: "execute runners start stop tid q = end_task stop dst (run_work (runner t)) (run_err ?r) q2"
      using b Some s by (simp add: execute_def)
    have "map_of (q_tasks q2) (tk_ID dst) \<noteq> None" using sp by simp
    from end_task_published [OF this, of stop "run_work (runner t)" "run_err ?r"] obtain src where src:
      "map_of (q_tasks (end_task stop dst (run_work (runner t)) (run_err ?r) q2)) = (map_of (q_tasks q2))(tid \<mapsto> published dst src)"
      "waiting (end_task stop dst (run_work (runner t)) (run_err ?r) q2) = waiting q2"
      "ended stop (run_work (runner t)) (run_err ?r) src"
      unfolding sp(2) by blast
    have "(map_of (q_tasks q2))(tid \<mapsto> published dst src) = (map_of (q_tasks q))(tid \<mapsto> published dst src)"
      using sp(1) b(5) by (simp add: fun_eq_iff)
    with src sp b e Some show ?thesis
      by (intro exI [of _ dst] exI [of _ src]) (simp add: outcome_def final_work_def)
  qed
qed

lemma execute_terminal:
  assumes "map_of (q_tasks q) tid = Some t0" and "tk_ID t0 = tid"
    and "t = t0\<lparr>tk_Status := StatusRunning, tk_Started := start\<rparr>" and "outcome runners t \<noteq> Some Canceled"
  shows "\<exists>t'. map_of (q_tasks (execute runners start stop tid q)) tid = Some t' \<and> \<not> Active t'
    \<and> tk_Status t' = (if outcome runners t = None
          \<and> (\<forall>i \<in> set (tk_Items (final_work runners t)). it_Status i \<noteq> StatusFailed)
        then StatusDone else StatusFailed)
    \<and> tk_Finished t' = stop
    \<and> (\<forall>runner m. runners (tk_Type t) = Some runner \<and> run_err (runner t) = Some (Panicked m) \<longrightarrow>
         tk_Status t' = StatusFailed \<and> (\<exists>e. tk_Error t' = Some e \<and> ie_Code e = CodeInternal))"
proof -
  from execute_published [OF assms(1-3), where runners = runners and stop = stop] assms(4) obtain dst te where
    m: "map_of (q_tasks (execute runners start stop tid q)) tid = Some (published dst (settle stop te (final_work runners t)))"
    and te: "te = None \<longleftrightarrow> outcome runners t = None" "\<forall>e. outcome runners t = Some (TaxErr e) \<longrightarrow> te = Some e"
    by (auto simp: ended_def)
  let ?w = "final_work runners t" let ?t = "published dst (settle stop te ?w)"
  have st: "tk_Status ?t = (if outcome runners t = None \<and> (\<forall>i \<in> set (tk_Items ?w). it_Status i \<noteq> StatusFailed)
      then StatusDone else StatusFailed)"
    using te(1) Aggregate_Failed by (auto simp: settle_def Let_def Aggregate_def split: option.splits)
  have "tk_Status ?t = StatusFailed \<and> (\<exists>e. tk_Error ?t = Some e \<and> ie_Code e = CodeInternal)"
    if "runners (tk_Type t) = Some runner" "run_err (runner t) = Some (Panicked p)" for runner p
  proof -
    have o: "outcome runners t = Some (TaxErr (internal_error (''task runner panicked: '' @ p)))"
      using that by (simp add: outcome_def runProtected_def Let_def)
    then have "te = Some (internal_error (''task runner panicked: '' @ p))" using te(2) by simp
    then show ?thesis using st o by (simp add: published_def settle_def Let_def FromTaxonomy_def internal_error_def)
  qed
  then show ?thesis using m st settle_status [of stop te ?w]
    by (auto simp: Active_def) (simp_all add: published_def settle_def Let_def)
qed

text \<open>Execution settles a task. Whenever the runner ends otherwise than by an interruption
  (returning, failing, panicking, or not being registered at all) the task ends in a terminal
  state: done exactly when there was no task-level error and no failed item, failed otherwise.
  In particular a panicking runner fails its task with the internal code and the task will not
  be re-queued.\<close>

theorem execute_settles:
  assumes "map_of (q_tasks q) tid = Some t0" and "tk_ID t0 = tid"
    and "t = t0\<lparr>tk_Status := StatusRunning, tk_Started := start\<rparr>" and "outcome runners t \<noteq> Some Canceled"
  shows "\<exists>t'. map_of (q_tasks (execute runners start stop tid q)) tid = Some t' \<and> \<not> Active t'
    \<and> tk_Status t' = (if outcome runners t = None
          \<and> (\<forall>i \<in> set (tk_Items (final_work runners t)). it_Status i \<noteq> StatusFailed)
        then StatusDone else StatusFailed)
    \<and> tk_Finished t' = stop
    \<and> (\<forall>runner m. runners (tk_Type t) = Some runner \<and> run_err (runner t) = Some (Panicked m) \<longrightarrow>
         tk_Status t' = StatusFailed \<and> (\<exists>e. tk_Error t' = Some e \<and> ie_Code e = CodeInternal))"
  using execute_terminal [OF assms] .

definition demo_task_value :: Task where
  "demo_task_value = new_task ''tsk_1'' ''run'' 7 ''sync'' ''r'' ''admin'' [] []"

definition demo_queue :: Queue where
  "demo_queue = (empty_queue 3 False)\<lparr>q_tasks := [(''tsk_1'', demo_task_value)]\<rparr>"

definition panicking :: "string \<Rightarrow> Runner option" where
  "panicking ty = Some (\<lambda>t. \<lparr>run_saves = [], run_work = t, run_err = Some (Panicked ''boom'')\<rparr>)"

theorem execute_settles_witness:
  "\<exists>t'. map_of (q_tasks (execute panicking 8 9 ''tsk_1'' demo_queue)) ''tsk_1'' = Some t' \<and> tk_Status t' = StatusFailed"
proof -
  have "map_of (q_tasks demo_queue) ''tsk_1'' = Some demo_task_value" "tk_ID demo_task_value = ''tsk_1''"
    by (simp_all add: demo_queue_def demo_task_value_def)
  from execute_settles [OF this refl, where start = 8 and stop = 9 and runners = panicking] show ?thesis
    by (auto simp: outcome_def panicking_def runProtected_def)
qed

text \<open>The removal report of a synchronization is lost. The runner of a synchronization fills
  \<open>Pruned\<close> on its copy, but no section of the queue copies that field back: whatever the
  runner does, the published task keeps the report it had, so a task created empty never
  reports what it removed.\<close>

theorem execute_drops_pruned_report:
  assumes "map_of (q_tasks q) tid = Some t0" and "tk_ID t0 = tid"
  shows "\<exists>t'. map_of (q_tasks (execute runners start stop tid q)) tid = Some t' \<and> tk_Pruned t' = tk_Pruned t0"
  using execute_published [OF assms refl, where start = start and runners = runners and stop = stop] by auto

definition pruning :: "string \<Rightarrow> Runner option" where
  "pruning ty = Some (\<lambda>t.
     let w = t\<lparr>tk_Pruned := [\<lparr>pr_Repo = ''r'', pr_Tag = ''1'', pr_Digest = ''d'', pr_Recipe = ''x@1''\<rparr>]\<rparr>
     in \<lparr>run_saves = [w], run_work = w, run_err = None\<rparr>)"

theorem execute_drops_pruned_report_witness:
  "\<exists>t'. map_of (q_tasks (execute pruning 8 9 ''tsk_1'' demo_queue)) ''tsk_1'' = Some t' \<and> tk_Pruned t' = []"
proof -
  have "map_of (q_tasks demo_queue) ''tsk_1'' = Some demo_task_value" "tk_ID demo_task_value = ''tsk_1''"
    by (simp_all add: demo_queue_def demo_task_value_def)
  from execute_drops_pruned_report [OF this, of pruning 8 9] show ?thesis
    by (simp add: demo_task_value_def new_task_def)
qed

subsection \<open>The worker empties the queue\<close>

text \<open>The worker loop, without concurrent creations: take, execute, until nothing waits.\<close>

fun drain :: "(string \<Rightarrow> Runner option) \<Rightarrow> time \<Rightarrow> nat \<Rightarrow> Queue \<Rightarrow> Queue" where
  "drain runners now 0 q = q"
| "drain runners now (Suc n) q =
     (case take_next q of None \<Rightarrow> q | Some (tid, q1) \<Rightarrow> drain runners now n (execute runners now now tid q1))"

definition settled_or_waiting :: "Queue \<Rightarrow> bool" where
  "settled_or_waiting q \<longleftrightarrow>
     (\<forall>tid t. map_of (q_tasks q) tid = Some t \<longrightarrow> tk_ID t = tid \<and> (Active t \<longrightarrow> tid \<in> set (waiting q)))
     \<and> (\<forall>tid \<in> set (waiting q). map_of (q_tasks q) tid \<noteq> None)"

lemma take_next_None: "take_next q = None \<longleftrightarrow> waiting q = []"
  by (auto simp: take_next_def nextResuming_def waiting_def split: option.splits list.splits)

lemma drain_settles:
  assumes "\<forall>t. outcome runners t \<noteq> Some Canceled" and "settled_or_waiting q" and "length (waiting q) \<le> n"
  shows "waiting (drain runners now n q) = [] \<and> settled_or_waiting (drain runners now n q)"
  using assms(2,3)
proof (induction n arbitrary: q)
  case (Suc n)
  show ?case
  proof (cases "take_next q")
    case None
    then show ?thesis using Suc.prems take_next_None [THEN iffD1, OF None] by simp
  next
    case (Some r)
    obtain tid q1 where r: "r = (tid, q1)" by (cases r)
    note tn = take_next_cases [OF Some [unfolded r]]
    obtain t0 where t0: "map_of (q_tasks q1) tid = Some t0" "tk_ID t0 = tid"
      using Suc.prems(1) tn(1,2) by (fastforce simp: settled_or_waiting_def)
    let ?q = "execute runners now now tid q1"
    from execute_terminal [OF t0 refl] assms(1) obtain t' where
      t': "map_of (q_tasks ?q) tid = Some t'" "\<not> Active t'" by blast
    from execute_published [OF t0 refl, where start = now and runners = runners and stop = now] obtain t'' where
      p: "map_of (q_tasks ?q) = (map_of (q_tasks q1))(tid \<mapsto> t'')" "tk_ID t'' = tid" "waiting ?q = waiting q1" by auto
    have "t'' = t'" using p(1) t'(1) by simp
    then have "settled_or_waiting ?q"
      using Suc.prems(1) p t'(2) tn(1,2) by (auto simp: settled_or_waiting_def)
    moreover have "length (waiting ?q) \<le> n" using Suc.prems(2) p(3) tn(1) by simp
    ultimately show ?thesis using Suc.IH Some r by simp
  qed
qed simp

text \<open>C28: The worker empties the queue. From any reachable idle state, if no runner reports a
  cancellation, as many executions as there are waiting tasks leave nothing waiting and no task
  active: every accepted task reaches a terminal state.\<close>

theorem worker_drains_queue:
  assumes "reach qinit qstep s" and "qs_run s = None" and "\<not> qs_stopped s"
    and "\<forall>t. outcome runners t \<noteq> Some Canceled"
    and q'_def: "q' = drain runners now (length (q_resuming (qs_q s) @ q_pending (qs_q s))) (qs_q s)"
  shows "q_resuming q' @ q_pending q' = [] \<and> (\<nexists>tid t. map_of (q_tasks q') tid = Some t \<and> Active t)"
proof -
  have inv: "qinv s" using queue_inv.reach_inv assms(1) by blast
  have "settled_or_waiting (qs_q s)"
    using inv assms(2,3) unfolding qinv_def filed_def scheduled_def settled_or_waiting_def Let_def
    by (auto simp: Active_def)
  from drain_settles [OF assms(4) this order_refl, of now] have
    "waiting q' = []" "settled_or_waiting q'" by (simp_all add: q'_def waiting_def)
  then show ?thesis by (auto simp: settled_or_waiting_def waiting_def)
qed

theorem worker_drains_queue_witness:
  "\<nexists>tid t. map_of (q_tasks (drain pruning 9 (length (q_resuming demo_created @ q_pending demo_created)) demo_created)) tid
     = Some t \<and> Active t"
proof -
  have "\<forall>t. outcome pruning t \<noteq> Some Canceled" by (simp add: outcome_def pruning_def runProtected_def Let_def)
  with worker_drains_queue [OF demo_reach, of pruning _ 9, OF _ _ _ refl] show ?thesis by simp
qed

subsection \<open>Listing\<close>

text \<open>The ideal window, on unbounded integers.\<close>

definition page_window :: "int \<Rightarrow> int \<Rightarrow> int \<Rightarrow> int \<times> int" where
  "page_window n page sz =
     (let start = (max page 1 - 1) * sz in if start > n then (n, n) else (start, min (start + sz) n))"

lemma paginate_exact:
  assumes "0 \<le> n" and "0 < sz" and "n + sz < 2 ^ 62" and "max page 1 * sz < 2 ^ 62"
  shows "fst (paginate n page sz) = fst (page_window n page sz)"
    and "fst (snd (paginate n page sz)) = snd (page_window n page sz)"
    and "snd (snd (paginate n page sz)) = max 1 ((n + sz - 1) div sz)"
proof -
  have p: "max page 1 \<le> max page 1 * sz" using assms(2) mult_left_mono [of 1 sz "max page 1"] by simp
  have w: "wrap64 (n + sz) = n + sz" "wrap64 (n + sz - 1) = n + sz - 1"
    using assms by (simp_all add: fits64_def)
  have m: "0 \<le> (max page 1 - 1) * sz" "(max page 1 - 1) * sz < 2 ^ 62"
    using assms(2,4) by (simp_all add: left_diff_distrib)
  have v: "wrap64 (max page 1 - 1) = max page 1 - 1" "wrap64 ((max page 1 - 1) * sz) = (max page 1 - 1) * sz"
    using assms(4) p m by (simp_all add: fits64_def)
  have u: "wrap64 ((max page 1 - 1) * sz + sz) = (max page 1 - 1) * sz + sz"
  proof -
    have "0 \<le> P \<Longrightarrow> P < 2 ^ 62 \<Longrightarrow> sz < 2 ^ 62 \<Longrightarrow> fits64 (P + sz)" for P :: int
      using assms(2) by (simp add: fits64_def)
    then show ?thesis using m assms(1,3) by simp
  qed
  have d: "0 \<le> (n + sz - 1) div sz" using assms by (intro pos_imp_zdiv_nonneg_iff [THEN iffD2]) auto
  have pg: "(if page < 1 then 1 else page) = max page 1" by simp
  show "fst (paginate n page sz) = fst (page_window n page sz)"
    "fst (snd (paginate n page sz)) = snd (page_window n page sz)"
    "snd (snd (paginate n page sz)) = max 1 ((n + sz - 1) div sz)"
    unfolding paginate_def page_window_def Let_def pg v u w using d by auto
qed

lemma page_window_slice:
  assumes "page \<ge> 1" and "sz > 0"
  shows "go_slice xs (fst (page_window (int (length xs)) page (int sz))) (snd (page_window (int (length xs)) page (int sz)))
    = Some (take sz (drop (nat (page - 1) * sz) xs))"
proof -
  obtain p where p: "page - 1 = int p" using assms(1) by (metis diff_ge_0_iff_ge zero_le_imp_eq_int)
  have mx: "max page 1 = page" using assms(1) by simp
  show ?thesis
  proof (cases "int p * int sz > int (length xs)")
    case True
    then have "length xs < p * sz" by (metis of_nat_less_iff of_nat_mult)
    with True p show ?thesis unfolding page_window_def go_slice_def Let_def mx p by simp
  next
    case False
    then have "p * sz \<le> length xs" by (metis not_less of_nat_less_iff of_nat_mult)
    then have "nat (min (int p * int sz + int sz) (int (length xs)) - int p * int sz) = min sz (length xs - p * sz)"
      by (simp add: min_def nat_diff_distrib flip: of_nat_mult of_nat_add) arith
    moreover have "nat (int p * int sz) = p * sz" by (simp add: nat_mult_distrib)
    moreover have "take (min sz (length xs - p * sz)) (drop (p * sz) xs) = take sz (drop (p * sz) xs)"
      by (simp add: min_def)
    ultimately show ?thesis using False \<open>p * sz \<le> length xs\<close>
      unfolding page_window_def go_slice_def Let_def mx p by simp
  qed
qed

lemma concat_pages:
  assumes "sz > 0" and "length xs \<le> k * sz"
  shows "concat (map (\<lambda>p. take sz (drop (p * sz) xs)) [0..<k]) = xs"
  using assms(2)
proof (induction k arbitrary: xs)
  case (Suc k)
  have "map (\<lambda>p. take sz (drop (p * sz) xs)) [0..<Suc k] =
      take sz xs # map (\<lambda>p. take sz (drop (p * sz) (drop sz xs))) [0..<k]"
    unfolding upt_conv_Cons [OF zero_less_Suc] list.map map_Suc_upt [symmetric] map_map o_def
    by (simp add: add.commute)
  then show ?case using Suc.IH [of "drop sz xs"] Suc.prems by simp
qed simp

lemma ListPage_page:
  assumes "1 \<le> lq_Page lq" and "lq_Page lq < 2 ^ 56"
    and "int (length (List_tasks (lq_Status lq) (lq_Type lq) (lq_Q lq) q)) < 2 ^ 61"
  shows "\<exists>pg. ListPage lq q = Some pg
    \<and> pg_Tasks pg = take 25 (drop (nat (lq_Page lq - 1) * 25) (List_tasks (lq_Status lq) (lq_Type lq) (lq_Q lq) q))
    \<and> pg_Total pg = int (length (List_tasks (lq_Status lq) (lq_Type lq) (lq_Q lq) q))
    \<and> pg_TotalPages pg = max 1 ((pg_Total pg + 24) div 25)"
proof -
  let ?m = "List_tasks (lq_Status lq) (lq_Type lq) (lq_Q lq) q"
  note e = paginate_exact [of "int (length ?m)" 25 "lq_Page lq"]
  have w: "fst (paginate (int (length ?m)) (lq_Page lq) 25) = fst (page_window (int (length ?m)) (lq_Page lq) 25)"
    "fst (snd (paginate (int (length ?m)) (lq_Page lq) 25)) = snd (page_window (int (length ?m)) (lq_Page lq) 25)"
    "snd (snd (paginate (int (length ?m)) (lq_Page lq) 25)) = max 1 ((int (length ?m) + 24) div 25)"
    using e assms by simp_all
  show ?thesis
    using page_window_slice [OF assms(1), of 25 ?m] w
    by (auto simp: ListPage_def Let_def split: prod.splits)
qed

text \<open>The pages of a listing partition it: for every page number in range of the arithmetic
  the page exists and is the corresponding slice, and the pages up to the page count, put end
  to end, are the whole filtered listing, newest first, each task once.\<close>

theorem ListPage_partition:
  assumes "m = List_tasks (lq_Status lq) (lq_Type lq) (lq_Q lq) q" and "int (length m) < 2 ^ 60"
  shows "\<exists>pages. (\<forall>p \<in> {1..length pages}. \<exists>pg. ListPage (lq\<lparr>lq_Page := int p\<rparr>) q = Some pg
         \<and> pg_Tasks pg = pages ! (p - 1) \<and> pg_TotalPages pg = int (length pages) \<and> length (pg_Tasks pg) \<le> 25)
     \<and> concat pages = m \<and> sorted (map (\<lambda>t. - tk_Created t) m)"
proof -
  define k where "k = nat (max 1 ((int (length m) + 24) div 25))"
  let ?page = "\<lambda>p. take 25 (drop (p * 25) m)"
  have k: "int k = max 1 ((int (length m) + 24) div 25)" by (simp add: k_def)
  have big: "length m \<le> k * 25" using k by linarith
  have small: "int k < 2 ^ 56" using k assms(2) by (simp add: div_less_iff_less_mult)
  let ?pages = "map ?page [0..<k]"
  have "\<exists>pg. ListPage (lq\<lparr>lq_Page := int p\<rparr>) q = Some pg \<and> pg_Tasks pg = ?pages ! (p - 1)
      \<and> pg_TotalPages pg = int (length ?pages) \<and> length (pg_Tasks pg) \<le> 25" if "p \<in> {1..length ?pages}" for p
  proof -
    have p: "1 \<le> p" "p \<le> k" using that by simp_all
    have n: "nat (int p - 1) = p - 1" using p by linarith
    have "int p < 2 ^ 56" using p small by linarith
    with ListPage_page [of "lq\<lparr>lq_Page := int p\<rparr>" q] assms p(1) obtain pg where
      pg: "ListPage (lq\<lparr>lq_Page := int p\<rparr>) q = Some pg" "pg_Tasks pg = ?page (nat (int p - 1))"
        "pg_Total pg = int (length m)" "pg_TotalPages pg = max 1 ((pg_Total pg + 24) div 25)"
      by auto
    have "p - 1 < k" using p by linarith
    then have "?pages ! (p - 1) = ?page (p - 1)" by simp
    then show ?thesis using pg n k by simp
  qed
  moreover have "concat ?pages = m" using concat_pages [of 25 m k] big by simp
  moreover have "sorted (map (\<lambda>t. - tk_Created t) m)" using assms(1) by (simp add: List_tasks_def)
  ultimately show ?thesis by blast
qed

theorem ListPage_partition_witness:
  "\<exists>pages. concat pages = List_tasks [] [] [] demo_created"
  using ListPage_partition [where lq = "\<lparr>lq_Q = [], lq_Status = [], lq_Type = [], lq_Page = 1\<rparr>" and q = demo_created, OF refl]
  by (auto simp: demo_created_def Create_def empty_queue_def persist_def purgeFinished_def finished_tasks_def
      new_task_def Active_def Let_def List_tasks_def)

text \<open>Pagination links round-trip: parsing the parameters a query renders gives the query
  back.\<close>

theorem ParseListQuery_Values:
  assumes "1 \<le> lq_Page lq" and "fits64 (lq_Page lq)"
  shows "ParseListQuery (ListQuery_Values lq) = lq"
proof -
  have "atoi (nat_str (nat (lq_Page lq))) = Some (lq_Page lq)"
    using assms atoi_nat_str [of "nat (lq_Page lq)"] by simp
  moreover have "atoi [] = None" by (simp add: atoi_def)
  ultimately show ?thesis using assms(1)
    by (auto simp: ParseListQuery_def ListQuery_Values_def go_get_def)
qed

theorem ParseListQuery_Values_witness:
  "ParseListQuery (ListQuery_Values \<lparr>lq_Q = ''nginx'', lq_Status = [], lq_Type = ''sync'', lq_Page = 3\<rparr>)
     = \<lparr>lq_Q = ''nginx'', lq_Status = [], lq_Type = ''sync'', lq_Page = 3\<rparr>"
  by (rule ParseListQuery_Values) (simp_all add: fits64_def)

text \<open>A page number the parser accepts can overflow the window arithmetic: the product wraps
  to a negative start, the slice expression is out of range and the listing panics, where the
  contract is an empty window for any page past the end.\<close>

theorem ListPage_overflow_panics:
  "ParseListQuery [(''page'', ''368934881474191034'')] = \<lparr>lq_Q = [], lq_Status = [], lq_Type = [], lq_Page = 368934881474191034\<rparr>
   \<and> ListPage (ParseListQuery [(''page'', ''368934881474191034'')]) q = None"
proof -
  have a: "atoi ''368934881474191034'' = Some 368934881474191034"
    by (simp add: atoi_def Let_def digits_value_def is_digit_def fits64_def)
  have p: "ParseListQuery [(''page'', ''368934881474191034'')] = \<lparr>lq_Q = [], lq_Status = [], lq_Type = [], lq_Page = 368934881474191034\<rparr>"
    using a by (simp add: ParseListQuery_def go_get_def)
  have "wrap64 (wrap64 (368934881474191034 - 1) * 25) = - 9223372036854775791" by (simp add: wrap64_def)
  then have "fst (paginate n 368934881474191034 25) < 0" if "n \<ge> 0" for n
    using that by (simp add: paginate_def Let_def)
  then have "\<not> 0 \<le> fst (paginate (int (length (List_tasks [] [] [] q))) 368934881474191034 25)"
    by (simp add: not_le)
  then show ?thesis unfolding p by (auto simp: ListPage_def go_slice_def Let_def split: prod.splits)
qed

end
