(* ===== verification/Store.thy ===== *)
theory Store
  imports Relocate Tasks
begin

text \<open>
  The content store, \<^verbatim>\<open>internal/store\<close>: the metadata ledgers (\<^verbatim>\<open>meta.go\<close>),
  removal and mark-and-sweep garbage collection (\<^verbatim>\<open>gc.go\<close>) and reset
  (\<^verbatim>\<open>reset.go\<close>).

  The state is what those files read and write on disk: the tags, revision links and layer links
  of every repository with the age of each link, the blobs with the age of their data, and the
  files under \<^verbatim>\<open>meta/\<close>. The registry library (\<^verbatim>\<open>distribution\<close>) is the record
  \<open>registry\<close>: which names it accepts, how it reads a manifest, and where it fails. Removing a
  directory succeeds and removes everything below it.
\<close>

subsection \<open>State\<close>

datatype 'a meta_file = Missing | Corrupt | Present 'a

datatype ProvenanceClass = ProvenanceRecipe | ProvenanceUnitImport | ProvenanceSeed

record Provenance =
  pv_Class :: ProvenanceClass
  pv_Origin :: string
  pv_Recipe :: string
  pv_RecipeVersion :: string
  pv_RunID :: string
  pv_RecordedAt :: time

record IngredientRecord =
  ir_Name :: string
  ir_Kind :: string
  ir_Repo :: string
  ir_Tag :: string
  ir_Digest :: string

record RecipeRecord =
  rr_Name :: string
  rr_Version :: string
  rr_CookbookRepo :: string
  rr_ArtifactRepo :: string
  rr_ArtifactTag :: string
  rr_Digest :: string
  rr_RunID :: string
  rr_Zone :: string
  rr_ResolvedAt :: time
  rr_Verified :: bool
  rr_TrustScope :: string
  rr_Ingredients :: "IngredientRecord list"

text \<open>A link directory: its \<^verbatim>\<open>link\<close> file with its modification time, or only the directory,
  or nothing that can be read.\<close>

datatype link = LinkAt time | DirAt time | NoStat

record Repo =
  rp_tags :: "(string \<times> string) list"
  rp_revisions :: "(string \<times> link) list"
  rp_layers :: "(string \<times> link) list"

record Store =
  so_repos :: "(string \<times> Repo) list"
  so_blobs :: "(string \<times> time option) list"
  so_format :: "int meta_file"
  so_mediaID :: "string meta_file"
  so_provenance :: "(string \<times> Provenance) list meta_file"
  so_recipes :: "(string \<times> RecipeRecord) list meta_file"
  so_metaOK :: bool
  so_discarded :: nat

datatype store_error =
    ErrNotFound
  | RecipeManaged string "string list"
  | ParsingMeta string
  | WritingMeta string
  | UnsupportedFormat int
  | NoMediaID
  | ListingRepositories
  | ListingTags string

record manifest =
  mf_mediaType :: string
  mf_references :: "string list"

record registry =
  rg_validName :: "string \<Rightarrow> bool"
  rg_manifests :: "string \<Rightarrow> (string \<times> manifest) list"
  rg_tagUnreadable :: "string \<Rightarrow> string \<Rightarrow> bool"
  rg_tagsFail :: "string \<Rightarrow> bool"
  rg_catalogFails :: bool

subsection \<open>Ledgers\<close>

abbreviation FormatVersion :: int where "FormatVersion \<equiv> 1"

definition readMeta :: "string \<Rightarrow> 'a list meta_file \<Rightarrow> store_error + 'a list" where
  "readMeta name f =
     (case f of Missing \<Rightarrow> Inr [] | Corrupt \<Rightarrow> Inl (ParsingMeta name) | Present x \<Rightarrow> Inr x)"

definition checkFormat :: "Store \<Rightarrow> store_error + Store" where
  "checkFormat s =
     (case so_format s of
        Missing \<Rightarrow> if so_metaOK s then Inr (s\<lparr>so_format := Present FormatVersion\<rparr>) else Inl (WritingMeta ''format.json'')
      | Corrupt \<Rightarrow> Inl (ParsingMeta ''format.json'')
      | Present v \<Rightarrow> if v \<noteq> FormatVersion then Inl (UnsupportedFormat v) else Inr s)"

definition ensureMediaID :: "string \<Rightarrow> Store \<Rightarrow> store_error + string \<times> Store" where
  "ensureMediaID minted s =
     (case so_mediaID s of
        Missing \<Rightarrow> if so_metaOK s then Inr (minted, s\<lparr>so_mediaID := Present minted\<rparr>) else Inl (WritingMeta ''media-id.json'')
      | Corrupt \<Rightarrow> Inl (ParsingMeta ''media-id.json'')
      | Present i \<Rightarrow> if i = [] then Inl NoMediaID else Inr (i, s))"

definition recipeKey :: "string \<Rightarrow> string \<Rightarrow> string" where
  "recipeKey name version = name @ ''@'' @ version"

definition write_provenance :: "(string \<times> Provenance) list \<Rightarrow> Store \<Rightarrow> store_error + Store" where
  "write_provenance m s =
     (if so_metaOK s then Inr (s\<lparr>so_provenance := Present m\<rparr>) else Inl (WritingMeta ''provenance.json''))"

definition write_recipes :: "(string \<times> RecipeRecord) list \<Rightarrow> Store \<Rightarrow> store_error + Store" where
  "write_recipes m s =
     (if so_metaOK s then Inr (s\<lparr>so_recipes := Present m\<rparr>) else Inl (WritingMeta ''recipes.json''))"

definition SetProvenance :: "time \<Rightarrow> string \<Rightarrow> Provenance \<Rightarrow> Store \<Rightarrow> store_error + Store" where
  "SetProvenance now repo p s =
     bind_r (readMeta ''provenance.json'' (so_provenance s))
       (\<lambda>m. let entry = (if pv_RecordedAt p = 0 then p\<lparr>pv_RecordedAt := now\<rparr> else p)
            in write_provenance (map_put repo entry m) s)"

definition MarkManualImport :: "time \<Rightarrow> string \<Rightarrow> Store \<Rightarrow> store_error + Store" where
  "MarkManualImport now repo s =
     SetProvenance now repo
       \<lparr>pv_Class = ProvenanceUnitImport, pv_Origin = ''local-pack'', pv_Recipe = [], pv_RecipeVersion = [],
        pv_RunID = [], pv_RecordedAt = 0\<rparr> s"

definition ProvenanceOf :: "string \<Rightarrow> Store \<Rightarrow> Provenance option" where
  "ProvenanceOf repo s =
     (case readMeta ''provenance.json'' (so_provenance s) of Inl _ \<Rightarrow> None | Inr m \<Rightarrow> map_of m repo)"

definition dropProvenance :: "string \<Rightarrow> Store \<Rightarrow> store_error + Store" where
  "dropProvenance repo s =
     bind_r (readMeta ''provenance.json'' (so_provenance s))
       (\<lambda>m. if map_of m repo = None then Inr s else write_provenance (map_del repo m) s)"

definition PutRecipeRecord :: "RecipeRecord \<Rightarrow> Store \<Rightarrow> store_error + Store" where
  "PutRecipeRecord r s =
     bind_r (readMeta ''recipes.json'' (so_recipes s))
       (\<lambda>m. write_recipes (map_put (recipeKey (rr_Name r) (rr_Version r)) r m) s)"

definition RecipeRecords :: "Store \<Rightarrow> store_error + RecipeRecord list" where
  "RecipeRecords s = bind_r (readMeta ''recipes.json'' (so_recipes s)) (\<lambda>m. Inr (map snd m))"

definition DeleteRecipeRecord :: "string \<Rightarrow> string \<Rightarrow> Store \<Rightarrow> store_error + Store" where
  "DeleteRecipeRecord name version s =
     bind_r (readMeta ''recipes.json'' (so_recipes s))
       (\<lambda>m. write_recipes (map_del (recipeKey name version) m) s)"

definition ManagingRecipes :: "string \<Rightarrow> Store \<Rightarrow> string list" where
  "ManagingRecipes repo s =
     (case RecipeRecords s of
        Inl _ \<Rightarrow> []
      | Inr records \<Rightarrow>
          map (\<lambda>r. recipeKey (rr_Name r) (rr_Version r))
            (filter (\<lambda>r. list_ex (\<lambda>ing. ir_Repo ing = repo) (rr_Ingredients r)) records))"

subsection \<open>Marking\<close>

definition isIndex :: "string \<Rightarrow> bool" where
  "isIndex mediaType =
     (mediaType = ''application/vnd.oci.image.index.v1+json''
      \<or> mediaType = ''application/vnd.docker.distribution.manifest.list.v2+json'')"

text \<open>
  The walk marks before it descends and stops at what is already marked. Every descent marks a
  manifest that was not marked, so one step more than there are manifests is enough
  (\<open>markManifest_enough\<close>).
\<close>

fun markManifest ::
  "(string \<times> manifest) list \<Rightarrow> nat \<Rightarrow> string \<Rightarrow> string set \<Rightarrow> string set" where
  "markManifest ms 0 d reached = reached"
| "markManifest ms (Suc fuel) d reached =
     (if d \<in> reached then reached
      else (case map_of ms d of
              None \<Rightarrow> insert d reached
            | Some m \<Rightarrow>
                if isIndex (mf_mediaType m)
                then foldl (\<lambda>r child. markManifest ms fuel child r) (insert d reached) (mf_references m)
                else insert d reached \<union> set (mf_references m)))"

definition mark_fuel :: "(string \<times> manifest) list \<Rightarrow> nat" where
  "mark_fuel ms = Suc (length ms)"

definition markRepository :: "registry \<Rightarrow> string \<Rightarrow> Repo \<Rightarrow> store_error + string set" where
  "markRepository rg name repo =
     (if \<not> rg_validName rg name then Inl ErrNotFound
      else if rg_tagsFail rg name then Inl (ListingTags name)
      else Inr (foldl (\<lambda>r (tag, d). if rg_tagUnreadable rg name tag then r
                         else markManifest (rg_manifests rg name) (mark_fuel (rg_manifests rg name)) d r)
                  {} (rp_tags repo)))"

subsection \<open>Sweeping\<close>

record sweepResult =
  sw_Removed :: nat
  sw_Deferred :: nat

abbreviation sweepGrace :: time where "sweepGrace \<equiv> 300000000000"

definition digest_of :: "string \<Rightarrow> string" where
  "digest_of h = ''sha256:'' @ h"

fun linkFresh :: "link \<Rightarrow> time \<Rightarrow> bool" where
  "linkFresh (LinkAt t) cutoff = (t > cutoff)"
| "linkFresh (DirAt t) cutoff = (t > cutoff)"
| "linkFresh NoStat cutoff = True"

text \<open>One directory of entries: what stays, how many go, how many wait.\<close>

definition sweep_entries ::
  "('a \<Rightarrow> bool) \<Rightarrow> string set \<Rightarrow> (string \<times> 'a) list \<Rightarrow> (string \<times> 'a) list \<times> sweepResult" where
  "sweep_entries young reached es =
     (filter (\<lambda>(h, l). digest_of h \<in> reached \<or> young l) es,
      \<lparr>sw_Removed = length (filter (\<lambda>(h, l). digest_of h \<notin> reached \<and> \<not> young l) es),
       sw_Deferred = length (filter (\<lambda>(h, l). digest_of h \<notin> reached \<and> young l) es)\<rparr>)"

definition add_result :: "sweepResult \<Rightarrow> sweepResult \<Rightarrow> sweepResult" where
  "add_result a b = \<lparr>sw_Removed = sw_Removed a + sw_Removed b, sw_Deferred = sw_Deferred a + sw_Deferred b\<rparr>"

definition pruneRepositoryLinks :: "string set \<Rightarrow> time \<Rightarrow> Repo \<Rightarrow> Repo \<times> sweepResult" where
  "pruneRepositoryLinks reached cutoff repo =
     (let (revs, r1) = sweep_entries (\<lambda>l. linkFresh l cutoff) reached (rp_revisions repo);
          (layers, r2) = sweep_entries (\<lambda>l. linkFresh l cutoff) reached (rp_layers repo)
      in (repo\<lparr>rp_revisions := revs, rp_layers := layers\<rparr>, add_result r1 r2))"

text \<open>The loop over the repositories: an error stops it and leaves the links already pruned.\<close>

fun sweep_repos ::
  "registry \<Rightarrow> time \<Rightarrow> (string \<times> Repo) list \<Rightarrow> string set \<Rightarrow> sweepResult
     \<Rightarrow> (string \<times> Repo) list \<times> (store_error + string set \<times> sweepResult)" where
  "sweep_repos rg cutoff [] global res = ([], Inr (global, res))"
| "sweep_repos rg cutoff ((name, repo) # repos) global res =
     (case markRepository rg name repo of
        Inl e \<Rightarrow> ((name, repo) # repos, Inl e)
      | Inr reached \<Rightarrow>
          (let (repo', r) = pruneRepositoryLinks reached cutoff repo;
               (repos', out) = sweep_repos rg cutoff repos (global \<union> reached) (add_result res r)
           in ((name, repo') # repos', out)))"

definition sweep :: "registry \<Rightarrow> time \<Rightarrow> Store \<Rightarrow> Store \<times> (store_error + sweepResult)" where
  "sweep rg now s =
     (if rg_catalogFails rg then (s, Inl ListingRepositories)
      else (let cutoff = now - sweepGrace;
                (repos, out) = sweep_repos rg cutoff (so_repos s) {} \<lparr>sw_Removed = 0, sw_Deferred = 0\<rparr>;
                s = s\<lparr>so_repos := repos\<rparr>
            in case out of
                 Inl e \<Rightarrow> (s, Inl e)
               | Inr (global, res) \<Rightarrow>
                   (let (blobs, r) = sweep_entries (\<lambda>t. case t of Some t \<Rightarrow> t > cutoff | None \<Rightarrow> False)
                                       global (so_blobs s)
                    in (s\<lparr>so_blobs := blobs\<rparr>, Inr (add_result res r)))))"

subsection \<open>Removal\<close>

text \<open>Removing the directory of a repository removes every repository below it.\<close>

definition under :: "string \<Rightarrow> string \<Rightarrow> bool" where
  "under name n \<longleftrightarrow> n = name \<or> has_prefix n (name @ ''/'')"

definition remove_repo_dir :: "string \<Rightarrow> Store \<Rightarrow> Store" where
  "remove_repo_dir name s = s\<lparr>so_repos := filter (\<lambda>(n, _). \<not> under name n) (so_repos s)\<rparr>"

definition DeleteRepository :: "registry \<Rightarrow> time \<Rightarrow> string \<Rightarrow> Store \<Rightarrow> Store \<times> store_error option" where
  "DeleteRepository rg now name s =
     (let managing = ManagingRecipes name s in
      if managing \<noteq> [] then (s, Some (RecipeManaged name managing))
      else if \<not> list_ex (\<lambda>(n, _). under name n) (so_repos s) then (s, Some ErrNotFound)
      else (let s = remove_repo_dir name s in
            case dropProvenance name s of
              Inl e \<Rightarrow> (s, Some e)
            | Inr s \<Rightarrow> (case sweep rg now s of (s, Inl e) \<Rightarrow> (s, Some e) | (s, Inr _) \<Rightarrow> (s, None))))"

definition untag :: "registry \<Rightarrow> string \<Rightarrow> string \<Rightarrow> Store \<Rightarrow> store_error + Store" where
  "untag rg name tag s =
     (if \<not> rg_validName rg name then Inl ErrNotFound
      else (case map_of (so_repos s) name of
              None \<Rightarrow> Inl ErrNotFound
            | Some repo \<Rightarrow>
                if map_of (rp_tags repo) tag = None then Inl ErrNotFound
                else Inr (s\<lparr>so_repos := map_put name (repo\<lparr>rp_tags := map_del tag (rp_tags repo)\<rparr>) (so_repos s)\<rparr>)))"

definition DeleteTag :: "registry \<Rightarrow> time \<Rightarrow> string \<Rightarrow> string \<Rightarrow> Store \<Rightarrow> Store \<times> store_error option" where
  "DeleteTag rg now name tag s =
     (case untag rg name tag s of
        Inl e \<Rightarrow> (s, Some e)
      | Inr s \<Rightarrow> (case sweep rg now s of (s, Inl e) \<Rightarrow> (s, Some e) | (s, Inr _) \<Rightarrow> (s, None)))"

definition Sweep :: "registry \<Rightarrow> time \<Rightarrow> Store \<Rightarrow> Store \<times> store_error option" where
  "Sweep rg now s = (case sweep rg now s of (s, Inl e) \<Rightarrow> (s, Some e) | (s, Inr _) \<Rightarrow> (s, None))"

definition hasNoTags :: "registry \<Rightarrow> string \<Rightarrow> Store \<Rightarrow> store_error + bool" where
  "hasNoTags rg name s =
     (if \<not> rg_validName rg name then Inr False
      else if rg_tagsFail rg name then Inl (ListingTags name)
      else (case map_of (so_repos s) name of None \<Rightarrow> Inr True | Some repo \<Rightarrow> Inr (rp_tags repo = [])))"

type_synonym TagRef = "string \<times> string"

record PruneResult =
  ps_Tags :: nat
  ps_Repositories :: nat
  ps_ContentSwept :: nat
  ps_ContentDeferred :: nat

text \<open>\<open>untag\<close> fails only with \<open>ErrNotFound\<close>, which the loop absorbs.\<close>

fun untag_all :: "registry \<Rightarrow> TagRef list \<Rightarrow> Store \<Rightarrow> nat \<Rightarrow> string list \<Rightarrow> Store \<times> nat \<times> string list" where
  "untag_all rg [] s n touched = (s, n, touched)"
| "untag_all rg ((repo, tag) # refs) s n touched =
     (let (s, n) = (case untag rg repo tag s of Inl _ \<Rightarrow> (s, n) | Inr s' \<Rightarrow> (s', n + 1))
      in untag_all rg refs s n (if repo \<in> set touched then touched else touched @ [repo]))"

fun drop_empty :: "registry \<Rightarrow> string list \<Rightarrow> Store \<Rightarrow> nat \<Rightarrow> Store \<times> (store_error + nat)" where
  "drop_empty rg [] s n = (s, Inr n)"
| "drop_empty rg (name # names) s n =
     (case hasNoTags rg name s of
        Inl e \<Rightarrow> (s, Inl e)
      | Inr False \<Rightarrow> drop_empty rg names s n
      | Inr True \<Rightarrow>
          (let s = remove_repo_dir name s in
           case dropProvenance name s of
             Inl e \<Rightarrow> (s, Inl e)
           | Inr s \<Rightarrow> drop_empty rg names s (n + 1)))"

definition PruneTags ::
  "registry \<Rightarrow> time \<Rightarrow> TagRef list \<Rightarrow> Store \<Rightarrow> Store \<times> (store_error + PruneResult)" where
  "PruneTags rg now refs s =
     (if refs = [] then (s, Inr \<lparr>ps_Tags = 0, ps_Repositories = 0, ps_ContentSwept = 0, ps_ContentDeferred = 0\<rparr>)
      else (let (s, tags, touched) = untag_all rg refs s 0 [] in
            case drop_empty rg touched s 0 of
              (s, Inl e) \<Rightarrow> (s, Inl e)
            | (s, Inr repos) \<Rightarrow>
                (case sweep rg now s of
                   (s, Inl e) \<Rightarrow> (s, Inl e)
                 | (s, Inr r) \<Rightarrow> (s, Inr \<lparr>ps_Tags = tags, ps_Repositories = repos,
                     ps_ContentSwept = sw_Removed r, ps_ContentDeferred = sw_Deferred r\<rparr>))))"

subsection \<open>Reset\<close>

definition Reset :: "registry \<Rightarrow> Store \<Rightarrow> Store \<times> (store_error + nat)" where
  "Reset rg s =
     (if rg_catalogFails rg then (s, Inl ListingRepositories)
      else (s\<lparr>so_repos := [], so_blobs := [], so_provenance := Missing, so_recipes := Missing, so_discarded := 0\<rparr>,
            Inr (length (so_repos s))))"

end
