(* ===== verification/Store_GC.thy ===== *)
theory Store_GC
  imports Store
begin

text \<open>
  Correctness of the mark-and-sweep: what the walk marks, that a sweep keeps everything
  reachable from a tag and everything younger than the grace period, and reclaims the rest.
\<close>

subsection \<open>Reachability\<close>

text \<open>\<open>walked\<close> are the manifests reached from the roots through indexes, \<open>reaches\<close> everything
  they reference.\<close>

inductive walked :: "(string \<times> manifest) list \<Rightarrow> string set \<Rightarrow> string \<Rightarrow> bool"
  for ms :: "(string \<times> manifest) list" and roots :: "string set" where
  root: "d \<in> roots \<Longrightarrow> walked ms roots d"
| child: "walked ms roots d \<Longrightarrow> map_of ms d = Some m \<Longrightarrow> isIndex (mf_mediaType m) \<Longrightarrow>
    c \<in> set (mf_references m) \<Longrightarrow> walked ms roots c"

inductive reaches :: "(string \<times> manifest) list \<Rightarrow> string set \<Rightarrow> string \<Rightarrow> bool"
  for ms :: "(string \<times> manifest) list" and roots :: "string set" where
  node: "walked ms roots d \<Longrightarrow> reaches ms roots d"
| leaf: "walked ms roots d \<Longrightarrow> map_of ms d = Some m \<Longrightarrow> c \<in> set (mf_references m) \<Longrightarrow> reaches ms roots c"

text \<open>No manifest of the walk is also a config or layer of an image manifest of the walk.\<close>

definition leaves_apart :: "(string \<times> manifest) list \<Rightarrow> string set \<Rightarrow> bool" where
  "leaves_apart ms roots \<longleftrightarrow>
     (\<forall>e m d. walked ms roots e \<and> map_of ms e = Some m \<and> \<not> isIndex (mf_mediaType m) \<and> d \<in> set (mf_references m)
        \<and> walked ms roots d \<longrightarrow> map_of ms d = None)"

lemma walked_mono: "walked ms A d \<Longrightarrow> A \<subseteq> B \<Longrightarrow> walked ms B d"
  by (induction rule: walked.induct) (auto intro: walked.intros)

lemma walked_trans: "walked ms {e} d \<Longrightarrow> walked ms A e \<Longrightarrow> walked ms A d"
  by (induction rule: walked.induct) (auto intro: walked.intros)

lemma reaches_trans: "reaches ms {e} d \<Longrightarrow> walked ms A e \<Longrightarrow> reaches ms A d"
  by (auto elim!: reaches.cases intro: reaches.intros walked_trans)

subsection \<open>The walk\<close>

lemma fold_mark_mono:
  assumes "\<And>c r. r \<subseteq> f r c"
  shows "r \<subseteq> foldl f r cs"
  using assms by (induction cs arbitrary: r) (auto, blast)

lemma mark_mono: "reached \<subseteq> markManifest ms fuel d reached"
proof (induction fuel arbitrary: d reached)
  case (Suc fuel)
  have "insert d reached \<subseteq> foldl (\<lambda>r c. markManifest ms fuel c r) (insert d reached) cs" for cs
    by (rule fold_mark_mono) (rule Suc)
  then show ?case by (auto split: option.splits)
qed simp

lemma mark_sound:
  "x \<in> markManifest ms fuel d reached \<Longrightarrow> x \<in> reached \<or> reaches ms {d} x"
proof (induction fuel arbitrary: d reached)
  case (Suc fuel)
  show ?case
  proof (cases "d \<in> reached")
    case False
    show ?thesis
    proof (cases "map_of ms d")
      case None
      with Suc.prems False show ?thesis by (auto intro: reaches.node walked.root)
    next
      case (Some m)
      have root: "walked ms {d} d" by (auto intro: walked.root)
      show ?thesis
      proof (cases "isIndex (mf_mediaType m)")
        case True
        have fold: "x \<in> foldl (\<lambda>r c. markManifest ms fuel c r) r cs \<Longrightarrow>
            x \<in> r \<or> (\<exists>c \<in> set cs. reaches ms {c} x)" for r cs
          using Suc.IH by (induction cs arbitrary: r) (simp, fastforce)
        have "walked ms {d} c" if "c \<in> set (mf_references m)" for c
          using root Some True that by (auto intro: walked.child)
        then show ?thesis using Suc.prems False Some True fold [of "insert d reached" "mf_references m"] root
          by (auto intro: reaches.node reaches_trans)
      next
        case False
        with Suc.prems \<open>d \<notin> reached\<close> Some root show ?thesis by (auto intro: reaches.intros)
      qed
    qed
  qed (use Suc.prems in simp)
qed simp

text \<open>
  Completeness. After the walk of one digest, everything newly marked is either closed under its
  references or was only marked as a leaf of an image manifest newly marked.
\<close>

definition closed_at :: "(string \<times> manifest) list \<Rightarrow> string set \<Rightarrow> string \<Rightarrow> bool" where
  "closed_at ms R x \<longleftrightarrow> (case map_of ms x of None \<Rightarrow> True | Some m \<Rightarrow> set (mf_references m) \<subseteq> R)"

definition leaf_of :: "(string \<times> manifest) list \<Rightarrow> string set \<Rightarrow> string \<Rightarrow> bool" where
  "leaf_of ms roots x \<longleftrightarrow> (\<exists>e m. walked ms roots e \<and> map_of ms e = Some m \<and> \<not> isIndex (mf_mediaType m)
     \<and> x \<in> set (mf_references m))"

lemma closed_mono: "closed_at ms R x \<Longrightarrow> R \<subseteq> R' \<Longrightarrow> closed_at ms R' x"
  by (auto simp: closed_at_def split: option.splits)

definition settled_in ::
  "(string \<times> manifest) list \<Rightarrow> string set \<Rightarrow> string set \<Rightarrow> string set \<Rightarrow> bool" where
  "settled_in ms roots R0 R \<longleftrightarrow> R0 \<subseteq> R \<and> (\<forall>x \<in> R - R0. closed_at ms R x \<or> leaf_of ms roots x)"

lemma settled_trans: "settled_in ms roots A B \<Longrightarrow> settled_in ms roots B C \<Longrightarrow> settled_in ms roots A C"
  unfolding settled_in_def using closed_mono by blast

lemma new_manifest_card:
  assumes "map_of ms d = Some m" and "d \<notin> reached"
  shows "card (dom (map_of ms) - insert d reached) < card (dom (map_of ms) - reached)"
  using assms by (intro psubset_card_mono) (auto simp: finite_dom_map_of)

lemma mark_settled:
  assumes "card (dom (map_of ms) - reached) < fuel" and "walked ms roots d"
  shows "settled_in ms roots reached (markManifest ms fuel d reached) \<and> d \<in> markManifest ms fuel d reached"
  using assms
proof (induction fuel arbitrary: d reached)
  case (Suc fuel)
  have fin: "finite (dom (map_of ms))" by (rule finite_dom_map_of)
  show ?case
  proof (cases "d \<in> reached")
    case True
    then show ?thesis by (simp add: settled_in_def)
  next
    case new: False
    show ?thesis
    proof (cases "map_of ms d")
      case None
      with new show ?thesis by (auto simp: settled_in_def closed_at_def)
    next
      case (Some m)
      show ?thesis
      proof (cases "isIndex (mf_mediaType m)")
        case False
        let ?R = "insert d reached \<union> set (mf_references m)"
        have d: "closed_at ms ?R d" using Some by (auto simp: closed_at_def)
        have "leaf_of ms roots x" if "x \<in> set (mf_references m)" for x
          using that Some False Suc.prems(2) unfolding leaf_of_def by blast
        with d new Some False show ?thesis by (auto simp: settled_in_def)
      next
        case True
        let ?step = "\<lambda>r c. markManifest ms fuel c r"
        have c1: "card (dom (map_of ms) - insert d reached) < fuel"
          using new_manifest_card [OF Some new] Suc.prems(1) by simp
        have fold: "insert d reached \<subseteq> r \<Longrightarrow> (\<And>c. c \<in> set cs \<Longrightarrow> walked ms roots c) \<Longrightarrow> settled_in ms roots r (foldl ?step r cs) \<and> set cs \<subseteq> foldl ?step r cs" for r cs
        proof (induction cs arbitrary: r)
          case Nil
          then show ?case by (simp add: settled_in_def)
        next
          case (Cons c cs)
          have "card (dom (map_of ms) - r) \<le> card (dom (map_of ms) - insert d reached)"
            using Cons.prems fin by (intro card_mono) auto
          then have s: "settled_in ms roots r (?step r c)" "c \<in> ?step r c"
            using Suc.IH [of r c] c1 Cons.prems(2) by auto
          then have "insert d reached \<subseteq> ?step r c" using Cons.prems by (auto simp: settled_in_def)
          from Cons.IH [OF this] Cons.prems(2) have t: "settled_in ms roots (?step r c) (foldl ?step (?step r c) cs)"
            "set cs \<subseteq> foldl ?step (?step r c) cs" by simp_all
          then have "c \<in> foldl ?step (?step r c) cs" using s(2) by (auto simp: settled_in_def)
          with settled_trans [OF s(1) t(1)] t(2) show ?case by simp
        qed
        let ?R = "foldl ?step (insert d reached) (mf_references m)"
        have R: "settled_in ms roots (insert d reached) ?R" "set (mf_references m) \<subseteq> ?R"
          using fold [OF order_refl, of "mf_references m"] walked.child [OF Suc.prems(2) Some True] by simp_all
        then have "closed_at ms ?R d" using Some by (simp add: closed_at_def)
        with R(1) have "settled_in ms roots reached ?R" "d \<in> ?R" by (auto simp: settled_in_def)
        with new Some True show ?thesis by simp
      qed
    qed
  qed
qed simp

text \<open>More fuel than manifests changes nothing, so the bound \<open>mark_fuel\<close> is the unbounded walk.\<close>

lemma card_dom_map_of: "card (dom (map_of ms)) \<le> length ms"
  by (metis card_length dom_map_of_conv_image_fst length_map set_map)

lemma markManifest_enough:
  assumes "card (dom (map_of ms) - reached) < fuel" and "card (dom (map_of ms) - reached) < fuel'"
  shows "markManifest ms fuel d reached = markManifest ms fuel' d reached"
  using assms
proof (induction fuel arbitrary: d reached fuel')
  case (Suc fuel)
  then obtain f where f: "fuel' = Suc f" by (cases fuel') auto
  show ?case
  proof (cases "d \<in> reached")
    case new: False
    show ?thesis
    proof (cases "map_of ms d")
      case (Some m)
      have c: "card (dom (map_of ms) - insert d reached) < fuel" "card (dom (map_of ms) - insert d reached) < f"
        using new_manifest_card [OF Some new] Suc.prems f by simp_all
      have fold: "insert d reached \<subseteq> r \<Longrightarrow> foldl (\<lambda>r c. markManifest ms fuel c r) r cs = foldl (\<lambda>r c. markManifest ms f c r) r cs" for r cs
      proof (induction cs arbitrary: r)
        case (Cons c cs)
        have "card (dom (map_of ms) - r) \<le> card (dom (map_of ms) - insert d reached)"
          using Cons.prems by (intro card_mono) (auto simp: finite_dom_map_of)
        then have "markManifest ms fuel c r = markManifest ms f c r" using Suc.IH [of r f c] c by simp
        moreover have "insert d reached \<subseteq> markManifest ms f c r" using Cons.prems mark_mono by blast
        ultimately show ?case using Cons.IH by simp
      qed simp
      show ?thesis using Some f new fold [OF order_refl, of "mf_references m"] by simp
    qed (simp add: f)
  qed (simp add: f)
qed simp

subsection \<open>One repository\<close>

definition readable_roots :: "registry \<Rightarrow> string \<Rightarrow> Repo \<Rightarrow> string set" where
  "readable_roots rg name repo = {d. \<exists>tag. (tag, d) \<in> set (rp_tags repo) \<and> \<not> rg_tagUnreadable rg name tag}"

lemma mark_tags:
  assumes ms: "ms = rg_manifests rg name" and "\<forall>(tag, d) \<in> set tags. rg_tagUnreadable rg name tag \<or> walked ms roots d"
  shows "settled_in ms roots r (foldl (\<lambda>r (tag, d). if rg_tagUnreadable rg name tag then r
            else markManifest ms (mark_fuel ms) d r) r tags)
    \<and> (\<forall>(tag, d) \<in> set tags. rg_tagUnreadable rg name tag \<or> d \<in> foldl (\<lambda>r (tag, d). if rg_tagUnreadable rg name tag then r
            else markManifest ms (mark_fuel ms) d r) r tags)
    \<and> (\<forall>x \<in> foldl (\<lambda>r (tag, d). if rg_tagUnreadable rg name tag then r
            else markManifest ms (mark_fuel ms) d r) r tags. x \<in> r \<or> reaches ms roots x)"
  using assms(2)
proof (induction tags arbitrary: r)
  case (Cons e tags)
  obtain tag d where e: "e = (tag, d)" by (cases e)
  let ?f = "\<lambda>r (tag, d). if rg_tagUnreadable rg name tag then r else markManifest ms (mark_fuel ms) d r"
  show ?case
  proof (cases "rg_tagUnreadable rg name tag")
    case True
    with Cons e show ?thesis by simp
  next
    case False
    let ?r = "markManifest ms (mark_fuel ms) d r"
    have w: "walked ms roots d" using Cons.prems e False by simp
    have "card (dom (map_of ms) - r) \<le> card (dom (map_of ms))"
      by (intro card_mono) (auto simp: finite_dom_map_of)
    then have "card (dom (map_of ms) - r) < mark_fuel ms"
      using card_dom_map_of [of ms] by (simp add: mark_fuel_def)
    from mark_settled [OF this w] have s: "settled_in ms roots r ?r" "d \<in> ?r" by simp_all
    have ih: "settled_in ms roots ?r (foldl ?f ?r tags)"
      "\<forall>(tag, d) \<in> set tags. rg_tagUnreadable rg name tag \<or> d \<in> foldl ?f ?r tags"
      "\<forall>x \<in> foldl ?f ?r tags. x \<in> ?r \<or> reaches ms roots x"
      using Cons.IH [of ?r] Cons.prems by simp_all
    have "d \<in> foldl ?f ?r tags" using ih(1) s(2) by (auto simp: settled_in_def)
    moreover have "x \<in> ?r \<Longrightarrow> x \<in> r \<or> reaches ms roots x" for x
      using mark_sound reaches_trans [OF _ w] by blast
    ultimately show ?thesis using e False settled_trans [OF s(1) ih(1)] ih(2,3) by auto
  qed
qed (simp add: settled_in_def)

lemma markRepository_exact:
  assumes m: "markRepository rg name repo = Inr R"
    and apart: "leaves_apart (rg_manifests rg name) (readable_roots rg name repo)"
  shows "R = {x. reaches (rg_manifests rg name) (readable_roots rg name repo) x}"
proof -
  let ?ms = "rg_manifests rg name" and ?roots = "readable_roots rg name repo"
  have "\<forall>(tag, d) \<in> set (rp_tags repo). rg_tagUnreadable rg name tag \<or> walked ?ms ?roots d"
    by (auto simp: readable_roots_def intro: walked.root)
  from mark_tags [OF refl this, of "{}"] m have
    s: "settled_in ?ms ?roots {} R" and r: "\<forall>(tag, d) \<in> set (rp_tags repo). rg_tagUnreadable rg name tag \<or> d \<in> R"
    and sound: "\<forall>x \<in> R. reaches ?ms ?roots x"
    by (simp_all add: markRepository_def split: if_splits)
  have closed: "closed_at ?ms R x" if "x \<in> R" "walked ?ms ?roots x" for x
  proof -
    have "closed_at ?ms R x \<or> leaf_of ?ms ?roots x" using s that(1) by (auto simp: settled_in_def)
    moreover have "map_of ?ms x = None" if "leaf_of ?ms ?roots x"
      using that apart \<open>walked _ _ x\<close> unfolding leaves_apart_def leaf_of_def by blast
    ultimately show ?thesis by (auto simp: closed_at_def)
  qed
  have walked: "x \<in> R" if "walked ?ms ?roots x" for x
    using that
  proof (induction rule: walked.induct)
    case (root d)
    then show ?case using r by (auto simp: readable_roots_def)
  next
    case (child d m c)
    with closed [of d] show ?case by (auto simp: closed_at_def)
  qed
  have "x \<in> R" if "reaches ?ms ?roots x" for x
    using that
  proof cases
    case node
    then show ?thesis by (rule walked)
  next
    case (leaf d m)
    with closed [of d] walked [of d] show ?thesis by (auto simp: closed_at_def)
  qed
  with sound show ?thesis by blast
qed

subsection \<open>The sweep\<close>

definition young_blob :: "time \<Rightarrow> time option \<Rightarrow> bool" where
  "young_blob cutoff t \<longleftrightarrow> (case t of Some t \<Rightarrow> t > cutoff | None \<Rightarrow> False)"

lemma sweep_unfold:
  "sweep rg now s =
     (if rg_catalogFails rg then (s, Inl ListingRepositories)
      else (let (repos, out) = sweep_repos rg (now - sweepGrace) (so_repos s) {} \<lparr>sw_Removed = 0, sw_Deferred = 0\<rparr>
            in case out of
                 Inl e \<Rightarrow> (s\<lparr>so_repos := repos\<rparr>, Inl e)
               | Inr (global, res) \<Rightarrow>
                   (s\<lparr>so_repos := repos, so_blobs := fst (sweep_entries (young_blob (now - sweepGrace)) global (so_blobs s))\<rparr>,
                    Inr (add_result res (snd (sweep_entries (young_blob (now - sweepGrace)) global (so_blobs s)))))))"
  by (auto simp: sweep_def Let_def young_blob_def [abs_def] split: prod.splits sum.splits)

lemma prune_links_simps:
  "rp_tags (fst (pruneRepositoryLinks R cutoff repo)) = rp_tags repo"
  "rp_revisions (fst (pruneRepositoryLinks R cutoff repo)) =
     filter (\<lambda>(h, l). digest_of h \<in> R \<or> linkFresh l cutoff) (rp_revisions repo)"
  "rp_layers (fst (pruneRepositoryLinks R cutoff repo)) =
     filter (\<lambda>(h, l). digest_of h \<in> R \<or> linkFresh l cutoff) (rp_layers repo)"
  by (simp_all add: pruneRepositoryLinks_def sweep_entries_def Let_def)

text \<open>Each repository is left alone or has its own links pruned against its own marks.\<close>

lemma sweep_repos_each:
  assumes "sweep_repos rg cutoff repos G res = (repos', out)"
  shows "list_all2 (\<lambda>(n, r) (n', r'). n' = n \<and> (r' = r \<or>
      (\<exists>R. markRepository rg n r = Inr R \<and> r' = fst (pruneRepositoryLinks R cutoff r)))) repos repos'"
    and "out = Inr (G', res') \<Longrightarrow> (\<forall>(n, r) \<in> set repos. \<exists>R. markRepository rg n r = Inr R)
      \<and> G' = G \<union> (\<Union>(n, r) \<in> set repos. {x. \<exists>R. markRepository rg n r = Inr R \<and> x \<in> R})
      \<and> list_all2 (\<lambda>(n, r) (n', r'). n' = n \<and>
          (\<exists>R. markRepository rg n r = Inr R \<and> r' = fst (pruneRepositoryLinks R cutoff r))) repos repos'"
proof -
  have "list_all2 (\<lambda>(n, r) (n', r'). n' = n \<and> (r' = r \<or>
      (\<exists>R. markRepository rg n r = Inr R \<and> r' = fst (pruneRepositoryLinks R cutoff r)))) repos repos'
    \<and> (out = Inr (G', res') \<longrightarrow> (\<forall>(n, r) \<in> set repos. \<exists>R. markRepository rg n r = Inr R)
      \<and> G' = G \<union> (\<Union>(n, r) \<in> set repos. {x. \<exists>R. markRepository rg n r = Inr R \<and> x \<in> R})
      \<and> list_all2 (\<lambda>(n, r) (n', r'). n' = n \<and>
          (\<exists>R. markRepository rg n r = Inr R \<and> r' = fst (pruneRepositoryLinks R cutoff r))) repos repos')"
    using assms
  proof (induction repos arbitrary: G res repos')
    case (Cons e repos)
    obtain n r where e: "e = (n, r)" by (cases e)
    show ?case
    proof (cases "markRepository rg n r")
      case (Inl err)
      with Cons.prems e show ?thesis by (auto intro: list_all2_refl)
    next
      case (Inr R)
      obtain p1 p2 where p: "pruneRepositoryLinks R cutoff r = (p1, p2)" by fastforce
      obtain rs o2 where rec: "sweep_repos rg cutoff repos (G \<union> R) (add_result res p2) = (rs, o2)" by fastforce
      have eq: "repos' = (n, p1) # rs" "out = o2" using Cons.prems e Inr p rec by simp_all
      from Cons.IH [OF rec [folded eq(2)]] show ?thesis using eq(1) e Inr p by auto
    qed
  qed auto
  then show "list_all2 (\<lambda>(n, r) (n', r'). n' = n \<and> (r' = r \<or>
      (\<exists>R. markRepository rg n r = Inr R \<and> r' = fst (pruneRepositoryLinks R cutoff r)))) repos repos'"
    and "out = Inr (G', res') \<Longrightarrow> (\<forall>(n, r) \<in> set repos. \<exists>R. markRepository rg n r = Inr R)
      \<and> G' = G \<union> (\<Union>(n, r) \<in> set repos. {x. \<exists>R. markRepository rg n r = Inr R \<and> x \<in> R})
      \<and> list_all2 (\<lambda>(n, r) (n', r'). n' = n \<and>
          (\<exists>R. markRepository rg n r = Inr R \<and> r' = fst (pruneRepositoryLinks R cutoff r))) repos repos'"
    by blast+
qed

text \<open>What a tag of the store holds on to, in one repository and anywhere.\<close>

definition tag_reaches :: "registry \<Rightarrow> string \<Rightarrow> Repo \<Rightarrow> string \<Rightarrow> bool" where
  "tag_reaches rg n r d \<longleftrightarrow> reaches (rg_manifests rg n) (readable_roots rg n r) d"

definition apart_everywhere :: "registry \<Rightarrow> Store \<Rightarrow> bool" where
  "apart_everywhere rg s \<longleftrightarrow>
     (\<forall>(n, r) \<in> set (so_repos s). leaves_apart (rg_manifests rg n) (readable_roots rg n r))"

lemma marks_exact:
  "apart_everywhere rg s \<Longrightarrow> (n, r) \<in> set (so_repos s) \<Longrightarrow> markRepository rg n r = Inr R \<Longrightarrow> x \<in> R \<longleftrightarrow> tag_reaches rg n r x"
  using markRepository_exact [of rg n r R] by (auto simp: apart_everywhere_def tag_reaches_def)

text \<open>An example store: one tagged image with one layer, and a stale blob.\<close>

definition demo_registry :: registry where
  "demo_registry = \<lparr>rg_validName = \<lambda>_. True,
     rg_manifests = \<lambda>n. [(''sha256:a'', \<lparr>mf_mediaType = ''image'', mf_references = [''sha256:b'']\<rparr>)],
     rg_tagUnreadable = \<lambda>_ _. False, rg_tagsFail = \<lambda>_. False, rg_catalogFails = False\<rparr>"

definition demo_repo :: Repo where
  "demo_repo = \<lparr>rp_tags = [(''v1'', ''sha256:a'')], rp_revisions = [(''a'', LinkAt 1)], rp_layers = [(''b'', LinkAt 1)]\<rparr>"

definition demo_store :: Store where
  "demo_store = \<lparr>so_repos = [(''r'', demo_repo)], so_blobs = [(''a'', Some 1), (''b'', Some 1), (''c'', Some 1)],
     so_format = Present 1, so_mediaID = Present ''m'', so_provenance = Missing, so_recipes = Missing,
     so_metaOK = True, so_discarded = 0\<rparr>"

abbreviation demo_now :: time where "demo_now \<equiv> 900000000000"

lemma demo_roots: "readable_roots demo_registry ''r'' demo_repo = {''sha256:a''}"
  by (auto simp: readable_roots_def demo_registry_def demo_repo_def)

lemma demo_walked: "walked (rg_manifests demo_registry ''r'') {''sha256:a''} d \<longleftrightarrow> d = ''sha256:a''"
proof
  assume "walked (rg_manifests demo_registry ''r'') {''sha256:a''} d"
  then show "d = ''sha256:a''"
    by (induction rule: walked.induct) (auto simp: demo_registry_def isIndex_def split: if_splits)
qed (auto intro: walked.root)

lemma demo_apart: "apart_everywhere demo_registry demo_store"
proof -
  have "leaves_apart (rg_manifests demo_registry ''r'') {''sha256:a''}"
    unfolding leaves_apart_def demo_walked by (auto simp: demo_registry_def)
  then show ?thesis by (simp add: apart_everywhere_def demo_store_def demo_roots)
qed

lemma demo_reaches: "tag_reaches demo_registry ''r'' demo_repo (digest_of ''b'')"
  unfolding tag_reaches_def demo_roots
  by (rule reaches.leaf [of _ _ "''sha256:a''" "\<lparr>mf_mediaType = ''image'', mf_references = [''sha256:b'']\<rparr>"])
     (auto simp: demo_walked digest_of_def, simp_all add: demo_registry_def)

lemma demo_sweep:
  "\<exists>s' res. sweep demo_registry demo_now demo_store = (s', Inr res) \<and> so_blobs s' = [(''a'', Some 1), (''b'', Some 1)]"
  by (simp add: sweep_def demo_store_def demo_repo_def demo_registry_def markRepository_def mark_fuel_def isIndex_def
      pruneRepositoryLinks_def sweep_entries_def digest_of_def Let_def add_result_def)

subsection \<open>Main results\<close>

text \<open>C14: Garbage collection does not lose reachable content, in a store where no manifest that a tag reaches
  is also listed as a config or layer by an image manifest a tag reaches. Whatever happens during a
  sweep, even when it stops on an error, every repository keeps its tags, and whatever a readable tag
  reaches in a repository (the tagged manifest, index children, configs, layers) keeps its links
  in that repository and its blob. Without the condition content is lost (\<open>shadowed_manifest_swept\<close>).\<close>

theorem sweep_keeps_reachable:
  assumes "sweep rg now s = (s', out)" and "apart_everywhere rg s" and "(n, r) \<in> set (so_repos s)"
    and "tag_reaches rg n r (digest_of h)"
  shows "\<exists>r'. (n, r') \<in> set (so_repos s') \<and> rp_tags r' = rp_tags r
     \<and> (\<forall>l. (h, l) \<in> set (rp_revisions r) \<longrightarrow> (h, l) \<in> set (rp_revisions r'))
     \<and> (\<forall>l. (h, l) \<in> set (rp_layers r) \<longrightarrow> (h, l) \<in> set (rp_layers r'))
     \<and> (\<forall>t. (h, t) \<in> set (so_blobs s) \<longrightarrow> (h, t) \<in> set (so_blobs s'))"
proof (cases "rg_catalogFails rg")
  case True
  then show ?thesis using assms(1,3) by (auto simp: sweep_unfold)
next
  case False
  let ?c = "now - sweepGrace"
  obtain repos o2 where rec: "sweep_repos rg ?c (so_repos s) {} \<lparr>sw_Removed = 0, sw_Deferred = 0\<rparr> = (repos, o2)" by fastforce
  note each = sweep_repos_each [OF rec]
  have repos: "so_repos s' = repos" using assms(1) False rec by (auto simp: sweep_unfold split: sum.splits)
  obtain r' where r': "(n, r') \<in> set repos" "r' = r \<or>
      (\<exists>R. markRepository rg n r = Inr R \<and> r' = fst (pruneRepositoryLinks R ?c r))"
    using list_all2_left [OF each(1) assms(3)] by auto
  have "(h, t) \<in> set (so_blobs s')" if "(h, t) \<in> set (so_blobs s)" for t
  proof (cases o2)
    case (Inl e)
    then show ?thesis using assms(1) False rec that by (auto simp: sweep_unfold)
  next
    case (Inr p)
    obtain G res where p: "p = (G, res)" by (cases p)
    from each(2) [of G res] Inr p assms(3) obtain R where "markRepository rg n r = Inr R" "R \<subseteq> G" by fastforce
    then have "digest_of h \<in> G" using marks_exact [OF assms(2,3)] assms(4) by blast
    then show ?thesis using assms(1) False rec that Inr p by (auto simp: sweep_unfold sweep_entries_def)
  qed
  moreover have "rp_tags r' = rp_tags r \<and> (\<forall>l. (h, l) \<in> set (rp_revisions r) \<longrightarrow> (h, l) \<in> set (rp_revisions r'))
      \<and> (\<forall>l. (h, l) \<in> set (rp_layers r) \<longrightarrow> (h, l) \<in> set (rp_layers r'))"
    using r'(2) marks_exact [OF assms(2,3)] assms(4) by (auto simp: prune_links_simps)
  ultimately show ?thesis using r'(1) repos by blast
qed

theorem sweep_keeps_reachable_witness:
  "\<exists>s' out. sweep demo_registry demo_now demo_store = (s', out) \<and> (''b'', Some 1) \<in> set (so_blobs s')"
proof -
  obtain s' out where e: "sweep demo_registry demo_now demo_store = (s', out)" by fastforce
  have "(''r'', demo_repo) \<in> set (so_repos demo_store)" by (simp add: demo_store_def)
  from sweep_keeps_reachable [OF e demo_apart this demo_reaches] e show ?thesis
    by (auto simp: demo_store_def)
qed

text \<open>The walk stops at what is marked, whatever it was marked as. When a repository holds a tagged image whose
  manifest an image tagged before it lists as a layer, the manifest is already marked when its own tag is
  reached, and nothing below it is: the sweep removes its layers, although a readable tag reaches them.\<close>

theorem shadowed_manifest_swept:
  assumes "so_repos s = [(n, r)]" "rp_tags r = [(t1, d1), (t2, d2)]" "rg_validName rg n" "\<not> rg_tagsFail rg n" "\<not> rg_catalogFails rg"
    and "\<not> rg_tagUnreadable rg n t1" "\<not> rg_tagUnreadable rg n t2"
    and "map_of (rg_manifests rg n) d1 = Some m1" "\<not> isIndex (mf_mediaType m1)" "d2 \<in> set (mf_references m1)"
    and "map_of (rg_manifests rg n) d2 = Some m2" "digest_of h \<in> set (mf_references m2)" "digest_of h \<notin> insert d1 (set (mf_references m1))"
    and "t \<le> now - sweepGrace"
  shows "tag_reaches rg n r (digest_of h) \<and> (\<exists>s' res. sweep rg now s = (s', Inr res) \<and> (h, Some t) \<notin> set (so_blobs s')
    \<and> (\<forall>r'. (n, r') \<in> set (so_repos s') \<longrightarrow> rp_tags r' = rp_tags r \<and> (h, LinkAt t) \<notin> set (rp_layers r')))"
proof
  have "d2 \<in> readable_roots rg n r" using assms(2,7) by (auto simp: readable_roots_def)
  then show "tag_reaches rg n r (digest_of h)"
    unfolding tag_reaches_def using assms(11,12) reaches.leaf walked.root by metis
next
  let ?R = "insert d1 (set (mf_references m1))"
  have mark: "markRepository rg n r = Inr ?R" using assms(2-4,6-10) by (auto simp: markRepository_def mark_fuel_def)
  obtain r' x where p: "pruneRepositoryLinks ?R (now - sweepGrace) r = (r', x)" by fastforce
  have links: "rp_tags r' = rp_tags r" "rp_layers r' = filter (\<lambda>(h, l). digest_of h \<in> ?R \<or> linkFresh l (now - sweepGrace)) (rp_layers r)"
    using p prune_links_simps [of ?R "now - sweepGrace" r] by simp_all
  have "sweep_repos rg (now - sweepGrace) (so_repos s) {} \<lparr>sw_Removed = 0, sw_Deferred = 0\<rparr> = ([(n, r')], Inr (?R, add_result \<lparr>sw_Removed = 0, sw_Deferred = 0\<rparr> x))"
    using assms(1) mark p by simp
  with assms(5) obtain s' res where e: "sweep rg now s = (s', Inr res)" "so_repos s' = [(n, r')]"
    "so_blobs s' = fst (sweep_entries (young_blob (now - sweepGrace)) ?R (so_blobs s))" by (simp add: sweep_unfold)
  have "(h, Some t) \<notin> set (so_blobs s')" using e(3) assms(13,14) by (simp add: sweep_entries_def young_blob_def)
  moreover have "(h, LinkAt t) \<notin> set (rp_layers r')" using links(2) assms(13,14) by auto
  ultimately show "\<exists>s' res. sweep rg now s = (s', Inr res) \<and> (h, Some t) \<notin> set (so_blobs s')
    \<and> (\<forall>r'. (n, r') \<in> set (so_repos s') \<longrightarrow> rp_tags r' = rp_tags r \<and> (h, LinkAt t) \<notin> set (rp_layers r'))"
    using e(1,2) links(1) by auto
qed

text \<open>An image \<open>a\<close> that carries the manifest \<open>b\<close> of another tagged image as a layer.\<close>

definition shadow_registry :: registry where
  "shadow_registry = demo_registry\<lparr>rg_manifests := \<lambda>n. [(''sha256:a'', \<lparr>mf_mediaType = ''image'', mf_references = [''sha256:b'']\<rparr>),
     (''sha256:b'', \<lparr>mf_mediaType = ''image'', mf_references = [''sha256:c'']\<rparr>)]\<rparr>"

definition shadow_repo :: Repo where
  "shadow_repo = \<lparr>rp_tags = [(''v1'', ''sha256:a''), (''v2'', ''sha256:b'')], rp_revisions = [(''a'', LinkAt 1), (''b'', LinkAt 1)],
     rp_layers = [(''b'', LinkAt 1), (''c'', LinkAt 1)]\<rparr>"

theorem shadowed_manifest_swept_witness:
  "(''c'', Some 1) \<in> set (so_blobs (demo_store\<lparr>so_repos := [(''r'', shadow_repo)]\<rparr>)) \<and> tag_reaches shadow_registry ''r'' shadow_repo (digest_of ''c'')
     \<and> (\<exists>s' res. sweep shadow_registry demo_now (demo_store\<lparr>so_repos := [(''r'', shadow_repo)]\<rparr>) = (s', Inr res) \<and> (''c'', Some 1) \<notin> set (so_blobs s'))"
proof -
  have "(''c'', Some 1) \<in> set (so_blobs (demo_store\<lparr>so_repos := [(''r'', shadow_repo)]\<rparr>))" by (simp add: demo_store_def)
  moreover have "tag_reaches shadow_registry ''r'' shadow_repo (digest_of ''c'') \<and>
      (\<exists>s' res. sweep shadow_registry demo_now (demo_store\<lparr>so_repos := [(''r'', shadow_repo)]\<rparr>) = (s', Inr res) \<and> (''c'', Some 1) \<notin> set (so_blobs s')
        \<and> (\<forall>r'. (''r'', r') \<in> set (so_repos s') \<longrightarrow> rp_tags r' = rp_tags shadow_repo \<and> (''c'', LinkAt 1) \<notin> set (rp_layers r')))"
    by (rule shadowed_manifest_swept [where ?t1.0 = "''v1''" and ?d1.0 = "''sha256:a''" and ?t2.0 = "''v2''" and ?d2.0 = "''sha256:b''"
          and ?m1.0 = "\<lparr>mf_mediaType = ''image'', mf_references = [''sha256:b'']\<rparr>" and ?m2.0 = "\<lparr>mf_mediaType = ''image'', mf_references = [''sha256:c'']\<rparr>"])
      (simp_all add: shadow_registry_def shadow_repo_def demo_registry_def isIndex_def digest_of_def)
  ultimately show ?thesis by blast
qed

text \<open>The accounting of a sweep.\<close>

definition links :: "(string \<times> Repo) list \<Rightarrow> nat" where
  "links repos = sum_list (map (\<lambda>(n, r). length (rp_revisions r) + length (rp_layers r)) repos)"

lemma sweep_entries_count:
  "sw_Removed (snd (sweep_entries young R es)) + length (fst (sweep_entries young R es)) = length es"
  by (induction es) (auto simp: sweep_entries_def)

lemma prune_links_count:
  "sw_Removed (snd (pruneRepositoryLinks R cutoff r)) + length (rp_revisions (fst (pruneRepositoryLinks R cutoff r)))
     + length (rp_layers (fst (pruneRepositoryLinks R cutoff r))) = length (rp_revisions r) + length (rp_layers r)"
  using sweep_entries_count [of "\<lambda>l. linkFresh l cutoff" R "rp_revisions r"]
    sweep_entries_count [of "\<lambda>l. linkFresh l cutoff" R "rp_layers r"]
  by (auto simp: pruneRepositoryLinks_def add_result_def Let_def split: prod.splits)

lemma sweep_repos_count:
  "sweep_repos rg cutoff repos G res = (repos', Inr (G', res')) \<Longrightarrow>
     sw_Removed res' + links repos' = sw_Removed res + links repos"
proof (induction repos arbitrary: G res repos')
  case (Cons e repos)
  obtain n r where e: "e = (n, r)" by (cases e)
  from Cons.prems e obtain R where R: "markRepository rg n r = Inr R" by (auto split: sum.splits)
  obtain p1 p2 where p: "pruneRepositoryLinks R cutoff r = (p1, p2)" by fastforce
  obtain rs o2 where rec: "sweep_repos rg cutoff repos (G \<union> R) (add_result res p2) = (rs, o2)" by fastforce
  have eq: "repos' = (n, p1) # rs" "o2 = Inr (G', res')" using Cons.prems e R p rec by simp_all
  from Cons.IH [OF rec [unfolded eq(2)]] prune_links_count [of R cutoff r] show ?case
    using eq(1) e p by (simp add: links_def add_result_def)
qed simp

text \<open>A sweep that succeeds reclaims exactly the rest: a blob survives if and only if some
  readable tag of some repository reaches it or its data is younger than the grace period, and
  the number of pieces reported as removed is the number of links and blobs that went.\<close>

theorem sweep_reclaims_exactly:
  assumes "sweep rg now s = (s', Inr res)" and "apart_everywhere rg s"
  shows "so_blobs s' = filter (\<lambda>(h, t). (\<exists>(n, r) \<in> set (so_repos s). tag_reaches rg n r (digest_of h))
        \<or> young_blob (now - sweepGrace) t) (so_blobs s)
    \<and> sw_Removed res + links (so_repos s') + length (so_blobs s') = links (so_repos s) + length (so_blobs s)"
proof -
  let ?c = "now - sweepGrace"
  have cat: "\<not> rg_catalogFails rg" using assms(1) by (auto simp: sweep_unfold split: if_splits)
  obtain repos o2 where rec: "sweep_repos rg ?c (so_repos s) {} \<lparr>sw_Removed = 0, sw_Deferred = 0\<rparr> = (repos, o2)" by fastforce
  obtain G r0 where o2: "o2 = Inr (G, r0)" using assms(1) cat rec by (auto simp: sweep_unfold split: sum.splits)
  let ?e = "sweep_entries (young_blob ?c) G (so_blobs s)"
  have s': "so_repos s' = repos" "so_blobs s' = fst ?e" "res = add_result r0 (snd ?e)"
    using assms(1) cat rec o2 by (auto simp: sweep_unfold)
  have G: "x \<in> G \<longleftrightarrow> (\<exists>(n, r) \<in> set (so_repos s). tag_reaches rg n r x)" for x
  proof -
    have "\<forall>(n, r) \<in> set (so_repos s). \<exists>R. markRepository rg n r = Inr R"
      and "G = (\<Union>(n, r) \<in> set (so_repos s). {x. \<exists>R. markRepository rg n r = Inr R \<and> x \<in> R})"
      using sweep_repos_each(2) [OF rec o2] by simp_all
    then show ?thesis using marks_exact [OF assms(2)] by fastforce
  qed
  have "so_blobs s' = filter (\<lambda>(h, t). (\<exists>(n, r) \<in> set (so_repos s). tag_reaches rg n r (digest_of h))
        \<or> young_blob ?c t) (so_blobs s)"
    unfolding s'(2) sweep_entries_def G by simp
  moreover have "sw_Removed res + links (so_repos s') + length (so_blobs s') = links (so_repos s) + length (so_blobs s)"
    using sweep_repos_count [OF rec [unfolded o2]] sweep_entries_count [of "young_blob ?c" G "so_blobs s"] s'
    by (simp add: add_result_def)
  ultimately show ?thesis by blast
qed

theorem sweep_reclaims_exactly_witness:
  "\<exists>s' res. sweep demo_registry demo_now demo_store = (s', Inr res) \<and> sw_Removed res + links (so_repos s') = 3"
proof -
  obtain s' res where e: "sweep demo_registry demo_now demo_store = (s', Inr res)"
    "so_blobs s' = [(''a'', Some 1), (''b'', Some 1)]" using demo_sweep by blast
  with sweep_reclaims_exactly [OF e(1) demo_apart] show ?thesis
    by (simp add: links_def demo_store_def demo_repo_def)
qed

subsection \<open>Removal\<close>

lemma remove_repo_dir_repos: "so_repos (remove_repo_dir name s) = filter (\<lambda>(n, _). \<not> under name n) (so_repos s)"
  by (simp add: remove_repo_dir_def)

lemma dropProvenance_repos: "dropProvenance name s = Inr s' \<Longrightarrow> so_repos s' = so_repos s \<and> so_blobs s' = so_blobs s"
  by (auto simp: dropProvenance_def write_provenance_def bind_r_Inr_iff split: if_splits)

text \<open>A repository that a readable recipe graph lists among a recipe's ingredients is refused:
  \<open>DeleteRepository\<close> answers with the managing recipes and changes nothing.\<close>

theorem DeleteRepository_refuses_managed:
  assumes "RecipeRecords s = Inr records" and "rec \<in> set records"
    and "ing \<in> set (rr_Ingredients rec)" and "ir_Repo ing = name"
  shows "\<exists>recipes. DeleteRepository rg now name s = (s, Some (RecipeManaged name recipes))
    \<and> recipeKey (rr_Name rec) (rr_Version rec) \<in> set recipes"
proof -
  have "recipeKey (rr_Name rec) (rr_Version rec) \<in> set (ManagingRecipes name s)"
    using assms by (auto simp: ManagingRecipes_def list_ex_iff)
  then show ?thesis by (auto simp: DeleteRepository_def Let_def)
qed

definition nested_store :: Store where
  "nested_store = demo_store\<lparr>so_repos := [(''h.io/app'', demo_repo), (''h.io/app/chart'', demo_repo)],
     so_recipes := Present [(''x@1'', \<lparr>rr_Name = ''x'', rr_Version = ''1'', rr_CookbookRepo = [], rr_ArtifactRepo = [],
       rr_ArtifactTag = [], rr_Digest = [], rr_RunID = [], rr_Zone = [], rr_ResolvedAt = 0, rr_Verified = True,
       rr_TrustScope = [], rr_Ingredients = [\<lparr>ir_Name = ''c'', ir_Kind = ''helm'', ir_Repo = ''h.io/app/chart'',
         ir_Tag = ''v1'', ir_Digest = ''sha256:a''\<rparr>]\<rparr>)]\<rparr>"

theorem DeleteRepository_refuses_managed_witness:
  "\<exists>recipes. DeleteRepository demo_registry demo_now ''h.io/app/chart'' nested_store
     = (nested_store, Some (RecipeManaged ''h.io/app/chart'' recipes)) \<and> ''x@1'' \<in> set recipes"
proof -
  obtain rec ing where r: "RecipeRecords nested_store = Inr [rec]" "ing \<in> set (rr_Ingredients rec)"
    "ir_Repo ing = ''h.io/app/chart''" "recipeKey (rr_Name rec) (rr_Version rec) = ''x@1''"
    by (simp add: RecipeRecords_def readMeta_def nested_store_def demo_store_def recipeKey_def)
  from DeleteRepository_refuses_managed [OF r(1) _ r(2,3), of demo_registry demo_now] r(4) show ?thesis by auto
qed

text \<open>Deleting a repository wipes the repositories nested below it. The guard compares exact
  names, but the directory is removed recursively: a recipe-managed repository whose path
  extends the deleted one disappears with it, tags and all.\<close>

theorem DeleteRepository_wipes_nested:
  "ManagingRecipes ''h.io/app/chart'' nested_store = [''x@1'']
   \<and> (\<exists>s'. DeleteRepository demo_registry demo_now ''h.io/app'' nested_store = (s', None) \<and> so_repos s' = [])"
  by (simp add: DeleteRepository_def ManagingRecipes_def RecipeRecords_def readMeta_def recipeKey_def nested_store_def
      demo_store_def under_def remove_repo_dir_def dropProvenance_def sweep_def demo_registry_def sweep_entries_def
      prefix_def Let_def)

end
