(* ===== verification/Prune.thy ===== *)
theory Prune
  imports Store_GC
begin

text \<open>
  Pruning to the Retriever, \<^verbatim>\<open>internal/engine/prune.go\<close>. The store is used through the Go
  interface \<^verbatim>\<open>Pruner\<close>, here a record of operations over an abstract store state; the
  locale \<open>pruner\<close> states what the engine relies on, its lemmas are the engine's guarantees, and
  the interpretation discharges the laws for the store of \<open>Store\<close>.
\<close>

subsection \<open>The interface\<close>

record 's Pruner =
  pn_RecipeRecords :: "'s \<Rightarrow> store_error + RecipeRecord list"
  pn_DeleteRecipeRecord :: "string \<Rightarrow> string \<Rightarrow> 's \<Rightarrow> store_error + 's"
  pn_ProvenanceOf :: "string \<Rightarrow> 's \<Rightarrow> Provenance option"
  pn_PruneTags :: "TagRef list \<Rightarrow> 's \<Rightarrow> 's \<times> (store_error + PruneResult)"
  pn_ManifestSize :: "string \<Rightarrow> string \<Rightarrow> 's \<Rightarrow> int option"

subsection \<open>Candidates\<close>

record candidate =
  ca_ref :: TagRef
  ca_digest :: string

definition candidatesOf :: "string \<Rightarrow> RecipeRecord \<Rightarrow> candidate list" where
  "candidatesOf base rec =
     map (\<lambda>ing. \<lparr>ca_ref = (ir_Repo ing, ir_Tag ing), ca_digest = ir_Digest ing\<rparr>)
       (filter (\<lambda>ing. \<not> (ir_Repo ing = [] \<or> ir_Tag ing = [])) (rr_Ingredients rec))
     @ (case PathWithBase base (rr_CookbookRepo rec) of
          Inl _ \<Rightarrow> []
        | Inr repo \<Rightarrow> if rr_Version rec \<noteq> []
            then [\<lparr>ca_ref = (repo, rr_Version rec), ca_digest = rr_Digest rec\<rparr>] else [])"

definition referencedTags :: "string \<Rightarrow> RecipeRecord list \<Rightarrow> TagRef set" where
  "referencedTags base keep = set (concat (map (\<lambda>r. map ca_ref (candidatesOf base r)) keep))"

text \<open>\<^verbatim>\<open>strings.Replace(d, "sha256:", "sha256-", 1)\<close> on a digest with that prefix.\<close>

definition dash_digest :: "string \<Rightarrow> string" where
  "dash_digest d = ''sha256-'' @ drop 7 d"

definition signatureRefs :: "string \<Rightarrow> string \<Rightarrow> TagRef list" where
  "signatureRefs repo dgst =
     (if \<not> has_prefix dgst ''sha256:'' then []
      else [(repo, dash_digest dgst @ ''.sig''), (repo, dash_digest dgst)])"

definition splitRecords ::
  "RecipeRecord list \<Rightarrow> string set \<Rightarrow> RecipeRecord list \<times> RecipeRecord list" where
  "splitRecords records keys =
     (let live = (\<lambda>r. recipeKey (rr_Name r) (rr_Version r) \<in> keys) in
      (sort_key (\<lambda>r. recipeKey (rr_Name r) (rr_Version r)) (filter (\<lambda>r. \<not> live r) records),
       filter live records))"

definition eligible :: "(string \<Rightarrow> Provenance option) \<Rightarrow> TagRef set \<Rightarrow> candidate \<Rightarrow> bool" where
  "eligible prov kept cand \<longleftrightarrow>
     ca_ref cand \<notin> kept
     \<and> (case prov (fst (ca_ref cand)) of None \<Rightarrow> False | Some p \<Rightarrow> pv_Class p = ProvenanceRecipe)"

text \<open>The candidates of the stale records that are unreferenced and recipe-managed: what the run
  unlinks and what it reports.\<close>

definition pruneCandidates ::
  "string \<Rightarrow> (string \<Rightarrow> Provenance option) \<Rightarrow> RecipeRecord list \<Rightarrow> TagRef set
     \<Rightarrow> TagRef list \<times> Pruned list" where
  "pruneCandidates base prov stale kept =
     (let rows = concat (map (\<lambda>rec. map (\<lambda>c. (rec, c)) (filter (eligible prov kept) (candidatesOf base rec))) stale)
      in (concat (map (\<lambda>(rec, c). ca_ref c # signatureRefs (fst (ca_ref c)) (ca_digest c)) rows),
          map (\<lambda>(rec, c). \<lparr>pr_Repo = fst (ca_ref c), pr_Tag = snd (ca_ref c), pr_Digest = ca_digest c,
                           pr_Recipe = recipeKey (rr_Name rec) (rr_Version rec)\<rparr>) rows))"

subsection \<open>The run\<close>

record resolvedRecipes =
  rs_keys :: "string set"
  rs_complete :: bool

definition newResolvedRecipes :: resolvedRecipes where
  "newResolvedRecipes = \<lparr>rs_keys = {}, rs_complete = True\<rparr>"

definition keep_recipe :: "string \<Rightarrow> string \<Rightarrow> resolvedRecipes \<Rightarrow> resolvedRecipes" where
  "keep_recipe name version r = r\<lparr>rs_keys := insert (recipeKey name version) (rs_keys r)\<rparr>"

definition failed_recipe :: "resolvedRecipes \<Rightarrow> resolvedRecipes" where
  "failed_recipe r = r\<lparr>rs_complete := False\<rparr>"

definition snapshot :: "resolvedRecipes \<Rightarrow> string set \<times> bool" where
  "snapshot r = (rs_keys r, rs_complete r)"

text \<open>A record that cannot be deleted is logged and passed over.\<close>

definition drop_records :: "'s Pruner \<Rightarrow> RecipeRecord list \<Rightarrow> 's \<Rightarrow> 's" where
  "drop_records P stale s =
     foldl (\<lambda>s r. case pn_DeleteRecipeRecord P (rr_Name r) (rr_Version r) s of Inl _ \<Rightarrow> s | Inr s' \<Rightarrow> s') s stale"

text \<open>The state after the run and the report it puts on the task, if any.\<close>

definition pruneToRetriever ::
  "'s Pruner \<Rightarrow> string \<Rightarrow> resolvedRecipes \<Rightarrow> 's \<Rightarrow> 's \<times> Pruned list option" where
  "pruneToRetriever P base resolved s =
     (let (keys, complete) = snapshot resolved in
      if \<not> complete then (s, None)
      else (case pn_RecipeRecords P s of
              Inl _ \<Rightarrow> (s, None)
            | Inr records \<Rightarrow>
                (let (stale, keep) = splitRecords records keys in
                 if stale = [] then (s, None)
                 else (let (refs, pruned) = pruneCandidates base (\<lambda>r. pn_ProvenanceOf P r s) stale (referencedTags base keep);
                           s = drop_records P stale s
                       in if refs = [] then (s, None)
                          else (case pn_PruneTags P refs s of
                                  (s, Inl _) \<Rightarrow> (s, None)
                                | (s, Inr _) \<Rightarrow> (s, Some pruned))))))"

record PruneItem =
  pi_Repo :: string
  pi_Tag :: string
  pi_Digest :: string
  pi_Recipe :: string
  pi_Bytes :: int

text \<open>\<open>keys\<close> is what \<^verbatim>\<open>resolveRetrieverKeys\<close> answers; its failure fails the projection.\<close>

definition ProjectPrune ::
  "'s Pruner \<Rightarrow> string \<Rightarrow> ('e + string set) \<Rightarrow> 's \<Rightarrow> ('e + store_error) + PruneItem list \<times> int" where
  "ProjectPrune P base keys s =
     (case keys of
        Inl e \<Rightarrow> Inl (Inl e)
      | Inr keys \<Rightarrow>
          (case pn_RecipeRecords P s of
             Inl e \<Rightarrow> Inl (Inr e)
           | Inr records \<Rightarrow>
               (let (stale, keep) = splitRecords records keys;
                    pruned = snd (pruneCandidates base (\<lambda>r. pn_ProvenanceOf P r s) stale (referencedTags base keep));
                    items = map (\<lambda>row. \<lparr>pi_Repo = pr_Repo row, pi_Tag = pr_Tag row, pi_Digest = pr_Digest row,
                      pi_Recipe = pr_Recipe row,
                      pi_Bytes = (case pn_ManifestSize P (pr_Repo row) (pr_Tag row) s of None \<Rightarrow> 0 | Some b \<Rightarrow> b)\<rparr>) pruned
                in Inr (items, sum_list (map pi_Bytes items)))))"

subsection \<open>What is unlinked\<close>

lemma refs_origin:
  assumes "x \<in> set (fst (pruneCandidates base prov stale kept))"
  shows "\<exists>rec c. rec \<in> set stale \<and> c \<in> set (candidatesOf base rec) \<and> eligible prov kept c
    \<and> (x = ca_ref c \<or> x \<in> set (signatureRefs (fst (ca_ref c)) (ca_digest c)))"
  using assms by (auto simp: pruneCandidates_def Let_def)

lemma signatureRefs_repo: "x \<in> set (signatureRefs repo d) \<Longrightarrow> fst x = repo"
  by (auto simp: signatureRefs_def split: if_splits)

text \<open>Every tag handed to the store lies in a repository of recipe provenance, and is not
  referenced by a retained record unless it is a signature tag.\<close>

lemma refs_recipe_provenance:
  assumes "x \<in> set (fst (pruneCandidates base prov stale kept))"
  shows "\<exists>p. prov (fst x) = Some p \<and> pv_Class p = ProvenanceRecipe"
  using refs_origin [OF assms] signatureRefs_repo by (fastforce simp: eligible_def split: option.splits)

lemma refs_unreferenced:
  assumes "x \<in> set (fst (pruneCandidates base prov stale kept))"
  shows "x \<notin> kept \<or> (\<exists>d. x \<in> set (signatureRefs (fst x) d))"
  using refs_origin [OF assms] signatureRefs_repo by (fastforce simp: eligible_def)

subsection \<open>The contract\<close>

text \<open>
  \<open>tags\<close> are the tags a store state holds, \<open>exposed\<close> the tags a removal may take down beside
  the ones it was given.
\<close>

locale pruner =
  fixes P :: "'s Pruner"
    and tags :: "'s \<Rightarrow> TagRef set"
    and exposed :: "'s \<Rightarrow> TagRef list \<Rightarrow> TagRef \<Rightarrow> bool"
  assumes prune_keeps: "pn_PruneTags P refs s = (s', out) \<Longrightarrow> x \<in> tags s \<Longrightarrow> x \<notin> set refs \<Longrightarrow>
      \<not> exposed s refs x \<Longrightarrow> x \<in> tags s'"
    and delete_keeps: "pn_DeleteRecipeRecord P n v s = Inr s' \<Longrightarrow> tags s' = tags s"
    and delete_exposed: "pn_DeleteRecipeRecord P n v s = Inr s' \<Longrightarrow> exposed s' refs x = exposed s refs x"
begin

lemma drop_records_keeps:
  "tags (drop_records P stale s) = tags s" "exposed (drop_records P stale s) refs x = exposed s refs x"
proof -
  have "tags (drop_records P stale s) = tags s \<and> exposed (drop_records P stale s) refs x = exposed s refs x"
  proof (induction stale arbitrary: s)
    case (Cons r stale)
    let ?s = "case pn_DeleteRecipeRecord P (rr_Name r) (rr_Version r) s of Inl _ \<Rightarrow> s | Inr s' \<Rightarrow> s'"
    have "tags ?s = tags s" "exposed ?s refs x = exposed s refs x"
      using delete_keeps delete_exposed by (auto split: sum.splits)
    with Cons [of ?s] show ?case by (simp add: drop_records_def)
  qed (simp add: drop_records_def)
  then show "tags (drop_records P stale s) = tags s"
    "exposed (drop_records P stale s) refs x = exposed s refs x" by simp_all
qed

lemma prune_removes_only:
  assumes "pruneToRetriever P base resolved s = (s', report)" and "x \<in> tags s" and "x \<notin> tags s'"
  shows "\<exists>records stale keep refs pruned. rs_complete resolved \<and> pn_RecipeRecords P s = Inr records
    \<and> splitRecords records (rs_keys resolved) = (stale, keep)
    \<and> pruneCandidates base (\<lambda>r. pn_ProvenanceOf P r s) stale (referencedTags base keep) = (refs, pruned)
    \<and> (x \<in> set refs \<or> exposed s refs x)"
proof -
  have c: "rs_complete resolved"
    using assms by (cases "rs_complete resolved") (auto simp: pruneToRetriever_def snapshot_def)
  then obtain records where r: "pn_RecipeRecords P s = Inr records"
    using assms by (auto simp: pruneToRetriever_def snapshot_def split: sum.splits)
  obtain stale keep where sk: "splitRecords records (rs_keys resolved) = (stale, keep)" by fastforce
  obtain refs pruned where rp:
    "pruneCandidates base (\<lambda>r. pn_ProvenanceOf P r s) stale (referencedTags base keep) = (refs, pruned)" by fastforce
  have "x \<in> set refs \<or> exposed s refs x"
  proof (rule ccontr)
    assume n: "\<not> (x \<in> set refs \<or> exposed s refs x)"
    obtain s2 out where p: "pn_PruneTags P refs (drop_records P stale s) = (s2, out)" by fastforce
    have "x \<in> tags s2" using prune_keeps [OF p] n assms(2) drop_records_keeps by simp
    then have "x \<in> tags s'" using assms(1,2) c r sk rp p drop_records_keeps
      by (auto simp: pruneToRetriever_def snapshot_def Let_def split: if_splits sum.splits)
    with assms(3) show False by simp
  qed
  with c r sk rp show ?thesis by blast
qed

end

subsection \<open>The store as a Pruner\<close>

text \<open>\<open>msize\<close> stands for the size column of \<^verbatim>\<open>ManifestInfo\<close>.\<close>

definition store_pruner ::
  "registry \<Rightarrow> time \<Rightarrow> (string \<Rightarrow> string \<Rightarrow> Store \<Rightarrow> int option) \<Rightarrow> Store Pruner" where
  "store_pruner rg now msize =
     \<lparr>pn_RecipeRecords = RecipeRecords, pn_DeleteRecipeRecord = DeleteRecipeRecord,
      pn_ProvenanceOf = ProvenanceOf, pn_PruneTags = PruneTags rg now, pn_ManifestSize = msize\<rparr>"

definition tag_digest :: "Store \<Rightarrow> TagRef \<Rightarrow> string option" where
  "tag_digest s x =
     (case map_of (so_repos s) (fst x) of None \<Rightarrow> None | Some r \<Rightarrow> map_of (rp_tags r) (snd x))"

definition store_tags :: "Store \<Rightarrow> TagRef set" where
  "store_tags s = {x. tag_digest s x \<noteq> None}"

definition nested_under :: "TagRef list \<Rightarrow> TagRef \<Rightarrow> bool" where
  "nested_under refs x \<longleftrightarrow> (\<exists>r \<in> set refs. has_prefix (fst x) (fst r @ ''/''))"

lemma untag_digest:
  assumes "untag rg n t s = Inr s'" and "x \<noteq> (n, t)"
  shows "tag_digest s' x = tag_digest s x"
  using assms
  by (cases x) (auto simp: untag_def tag_digest_def map_of_put map_of_del split: if_splits option.splits)

lemma untag_all_digest:
  "untag_all rg refs s k touched = (s', k', touched') \<Longrightarrow> x \<notin> set refs \<Longrightarrow> tag_digest s' x = tag_digest s x"
proof (induction rg refs s k touched rule: untag_all.induct)
  case (2 rg repo tag refs s n touched)
  then show ?case by (cases "untag rg repo tag s") (auto simp: untag_digest)
qed simp

lemma untag_all_touched:
  "untag_all rg refs s k touched = (s', k', touched') \<Longrightarrow> set touched' = set touched \<union> fst ` set refs"
  by (induction rg refs s k touched rule: untag_all.induct) (auto simp: Let_def split: prod.splits if_splits)

lemma map_of_not_under:
  "map_of (filter (\<lambda>(n, _). \<not> under name n) rs) m = (if under name m then None else map_of rs m)"
  by (induction rs) auto

lemma remove_digest:
  "tag_digest (remove_repo_dir name s) x = (if under name (fst x) then None else tag_digest s x)"
  by (simp add: tag_digest_def remove_repo_dir_def map_of_not_under)

lemma dropProvenance_digest: "dropProvenance name s = Inr s' \<Longrightarrow> tag_digest s' x = tag_digest s x"
  by (simp add: tag_digest_def dropProvenance_repos)

lemma hasNoTags_digest: "hasNoTags rg n s = Inr True \<Longrightarrow> tag_digest s (n, t) = None"
  by (auto simp: hasNoTags_def tag_digest_def split: if_splits option.splits)

lemma drop_empty_digest:
  "drop_empty rg names s k = (s', out) \<Longrightarrow> \<forall>n \<in> set names. \<not> has_prefix (fst x) (n @ ''/'') \<Longrightarrow>
     tag_digest s' x = tag_digest s x"
proof (induction rg names s k rule: drop_empty.induct)
  case (2 rg name names s n)
  have keep: "tag_digest (remove_repo_dir name s) x = tag_digest s x" if "hasNoTags rg name s = Inr True"
    using that 2(4) hasNoTags_digest [of rg name s "snd x"] by (cases x) (auto simp: remove_digest under_def)
  show ?case
  proof (cases "hasNoTags rg name s")
    case (Inr e)
    show ?thesis
    proof (cases e)
      case True
      with Inr have h: "hasNoTags rg name s = Inr True" by simp
      show ?thesis
      proof (cases "dropProvenance name (remove_repo_dir name s)")
        case (Inr s2)
        with 2 h keep show ?thesis by (simp add: dropProvenance_digest)
      qed (use 2 h keep in auto)
    qed (use 2 Inr in auto)
  qed (use 2 in auto)
qed simp

lemma sweep_repos_tags:
  "sweep_repos rg c rs g res = (rs', out) \<Longrightarrow>
     map (\<lambda>(n, r). (n, rp_tags r)) rs' = map (\<lambda>(n, r). (n, rp_tags r)) rs"
  by (induction rg c rs g res arbitrary: rs' out rule: sweep_repos.induct)
    (auto simp: pruneRepositoryLinks_def sweep_entries_def Let_def split: sum.splits prod.splits)

lemma digest_by_tags:
  "tag_digest s x =
     (case map_of (map (\<lambda>(n, r). (n, rp_tags r)) (so_repos s)) (fst x) of None \<Rightarrow> None | Some ts \<Rightarrow> map_of ts (snd x))"
  by (cases "map_of (so_repos s) (fst x)") (simp_all add: tag_digest_def map_of_map)

lemma sweep_digest: "sweep rg now s = (s', out) \<Longrightarrow> tag_digest s' x = tag_digest s x"
  unfolding digest_by_tags [of s] digest_by_tags [of s']
  using sweep_repos_tags
  by (fastforce simp: sweep_def Let_def split: if_splits prod.splits sum.splits)

lemma PruneTags_digest:
  assumes p: "PruneTags rg now refs s = (s', out)" and x: "x \<notin> set refs" "\<not> nested_under refs x"
  shows "tag_digest s' x = tag_digest s x"
proof (cases "refs = []")
  case False
  obtain s1 k touched where u: "untag_all rg refs s 0 [] = (s1, k, touched)" by (metis prod_cases3)
  obtain s2 o2 where d: "drop_empty rg touched s1 0 = (s2, o2)" by fastforce
  have "tag_digest s2 x = tag_digest s x"
    using drop_empty_digest [OF d, of x] untag_all_digest [OF u x(1)] untag_all_touched [OF u] x(2)
    by (auto simp: nested_under_def)
  with False p u d show ?thesis
    by (auto simp: PruneTags_def sweep_digest split: sum.splits prod.splits)
qed (use p in \<open>simp add: PruneTags_def\<close>)

lemma DeleteRecipeRecord_repos: "DeleteRecipeRecord n v s = Inr s' \<Longrightarrow> so_repos s' = so_repos s"
  by (auto simp: DeleteRecipeRecord_def write_recipes_def bind_r_def split: sum.splits if_splits)

interpretation store_prune: pruner "store_pruner rg now msize" store_tags "\<lambda>_. nested_under" for rg now msize
proof unfold_locales
  fix refs s s' out x
  assume "pn_PruneTags (store_pruner rg now msize) refs s = (s', out)" "x \<in> store_tags s" "x \<notin> set refs"
    "\<not> nested_under refs x"
  then show "x \<in> store_tags s'"
    using PruneTags_digest [of rg now refs s s' out x] by (simp add: store_pruner_def store_tags_def)
qed (auto simp: store_pruner_def store_tags_def tag_digest_def dest: DeleteRecipeRecord_repos)

subsection \<open>Properties\<close>

lemma splitRecords_sets:
  assumes "splitRecords records keys = (stale, keep)"
  shows "set stale = {r \<in> set records. recipeKey (rr_Name r) (rr_Version r) \<notin> keys}"
    and "keep = filter (\<lambda>r. recipeKey (rr_Name r) (rr_Version r) \<in> keys) records"
  using assms by (auto simp: splitRecords_def Let_def)

text \<open>C15: a prune removes a tag from the store only after a run that resolved every Retriever entry,
  and only on account of a recipe record the Retriever no longer asks for: the tag is one that
  record brought, not referenced by any retained record and in a repository of recipe
  provenance, or a signature tag of it, or lies in a repository nested below that one.\<close>

theorem prune_only_stale_recipe_content:
  assumes "pruneToRetriever (store_pruner rg now msize) base resolved s = (s', report)"
    and "x \<in> store_tags s" and "x \<notin> store_tags s'"
  shows "rs_complete resolved \<and> (\<exists>records rec c. RecipeRecords s = Inr records
    \<and> rec \<in> set records \<and> recipeKey (rr_Name rec) (rr_Version rec) \<notin> rs_keys resolved
    \<and> c \<in> set (candidatesOf base rec)
    \<and> ca_ref c \<notin> referencedTags base
        (filter (\<lambda>r. recipeKey (rr_Name r) (rr_Version r) \<in> rs_keys resolved) records)
    \<and> (\<exists>p. ProvenanceOf (fst (ca_ref c)) s = Some p \<and> pv_Class p = ProvenanceRecipe)
    \<and> (x = ca_ref c \<or> x \<in> set (signatureRefs (fst (ca_ref c)) (ca_digest c))
       \<or> has_prefix (fst x) (fst (ca_ref c) @ ''/'')))"
proof -
  from store_prune.prune_removes_only [OF assms] obtain records stale keep refs pruned where
    c: "rs_complete resolved" and r: "RecipeRecords s = Inr records"
    and sk: "splitRecords records (rs_keys resolved) = (stale, keep)"
    and rp: "pruneCandidates base (\<lambda>r. ProvenanceOf r s) stale (referencedTags base keep) = (refs, pruned)"
    and x: "x \<in> set refs \<or> nested_under refs x"
    by (auto simp: store_pruner_def)
  from x obtain y where y: "y \<in> set refs" and xy: "x = y \<or> has_prefix (fst x) (fst y @ ''/'')"
    unfolding nested_under_def by blast
  from y rp obtain rec c where o: "rec \<in> set stale" "c \<in> set (candidatesOf base rec)"
    "eligible (\<lambda>r. ProvenanceOf r s) (referencedTags base keep) c"
    "y = ca_ref c \<or> y \<in> set (signatureRefs (fst (ca_ref c)) (ca_digest c))"
    using refs_origin by (metis fst_conv)
  then have "fst y = fst (ca_ref c)" using signatureRefs_repo by blast
  with o xy have x': "x = ca_ref c \<or> x \<in> set (signatureRefs (fst (ca_ref c)) (ca_digest c))
       \<or> has_prefix (fst x) (fst (ca_ref c) @ ''/'')" by metis
  show ?thesis
    using c r o(1,2,3) x' splitRecords_sets [OF sk]
    by (intro conjI exI [of _ records] exI [of _ rec] exI [of _ c])
      (auto simp: eligible_def split: option.splits)
qed

text \<open>The trigger-time confirmation and the run agree: a run that reports removals reports
  exactly the rows of the projection made against the same Retriever keys, whose total is the
  sum of its rows, and a run after an empty projection removes no tag.\<close>

theorem projection_matches_run:
  assumes "pruneToRetriever (store_pruner rg now msize) base resolved s = (s', report)"
    and "ProjectPrune (store_pruner rg now msize) base (Inr (rs_keys resolved) :: 'e + string set) s = Inr (items, bytes)"
  shows "(report = None \<or> report = Some (map (\<lambda>i. \<lparr>pr_Repo = pi_Repo i, pr_Tag = pi_Tag i,
            pr_Digest = pi_Digest i, pr_Recipe = pi_Recipe i\<rparr>) items))
    \<and> bytes = sum_list (map pi_Bytes items)
    \<and> (items = [] \<longrightarrow> store_tags s' \<supseteq> store_tags s)"
proof -
  from assms(2) obtain records where r: "RecipeRecords s = Inr records"
    by (auto simp: ProjectPrune_def store_pruner_def split: sum.splits)
  obtain stale keep where sk: "splitRecords records (rs_keys resolved) = (stale, keep)" by fastforce
  obtain refs pruned where rp: "pruneCandidates base (\<lambda>r. ProvenanceOf r s) stale (referencedTags base keep) = (refs, pruned)"
    by fastforce
  have items: "items = map (\<lambda>row. \<lparr>pi_Repo = pr_Repo row, pi_Tag = pr_Tag row, pi_Digest = pr_Digest row,
                      pi_Recipe = pr_Recipe row,
                      pi_Bytes = (case msize (pr_Repo row) (pr_Tag row) s of None \<Rightarrow> 0 | Some b \<Rightarrow> b)\<rparr>) pruned"
    and b: "bytes = sum_list (map pi_Bytes items)"
    using assms(2) r sk rp by (auto simp: ProjectPrune_def store_pruner_def Let_def)
  have rows: "map (\<lambda>i. \<lparr>pr_Repo = pi_Repo i, pr_Tag = pi_Tag i, pr_Digest = pi_Digest i,
      pr_Recipe = pi_Recipe i\<rparr>) items = pruned"
    unfolding items by (auto simp: comp_def intro!: map_idI Pruned.equality)
  have rep: "report = None \<or> report = Some pruned"
    using assms(1) r sk rp
    by (auto simp: pruneToRetriever_def snapshot_def store_pruner_def Let_def split: if_splits sum.splits prod.splits)
  have "x \<in> store_tags s'" if "items = []" "x \<in> store_tags s" for x
  proof (rule ccontr)
    assume "x \<notin> store_tags s'"
    from store_prune.prune_removes_only [OF assms(1) that(2) this] r sk rp
    have "refs \<noteq> []" by (auto simp: store_pruner_def nested_under_def)
    moreover have "pruned = [] \<Longrightarrow> refs = []" using rp by (auto simp: pruneCandidates_def Let_def)
    ultimately show False using that(1) items by simp
  qed
  with rep rows b show ?thesis by auto
qed

text \<open>An example: two versions of an image share their content, the older recipe is dropped.\<close>

definition demo_record :: "string \<Rightarrow> string \<Rightarrow> RecipeRecord" where
  "demo_record name tag = \<lparr>rr_Name = name, rr_Version = ''1'', rr_CookbookRepo = [], rr_ArtifactRepo = [],
     rr_ArtifactTag = [], rr_Digest = [], rr_RunID = [], rr_Zone = [], rr_ResolvedAt = 0, rr_Verified = True,
     rr_TrustScope = [], rr_Ingredients = [\<lparr>ir_Name = ''i'', ir_Kind = ''image'', ir_Repo = ''r'',
       ir_Tag = tag, ir_Digest = ''sha256:a''\<rparr>]\<rparr>"

definition shared_store :: Store where
  "shared_store = demo_store\<lparr>
     so_repos := [(''r'', demo_repo\<lparr>rp_tags := [(''v1'', ''sha256:a''), (''v2'', ''sha256:a''), (''sha256-a.sig'', ''sha256:s'')]\<rparr>)],
     so_provenance := Present [(''r'', \<lparr>pv_Class = ProvenanceRecipe, pv_Origin = [], pv_Recipe = [], pv_RecipeVersion = [],
       pv_RunID = [], pv_RecordedAt = 1\<rparr>)],
     so_recipes := Present [(''old@1'', demo_record ''old'' ''v1''), (''new@1'', demo_record ''new'' ''v2'')]\<rparr>"

definition shared_run :: "Store \<times> Pruned list option" where
  "shared_run = pruneToRetriever (store_pruner demo_registry demo_now (\<lambda>_ _ _. Some 7)) []
     (keep_recipe ''new'' ''1'' newResolvedRecipes) shared_store"

lemma no_empty_path: "\<not> is_ok (PathWithBase [] [])"
  by code_simp

lemma shared_candidates: "candidatesOf [] (demo_record name tag) =
   (if tag = [] then [] else [\<lparr>ca_ref = (''r'', tag), ca_digest = ''sha256:a''\<rparr>])"
  using no_empty_path by (auto simp: candidatesOf_def demo_record_def split: sum.split)

lemma demo_record_key [simp]: "rr_Name (demo_record name tag) = name" "rr_Version (demo_record name tag) = ''1''"
  by (simp_all add: demo_record_def)

lemma shared_split: "splitRecords [demo_record ''old'' ''v1'', demo_record ''new'' ''v2''] {''new@1''}
   = ([demo_record ''old'' ''v1''], [demo_record ''new'' ''v2''])"
  by (simp add: splitRecords_def recipeKey_def demo_record_def Let_def)

lemma shared_refs:
  "pruneCandidates [] (\<lambda>r. ProvenanceOf r shared_store) [demo_record ''old'' ''v1'']
     (referencedTags [] [demo_record ''new'' ''v2''])
   = ([(''r'', ''v1''), (''r'', ''sha256-a.sig''), (''r'', ''sha256-a'')],
      [\<lparr>pr_Repo = ''r'', pr_Tag = ''v1'', pr_Digest = ''sha256:a'', pr_Recipe = ''old@1''\<rparr>])"
  by (simp add: pruneCandidates_def shared_candidates referencedTags_def eligible_def ProvenanceOf_def shared_store_def
      readMeta_def signatureRefs_def dash_digest_def recipeKey_def prefix_def Let_def)

lemma shared_run_result:
  "\<exists>s'. shared_run = (s', Some [\<lparr>pr_Repo = ''r'', pr_Tag = ''v1'', pr_Digest = ''sha256:a'', pr_Recipe = ''old@1''\<rparr>])
     \<and> map (\<lambda>(n, r). (n, rp_tags r)) (so_repos s') = [(''r'', [(''v2'', ''sha256:a'')])]"
proof -
  let ?P = "store_pruner demo_registry demo_now (\<lambda>_ _ _. Some 7)"
  have r: "RecipeRecords shared_store = Inr [demo_record ''old'' ''v1'', demo_record ''new'' ''v2'']"
    by (simp add: RecipeRecords_def shared_store_def readMeta_def)
  have k: "snapshot (keep_recipe ''new'' ''1'' newResolvedRecipes) = ({''new@1''}, True)"
    by (simp add: snapshot_def keep_recipe_def newResolvedRecipes_def recipeKey_def)
  have d: "drop_records ?P [demo_record ''old'' ''v1''] shared_store
      = shared_store\<lparr>so_recipes := Present [(''new@1'', demo_record ''new'' ''v2'')]\<rparr>"
    by (simp add: drop_records_def store_pruner_def DeleteRecipeRecord_def shared_store_def readMeta_def write_recipes_def
        demo_record_def recipeKey_def demo_store_def map_del_def)
  show ?thesis
    unfolding shared_run_def pruneToRetriever_def k
    using r d shared_split shared_refs
    by (simp add: store_pruner_def PruneTags_def untag_def shared_store_def demo_store_def demo_repo_def demo_registry_def
        hasNoTags_def sweep_def markRepository_def mark_fuel_def pruneRepositoryLinks_def sweep_entries_def
        isIndex_def digest_of_def map_del_def Let_def add_result_def)
qed

lemma shared_lost:
  assumes "shared_run = (s', report)"
  shows "(''r'', ''sha256-a.sig'') \<in> store_tags shared_store" "(''r'', ''sha256-a.sig'') \<notin> store_tags s'"
    "tag_digest s' (''r'', ''v2'') = Some ''sha256:a''"
    "report = Some [\<lparr>pr_Repo = ''r'', pr_Tag = ''v1'', pr_Digest = ''sha256:a'', pr_Recipe = ''old@1''\<rparr>]"
proof -
  from shared_run_result have r: "map (\<lambda>(n, r). (n, rp_tags r)) (so_repos s') = [(''r'', [(''v2'', ''sha256:a'')])]"
    "report = Some [\<lparr>pr_Repo = ''r'', pr_Tag = ''v1'', pr_Digest = ''sha256:a'', pr_Recipe = ''old@1''\<rparr>]"
    unfolding assms by auto
  show "(''r'', ''sha256-a.sig'') \<in> store_tags shared_store"
    by (simp add: store_tags_def tag_digest_def shared_store_def)
  show "(''r'', ''sha256-a.sig'') \<notin> store_tags s'" "tag_digest s' (''r'', ''v2'') = Some ''sha256:a''"
    "report = Some [\<lparr>pr_Repo = ''r'', pr_Tag = ''v1'', pr_Digest = ''sha256:a'', pr_Recipe = ''old@1''\<rparr>]"
    using r by (simp_all add: store_tags_def digest_by_tags)
qed

theorem prune_only_stale_recipe_content_witness:
  "\<exists>s' report. shared_run = (s', report) \<and> (''r'', ''sha256-a.sig'') \<in> store_tags shared_store - store_tags s'
     \<and> rs_complete (keep_recipe ''new'' ''1'' newResolvedRecipes)"
proof -
  obtain s' report where r: "shared_run = (s', report)" by fastforce
  from prune_only_stale_recipe_content [OF r [unfolded shared_run_def] shared_lost(1,2) [OF r]] r shared_lost(1,2) [OF r]
  show ?thesis by blast
qed

theorem projection_matches_run_witness:
  "\<exists>s' report items bytes. shared_run = (s', report)
     \<and> ProjectPrune (store_pruner demo_registry demo_now (\<lambda>_ _ _. Some 7)) [] (Inr {''new@1''} :: unit + string set) shared_store
         = Inr (items, bytes)
     \<and> bytes = sum_list (map pi_Bytes items) \<and> length items = 1"
proof -
  obtain s' report where r: "shared_run = (s', report)" by fastforce
  have k: "rs_keys (keep_recipe ''new'' ''1'' newResolvedRecipes) = {''new@1''}"
    by (simp add: keep_recipe_def newResolvedRecipes_def recipeKey_def)
  have "RecipeRecords shared_store = Inr [demo_record ''old'' ''v1'', demo_record ''new'' ''v2'']"
    by (simp add: RecipeRecords_def shared_store_def readMeta_def)
  then obtain items bytes where p: "ProjectPrune (store_pruner demo_registry demo_now (\<lambda>_ _ _. Some 7)) []
      (Inr {''new@1''} :: unit + string set) shared_store = Inr (items, bytes)" and "length items = 1"
    using shared_split shared_refs by (simp add: ProjectPrune_def store_pruner_def Let_def)
  with projection_matches_run [OF r [unfolded shared_run_def] p [folded k]] r show ?thesis by blast
qed

text \<open>A prune can strip the signature of content that stays. When a retained recipe holds the same
  manifest under another tag, the run unlinks the signature tags named after the digest: the
  retained tag still resolves to the manifest, its signature is gone, and the report does not
  name it.\<close>

theorem prune_strips_shared_signature:
  "\<exists>s'. shared_run = (s', Some [\<lparr>pr_Repo = ''r'', pr_Tag = ''v1'', pr_Digest = ''sha256:a'', pr_Recipe = ''old@1''\<rparr>])
     \<and> tag_digest s' (''r'', ''v2'') = Some ''sha256:a''
     \<and> tag_digest shared_store (''r'', ''sha256-a.sig'') = Some ''sha256:s''
     \<and> tag_digest s' (''r'', ''sha256-a.sig'') = None"
proof -
  obtain s' report where r: "shared_run = (s', report)" by fastforce
  have "tag_digest shared_store (''r'', ''sha256-a.sig'') = Some ''sha256:s''"
    by (simp add: tag_digest_def shared_store_def)
  with r shared_lost [OF r] show ?thesis by (auto simp: store_tags_def)
qed

end
