(* ===== verification/Media_Paths.thy ===== *)
theory Media_Paths
  imports Relocate Tasks
begin

text \<open>
  Paths of a transported store, \<^verbatim>\<open>internal/media/paths.go\<close> with the coverage rule of
  \<^verbatim>\<open>internal/media/manifest.go\<close>, and the register of completed imports,
  \<^verbatim>\<open>internal/media/imports.go\<close>.

  The Go code ranges over runes; every byte below 128 is a rune of its own and every rune the
  validators accept is one, so the checks are the same on bytes.
\<close>

subsection \<open>Coverage\<close>

abbreviation ManifestPath :: string where "ManifestPath \<equiv> ''meta/media.json''"

definition coveredRoots :: "string list" where
  "coveredRoots = [''docker/registry/v2'', ''meta'']"

text \<open>\<^verbatim>\<open>path.Base\<close>.\<close>

definition path_base :: "string \<Rightarrow> string" where
  "path_base p =
     (if p = [] then ''.''
      else (let q = rev (dropWhile (\<lambda>c. c = CHR ''/'') (rev p))
            in if q = [] then ''/'' else last (split_on CHR ''/'' q)))"

definition covered :: "string \<Rightarrow> bool" where
  "covered slash =
     (if slash = ManifestPath then False
      else if has_prefix (path_base slash) ''.tmp-'' then False
      else list_ex (\<lambda>sub. slash = sub \<or> has_prefix slash (sub @ ''/'')) coveredRoots)"

subsection \<open>Validators\<close>

datatype path_error =
    EmptyPath
  | HasBackslash string
  | HasColon string
  | HasNUL string
  | AbsolutePath string
  | NotClean string
  | HasControl string
  | OutsideCoverage string
  | EmptyRepoName
  | LongRepoName
  | RelativeSegment string
  | IllegalRepoChar string
  | BadTagLength string
  | IllegalTagChar string
  | NotSha256Prefixed string
  | WrongHexLength string
  | NotLowerHex string

definition is_control :: "char \<Rightarrow> bool" where
  "is_control c = ((of_char c :: nat) < 32 \<or> (of_char c :: nat) = 127)"

definition checkInventoryPath :: "string \<Rightarrow> path_error + unit" where
  "checkInventoryPath p =
     (if p = [] then Inl EmptyPath
      else if CHR 0x5C \<in> set p then Inl (HasBackslash p)
      else if CHR '':'' \<in> set p then Inl (HasColon p)
      else if CHR 0x00 \<in> set p then Inl (HasNUL p)
      else if has_prefix p ''/'' then Inl (AbsolutePath p)
      else if filepath_clean p \<noteq> p then Inl (NotClean p)
      else if list_ex is_control p then Inl (HasControl p)
      else if \<not> covered p then Inl (OutsideCoverage p)
      else Inr ())"

definition is_alnum :: "char \<Rightarrow> bool" where
  "is_alnum c = (let n = (of_char c :: nat) in
     97 \<le> n \<and> n \<le> 122 \<or> 65 \<le> n \<and> n \<le> 90 \<or> 48 \<le> n \<and> n \<le> 57)"

definition repo_char :: "char \<Rightarrow> bool" where
  "repo_char c \<longleftrightarrow> is_alnum c \<or> c = CHR ''.'' \<or> c = CHR ''_'' \<or> c = CHR ''-''"

fun check_segments :: "string \<Rightarrow> string list \<Rightarrow> path_error + unit" where
  "check_segments repo [] = Inr ()"
| "check_segments repo (seg # segs) =
     (if seg = [] \<or> seg = ''.'' \<or> seg = ''..'' then Inl (RelativeSegment repo)
      else if \<not> list_all repo_char seg then Inl (IllegalRepoChar repo)
      else check_segments repo segs)"

definition checkRepoName :: "string \<Rightarrow> path_error + unit" where
  "checkRepoName repo =
     (if repo = [] then Inl EmptyRepoName
      else if length repo > 4096 then Inl LongRepoName
      else check_segments repo (split_on CHR ''/'' repo))"

definition tag_char :: "nat \<Rightarrow> char \<Rightarrow> bool" where
  "tag_char i c \<longleftrightarrow> is_alnum c \<or> c = CHR ''_'' \<or> (c = CHR ''.'' \<or> c = CHR ''-'') \<and> i > 0"

definition checkTag :: "string \<Rightarrow> path_error + unit" where
  "checkTag tag =
     (if tag = [] \<or> length tag > 128 then Inl (BadTagLength tag)
      else if \<not> list_all (\<lambda>(i, c). tag_char i c) (enumerate 0 tag) then Inl (IllegalTagChar tag)
      else Inr ())"

definition lower_hex :: "char \<Rightarrow> bool" where
  "lower_hex c = (let n = (of_char c :: nat) in 48 \<le> n \<and> n \<le> 57 \<or> 97 \<le> n \<and> n \<le> 102)"

definition digestHex :: "string \<Rightarrow> path_error + string" where
  "digestHex dgst =
     (if \<not> has_prefix dgst ''sha256:'' then Inl (NotSha256Prefixed dgst)
      else (let h = drop 7 dgst in
            if length h \<noteq> 64 then Inl (WrongHexLength dgst)
            else if \<not> list_all lower_hex h then Inl (NotLowerHex dgst)
            else Inr h))"

subsection \<open>Layout\<close>

abbreviation blobsPrefix :: string where "blobsPrefix \<equiv> ''docker/registry/v2/blobs/sha256''"
abbreviation reposPrefix :: string where "reposPrefix \<equiv> ''docker/registry/v2/repositories''"
abbreviation recipesFile :: string where "recipesFile \<equiv> ''meta/recipes.json''"

definition blobPath :: "string \<Rightarrow> string" where
  "blobPath h = blobsPrefix @ ''/'' @ take 2 h @ ''/'' @ h @ ''/data''"

definition manifestLinkPath :: "string \<Rightarrow> string \<Rightarrow> string" where
  "manifestLinkPath repo h = reposPrefix @ ''/'' @ repo @ ''/_manifests/revisions/sha256/'' @ h @ ''/link''"

definition layerLinkPath :: "string \<Rightarrow> string \<Rightarrow> string" where
  "layerLinkPath repo h = reposPrefix @ ''/'' @ repo @ ''/_layers/sha256/'' @ h @ ''/link''"

definition tagCurrentPath :: "string \<Rightarrow> string \<Rightarrow> string" where
  "tagCurrentPath repo tag = reposPrefix @ ''/'' @ repo @ ''/_manifests/tags/'' @ tag @ ''/current/link''"

definition tagIndexDir :: "string \<Rightarrow> string \<Rightarrow> string" where
  "tagIndexDir repo tag = reposPrefix @ ''/'' @ repo @ ''/_manifests/tags/'' @ tag @ ''/index''"

text \<open>\<^verbatim>\<open>strings.CutPrefix\<close> and \<^verbatim>\<open>strings.CutSuffix\<close>.\<close>

definition cut_prefix :: "string \<Rightarrow> string \<Rightarrow> string option" where
  "cut_prefix s p = (if has_prefix s p then Some (drop (length p) s) else None)"

definition cut_suffix :: "string \<Rightarrow> string \<Rightarrow> string option" where
  "cut_suffix s p = (if has_suffix s p then Some (take (length s - length p) s) else None)"

definition hexOfBlobPath :: "string \<Rightarrow> string option" where
  "hexOfBlobPath p =
     (case cut_prefix p (blobsPrefix @ ''/'') of
        None \<Rightarrow> None
      | Some rest \<Rightarrow>
          (case cut_suffix rest ''/data'' of
             None \<Rightarrow> None
           | Some rest \<Rightarrow>
               (case index_byte CHR ''/'' rest of
                  None \<Rightarrow> None
                | Some i \<Rightarrow>
                    (let pre = take i rest; h = drop (Suc i) rest in
                     if length h \<noteq> 64 \<or> length pre \<noteq> 2 \<or> \<not> has_prefix h pre then None else Some h))))"

subsection \<open>The import register\<close>

record ImportRecord =
  im_MediaID :: string
  im_ResolvedAt :: time
  im_ImportedAt :: time
  im_RunID :: string

text \<open>The register in memory and the file behind it; an empty path means no state directory. The
  zero time is 0.\<close>

record Imports =
  is_path :: string
  is_records :: "(string \<times> ImportRecord) list"
  is_file :: "(string \<times> ImportRecord) list option"

datatype imports_error = ReadingRegister | MalformedRegister | EmptyZoneRecorded | NeedsZone | NoStateDirectory | WritingRegister

datatype register_file = RegisterAbsent | RegisterUnreadable | RegisterMalformed | RegisterHolds "(string \<times> ImportRecord) list"

definition OpenImports :: "string \<Rightarrow> register_file \<Rightarrow> imports_error + Imports" where
  "OpenImports stateRoot file =
     (if stateRoot = [] then Inr \<lparr>is_path = [], is_records = [], is_file = None\<rparr>
      else (let path = filepath_join stateRoot ''media-imports.json'' in
            case file of
              RegisterAbsent \<Rightarrow> Inr \<lparr>is_path = path, is_records = [], is_file = None\<rparr>
            | RegisterUnreadable \<Rightarrow> Inl ReadingRegister
            | RegisterMalformed \<Rightarrow> Inl MalformedRegister
            | RegisterHolds zones \<Rightarrow>
                if list_ex (\<lambda>(zone, _). zone = []) zones then Inl EmptyZoneRecorded
                else Inr \<lparr>is_path = path, is_records = zones, is_file = Some zones\<rparr>))"

definition Last :: "string \<Rightarrow> Imports \<Rightarrow> ImportRecord option" where
  "Last zone i = map_of (is_records i) zone"

text \<open>\<open>written\<close> says whether the atomic write of the file succeeds.\<close>

definition Record :: "bool \<Rightarrow> time \<Rightarrow> string \<Rightarrow> ImportRecord \<Rightarrow> Imports \<Rightarrow> imports_error + Imports" where
  "Record written now zone record i =
     (if zone = [] then Inl NeedsZone
      else if is_path i = [] then Inl NoStateDirectory
      else (let rec = record;
                rec = (case map_of (is_records i) zone of
                         None \<Rightarrow> rec
                       | Some previous \<Rightarrow>
                           if im_ResolvedAt previous > im_ResolvedAt rec
                           then rec\<lparr>im_ResolvedAt := im_ResolvedAt previous\<rparr> else rec);
                rec = (if im_ImportedAt rec = 0 then rec\<lparr>im_ImportedAt := now\<rparr> else rec);
                next = map_put zone rec (is_records i)
            in if \<not> written then Inl WritingRegister
               else Inr (i\<lparr>is_records := next, is_file := Some next\<rparr>)))"

definition Zones :: "Imports \<Rightarrow> string list" where
  "Zones i = sort (map fst (is_records i))"

subsection \<open>Clean paths\<close>

definition safe_segments :: "string \<Rightarrow> bool" where
  "safe_segments p \<longleftrightarrow> (\<forall>seg \<in> set (split_on CHR ''/'' p). seg \<notin> {[], ''.'', ''..''})"

lemma split_on_append [simp]: "split_on c (a @ c # b) = split_on c a @ split_on c b"
proof (induction a)
  case (Cons x a)
  then show ?case by (cases "split_on c a") auto
qed simp

lemma split_join: "xs \<noteq> [] \<Longrightarrow> \<forall>x \<in> set xs. c \<notin> set x \<Longrightarrow> split_on c (join_with c xs) = xs"
  by (induction c xs rule: join_with.induct) auto

lemma clean_segs_safe:
  "\<forall>x \<in> set xs. x \<notin> {[], ''.'', ''..''} \<Longrightarrow> clean_segs rooted stack xs = rev stack @ xs"
  by (induction rooted stack xs rule: clean_segs.induct) auto

lemma clean_segs_elems:
  "x \<in> set (clean_segs rooted stack xs) \<Longrightarrow> \<forall>y \<in> set stack. y \<notin> {[], ''.''} \<and> CHR ''/'' \<notin> set y \<Longrightarrow>
     \<forall>y \<in> set xs. CHR ''/'' \<notin> set y \<Longrightarrow> x \<notin> {[], ''.''} \<and> CHR ''/'' \<notin> set x"
  by (induction rooted stack xs rule: clean_segs.induct) (auto split: list.splits if_splits)

lemma clean_segs_dots:
  "\<lbrakk>''..'' \<in> set stack \<longrightarrow> last stack = ''..''; ''..'' \<in> set (clean_segs False stack xs)\<rbrakk>
     \<Longrightarrow> hd (clean_segs False stack xs) = ''..''"
proof (induction "False" stack xs rule: clean_segs.induct)
  case (1 stack)
  then show ?case by (auto simp: hd_rev)
next
  case (2 stack x xs)
  show ?case
  proof (cases "x = ''..'' \<and> stack \<noteq> [] \<and> hd stack \<noteq> ''..''")
    case True
    then obtain t ts where s: "stack = t # ts" "t \<noteq> ''..''" by (cases stack) auto
    then have "''..'' \<in> set ts \<longrightarrow> last ts = ''..''" using 2 by (auto split: if_splits)
    then show ?thesis using 2 True s by auto
  qed (use 2 in \<open>auto split: list.splits if_splits\<close>)
qed

lemma starts_with_dots: "hd (split_on CHR ''/'' p) = ''..'' \<Longrightarrow> \<exists>q. p = CHR ''.'' # q"
  by (cases p) (auto split: list.splits if_splits)

lemma covered_head: "covered p \<Longrightarrow> p \<noteq> [] \<and> hd p \<in> {CHR ''d'', CHR ''m''}"
  by (auto simp: covered_def coveredRoots_def prefix_def split: if_splits)

lemma clean_fixed_safe:
  assumes c: "filepath_clean p = p" and cov: "covered p" and r: "\<not> has_prefix p ''/''"
  shows "safe_segments p"
proof -
  define segs where "segs = split_on CHR ''/'' p"
  define out where "out = clean_segs False [] segs"
  note h = covered_head [OF cov]
  have p: "p = join_with CHR ''/'' out"
    using c r h by (auto simp: filepath_clean_def out_def segs_def Let_def split: if_splits)
  have sf: "\<forall>y \<in> set segs. CHR ''/'' \<notin> set y" using split_on_free unfolding segs_def by metis
  have el: "x \<notin> {[], ''.''} \<and> CHR ''/'' \<notin> set x" if "x \<in> set out" for x
    by (rule clean_segs_elems [OF that [unfolded out_def] _ sf]) simp
  have "out \<noteq> []" using p h by auto
  then have so: "segs = out" using p el by (metis segs_def split_join)
  have "''..'' \<notin> set out"
  proof
    assume "''..'' \<in> set out"
    then have "hd out = ''..''" unfolding out_def by (intro clean_segs_dots) simp_all
    then have "hd segs = ''..''" unfolding so .
    then obtain q where "p = CHR ''.'' # q" using starts_with_dots unfolding segs_def by blast
    then show False using h by simp
  qed
  then show ?thesis using el so unfolding safe_segments_def segs_def by blast
qed

lemma safe_clean: "safe_segments p \<Longrightarrow> filepath_clean p = p \<and> p \<noteq> [] \<and> \<not> has_prefix p ''/''"
proof -
  assume s: "safe_segments p"
  have "p \<noteq> []"
  proof
    assume "p = []"
    with s show False by (simp add: safe_segments_def)
  qed
  moreover have "\<not> has_prefix p ''/''"
  proof
    assume "has_prefix p ''/''"
    then obtain q where "p = CHR ''/'' # q" by (auto simp: prefix_def)
    with s show False by (simp add: safe_segments_def)
  qed
  moreover have "clean_segs r [] (split_on CHR ''/'' p) = split_on CHR ''/'' p" for r
    using s clean_segs_safe [of "split_on CHR ''/'' p" r "[]"] unfolding safe_segments_def by simp
  ultimately show ?thesis by (simp add: filepath_clean_def Let_def)
qed

definition plain_char :: "char \<Rightarrow> bool" where
  "plain_char c \<longleftrightarrow> c \<noteq> CHR 0x5C \<and> c \<noteq> CHR '':'' \<and> \<not> is_control c"

lemma NUL_control: "is_control CHR 0x00"
  by (simp add: is_control_def)

lemma checkInventoryPath_iff:
  "checkInventoryPath p = Inr () \<longleftrightarrow> covered p \<and> safe_segments p \<and> list_all plain_char p"
proof -
  have "list_all plain_char p \<longleftrightarrow> CHR 0x5C \<notin> set p \<and> CHR '':'' \<notin> set p \<and> CHR 0x00 \<notin> set p \<and> \<not> list_ex is_control p"
    using NUL_control by (auto simp: plain_char_def list_all_iff list_ex_iff)
  then show ?thesis
    using clean_fixed_safe [of p] safe_clean [of p] by (auto simp: checkInventoryPath_def)
qed

lemma segment_plain: "is_alnum c \<Longrightarrow> plain_char c" "repo_char c \<Longrightarrow> plain_char c" "lower_hex c \<Longrightarrow> plain_char c"
  "tag_char i c \<Longrightarrow> plain_char c"
  by (auto simp: is_alnum_def repo_char_def tag_char_def lower_hex_def plain_char_def is_control_def Let_def)

lemma alnum_not_slash [simp]: "\<not> is_alnum CHR ''/''" "\<not> lower_hex CHR ''/''" "\<not> lower_hex CHR ''.''" "\<not> is_alnum CHR ''.''"
  by (simp_all add: is_alnum_def lower_hex_def)

lemma check_segments_iff:
  "check_segments repo segs = Inr () \<longleftrightarrow> (\<forall>s \<in> set segs. s \<notin> {[], ''.'', ''..''} \<and> list_all repo_char s)"
  by (induction segs) auto

lemma join_plain: "\<forall>s \<in> set segs. list_all plain_char s \<Longrightarrow> list_all plain_char (join_with CHR ''/'' segs)"
  by (induction "CHR ''/''" segs rule: join_with.induct) (auto simp: plain_char_def is_control_def)

lemma checkRepoName_safe:
  assumes "checkRepoName repo = Inr ()"
  shows "safe_segments repo" "list_all plain_char repo" "CHR ''@'' \<notin> set repo"
proof -
  have s: "s \<notin> {[], ''.'', ''..''} \<and> list_all repo_char s" if "s \<in> set (split_on CHR ''/'' repo)" for s
    using assms that by (auto simp: checkRepoName_def check_segments_iff split: if_splits)
  then show "safe_segments repo" by (auto simp: safe_segments_def)
  show "list_all plain_char repo"
    using join_plain [of "split_on CHR ''/'' repo"] s segment_plain(2) by (auto simp: list_all_iff)
  have "CHR ''@'' \<notin> set (join_with CHR ''/'' segs)" if "\<forall>s \<in> set segs. list_all repo_char s" for segs
    using that by (induction "CHR ''/''" segs rule: join_with.induct)
      (auto simp: list_all_iff repo_char_def is_alnum_def)
  from this [of "split_on CHR ''/'' repo"] s show "CHR ''@'' \<notin> set repo" by auto
qed

lemma digestHex_iff: "digestHex d = Inr h \<longleftrightarrow> d = ''sha256:'' @ h \<and> length h = 64 \<and> list_all lower_hex h"
  by (auto simp: digestHex_def prefix_def Let_def split: if_splits)

subsection \<open>The paths of a walk\<close>

lemma hex_segment:
  assumes "digestHex d = Inr h"
  shows "CHR ''/'' \<notin> set h" "h \<notin> {[], ''.'', ''..''}" "list_all plain_char h"
    "CHR ''/'' \<notin> set (take 2 h)" "take 2 h \<notin> {[], ''.'', ''..''}" "list_all plain_char (take 2 h)"
proof -
  have h: "length h = 64" "list_all lower_hex h" using assms by (auto simp: digestHex_iff)
  show s: "CHR ''/'' \<notin> set h" using h(2) by (auto simp: list_all_iff)
  show "list_all plain_char h" using h(2) segment_plain(3) by (auto simp: list_all_iff)
  then show "list_all plain_char (take 2 h)" by (auto simp: list_all_iff dest: in_set_takeD)
  show "CHR ''/'' \<notin> set (take 2 h)" using s by (auto dest: in_set_takeD)
  show "h \<notin> {[], ''.'', ''..''}" using h(1) by auto
  obtain a b h' where "h = a # b # h'" using h(1) by (cases h; cases "tl h") auto
  then show "take 2 h \<notin> {[], ''.'', ''..''}" using h(2) by auto
qed

lemma tag_segment:
  assumes "checkTag tag = Inr ()"
  shows "CHR ''/'' \<notin> set tag" "tag \<notin> {[], ''.'', ''..''}" "list_all plain_char tag"
proof -
  have e: "tag_char i c" if "(i, c) \<in> set (enumerate 0 tag)" for i c
    using assms that by (auto simp: checkTag_def list_all_iff split: if_splits)
  have n: "\<exists>i. tag_char i c" if "c \<in> set tag" for c
    using that e by (metis in_set_conv_nth in_set_enumerate_eq fst_conv snd_conv add_0 diff_zero le0 length_enumerate nth_enumerate_eq)
  show "CHR ''/'' \<notin> set tag" using n [of "CHR ''/''"] by (auto simp: tag_char_def)
  show "list_all plain_char tag" using n segment_plain(4) by (auto simp: list_all_iff)
  have "tag \<noteq> []" using assms by (auto simp: checkTag_def)
  then obtain c t where t: "tag = c # t" by (cases tag) auto
  have "tag_char 0 c" using e [of 0 c] by (simp add: t)
  then show "tag \<notin> {[], ''.'', ''..''}" using t by (auto simp: tag_char_def)
qed

lemma safe_append: "safe_segments (a @ CHR ''/'' # b) \<longleftrightarrow> safe_segments a \<and> safe_segments b"
  by (auto simp: safe_segments_def)

lemma safe_one: "CHR ''/'' \<notin> set s \<Longrightarrow> s \<notin> {[], ''.'', ''..''} \<Longrightarrow> safe_segments s"
  by (simp add: safe_segments_def)

lemma base_append: "CHR ''/'' \<notin> set s \<Longrightarrow> s \<noteq> [] \<Longrightarrow> path_base (a @ CHR ''/'' # s) = s"
proof -
  assume s: "CHR ''/'' \<notin> set s" "s \<noteq> []"
  then have "dropWhile (\<lambda>c. c = CHR ''/'') (rev s @ CHR ''/'' # rev a) = rev s @ CHR ''/'' # rev a"
    by (cases s rule: rev_cases) auto
  then show ?thesis using s by (simp add: path_base_def)
qed

lemma covered_content:
  "CHR ''/'' \<notin> set s \<Longrightarrow> s \<noteq> [] \<Longrightarrow> \<not> has_prefix s ''.tmp-'' \<Longrightarrow> covered (''docker/registry/v2/'' @ a @ CHR ''/'' # s)"
proof -
  assume s: "CHR ''/'' \<notin> set s" "s \<noteq> []" "\<not> has_prefix s ''.tmp-''"
  have "path_base (''docker/registry/v2/'' @ a @ CHR ''/'' # s) = s"
    using base_append [OF s(1,2), of "''docker/registry/v2/'' @ a"] by simp
  with s show ?thesis by (simp add: covered_def coveredRoots_def)
qed

lemma roots_safe [simp]: "safe_segments ''docker/registry/v2''" "safe_segments ''repositories''"
    "safe_segments ''blobs/sha256''" "safe_segments ''_manifests/revisions/sha256''" "safe_segments ''_layers/sha256''"
    "safe_segments ''_manifests/tags''" "safe_segments ''current''"
  by (simp_all add: safe_segments_def)

lemma content_path:
  assumes "safe_segments a" "list_all plain_char a" "s \<in> {''link'', ''data''}"
  shows "checkInventoryPath (''docker/registry/v2/'' @ a @ CHR ''/'' # s) = Inr ()"
proof -
  have "safe_segments (''docker/registry/v2'' @ CHR ''/'' # (a @ CHR ''/'' # s))"
    unfolding safe_append using assms(1,3) roots_safe(1) by (auto simp: safe_one)
  moreover have "covered (''docker/registry/v2/'' @ a @ CHR ''/'' # s)"
    using assms(3) by (intro covered_content) auto
  moreover have "list_all plain_char (''docker/registry/v2/'' @ a @ CHR ''/'' # s)"
    using assms(2,3) by (auto simp: plain_char_def is_control_def)
  ultimately show ?thesis by (simp add: checkInventoryPath_iff)
qed

lemma hexOfBlobPath_blobPath: "digestHex d = Inr h \<Longrightarrow> hexOfBlobPath (blobPath h) = Some h"
proof -
  assume d: "digestHex d = Inr h"
  have l: "length h = 64" using d by (simp add: digestHex_iff)
  note f = hex_segment(4) [OF d]
  have "cut_prefix (blobPath h) (blobsPrefix @ ''/'') = Some (take 2 h @ ''/'' @ h @ ''/data'')"
    by (simp add: cut_prefix_def blobPath_def)
  moreover have "cut_suffix (take 2 h @ ''/'' @ h @ ''/data'') ''/data'' = Some (take 2 h @ ''/'' @ h)"
    using l by (simp add: cut_suffix_def suffix_def)
  moreover have "index_byte CHR ''/'' (take 2 h @ ''/'' @ h) = Some 2"
    using f l by (simp add: index_byte_append)
  ultimately show ?thesis using l by (simp add: hexOfBlobPath_def Let_def take_is_prefix)
qed

text \<open>Nothing a transported store names leads outside it. An inventory path is accepted exactly when it
  is covered, free of separators and control characters of any platform, and made of segments
  that are neither empty nor relative.\<close>

theorem checkInventoryPath_exact:
  "checkInventoryPath p = Inr () \<longleftrightarrow>
     covered p \<and> list_all (\<lambda>seg. seg \<notin> {[], ''.'', ''..''}) (split_on CHR ''/'' p)
     \<and> list_all (\<lambda>c. c \<noteq> CHR 0x5C \<and> c \<noteq> CHR '':'' \<and> \<not> is_control c) p"
  by (auto simp: checkInventoryPath_iff safe_segments_def list_all_iff plain_char_def)

lemma repo_paths:
  assumes r: "checkRepoName repo = Inr ()" and s: "safe_segments mid" "list_all plain_char mid"
  shows "checkInventoryPath (''docker/registry/v2/'' @ (''repositories/'' @ repo @ CHR ''/'' # mid) @ ''/link'') = Inr ()"
proof -
  have "safe_segments (''repositories'' @ CHR ''/'' # (repo @ CHR ''/'' # mid))"
    unfolding safe_append using checkRepoName_safe(1) [OF r] s by simp
  moreover have "list_all plain_char (''repositories'' @ CHR ''/'' # (repo @ CHR ''/'' # mid))"
    using checkRepoName_safe(2) [OF r] s by (simp add: plain_char_def is_control_def)
  ultimately show ?thesis using content_path [of "''repositories/'' @ repo @ CHR ''/'' # mid" "''link''"] by simp
qed

lemma mid_paths:
  assumes "CHR ''/'' \<notin> set s" "s \<notin> {[], ''.'', ''..''}" "list_all plain_char s"
  shows "safe_segments (''_manifests/revisions/sha256/'' @ s)" "list_all plain_char (''_manifests/revisions/sha256/'' @ s)"
    "safe_segments (''_layers/sha256/'' @ s)" "list_all plain_char (''_layers/sha256/'' @ s)"
    "safe_segments (''_manifests/tags/'' @ s @ ''/current'')" "list_all plain_char (''_manifests/tags/'' @ s @ ''/current'')"
proof -
  note o = safe_one [OF assms(1,2)]
  show "safe_segments (''_manifests/revisions/sha256/'' @ s)" "safe_segments (''_layers/sha256/'' @ s)"
    using o safe_append [of "''_manifests/revisions/sha256''" s] safe_append [of "''_layers/sha256''" s] by simp_all
  show "safe_segments (''_manifests/tags/'' @ s @ ''/current'')"
    using o safe_append [of "''_manifests/tags''" "s @ ''/current''"] safe_append [of s "''current''"] by simp
qed (use assms(3) in \<open>simp_all add: plain_char_def is_control_def\<close>)

lemma derived_contained:
  assumes r: "checkRepoName repo = Inr ()" and d: "digestHex dgst = Inr h" and t: "checkTag tag = Inr ()"
  shows "checkInventoryPath (blobPath h) = Inr () \<and> checkInventoryPath (manifestLinkPath repo h) = Inr ()
    \<and> checkInventoryPath (layerLinkPath repo h) = Inr () \<and> checkInventoryPath (tagCurrentPath repo tag) = Inr ()
    \<and> hexOfBlobPath (blobPath h) = Some h"
proof (intro conjI)
  note h = hex_segment [OF d]
  note mid = mid_paths [OF h(1,2,3)] and tmid = mid_paths [OF tag_segment [OF t]]
  show "checkInventoryPath (manifestLinkPath repo h) = Inr ()" "checkInventoryPath (layerLinkPath repo h) = Inr ()"
    using repo_paths [OF r mid(1,2)] repo_paths [OF r mid(3,4)] by (simp_all add: manifestLinkPath_def layerLinkPath_def)
  show "checkInventoryPath (tagCurrentPath repo tag) = Inr ()"
    using repo_paths [OF r tmid(5,6)] by (simp add: tagCurrentPath_def)
  have "safe_segments (''blobs/sha256'' @ CHR ''/'' # (take 2 h @ CHR ''/'' # h))"
    unfolding safe_append using safe_one [OF h(1,2)] safe_one [OF h(4,5)] by simp
  then show "checkInventoryPath (blobPath h) = Inr ()"
    using content_path [of "''blobs/sha256/'' @ take 2 h @ CHR ''/'' # h" "''data''"] h(3,6)
    by (simp add: blobPath_def plain_char_def is_control_def)
qed (rule hexOfBlobPath_blobPath [OF d])

text \<open>Every path the verifier derives from a validated manifest entry passes the inventory check, so
  it stays inside the covered roots, and a blob path gives its digest back.\<close>

theorem derived_paths_contained:
  assumes "checkRepoName repo = Inr ()" and "digestHex dgst = Inr h" and "checkTag tag = Inr ()"
  shows "checkInventoryPath (blobPath h) = Inr () \<and> checkInventoryPath (manifestLinkPath repo h) = Inr ()
    \<and> checkInventoryPath (layerLinkPath repo h) = Inr () \<and> checkInventoryPath (tagCurrentPath repo tag) = Inr ()
    \<and> hexOfBlobPath (blobPath h) = Some h"
  using derived_contained [OF assms] .

definition demo_hex :: string where
  "demo_hex = replicate 64 CHR ''a''"

lemma demo_hex_digest: "digestHex (''sha256:'' @ demo_hex) = Inr demo_hex"
  by (simp add: digestHex_iff demo_hex_def lower_hex_def list_all_iff)

theorem derived_paths_contained_witness:
  "checkInventoryPath (tagCurrentPath ''r/app'' ''v1'') = Inr () \<and> hexOfBlobPath (blobPath demo_hex) = Some demo_hex"
proof -
  have "checkRepoName ''r/app'' = Inr ()" "checkTag ''v1'' = Inr ()" by code_simp+
  with derived_paths_contained [OF _ demo_hex_digest, of "''r/app''" "''v1''"] show ?thesis by simp
qed

subsection \<open>The register never goes back\<close>

text \<open>The file, when there is one, holds what memory holds.\<close>

definition register_ok :: "Imports \<Rightarrow> bool" where
  "register_ok i \<longleftrightarrow> (\<forall>zs. is_file i = Some zs \<longrightarrow> zs = is_records i)
     \<and> map_of (is_records i) [] = None"

lemma OpenImports_ok: "OpenImports root file = Inr i \<Longrightarrow> register_ok i"
  by (force simp: OpenImports_def register_ok_def Let_def list_ex_iff map_of_eq_None_iff
      split: if_splits register_file.splits)

lemma Record_ok: "Record w now zone r i = Inr i' \<Longrightarrow> register_ok i \<Longrightarrow> register_ok i'"
  by (auto simp: Record_def register_ok_def Let_def split: if_splits)

lemma Record_advances:
  assumes "Record w now zone r i = Inr i'"
  shows "\<exists>rec. Last zone i' = Some rec \<and> im_ResolvedAt rec \<ge> im_ResolvedAt r \<and> im_MediaID rec = im_MediaID r"
    and "Last z i = Some old \<Longrightarrow> \<exists>new. Last z i' = Some new \<and> im_ResolvedAt new \<ge> im_ResolvedAt old"
  using assms by (auto simp: Record_def Last_def Let_def split: if_splits option.splits)

text \<open>Any number of completed imports, failed writes included.\<close>

fun record_all :: "(bool \<times> time \<times> string \<times> ImportRecord) list \<Rightarrow> Imports \<Rightarrow> Imports" where
  "record_all [] i = i"
| "record_all ((w, now, zone, r) # rs) i =
     record_all rs (case Record w now zone r i of Inl _ \<Rightarrow> i | Inr i' \<Rightarrow> i')"

lemma record_all_advances:
  "Last z i = Some old \<Longrightarrow> \<exists>new. Last z (record_all rs i) = Some new \<and> im_ResolvedAt new \<ge> im_ResolvedAt old"
proof (induction rs arbitrary: i old)
  case (Cons r rs)
  obtain w now zone rec where r: "r = (w, now, zone, rec)" by (cases r)
  show ?case
  proof (cases "Record w now zone rec i")
    case (Inl e)
    with Cons r show ?thesis by simp
  next
    case (Inr i')
    from Record_advances(2) [OF Inr Cons.prems] obtain new where
      "Last z i' = Some new" "im_ResolvedAt new \<ge> im_ResolvedAt old" by blast
    with Cons.IH [of i' new] r Inr show ?thesis by fastforce
  qed
qed (auto simp: Last_def)

text \<open>The import register never goes backwards and survives a restart: after a completed import and
  any further sequence of imports, successful or not, the zone's record is at least as recent as
  that import, and reopening the register from its file gives the same records.\<close>

theorem register_never_regresses:
  assumes "OpenImports root file = Inr i0" and "Record w now zone r i0 = Inr i1"
  shows "\<exists>rec. Last zone (record_all rs i1) = Some rec \<and> im_ResolvedAt rec \<ge> im_ResolvedAt r
    \<and> (\<exists>zs. is_file (record_all rs i1) = Some zs
         \<and> (\<exists>i2. OpenImports root (RegisterHolds zs) = Inr i2 \<and> Last zone i2 = Some rec))"
proof -
  from Record_advances(1) [OF assms(2)] obtain rec1 where
    r1: "Last zone i1 = Some rec1" "im_ResolvedAt rec1 \<ge> im_ResolvedAt r" by blast
  from record_all_advances [OF r1(1)] r1(2) obtain rec where
    rec: "Last zone (record_all rs i1) = Some rec" "im_ResolvedAt rec \<ge> im_ResolvedAt r" by fastforce
  have step: "register_ok j \<and> is_file j \<noteq> None \<Longrightarrow>
      register_ok (record_all rs j) \<and> is_file (record_all rs j) \<noteq> None" for j
  proof (induction rs arbitrary: j)
    case (Cons a rs)
    obtain w n z q where a: "a = (w, n, z, q)" by (cases a)
    show ?case
    proof (cases "Record w n z q j")
      case (Inr j')
      then have "is_file j' \<noteq> None" by (auto simp: Record_def Let_def split: if_splits)
      with Inr a Cons Record_ok [OF Inr] show ?thesis by simp
    qed (use a Cons in simp)
  qed simp
  have "is_file i1 \<noteq> None" using assms(2) by (auto simp: Record_def Let_def split: if_splits)
  with step [of i1] Record_ok [OF assms(2) OpenImports_ok [OF assms(1)]]
  have ok: "register_ok (record_all rs i1)" "is_file (record_all rs i1) = Some (is_records (record_all rs i1))"
    by (auto simp: register_ok_def)
  have "root \<noteq> []" using assms by (auto simp: OpenImports_def Record_def split: if_splits)
  then have "\<exists>i2. OpenImports root (RegisterHolds (is_records (record_all rs i1))) = Inr i2 \<and> Last zone i2 = Some rec"
    using ok(1) rec(1) by (force simp: OpenImports_def register_ok_def Last_def Let_def list_ex_iff map_of_eq_None_iff)
  with rec ok(2) show ?thesis by blast
qed

definition demo_import :: ImportRecord where
  "demo_import = \<lparr>im_MediaID = ''m1'', im_ResolvedAt = 20, im_ImportedAt = 0, im_RunID = []\<rparr>"

theorem register_never_regresses_witness:
  "\<exists>i0 i1 rec. OpenImports ''/state'' RegisterAbsent = Inr i0 \<and> Record True 30 ''z'' demo_import i0 = Inr i1
     \<and> Last ''z'' (record_all [(True, 40, ''z'', demo_import\<lparr>im_ResolvedAt := 5\<rparr>)] i1) = Some rec \<and> im_ResolvedAt rec \<ge> 20"
proof -
  obtain i0 where o: "OpenImports ''/state'' RegisterAbsent = Inr i0" by (simp add: OpenImports_def Let_def)
  have "is_path i0 \<noteq> []" using o by (auto simp: OpenImports_def Let_def filepath_join_def filepath_clean_def)
  then obtain i1 where r: "Record True 30 ''z'' demo_import i0 = Inr i1" by (simp add: Record_def Let_def)
  from register_never_regresses [OF o r, of "[(True, 40, ''z'', demo_import\<lparr>im_ResolvedAt := 5\<rparr>)]"] o r
  show ?thesis by (auto simp: demo_import_def)
qed

end
