(* ===== verification/Media.thy ===== *)
theory Media
  imports Trust Media_Paths Store
begin

text \<open>
  Verification of a transported store, \<^verbatim>\<open>internal/media/verify.go\<close> with the data of
  \<^verbatim>\<open>manifest.go\<close> and \<^verbatim>\<open>report.go\<close>.

  The medium is what the code can see of the directory it was handed: the state of each file, the
  entries of each tag history, the listing of each covered root, and whether the context is
  cancelled at the n-th time the code asks. Hashing, JSON and the wording of messages are the
  record \<open>media_env\<close>. Counters are unbounded; log lines and progress notifications are left out.
\<close>

subsection \<open>The media manifest\<close>

record Ingredient =
  in_Name :: string
  in_Kind :: string
  in_Repo :: string
  in_Tag :: string
  in_Digest :: string

record Recipe =
  rc_Name :: string
  rc_Version :: string
  rc_CookbookRepo :: string
  rc_ArtifactRepo :: string
  rc_ArtifactTag :: string
  rc_Digest :: string
  rc_ResolvedAt :: time
  rc_Ingredients :: "Ingredient list"

record File =
  fi_Path :: string
  fi_Size :: int
  fi_Digest :: string

record Totals =
  to_Files :: int
  to_Bytes :: int

record Producer =
  pd_Version :: string
  pd_RunID :: string

record Manifest =
  mm_MediaFormat :: int
  mm_StoreFormat :: int
  mm_MediaID :: string
  mm_Zone :: string
  mm_ProducedBy :: Producer
  mm_ResolvedAt :: time
  mm_WrittenAt :: time
  mm_Recipes :: "Recipe list"
  mm_Inventory :: "File list"
  mm_Totals :: Totals

subsection \<open>The medium\<close>

text \<open>A sealed file is regular and cannot be opened, a broken one opens with a size and fails to
  read.\<close>

datatype mfile = Absent | Irregular | Sealed | Broken int | Content bytes

datatype dnode = FileNode string | DirNode string bool "dnode list"

record medium =
  md_opens :: bool
  md_file :: "string \<Rightarrow> mfile"
  md_tree :: "string \<Rightarrow> dnode list option"
  md_walk :: "string \<Rightarrow> string list \<times> string option"
  md_cancel :: "nat \<Rightarrow> string option"

record ociDocument =
  od_Config :: "string option"
  od_Layers :: "string list"
  od_Manifests :: "string list"

datatype detail =
    PathDetail path_error
  | RefDetail ref_error
  | TooLarge
  | CannotOpen string
  | CannotRead string
  | NotJSONDetail bytes
  | Inconsistent string
  | VerifyDetail verify_error

record media_env =
  me_sum256 :: "bytes \<Rightarrow> bytes"
  me_document :: "bytes \<Rightarrow> ociDocument option"
  me_manifest :: "bytes \<Rightarrow> Manifest option"
  me_text :: "detail \<Rightarrow> string"
  me_time :: "time \<Rightarrow> string"
  me_codec :: codec

abbreviation maxManifestBytes :: nat where "maxManifestBytes \<equiv> 1048576"
abbreviation ManifestFormat :: int where "ManifestFormat \<equiv> 1"

definition int_str :: "int \<Rightarrow> string" where
  "int_str n = (if n < 0 then CHR ''-'' # nat_str (nat (- n)) else nat_str (nat n))"

subsection \<open>The report\<close>

record Reason =
  re_Code :: code
  re_Path :: string
  re_Params :: params

record Block =
  bl_Code :: code
  bl_Params :: params
  bl_Overridable :: bool
  bl_Overridden :: bool

record Finding =
  fd_Code :: code
  fd_Path :: string
  fd_Params :: params

record RecipeVerdict =
  vd_Name :: string
  vd_Version :: string
  vd_CookbookRepo :: string
  vd_ArtifactRepo :: string
  vd_Digest :: string
  vd_ResolvedAt :: time
  vd_Pushable :: bool
  vd_Reason :: "Reason option"
  vd_KeyFingerprint :: string
  vd_TrustScope :: string
  vd_Unsigned :: bool
  vd_Files :: int
  vd_Bytes :: int

datatype Verdict = VerdictPushable | VerdictPartial | VerdictBlocked

record ZoneCheck =
  zc_Expected :: string
  zc_Found :: string
  zc_Match :: bool

record FreshnessCheck =
  fc_Resolved :: time
  fc_Recorded :: time
  fc_RecordedMediaID :: string
  fc_Stale :: bool

record Info =
  nf_MediaID :: string
  nf_Zone :: string
  nf_MediaFormat :: int
  nf_StoreFormat :: int
  nf_ProducedBy :: Producer
  nf_ResolvedAt :: time
  nf_WrittenAt :: time
  nf_Totals :: Totals

record Report =
  rt_Verdict :: Verdict
  rt_Blocks :: "Block list"
  rt_Media :: "Info option"
  rt_Zone :: ZoneCheck
  rt_Freshness :: "FreshnessCheck option"
  rt_Recipes :: "RecipeVerdict list"
  rt_Findings :: "Finding list"
  rt_Checked :: Totals

definition Pushable :: "Report \<Rightarrow> RecipeVerdict list" where
  "Pushable r = (if rt_Verdict r = VerdictBlocked then [] else filter vd_Pushable (rt_Recipes r))"

record VerifyOptions =
  vo_Zone :: string
  vo_Trust :: "(string \<Rightarrow> Decision) option"
  vo_LastImport :: "ImportRecord option"
  vo_AllowZoneMismatch :: bool
  vo_AllowStale :: bool

subsection \<open>Reading the manifest\<close>

definition path_check :: "media_env \<Rightarrow> path_error + 'a \<Rightarrow> string + unit" where
  "path_check e r = (case r of Inl x \<Rightarrow> Inl (me_text e (PathDetail x)) | Inr _ \<Rightarrow> Inr ())"

fun validate_inventory :: "media_env \<Rightarrow> string set \<Rightarrow> File list \<Rightarrow> string + unit" where
  "validate_inventory e seen [] = Inr ()"
| "validate_inventory e seen (f # fs) =
     bind_r (path_check e (checkInventoryPath (fi_Path f))) (\<lambda>_.
     if fi_Path f \<in> seen then Inl (me_text e (Inconsistent (fi_Path f)))
     else if fi_Size f < 0 then Inl (me_text e (Inconsistent (fi_Path f)))
     else bind_r (path_check e (digestHex (fi_Digest f))) (\<lambda>_.
          validate_inventory e (insert (fi_Path f) seen) fs))"

fun validate_ingredients :: "media_env \<Rightarrow> Ingredient list \<Rightarrow> string + unit" where
  "validate_ingredients e [] = Inr ()"
| "validate_ingredients e (i # is) =
     bind_r (path_check e (checkRepoName (in_Repo i))) (\<lambda>_.
     bind_r (if in_Tag i \<noteq> [] then path_check e (checkTag (in_Tag i)) else Inr ()) (\<lambda>_.
     bind_r (path_check e (digestHex (in_Digest i))) (\<lambda>_.
     validate_ingredients e is)))"

definition validateRecipe :: "media_env \<Rightarrow> Recipe \<Rightarrow> string + unit" where
  "validateRecipe e r =
     (if rc_Name r = [] \<or> rc_Version r = [] then Inl (me_text e (Inconsistent (rc_Name r)))
      else bind_r (case Path (rc_CookbookRepo r) of Inl x \<Rightarrow> Inl (me_text e (RefDetail x)) | Inr _ \<Rightarrow> Inr ()) (\<lambda>_.
           bind_r (path_check e (checkRepoName (rc_ArtifactRepo r))) (\<lambda>_.
           bind_r (if rc_ArtifactTag r \<noteq> [] then path_check e (checkTag (rc_ArtifactTag r)) else Inr ()) (\<lambda>_.
           bind_r (path_check e (digestHex (rc_Digest r))) (\<lambda>_.
           validate_ingredients e (rc_Ingredients r))))))"

fun validate_recipes :: "media_env \<Rightarrow> Recipe list \<Rightarrow> string + unit" where
  "validate_recipes e [] = Inr ()"
| "validate_recipes e (r # rs) = bind_r (validateRecipe e r) (\<lambda>_. validate_recipes e rs)"

definition validate :: "media_env \<Rightarrow> Manifest \<Rightarrow> string + unit" where
  "validate e m = bind_r (validate_inventory e {} (mm_Inventory m)) (\<lambda>_. validate_recipes e (mm_Recipes m))"

definition block :: "code \<Rightarrow> params \<Rightarrow> Block" where
  "block c ps = \<lparr>bl_Code = c, bl_Params = ps, bl_Overridable = False, bl_Overridden = False\<rparr>"

definition unreadable :: "string \<Rightarrow> Block" where
  "unreadable d = block CodeMediaManifestUnreadable [(''path'', ManifestPath), (''detail'', d)]"

definition readManifest :: "media_env \<Rightarrow> medium \<Rightarrow> Block + Manifest" where
  "readManifest e md =
     (case md_file md ManifestPath of
        Absent \<Rightarrow> Inl (block CodeMediaManifestMissing [(''path'', ManifestPath)])
      | Sealed \<Rightarrow> Inl (unreadable (me_text e (CannotOpen ManifestPath)))
      | Irregular \<Rightarrow> Inl (unreadable (me_text e (CannotRead ManifestPath)))
      | Broken _ \<Rightarrow> Inl (unreadable (me_text e (CannotRead ManifestPath)))
      | Content bs \<Rightarrow>
          (let raw = take (maxManifestBytes * 64) bs in
           case me_manifest e raw of
             None \<Rightarrow> Inl (unreadable (me_text e (NotJSONDetail raw)))
           | Some m \<Rightarrow>
               (case validate e m of
                  Inl d \<Rightarrow> Inl (unreadable d)
                | Inr _ \<Rightarrow>
                    if mm_MediaFormat m \<noteq> ManifestFormat
                    then Inl (block CodeMediaFormatUnsupported
                           [(''found'', int_str (mm_MediaFormat m)), (''supported'', int_str ManifestFormat)])
                    else if mm_StoreFormat m \<noteq> FormatVersion
                    then Inl (block CodeMediaStoreFormat
                           [(''found'', int_str (mm_StoreFormat m)), (''supported'', int_str FormatVersion)])
                    else Inr m)))"

subsection \<open>Checking a file\<close>

record checker =
  ck_inventory :: "(string \<times> File) list"
  ck_results :: "string \<Rightarrow> Reason option option"
  ck_reached :: "string set"
  ck_files :: int
  ck_bytes :: int
  ck_polls :: nat

definition checkUncached :: "media_env \<Rightarrow> medium \<Rightarrow> string \<Rightarrow> string \<Rightarrow> checker \<Rightarrow> checker \<times> Reason option" where
  "checkUncached e md p recipe c =
     (let missing = (c, Some \<lparr>re_Code = CodeMediaFileMissing, re_Path = p, re_Params = [(''path'', p), (''recipe'', recipe)]\<rparr>);
          wrong_size = (\<lambda>entry n. (c, Some \<lparr>re_Code = CodeMediaFileSize, re_Path = p,
            re_Params = [(''path'', p), (''expected'', int_str (fi_Size entry)), (''actual'', int_str n)]\<rparr>))
      in case map_of (ck_inventory c) p of
           None \<Rightarrow> (c, Some \<lparr>re_Code = CodeMediaFileUninventoried, re_Path = p,
                      re_Params = [(''path'', p), (''recipe'', recipe)]\<rparr>)
         | Some entry \<Rightarrow>
             (case md_file md p of
                Absent \<Rightarrow> missing
              | Sealed \<Rightarrow> missing
              | Irregular \<Rightarrow> missing
              | Broken n \<Rightarrow>
                  if n \<noteq> fi_Size entry then wrong_size entry n
                  else (c, Some \<lparr>re_Code = CodeMediaContentUnreadable, re_Path = p,
                          re_Params = [(''path'', p), (''detail'', me_text e (CannotRead p))]\<rparr>)
              | Content bs \<Rightarrow>
                  if int (length bs) \<noteq> fi_Size entry then wrong_size entry (int (length bs))
                  else (let got = ''sha256:'' @ hex_encode (me_sum256 e bs);
                            c = c\<lparr>ck_files := ck_files c + 1, ck_bytes := ck_bytes c + int (length bs)\<rparr>
                        in if got \<noteq> fi_Digest entry
                           then (c, Some \<lparr>re_Code = CodeMediaFileDigest, re_Path = p,
                                   re_Params = [(''path'', p), (''expected'', fi_Digest entry), (''actual'', got)]\<rparr>)
                           else (case hexOfBlobPath p of
                                   None \<Rightarrow> (c, None)
                                 | Some want \<Rightarrow>
                                     if got \<noteq> ''sha256:'' @ want
                                     then (c, Some \<lparr>re_Code = CodeMediaContentAddress, re_Path = p,
                                             re_Params = [(''path'', p), (''expected'', ''sha256:'' @ want), (''actual'', got)]\<rparr>)
                                     else (c, None)))))"

definition withRecipe :: "Reason option \<Rightarrow> string \<Rightarrow> Reason option" where
  "withRecipe r recipe =
     (case r of
        None \<Rightarrow> None
      | Some x \<Rightarrow>
          if recipe = [] \<or> map_of (re_Params x) ''recipe'' = None then r
          else Some (x\<lparr>re_Params := map_put ''recipe'' recipe (re_Params x)\<rparr>))"

definition check :: "media_env \<Rightarrow> medium \<Rightarrow> string \<Rightarrow> string \<Rightarrow> checker \<Rightarrow> checker \<times> Reason option" where
  "check e md p recipe c =
     (let c = c\<lparr>ck_reached := insert p (ck_reached c)\<rparr> in
      case ck_results c p of
        Some r \<Rightarrow> (c, withRecipe r recipe)
      | None \<Rightarrow>
          (let (c, reason) = checkUncached e md p recipe c
           in (c\<lparr>ck_results := (ck_results c)(p \<mapsto> reason)\<rparr>, reason)))"

definition file_exists :: "medium \<Rightarrow> string \<Rightarrow> bool" where
  "file_exists md p = (case md_file md p of Sealed \<Rightarrow> True | Broken _ \<Rightarrow> True | Content _ \<Rightarrow> True | _ \<Rightarrow> False)"

subsection \<open>The walk of one recipe\<close>

record walk =
  wk_c :: checker
  wk_recipe :: string
  wk_seen :: "string set"
  wk_reason :: "Reason option"
  wk_files :: int
  wk_bytes :: int

definition fail :: "Reason \<Rightarrow> walk \<Rightarrow> walk" where
  "fail r w = (if wk_reason w = None then w\<lparr>wk_reason := Some r\<rparr> else w)"

definition unreadable_reason :: "string \<Rightarrow> string \<Rightarrow> Reason" where
  "unreadable_reason p d = \<lparr>re_Code = CodeMediaContentUnreadable, re_Path = p, re_Params = [(''path'', p), (''detail'', d)]\<rparr>"

definition poll :: "medium \<Rightarrow> checker \<Rightarrow> checker \<times> string option" where
  "poll md c = (c\<lparr>ck_polls := Suc (ck_polls c)\<rparr>, md_cancel md (ck_polls c))"

definition walk_file :: "media_env \<Rightarrow> medium \<Rightarrow> string \<Rightarrow> walk \<Rightarrow> walk" where
  "walk_file e md p w =
     (if wk_reason w \<noteq> None then w
      else (let (c, err) = poll md (wk_c w); w = w\<lparr>wk_c := c\<rparr> in
            case err of
              Some d \<Rightarrow> fail (unreadable_reason p d) w
            | None \<Rightarrow>
                (let w = (case map_of (ck_inventory (wk_c w)) p of
                            None \<Rightarrow> w
                          | Some entry \<Rightarrow> w\<lparr>wk_files := wk_files w + 1, wk_bytes := wk_bytes w + fi_Size entry\<rparr>);
                     (c, reason) = check e md p (wk_recipe w) (wk_c w);
                     w = w\<lparr>wk_c := c\<rparr>
                 in case reason of None \<Rightarrow> w | Some r \<Rightarrow> fail r w)))"

fun optional_entries :: "media_env \<Rightarrow> medium \<Rightarrow> string \<Rightarrow> dnode list \<Rightarrow> walk \<Rightarrow> walk" where
  "optional_entries e md dir [] w = w"
| "optional_entries e md dir (DirNode n readable sub # es) w =
     optional_entries e md dir es (if readable then optional_entries e md (dir @ ''/'' @ n) sub w else w)"
| "optional_entries e md dir (FileNode n # es) w =
     (let p = dir @ ''/'' @ n in
      if map_of (ck_inventory (wk_c w)) p = None
      then optional_entries e md dir es (w\<lparr>wk_c := (wk_c w)\<lparr>ck_reached := insert p (ck_reached (wk_c w))\<rparr>\<rparr>)
      else (let (c, reason) = check e md p (wk_recipe w) (wk_c w); w = w\<lparr>wk_c := c\<rparr> in
            case reason of
              Some r \<Rightarrow> fail r w
            | None \<Rightarrow> optional_entries e md dir es w))"

definition optionalTree :: "media_env \<Rightarrow> medium \<Rightarrow> string \<Rightarrow> walk \<Rightarrow> walk" where
  "optionalTree e md dir w =
     (case md_tree md dir of None \<Rightarrow> w | Some entries \<Rightarrow> optional_entries e md dir entries w)"

definition walk_read :: "media_env \<Rightarrow> medium \<Rightarrow> string \<Rightarrow> string + bytes" where
  "walk_read e md p =
     (case md_file md p of
        Content bs \<Rightarrow> if length bs > maxManifestBytes then Inl (me_text e TooLarge) else Inr bs
      | Broken _ \<Rightarrow> Inl (me_text e (CannotRead p))
      | Irregular \<Rightarrow> Inl (me_text e (CannotRead p))
      | Absent \<Rightarrow> Inl (me_text e (CannotOpen p))
      | Sealed \<Rightarrow> Inl (me_text e (CannotOpen p)))"

definition walk_blob :: "media_env \<Rightarrow> medium \<Rightarrow> string \<Rightarrow> string \<Rightarrow> walk \<Rightarrow> walk" where
  "walk_blob e md repo dgst w =
     (if wk_reason w \<noteq> None then w
      else (case digestHex dgst of
              Inl x \<Rightarrow> fail (unreadable_reason repo (me_text e (PathDetail x))) w
            | Inr h \<Rightarrow> walk_file e md (blobPath h) (walk_file e md (layerLinkPath repo h) w)))"

definition seen_key :: "string \<Rightarrow> string \<Rightarrow> string" where
  "seen_key repo dgst = repo @ ''@'' @ dgst"

text \<open>
  A descent happens only below a manifest whose blob is in the inventory and was not seen, so one
  step more than the inventory has entries is enough (\<open>walk_manifest_stable\<close>); running out
  of steps is a failure of the walk.
\<close>

fun walk_manifest :: "media_env \<Rightarrow> medium \<Rightarrow> nat \<Rightarrow> string \<Rightarrow> string \<Rightarrow> bool \<Rightarrow> walk \<Rightarrow> walk" where
  "walk_manifest e md 0 repo dgst required w = fail (unreadable_reason repo []) w"
| "walk_manifest e md (Suc fuel) repo dgst required w =
     (if wk_reason w \<noteq> None then w
      else if seen_key repo dgst \<in> wk_seen w then w
      else (let w = w\<lparr>wk_seen := insert (seen_key repo dgst) (wk_seen w)\<rparr> in
            case digestHex dgst of
              Inl x \<Rightarrow> fail (unreadable_reason repo (me_text e (PathDetail x))) w
            | Inr h \<Rightarrow>
                if \<not> required \<and> \<not> file_exists md (blobPath h) then w
                else (let w = walk_file e md (blobPath h) (walk_file e md (manifestLinkPath repo h) w) in
                      if wk_reason w \<noteq> None then w
                      else (case walk_read e md (blobPath h) of
                              Inl d \<Rightarrow> fail (unreadable_reason (blobPath h) d) w
                            | Inr raw \<Rightarrow>
                                (case me_document e raw of
                                   None \<Rightarrow> fail (unreadable_reason (blobPath h) (me_text e (NotJSONDetail raw))) w
                                 | Some doc \<Rightarrow>
                                     (let w = foldl (\<lambda>w d. walk_manifest e md fuel repo d False w) w (od_Manifests doc);
                                          w = (case od_Config doc of None \<Rightarrow> w | Some d \<Rightarrow> walk_blob e md repo d w)
                                      in foldl (\<lambda>w d. walk_blob e md repo d w) w (od_Layers doc)))))))"

definition walk_fuel :: "walk \<Rightarrow> nat" where
  "walk_fuel w = Suc (length (ck_inventory (wk_c w)))"

definition walk_root :: "media_env \<Rightarrow> medium \<Rightarrow> string \<Rightarrow> string \<Rightarrow> string \<Rightarrow> walk \<Rightarrow> walk" where
  "walk_root e md repo dgst tag w =
     (if wk_reason w \<noteq> None then w
      else (let w = (if tag \<noteq> []
                     then optionalTree e md (tagIndexDir repo tag) (walk_file e md (tagCurrentPath repo tag) w)
                     else w)
            in walk_manifest e md (walk_fuel w) repo dgst True w))"

definition currentDigest :: "medium \<Rightarrow> string \<Rightarrow> string \<Rightarrow> string option" where
  "currentDigest md repo tag =
     (case md_file md (tagCurrentPath repo tag) of
        Content bs \<Rightarrow> (let d = trim_space (take 128 bs) in if is_ok (digestHex d) then Some d else None)
      | _ \<Rightarrow> None)"

definition walk_signature :: "media_env \<Rightarrow> medium \<Rightarrow> string \<Rightarrow> string \<Rightarrow> walk \<Rightarrow> walk" where
  "walk_signature e md repo tag w =
     (if \<not> file_exists md (tagCurrentPath repo tag) then w
      else (let w = optionalTree e md (tagIndexDir repo tag) (walk_file e md (tagCurrentPath repo tag) w) in
            case currentDigest md repo tag of
              None \<Rightarrow> w
            | Some d \<Rightarrow> walk_manifest e md (walk_fuel w) repo d True w))"

definition signatures :: "media_env \<Rightarrow> medium \<Rightarrow> string \<Rightarrow> string \<Rightarrow> walk \<Rightarrow> walk" where
  "signatures e md repo dgst w =
     (case digestHex dgst of
        Inl _ \<Rightarrow> w
      | Inr h \<Rightarrow> foldl (\<lambda>w tag. walk_signature e md repo tag w) w [''sha256-'' @ h @ ''.sig'', ''sha256-'' @ h])"

definition delivery :: "media_env \<Rightarrow> medium \<Rightarrow> Recipe \<Rightarrow> walk \<Rightarrow> walk" where
  "delivery e md r w =
     (let w = walk_root e md (rc_ArtifactRepo r) (rc_Digest r) (rc_ArtifactTag r) w;
          w = signatures e md (rc_ArtifactRepo r) (rc_Digest r) w
      in foldl (\<lambda>w i. walk_root e md (in_Repo i) (in_Digest i) (in_Tag i) w) w (rc_Ingredients r))"

subsection \<open>The signature verdict\<close>

text \<open>The store as the signature verifier reads it; \<open>NotFound\<close> is \<^verbatim>\<open>store.ErrNotFound\<close> on the
  reader's side.\<close>

record Reader =
  rd_RawManifest :: "string \<Rightarrow> string \<Rightarrow> src_error + bytes"
  rd_BlobReader :: "string \<Rightarrow> string \<Rightarrow> src_error + bytes"

definition manifestSource :: "Reader \<Rightarrow> string \<Rightarrow> manifests" where
  "manifestSource rd repo =
     \<lparr>ms_Manifest = (\<lambda>_ reference. rd_RawManifest rd repo reference),
      ms_Blob = (\<lambda>_ dgst. case rd_BlobReader rd repo dgst of
                   Inl err \<Rightarrow> Inl err
                 | Inr raw \<Rightarrow> if int (length raw) > MaxPayloadSize then Inl (SrcFailed dgst) else Inr raw),
      ms_Referrers = None\<rparr>"

definition fingerprintsOf :: "media_env \<Rightarrow> verify_error \<Rightarrow> string" where
  "fingerprintsOf e err =
     (case err of
        NoTrustedKeyError tried \<Rightarrow> concat (case tried of [] \<Rightarrow> [] | t # ts \<Rightarrow> t # concat (map (\<lambda>x. ['', '', x]) ts))
      | ErrNoSignature \<Rightarrow> ''no signature artifact found''
      | _ \<Rightarrow> me_text e (VerifyDetail err))"

definition signature_reason :: "string \<Rightarrow> string \<Rightarrow> Reason" where
  "signature_reason nominal fps = \<lparr>re_Code = CodeSignature, re_Path = [], re_Params = [(''recipe'', nominal), (''fingerprints'', fps)]\<rparr>"

definition nominal_of :: "Recipe \<Rightarrow> string" where
  "nominal_of r = (case Path (rc_CookbookRepo r) of Inl _ \<Rightarrow> rc_CookbookRepo r | Inr p \<Rightarrow> p)"

definition decide :: "media_env \<Rightarrow> Reader \<Rightarrow> Recipe \<Rightarrow> (string \<Rightarrow> Decision) option \<Rightarrow> RecipeVerdict \<Rightarrow> RecipeVerdict" where
  "decide e rd r trust v =
     (let nominal = nominal_of r;
          d = (case trust of None \<Rightarrow> \<lparr>dc_AllowUnsigned = False, dc_Scope = [], dc_Keys = None\<rparr> | Some t \<Rightarrow> t nominal);
          v = v\<lparr>vd_TrustScope := dc_Scope d\<rparr>
      in case dc_Keys d of
           None \<Rightarrow>
             if dc_AllowUnsigned d then v\<lparr>vd_Pushable := True, vd_Unsigned := True\<rparr>
             else v\<lparr>vd_Reason := Some (signature_reason nominal (me_text e (VerifyDetail NoTrustRoots)))\<rparr>
         | Some keys \<Rightarrow>
             (case Verify (me_codec e) (manifestSource rd (rc_ArtifactRepo r)) (rc_ArtifactRepo r) (rc_Digest r) (Some keys) of
                Inr fp \<Rightarrow> v\<lparr>vd_Pushable := True, vd_KeyFingerprint := fp\<rparr>
              | Inl err \<Rightarrow>
                  if err = ErrNoSignature \<and> dc_AllowUnsigned d then v\<lparr>vd_Pushable := True, vd_Unsigned := True\<rparr>
                  else v\<lparr>vd_Reason := Some (signature_reason nominal (fingerprintsOf e err))\<rparr>))"

definition new_walk :: "checker \<Rightarrow> Recipe \<Rightarrow> walk" where
  "new_walk c r = \<lparr>wk_c = c, wk_recipe = rc_Name r @ ''@'' @ rc_Version r, wk_seen = {}, wk_reason = None, wk_files = 0, wk_bytes = 0\<rparr>"

definition verify_one :: "media_env \<Rightarrow> medium \<Rightarrow> Reader \<Rightarrow> VerifyOptions \<Rightarrow> Recipe \<Rightarrow> checker \<Rightarrow> checker \<times> RecipeVerdict" where
  "verify_one e md rd opts r c =
     (let w = delivery e md r (new_walk c r);
          v = \<lparr>vd_Name = rc_Name r, vd_Version = rc_Version r, vd_CookbookRepo = rc_CookbookRepo r,
               vd_ArtifactRepo = rc_ArtifactRepo r, vd_Digest = rc_Digest r, vd_ResolvedAt = rc_ResolvedAt r,
               vd_Pushable = False, vd_Reason = None, vd_KeyFingerprint = [], vd_TrustScope = [], vd_Unsigned = False,
               vd_Files = wk_files w, vd_Bytes = wk_bytes w\<rparr>
      in case wk_reason w of
           Some reason \<Rightarrow> (wk_c w, v\<lparr>vd_Reason := Some reason\<rparr>)
         | None \<Rightarrow>
             (let (c, err) = poll md (wk_c w) in
              case err of
                Some d \<Rightarrow> (c, v\<lparr>vd_Reason := Some \<lparr>re_Code = CodeMediaContentUnreadable, re_Path = [],
                               re_Params = [(''path'', rc_ArtifactRepo r), (''detail'', d)]\<rparr>\<rparr>)
              | None \<Rightarrow> (c, decide e rd r (vo_Trust opts) v)))"

fun verifyRecipes :: "media_env \<Rightarrow> medium \<Rightarrow> Reader \<Rightarrow> VerifyOptions \<Rightarrow> Recipe list \<Rightarrow> checker \<Rightarrow> checker \<times> RecipeVerdict list" where
  "verifyRecipes e md rd opts [] c = (c, [])"
| "verifyRecipes e md rd opts (r # rs) c =
     (let (c, v) = verify_one e md rd opts r c; (c, vs) = verifyRecipes e md rd opts rs c in (c, v # vs))"

subsection \<open>Medium-wide checks\<close>

definition globalBlocks ::
  "media_env \<Rightarrow> medium \<Rightarrow> Manifest \<Rightarrow> VerifyOptions \<Rightarrow> checker \<Rightarrow> checker \<times> Block list \<times> FreshnessCheck option" where
  "globalBlocks e md m opts c =
     (let (c, reason) = check e md recipesFile [] c;
          graph = (case reason of
                     None \<Rightarrow> []
                   | Some r \<Rightarrow> [block CodeMediaGraphAltered [(''path'', recipesFile),
                       (''expected'', go_get (re_Params r) ''expected''), (''actual'', go_get (re_Params r) ''actual'')]]);
          zone = (if mm_Zone m = vo_Zone opts then []
                  else [\<lparr>bl_Code = CodeMediaZoneMismatch, bl_Params = [(''expected'', vo_Zone opts), (''found'', mm_Zone m)],
                         bl_Overridable = True, bl_Overridden = vo_AllowZoneMismatch opts\<rparr>])
      in case vo_LastImport opts of
           None \<Rightarrow> (c, graph @ zone, None)
         | Some prev \<Rightarrow>
             (let stale = mm_ResolvedAt m < im_ResolvedAt prev;
                  fresh = \<lparr>fc_Resolved = mm_ResolvedAt m, fc_Recorded = im_ResolvedAt prev,
                           fc_RecordedMediaID = im_MediaID prev, fc_Stale = stale\<rparr>;
                  b = \<lparr>bl_Code = CodeMediaStale, bl_Params = [(''zone'', vo_Zone opts), (''media'', mm_MediaID m),
                         (''resolved'', me_time e (mm_ResolvedAt m)), (''recorded'', me_time e (im_ResolvedAt prev))],
                       bl_Overridable = True, bl_Overridden = vo_AllowStale opts\<rparr>
              in (c, graph @ zone @ (if stale then [b] else []), Some fresh)))"

definition standing :: "Block list \<Rightarrow> bool" where
  "standing blocks = list_ex (\<lambda>b. \<not> bl_Overridden b) blocks"

definition finish_report :: "Report \<Rightarrow> Report" where
  "finish_report rep =
     (if standing (rt_Blocks rep) then rep\<lparr>rt_Verdict := VerdictBlocked\<rparr>
      else (let pushable = length (filter vd_Pushable (rt_Recipes rep));
                blocked = length (filter (\<lambda>v. \<not> vd_Pushable v) (rt_Recipes rep))
            in rep\<lparr>rt_Verdict := (if blocked = 0 then VerdictPushable else if pushable = 0 then VerdictBlocked else VerdictPartial)\<rparr>))"

fun inventory_findings :: "media_env \<Rightarrow> medium \<Rightarrow> File list \<Rightarrow> checker \<Rightarrow> checker \<times> Finding list" where
  "inventory_findings e md [] c = (c, [])"
| "inventory_findings e md (f # fs) c =
     (let p = fi_Path f;
          (c, out) = (if has_prefix p ''meta/''
                      then (if p = recipesFile then (c, [])
                            else (let (c, reason) = check e md p [] c
                                  in (c, if reason = None then []
                                         else [\<lparr>fd_Code = CodeMediaMetadataAltered, fd_Path = p, fd_Params = [(''path'', p)]\<rparr>])))
                      else (c, if p \<in> ck_reached c then []
                               else [\<lparr>fd_Code = CodeMediaUnreachable, fd_Path = p, fd_Params = [(''path'', p)]\<rparr>]));
          (c, rest) = inventory_findings e md fs c
      in (c, out @ rest))"

definition uncovered :: "medium \<Rightarrow> checker \<Rightarrow> string list" where
  "uncovered md c =
     sort (concat (map (\<lambda>sub. let (files, err) = md_walk md sub
             in filter (\<lambda>p. covered p \<and> map_of (ck_inventory c) p = None) files
                @ (case err of None \<Rightarrow> [] | Some d \<Rightarrow> [sub @ '' (not fully readable: '' @ d @ '')'']))
           coveredRoots))"

definition findings :: "media_env \<Rightarrow> medium \<Rightarrow> Manifest \<Rightarrow> checker \<Rightarrow> checker \<times> Finding list" where
  "findings e md m c =
     (let (c, out) = inventory_findings e md (mm_Inventory m) c;
          out = out @ map (\<lambda>p. \<lparr>fd_Code = CodeMediaUncovered, fd_Path = p, fd_Params = [(''path'', p)]\<rparr>) (uncovered md c)
      in (c, sort_key fd_Code (sort_key fd_Path out)))"

definition new_checker :: "Manifest \<Rightarrow> checker" where
  "new_checker m = \<lparr>ck_inventory = map (\<lambda>f. (fi_Path f, f)) (rev (mm_Inventory m)), ck_results = Map.empty, ck_reached = {},
     ck_files = 0, ck_bytes = 0, ck_polls = 0\<rparr>"

definition checked :: "checker \<Rightarrow> Totals" where
  "checked c = \<lparr>to_Files = ck_files c, to_Bytes = ck_bytes c\<rparr>"

definition info_of :: "Manifest \<Rightarrow> Info" where
  "info_of m = \<lparr>nf_MediaID = mm_MediaID m, nf_Zone = mm_Zone m, nf_MediaFormat = mm_MediaFormat m,
     nf_StoreFormat = mm_StoreFormat m, nf_ProducedBy = mm_ProducedBy m, nf_ResolvedAt = mm_ResolvedAt m,
     nf_WrittenAt = mm_WrittenAt m, nf_Totals = mm_Totals m\<rparr>"

definition empty_report :: Report where
  "empty_report = \<lparr>rt_Verdict = VerdictBlocked, rt_Blocks = [], rt_Media = None,
     rt_Zone = \<lparr>zc_Expected = [], zc_Found = [], zc_Match = False\<rparr>, rt_Freshness = None, rt_Recipes = [],
     rt_Findings = [], rt_Checked = \<lparr>to_Files = 0, to_Bytes = 0\<rparr>\<rparr>"

text \<open>\<open>None\<close> is the infrastructure error of a directory that cannot be opened.\<close>

definition Verify_media :: "media_env \<Rightarrow> medium \<Rightarrow> Reader \<Rightarrow> VerifyOptions \<Rightarrow> Report option" where
  "Verify_media e md rd opts =
     (if \<not> md_opens md then None
      else (case readManifest e md of
              Inl b \<Rightarrow> Some (finish_report (empty_report\<lparr>rt_Blocks := [b]\<rparr>))
            | Inr m \<Rightarrow>
                (let (c, blocks, fresh) = globalBlocks e md m opts (new_checker m);
                     rep = empty_report\<lparr>rt_Media := Some (info_of m), rt_Blocks := blocks,
                       rt_Zone := \<lparr>zc_Expected = vo_Zone opts, zc_Found = mm_Zone m, zc_Match = (mm_Zone m = vo_Zone opts)\<rparr>,
                       rt_Freshness := fresh\<rparr>
                 in if standing blocks then Some (finish_report (rep\<lparr>rt_Checked := checked c\<rparr>))
                    else (let (c, vs) = verifyRecipes e md rd opts (mm_Recipes m) c;
                              (c, fs) = findings e md m c
                          in Some (finish_report (rep\<lparr>rt_Recipes := vs, rt_Findings := fs, rt_Checked := checked c\<rparr>))))))"

end
