(* ===== verification/Media_Sound.thy ===== *)
theory Media_Sound
  imports Media
begin

text \<open>
  What a verification of a transported store establishes. \<open>sound\<close> is the specification of a
  checked file, \<open>delivers\<close> the content a recipe reaches on the medium; the locale
  \<open>media_walk\<close> holds the argument that a walk which ends without a reason has checked all of
  it, for any content predicate closed under index children, and is interpreted on
  \<open>delivers\<close>.
\<close>

subsection \<open>Sound files\<close>

definition sound :: "media_env \<Rightarrow> medium \<Rightarrow> (string \<times> File) list \<Rightarrow> string \<Rightarrow> bool" where
  "sound e md files p \<longleftrightarrow>
     (\<exists>entry bs. map_of files p = Some entry \<and> md_file md p = Content bs
        \<and> int (length bs) = fi_Size entry \<and> fi_Digest entry = ''sha256:'' @ hex_encode (me_sum256 e bs)
        \<and> (\<forall>want. hexOfBlobPath p = Some want \<longrightarrow> hex_encode (me_sum256 e bs) = want))"

definition cache_ok :: "media_env \<Rightarrow> medium \<Rightarrow> checker \<Rightarrow> bool" where
  "cache_ok e md c \<longleftrightarrow> (\<forall>p. ck_results c p = Some None \<longrightarrow> sound e md (ck_inventory c) p)"

lemma withRecipe_None [simp]: "withRecipe r recipe = None \<longleftrightarrow> r = None"
  by (simp add: withRecipe_def split: option.splits)

lemma checkUncached_keeps:
  "checkUncached e md p recipe c = (c', reason) \<Longrightarrow> ck_inventory c' = ck_inventory c \<and> ck_results c' = ck_results c"
  by (auto simp: checkUncached_def Let_def split: option.splits mfile.splits if_splits)

lemma checkUncached_sound:
  "checkUncached e md p recipe c = (c', None) \<Longrightarrow> sound e md (ck_inventory c) p"
  by (auto simp: checkUncached_def sound_def Let_def split: option.splits mfile.splits if_splits)

lemma check_step:
  assumes "check e md p recipe c = (c', reason)"
  shows "ck_inventory c' = ck_inventory c" and "cache_ok e md c \<Longrightarrow> cache_ok e md c'"
    and "cache_ok e md c \<Longrightarrow> reason = None \<Longrightarrow> sound e md (ck_inventory c) p"
proof -
  let ?c = "c\<lparr>ck_reached := insert p (ck_reached c)\<rparr>"
  have "ck_inventory c' = ck_inventory c \<and> (cache_ok e md c \<longrightarrow> cache_ok e md c'
      \<and> (reason = None \<longrightarrow> sound e md (ck_inventory c) p))"
  proof (cases "ck_results c p")
    case (Some r)
    with assms have "c' = ?c" "reason = withRecipe r recipe" by (simp_all add: check_def)
    with Some show ?thesis by (simp add: cache_ok_def)
  next
    case None
    obtain c2 r2 where u: "checkUncached e md p recipe ?c = (c2, r2)" by fastforce
    with assms None have "c' = c2\<lparr>ck_results := (ck_results c2)(p \<mapsto> r2)\<rparr>" "reason = r2" by (auto simp: check_def)
    with checkUncached_keeps [OF u] checkUncached_sound [of e md p recipe ?c c2] u show ?thesis
      by (auto simp: cache_ok_def)
  qed
  then show "ck_inventory c' = ck_inventory c" "cache_ok e md c \<Longrightarrow> cache_ok e md c'"
    "cache_ok e md c \<Longrightarrow> reason = None \<Longrightarrow> sound e md (ck_inventory c) p" by blast+
qed

subsection \<open>Steps of a walk\<close>

definition extends :: "media_env \<Rightarrow> medium \<Rightarrow> walk \<Rightarrow> walk \<Rightarrow> bool" where
  "extends e md w w' \<longleftrightarrow>
     ck_inventory (wk_c w') = ck_inventory (wk_c w) \<and> (cache_ok e md (wk_c w) \<longrightarrow> cache_ok e md (wk_c w'))
     \<and> wk_seen w \<subseteq> wk_seen w' \<and> (wk_reason w \<noteq> None \<longrightarrow> wk_reason w' = wk_reason w)"

lemma extends_refl [simp]: "extends e md w w"
  by (simp add: extends_def)

lemma extends_trans: "extends e md w w' \<Longrightarrow> extends e md w' w'' \<Longrightarrow> extends e md w w''"
  by (auto simp: extends_def)

lemma extends_reason: "extends e md w w' \<Longrightarrow> wk_reason w' = None \<Longrightarrow> wk_reason w = None"
  by (cases "wk_reason w") (auto simp: extends_def)

lemma extends_fail [simp]: "extends e md w (fail r w)" "wk_reason (fail r w) \<noteq> None"
  by (auto simp: extends_def fail_def)

lemma fail_seen [simp]: "wk_seen (fail r w) = wk_seen w"
  by (simp add: fail_def)

lemma extends_foldl: "(\<And>w x. extends e md w (f w x)) \<Longrightarrow> extends e md w (foldl f w xs)"
  by (induction xs arbitrary: w) (auto intro: extends_trans)

lemma walk_file_step:
  shows "extends e md w (walk_file e md p w)" and "wk_seen (walk_file e md p w) = wk_seen w"
    and "cache_ok e md (wk_c w) \<Longrightarrow> wk_reason (walk_file e md p w) = None \<Longrightarrow> sound e md (ck_inventory (wk_c w)) p"
proof -
  obtain c1 err where p: "poll md (wk_c w) = (c1, err)" by fastforce
  have c1: "ck_inventory c1 = ck_inventory (wk_c w)" "cache_ok e md c1 = cache_ok e md (wk_c w)"
    using p by (auto simp: poll_def cache_ok_def)
  obtain c2 reason where c: "check e md p (wk_recipe w) c1 = (c2, reason)" by fastforce
  note s = check_step [OF c]
  have "extends e md w (walk_file e md p w) \<and> wk_seen (walk_file e md p w) = wk_seen w
    \<and> (cache_ok e md (wk_c w) \<longrightarrow> wk_reason (walk_file e md p w) = None \<longrightarrow> sound e md (ck_inventory (wk_c w)) p)"
    using p c s c1
    by (auto simp: walk_file_def extends_def fail_def Let_def split: option.splits)
  then show "extends e md w (walk_file e md p w)" "wk_seen (walk_file e md p w) = wk_seen w"
    "cache_ok e md (wk_c w) \<Longrightarrow> wk_reason (walk_file e md p w) = None \<Longrightarrow> sound e md (ck_inventory (wk_c w)) p" by blast+
qed

lemma optional_step:
  "extends e md w (optional_entries e md dir es w) \<and> wk_seen (optional_entries e md dir es w) = wk_seen w"
proof (induction e md dir es w rule: optional_entries.induct)
  case (2 e md dir n readable sub es w)
  then show ?case by (auto intro: extends_trans)
next
  case (3 e md dir n es w)
  let ?p = "dir @ ''/'' @ n"
  let ?w = "w\<lparr>wk_c := (wk_c w)\<lparr>ck_reached := insert ?p (ck_reached (wk_c w))\<rparr>\<rparr>"
  have w: "extends e md w ?w" by (simp add: extends_def cache_ok_def)
  obtain c reason where c: "check e md ?p (wk_recipe w) (wk_c w) = (c, reason)" by fastforce
  have wc: "extends e md w (w\<lparr>wk_c := c\<rparr>)" using check_step [OF c] by (simp add: extends_def)
  show ?case
  proof (cases "map_of (ck_inventory (wk_c w)) ?p = None")
    case True
    with 3(1) [OF refl True] w show ?thesis by (auto intro: extends_trans)
  next
    case False
    show ?thesis
    proof (cases reason)
      case None
      have ih: "extends e md (w\<lparr>wk_c := c\<rparr>) (optional_entries e md dir es (w\<lparr>wk_c := c\<rparr>))
          \<and> wk_seen (optional_entries e md dir es (w\<lparr>wk_c := c\<rparr>)) = wk_seen (w\<lparr>wk_c := c\<rparr>)"
        by (rule 3(2) [OF refl False refl c [symmetric] refl None])
      have "optional_entries e md dir (FileNode n # es) w = optional_entries e md dir es (w\<lparr>wk_c := c\<rparr>)"
        using None False c by (auto simp: Let_def)
      with ih extends_trans [OF wc] show ?thesis by simp
    next
      case (Some r)
      then have "optional_entries e md dir (FileNode n # es) w = fail r (w\<lparr>wk_c := c\<rparr>)"
        using False c by (auto simp: Let_def)
      with extends_trans [OF wc extends_fail(1)] show ?thesis by simp
    qed
  qed
qed simp_all

lemma optionalTree_step:
  "extends e md w (optionalTree e md dir w)" "wk_seen (optionalTree e md dir w) = wk_seen w"
  using optional_step by (auto simp: optionalTree_def split: option.splits)

definition blob_sound :: "media_env \<Rightarrow> medium \<Rightarrow> (string \<times> File) list \<Rightarrow> string \<Rightarrow> string \<Rightarrow> bool" where
  "blob_sound e md files repo d \<longleftrightarrow>
     (\<exists>h. digestHex d = Inr h \<and> sound e md files (layerLinkPath repo h) \<and> sound e md files (blobPath h))"

lemma walk_blob_step:
  shows "extends e md w (walk_blob e md repo d w)" and "wk_seen (walk_blob e md repo d w) = wk_seen w"
    and "cache_ok e md (wk_c w) \<Longrightarrow> wk_reason (walk_blob e md repo d w) = None \<Longrightarrow>
      blob_sound e md (ck_inventory (wk_c w)) repo d"
proof -
  show e: "extends e md w (walk_blob e md repo d w)"
    by (auto simp: walk_blob_def split: sum.splits intro: extends_trans [OF walk_file_step(1) walk_file_step(1)])
  show "wk_seen (walk_blob e md repo d w) = wk_seen w"
    by (auto simp: walk_blob_def walk_file_step(2) fail_def split: sum.splits)
  assume c: "cache_ok e md (wk_c w)" and r: "wk_reason (walk_blob e md repo d w) = None"
  have r0: "wk_reason w = None" using extends_reason [OF e r] .
  then obtain h where h: "digestHex d = Inr h" using r by (cases "digestHex d") (auto simp: walk_blob_def)
  let ?w1 = "walk_file e md (layerLinkPath repo h) w"
  have r2: "wk_reason (walk_file e md (blobPath h) ?w1) = None" using r r0 h by (simp add: walk_blob_def)
  have r1: "wk_reason ?w1 = None" using extends_reason [OF walk_file_step(1) r2] .
  have "cache_ok e md (wk_c ?w1)" "ck_inventory (wk_c ?w1) = ck_inventory (wk_c w)"
    using walk_file_step(1) [of e md w "layerLinkPath repo h"] c by (auto simp: extends_def)
  with walk_file_step(3) [OF c r1] walk_file_step(3) [OF _ r2] h
  show "blob_sound e md (ck_inventory (wk_c w)) repo d" by (auto simp: blob_sound_def)
qed

lemma blobs_step:
  assumes "cache_ok e md (wk_c w)" and "wk_reason (foldl (\<lambda>w d. walk_blob e md repo d w) w ds) = None"
  shows "\<forall>d \<in> set ds. blob_sound e md (ck_inventory (wk_c w)) repo d"
  using assms
proof (induction ds arbitrary: w)
  case (Cons d ds)
  let ?w = "walk_blob e md repo d w"
  have ext: "extends e md ?w (foldl (\<lambda>w d. walk_blob e md repo d w) ?w ds)"
    by (rule extends_foldl) (rule walk_blob_step(1))
  have r: "wk_reason ?w = None" using extends_reason [OF ext] Cons.prems(2) by simp
  have "cache_ok e md (wk_c ?w)" "ck_inventory (wk_c ?w) = ck_inventory (wk_c w)"
    using walk_blob_step(1) [of e md w repo d] Cons.prems(1) by (auto simp: extends_def)
  with Cons.IH [of ?w] Cons.prems walk_blob_step(3) [OF Cons.prems(1) r] show ?case by simp
qed simp

lemma blobs_seen: "wk_seen (foldl (\<lambda>w d. walk_blob e md repo d w) w ds) = wk_seen w"
  by (induction ds arbitrary: w) (simp_all add: walk_blob_step(2))

subsection \<open>What a walk has seen\<close>

lemma seen_key_inj: "CHR ''@'' \<notin> set r \<Longrightarrow> CHR ''@'' \<notin> set r' \<Longrightarrow> seen_key r d = seen_key r' d' \<Longrightarrow> r = r' \<and> d = d'"
  unfolding seen_key_def using first_sep_unique [of "CHR ''@''" r r' d d'] by simp

text \<open>A manifest that is on the medium with everything it names, index children only if they are
  there.\<close>

definition lists_child :: "media_env \<Rightarrow> medium \<Rightarrow> string \<Rightarrow> string \<Rightarrow> bool" where
  "lists_child e md p d \<longleftrightarrow>
     (\<exists>h raw doc. digestHex p = Inr h \<and> md_file md (blobPath h) = Content raw \<and> me_document e raw = Some doc
        \<and> d \<in> set (od_Manifests doc))"

definition intact :: "media_env \<Rightarrow> medium \<Rightarrow> (string \<times> File) list \<Rightarrow> string \<Rightarrow> string \<Rightarrow> bool" where
  "intact e md files repo d \<longleftrightarrow>
     (\<exists>h raw doc. digestHex d = Inr h \<and> sound e md files (manifestLinkPath repo h) \<and> sound e md files (blobPath h)
        \<and> md_file md (blobPath h) = Content raw \<and> me_document e raw = Some doc
        \<and> (\<forall>b. od_Config doc = Some b \<longrightarrow> blob_sound e md files repo b)
        \<and> (\<forall>b \<in> set (od_Layers doc). blob_sound e md files repo b))"

definition absent :: "medium \<Rightarrow> string \<Rightarrow> bool" where
  "absent md d \<longleftrightarrow> (\<exists>h. digestHex d = Inr h \<and> \<not> file_exists md (blobPath h))"

lemma absent_no_child: "absent md p \<Longrightarrow> \<not> lists_child e md p d"
  by (auto simp: absent_def lists_child_def file_exists_def)

lemma walk_manifest_extends: "extends e md w (walk_manifest e md fuel repo d required w)"
proof (induction fuel arbitrary: repo d required w)
  case (Suc fuel)
  let ?k = "w\<lparr>wk_seen := insert (seen_key repo d) (wk_seen w)\<rparr>"
  have k: "extends e md w ?k" by (auto simp: extends_def)
  have f: "extends e md w (walk_file e md p (walk_file e md q ?k))" for p q
    by (rule extends_trans [OF k extends_trans [OF walk_file_step(1) walk_file_step(1)]])
  have kids: "extends e md v (foldl (\<lambda>w d. walk_manifest e md fuel repo d False w) v ds)" for v ds
    by (rule extends_foldl) (rule Suc)
  have blobs: "extends e md v (foldl (\<lambda>w d. walk_blob e md repo d w) (case c of None \<Rightarrow> v | Some d \<Rightarrow> walk_blob e md repo d v) ds)"
    for v c ds
    by (rule extends_trans [OF _ extends_foldl]) (auto simp: walk_blob_step(1) split: option.split)
  show ?case
    using k extends_trans [OF k extends_fail(1)] f extends_trans [OF f extends_fail(1)]
      extends_trans [OF f extends_trans [OF kids blobs]]
    by (auto simp: Let_def split: sum.splits option.splits)
qed simp

text \<open>The two parts of a call that goes through, and the three ways it ends without a reason.\<close>

definition enter :: "media_env \<Rightarrow> medium \<Rightarrow> string \<Rightarrow> string \<Rightarrow> string \<Rightarrow> walk \<Rightarrow> walk" where
  "enter e md repo d h w =
     walk_file e md (blobPath h) (walk_file e md (manifestLinkPath repo h) (w\<lparr>wk_seen := insert (seen_key repo d) (wk_seen w)\<rparr>))"

definition contents :: "media_env \<Rightarrow> medium \<Rightarrow> nat \<Rightarrow> string \<Rightarrow> ociDocument \<Rightarrow> walk \<Rightarrow> walk" where
  "contents e md fuel repo doc w =
     (let w = foldl (\<lambda>w d. walk_manifest e md fuel repo d False w) w (od_Manifests doc);
          w = (case od_Config doc of None \<Rightarrow> w | Some d \<Rightarrow> walk_blob e md repo d w)
      in foldl (\<lambda>w d. walk_blob e md repo d w) w (od_Layers doc))"

lemma enter_seen [simp]: "wk_seen (enter e md repo d h w) = insert (seen_key repo d) (wk_seen w)"
  by (simp add: enter_def walk_file_step(2))

lemma enter_extends: "extends e md w (enter e md repo d h w)"
  unfolding enter_def
  by (rule extends_trans [OF _ extends_trans [OF walk_file_step(1) walk_file_step(1)]]) (auto simp: extends_def)

lemma contents_seen:
  "wk_seen (contents e md fuel repo doc w) = wk_seen (foldl (\<lambda>w d. walk_manifest e md fuel repo d False w) w (od_Manifests doc))"
  by (simp add: contents_def Let_def blobs_seen walk_blob_step(2) split: option.split)

lemma walk_manifest_eq:
  "walk_manifest e md (Suc fuel) repo d required w =
     (if wk_reason w \<noteq> None \<or> seen_key repo d \<in> wk_seen w then w
      else (case digestHex d of
              Inl x \<Rightarrow> fail (unreadable_reason repo (me_text e (PathDetail x))) (w\<lparr>wk_seen := insert (seen_key repo d) (wk_seen w)\<rparr>)
            | Inr h \<Rightarrow>
                if \<not> required \<and> \<not> file_exists md (blobPath h) then w\<lparr>wk_seen := insert (seen_key repo d) (wk_seen w)\<rparr>
                else if wk_reason (enter e md repo d h w) \<noteq> None then enter e md repo d h w
                else (case walk_read e md (blobPath h) of
                        Inl x \<Rightarrow> fail (unreadable_reason (blobPath h) x) (enter e md repo d h w)
                      | Inr raw \<Rightarrow> (case me_document e raw of
                          None \<Rightarrow> fail (unreadable_reason (blobPath h) (me_text e (NotJSONDetail raw))) (enter e md repo d h w)
                        | Some doc \<Rightarrow> contents e md fuel repo doc (enter e md repo d h w)))))"
  unfolding contents_def enter_def by (auto simp: Let_def split: sum.split)

declare walk_manifest.simps(2) [simp del]

lemma walk_manifest_cases [consumes 1, case_names seen absent present]:
  assumes r: "wk_reason (walk_manifest e md (Suc fuel) repo d required w) = None"
  obtains "seen_key repo d \<in> wk_seen w" "walk_manifest e md (Suc fuel) repo d required w = w"
  | h where "seen_key repo d \<notin> wk_seen w" "digestHex d = Inr h" "\<not> required" "\<not> file_exists md (blobPath h)"
      "walk_manifest e md (Suc fuel) repo d required w = w\<lparr>wk_seen := insert (seen_key repo d) (wk_seen w)\<rparr>"
  | h bs doc where "seen_key repo d \<notin> wk_seen w" "digestHex d = Inr h" "wk_reason (enter e md repo d h w) = None"
      "md_file md (blobPath h) = Content bs" "me_document e bs = Some doc"
      "walk_manifest e md (Suc fuel) repo d required w = contents e md fuel repo doc (enter e md repo d h w)"
proof -
  have r0: "wk_reason w = None" using extends_reason [OF walk_manifest_extends r] .
  show ?thesis
  proof (cases "seen_key repo d \<in> wk_seen w")
    case True
    then show ?thesis using r0 that(1) by (simp add: walk_manifest_eq)
  next
    case new: False
    obtain h where h: "digestHex d = Inr h"
      using r r0 new by (cases "digestHex d") (auto simp: walk_manifest_eq)
    show ?thesis
    proof (cases "\<not> required \<and> \<not> file_exists md (blobPath h)")
      case True
      then show ?thesis using that(2) [OF new h] r0 new h by (simp add: walk_manifest_eq)
    next
      case False
      then have rb: "wk_reason (enter e md repo d h w) = None"
        using r r0 new h by (auto simp: walk_manifest_eq split: if_splits)
      then obtain bs doc where "walk_read e md (blobPath h) = Inr bs" "me_document e bs = Some doc"
        using r r0 new h False by (auto simp: walk_manifest_eq split: sum.splits option.splits)
      then show ?thesis using that(3) [OF new h rb, of bs doc] rb r0 new h False
        by (auto simp: walk_manifest_eq walk_read_def split: mfile.splits if_splits)
    qed
  qed
qed

subsection \<open>Enough steps\<close>

text \<open>The digests below which the walk of a repository can still descend.\<close>

definition open_digests :: "string \<Rightarrow> walk \<Rightarrow> string set" where
  "open_digests repo w =
     {h. digestHex (''sha256:'' @ h) = Inr h \<and> map_of (ck_inventory (wk_c w)) (blobPath h) \<noteq> None
       \<and> seen_key repo (''sha256:'' @ h) \<notin> wk_seen w}"

lemma open_digests_bound: "finite (open_digests repo w)" "card (open_digests repo w) \<le> length (ck_inventory (wk_c w))"
proof -
  let ?S = "open_digests repo w" and ?dom = "fst ` set (ck_inventory (wk_c w))"
  have i: "inj_on blobPath ?S"
    by (rule inj_on_inverseI [where g = "the \<circ> hexOfBlobPath"]) (auto simp: open_digests_def hexOfBlobPath_blobPath)
  have s: "blobPath ` ?S \<subseteq> ?dom" by (auto simp: open_digests_def map_of_eq_None_iff)
  show "finite ?S" using finite_imageD [OF finite_subset [OF s] i] by simp
  have "card ?S \<le> card ?dom" using card_inj_on_le [OF i s] by simp
  also have "\<dots> \<le> length (ck_inventory (wk_c w))" using card_image_le [of "set (ck_inventory (wk_c w))" fst] card_length le_trans by blast
  finally show "card ?S \<le> length (ck_inventory (wk_c w))" .
qed

lemma open_digests_mono: "extends e md w w' \<Longrightarrow> open_digests repo w' \<subseteq> open_digests repo w"
  by (auto simp: open_digests_def extends_def)

lemma enter_sound:
  assumes "cache_ok e md (wk_c w)" and "wk_reason (enter e md repo d h w) = None"
  shows "sound e md (ck_inventory (wk_c w)) (manifestLinkPath repo h)" "sound e md (ck_inventory (wk_c w)) (blobPath h)"
proof -
  let ?k = "w\<lparr>wk_seen := insert (seen_key repo d) (wk_seen w)\<rparr>"
  let ?l = "walk_file e md (manifestLinkPath repo h) ?k"
  have lx: "extends e md ?k ?l" by (rule walk_file_step(1))
  have rb: "wk_reason (walk_file e md (blobPath h) ?l) = None" using assms(2) by (simp add: enter_def)
  have rl: "wk_reason ?l = None" using extends_reason [OF walk_file_step(1) rb] .
  have lc: "cache_ok e md (wk_c ?l)" "ck_inventory (wk_c ?l) = ck_inventory (wk_c w)"
    using lx assms(1) by (auto simp: extends_def)
  show "sound e md (ck_inventory (wk_c w)) (manifestLinkPath repo h)"
    using walk_file_step(3) [of e md ?k, OF _ rl] assms(1) by simp
  show "sound e md (ck_inventory (wk_c w)) (blobPath h)"
    using walk_file_step(3) [OF lc(1) rb] lc(2) by simp
qed

lemma enter_closes:
  assumes c: "cache_ok e md (wk_c w)" and n: "seen_key repo d \<notin> wk_seen w" and h: "digestHex d = Inr h"
    and r: "wk_reason (enter e md repo d h w) = None"
  shows "card (open_digests repo (enter e md repo d h w)) < card (open_digests repo w)"
proof (rule psubset_card_mono [OF open_digests_bound(1)])
  have d: "d = ''sha256:'' @ h" using h by (simp add: digestHex_iff)
  have "h \<in> open_digests repo w" "h \<notin> open_digests repo (enter e md repo d h w)"
    using enter_sound(2) [OF c r] n h d by (auto simp: open_digests_def sound_def)
  with open_digests_mono [OF enter_extends] show "open_digests repo (enter e md repo d h w) \<subset> open_digests repo w" by blast
qed

lemma foldl_agree:
  assumes ext: "\<And>w x. extends e md w (f w x)" and c: "cache_ok e md (wk_c w)"
    and agree: "\<And>v x. extends e md w v \<Longrightarrow> cache_ok e md (wk_c v) \<Longrightarrow> f v x = g v x"
  shows "foldl f w xs = foldl g w xs"
  using c agree
proof (induction xs arbitrary: w)
  case (Cons x xs)
  have eq: "f w x = g w x" using Cons.prems by simp
  have x: "extends e md w (f w x)" by (rule ext)
  then have c: "cache_ok e md (wk_c (f w x))" using Cons.prems(1) by (simp add: extends_def)
  have "foldl f (f w x) xs = foldl g (f w x) xs"
    by (rule Cons.IH [OF c]) (use Cons.prems(2) extends_trans [OF x] in blast)
  then show ?case by (simp add: eq)
qed simp

lemma walk_manifest_stable:
  assumes "cache_ok e md (wk_c w)" and "card (open_digests repo w) < fuel"
  shows "walk_manifest e md (Suc fuel) repo d required w = walk_manifest e md fuel repo d required w"
  using assms
proof (induction fuel arbitrary: d required w)
  case (Suc fuel)
  have "contents e md (Suc fuel) repo doc (enter e md repo d h w) = contents e md fuel repo doc (enter e md repo d h w)"
    if n: "seen_key repo d \<notin> wk_seen w" and h: "digestHex d = Inr h" and r: "wk_reason (enter e md repo d h w) = None" for h doc
  proof -
    let ?b = "enter e md repo d h w"
    have b: "cache_ok e md (wk_c ?b)" using enter_extends Suc.prems(1) by (auto simp: extends_def)
    have small: "card (open_digests repo ?b) < fuel" using enter_closes [OF Suc.prems(1) n h r] Suc.prems(2) by simp
    have "foldl (\<lambda>w d. walk_manifest e md (Suc fuel) repo d False w) ?b (od_Manifests doc)
        = foldl (\<lambda>w d. walk_manifest e md fuel repo d False w) ?b (od_Manifests doc)"
    proof (rule foldl_agree [OF walk_manifest_extends b])
      fix v x
      assume v: "extends e md ?b v" "cache_ok e md (wk_c v)"
      have "card (open_digests repo v) < fuel"
        using card_mono [OF open_digests_bound(1) open_digests_mono [OF v(1)]] small by (meson le_less_trans)
      then show "walk_manifest e md (Suc fuel) repo x False v = walk_manifest e md fuel repo x False v"
        by (rule Suc.IH [OF v(2)])
    qed
    then show ?thesis by (simp add: contents_def)
  qed
  then show ?case
    unfolding walk_manifest_eq [of e md "Suc fuel"] walk_manifest_eq [of e md fuel]
    by (auto split: sum.split option.split)
qed simp

subsection \<open>What a recipe delivers\<close>

definition signature_of :: "medium \<Rightarrow> string \<Rightarrow> string \<Rightarrow> string \<Rightarrow> bool" where
  "signature_of md repo d s \<longleftrightarrow>
     (\<exists>h tag. digestHex d = Inr h \<and> tag \<in> {''sha256-'' @ h @ ''.sig'', ''sha256-'' @ h}
        \<and> file_exists md (tagCurrentPath repo tag) \<and> currentDigest md repo tag = Some s)"

inductive delivers :: "media_env \<Rightarrow> medium \<Rightarrow> Recipe \<Rightarrow> string \<Rightarrow> string \<Rightarrow> bool" for e md r where
  artifact: "delivers e md r (rc_ArtifactRepo r) (rc_Digest r)"
| signature: "signature_of md (rc_ArtifactRepo r) (rc_Digest r) s \<Longrightarrow> delivers e md r (rc_ArtifactRepo r) s"
| ingredient: "i \<in> set (rc_Ingredients r) \<Longrightarrow> delivers e md r (in_Repo i) (in_Digest i)"
| child: "delivers e md r repo p \<Longrightarrow> lists_child e md p d \<Longrightarrow> delivers e md r repo d"

definition delivered :: "media_env \<Rightarrow> medium \<Rightarrow> Recipe \<Rightarrow> string \<Rightarrow> string \<Rightarrow> bool" where
  "delivered e md r repo d \<longleftrightarrow> CHR ''@'' \<notin> set repo \<and> delivers e md r repo d"

locale media_walk =
  fixes e :: media_env and md :: medium and D :: "string \<Rightarrow> string \<Rightarrow> bool"
  assumes plain_repo: "D repo d \<Longrightarrow> CHR ''@'' \<notin> set repo"
    and child: "D repo p \<Longrightarrow> lists_child e md p d \<Longrightarrow> D repo d"
begin

definition only :: "string set \<Rightarrow> bool" where
  "only seen \<longleftrightarrow> (\<forall>k \<in> seen. \<exists>r d. D r d \<and> k = seen_key r d)"

text \<open>What holds of a manifest once the walk has dealt with it: it is intact with its children seen,
  or it is an index child the medium does not carry.\<close>

definition dealt :: "(string \<times> File) list \<Rightarrow> string set \<Rightarrow> string \<Rightarrow> string \<Rightarrow> bool" where
  "dealt files seen r d \<longleftrightarrow>
     (intact e md files r d \<and> (\<forall>c. lists_child e md d c \<longrightarrow> seen_key r c \<in> seen))
     \<or> (absent md d \<and> (\<exists>p. D r p \<and> lists_child e md p d))"

definition progress :: "(string \<times> File) list \<Rightarrow> string set \<Rightarrow> string set \<Rightarrow> bool" where
  "progress files seen seen' \<longleftrightarrow> seen \<subseteq> seen' \<and> (only seen \<longrightarrow> only seen')
     \<and> (\<forall>r d. D r d \<and> seen_key r d \<in> seen' \<longrightarrow> seen_key r d \<in> seen \<or> dealt files seen' r d)"

lemma dealt_mono: "dealt files seen r d \<Longrightarrow> seen \<subseteq> seen' \<Longrightarrow> dealt files seen' r d"
  by (auto simp: dealt_def)

lemma progress_refl [simp]: "progress files seen seen"
  by (simp add: progress_def)

lemma progress_trans: "progress files s s' \<Longrightarrow> progress files s' s'' \<Longrightarrow> progress files s s''"
  unfolding progress_def using dealt_mono by (meson subset_trans)

text \<open>One call: the manifest is seen; a required one not seen before is intact.\<close>

definition call_ok :: "bool \<Rightarrow> string \<Rightarrow> string \<Rightarrow> walk \<Rightarrow> walk \<Rightarrow> bool" where
  "call_ok required repo d w w' \<longleftrightarrow>
     seen_key repo d \<in> wk_seen w'
     \<and> (required \<or> (\<exists>p. D repo p \<and> lists_child e md p d) \<longrightarrow> progress (ck_inventory (wk_c w)) (wk_seen w) (wk_seen w'))
     \<and> (required \<and> seen_key repo d \<notin> wk_seen w \<longrightarrow> intact e md (ck_inventory (wk_c w)) repo d)"

lemma walk_all_ok:
  assumes step: "\<And>w x. cache_ok e md (wk_c w) \<Longrightarrow> x \<in> set xs \<Longrightarrow> wk_reason (f w x) = None \<Longrightarrow>
      progress (ck_inventory (wk_c w)) (wk_seen w) (wk_seen (f w x)) \<and> K x \<subseteq> wk_seen (f w x)"
    and ext: "\<And>w x. extends e md w (f w x)"
    and c: "cache_ok e md (wk_c w)" and r: "wk_reason (foldl f w xs) = None"
  shows "progress (ck_inventory (wk_c w)) (wk_seen w) (wk_seen (foldl f w xs)) \<and> (\<forall>x \<in> set xs. K x \<subseteq> wk_seen (foldl f w xs))"
  using step c r
proof (induction xs arbitrary: w)
  case (Cons x xs)
  let ?w = "f w x"
  have fx: "extends e md ?w (foldl f ?w xs)" by (rule extends_foldl) (rule ext)
  have r: "wk_reason ?w = None" using extends_reason [OF fx] Cons.prems(3) by simp
  have first: "progress (ck_inventory (wk_c w)) (wk_seen w) (wk_seen ?w)" "K x \<subseteq> wk_seen ?w"
    using Cons.prems(1) [OF Cons.prems(2) _ r] by auto
  have "cache_ok e md (wk_c ?w)" "ck_inventory (wk_c ?w) = ck_inventory (wk_c w)"
    using ext [of w x] Cons.prems(2) by (auto simp: extends_def)
  then have rest: "progress (ck_inventory (wk_c w)) (wk_seen ?w) (wk_seen (foldl f ?w xs))"
      "\<forall>x \<in> set xs. K x \<subseteq> wk_seen (foldl f ?w xs)"
    using Cons.IH [of ?w] Cons.prems by simp_all
  have "wk_seen ?w \<subseteq> wk_seen (foldl f ?w xs)" using fx by (simp add: extends_def)
  with progress_trans [OF first(1) rest(1)] first(2) rest(2) show ?case by auto
qed simp

lemma contents_blobs:
  assumes c: "cache_ok e md (wk_c w)" and r: "wk_reason (contents e md fuel repo doc w) = None"
  shows "wk_reason (foldl (\<lambda>w d. walk_manifest e md fuel repo d False w) w (od_Manifests doc)) = None"
    and "od_Config doc = Some b \<Longrightarrow> blob_sound e md (ck_inventory (wk_c w)) repo b"
    and "\<forall>b \<in> set (od_Layers doc). blob_sound e md (ck_inventory (wk_c w)) repo b"
proof -
  let ?m = "foldl (\<lambda>w d. walk_manifest e md fuel repo d False w) w (od_Manifests doc)"
  let ?c = "case od_Config doc of None \<Rightarrow> ?m | Some d \<Rightarrow> walk_blob e md repo d ?m"
  have mx: "extends e md w ?m" by (rule extends_foldl) (rule walk_manifest_extends)
  have cx: "extends e md ?m ?c" by (simp add: walk_blob_step(1) split: option.split)
  have r': "wk_reason (foldl (\<lambda>w d. walk_blob e md repo d w) ?c (od_Layers doc)) = None"
    using r by (simp add: contents_def Let_def)
  have "extends e md ?c (foldl (\<lambda>w d. walk_blob e md repo d w) ?c (od_Layers doc))"
    by (rule extends_foldl) (rule walk_blob_step(1))
  then have rc: "wk_reason ?c = None" using extends_reason r' by blast
  show "wk_reason ?m = None" using extends_reason [OF cx rc] .
  have mc: "cache_ok e md (wk_c ?m)" "ck_inventory (wk_c ?m) = ck_inventory (wk_c w)" using mx c by (auto simp: extends_def)
  then have cc: "cache_ok e md (wk_c ?c)" "ck_inventory (wk_c ?c) = ck_inventory (wk_c w)" using cx by (auto simp: extends_def)
  show "od_Config doc = Some b \<Longrightarrow> blob_sound e md (ck_inventory (wk_c w)) repo b"
    using walk_blob_step(3) [OF mc(1)] rc mc(2) by (auto split: option.splits)
  show "\<forall>b \<in> set (od_Layers doc). blob_sound e md (ck_inventory (wk_c w)) repo b"
    using blobs_step [OF cc(1) r'] cc(2) by simp
qed

lemma walk_manifest_ok:
  assumes "cache_ok e md (wk_c w)" and "D repo d" and "wk_reason (walk_manifest e md fuel repo d required w) = None"
  shows "call_ok required repo d w (walk_manifest e md fuel repo d required w)"
  using assms
proof (induction fuel arbitrary: d required w)
  case (Suc fuel)
  let ?w' = "walk_manifest e md (Suc fuel) repo d required w" and ?key = "seen_key repo d"
  let ?files = "ck_inventory (wk_c w)"
  have keyed: "only (wk_seen w) \<Longrightarrow> only (insert ?key (wk_seen w))" using Suc.prems(2) by (auto simp: only_def)
  have same: "r = repo \<and> d' = d" if "D r d'" "seen_key r d' = ?key" for r d'
    using seen_key_inj [OF plain_repo [OF that(1)] plain_repo [OF Suc.prems(2)] that(2)] .
  from Suc.prems(3) show ?case
  proof (cases rule: walk_manifest_cases)
    case seen
    then show ?thesis by (simp add: call_ok_def)
  next
    case (absent h)
    have "progress ?files (wk_seen w) (insert ?key (wk_seen w))" if "\<exists>p. D repo p \<and> lists_child e md p d"
      using that keyed absent same by (auto simp: progress_def dealt_def absent_def)
    then show ?thesis using absent by (simp add: call_ok_def)
  next
    case (present h bs doc)
    let ?b = "enter e md repo d h w"
    let ?m = "foldl (\<lambda>w d. walk_manifest e md fuel repo d False w) ?b (od_Manifests doc)"
    have bc: "cache_ok e md (wk_c ?b)" "ck_inventory (wk_c ?b) = ?files" "wk_seen ?b = insert ?key (wk_seen w)"
      using enter_extends [of e md w repo d h] Suc.prems(1) by (auto simp: extends_def enter_seen)
    have r': "wk_reason (contents e md fuel repo doc ?b) = None" using Suc.prems(3) present by simp
    note blobs = contents_blobs [OF bc(1) r', unfolded bc(2)]
    have seen': "wk_seen ?w' = wk_seen ?m" unfolding present(6) by (rule contents_seen)
    have lc: "lists_child e md d x \<longleftrightarrow> x \<in> set (od_Manifests doc)" for x
      using present by (auto simp: lists_child_def)
    have "progress (ck_inventory (wk_c ?b)) (wk_seen ?b) (wk_seen ?m)
        \<and> (\<forall>x \<in> set (od_Manifests doc). {seen_key repo x} \<subseteq> wk_seen ?m)"
    proof (rule walk_all_ok [OF _ walk_manifest_extends bc(1) blobs(1)])
      fix v x
      assume x: "x \<in> set (od_Manifests doc)" and "cache_ok e md (wk_c v)"
        and "wk_reason (walk_manifest e md fuel repo x False v) = None"
      then have "call_ok False repo x v (walk_manifest e md fuel repo x False v)"
        using Suc.IH child [OF Suc.prems(2)] lc by blast
      then show "progress (ck_inventory (wk_c v)) (wk_seen v) (wk_seen (walk_manifest e md fuel repo x False v))
          \<and> {seen_key repo x} \<subseteq> wk_seen (walk_manifest e md fuel repo x False v)"
        using x lc Suc.prems(2) by (auto simp: call_ok_def)
    qed
    then have kids: "progress ?files (insert ?key (wk_seen w)) (wk_seen ?m)"
        "\<forall>x \<in> set (od_Manifests doc). seen_key repo x \<in> wk_seen ?m"
      unfolding bc by blast+
    have "intact e md ?files repo d"
      using present enter_sound [OF Suc.prems(1) present(3)] blobs(2,3) unfolding intact_def by blast
    moreover have "dealt ?files (wk_seen ?w') repo d"
      using calculation kids(2) lc seen' by (auto simp: dealt_def)
    moreover have "progress ?files (wk_seen w) (wk_seen ?w')"
      using kids(1) calculation(2) keyed same unfolding progress_def seen' by blast
    moreover have "?key \<in> wk_seen ?w'" using kids(1) by (auto simp: seen' progress_def)
    ultimately show ?thesis by (simp add: call_ok_def)
  qed
qed simp

text \<open>A required manifest together with the tag files that lead to it.\<close>

lemma tagged_ok:
  assumes c: "cache_ok e md (wk_c w)" and D: "D repo d"
    and w1: "extends e md w w1" "wk_seen w1 = wk_seen w"
    and r: "wk_reason (walk_manifest e md fuel repo d True w1) = None"
  shows "progress (ck_inventory (wk_c w)) (wk_seen w) (wk_seen (walk_manifest e md fuel repo d True w1))"
    and "seen_key repo d \<in> wk_seen (walk_manifest e md fuel repo d True w1)"
    and "seen_key repo d \<notin> wk_seen w \<Longrightarrow> intact e md (ck_inventory (wk_c w)) repo d"
proof -
  have "cache_ok e md (wk_c w1)" "ck_inventory (wk_c w1) = ck_inventory (wk_c w)" using w1 c by (auto simp: extends_def)
  with walk_manifest_ok [OF _ D r] w1(2)
  show "progress (ck_inventory (wk_c w)) (wk_seen w) (wk_seen (walk_manifest e md fuel repo d True w1))"
    "seen_key repo d \<in> wk_seen (walk_manifest e md fuel repo d True w1)"
    "seen_key repo d \<notin> wk_seen w \<Longrightarrow> intact e md (ck_inventory (wk_c w)) repo d"
    by (auto simp: call_ok_def)
qed

lemma tag_files:
  "extends e md w (optionalTree e md dir (walk_file e md p w))"
  "wk_seen (optionalTree e md dir (walk_file e md p w)) = wk_seen w"
  by (auto simp: optionalTree_step walk_file_step(2) intro: extends_trans [OF walk_file_step(1) optionalTree_step(1)])

lemma walk_root_step: "extends e md w (walk_root e md repo d tag w)"
  using extends_trans [OF tag_files(1) walk_manifest_extends] walk_manifest_extends
  by (auto simp: walk_root_def Let_def)

lemma walk_root_ok:
  assumes c: "cache_ok e md (wk_c w)" and D: "D repo d" and r: "wk_reason (walk_root e md repo d tag w) = None"
  shows "progress (ck_inventory (wk_c w)) (wk_seen w) (wk_seen (walk_root e md repo d tag w))"
    and "seen_key repo d \<in> wk_seen (walk_root e md repo d tag w)"
    and "seen_key repo d \<notin> wk_seen w \<Longrightarrow> intact e md (ck_inventory (wk_c w)) repo d"
proof -
  define w1 where "w1 = (if tag \<noteq> [] then optionalTree e md (tagIndexDir repo tag) (walk_file e md (tagCurrentPath repo tag) w) else w)"
  have w1: "extends e md w w1" "wk_seen w1 = wk_seen w" using tag_files by (simp_all add: w1_def)
  have eq: "walk_root e md repo d tag w = walk_manifest e md (walk_fuel w1) repo d True w1"
    using extends_reason [OF walk_root_step r] by (simp add: walk_root_def w1_def Let_def)
  show "progress (ck_inventory (wk_c w)) (wk_seen w) (wk_seen (walk_root e md repo d tag w))"
    "seen_key repo d \<in> wk_seen (walk_root e md repo d tag w)"
    "seen_key repo d \<notin> wk_seen w \<Longrightarrow> intact e md (ck_inventory (wk_c w)) repo d"
    using tagged_ok [OF c D w1] r unfolding eq by blast+
qed

lemma walk_signature_step: "extends e md w (walk_signature e md repo tag w)"
  using tag_files(1) extends_trans [OF tag_files(1) walk_manifest_extends]
  by (auto simp: walk_signature_def Let_def split: option.split)

lemma walk_signature_ok:
  assumes c: "cache_ok e md (wk_c w)" and D: "\<And>d. file_exists md (tagCurrentPath repo tag) \<Longrightarrow> currentDigest md repo tag = Some d \<Longrightarrow> D repo d"
    and r: "wk_reason (walk_signature e md repo tag w) = None"
  shows "progress (ck_inventory (wk_c w)) (wk_seen w) (wk_seen (walk_signature e md repo tag w))
    \<and> (\<forall>d. file_exists md (tagCurrentPath repo tag) \<and> currentDigest md repo tag = Some d \<longrightarrow>
         seen_key repo d \<in> wk_seen (walk_signature e md repo tag w))"
proof (cases "file_exists md (tagCurrentPath repo tag)")
  case False
  then show ?thesis by (simp add: walk_signature_def)
next
  case True
  note tf = tag_files [where w = w and dir = "tagIndexDir repo tag" and p = "tagCurrentPath repo tag"]
  show ?thesis
  proof (cases "currentDigest md repo tag")
    case None
    then show ?thesis using True tf by (simp add: walk_signature_def)
  next
    case (Some d)
    with True r have "wk_reason (walk_manifest e md (walk_fuel (optionalTree e md (tagIndexDir repo tag)
        (walk_file e md (tagCurrentPath repo tag) w))) repo d True (optionalTree e md (tagIndexDir repo tag)
        (walk_file e md (tagCurrentPath repo tag) w))) = None" by (simp add: walk_signature_def Let_def)
    from tagged_ok [OF c D [OF True Some] tf this] True Some show ?thesis by (simp add: walk_signature_def Let_def)
  qed
qed

lemma signatures_step: "extends e md w (signatures e md repo d w)"
  by (auto simp: signatures_def split: sum.split intro: extends_trans [OF walk_signature_step walk_signature_step])

lemma signatures_ok:
  assumes c: "cache_ok e md (wk_c w)" and D: "\<And>s. signature_of md repo d s \<Longrightarrow> D repo s"
    and r: "wk_reason (signatures e md repo d w) = None"
  shows "progress (ck_inventory (wk_c w)) (wk_seen w) (wk_seen (signatures e md repo d w))
    \<and> (\<forall>s. signature_of md repo d s \<longrightarrow> seen_key repo s \<in> wk_seen (signatures e md repo d w))"
proof (cases "digestHex d")
  case (Inl x)
  then show ?thesis by (simp add: signatures_def signature_of_def)
next
  case (Inr h)
  let ?tags = "[''sha256-'' @ h @ ''.sig'', ''sha256-'' @ h]"
  let ?K = "\<lambda>tag. {seen_key repo s | s. file_exists md (tagCurrentPath repo tag) \<and> currentDigest md repo tag = Some s}"
  have eq: "signatures e md repo d w = foldl (\<lambda>w tag. walk_signature e md repo tag w) w ?tags"
    using Inr by (simp add: signatures_def)
  have "progress (ck_inventory (wk_c w)) (wk_seen w) (wk_seen (signatures e md repo d w))
      \<and> (\<forall>tag \<in> set ?tags. ?K tag \<subseteq> wk_seen (signatures e md repo d w))"
    unfolding eq
  proof (rule walk_all_ok [OF _ walk_signature_step c])
    fix v tag
    assume v: "cache_ok e md (wk_c v)" "tag \<in> set ?tags" "wk_reason (walk_signature e md repo tag v) = None"
    have "D repo s" if "file_exists md (tagCurrentPath repo tag)" "currentDigest md repo tag = Some s" for s
      using D [of s] that v(2) Inr by (auto simp: signature_of_def)
    from walk_signature_ok [OF v(1) this v(3)]
    show "progress (ck_inventory (wk_c v)) (wk_seen v) (wk_seen (walk_signature e md repo tag v))
        \<and> ?K tag \<subseteq> wk_seen (walk_signature e md repo tag v)" by auto
  qed (use r eq in simp)
  then show ?thesis using Inr by (fastforce simp: signature_of_def)
qed

text \<open>A delivery that ends without a reason.\<close>

lemma delivery_ok:
  assumes c: "cache_ok e md c" and D: "D (rc_ArtifactRepo r) (rc_Digest r)"
    and S: "\<And>s. signature_of md (rc_ArtifactRepo r) (rc_Digest r) s \<Longrightarrow> D (rc_ArtifactRepo r) s"
    and I: "\<And>i. i \<in> set (rc_Ingredients r) \<Longrightarrow> D (in_Repo i) (in_Digest i)"
    and r: "wk_reason (delivery e md r (new_walk c r)) = None"
  defines "seen \<equiv> wk_seen (delivery e md r (new_walk c r))"
  shows "progress (ck_inventory c) {} seen \<and> intact e md (ck_inventory c) (rc_ArtifactRepo r) (rc_Digest r)
    \<and> seen_key (rc_ArtifactRepo r) (rc_Digest r) \<in> seen
    \<and> (\<forall>s. signature_of md (rc_ArtifactRepo r) (rc_Digest r) s \<longrightarrow> seen_key (rc_ArtifactRepo r) s \<in> seen)
    \<and> (\<forall>i \<in> set (rc_Ingredients r). seen_key (in_Repo i) (in_Digest i) \<in> seen)"
proof -
  let ?w0 = "new_walk c r"
  let ?w1 = "walk_root e md (rc_ArtifactRepo r) (rc_Digest r) (rc_ArtifactTag r) ?w0"
  let ?w2 = "signatures e md (rc_ArtifactRepo r) (rc_Digest r) ?w1"
  let ?f = "\<lambda>w i. walk_root e md (in_Repo i) (in_Digest i) (in_Tag i) w"
  let ?w3 = "foldl ?f ?w2 (rc_Ingredients r)"
  have w3: "delivery e md r ?w0 = ?w3" by (simp add: delivery_def Let_def)
  have fx: "extends e md w (?f w i)" for w i by (rule walk_root_step)
  have r3: "wk_reason ?w3 = None" using r w3 by simp
  have r2: "wk_reason ?w2 = None" using extends_reason [OF extends_foldl r3] fx by blast
  have r1: "wk_reason ?w1 = None" using extends_reason [OF signatures_step r2] .
  have c0: "cache_ok e md (wk_c ?w0)" "ck_inventory (wk_c ?w0) = ck_inventory c" "wk_seen ?w0 = {}"
    using c by (simp_all add: new_walk_def)
  note s1 = walk_root_ok [OF c0(1) D r1, unfolded c0(2,3)]
  have c1: "cache_ok e md (wk_c ?w1)" "ck_inventory (wk_c ?w1) = ck_inventory c"
    using walk_root_step [of ?w0] c0 by (auto simp: extends_def)
  note s2 = signatures_ok [OF c1(1) S r2, unfolded c1(2)]
  have c2: "cache_ok e md (wk_c ?w2)" "ck_inventory (wk_c ?w2) = ck_inventory c"
    using signatures_step [of ?w1 "rc_ArtifactRepo r" "rc_Digest r"] c1 by (auto simp: extends_def)
  have s3: "progress (ck_inventory (wk_c ?w2)) (wk_seen ?w2) (wk_seen ?w3)
      \<and> (\<forall>i \<in> set (rc_Ingredients r). {seen_key (in_Repo i) (in_Digest i)} \<subseteq> wk_seen ?w3)"
    by (rule walk_all_ok [OF _ fx c2(1) r3]) (use walk_root_ok I in auto)
  have p: "progress (ck_inventory c) {} (wk_seen ?w3)" "wk_seen ?w1 \<subseteq> wk_seen ?w3" "wk_seen ?w2 \<subseteq> wk_seen ?w3"
    using progress_trans [OF progress_trans [OF s1(1) conjunct1 [OF s2]]] s2 s3 c2(2) by (auto simp: progress_def)
  then show ?thesis using s1(2,3) s2 s3 unfolding seen_def w3 by auto
qed

end

interpretation recipe_walk: media_walk e md "delivered e md r" for e md r
  by unfold_locales (auto simp: delivered_def intro: delivers.child)

text \<open>The repositories of a validated recipe carry no separator of the walk's keys.\<close>

definition plain_recipe :: "Recipe \<Rightarrow> bool" where
  "plain_recipe r \<longleftrightarrow> CHR ''@'' \<notin> set (rc_ArtifactRepo r) \<and> (\<forall>i \<in> set (rc_Ingredients r). CHR ''@'' \<notin> set (in_Repo i))"

lemma delivers_plain: "delivers e md r repo d \<Longrightarrow> plain_recipe r \<Longrightarrow> delivered e md r repo d"
proof (induction rule: delivers.induct)
  case (child repo p d)
  then show ?case using delivers.child by (auto simp: delivered_def)
qed (auto simp: delivered_def plain_recipe_def intro: delivers.intros)

lemma delivery_complete:
  assumes c: "cache_ok e md c" and p: "plain_recipe r" and r: "wk_reason (delivery e md r (new_walk c r)) = None"
  shows "intact e md (ck_inventory c) (rc_ArtifactRepo r) (rc_Digest r)"
    and "delivers e md r repo d \<Longrightarrow> intact e md (ck_inventory c) repo d
      \<or> absent md d \<and> (\<exists>q. delivers e md r repo q \<and> lists_child e md q d)"
proof -
  let ?seen = "wk_seen (delivery e md r (new_walk c r))"
  have D: "delivers e md r repo d \<Longrightarrow> delivered e md r repo d" for repo d using delivers_plain p by blast
  note ok = recipe_walk.delivery_ok [OF c D D D r, OF delivers.artifact delivers.signature delivers.ingredient]
  then show "intact e md (ck_inventory c) (rc_ArtifactRepo r) (rc_Digest r)" by simp
  have dealt: "recipe_walk.dealt e md r (ck_inventory c) ?seen repo d"
    if "delivers e md r repo d" "seen_key repo d \<in> ?seen" for repo d
    using ok D [OF that(1)] that(2) by (auto simp: recipe_walk.progress_def)
  have seen: "seen_key repo d \<in> ?seen" if "delivers e md r repo d" for repo d
    using that
  proof (induction rule: delivers.induct)
    case (child repo p d)
    then show ?case using dealt [OF child(1) child(3)] absent_no_child by (auto simp: recipe_walk.dealt_def)
  qed (use ok in auto)
  show "intact e md (ck_inventory c) repo d \<or> absent md d \<and> (\<exists>q. delivers e md r repo q \<and> lists_child e md q d)"
    if "delivers e md r repo d"
    using dealt [OF that seen [OF that]] by (auto simp: recipe_walk.dealt_def delivered_def)
qed

subsection \<open>The whole verification\<close>

lemma path_check_ok: "path_check e r = Inr u \<longleftrightarrow> is_ok r"
  by (auto simp: path_check_def is_ok_iff split: sum.splits)

lemma validate_ingredients_ok:
  "validate_ingredients e ings = Inr u \<Longrightarrow> i \<in> set ings \<Longrightarrow> is_ok (checkRepoName (in_Repo i)) \<and> is_ok (digestHex (in_Digest i))"
  by (induction ings) (auto simp: bind_r_Inr_iff path_check_ok)

lemma validateRecipe_plain: "validateRecipe e r = Inr u \<Longrightarrow> plain_recipe r"
  using validate_ingredients_ok checkRepoName_safe(3)
  by (fastforce simp: validateRecipe_def plain_recipe_def bind_r_Inr_iff path_check_ok is_ok_iff split: if_splits)

lemma validate_recipes_ok: "validate_recipes e rs = Inr u \<Longrightarrow> r \<in> set rs \<Longrightarrow> \<exists>u. validateRecipe e r = Inr u"
  by (induction rs) (auto simp: bind_r_Inr_iff)

lemma readManifest_ok:
  assumes "readManifest e md = Inr m"
  shows "mm_MediaFormat m = ManifestFormat" "mm_StoreFormat m = FormatVersion" "r \<in> set (mm_Recipes m) \<Longrightarrow> plain_recipe r"
proof -
  from assms obtain u where v: "validate e m = Inr u" and f: "mm_MediaFormat m = ManifestFormat" "mm_StoreFormat m = FormatVersion"
    by (auto simp: readManifest_def Let_def split: mfile.splits option.splits sum.splits if_splits)
  from f show "mm_MediaFormat m = ManifestFormat" "mm_StoreFormat m = FormatVersion" .
  from v show "r \<in> set (mm_Recipes m) \<Longrightarrow> plain_recipe r"
    using validate_recipes_ok validateRecipe_plain by (fastforce simp: validate_def bind_r_Inr_iff)
qed

lemma delivery_step: "extends e md w (delivery e md r w)"
  unfolding delivery_def Let_def
  by (rule extends_trans [OF extends_trans [OF recipe_walk.walk_root_step recipe_walk.signatures_step] extends_foldl])
    (rule recipe_walk.walk_root_step)

text \<open>What the report says of a recipe, and what \<open>decide\<close> makes of it.\<close>

definition same_recipe :: "Recipe \<Rightarrow> RecipeVerdict \<Rightarrow> bool" where
  "same_recipe r v \<longleftrightarrow> vd_Name v = rc_Name r \<and> vd_Version v = rc_Version r \<and> vd_CookbookRepo v = rc_CookbookRepo r
     \<and> vd_ArtifactRepo v = rc_ArtifactRepo r \<and> vd_Digest v = rc_Digest r"

definition trusted :: "media_env \<Rightarrow> Reader \<Rightarrow> (string \<Rightarrow> Decision) option \<Rightarrow> Recipe \<Rightarrow> RecipeVerdict \<Rightarrow> bool" where
  "trusted e rd trust r v \<longleftrightarrow>
     (\<exists>t. trust = Some t \<and> vd_TrustScope v = dc_Scope (t (nominal_of r))
        \<and> (if vd_Unsigned v
           then dc_AllowUnsigned (t (nominal_of r))
             \<and> (dc_Keys (t (nominal_of r)) = None \<or>
                (\<exists>keys. dc_Keys (t (nominal_of r)) = Some keys \<and> Verify (me_codec e) (manifestSource rd (rc_ArtifactRepo r))
                   (rc_ArtifactRepo r) (rc_Digest r) (Some keys) = Inl ErrNoSignature))
           else \<exists>keys. dc_Keys (t (nominal_of r)) = Some keys \<and> Verify (me_codec e) (manifestSource rd (rc_ArtifactRepo r))
                   (rc_ArtifactRepo r) (rc_Digest r) (Some keys) = Inr (vd_KeyFingerprint v)))"

lemma decide_trusted:
  assumes "\<not> vd_Pushable v" "\<not> vd_Unsigned v" "same_recipe r v" "vd_Pushable (decide e rd r trust v)"
  shows "trusted e rd trust r (decide e rd r trust v) \<and> same_recipe r (decide e rd r trust v)"
proof (cases trust)
  case None
  with assms show ?thesis by (simp add: decide_def Let_def)
next
  case (Some t)
  show ?thesis
  proof (cases "dc_Keys (t (nominal_of r))")
    case None
    with Some assms show ?thesis by (auto simp: decide_def trusted_def same_recipe_def Let_def split: if_splits)
  next
    case (Some keys)
    show ?thesis
      using \<open>trust = Some t\<close> Some assms
      by (cases "Verify (me_codec e) (manifestSource rd (rc_ArtifactRepo r)) (rc_ArtifactRepo r) (rc_Digest r) (Some keys)")
        (auto simp: decide_def trusted_def same_recipe_def Let_def split: if_splits)
  qed
qed

lemma verify_one_ok:
  assumes v: "verify_one e md rd opts r c = (c', v)" and c: "cache_ok e md c" and p: "plain_recipe r"
  shows "cache_ok e md c'" "ck_inventory c' = ck_inventory c" "same_recipe r v"
    and "vd_Pushable v \<Longrightarrow> wk_reason (delivery e md r (new_walk c r)) = None \<and> trusted e rd (vo_Trust opts) r v"
proof -
  let ?w = "delivery e md r (new_walk c r)"
  have w: "cache_ok e md (wk_c ?w)" "ck_inventory (wk_c ?w) = ck_inventory c"
    using delivery_step [of e md "new_walk c r" r] c by (auto simp: extends_def new_walk_def)
  obtain c1 err where po: "poll md (wk_c ?w) = (c1, err)" by fastforce
  have c1: "cache_ok e md c1" "ck_inventory c1 = ck_inventory c" using po w by (auto simp: poll_def cache_ok_def)
  define v0 where "v0 = \<lparr>vd_Name = rc_Name r, vd_Version = rc_Version r, vd_CookbookRepo = rc_CookbookRepo r,
      vd_ArtifactRepo = rc_ArtifactRepo r, vd_Digest = rc_Digest r, vd_ResolvedAt = rc_ResolvedAt r,
      vd_Pushable = False, vd_Reason = None, vd_KeyFingerprint = [], vd_TrustScope = [], vd_Unsigned = False,
      vd_Files = wk_files ?w, vd_Bytes = wk_bytes ?w\<rparr>"
  have v0: "\<not> vd_Pushable v0" "\<not> vd_Unsigned v0" "same_recipe r v0" by (simp_all add: v0_def same_recipe_def)
  have ds: "same_recipe r (decide e rd r trust v0)" for trust
    using v0(3) by (auto simp: decide_def same_recipe_def Let_def split: option.splits sum.splits)
  have "cache_ok e md c' \<and> ck_inventory c' = ck_inventory c \<and> same_recipe r v
    \<and> (vd_Pushable v \<longrightarrow> wk_reason ?w = None \<and> trusted e rd (vo_Trust opts) r v)"
  proof (cases "wk_reason ?w")
    case (Some x)
    then have "c' = wk_c ?w" "v = v0\<lparr>vd_Reason := Some x\<rparr>" using v by (auto simp: verify_one_def v0_def Let_def)
    with w v0 show ?thesis by (simp add: same_recipe_def)
  next
    case None
    show ?thesis
    proof (cases err)
      case (Some x)
      then have "c' = c1" "\<exists>q. v = v0\<lparr>vd_Reason := Some q\<rparr>"
        using v None po by (auto simp: verify_one_def v0_def Let_def)
      with c1 v0 show ?thesis by (auto simp: same_recipe_def)
    next
      case dec: None
      then have "c' = c1" "v = decide e rd r (vo_Trust opts) v0"
        using v None po by (auto simp: verify_one_def v0_def Let_def)
      with c1 ds decide_trusted [OF v0] None show ?thesis by auto
    qed
  qed
  then show "cache_ok e md c'" "ck_inventory c' = ck_inventory c" "same_recipe r v"
    "vd_Pushable v \<Longrightarrow> wk_reason ?w = None \<and> trusted e rd (vo_Trust opts) r v" by blast+
qed

lemma verifyRecipes_ok:
  assumes "verifyRecipes e md rd opts rs c = (c', vs)" "cache_ok e md c" "\<forall>r \<in> set rs. plain_recipe r"
  shows "v \<in> set vs \<Longrightarrow> vd_Pushable v \<Longrightarrow> \<exists>r c1. r \<in> set rs \<and> same_recipe r v \<and> cache_ok e md c1
    \<and> ck_inventory c1 = ck_inventory c \<and> wk_reason (delivery e md r (new_walk c1 r)) = None
    \<and> trusted e rd (vo_Trust opts) r v"
  using assms
proof (induction rs arbitrary: c c' vs)
  case (Cons r rs)
  obtain c1 v1 where one: "verify_one e md rd opts r c = (c1, v1)" by fastforce
  obtain c2 vs2 where rest: "verifyRecipes e md rd opts rs c1 = (c2, vs2)" by fastforce
  have vs: "vs = v1 # vs2" using Cons.prems(3) one rest by simp
  have p: "plain_recipe r" using Cons.prems by simp
  note ok = verify_one_ok [OF one Cons.prems(4) p]
  show ?case
  proof (cases "v = v1")
    case True
    then show ?thesis using ok Cons.prems by auto
  next
    case False
    then show ?thesis using Cons.IH [OF _ Cons.prems(2) rest ok(1)] Cons.prems vs ok(2) by auto
  qed
qed simp

lemma new_checker_ok [simp]: "cache_ok e md (new_checker m)"
  by (simp add: cache_ok_def new_checker_def)

lemma globalBlocks_ok:
  assumes "globalBlocks e md m opts c = (c', blocks, fresh)" and "cache_ok e md c"
  shows "cache_ok e md c'" "ck_inventory c' = ck_inventory c"
    and "\<not> standing blocks \<Longrightarrow> sound e md (ck_inventory c) recipesFile"
    and "\<not> standing blocks \<Longrightarrow> mm_Zone m = vo_Zone opts \<or> vo_AllowZoneMismatch opts"
    and "\<not> standing blocks \<Longrightarrow> vo_LastImport opts = Some prev \<Longrightarrow> mm_ResolvedAt m \<ge> im_ResolvedAt prev \<or> vo_AllowStale opts"
proof -
  obtain c1 reason where ch: "check e md recipesFile [] c = (c1, reason)" by fastforce
  note s = check_step [OF ch]
  show "cache_ok e md c'" "ck_inventory c' = ck_inventory c"
    using assms ch s by (auto simp: globalBlocks_def Let_def split: option.splits)
  assume n: "\<not> standing blocks"
  then have "reason = None"
    using assms(1) ch by (cases reason) (auto simp: globalBlocks_def standing_def block_def Let_def split: option.splits)
  then show "sound e md (ck_inventory c) recipesFile" using s(3) assms(2) by simp
  show "mm_Zone m = vo_Zone opts \<or> vo_AllowZoneMismatch opts"
    using n assms(1) ch by (auto simp: globalBlocks_def standing_def Let_def split: option.splits if_splits)
  show "vo_LastImport opts = Some prev \<Longrightarrow> mm_ResolvedAt m \<ge> im_ResolvedAt prev \<or> vo_AllowStale opts"
    using n assms(1) ch by (auto simp: globalBlocks_def standing_def Let_def not_less split: option.splits if_splits)
qed

lemma finish_report_fields [simp]:
  "rt_Blocks (finish_report rep) = rt_Blocks rep" "rt_Recipes (finish_report rep) = rt_Recipes rep"
  "standing (rt_Blocks rep) \<Longrightarrow> Pushable (finish_report rep) = []"
  by (simp_all add: finish_report_def Pushable_def Let_def)

lemma Pushable_recipes: "v \<in> set (Pushable rep) \<Longrightarrow> v \<in> set (rt_Recipes rep) \<and> vd_Pushable v"
  by (auto simp: Pushable_def split: if_splits)

text \<open>The files the manifest lists, as the checker holds them.\<close>

definition listed_files :: "Manifest \<Rightarrow> (string \<times> File) list" where
  "listed_files m = ck_inventory (new_checker m)"

lemma media_pushable:
  assumes "Verify_media e md rd opts = Some rep" and "v \<in> set (Pushable rep)"
  obtains m r c1 where "readManifest e md = Inr m" "r \<in> set (mm_Recipes m)" "same_recipe r v" "plain_recipe r"
    "trusted e rd (vo_Trust opts) r v" "cache_ok e md c1" "ck_inventory c1 = listed_files m"
    "wk_reason (delivery e md r (new_walk c1 r)) = None"
    "sound e md (listed_files m) recipesFile" "mm_Zone m = vo_Zone opts \<or> vo_AllowZoneMismatch opts"
    "\<And>prev. vo_LastImport opts = Some prev \<Longrightarrow> mm_ResolvedAt m \<ge> im_ResolvedAt prev \<or> vo_AllowStale opts"
proof -
  have md: "md_opens md" using assms(1) by (auto simp: Verify_media_def split: if_splits)
  obtain m where m: "readManifest e md = Inr m"
    using assms by (cases "readManifest e md")
      (auto simp: Verify_media_def Pushable_def finish_report_def empty_report_def Let_def split: if_splits)
  obtain c1 blocks fresh where g: "globalBlocks e md m opts (new_checker m) = (c1, blocks, fresh)" by (metis prod_cases3)
  note gb = globalBlocks_ok [OF g new_checker_ok]
  have ns: "\<not> standing blocks"
    using assms md m g by (auto simp: Verify_media_def Pushable_def finish_report_def Let_def split: if_splits)
  obtain c2 vs where v: "verifyRecipes e md rd opts (mm_Recipes m) c1 = (c2, vs)" by fastforce
  have "rt_Recipes rep = vs"
    using assms(1) md m g ns v by (auto simp: Verify_media_def Let_def split: prod.splits)
  with Pushable_recipes [OF assms(2)] have "v \<in> set vs" "vd_Pushable v" by auto
  from verifyRecipes_ok [OF v gb(1) _ this] readManifest_ok(3) [OF m] obtain r cr where
    "r \<in> set (mm_Recipes m)" "same_recipe r v" "cache_ok e md cr" "ck_inventory cr = ck_inventory c1"
    "wk_reason (delivery e md r (new_walk cr r)) = None" "trusted e rd (vo_Trust opts) r v" by blast
  with that [OF m] readManifest_ok(3) [OF m] gb(2) gb(3-5) [OF ns] show ?thesis by (simp add: listed_files_def)
qed

end
