(* ===== verification/Media_Results.thy ===== *)
theory Media_Results
  imports Media_Sound
begin

text \<open>
  The guarantees of \<open>Verify_media\<close> on a transported store: content, trust, medium-wide guards,
  the guard against older media together with the import register, the number of steps a walk
  needs, and the case in which a required manifest ings not required.
\<close>

subsection \<open>A medium\<close>

definition zero_hex :: string where
  "zero_hex = replicate 64 CHR ''0''"

lemma hex_encode_zeros: "hex_encode (replicate n (CHR 0x00)) = replicate (2 * n) CHR ''0''"
proof (induction n)
  case (Suc n)
  have "char_of (48 :: nat) = CHR ''0''" by code_simp
  with Suc show ?case by (simp add: hex_encode_def hex_digit_def)
qed (simp add: hex_encode_def)

lemma zero_hex_sum: "hex_encode (replicate 32 (CHR 0x00)) = zero_hex"
  using hex_encode_zeros [of 32] by (simp add: zero_hex_def)

definition zero_dgst :: string where
  "zero_dgst = ''sha256:'' @ zero_hex"

definition child_dgst :: string where
  "child_dgst = ''sha256:'' @ demo_hex"

lemma zero_digest: "digestHex zero_dgst = Inr zero_hex"
  by (simp add: digestHex_iff zero_dgst_def zero_hex_def lower_hex_def list_all_iff)

lemma child_digest: "digestHex child_dgst = Inr demo_hex"
  unfolding child_dgst_def by (rule demo_hex_digest)

definition demo_recipe :: "Ingredient list \<Rightarrow> Recipe" where
  "demo_recipe ings = \<lparr>rc_Name = ''n'', rc_Version = ''1'', rc_CookbookRepo = ''h.io/lab/x'', rc_ArtifactRepo = ''cb'',
     rc_ArtifactTag = [], rc_Digest = zero_dgst, rc_ResolvedAt = 7, rc_Ingredients = ings\<rparr>"

definition demo_files :: "string list" where
  "demo_files = [recipesFile, manifestLinkPath ''cb'' zero_hex, manifestLinkPath ''r'' zero_hex, blobPath zero_hex]"

definition demo_manifest :: "Ingredient list \<Rightarrow> Manifest" where
  "demo_manifest ings = \<lparr>mm_MediaFormat = 1, mm_StoreFormat = 1, mm_MediaID = ''m'', mm_Zone = ''z'',
     mm_ProducedBy = \<lparr>pd_Version = ''dev'', pd_RunID = []\<rparr>, mm_ResolvedAt = 7, mm_WrittenAt = 8,
     mm_Recipes = [demo_recipe ings],
     mm_Inventory = map (\<lambda>p. \<lparr>fi_Path = p, fi_Size = 1, fi_Digest = zero_dgst\<rparr>) demo_files,
     mm_Totals = \<lparr>to_Files = 4, to_Bytes = 4\<rparr>\<rparr>"

text \<open>Every file hashes to the same digest; the one blob is an index whose child \<open>demo_hex\<close> the medium
  does not carry.\<close>

definition demo_env :: "Ingredient list \<Rightarrow> media_env" where
  "demo_env ings = \<lparr>me_sum256 = \<lambda>_. replicate 32 (CHR 0x00),
     me_document = \<lambda>_. Some \<lparr>od_Config = None, od_Layers = [], od_Manifests = [child_dgst]\<rparr>,
     me_manifest = \<lambda>_. Some (demo_manifest ings), me_text = \<lambda>_. [], me_time = \<lambda>_. [], me_codec = demo_codec\<rparr>"

definition demo_medium :: medium where
  "demo_medium = \<lparr>md_opens = True,
     md_file = \<lambda>p. if p = ManifestPath then Content ''M'' else if p \<in> set demo_files then Content ''m'' else Absent,
     md_tree = \<lambda>_. None, md_walk = \<lambda>_. ([], None), md_cancel = \<lambda>_. None\<rparr>"

definition demo_options :: "(string \<Rightarrow> Decision) \<Rightarrow> VerifyOptions" where
  "demo_options trust = \<lparr>vo_Zone = ''z'', vo_Trust = Some trust, vo_LastImport = None, vo_AllowZoneMismatch = False, vo_AllowStale = False\<rparr>"

definition lab_trust :: "string \<Rightarrow> Decision" where
  "lab_trust repo = \<lparr>dc_AllowUnsigned = True, dc_Scope = ''lab'', dc_Keys = None\<rparr>"

definition demo_reader :: Reader where
  "demo_reader = \<lparr>rd_RawManifest = \<lambda>_ _. Inl NotFound, rd_BlobReader = \<lambda>_ _. Inl NotFound\<rparr>"

lemma demo_distinct: "blobPath demo_hex \<notin> set demo_files" "distinct demo_files"
  "tagCurrentPath ''cb'' (''sha256-'' @ zero_hex) \<notin> set demo_files"
  "tagCurrentPath ''cb'' (''sha256-'' @ zero_hex @ ''.sig'') \<notin> set demo_files"
proof -
  show "blobPath demo_hex \<notin> set demo_files"
    by (simp add: demo_files_def blobPath_def manifestLinkPath_def demo_hex_def zero_hex_def)
qed (simp_all add: demo_files_def blobPath_def manifestLinkPath_def tagCurrentPath_def)

lemma demo_not_manifest: "p \<in> set demo_files \<Longrightarrow> p \<noteq> ManifestPath"
  by (auto simp: demo_files_def manifestLinkPath_def blobPath_def)

text \<open>Any walk of this medium over the listed files goes through.\<close>

definition demo_good :: "Ingredient list \<Rightarrow> walk \<Rightarrow> bool" where
  "demo_good ings w \<longleftrightarrow> wk_reason w = None \<and> ck_inventory (wk_c w) = listed_files (demo_manifest ings)
     \<and> (\<forall>p \<in> set demo_files. ck_results (wk_c w) p \<in> {None, Some None})"

lemma demo_listed:
  "p \<in> set demo_files \<Longrightarrow> map_of (listed_files (demo_manifest ings)) p = Some \<lparr>fi_Path = p, fi_Size = 1, fi_Digest = zero_dgst\<rparr>"
  unfolding listed_files_def new_checker_def demo_manifest_def
  by (rule map_of_is_SomeI) (auto simp: comp_def rev_map demo_distinct(2))

lemma demo_hexOf: "p \<in> set demo_files \<Longrightarrow> hexOfBlobPath p = Some h \<Longrightarrow> h = zero_hex"
proof -
  assume p: "p \<in> set demo_files" "hexOfBlobPath p = Some h"
  have "cut_prefix p' (blobsPrefix @ ''/'') = None" if "p' \<in> set demo_files" "p' \<noteq> blobPath zero_hex" for p'
    using that by (auto simp: demo_files_def cut_prefix_def manifestLinkPath_def)
  then have "p = blobPath zero_hex" using p by (cases "p = blobPath zero_hex") (simp_all add: hexOfBlobPath_def)
  then show ?thesis using p hexOfBlobPath_blobPath [OF zero_digest] by simp
qed

lemma demo_check:
  assumes "p \<in> set demo_files" "demo_good ings w"
  shows "snd (check (demo_env ings) demo_medium p recipe (wk_c w)) = None"
    "\<forall>q. ck_results (fst (check (demo_env ings) demo_medium p recipe (wk_c w))) q \<in> {ck_results (wk_c w) q, Some None}"
proof -
  let ?c = "(wk_c w)\<lparr>ck_reached := insert p (ck_reached (wk_c w))\<rparr>"
  have m: "md_file demo_medium p = Content ''m''"
    using assms(1) demo_not_manifest by (auto simp: demo_medium_def)
  have i: "map_of (ck_inventory ?c) p = Some \<lparr>fi_Path = p, fi_Size = 1, fi_Digest = zero_dgst\<rparr>"
    using demo_listed [OF assms(1)] assms(2) by (simp add: demo_good_def)
  have u: "\<exists>c'. checkUncached (demo_env ings) demo_medium p recipe ?c = (c', None) \<and> ck_results c' = ck_results (wk_c w)"
    using i m demo_hexOf [OF assms(1)]
    by (auto simp: checkUncached_def demo_env_def zero_hex_sum zero_dgst_def Let_def split: option.split)
  have "ck_results (wk_c w) p = None \<or> ck_results (wk_c w) p = Some None" using assms by (auto simp: demo_good_def)
  with u show "snd (check (demo_env ings) demo_medium p recipe (wk_c w)) = None"
    "\<forall>q. ck_results (fst (check (demo_env ings) demo_medium p recipe (wk_c w))) q \<in> {ck_results (wk_c w) q, Some None}"
    by (auto simp: check_def Let_def withRecipe_def)
qed

lemma demo_walk_file:
  assumes "p \<in> set demo_files" "demo_good ings w"
  shows "demo_good ings (walk_file (demo_env ings) demo_medium p w)" "wk_seen (walk_file (demo_env ings) demo_medium p w) = wk_seen w"
proof -
  let ?w1 = "w\<lparr>wk_c := (wk_c w)\<lparr>ck_polls := Suc (ck_polls (wk_c w))\<rparr>\<rparr>"
  have g1: "demo_good ings ?w1" using assms(2) by (simp add: demo_good_def)
  obtain c reason where c: "check (demo_env ings) demo_medium p (wk_recipe w) (wk_c ?w1) = (c, reason)" by fastforce
  have r: "reason = None" "\<forall>q. ck_results c q \<in> {ck_results (wk_c w) q, Some None}"
    using demo_check [OF assms(1) g1, of "wk_recipe w"] c by simp_all
  have inv: "ck_inventory c = ck_inventory (wk_c w)" using check_step(1) [OF c] by simp
  have eq: "\<exists>n b. walk_file (demo_env ings) demo_medium p w = w\<lparr>wk_files := n, wk_bytes := b, wk_c := c\<rparr>"
    using demo_listed [OF assms(1)] assms(2) c r(1)
    by (auto simp: walk_file_def poll_def demo_good_def demo_medium_def Let_def)
  then obtain n b where "walk_file (demo_env ings) demo_medium p w = w\<lparr>wk_files := n, wk_bytes := b, wk_c := c\<rparr>" by blast
  moreover have "ck_results c q \<in> {None, Some None}" if "q \<in> set demo_files" for q
    using r(2) that assms(2) unfolding demo_good_def by (metis insert_iff)
  ultimately show "demo_good ings (walk_file (demo_env ings) demo_medium p w)"
    using assms(2) inv by (simp add: demo_good_def)
  show "wk_seen (walk_file (demo_env ings) demo_medium p w) = wk_seen w" by (rule walk_file_step(2))
qed

lemma demo_child:
  assumes "demo_good ings w"
  shows "demo_good ings (walk_manifest (demo_env ings) demo_medium (Suc fuel) repo child_dgst False w)
    \<and> wk_seen (walk_manifest (demo_env ings) demo_medium (Suc fuel) repo child_dgst False w) = insert (seen_key repo child_dgst) (wk_seen w)"
proof -
  have "\<not> file_exists demo_medium (blobPath demo_hex)"
    using demo_distinct(1) by (auto simp: file_exists_def demo_medium_def blobPath_def)
  then show ?thesis using assms by (auto simp: walk_manifest_eq child_digest demo_good_def)
qed

lemma demo_walk_manifest:
  assumes "demo_good ings w" "repo \<in> {''cb'', ''r''}"
  shows "demo_good ings (walk_manifest (demo_env ings) demo_medium (Suc (Suc fuel)) repo zero_dgst True w)
    \<and> (seen_key repo zero_dgst \<notin> wk_seen w \<longrightarrow> wk_seen (walk_manifest (demo_env ings) demo_medium (Suc (Suc fuel)) repo zero_dgst True w)
         = {seen_key repo zero_dgst, seen_key repo child_dgst} \<union> wk_seen w)"
proof (cases "seen_key repo zero_dgst \<in> wk_seen w")
  case True
  then show ?thesis using assms by (simp add: walk_manifest_eq [of _ _ "Suc fuel"])
next
  case False
  let ?k = "w\<lparr>wk_seen := insert (seen_key repo zero_dgst) (wk_seen w)\<rparr>"
  have g: "demo_good ings ?k" using assms(1) by (simp add: demo_good_def)
  have e: "demo_good ings (enter (demo_env ings) demo_medium repo zero_dgst zero_hex w)"
    unfolding enter_def using assms(2)
    by (intro demo_walk_file(1) g) (auto simp: demo_files_def)
  have rd: "walk_read (demo_env ings) demo_medium (blobPath zero_hex) = Inr ''m''"
    by (simp add: walk_read_def demo_medium_def demo_files_def) (simp add: blobPath_def)
  let ?doc = "\<lparr>od_Config = None, od_Layers = [], od_Manifests = [child_dgst]\<rparr>"
  have doc: "me_document (demo_env ings) raw = Some ?doc" for raw by (simp add: demo_env_def)
  have "wk_reason w = None" "wk_reason (enter (demo_env ings) demo_medium repo zero_dgst zero_hex w) = None"
    using assms(1) e by (simp_all add: demo_good_def)
  then have "walk_manifest (demo_env ings) demo_medium (Suc (Suc fuel)) repo zero_dgst True w
      = contents (demo_env ings) demo_medium (Suc fuel) repo ?doc (enter (demo_env ings) demo_medium repo zero_dgst zero_hex w)"
    using False rd doc by (simp add: walk_manifest_eq [of _ _ "Suc fuel"] zero_digest)
  then show ?thesis using demo_child [OF e] False by (simp add: contents_def insert_commute)
qed

lemma demo_root:
  assumes "demo_good ings w" "repo \<in> {''cb'', ''r''}"
  shows "demo_good ings (walk_root (demo_env ings) demo_medium repo zero_dgst [] w)
    \<and> (seen_key repo zero_dgst \<notin> wk_seen w \<longrightarrow> wk_seen (walk_root (demo_env ings) demo_medium repo zero_dgst [] w)
         = {seen_key repo zero_dgst, seen_key repo child_dgst} \<union> wk_seen w)"
proof -
  have "walk_fuel w = Suc (Suc (length (listed_files (demo_manifest ings)) - 1))"
    using assms(1) by (simp add: walk_fuel_def demo_good_def listed_files_def new_checker_def demo_manifest_def demo_files_def)
  then show ?thesis using demo_walk_manifest [OF assms] assms(1) by (simp add: walk_root_def demo_good_def)
qed

lemma demo_signatures: "signatures (demo_env ings) demo_medium ''cb'' zero_dgst w = w"
proof -
  have "\<not> file_exists demo_medium (tagCurrentPath ''cb'' (''sha256-'' @ zero_hex))"
    "\<not> file_exists demo_medium (tagCurrentPath ''cb'' (''sha256-'' @ zero_hex @ ''.sig''))"
    using demo_distinct(3,4) by (simp_all add: file_exists_def demo_medium_def) (simp_all add: tagCurrentPath_def)
  then show ?thesis by (simp add: signatures_def zero_digest walk_signature_def)
qed

lemma demo_skipped_child:
  assumes "seen_key ''r'' child_dgst \<in> wk_seen w" "demo_good ings w"
  shows "demo_good ings (walk_root (demo_env ings) demo_medium ''r'' child_dgst [] w)"
  using assms by (simp add: walk_root_def walk_fuel_def walk_manifest_eq demo_good_def)

definition sparse_ingredients :: "Ingredient list" where
  "sparse_ingredients = [\<lparr>in_Name = ''all'', in_Kind = ''image'', in_Repo = ''r'', in_Tag = [], in_Digest = zero_dgst\<rparr>,
     \<lparr>in_Name = ''one'', in_Kind = ''image'', in_Repo = ''r'', in_Tag = [], in_Digest = child_dgst\<rparr>]"

lemma demo_delivery:
  assumes "ings \<in> {[], sparse_ingredients}" "demo_good ings (new_walk c (demo_recipe ings))"
  shows "demo_good ings (delivery (demo_env ings) demo_medium (demo_recipe ings) (new_walk c (demo_recipe ings)))"
proof -
  let ?w0 = "new_walk c (demo_recipe ings)"
  let ?w1 = "walk_root (demo_env ings) demo_medium ''cb'' zero_dgst [] ?w0"
  let ?w2 = "walk_root (demo_env ings) demo_medium ''r'' zero_dgst [] ?w1"
  have w1: "demo_good ings ?w1" "wk_seen ?w1 = {seen_key ''cb'' zero_dgst, seen_key ''cb'' child_dgst}"
    using demo_root [OF assms(2), of "''cb''"] by (simp_all add: new_walk_def)
  have "seen_key ''r'' zero_dgst \<notin> wk_seen ?w1" unfolding w1(2) by (simp add: seen_key_def)
  then have w2: "demo_good ings ?w2" "seen_key ''r'' child_dgst \<in> wk_seen ?w2"
    using demo_root [OF w1(1), of "''r''"] by simp_all
  have "demo_good ings (walk_root (demo_env ings) demo_medium ''r'' child_dgst [] ?w2)"
    by (rule demo_skipped_child [OF w2(2,1)])
  then show ?thesis
    using assms(1) w1 demo_signatures
    by (auto simp: delivery_def demo_recipe_def sparse_ingredients_def Let_def)
qed

lemma demo_paths_ok: "p \<in> set demo_files \<Longrightarrow> is_ok (checkInventoryPath p)"
proof -
  assume "p \<in> set demo_files"
  moreover have "checkRepoName ''cb'' = Inr ()" "checkRepoName ''r'' = Inr ()" "checkTag ''v'' = Inr ()" by code_simp+
  moreover have "checkInventoryPath recipesFile = Inr ()" by code_simp
  ultimately show ?thesis using derived_contained [OF _ zero_digest] by (auto simp: demo_files_def)
qed

lemma demo_inventory:
  "set ps \<subseteq> set demo_files \<Longrightarrow> distinct ps \<Longrightarrow> set ps \<inter> seen = {} \<Longrightarrow>
     validate_inventory e seen (map (\<lambda>p. \<lparr>fi_Path = p, fi_Size = 1, fi_Digest = zero_dgst\<rparr>) ps) = Inr ()"
proof (induction ps arbitrary: seen)
  case (Cons p ps)
  then have "is_ok (checkInventoryPath p)" using demo_paths_ok by simp
  then have "path_check e (checkInventoryPath p) = Inr ()" "path_check e (digestHex zero_dgst) = Inr ()"
    by (simp_all add: path_check_ok zero_digest)
  with Cons show ?case by auto
qed simp

lemma demo_readManifest:
  assumes "ings \<in> {[], sparse_ingredients}"
  shows "readManifest (demo_env ings) demo_medium = Inr (demo_manifest ings)"
proof -
  have r: "path_check e (checkRepoName ''cb'') = Inr ()" "path_check e (checkRepoName ''r'') = Inr ()"
    "path_check e (digestHex zero_dgst) = Inr ()" "path_check e (digestHex child_dgst) = Inr ()" for e
    by (simp_all add: path_check_ok zero_digest child_digest) code_simp+
  have "is_ok (Path ''h.io/lab/x'')" by code_simp
  then obtain q where q: "Path ''h.io/lab/x'' = Inr q" by (auto simp: is_ok_iff)
  have "validateRecipe e (demo_recipe ings) = Inr ()" for e
    using assms r q by (auto simp: validateRecipe_def demo_recipe_def sparse_ingredients_def)
  then have "validate e (demo_manifest ings) = Inr ()" for e
    using demo_inventory [of demo_files "{}" e] demo_distinct(2) by (simp add: validate_def demo_manifest_def)
  then show ?thesis by (simp add: readManifest_def demo_medium_def demo_env_def demo_manifest_def Let_def)
qed

lemma demo_verified:
  assumes "ings \<in> {[], sparse_ingredients}" and "dc_AllowUnsigned (trust ''h.io/lab/x'')"
    and "dc_Keys (trust ''h.io/lab/x'') = None"
  shows "\<exists>rep v. Verify_media (demo_env ings) demo_medium demo_reader (demo_options trust) = Some rep
    \<and> Pushable rep = [v] \<and> same_recipe (demo_recipe ings) v \<and> vd_Unsigned v \<and> rt_Verdict rep = VerdictPushable"
proof -
  let ?e = "demo_env ings" and ?m = "demo_manifest ings" and ?r = "demo_recipe ings"
  have good: "demo_good ings (new_walk c ?r)" if "ck_inventory c = listed_files ?m" "\<forall>p. ck_results c p \<in> {None, Some None}" for c
    using that by (auto simp: demo_good_def new_walk_def)
  have c0: "ck_inventory (new_checker ?m) = listed_files ?m" "\<forall>p. ck_results (new_checker ?m) p \<in> {None, Some None}"
    by (simp_all add: listed_files_def new_checker_def)
  obtain c1 reason where ch: "check ?e demo_medium recipesFile [] (new_checker ?m) = (c1, reason)" by fastforce
  have c1: "reason = None" "\<forall>p. ck_results c1 p \<in> {ck_results (new_checker ?m) p, Some None}"
    using demo_check [OF _ good [OF c0], of recipesFile "[]"] ch by (simp_all add: demo_files_def new_walk_def)
  have g: "globalBlocks ?e demo_medium ?m (demo_options trust) (new_checker ?m) = (c1, [], None)"
    using ch c1(1) by (simp add: globalBlocks_def demo_options_def demo_manifest_def Let_def)
  have "ck_inventory c1 = listed_files ?m" using check_step(1) [OF ch] c0(1) by simp
  moreover have "\<forall>p. ck_results c1 p \<in> {None, Some None}" using c1(2) c0(2) by (metis insert_iff)
  ultimately have d: "wk_reason (delivery ?e demo_medium ?r (new_walk c1 ?r)) = None"
    using demo_delivery [OF assms(1) good] by (simp add: demo_good_def)
  have "Path ''h.io/lab/x'' = Inr ''h.io/lab/x''" by code_simp
  then have n: "nominal_of ?r = ''h.io/lab/x''" by (simp add: nominal_of_def demo_recipe_def)
  have "\<exists>c2 v. verify_one ?e demo_medium demo_reader (demo_options trust) ?r c1 = (c2, v) \<and> vd_Pushable v \<and> vd_Unsigned v \<and> same_recipe ?r v"
    using d n assms(2,3)
    by (simp add: verify_one_def poll_def demo_medium_def decide_def demo_options_def same_recipe_def Let_def)
  then obtain c2 v where v: "verify_one ?e demo_medium demo_reader (demo_options trust) ?r c1 = (c2, v)" "vd_Pushable v" "vd_Unsigned v"
    "same_recipe ?r v" by blast
  then have vs: "verifyRecipes ?e demo_medium demo_reader (demo_options trust) (mm_Recipes ?m) c1 = (c2, [v])"
    by (simp add: demo_manifest_def)
  obtain c3 fs where f: "findings ?e demo_medium ?m c2 = (c3, fs)" by fastforce
  have "md_opens demo_medium" by (simp add: demo_medium_def)
  with demo_readManifest [OF assms(1)] g vs f v show ?thesis
    by (simp add: Verify_media_def standing_def finish_report_def Pushable_def Let_def)
qed

lemma lab_verified:
  assumes "ings \<in> {[], sparse_ingredients}"
  obtains rep v where "Verify_media (demo_env ings) demo_medium demo_reader (demo_options lab_trust) = Some rep" "v \<in> set (Pushable rep)"
    "same_recipe (demo_recipe ings) v" "rt_Verdict rep = VerdictPushable"
  using demo_verified [OF assms, of lab_trust] by (fastforce simp: lab_trust_def)

subsection \<open>Main results\<close>

text \<open>C10: A recipe cleared for the push is on the medium, whole. Its artifact is intact, and every
  manifest it delivers (artifact, signatures, ingredients, index children, transitively) is
  intact: repository link, manifest bytes, config and layers are all listed in the inventory,
  present with the listed size, hash to the listed digest, and blobs hash to their own name. The
  one exception is an index child the medium does not carry at all.\<close>

theorem media_content_sound:
  assumes "Verify_media e md rd opts = Some rep" and "v \<in> set (Pushable rep)"
  shows "\<exists>m r. readManifest e md = Inr m \<and> r \<in> set (mm_Recipes m) \<and> same_recipe r v
    \<and> intact e md (listed_files m) (rc_ArtifactRepo r) (rc_Digest r)
    \<and> (\<forall>repo d. delivers e md r repo d \<longrightarrow>
         intact e md (listed_files m) repo d \<or> absent md d \<and> (\<exists>q. delivers e md r repo q \<and> lists_child e md q d))"
proof -
  from media_pushable [OF assms] obtain m r c1 where m: "readManifest e md = Inr m" "r \<in> set (mm_Recipes m)" "same_recipe r v"
    and c: "cache_ok e md c1" "ck_inventory c1 = listed_files m" "plain_recipe r" "wk_reason (delivery e md r (new_walk c1 r)) = None"
    by metis
  show ?thesis
    using m delivery_complete [OF c(1,3,4)] unfolding c(2) by blast
qed

theorem media_content_sound_witness:
  "\<exists>m r. readManifest (demo_env []) demo_medium = Inr m \<and> r \<in> set (mm_Recipes m)
     \<and> intact (demo_env []) demo_medium (listed_files m) (rc_ArtifactRepo r) (rc_Digest r)"
proof -
  obtain rep v where "Verify_media (demo_env []) demo_medium demo_reader (demo_options lab_trust) = Some rep" "v \<in> set (Pushable rep)"
    by (rule lab_verified [of "[]"]) simp
  from media_content_sound [OF this] show ?thesis by blast
qed

text \<open>C11: No recipe is cleared against the destination's trust policy. Under a loaded policy a cleared
  recipe carries a signature of its digest by a key the policy configures, or it is marked
  unsigned, a declared scope that covers its nominal repository allows that, and no signature
  exists or no key applies. Without a policy nothing is cleared.\<close>

theorem media_trust_sound:
  assumes "Verify_media e md rd opts = Some rep" and "v \<in> set (Pushable rep)"
    and "vo_Trust opts = map_option (\<lambda>p. MediaTrust_Decide (Some p)) policy"
  shows "\<exists>p m r. policy = Some p \<and> readManifest e md = Inr m \<and> r \<in> set (mm_Recipes m) \<and> same_recipe r v
    \<and> (if vd_Unsigned v
       then relaxed_scope p (vd_TrustScope v) (nominal_of r)
         \<and> (case dc_Keys (Decide p (nominal_of r)) of
              None \<Rightarrow> True
            | Some keys \<Rightarrow> Verify (me_codec e) (manifestSource rd (rc_ArtifactRepo r)) (rc_ArtifactRepo r) (rc_Digest r) (Some keys)
                = Inl ErrNoSignature)
       else \<exists>k. policy_key p k \<and> tk_fingerprint k = vd_KeyFingerprint v
         \<and> signed_by (me_codec e) (manifestSource rd (rc_ArtifactRepo r)) (rc_ArtifactRepo r) (rc_Digest r) k)"
proof -
  from media_pushable [OF assms(1,2)] obtain m r where m: "readManifest e md = Inr m" "r \<in> set (mm_Recipes m)" "same_recipe r v"
    and t: "trusted e rd (vo_Trust opts) r v" by metis
  from t assms(3) obtain p where p: "policy = Some p" by (auto simp: trusted_def)
  have d: "vo_Trust opts = Some (Decide p)" using assms(3) p by (auto simp: MediaTrust_Decide_def)
  show ?thesis
  proof (cases "vd_Unsigned v")
    case True
    with t d have "dc_AllowUnsigned (Decide p (nominal_of r))" "vd_TrustScope v = dc_Scope (Decide p (nominal_of r))"
      "case dc_Keys (Decide p (nominal_of r)) of None \<Rightarrow> True
       | Some keys \<Rightarrow> Verify (me_codec e) (manifestSource rd (rc_ArtifactRepo r)) (rc_ArtifactRepo r) (rc_Digest r) (Some keys) = Inl ErrNoSignature"
      by (auto simp: trusted_def)
    with policy_trust.allow_declared m p True show ?thesis by fastforce
  next
    case False
    with t d obtain keys where k: "dc_Keys (Decide p (nominal_of r)) = Some keys"
      "Verify (me_codec e) (manifestSource rd (rc_ArtifactRepo r)) (rc_ArtifactRepo r) (rc_Digest r) (Some keys) = Inr (vd_KeyFingerprint v)"
      by (auto simp: trusted_def)
    from Verify_signed [OF k(2)] obtain key where "key \<in> set keys" "tk_fingerprint key = vd_KeyFingerprint v"
      "signed_by (me_codec e) (manifestSource rd (rc_ArtifactRepo r)) (rc_ArtifactRepo r) (rc_Digest r) key" by auto
    with policy_trust.keys_configured [OF k(1)] m p False show ?thesis by auto
  qed
qed

definition lab_policy :: TrustPolicy where
  "lab_policy = \<lparr>tp_roots = [], tp_all = None,
     tp_scopes = [\<lparr>ts_Name = ''lab'', ts_Repositories = [''h.io/lab/*''], ts_AllowUnsigned = True, ts_Roots = []\<rparr>]\<rparr>"

theorem media_trust_sound_witness:
  "\<exists>rep v. Verify_media (demo_env []) demo_medium demo_reader (demo_options (MediaTrust_Decide (Some lab_policy))) = Some rep
     \<and> v \<in> set (Pushable rep) \<and> relaxed_scope lab_policy (vd_TrustScope v) (nominal_of (demo_recipe []))"
proof -
  let ?t = "MediaTrust_Decide (Some lab_policy)"
  have "matchPattern ''h.io/lab/*'' ''h.io/lab/x''" by code_simp
  then have "dc_AllowUnsigned (?t ''h.io/lab/x'')" "dc_Keys (?t ''h.io/lab/x'') = None"
    by (simp_all add: MediaTrust_Decide_def Decide_def lab_policy_def)
  from demo_verified [where trust = ?t and ings = "[]", OF _ this] obtain rep v where
    v: "Verify_media (demo_env []) demo_medium demo_reader (demo_options ?t) = Some rep" "v \<in> set (Pushable rep)" "vd_Unsigned v"
    by auto
  have "vo_Trust (demo_options ?t) = map_option (\<lambda>p. MediaTrust_Decide (Some p)) (Some lab_policy)"
    by (simp add: demo_options_def)
  from media_trust_sound [OF v(1,2) this] v(3) demo_readManifest [of "[]"]
  have "relaxed_scope lab_policy (vd_TrustScope v) (nominal_of (demo_recipe []))"
    by (auto simp: demo_manifest_def)
  with v show ?thesis by blast
qed

text \<open>C25: Nothing is cleared past a medium-wide guard: a cleared recipe means the manifest has the formats
  this build reads, the recipe graph is listed and unaltered, the medium is addressed to this
  zone and is not older than the zone's last import, the last two unless overridden.\<close>

theorem media_guards:
  assumes "Verify_media e md rd opts = Some rep" and "v \<in> set (Pushable rep)"
  shows "\<exists>m. readManifest e md = Inr m \<and> mm_MediaFormat m = ManifestFormat \<and> mm_StoreFormat m = FormatVersion
    \<and> sound e md (listed_files m) recipesFile \<and> (mm_Zone m = vo_Zone opts \<or> vo_AllowZoneMismatch opts)
    \<and> (case vo_LastImport opts of None \<Rightarrow> True | Some prev \<Rightarrow> mm_ResolvedAt m \<ge> im_ResolvedAt prev \<or> vo_AllowStale opts)"
proof -
  from media_pushable [OF assms] obtain m where "readManifest e md = Inr m" "sound e md (listed_files m) recipesFile"
    "mm_Zone m = vo_Zone opts \<or> vo_AllowZoneMismatch opts"
    "\<And>prev. vo_LastImport opts = Some prev \<Longrightarrow> mm_ResolvedAt m \<ge> im_ResolvedAt prev \<or> vo_AllowStale opts" by metis
  with readManifest_ok(1,2) show ?thesis by (auto split: option.split)
qed

theorem media_guards_witness:
  "\<exists>m. readManifest (demo_env []) demo_medium = Inr m \<and> sound (demo_env []) demo_medium (listed_files m) recipesFile"
proof -
  obtain rep v where "Verify_media (demo_env []) demo_medium demo_reader (demo_options lab_trust) = Some rep" "v \<in> set (Pushable rep)"
    by (rule lab_verified [of "[]"]) simp
  from media_guards [OF this] show ?thesis by blast
qed

text \<open>A required ingredient can be missing from a medium that verifies. The walk remembers a manifest as
  seen whether or not it was required: an ingredient that is also an absent child of an index
  ingredient of the same repository is skipped, and the recipe is cleared without it.\<close>

theorem sparse_child_satisfies_requirement:
  "\<exists>rep v i. Verify_media (demo_env sparse_ingredients) demo_medium demo_reader (demo_options lab_trust) = Some rep
     \<and> rt_Verdict rep = VerdictPushable \<and> Pushable rep = [v] \<and> same_recipe (demo_recipe sparse_ingredients) v
     \<and> i \<in> set (rc_Ingredients (demo_recipe sparse_ingredients)) \<and> absent demo_medium (in_Digest i)"
proof -
  let ?i = "\<lparr>in_Name = ''one'', in_Kind = ''image'', in_Repo = ''r'', in_Tag = [], in_Digest = child_dgst\<rparr>"
  have "absent demo_medium child_dgst"
    using demo_distinct(1) by (auto simp: absent_def child_digest file_exists_def demo_medium_def blobPath_def)
  moreover have "?i \<in> set (rc_Ingredients (demo_recipe sparse_ingredients))"
    by (simp add: demo_recipe_def sparse_ingredients_def)
  ultimately show ?thesis
    using demo_verified [of sparse_ingredients lab_trust] by (fastforce simp: lab_trust_def)
qed

text \<open>An older medium is refused. Once an import of a zone has completed, no later medium of that zone
  that was resolved before it clears any recipe without the override, whatever other imports
  were recorded or failed to be recorded in between.\<close>

theorem older_medium_refused:
  assumes "Record w now zone r i0 = Inr i1" and "vo_LastImport opts = Last zone (record_all rs i1)"
    and "\<not> vo_AllowStale opts" and "readManifest e md = Inr m" and "mm_ResolvedAt m < im_ResolvedAt r"
    and "Verify_media e md rd opts = Some rep"
  shows "Pushable rep = []"
proof (rule ccontr)
  assume "Pushable rep \<noteq> []"
  then obtain v where v: "v \<in> set (Pushable rep)" by (cases "Pushable rep") auto
  from Record_advances(1) [OF assms(1)] obtain rec1 where "Last zone i1 = Some rec1" "im_ResolvedAt rec1 \<ge> im_ResolvedAt r" by blast
  with record_all_advances [of zone i1 rec1 rs] obtain rec where
    "Last zone (record_all rs i1) = Some rec" "im_ResolvedAt rec \<ge> im_ResolvedAt r" by fastforce
  with media_pushable [OF assms(6) v] assms(2-5) show False by (metis Inr_inject leD order_trans)
qed

theorem older_medium_refused_witness:
  "\<exists>i0 i1 rep. Record True 30 ''z'' demo_import i0 = Inr i1
     \<and> Verify_media (demo_env []) demo_medium demo_reader ((demo_options lab_trust)\<lparr>vo_LastImport := Last ''z'' i1\<rparr>) = Some rep
     \<and> Pushable rep = []"
proof -
  let ?i0 = "\<lparr>is_path = ''s'', is_records = [], is_file = None\<rparr>"
  obtain i1 where r: "Record True 30 ''z'' demo_import ?i0 = Inr i1" by (simp add: Record_def Let_def)
  let ?o = "(demo_options lab_trust)\<lparr>vo_LastImport := Last ''z'' i1\<rparr>"
  have m: "readManifest (demo_env []) demo_medium = Inr (demo_manifest [])" by (simp add: demo_readManifest)
  have "md_opens demo_medium" by (simp add: demo_medium_def)
  with m obtain rep where v: "Verify_media (demo_env []) demo_medium demo_reader ?o = Some rep"
    by (fastforce simp: Verify_media_def Let_def split: prod.split)
  have "vo_LastImport ?o = Last ''z'' (record_all [] i1)" "\<not> vo_AllowStale ?o" "mm_ResolvedAt (demo_manifest []) < im_ResolvedAt demo_import"
    by (simp_all add: demo_options_def demo_manifest_def demo_import_def)
  from older_medium_refused [OF r this(1,2) m this(3) v] r v show ?thesis by blast
qed

text \<open>C27: The walk of a delivery ends: from any state whose cache is sound, one step more than the inventory
  has entries is enough, and any larger bound gives the same result.\<close>

theorem walk_manifest_enough:
  assumes "cache_ok e md (wk_c w)"
  shows "walk_manifest e md (walk_fuel w + k) repo d required w = walk_manifest e md (walk_fuel w) repo d required w"
proof (induction k)
  case (Suc k)
  have "card (open_digests repo w) < walk_fuel w + k"
    using open_digests_bound(2) [of repo w] by (simp add: walk_fuel_def)
  from walk_manifest_stable [OF assms this] Suc show ?case by simp
qed simp

theorem walk_manifest_enough_witness:
  "walk_manifest (demo_env []) demo_medium (walk_fuel (new_walk (new_checker (demo_manifest [])) (demo_recipe [])) + 9) ''cb'' zero_dgst True
      (new_walk (new_checker (demo_manifest [])) (demo_recipe []))
   = walk_manifest (demo_env []) demo_medium (walk_fuel (new_walk (new_checker (demo_manifest [])) (demo_recipe []))) ''cb'' zero_dgst True
      (new_walk (new_checker (demo_manifest [])) (demo_recipe []))"
  by (rule walk_manifest_enough) (simp add: new_walk_def)

end
