(* ===== verification/Gate.thy ===== *)
theory Gate
  imports Media_Results
begin

text \<open>
  The media session of a destination instance: \<^verbatim>\<open>mediagate/mediagate.go\<close>, the description
  functions of \<^verbatim>\<open>media/describe.go\<close>, and the verification entry point of
  \<^verbatim>\<open>engine/mediaimport.go\<close> that feeds it. The gate's mutex makes each critical section one atomic
  step: a background run has three, the engine's \<^verbatim>\<open>Observe\<close>, the end of the run and the run's own \<^verbatim>\<open>Observe\<close>.
  \<open>gate_step\<close> is one step of the running instance, and a trace of steps interleaves the screen, the
  background runs and imports in any order. Log lines and the HTTP rendering of a refusal are left out.
\<close>

subsection \<open>Outcomes\<close>

text \<open>A call ends with a value, a taxonomy error, another error, or a panic: \<^verbatim>\<open>taxonomy.New\<close> panics
  on a code that is not in the catalog.\<close>

datatype 'a attempt = Returned 'a | Refused tax_error | Failed | Panics

definition raise :: "code \<Rightarrow> params \<Rightarrow> 'a attempt" where
  "raise c ps = (case New c ps of None \<Rightarrow> Panics | Some e \<Rightarrow> Refused e)"

lemma raise_known [simp]:
  "raise CodeConfigInvalid ps = Refused \<lparr>te_code = CodeConfigInvalid, te_params = ps, te_correlation = [], te_cause = None\<rparr>"
  "raise CodeInternal ps = Refused \<lparr>te_code = CodeInternal, te_params = ps, te_correlation = [], te_cause = None\<rparr>"
  "raise CodeMediaUnverified ps = Refused \<lparr>te_code = CodeMediaUnverified, te_params = ps, te_correlation = [], te_cause = None\<rparr>"
  "raise CodeMediaNotCleared ps = Refused \<lparr>te_code = CodeMediaNotCleared, te_params = ps, te_correlation = [], te_cause = None\<rparr>"
  "raise CodeMediaVerificationRunning ps =
     Refused \<lparr>te_code = CodeMediaVerificationRunning, te_params = ps, te_correlation = [], te_cause = None\<rparr>"
  by (simp_all add: raise_def New_def Lookup_def catalog_def)

text \<open>\<^verbatim>\<open>media.errorOf\<close> renders a block, a reason or a finding, and never panics.\<close>

definition errorOf :: "code \<Rightarrow> params \<Rightarrow> 'a attempt" where
  "errorOf c ps = (case Lookup c of None \<Rightarrow> raise CodeInternal [] | Some _ \<Rightarrow> raise c ps)"

lemma errorOf_refused: "\<exists>te. errorOf c ps = Refused te \<and> te_cause te = None \<and> te_code te = (if Lookup c = None then CodeInternal else c)"
  by (cases "Lookup c") (simp_all add: errorOf_def, simp add: raise_def New_def)

subsection \<open>What a store says about itself\<close>

definition IsMedium :: "string \<Rightarrow> medium \<Rightarrow> bool" where
  "IsMedium root md = (root \<noteq> [] \<and> (case md_file md ManifestPath of Absent \<Rightarrow> False | Irregular \<Rightarrow> False | _ \<Rightarrow> True))"

text \<open>\<open>there\<close> says whether the directory exists; one that exists and cannot be opened is an error.\<close>

definition ReadManifest :: "media_env \<Rightarrow> bool \<Rightarrow> medium \<Rightarrow> (Block + Manifest) attempt" where
  "ReadManifest e there md =
     (if \<not> md_opens md
      then if there then Failed else Returned (Inl (block CodeMediaManifestMissing [(''path'', ManifestPath)]))
      else Returned (readManifest e md))"

subsection \<open>The verification entry point\<close>

record gate_options =
  go_AllowZoneMismatch :: bool
  go_AllowStale :: bool

record engine =
  eg_zone :: string
  eg_trust :: "TrustPolicy option"
  eg_imports :: "Imports option"
  eg_store :: medium
  eg_reader :: Reader

definition noZoneDetail :: string where
  "noZoneDetail = ''no zone identity is configured (zone, FR-052): a destination instance cannot tell whether a medium is addressed to it''"

definition verify_options :: "engine \<Rightarrow> gate_options \<Rightarrow> VerifyOptions" where
  "verify_options en opts =
     \<lparr>vo_Zone = eg_zone en, vo_Trust = Some (MediaTrust_Decide (eg_trust en)),
      vo_LastImport = (case eg_imports en of None \<Rightarrow> None | Some i \<Rightarrow> Last (eg_zone en) i),
      vo_AllowZoneMismatch = go_AllowZoneMismatch opts, vo_AllowStale = go_AllowStale opts\<rparr>"

definition VerifyMedia :: "media_env \<Rightarrow> engine \<Rightarrow> gate_options \<Rightarrow> Report attempt" where
  "VerifyMedia e en opts =
     (if eg_zone en = [] then raise CodeConfigInvalid [(''detail'', noZoneDetail)]
      else (case Verify_media e (eg_store en) (eg_reader en) (verify_options en opts) of
              None \<Rightarrow> Failed
            | Some rep \<Rightarrow> Returned rep))"

text \<open>The error a blocked medium is reported with: the first standing block, else the first recipe's
  reason.\<close>

definition blockingError :: "Report \<Rightarrow> unit attempt" where
  "blockingError rep =
     (case find (\<lambda>b. \<not> bl_Overridden b) (rt_Blocks rep) of
        Some b \<Rightarrow> errorOf (bl_Code b) (bl_Params b)
      | None \<Rightarrow>
          (case find (\<lambda>v. vd_Reason v \<noteq> None) (rt_Recipes rep) of
             Some v \<Rightarrow> (case vd_Reason v of Some r \<Rightarrow> errorOf (re_Code r) (re_Params r) | None \<Rightarrow> Panics)
           | None \<Rightarrow>
               (case raise CodeInternal [] of
                  Refused te \<Rightarrow> Refused (WithCause te ''engine: a medium was reported blocked without a reason'')
                | a \<Rightarrow> a)))"

definition MediaRefusal :: "Report \<Rightarrow> unit attempt" where
  "MediaRefusal rep =
     (if rt_Verdict rep = VerdictPushable then Returned ()
      else (case blockingError rep of Refused te \<Rightarrow> Refused te | _ \<Rightarrow> raise CodeInternal []))"

subsection \<open>The gate\<close>

datatype Stage = StageInventory | StageManifest | StageRecipes | StageExtraneous

fun stage_str :: "Stage \<Rightarrow> string" where
  "stage_str StageInventory = ''inventory''"
| "stage_str StageManifest = ''manifest''"
| "stage_str StageRecipes = ''recipes''"
| "stage_str StageExtraneous = ''extraneous''"

record Progress =
  pg_Stage :: Stage
  pg_Recipe :: string
  pg_Files :: int
  pg_TotalFiles :: int
  pg_Bytes :: int
  pg_TotalBytes :: int

record Failure =
  fl_Code :: code
  fl_Params :: params
  fl_At :: time

definition Failure_Error :: "Failure \<Rightarrow> unit attempt" where
  "Failure_Error f = (case Lookup (fl_Code f) of None \<Rightarrow> raise CodeInternal [] | Some _ \<Rightarrow> raise (fl_Code f) (fl_Params f))"

text \<open>\<open>gt_verify\<close> says whether \<open>SetVerify\<close> has run. The last two fields are the goroutines of \<^verbatim>\<open>run\<close>, told apart by what they
  verify: the one whose verification has returned, and those that have cleared \<^verbatim>\<open>running\<close> and not observed yet.\<close>

record gate =
  gt_root :: string
  gt_zone :: string
  gt_verify :: bool
  gt_guarded :: bool
  gt_mediaID :: string
  gt_running :: bool
  gt_started :: time
  gt_progress :: Progress
  gt_report :: "Report option"
  gt_verdictAt :: time
  gt_failure :: "Failure option"
  gt_walked :: "(engine \<times> gate_options) option"
  gt_late :: "(engine \<times> gate_options) list"

definition stage_progress :: "Stage \<Rightarrow> Progress" where
  "stage_progress s = \<lparr>pg_Stage = s, pg_Recipe = [], pg_Files = 0, pg_TotalFiles = 0, pg_Bytes = 0, pg_TotalBytes = 0\<rparr>"

definition Open_gate :: "media_env \<Rightarrow> bool \<Rightarrow> medium \<Rightarrow> string \<Rightarrow> string \<Rightarrow> gate" where
  "Open_gate e there md root zone =
     (let g = \<lparr>gt_root = root, gt_zone = zone, gt_verify = False, gt_guarded = (zone \<noteq> [] \<and> IsMedium root md),
            gt_mediaID = [], gt_running = False, gt_started = 0, gt_progress = stage_progress StageInventory,
            gt_report = None, gt_verdictAt = 0, gt_failure = None, gt_walked = None, gt_late = []\<rparr>
      in if \<not> gt_guarded g then g
         else (case ReadManifest e there md of
                 Returned (Inr m) \<Rightarrow> g\<lparr>gt_mediaID := mm_MediaID m\<rparr>
               | _ \<Rightarrow> g))"

definition SetVerify :: "gate \<Rightarrow> gate" where
  "SetVerify g = g\<lparr>gt_verify := True\<rparr>"

definition cleared :: "gate \<Rightarrow> bool" where
  "cleared g = (case gt_report g of None \<Rightarrow> False | Some rep \<Rightarrow> rt_Verdict rep = VerdictPushable)"

definition Serving :: "gate \<Rightarrow> bool" where
  "Serving g = (if \<not> gt_guarded g then True else cleared g)"

definition Observe_verdict :: "time \<Rightarrow> Report option \<Rightarrow> gate \<Rightarrow> gate" where
  "Observe_verdict now rep g =
     (case rep of
        None \<Rightarrow> g
      | Some r \<Rightarrow> g\<lparr>gt_report := Some r, gt_verdictAt := now, gt_failure := None\<rparr>)"

definition startRefusal :: string where
  "startRefusal = ''this instance holds no transported medium to verify (FR-052): set ''
     @ [CHR 0x22] @ ''zone:'' @ [CHR 0x22] @ '' to the identity of the zone it serves, and point storage.root at the medium''"

definition Start :: "time \<Rightarrow> gate \<Rightarrow> gate \<times> unit attempt" where
  "Start now g =
     (if gt_zone g = [] \<or> \<not> gt_verify g then (g, raise CodeConfigInvalid [(''detail'', startRefusal)])
      else if gt_running g
      then (g, raise CodeMediaVerificationRunning [(''stage'', stage_str (pg_Stage (gt_progress g)))])
      else (g\<lparr>gt_running := True, gt_started := now, gt_progress := stage_progress StageManifest\<rparr>, Returned ()))"

definition failureOf :: "time \<Rightarrow> Report attempt \<Rightarrow> Failure" where
  "failureOf now err =
     (case err of
        Refused te \<Rightarrow> \<lparr>fl_Code = te_code te, fl_Params = te_params te, fl_At = now\<rparr>
      | _ \<Rightarrow> \<lparr>fl_Code = CodeInternal, fl_Params = [], fl_At = now\<rparr>)"

text \<open>\<^verbatim>\<open>run\<close>, given what the injected verification returned: first the end of the run, then, outside that critical
  section, the verdict.\<close>

definition run_release :: "time \<Rightarrow> Report attempt \<Rightarrow> gate \<Rightarrow> gate" where
  "run_release now res g =
     (let g = g\<lparr>gt_running := False\<rparr>
      in case res of Returned rep \<Rightarrow> g | _ \<Rightarrow> g\<lparr>gt_failure := Some (failureOf now res)\<rparr>)"

definition run_report :: "time \<Rightarrow> Report attempt \<Rightarrow> gate \<Rightarrow> gate" where
  "run_report now res g = (case res of Returned rep \<Rightarrow> Observe_verdict now (Some rep) g | _ \<Rightarrow> g)"

definition onProgress :: "Progress \<Rightarrow> gate \<Rightarrow> gate" where
  "onProgress p g = g\<lparr>gt_progress := p\<rparr>"

record gate_status =
  gs_Guarded :: bool
  gs_Serving :: bool
  gs_MediaID :: string
  gs_Running :: bool
  gs_StartedAt :: time
  gs_Progress :: "Progress option"
  gs_Report :: "Report option"
  gs_VerdictAt :: time
  gs_Failure :: "Failure option"

definition Status_gate :: "gate \<Rightarrow> gate_status" where
  "Status_gate g =
     \<lparr>gs_Guarded = gt_guarded g, gs_Serving = (\<not> gt_guarded g \<or> cleared g), gs_MediaID = gt_mediaID g,
      gs_Running = gt_running g, gs_StartedAt = (if gt_running g then gt_started g else 0),
      gs_Progress = (if gt_running g then Some (gt_progress g) else None),
      gs_Report = gt_report g, gs_VerdictAt = gt_verdictAt g, gs_Failure = gt_failure g\<rparr>"

text \<open>Go divides towards zero, on wrapped 64-bit products.\<close>

definition go_quot :: "int \<Rightarrow> int \<Rightarrow> int" where
  "go_quot a b = (if a < 0 then - ((- a) div b) else a div b)"

definition Percent :: "gate_status \<Rightarrow> int" where
  "Percent s =
     (case gs_Progress s of
        None \<Rightarrow> 0
      | Some p \<Rightarrow>
          if pg_TotalBytes p \<le> 0 then 0
          else (let pct = go_quot (wrap64 (pg_Bytes p * 100)) (pg_TotalBytes p)
                in if pct < 0 then 0 else if pct > 100 then 100 else pct))"

fun verdict_str :: "Verdict \<Rightarrow> string" where
  "verdict_str VerdictPushable = ''pushable''"
| "verdict_str VerdictPartial = ''partial''"
| "verdict_str VerdictBlocked = ''blocked''"

abbreviation Screen :: string where "Screen \<equiv> ''/media''"

definition Refusal :: "string \<Rightarrow> gate \<Rightarrow> unit attempt" where
  "Refusal surface g =
     (if \<not> gt_guarded g then Returned ()
      else if cleared g then Returned ()
      else (let medium_id = (if gt_mediaID g = [] then gt_root g else gt_mediaID g)
            in case gt_report g of
                 Some rep \<Rightarrow> raise CodeMediaNotCleared [(''surface'', surface), (''media'', medium_id),
                               (''verdict'', verdict_str (rt_Verdict rep)), (''screen'', Screen)]
               | None \<Rightarrow> raise CodeMediaUnverified [(''surface'', surface), (''media'', medium_id), (''screen'', Screen)]))"

definition ReadyDetail :: "gate \<Rightarrow> string" where
  "ReadyDetail g =
     (if \<not> gt_guarded g then []
      else if Serving g then []
      else ''media '' @ gt_mediaID g @ '' is not verified: /v2/ and /files/ are closed until it is (FR-054) ''
        @ [CHR 0xE2, CHR 0x80, CHR 0x94] @ '' see '' @ Screen)"

text \<open>\<open>Guard_gate\<close> is what a request is answered with: the handler \<open>h\<close>, or the rendered refusal.\<close>

definition Guard_gate :: "string \<Rightarrow> (tax_error \<Rightarrow> 'response) \<Rightarrow> 'response \<Rightarrow> gate \<Rightarrow> 'response attempt" where
  "Guard_gate surface render h g =
     (if \<not> gt_guarded g then Returned h
      else (case Refusal surface g of
              Returned _ \<Rightarrow> Returned h
            | Refused te \<Rightarrow> Returned (render te)
            | Failed \<Rightarrow> Failed
            | Panics \<Rightarrow> Panics))"

lemma Percent_bounds: "0 \<le> Percent s" "Percent s \<le> 100"
  by (auto simp: Percent_def Let_def split: option.split)

lemma Percent_exact:
  assumes "gs_Progress s = Some p" "0 \<le> pg_Bytes p" "pg_Bytes p \<le> pg_TotalBytes p" "0 < pg_TotalBytes p" "fits64 (pg_Bytes p * 100)"
  shows "Percent s = pg_Bytes p * 100 div pg_TotalBytes p"
proof -
  have "pg_Bytes p * 100 div pg_TotalBytes p \<le> pg_TotalBytes p * 100 div pg_TotalBytes p"
    using assms by (intro zdiv_mono1) auto
  moreover have "0 \<le> pg_Bytes p * 100 div pg_TotalBytes p" using assms by (simp add: pos_imp_zdiv_nonneg_iff)
  ultimately show ?thesis using assms by (auto simp: Percent_def go_quot_def Let_def)
qed

subsection \<open>The running instance\<close>

text \<open>\<^verbatim>\<open>serve.go\<close> wires the engine's verdicts to \<^verbatim>\<open>Observe\<close>, and the gate's verification to the engine:
  the verdict of a background walk reaches the gate twice, once from the engine and once from
  \<open>run_report\<close>.\<close>

definition verdicts :: "time \<Rightarrow> Report attempt \<Rightarrow> gate \<Rightarrow> gate" where
  "verdicts now res g = (case res of Returned rep \<Rightarrow> Observe_verdict now (Some rep) g | _ \<Rightarrow> g)"

datatype gate_event =
  EvSetVerify
| EvStart time
| EvProgress Progress
| EvRun time engine gate_options
| EvRelease time
| EvReport time engine gate_options
| EvVerify time engine gate_options

text \<open>The three critical sections of a background run are three steps: \<open>background\<close> ends its verification with the engine's
  \<^verbatim>\<open>Observe\<close>, \<open>release\<close> clears \<^verbatim>\<open>running\<close>, and \<open>report\<close> is the run's own \<^verbatim>\<open>Observe\<close>, with whatever happened in between.\<close>

inductive gate_step :: "media_env \<Rightarrow> gate \<Rightarrow> gate_event \<Rightarrow> gate \<Rightarrow> bool" for e where
  set_verify: "gate_step e g EvSetVerify (SetVerify g)"
| start: "gate_step e g (EvStart now) (fst (Start now g))"
| progress: "gt_running g \<Longrightarrow> gate_step e g (EvProgress p) (onProgress p g)"
| background: "gt_running g \<Longrightarrow> gt_walked g = None \<Longrightarrow> eg_zone en = gt_zone g \<Longrightarrow>
    gate_step e g (EvRun now en opts) (verdicts now (VerifyMedia e en opts) g\<lparr>gt_walked := Some (en, opts)\<rparr>)"
| release: "gt_walked g = Some (en, opts) \<Longrightarrow>
    gate_step e g (EvRelease now) (run_release now (VerifyMedia e en opts) g\<lparr>gt_walked := None, gt_late := (en, opts) # gt_late g\<rparr>)"
| report: "(en, opts) \<in> set (gt_late g) \<Longrightarrow>
    gate_step e g (EvReport now en opts) (run_report now (VerifyMedia e en opts) g\<lparr>gt_late := remove1 (en, opts) (gt_late g)\<rparr>)"
| elsewhere: "eg_zone en = gt_zone g \<Longrightarrow>
    gate_step e g (EvVerify now en opts) (verdicts now (VerifyMedia e en opts) g)"

inductive_cases gate_stepE: "gate_step e g ev g'"

subsection \<open>The specification: the last verdict heard\<close>

definition heard :: "media_env \<Rightarrow> gate_event \<Rightarrow> Verdict option" where
  "heard e ev =
     (case ev of
        EvRun now en opts \<Rightarrow> (case VerifyMedia e en opts of Returned rep \<Rightarrow> Some (rt_Verdict rep) | _ \<Rightarrow> None)
      | EvReport now en opts \<Rightarrow> (case VerifyMedia e en opts of Returned rep \<Rightarrow> Some (rt_Verdict rep) | _ \<Rightarrow> None)
      | EvVerify now en opts \<Rightarrow> (case VerifyMedia e en opts of Returned rep \<Rightarrow> Some (rt_Verdict rep) | _ \<Rightarrow> None)
      | _ \<Rightarrow> None)"

definition hear :: "Verdict option \<Rightarrow> Verdict option \<Rightarrow> Verdict option" where
  "hear before v = (case v of None \<Rightarrow> before | Some x \<Rightarrow> Some x)"

definition gate_verdict :: "gate \<Rightarrow> Verdict option" where
  "gate_verdict g = map_option rt_Verdict (gt_report g)"

lemmas gate_ops = SetVerify_def Start_def onProgress_def run_release_def run_report_def verdicts_def Observe_verdict_def Let_def

lemma gate_step_fixed:
  assumes "gate_step e g ev g'"
  shows "(gt_guarded g', gt_zone g', gt_root g', gt_mediaID g') = (gt_guarded g, gt_zone g, gt_root g, gt_mediaID g)"
  using assms by (cases rule: gate_step.cases) (auto simp: gate_ops split: attempt.splits)

interpretation gate_spec: refinement "gate_step e" hear "heard e" gate_verdict for e
proof
  fix g ev g'
  assume "gate_step e g ev g'"
  then show "gate_verdict g' = hear (gate_verdict g) (heard e ev)"
    by (cases rule: gate_step.cases) (auto simp: gate_ops heard_def hear_def gate_verdict_def split: attempt.splits)
qed

lemma Serving_iff: "Serving g \<longleftrightarrow> \<not> gt_guarded g \<or> gate_verdict g = Some VerdictPushable"
  by (auto simp: Serving_def cleared_def gate_verdict_def split: option.splits)

lemma Open_gate_fields [simp]:
  "gt_guarded (Open_gate e there md root zone) \<longleftrightarrow> zone \<noteq> [] \<and> IsMedium root md"
  "gt_zone (Open_gate e there md root zone) = zone"
  "gt_root (Open_gate e there md root zone) = root"
  "gate_verdict (Open_gate e there md root zone) = None"
  by (simp_all add: Open_gate_def gate_verdict_def Let_def split: attempt.split sum.split)

lemma trace_split:
  "trace_of step s (pre @ ev # post) s' \<Longrightarrow> \<exists>h h'. trace_of step s pre h \<and> step h ev h'"
proof (induction post arbitrary: s' rule: rev_induct)
  case Nil
  then show ?case by (cases rule: trace_of.cases) auto
next
  case (snoc x post)
  from snoc.prems have "trace_of step s ((pre @ ev # post) @ [x]) s'" by simp
  then obtain h where "trace_of step s (pre @ ev # post) h" by (cases rule: trace_of.cases) auto
  with snoc.IH show ?case by blast
qed

lemma trace_guarded:
  assumes "trace_of (gate_step e) g evs g'"
  shows "gt_guarded g' = gt_guarded g" "gt_zone g' = gt_zone g"
  using trace_keeps [OF assms, of "\<lambda>g. (gt_guarded g, gt_zone g, gt_root g, gt_mediaID g)"] gate_step_fixed by auto

lemma foldl_hear:
  assumes "foldl hear v vs = Some x"
  shows "v = Some x \<and> list_all (\<lambda>y. y = None) vs \<or>
    (\<exists>pre post. vs = pre @ Some x # post \<and> list_all (\<lambda>y. y = None) post)"
  using assms
proof (induction vs rule: rev_induct)
  case (snoc y vs)
  show ?case
  proof (cases y)
    case None
    with snoc have "v = Some x \<and> list_all (\<lambda>y. y = None) vs \<or>
        (\<exists>pre post. vs = pre @ Some x # post \<and> list_all (\<lambda>y. y = None) post)" by (simp add: hear_def)
    then show ?thesis
    proof
      assume "\<exists>pre post. vs = pre @ Some x # post \<and> list_all (\<lambda>y. y = None) post"
      then obtain pre post where "vs = pre @ Some x # post" "list_all (\<lambda>y. y = None) post" by blast
      with None have "vs @ [y] = pre @ Some x # (post @ [None]) \<and> list_all (\<lambda>y. y = None) (post @ [None])" by simp
      then show ?thesis by blast
    qed (simp add: None)
  next
    case (Some z)
    with snoc.prems have "z = x" by (simp add: hear_def)
    with Some show ?thesis by (intro disjI2 exI [of _ vs] exI [of _ "[]"]) simp
  qed
qed simp

subsection \<open>A pushable medium is whole\<close>

lemma verifyRecipes_each:
  assumes "verifyRecipes e md rd opts rs c = (c', vs)" "cache_ok e md c" "\<forall>r \<in> set rs. plain_recipe r"
  shows "r \<in> set rs \<Longrightarrow> \<exists>v c1. v \<in> set vs \<and> same_recipe r v \<and> cache_ok e md c1 \<and> ck_inventory c1 = ck_inventory c
    \<and> (vd_Pushable v \<longrightarrow> wk_reason (delivery e md r (new_walk c1 r)) = None \<and> trusted e rd (vo_Trust opts) r v)"
  using assms
proof (induction rs arbitrary: c c' vs)
  case (Cons q rs)
  obtain c1 v1 where one: "verify_one e md rd opts q c = (c1, v1)" by fastforce
  obtain c2 vs2 where rest: "verifyRecipes e md rd opts rs c1 = (c2, vs2)" by fastforce
  have vs: "vs = v1 # vs2" using Cons.prems(2) one rest by simp
  have p: "plain_recipe q" using Cons.prems by simp
  note ok = verify_one_ok [OF one Cons.prems(3) p]
  show ?case
  proof (cases "r = q")
    case True
    then show ?thesis using ok Cons.prems vs by auto
  next
    case False
    then have "r \<in> set rs" using Cons.prems(1) by simp
    from Cons.IH [OF this rest ok(1)] Cons.prems(4) vs ok(2) show ?thesis by auto
  qed
qed simp

lemma finish_pushable:
  "rt_Verdict (finish_report rep) = VerdictPushable \<longleftrightarrow> \<not> standing (rt_Blocks rep) \<and> list_all vd_Pushable (rt_Recipes rep)"
  by (auto simp: finish_report_def Let_def list_all_iff filter_empty_conv)

lemma readManifest_blocks: "readManifest e md = Inl b \<Longrightarrow> \<not> bl_Overridden b"
  by (auto simp: readManifest_def unreadable_def block_def Let_def split: mfile.splits option.splits sum.splits if_splits)

lemma media_whole:
  assumes "Verify_media e md rd opts = Some rep" and "rt_Verdict rep = VerdictPushable"
  obtains m where "readManifest e md = Inr m"
    "mm_Zone m = vo_Zone opts \<or> vo_AllowZoneMismatch opts"
    "\<And>r. r \<in> set (mm_Recipes m) \<Longrightarrow> plain_recipe r \<and> (\<exists>v c1. v \<in> set (rt_Recipes rep) \<and> same_recipe r v
       \<and> trusted e rd (vo_Trust opts) r v \<and> cache_ok e md c1 \<and> ck_inventory c1 = listed_files m
       \<and> wk_reason (delivery e md r (new_walk c1 r)) = None)"
proof -
  have md: "md_opens md" using assms(1) by (auto simp: Verify_media_def split: if_splits)
  obtain m where m: "readManifest e md = Inr m"
    using assms by (cases "readManifest e md")
      (auto simp: Verify_media_def finish_report_def empty_report_def standing_def Let_def split: if_splits dest: readManifest_blocks)
  obtain c1 blocks fresh where g: "globalBlocks e md m opts (new_checker m) = (c1, blocks, fresh)" by (metis prod_cases3)
  note gb = globalBlocks_ok [OF g new_checker_ok]
  have ns: "\<not> standing blocks"
    using assms md m g by (auto simp: Verify_media_def finish_report_def Let_def split: if_splits)
  obtain c2 vs where v: "verifyRecipes e md rd opts (mm_Recipes m) c1 = (c2, vs)" by fastforce
  have rep: "\<exists>rep'. rep = finish_report rep' \<and> rt_Recipes rep' = vs"
    using assms(1) md m g ns v by (auto simp: Verify_media_def Let_def split: prod.splits)
  then have push: "list_all vd_Pushable vs" "rt_Recipes rep = vs" using assms(2) finish_pushable by auto
  note plain = readManifest_ok(3) [OF m]
  have "plain_recipe r \<and> (\<exists>v c1. v \<in> set (rt_Recipes rep) \<and> same_recipe r v \<and> trusted e rd (vo_Trust opts) r v
     \<and> cache_ok e md c1 \<and> ck_inventory c1 = listed_files m \<and> wk_reason (delivery e md r (new_walk c1 r)) = None)"
    if "r \<in> set (mm_Recipes m)" for r
    using verifyRecipes_each [OF v gb(1) _ that] plain that push gb(2) by (fastforce simp: list_all_iff listed_files_def)
  with that [OF m gb(4) [OF ns]] show ?thesis by blast
qed


subsection \<open>A blocked medium names its reason\<close>

lemma decide_reason: "\<not> vd_Pushable (decide e rd r trust v) \<Longrightarrow> vd_Reason (decide e rd r trust v) \<noteq> None"
  by (auto simp: decide_def Let_def split: option.splits sum.splits if_splits)

lemma verify_one_reason: "verify_one e md rd opts r c = (c', v) \<Longrightarrow> \<not> vd_Pushable v \<Longrightarrow> vd_Reason v \<noteq> None"
  using decide_reason by (fastforce simp: verify_one_def Let_def split: option.splits prod.splits)

lemma verifyRecipes_reason:
  "verifyRecipes e md rd opts rs c = (c', vs) \<Longrightarrow> v \<in> set vs \<Longrightarrow> \<not> vd_Pushable v \<Longrightarrow> vd_Reason v \<noteq> None"
proof (induction rs arbitrary: c c' vs)
  case (Cons r rs)
  obtain c1 v1 where one: "verify_one e md rd opts r c = (c1, v1)" by fastforce
  obtain c2 vs2 where rest: "verifyRecipes e md rd opts rs c1 = (c2, vs2)" by fastforce
  have "vs = v1 # vs2" using Cons.prems(1) one rest by simp
  then show ?case using Cons.IH [OF rest] verify_one_reason [OF one] Cons.prems by auto
qed simp

lemma Verify_media_reason:
  assumes "Verify_media e md rd opts = Some rep"
  obtains rep' where "rep = finish_report rep'" "\<And>v. v \<in> set (rt_Recipes rep') \<Longrightarrow> \<not> vd_Pushable v \<Longrightarrow> vd_Reason v \<noteq> None"
proof -
  have "\<exists>rep'. rep = finish_report rep' \<and> (\<forall>v \<in> set (rt_Recipes rep'). \<not> vd_Pushable v \<longrightarrow> vd_Reason v \<noteq> None)"
    using assms verifyRecipes_reason
    by (fastforce simp: Verify_media_def empty_report_def Let_def split: if_splits sum.splits prod.splits)
  then show ?thesis using that by blast
qed

text \<open>A code and parameters the report itself gives: of a standing block, or of a recipe's reason.\<close>

definition explains :: "Report \<Rightarrow> code \<Rightarrow> params \<Rightarrow> bool" where
  "explains rep c ps \<longleftrightarrow>
     (\<exists>b \<in> set (rt_Blocks rep). \<not> bl_Overridden b \<and> c = bl_Code b \<and> ps = bl_Params b) \<or>
     (\<exists>v \<in> set (rt_Recipes rep). \<exists>r. vd_Reason v = Some r \<and> c = re_Code r \<and> ps = re_Params r)"

lemma blockingError_explains:
  assumes "standing (rt_Blocks rep) \<or> list_ex (\<lambda>v. vd_Reason v \<noteq> None) (rt_Recipes rep)"
  shows "\<exists>c ps. explains rep c ps \<and> blockingError rep = errorOf c ps"
proof (cases "find (\<lambda>b. \<not> bl_Overridden b) (rt_Blocks rep)")
  case None
  then have "\<not> standing (rt_Blocks rep)" by (auto simp: standing_def find_None_iff list_ex_iff)
  with assms have "find (\<lambda>v. vd_Reason v \<noteq> None) (rt_Recipes rep) \<noteq> None" by (auto simp: find_None_iff list_ex_iff)
  then obtain v where v: "find (\<lambda>v. vd_Reason v \<noteq> None) (rt_Recipes rep) = Some v" by blast
  then obtain r where "vd_Reason v = Some r" "v \<in> set (rt_Recipes rep)" by (auto simp: find_Some_iff)
  with None v have "explains rep (re_Code r) (re_Params r)" "blockingError rep = errorOf (re_Code r) (re_Params r)"
    by (auto simp: blockingError_def explains_def)
  then show ?thesis by blast
next
  case (Some b)
  then have "b \<in> set (rt_Blocks rep)" "\<not> bl_Overridden b" by (auto simp: find_Some_iff)
  with Some show ?thesis by (auto simp: blockingError_def explains_def)
qed

subsection \<open>What a serving gate rests on\<close>

text \<open>A recipe the medium delivers whole, and one the destination's policy admits.\<close>

definition whole :: "media_env \<Rightarrow> medium \<Rightarrow> Manifest \<Rightarrow> Recipe \<Rightarrow> bool" where
  "whole e md m r \<longleftrightarrow> intact e md (listed_files m) (rc_ArtifactRepo r) (rc_Digest r)
     \<and> (\<forall>repo d. delivers e md r repo d \<longrightarrow>
          intact e md (listed_files m) repo d \<or> absent md d \<and> (\<exists>q. delivers e md r repo q \<and> lists_child e md q d))"

definition admitted :: "media_env \<Rightarrow> engine \<Rightarrow> Recipe \<Rightarrow> bool" where
  "admitted e en r \<longleftrightarrow> (\<exists>p. eg_trust en = Some p \<and>
     ((\<exists>name. relaxed_scope p name (nominal_of r)) \<or>
      (\<exists>k. policy_key p k \<and> signed_by (me_codec e) (manifestSource (eg_reader en) (rc_ArtifactRepo r)) (rc_ArtifactRepo r) (rc_Digest r) k)))"

lemma trusted_admitted:
  assumes "trusted e (eg_reader en) (Some (MediaTrust_Decide (eg_trust en))) r v"
  shows "admitted e en r"
proof (cases "vd_Unsigned v")
  case True
  with assms have "dc_AllowUnsigned (MediaTrust_Decide (eg_trust en) (nominal_of r))" by (simp add: trusted_def)
  from media_trust.allow_declared [OF this] show ?thesis by (auto simp: admitted_def)
next
  case False
  with assms obtain keys where k: "dc_Keys (MediaTrust_Decide (eg_trust en) (nominal_of r)) = Some keys"
    "Verify (me_codec e) (manifestSource (eg_reader en) (rc_ArtifactRepo r)) (rc_ArtifactRepo r) (rc_Digest r) (Some keys) = Inr (vd_KeyFingerprint v)"
    by (auto simp: trusted_def)
  from Verify_signed [OF k(2)] obtain key where "key \<in> set keys"
    "signed_by (me_codec e) (manifestSource (eg_reader en) (rc_ArtifactRepo r)) (rc_ArtifactRepo r) (rc_Digest r) key" by auto
  with media_trust.keys_configured [OF k(1)] show ?thesis unfolding admitted_def by blast
qed

lemma pushable_whole:
  assumes "VerifyMedia e en opts = Returned rep" and "rt_Verdict rep = VerdictPushable"
  obtains m where "readManifest e (eg_store en) = Inr m" "mm_Zone m = eg_zone en \<or> go_AllowZoneMismatch opts"
    "list_all (\<lambda>r. whole e (eg_store en) m r \<and> admitted e en r) (mm_Recipes m)"
proof -
  have v: "Verify_media e (eg_store en) (eg_reader en) (verify_options en opts) = Some rep"
    using assms(1) by (simp add: VerifyMedia_def split: if_splits option.splits)
  from media_whole [OF v assms(2)] obtain m where m: "readManifest e (eg_store en) = Inr m"
    "mm_Zone m = vo_Zone (verify_options en opts) \<or> vo_AllowZoneMismatch (verify_options en opts)"
    and rs: "\<And>r. r \<in> set (mm_Recipes m) \<Longrightarrow> plain_recipe r \<and> (\<exists>v c1. v \<in> set (rt_Recipes rep) \<and> same_recipe r v
       \<and> trusted e (eg_reader en) (vo_Trust (verify_options en opts)) r v \<and> cache_ok e (eg_store en) c1 \<and> ck_inventory c1 = listed_files m
       \<and> wk_reason (delivery e (eg_store en) r (new_walk c1 r)) = None)" by blast
  have "whole e (eg_store en) m r \<and> admitted e en r" if r: "r \<in> set (mm_Recipes m)" for r
  proof -
    from rs [OF r] obtain v c1 where c: "plain_recipe r" "cache_ok e (eg_store en) c1" "ck_inventory c1 = listed_files m"
      "wk_reason (delivery e (eg_store en) r (new_walk c1 r)) = None"
      and t: "trusted e (eg_reader en) (vo_Trust (verify_options en opts)) r v" by blast
    have "whole e (eg_store en) m r"
      using delivery_complete [OF c(2,1,4)] unfolding c(3) whole_def by blast
    moreover have "admitted e en r" using t trusted_admitted by (simp add: verify_options_def)
    ultimately show ?thesis by blast
  qed
  with that [OF m(1)] m(2) show ?thesis by (simp add: list_all_iff verify_options_def)
qed

text \<open>The events that perform a verification, and those at which a verdict reaches the gate.\<close>

definition verifies :: "gate_event \<Rightarrow> engine \<Rightarrow> gate_options \<Rightarrow> bool" where
  "verifies ev en opts \<longleftrightarrow> (\<exists>now. ev = EvRun now en opts \<or> ev = EvVerify now en opts)"

definition tells :: "gate_event \<Rightarrow> engine \<Rightarrow> gate_options \<Rightarrow> bool" where
  "tells ev en opts \<longleftrightarrow> verifies ev en opts \<or> (\<exists>now. ev = EvReport now en opts)"

lemma heard_Some:
  assumes "heard e ev = Some v"
  obtains en opts rep where "tells ev en opts" "VerifyMedia e en opts = Returned rep" "rt_Verdict rep = v"
  using assms by (auto simp: heard_def tells_def verifies_def split: gate_event.splits attempt.splits)

lemma trace_zone:
  assumes "trace_of (gate_step e) g evs g'" "ev \<in> set evs" "verifies ev en opts"
  shows "eg_zone en = gt_zone g"
  using assms
proof (induction rule: trace_of.induct)
  case (trace_snoc es s' x s'')
  show ?case
  proof (cases "ev \<in> set es")
    case False
    with trace_snoc.prems have "ev = x" by simp
    with trace_snoc have "eg_zone en = gt_zone s'" by (auto simp: verifies_def elim: gate_stepE)
    with trace_guarded(2) [OF trace_snoc.hyps(1)] show ?thesis by simp
  qed (use trace_snoc in blast)
qed simp

text \<open>A run in flight was verified earlier in the trace.\<close>

lemma gate_step_flight:
  assumes "gate_step e g ev g'" "gt_walked g' = Some (en, opts) \<or> (en, opts) \<in> set (gt_late g')"
  shows "verifies ev en opts \<or> gt_walked g = Some (en, opts) \<or> (en, opts) \<in> set (gt_late g)"
  using assms
  by (cases rule: gate_step.cases)
    (auto simp: gate_ops verifies_def dest: notin_set_remove1 [rotated] split: attempt.splits if_splits)

lemma trace_flight:
  assumes "trace_of (gate_step e) (Open_gate e there md root zone) evs g" "gt_walked g = Some (en, opts) \<or> (en, opts) \<in> set (gt_late g)"
  shows "\<exists>ev \<in> set evs. verifies ev en opts"
  using assms
proof (induction evs arbitrary: g rule: rev_induct)
  case Nil
  then show ?case by (auto elim!: trace_of.cases simp: Open_gate_def Let_def split: attempt.splits sum.splits if_splits)
next
  case (snoc ev evs)
  from snoc.prems(1) obtain h where h: "trace_of (gate_step e) (Open_gate e there md root zone) evs h" "gate_step e h ev g"
    by (auto elim: trace_of.cases)
  from gate_step_flight [OF h(2) snoc.prems(2)] snoc.IH [OF h(1)] show ?case by auto
qed

lemma told_verified:
  assumes "trace_of (gate_step e) (Open_gate e there md root zone) (pre @ ev # post) g" "tells ev en opts"
  shows "\<exists>ev' \<in> set (pre @ [ev]). verifies ev' en opts"
proof (cases "verifies ev en opts")
  case False
  obtain h h' where h: "trace_of (gate_step e) (Open_gate e there md root zone) pre h" "gate_step e h ev h'"
    using assms(1) by (auto dest: trace_split)
  have "(en, opts) \<in> set (gt_late h)" using h(2) False assms(2) by (auto simp: tells_def elim: gate_stepE)
  with trace_flight [OF h(1)] show ?thesis by auto
qed simp

subsection \<open>A medium nobody listed\<close>

text \<open>No recipe, one listed file (the recipe graph), and a blob nothing lists.\<close>

definition bare_manifest :: Manifest where
  "bare_manifest = (demo_manifest [])\<lparr>mm_Recipes := [],
     mm_Inventory := [\<lparr>fi_Path = recipesFile, fi_Size = 1, fi_Digest = zero_dgst\<rparr>]\<rparr>"

definition bare_env :: media_env where
  "bare_env = (demo_env [])\<lparr>me_manifest := \<lambda>_. Some bare_manifest\<rparr>"

definition planted :: string where
  "planted = blobPath demo_hex"

definition bare_medium :: medium where
  "bare_medium = \<lparr>md_opens = True,
     md_file = \<lambda>p. if p = ManifestPath then Content ''M'' else if p = recipesFile \<or> p = planted then Content ''m'' else Absent,
     md_tree = \<lambda>_. None, md_walk = \<lambda>sub. (if sub = ''docker/registry/v2'' then [planted] else [], None), md_cancel = \<lambda>_. None\<rparr>"

definition lab_engine :: "medium \<Rightarrow> engine" where
  "lab_engine md = \<lparr>eg_zone = ''z'', eg_trust = Some lab_policy, eg_imports = None, eg_store = md, eg_reader = demo_reader\<rparr>"

definition no_waivers :: gate_options where
  "no_waivers = \<lparr>go_AllowZoneMismatch = False, go_AllowStale = False\<rparr>"

lemma bare_readManifest: "readManifest bare_env bare_medium = Inr bare_manifest"
proof -
  have "path_check e (checkInventoryPath recipesFile) = Inr ()" for e
    unfolding path_check_ok by code_simp
  moreover have "path_check e (digestHex zero_dgst) = Inr ()" for e by (simp add: path_check_ok zero_digest)
  ultimately have "validate e bare_manifest = Inr ()" for e
    by (simp add: validate_def bare_manifest_def)
  then show ?thesis
    by (simp add: readManifest_def bare_medium_def bare_env_def bare_manifest_def demo_manifest_def Let_def)
qed


lemma bare_verified:
  "\<exists>rep. VerifyMedia bare_env (lab_engine bare_medium) no_waivers = Returned rep \<and> rt_Verdict rep = VerdictPushable
     \<and> rt_Recipes rep = [] \<and> map fd_Path (rt_Findings rep) = [planted] \<and> map fd_Code (rt_Findings rep) = [CodeMediaUncovered]"
proof -
  have hb: "hexOfBlobPath recipesFile = None" by code_simp
  let ?o = "verify_options (lab_engine bare_medium) no_waivers"
  have nr: "planted \<noteq> recipesFile" "recipesFile \<noteq> planted" "planted \<noteq> ManifestPath"
    by (simp_all add: planted_def blobPath_def)
  obtain c1 where c1: "check bare_env bare_medium recipesFile [] (new_checker bare_manifest) = (c1, None)"
    "ck_inventory c1 = [(recipesFile, \<lparr>fi_Path = recipesFile, fi_Size = 1, fi_Digest = zero_dgst\<rparr>)]"
    using hb nr by (simp add: check_def checkUncached_def new_checker_def bare_manifest_def bare_medium_def bare_env_def demo_env_def
        zero_hex_sum zero_dgst_def withRecipe_def Let_def)
  then have g: "globalBlocks bare_env bare_medium bare_manifest ?o (new_checker bare_manifest) = (c1, [], None)"
    by (simp add: globalBlocks_def verify_options_def lab_engine_def bare_manifest_def demo_manifest_def no_waivers_def Let_def)
  have "covered planted"
    unfolding covered_def planted_def blobPath_def coveredRoots_def demo_hex_def by (simp add: path_base_def)
  then have u: "uncovered bare_medium c1 = [planted]"
    using c1(2) nr by (simp add: uncovered_def bare_medium_def coveredRoots_def)
  have f: "findings bare_env bare_medium bare_manifest c1
      = (c1, [\<lparr>fd_Code = CodeMediaUncovered, fd_Path = planted, fd_Params = [(''path'', planted)]\<rparr>])"
    using u by (simp add: findings_def bare_manifest_def Let_def)
  show ?thesis
    using g f bare_readManifest
    by (simp add: VerifyMedia_def lab_engine_def Verify_media_def bare_medium_def standing_def finish_report_def
        bare_manifest_def Let_def)
qed


text \<open>The screen's journey: the verification is installed, started, and its walk ends.\<close>

definition lab_gate :: "media_env \<Rightarrow> medium \<Rightarrow> gate" where
  "lab_gate e md = Open_gate e True md ''/m'' ''z''"

definition lab_events :: "medium \<Rightarrow> gate_event list" where
  "lab_events md = [EvSetVerify, EvStart 1, EvRun 2 (lab_engine md) no_waivers, EvRelease 3, EvReport 4 (lab_engine md) no_waivers]"

lemma lab_trace:
  obtains g where "trace_of (gate_step e) (lab_gate e md) (lab_events md) g"
    "\<And>rep. VerifyMedia e (lab_engine md) no_waivers = Returned rep \<Longrightarrow> gt_report g = Some rep"
proof -
  let ?g1 = "SetVerify (lab_gate e md)" and ?r = "VerifyMedia e (lab_engine md) no_waivers" and ?en = "lab_engine md"
  let ?g2 = "fst (Start 1 ?g1)"
  let ?g3 = "verdicts 2 ?r ?g2\<lparr>gt_walked := Some (?en, no_waivers)\<rparr>"
  let ?g4 = "run_release 3 ?r ?g3\<lparr>gt_walked := None, gt_late := (?en, no_waivers) # gt_late ?g3\<rparr>"
  have "gt_zone (lab_gate e md) = ''z''" by (simp add: lab_gate_def)
  moreover have "\<not> gt_running (lab_gate e md)" "gt_walked (lab_gate e md) = None"
    by (simp_all add: lab_gate_def Open_gate_def Let_def split: attempt.split sum.split)
  ultimately have r: "gt_running ?g2" "gt_walked ?g2 = None" "eg_zone ?en = gt_zone ?g2"
    by (simp_all add: SetVerify_def Start_def lab_engine_def)
  have w: "gt_walked ?g3 = Some (?en, no_waivers)" by simp
  have l: "(?en, no_waivers) \<in> set (gt_late ?g4)" by simp
  let ?step = "gate_step e"
  note snoc = trace_snoc [where step = ?step]
  note t3 = snoc [OF snoc [OF snoc [OF trace_nil [where step = ?step] set_verify] start] background [OF r, where now = 2 and opts = no_waivers]]
  from snoc [OF snoc [OF t3 release [OF w, where now = 3]] report [OF l, where now = 4]]
  have "trace_of (gate_step e) (lab_gate e md) (lab_events md) (run_report 4 ?r ?g4\<lparr>gt_late := remove1 (?en, no_waivers) (gt_late ?g4)\<rparr>)"
    by (simp add: lab_events_def)
  then show ?thesis by (rule that) (simp add: run_report_def Observe_verdict_def)
qed

lemma lab_guarded: "md_file md ManifestPath = Content bs \<Longrightarrow> IsMedium ''/m'' md"
  by (simp add: IsMedium_def)

lemma lab_serving:
  assumes "VerifyMedia e (lab_engine md) no_waivers = Returned rep" "rt_Verdict rep = VerdictPushable"
    and "trace_of (gate_step e) (lab_gate e md) (lab_events md) g"
  shows "Serving g"
  using gate_spec.trace_refines [OF assms(3)] assms(1,2)
  by (simp add: Serving_iff lab_gate_def lab_events_def heard_def hear_def)

lemma demo_engine_verified:
  obtains rep where "VerifyMedia (demo_env []) (lab_engine demo_medium) no_waivers = Returned rep" "rt_Verdict rep = VerdictPushable"
proof -
  let ?t = "MediaTrust_Decide (Some lab_policy)"
  have "matchPattern ''h.io/lab/*'' ''h.io/lab/x''" by code_simp
  then have "dc_AllowUnsigned (?t ''h.io/lab/x'')" "dc_Keys (?t ''h.io/lab/x'') = None"
    by (simp_all add: MediaTrust_Decide_def Decide_def lab_policy_def)
  from demo_verified [where trust = ?t and ings = "[]", OF _ this] that show ?thesis
    by (auto simp: VerifyMedia_def lab_engine_def verify_options_def demo_options_def no_waivers_def)
qed

subsection \<open>Main results\<close>

text \<open>C13: The gate is a refinement of ``the last verdict heard''. Whatever the screen, the background
  runs and imports do, in whatever order, a gate built at startup serves exactly when the instance
  has no zone, its store is no medium, or the last verdict that was observed is that the medium is
  pushable. Starting, progress, and runs that fail without a verdict change nothing.\<close>

theorem gate_refines_last_verdict:
  assumes "trace_of (gate_step e) (Open_gate e there md root zone) evs g"
  shows "Serving g \<longleftrightarrow> zone = [] \<or> \<not> IsMedium root md \<or> foldl hear None (map (heard e) evs) = Some VerdictPushable"
  using gate_spec.trace_refines [OF assms] trace_guarded(1) [OF assms] by (simp add: Serving_iff)

theorem gate_refines_last_verdict_witness:
  "\<exists>g. trace_of (gate_step bare_env) (lab_gate bare_env bare_medium) (lab_events bare_medium) g \<and> Serving g"
proof -
  obtain rep where v: "VerifyMedia bare_env (lab_engine bare_medium) no_waivers = Returned rep" "rt_Verdict rep = VerdictPushable"
    using bare_verified by blast
  obtain g where g: "trace_of (gate_step bare_env) (lab_gate bare_env bare_medium) (lab_events bare_medium) g" by (rule lab_trace)
  from gate_refines_last_verdict [OF g [unfolded lab_gate_def]] v have "Serving g"
    by (simp add: lab_events_def heard_def hear_def)
  with g show ?thesis by blast
qed

text \<open>C12: A transported medium is served only after this instance has verified it. If a guarded gate
  serves, the last verdict it observed is pushable, and a verification in its trace, with the
  instance's own zone, returned it, at that moment or earlier (a background run observes its report
  a second time when it ends). Every recipe of the manifest that verification read is admitted by
  the instance's own trust policy, and whole: its artifact and all that it delivers are on the disk,
  covered and intact, except children that an index lists and the disk does not have, which pass
  as unselected platforms even where an ingredient asks for them.\<close>

theorem gate_serves_verified:
  assumes "trace_of (gate_step e) (Open_gate e there md root zone) evs g" and "zone \<noteq> []" and "IsMedium root md" and "Serving g"
  shows "\<exists>pre ev post en opts rep m. evs = pre @ ev # post \<and> tells ev en opts \<and> (\<exists>ev' \<in> set (pre @ [ev]). verifies ev' en opts) \<and> eg_zone en = zone
    \<and> VerifyMedia e en opts = Returned rep \<and> rt_Verdict rep = VerdictPushable
    \<and> list_all (\<lambda>x. heard e x = None) post
    \<and> readManifest e (eg_store en) = Inr m \<and> (mm_Zone m = zone \<or> go_AllowZoneMismatch opts)
    \<and> list_all (\<lambda>r. whole e (eg_store en) m r \<and> admitted e en r) (mm_Recipes m)"
proof -
  have "gate_verdict g = Some VerdictPushable"
    using assms trace_guarded(1) [OF assms(1)] by (simp add: Serving_iff)
  then have "foldl hear None (map (heard e) evs) = Some VerdictPushable"
    using gate_spec.trace_refines [OF assms(1)] by simp
  from foldl_hear [OF this] obtain pre ev post where evs: "evs = pre @ ev # post" "heard e ev = Some VerdictPushable"
    "list_all (\<lambda>x. heard e x = None) post"
    by (auto simp: map_eq_append_conv list_all_iff)
  from heard_Some [OF evs(2)] obtain en opts rep where v: "tells ev en opts" "VerifyMedia e en opts = Returned rep"
    "rt_Verdict rep = VerdictPushable" by blast
  from told_verified [OF assms(1) [unfolded evs(1)] v(1)] obtain ev' where ev': "ev' \<in> set (pre @ [ev])" "verifies ev' en opts" by blast
  then have "ev' \<in> set evs" using evs(1) by auto
  then have zone: "eg_zone en = zone" using trace_zone [OF assms(1) _ ev'(2)] by simp
  from pushable_whole [OF v(2,3)] obtain m where m: "readManifest e (eg_store en) = Inr m"
    "mm_Zone m = zone \<or> go_AllowZoneMismatch opts" "list_all (\<lambda>r. whole e (eg_store en) m r \<and> admitted e en r) (mm_Recipes m)"
    unfolding zone by blast
  show ?thesis
    by (intro exI [of _ pre] exI [of _ ev] exI [of _ post] exI [of _ en] exI [of _ opts] exI [of _ rep] exI [of _ m])
      (use evs v ev' zone m in blast)
qed

theorem gate_serves_verified_witness:
  "\<exists>en m r. eg_zone en = ''z'' \<and> eg_store en = demo_medium \<and> readManifest (demo_env []) demo_medium = Inr m
     \<and> r \<in> set (mm_Recipes m) \<and> whole (demo_env []) demo_medium m r \<and> admitted (demo_env []) en r"
proof -
  obtain rep where v: "VerifyMedia (demo_env []) (lab_engine demo_medium) no_waivers = Returned rep" "rt_Verdict rep = VerdictPushable"
    by (rule demo_engine_verified)
  obtain g where g: "trace_of (gate_step (demo_env [])) (lab_gate (demo_env []) demo_medium) (lab_events demo_medium) g" by (rule lab_trace)
  have med: "IsMedium ''/m'' demo_medium" by (rule lab_guarded [where bs = "''M''"]) (simp add: demo_medium_def)
  have z: "''z'' \<noteq> []" by simp
  from gate_serves_verified [OF g [unfolded lab_gate_def] z med lab_serving [OF v g]]
  obtain pre ev post en opts m where e: "lab_events demo_medium = pre @ ev # post" "tells ev en opts" "eg_zone en = ''z''"
    "readManifest (demo_env []) (eg_store en) = Inr m" "list_all (\<lambda>r. whole (demo_env []) (eg_store en) m r \<and> admitted (demo_env []) en r) (mm_Recipes m)"
    by blast
  have "ev \<in> set (lab_events demo_medium)" using e(1) by simp
  then have "en = lab_engine demo_medium" using e(2) by (auto simp: lab_events_def verifies_def tells_def)
  then have st: "eg_store en = demo_medium" by (simp add: lab_engine_def)
  with e(4) demo_readManifest [of "[]"] have "m = demo_manifest []" by simp
  then have "demo_recipe [] \<in> set (mm_Recipes m)" by (simp add: demo_manifest_def)
  with e st show ?thesis by (auto simp: list_all_iff)
qed

text \<open>A request reaches the registry or the file handler exactly when the gate serves; otherwise it
  gets a refusal that says whether the medium was never verified or was verified and found
  wanting. No request makes the gate panic.\<close>

theorem Guard_gate_exact:
  "Guard_gate surface render h g = Returned (if Serving g then h else render
     \<lparr>te_code = (if gt_report g = None then CodeMediaUnverified else CodeMediaNotCleared),
      te_params = [(''surface'', surface), (''media'', if gt_mediaID g = [] then gt_root g else gt_mediaID g)]
        @ (case gt_report g of None \<Rightarrow> [] | Some rep \<Rightarrow> [(''verdict'', verdict_str (rt_Verdict rep))]) @ [(''screen'', Screen)],
      te_correlation = [], te_cause = None\<rparr>)"
  by (cases "gt_report g") (auto simp: Guard_gate_def Refusal_def Serving_def cleared_def Let_def)

text \<open>C40: A run's own report is late. Between the end of a run and its second observation another verification may have
  found the medium blocked, or be of a later run; whatever it found, the earlier report replaces its verdict,
  and the gate serves.\<close>

theorem late_report_reopens:
  assumes "trace_of (gate_step e) (Open_gate e there md root zone) evs g" "(en, opts) \<in> set (gt_late g)"
    and "VerifyMedia e en opts = Returned rep" "rt_Verdict rep = VerdictPushable" "eg_zone en' = zone"
  shows "\<exists>g1 g2. trace_of (gate_step e) (Open_gate e there md root zone) (evs @ [EvVerify t en' opts', EvReport t' en opts]) g2
    \<and> gate_step e g (EvVerify t en' opts') g1 \<and> (\<forall>rep'. VerifyMedia e en' opts' = Returned rep' \<longrightarrow> gt_report g1 = Some rep') \<and> Serving g2"
proof -
  let ?g1 = "verdicts t (VerifyMedia e en' opts') g"
  have "eg_zone en' = gt_zone g" using assms(5) trace_guarded(2) [OF assms(1)] by simp
  then have s1: "gate_step e g (EvVerify t en' opts') ?g1" by (rule elsewhere)
  have late: "(en, opts) \<in> set (gt_late ?g1)" using assms(2) by (simp add: verdicts_def Observe_verdict_def split: attempt.split)
  let ?g2 = "run_report t' (VerifyMedia e en opts) ?g1\<lparr>gt_late := remove1 (en, opts) (gt_late ?g1)\<rparr>"
  have "trace_of (gate_step e) (Open_gate e there md root zone) ((evs @ [EvVerify t en' opts']) @ [EvReport t' en opts]) ?g2"
    by (rule trace_snoc [OF trace_snoc [OF assms(1) s1] report [OF late]])
  moreover have "Serving ?g2" using assms(3,4) by (simp add: Serving_def cleared_def run_report_def Observe_verdict_def)
  ultimately show ?thesis using s1 by (intro exI [of _ ?g1] exI [of _ ?g2]) (auto simp: verdicts_def Observe_verdict_def)
qed

text \<open>The medium as it is when its manifest has gone.\<close>

definition gone_medium :: medium where
  "gone_medium = bare_medium\<lparr>md_file := \<lambda>_. Absent\<rparr>"

lemma gone_blocked: "\<exists>rep. VerifyMedia bare_env (lab_engine gone_medium) no_waivers = Returned rep \<and> rt_Verdict rep = VerdictBlocked"
  by (simp add: VerifyMedia_def lab_engine_def Verify_media_def gone_medium_def bare_medium_def readManifest_def finish_report_def empty_report_def
      standing_def block_def Let_def)

theorem late_report_reopens_witness:
  "\<exists>evs g1 g2. trace_of (gate_step bare_env) (lab_gate bare_env bare_medium) (evs @ [EvVerify 4 (lab_engine gone_medium) no_waivers,
       EvReport 5 (lab_engine bare_medium) no_waivers]) g2
     \<and> \<not> Serving g1 \<and> map_option rt_Verdict (gt_report g1) = Some VerdictBlocked \<and> Serving g2"
proof -
  let ?evs = "[EvSetVerify, EvStart 1, EvRun 2 (lab_engine bare_medium) no_waivers, EvRelease 3]"
  obtain g0 where "trace_of (gate_step bare_env) (lab_gate bare_env bare_medium) (lab_events bare_medium) g0" by (rule lab_trace)
  then obtain g h where g: "trace_of (gate_step bare_env) (lab_gate bare_env bare_medium) ?evs g"
    "gate_step bare_env g (EvReport 4 (lab_engine bare_medium) no_waivers) h"
    using trace_split [of "gate_step bare_env" _ ?evs _ "[]"] unfolding lab_events_def append.simps by blast
  have late: "(lab_engine bare_medium, no_waivers) \<in> set (gt_late g)" using g(2) by (auto elim: gate_stepE)
  obtain rep where v: "VerifyMedia bare_env (lab_engine bare_medium) no_waivers = Returned rep" "rt_Verdict rep = VerdictPushable"
    using bare_verified by blast
  obtain rep' where b: "VerifyMedia bare_env (lab_engine gone_medium) no_waivers = Returned rep'" "rt_Verdict rep' = VerdictBlocked"
    using gone_blocked by blast
  have z: "eg_zone (lab_engine gone_medium) = ''z''" by (simp add: lab_engine_def)
  obtain g1 g2 where r: "trace_of (gate_step bare_env) (lab_gate bare_env bare_medium) (?evs @ [EvVerify 4 (lab_engine gone_medium) no_waivers,
       EvReport 5 (lab_engine bare_medium) no_waivers]) g2" "gate_step bare_env g (EvVerify 4 (lab_engine gone_medium) no_waivers) g1"
    "gt_report g1 = Some rep'" "Serving g2"
    using late_report_reopens [OF g(1) [unfolded lab_gate_def] late v z, of 4 no_waivers 5] b(1) unfolding lab_gate_def by blast
  have "IsMedium ''/m'' bare_medium" by (rule lab_guarded [where bs = "''M''"]) (simp add: bare_medium_def)
  then have "gt_guarded g1" using trace_guarded(1) [OF g(1)] gate_step_fixed [OF r(2)] by (simp add: lab_gate_def)
  then have "\<not> Serving g1" using r(3) b(2) by (simp add: Serving_def cleared_def)
  then show ?thesis using r b(2) by (intro exI [of _ ?evs] exI [of _ g1] exI [of _ g2]) simp
qed

text \<open>C37: The gate opens on content nobody verified. A medium that delivers no recipe, with a blob that
  is listed nowhere, verifies as pushable: the blob is only reported as uncovered. The gate then
  serves, and the surfaces it opens are those of the whole store.\<close>

theorem gate_serves_uncovered_content:
  "\<exists>g rep. trace_of (gate_step bare_env) (lab_gate bare_env bare_medium) (lab_events bare_medium) g \<and> gt_guarded g
     \<and> Serving g \<and> gt_report g = Some rep \<and> rt_Recipes rep = [] \<and> map fd_Path (rt_Findings rep) = [planted]
     \<and> md_file bare_medium planted = Content ''m''"
proof -
  obtain rep where v: "VerifyMedia bare_env (lab_engine bare_medium) no_waivers = Returned rep" "rt_Verdict rep = VerdictPushable"
    "rt_Recipes rep = []" "map fd_Path (rt_Findings rep) = [planted]"
    using bare_verified by (elim exE conjE) (rule that)
  obtain g where g: "trace_of (gate_step bare_env) (lab_gate bare_env bare_medium) (lab_events bare_medium) g"
    and rg: "gt_report g = Some rep" using lab_trace v(1) by metis
  have med: "IsMedium ''/m'' bare_medium" by (rule lab_guarded [where bs = "''M''"]) (simp add: bare_medium_def)
  have "gt_guarded g" using trace_guarded(1) [OF g] med by (simp add: lab_gate_def)
  moreover have "md_file bare_medium planted = Content ''m''"
    by (simp add: bare_medium_def planted_def blobPath_def)
  ultimately show ?thesis using g rg v(3,4) lab_serving [OF v(1,2) g] by (intro exI [of _ g] exI [of _ rep]) simp
qed


text \<open>The answer a report turns into is never empty-handed. A report of \<open>VerifyMedia\<close> is no refusal
  exactly when nothing stands in the way and every recipe is cleared; otherwise the refusal
  carries the code of a standing block or of a recipe's own reason, and the fallback for a
  medium ``blocked without a reason'' is never taken.\<close>

theorem MediaRefusal_explains:
  assumes "VerifyMedia e en opts = Returned rep"
  shows "if \<not> standing (rt_Blocks rep) \<and> list_all vd_Pushable (rt_Recipes rep) then MediaRefusal rep = Returned ()
    else \<exists>c ps te. explains rep c ps \<and> MediaRefusal rep = Refused te \<and> te_code te = (if Lookup c = None then CodeInternal else c)
      \<and> te_cause te = None"
proof -
  have "Verify_media e (eg_store en) (eg_reader en) (verify_options en opts) = Some rep"
    using assms by (simp add: VerifyMedia_def split: if_splits option.splits)
  then obtain rep' where rep: "rep = finish_report rep'"
    and reason: "\<And>v. v \<in> set (rt_Recipes rep') \<Longrightarrow> \<not> vd_Pushable v \<Longrightarrow> vd_Reason v \<noteq> None"
    using Verify_media_reason by blast
  let ?fine = "\<not> standing (rt_Blocks rep) \<and> list_all vd_Pushable (rt_Recipes rep)"
  have fine: "rt_Verdict rep = VerdictPushable \<longleftrightarrow> ?fine" using finish_pushable [of rep'] rep by simp
  show ?thesis
  proof (cases ?fine)
    case False
    then have "standing (rt_Blocks rep) \<or> list_ex (\<lambda>v. vd_Reason v \<noteq> None) (rt_Recipes rep)"
      using reason rep by (auto simp: list_all_iff list_ex_iff)
    from blockingError_explains [OF this] obtain c ps where c: "explains rep c ps" "blockingError rep = errorOf c ps" by blast
    from errorOf_refused [of c ps] obtain te where te: "errorOf c ps = (Refused te :: unit attempt)" "te_cause te = None"
      "te_code te = (if Lookup c = None then CodeInternal else c)" by blast
    from False fine have "rt_Verdict rep \<noteq> VerdictPushable" by simp
    then have "MediaRefusal rep = Refused te" using c(2) te(1) by (simp add: MediaRefusal_def)
    with False c(1) te(2,3) show ?thesis by auto
  qed (use fine in \<open>simp add: MediaRefusal_def\<close>)
qed

theorem MediaRefusal_explains_witness:
  "\<exists>rep. VerifyMedia bare_env (lab_engine bare_medium) no_waivers = Returned rep
     \<and> (\<not> standing (rt_Blocks rep) \<and> list_all vd_Pushable (rt_Recipes rep) \<and> MediaRefusal rep = Returned ()
        \<or> (\<exists>te. MediaRefusal rep = Refused te \<and> te_cause te = None))"
proof -
  obtain rep where "VerifyMedia bare_env (lab_engine bare_medium) no_waivers = Returned rep" using bare_verified by blast
  with MediaRefusal_explains [OF this] show ?thesis by (auto split: if_splits)
qed

end
