(* ===== verification/Auth_Password.thy ===== *)
theory Auth_Password
  imports Prelude
begin

text \<open>
  Password hashes in PHC string form: \<^verbatim>\<open>auth/password.go\<close>, with the parts of
  \<^verbatim>\<open>encoding/base64\<close> and \<^verbatim>\<open>fmt.Sscanf\<close> it uses. The key derivation
  \<^verbatim>\<open>argon2.IDKey\<close> is a parameter; it returns as many bytes as asked for and panics on
  zero rounds or zero threads.
\<close>

type_synonym bytes = string

subsection \<open>Base 64\<close>

definition b64_digit :: "nat \<Rightarrow> char" where
  "b64_digit n = char_of (if n < 26 then 65 + n else if n < 52 then 71 + n else if n < 62 then n - 4
     else if n = 62 then 43 else 47)"

definition b64_value :: "char \<Rightarrow> nat option" where
  "b64_value c = (let n = of_char c in
     if 65 \<le> n \<and> n \<le> 90 then Some (n - 65)
     else if 97 \<le> n \<and> n \<le> 122 then Some (n - 71)
     else if 48 \<le> n \<and> n \<le> 57 then Some (n + 4)
     else if n = 43 then Some 62
     else if n = 47 then Some 63
     else None)"

text \<open>\<^verbatim>\<open>base64.RawStdEncoding\<close>: no padding; the decoder drops line breaks and accepts any unused
  trailing bits.\<close>

fun b64_encode :: "bytes \<Rightarrow> string" where
  "b64_encode (a # b # c # rest) =
     (let x = of_char a; y = of_char b; z = of_char c in
      b64_digit (x div 4) # b64_digit (x mod 4 * 16 + y div 16) # b64_digit (y mod 16 * 4 + z div 64) # b64_digit (z mod 64)
      # b64_encode rest)"
| "b64_encode [a, b] =
     (let x = of_char a; y = of_char b in
      [b64_digit (x div 4), b64_digit (x mod 4 * 16 + y div 16), b64_digit (y mod 16 * 4)])"
| "b64_encode [a] = (let x = of_char a in [b64_digit (x div 4), b64_digit (x mod 4 * 16)])"
| "b64_encode [] = []"

fun b64_quads :: "nat list \<Rightarrow> bytes option" where
  "b64_quads (p # q # r # s # rest) =
     map_option (\<lambda>bs. char_of (p * 4 + q div 16) # char_of (q mod 16 * 16 + r div 4) # char_of (r mod 4 * 64 + s) # bs)
       (b64_quads rest)"
| "b64_quads [p, q, r] = Some [char_of (p * 4 + q div 16), char_of (q mod 16 * 16 + r div 4)]"
| "b64_quads [p, q] = Some [char_of (p * 4 + q div 16)]"
| "b64_quads [p] = None"
| "b64_quads [] = Some []"

definition b64_values :: "string \<Rightarrow> nat list option" where
  "b64_values s = those (map b64_value s)"

definition b64_decode :: "string \<Rightarrow> bytes option" where
  "b64_decode s = (case b64_values (filter (\<lambda>c. c \<notin> {CHR 0x0A, CHR 0x0D}) s) of None \<Rightarrow> None | Some ns \<Rightarrow> b64_quads ns)"

lemma b64_digit_value [simp]: "n < 64 \<Longrightarrow> b64_value (b64_digit n) = Some n"
  by (auto simp: b64_value_def b64_digit_def Let_def of_char_of take_bit_eq_mod)

lemma b64_digit_plain: "n < 64 \<Longrightarrow> b64_digit n \<notin> {CHR 0x0A, CHR 0x0D, CHR ''$''}"
proof
  assume n: "n < 64" and "b64_digit n \<in> {CHR 0x0A, CHR 0x0D, CHR ''$''}"
  then have "b64_value (b64_digit n) = None" by (auto simp: b64_value_def)
  with n show False by simp
qed

lemma byte_bound: "(of_char c :: nat) < 256"
  using of_char_mod_256 [of c, where ?'a = nat] mod_less_divisor [of 256 "of_char c"] by (metis zero_less_numeral)

lemma b64_digits:
  "x \<in> set (b64_encode s) \<Longrightarrow> \<exists>n < 64. x = b64_digit n"
proof (induction s rule: b64_encode.induct)
  case (1 a b c rest)
  have "of_char a div 4 < (64::nat)" "of_char a mod 4 * 16 + of_char b div 16 < (64::nat)"
    "of_char b mod 16 * 4 + of_char c div 64 < (64::nat)" "of_char c mod 64 < (64::nat)"
    using byte_bound [of a] byte_bound [of b] byte_bound [of c] by linarith+
  then show ?case using 1 unfolding b64_encode.simps Let_def set_simps insert_iff by blast
next
  case (2 a b)
  have "of_char a div 4 < (64::nat)" "of_char a mod 4 * 16 + of_char b div 16 < (64::nat)" "of_char b mod 16 * 4 < (64::nat)"
    using byte_bound [of a] byte_bound [of b] by linarith+
  then show ?case using 2 unfolding b64_encode.simps Let_def set_simps insert_iff by blast
next
  case (3 a)
  have "of_char a div 4 < (64::nat)" "of_char a mod 4 * 16 < (64::nat)" using byte_bound [of a] by linarith+
  then show ?case using 3 unfolding b64_encode.simps Let_def set_simps insert_iff by blast
qed simp

lemma b64_encode_plain: "c \<in> {CHR 0x0A, CHR 0x0D, CHR ''$''} \<Longrightarrow> c \<notin> set (b64_encode s)"
  using b64_digits b64_digit_plain by metis

lemma join_bits:
  "v < 16 \<Longrightarrow> (r * 16 + v) div 16 = (r :: nat)" "v < 16 \<Longrightarrow> (r * 16 + v) mod 16 = v"
  "v < 4 \<Longrightarrow> (r * 4 + v) div 4 = r" "v < 4 \<Longrightarrow> (r * 4 + v) mod 4 = v"
  by simp_all

lemma byte_parts: "(of_char c :: nat) div 16 < 16" "(of_char c :: nat) div 64 < 4"
  using byte_bound [of c] by linarith+

lemma b64_values_encode: "\<exists>ns. b64_values (b64_encode s) = Some ns \<and> b64_quads ns = Some s"
proof (induction s rule: b64_encode.induct)
  case (1 a b c rest)
  let ?x = "of_char a :: nat" and ?y = "of_char b :: nat" and ?z = "of_char c :: nat"
  have l: "?x div 4 < 64" "?x mod 4 * 16 + ?y div 16 < 64" "?y mod 16 * 4 + ?z div 64 < 64" "?z mod 64 < 64"
    using byte_bound [of a] byte_bound [of b] byte_bound [of c] by linarith+
  have e: "?x div 4 * 4 + (?x mod 4 * 16 + ?y div 16) div 16 = ?x"
    "(?x mod 4 * 16 + ?y div 16) mod 16 * 16 + (?y mod 16 * 4 + ?z div 64) div 4 = ?y"
    "(?y mod 16 * 4 + ?z div 64) mod 4 * 64 + ?z mod 64 = ?z"
    by (simp_all only: join_bits byte_parts div_mult_mod_eq)
  from 1 obtain ns where ns: "b64_values (b64_encode rest) = Some ns" "b64_quads ns = Some rest" by blast
  let ?ns = "?x div 4 # (?x mod 4 * 16 + ?y div 16) # (?y mod 16 * 4 + ?z div 64) # (?z mod 64) # ns"
  have "b64_values (b64_encode (a # b # c # rest)) = Some ?ns" using l ns(1) by (simp add: b64_values_def Let_def)
  moreover have "b64_quads ?ns = Some (a # b # c # rest)" unfolding b64_quads.simps e ns(2) by simp
  ultimately show ?case by blast
next
  case (2 a b)
  let ?x = "of_char a :: nat" and ?y = "of_char b :: nat"
  have l: "?x div 4 < 64" "?x mod 4 * 16 + ?y div 16 < 64" "?y mod 16 * 4 < 64"
    using byte_bound [of a] byte_bound [of b] by linarith+
  have e: "?x div 4 * 4 + (?x mod 4 * 16 + ?y div 16) div 16 = ?x"
    "(?x mod 4 * 16 + ?y div 16) mod 16 * 16 + (?y mod 16 * 4) div 4 = ?y"
    using join_bits(3) [of 0 "?y mod 16"] by (simp_all only: join_bits byte_parts div_mult_mod_eq) simp
  let ?ns = "[?x div 4, ?x mod 4 * 16 + ?y div 16, ?y mod 16 * 4]"
  have "b64_values (b64_encode [a, b]) = Some ?ns" using l by (simp add: b64_values_def Let_def)
  moreover have "b64_quads ?ns = Some [a, b]" unfolding b64_quads.simps e by simp
  ultimately show ?case by blast
next
  case (3 a)
  let ?x = "of_char a :: nat"
  have l: "?x div 4 < 64" "?x mod 4 * 16 < 64" using byte_bound [of a] by linarith+
  have e: "?x div 4 * 4 + ?x mod 4 * 16 div 16 = ?x" by simp
  show ?case using l by (simp add: b64_values_def Let_def e)
qed (simp add: b64_values_def)

lemma b64_roundtrip [simp]: "b64_decode (b64_encode s) = Some s"
proof -
  have "filter (\<lambda>c. c \<notin> {CHR 0x0A, CHR 0x0D}) (b64_encode s) = b64_encode s"
    using b64_encode_plain by (auto simp: filter_id_conv)
  then show ?thesis using b64_values_encode [of s] by (auto simp: b64_decode_def)
qed

subsection \<open>Scanning\<close>

text \<open>\<^verbatim>\<open>fmt.Sscanf\<close> on the two formats of a PHC string: literals match exactly, a number skips blanks
  and takes the digits that follow, and input after the last verb is ignored.\<close>

definition scan_lit :: "string \<Rightarrow> string \<Rightarrow> string option" where
  "scan_lit lit s = (if prefix lit s then Some (drop (length lit) s) else None)"

definition skip_blanks :: "string \<Rightarrow> string" where
  "skip_blanks s = dropWhile (\<lambda>c. is_space c \<and> c \<noteq> CHR 0x0A) s"

definition scan_digits :: "string \<Rightarrow> (nat \<times> string) option" where
  "scan_digits s = (let ds = takeWhile is_digit s in if ds = [] then None else Some (digits_value ds, dropWhile is_digit s))"

definition scan_int :: "string \<Rightarrow> (int \<times> string) option" where
  "scan_int s =
     (let s = skip_blanks s;
          (neg, t) = (case s of c # cs \<Rightarrow> if c = CHR ''-'' then (True, cs) else if c = CHR ''+'' then (False, cs) else (False, s)
                      | [] \<Rightarrow> (False, s))
      in case scan_digits t of
           None \<Rightarrow> None
         | Some (n, rest) \<Rightarrow> (let v = (if neg then - int n else int n) in if fits64 v then Some (v, rest) else None))"

definition scan_uint :: "nat \<Rightarrow> string \<Rightarrow> (nat \<times> string) option" where
  "scan_uint w s =
     (case scan_digits (skip_blanks s) of None \<Rightarrow> None | Some (n, rest) \<Rightarrow> if n < 2 ^ w then Some (n, rest) else None)"

definition scan_version :: "string \<Rightarrow> int option" where
  "scan_version s = Option.bind (scan_lit ''v='' s) (\<lambda>s. map_option fst (scan_int s))"

definition scan_params :: "string \<Rightarrow> (nat \<times> nat \<times> nat) option" where
  "scan_params s =
     Option.bind (scan_lit ''m='' s) (\<lambda>s. Option.bind (scan_uint 32 s) (\<lambda>(m, s).
     Option.bind (scan_lit '',t='' s) (\<lambda>s. Option.bind (scan_uint 32 s) (\<lambda>(t, s).
     Option.bind (scan_lit '',p='' s) (\<lambda>s. Option.bind (scan_uint 8 s) (\<lambda>(p, s). Some (m, t, p)))))))"

subsection \<open>Hashing and verifying\<close>

text \<open>\<open>idKey password salt time memory threads keyLen\<close>; \<open>None\<close> is a panic.\<close>

type_synonym idKey = "string \<Rightarrow> bytes \<Rightarrow> nat \<Rightarrow> nat \<Rightarrow> nat \<Rightarrow> nat \<Rightarrow> bytes option"

abbreviation argon2_Version :: nat where "argon2_Version \<equiv> 19"
abbreviation argonTime :: nat where "argonTime \<equiv> 3"
abbreviation argonMemory :: nat where "argonMemory \<equiv> 65536"
abbreviation argonThreads :: nat where "argonThreads \<equiv> 2"
abbreviation argonKeyLen :: nat where "argonKeyLen \<equiv> 32"

definition phc_version :: string where
  "phc_version = ''v='' @ nat_str argon2_Version"

definition phc_params :: string where
  "phc_params = ''m='' @ nat_str argonMemory @ '',t='' @ nat_str argonTime @ '',p='' @ nat_str argonThreads"

definition phc :: "bytes \<Rightarrow> bytes \<Rightarrow> string" where
  "phc salt key = ''$argon2id$'' @ phc_version @ ''$'' @ phc_params @ ''$'' @ b64_encode salt @ ''$'' @ b64_encode key"

text \<open>\<open>salt\<close> is what the random source yields, \<open>None\<close> when it fails.\<close>

definition hashPassword :: "idKey \<Rightarrow> bytes option \<Rightarrow> string \<Rightarrow> string option" where
  "hashPassword k salt password =
     (case salt of
        None \<Rightarrow> None
      | Some s \<Rightarrow> map_option (phc s) (k password s argonTime argonMemory argonThreads argonKeyLen))"

definition verifyPassword :: "idKey \<Rightarrow> string \<Rightarrow> string \<Rightarrow> bool option" where
  "verifyPassword k password h =
     (let parts = split_on CHR ''$'' h in
      if length parts \<noteq> 6 \<or> parts ! 1 \<noteq> ''argon2id'' then Some False
      else if scan_version (parts ! 2) \<noteq> Some (int argon2_Version) then Some False
      else (case scan_params (parts ! 3) of
              None \<Rightarrow> Some False
            | Some (m, t, p) \<Rightarrow>
                (case b64_decode (parts ! 4) of
                   None \<Rightarrow> Some False
                 | Some salt \<Rightarrow>
                     (case b64_decode (parts ! 5) of
                        None \<Rightarrow> Some False
                      | Some want \<Rightarrow> map_option (\<lambda>got. got = want) (k password salt t m p (length want))))))"

subsection \<open>Reading back what was written\<close>

lemma split_on_step: "c \<notin> set s \<Longrightarrow> split_on c (s @ c # t) = s # split_on c t"
  by (induction s) auto

lemma split_on_last: "c \<notin> set s \<Longrightarrow> split_on c s = [s]"
  by (induction s) auto

lemma phc_parts:
  "split_on CHR ''$'' (phc salt key) = [[], ''argon2id'', phc_version, phc_params, b64_encode salt, b64_encode key]"
proof -
  let ?d = "CHR ''$''"
  have n: "?d \<notin> set (nat_str k)" for k by (rule nat_str_free) (simp add: is_digit_def)
  have v: "?d \<notin> set phc_version" "?d \<notin> set phc_params" using n by (simp_all add: phc_version_def phc_params_def)
  have e: "?d \<notin> set (b64_encode s)" for s by (rule b64_encode_plain) simp
  have "phc salt key = [] @ ?d # ''argon2id'' @ ?d # phc_version @ ?d # phc_params @ ?d # b64_encode salt @ ?d # b64_encode key"
    by (simp add: phc_def)
  then show ?thesis
    using v e by (simp add: split_on_step split_on_last)
qed

lemma scan_digits_nat_str:
  assumes "rest = [] \<or> \<not> is_digit (hd rest)"
  shows "scan_digits (nat_str n @ rest) = Some (n, rest)"
proof -
  have "list_all is_digit (nat_str n)" by (rule nat_str_digits)
  then have "takeWhile is_digit (nat_str n @ rest) = nat_str n" "dropWhile is_digit (nat_str n @ rest) = rest"
    using assms by (cases rest; auto simp: list_all_iff takeWhile_append dropWhile_append)+
  then show ?thesis by (simp add: scan_digits_def Let_def)
qed

lemma skip_blanks_nat_str [simp]: "skip_blanks (nat_str n @ rest) = nat_str n @ rest"
proof -
  obtain d ds where d: "nat_str n = d # ds" by (cases "nat_str n") auto
  then have "is_digit d" using nat_str_digits [of n] by simp
  then have "\<not> is_space d" by (auto simp: is_digit_def is_space_def)
  then show ?thesis by (simp add: skip_blanks_def d)
qed

lemma scan_uint_nat_str:
  "rest = [] \<or> \<not> is_digit (hd rest) \<Longrightarrow> n < 2 ^ w \<Longrightarrow> scan_uint w (nat_str n @ rest) = Some (n, rest)"
  by (simp add: scan_uint_def scan_digits_nat_str)

lemma scan_version_phc: "scan_version phc_version = Some (int argon2_Version)"
  by code_simp

lemma scan_params_phc: "scan_params phc_params = Some (argonMemory, argonTime, argonThreads)"
proof -
  have c: "scan_uint w (nat_str n @ CHR '','' # r) = Some (n, CHR '','' # r)" if "n < 2 ^ w" for w n r
    using that by (intro scan_uint_nat_str) (simp_all add: is_digit_def)
  have p: "scan_uint 8 (nat_str argonThreads) = Some (argonThreads, [])"
    using scan_uint_nat_str [of "[]" argonThreads 8] by simp
  show ?thesis
    by (simp add: scan_params_def phc_params_def scan_lit_def c p)
qed

lemma verifyPassword_phc:
  "verifyPassword k password (phc salt key) =
     map_option (\<lambda>got. got = key) (k password salt argonTime argonMemory argonThreads (length key))"
  unfolding verifyPassword_def phc_parts by (simp add: Let_def scan_version_phc scan_params_phc)

text \<open>Passwords round-trip. The hash made for a password verifies that password, and verifies
  another one exactly when the key derivation maps both, under the stored salt, to the same key;
  verification never fails on it otherwise.\<close>

theorem password_roundtrip:
  assumes "hashPassword k (Some salt) password = Some h"
    and "\<And>pw key. k pw salt argonTime argonMemory argonThreads argonKeyLen = Some key \<Longrightarrow> length key = argonKeyLen"
  shows "verifyPassword k password h = Some True
    \<and> verifyPassword k other h = map_option (\<lambda>got. Some got = k password salt argonTime argonMemory argonThreads argonKeyLen)
         (k other salt argonTime argonMemory argonThreads argonKeyLen)"
proof -
  from assms(1) obtain key where key: "k password salt argonTime argonMemory argonThreads argonKeyLen = Some key" "h = phc salt key"
    by (auto simp: hashPassword_def)
  with assms(2) have "length key = argonKeyLen" by blast
  with key show ?thesis by (simp add: verifyPassword_phc)
qed

text \<open>A key derivation that pads the password, for concrete instances.\<close>

definition demo_idKey :: idKey where
  "demo_idKey pw salt t m p n = (if t = 0 \<or> p = 0 then None else Some (take n (pw @ replicate n CHR ''x'')))"

lemma demo_idKey_length: "demo_idKey pw salt t m p n = Some key \<Longrightarrow> length key = n"
  by (auto simp: demo_idKey_def split: if_splits)

theorem password_roundtrip_witness:
  "\<exists>h. hashPassword demo_idKey (Some ''salt'') ''pw'' = Some h \<and> verifyPassword demo_idKey ''pw'' h = Some True
     \<and> verifyPassword demo_idKey ''no'' h = Some False"
proof -
  obtain h where h: "hashPassword demo_idKey (Some ''salt'') ''pw'' = Some h" by (simp add: hashPassword_def demo_idKey_def)
  have "verifyPassword demo_idKey ''pw'' h = Some True \<and> verifyPassword demo_idKey ''no'' h =
      map_option (\<lambda>got. Some got = demo_idKey ''pw'' ''salt'' argonTime argonMemory argonThreads argonKeyLen)
        (demo_idKey ''no'' ''salt'' argonTime argonMemory argonThreads argonKeyLen)"
    by (rule password_roundtrip [OF h]) (rule demo_idKey_length)
  with h show ?thesis by (simp add: demo_idKey_def)
qed

end
