(* ===== verification/Auth.thy ===== *)
theory Auth
  imports Auth_Password
begin

text \<open>
  Accounts, tokens and sessions: \<^verbatim>\<open>auth/auth.go\<close>, \<^verbatim>\<open>auth/store.go\<close>, \<^verbatim>\<open>auth/session.go\<close>. The store keeps its
  data in memory with the accounts file behind it; a save succeeds or fails as a whole. Every
  operation holds the store's lock, so it is one step of \<open>auth_step\<close>. Random secrets and the clock
  are arguments; the timing equalizer for unknown accounts has no effect on the result.
\<close>

subsection \<open>Roles\<close>

type_synonym Role = string
type_synonym instant = int

abbreviation RoleViewer :: Role where "RoleViewer \<equiv> ''viewer''"
abbreviation RoleOperator :: Role where "RoleOperator \<equiv> ''operator''"
abbreviation RoleAdmin :: Role where "RoleAdmin \<equiv> ''admin''"

definition rank :: "Role \<Rightarrow> int" where
  "rank r = (if r = RoleAdmin then 3 else if r = RoleOperator then 2 else if r = RoleViewer then 1 else 0)"

definition AtLeast :: "Role \<Rightarrow> Role \<Rightarrow> bool" where
  "AtLeast r floor = (rank r \<ge> rank floor)"

definition ParseRole :: "string \<Rightarrow> Role option" where
  "ParseRole s = (if s \<in> {RoleViewer, RoleOperator, RoleAdmin} then Some s else None)"

subsection \<open>Data\<close>

record Account =
  ac_Name :: string
  ac_Role :: Role
  ac_Hash :: string
  ac_Created :: instant
  ac_LastLogin :: instant

record Token =
  tk_Name :: string
  tk_Role :: Role
  tk_Hash :: string
  tk_Created :: instant
  tk_Revoked :: bool

record Identity =
  id_Name :: string
  id_Role :: Role
  id_Token :: bool
  id_Anonymous :: bool

record fileSchema =
  fs_Version :: int
  fs_Accounts :: "Account list"
  fs_Tokens :: "Token list"

record verifiedCred =
  vc_sum :: bytes
  vc_name :: string
  vc_expires :: instant

text \<open>\<open>as_file\<close> is the accounts file, \<open>None\<close> while there is none.\<close>

record AuthStore =
  as_path :: string
  as_data :: fileSchema
  as_verified :: "verifiedCred list"
  as_file :: "fileSchema option"

datatype auth_error =
  NoStateRoot | StateDirectory | ReadingAccounts | ParsingAccounts | UnsupportedVersion int
| AccountNameRequired | TokenNameRequired | RandomFailed | HashPanics | ErrExists string | ErrNotFound string | ErrLastAdmin string
| SaveFailed

record auth_env =
  ae_sha256 :: "bytes \<Rightarrow> bytes"
  ae_idKey :: idKey

datatype accounts_file = FileAbsent | FileUnreadable | FileMalformed | FileParsed fileSchema

subsection \<open>Opening and reading\<close>

abbreviation second :: int where "second \<equiv> 1000000000"
abbreviation verifyCacheTTL :: int where "verifyCacheTTL \<equiv> 60 * second"
abbreviation verifyCacheCap :: nat where "verifyCacheCap \<equiv> 1024"
abbreviation tokenPrefix :: string where "tokenPrefix \<equiv> ''tby_''"

definition empty_schema :: fileSchema where
  "empty_schema = \<lparr>fs_Version = 1, fs_Accounts = [], fs_Tokens = []\<rparr>"

definition Open_auth :: "string \<Rightarrow> bool \<Rightarrow> accounts_file \<Rightarrow> auth_error + AuthStore" where
  "Open_auth stateRoot dirOK file =
     (if stateRoot = [] then Inl NoStateRoot
      else if \<not> dirOK then Inl StateDirectory
      else (let path = filepath_join stateRoot ''accounts.yaml'' in
            case file of
              FileAbsent \<Rightarrow> Inr \<lparr>as_path = path, as_data = empty_schema, as_verified = [], as_file = None\<rparr>
            | FileUnreadable \<Rightarrow> Inl ReadingAccounts
            | FileMalformed \<Rightarrow> Inl ParsingAccounts
            | FileParsed d \<Rightarrow>
                if fs_Version d \<noteq> 1 then Inl (UnsupportedVersion (fs_Version d))
                else Inr \<lparr>as_path = path, as_data = d, as_verified = [], as_file = Some d\<rparr>))"

text \<open>\<open>written\<close> says whether the atomic write succeeds. Memory has changed already when it does not.\<close>

definition save :: "bool \<Rightarrow> AuthStore \<Rightarrow> AuthStore \<times> auth_error option" where
  "save written s = (if written then (s\<lparr>as_file := Some (as_data s)\<rparr>, None) else (s, Some SaveFailed))"

abbreviation accounts :: "AuthStore \<Rightarrow> Account list" where
  "accounts s \<equiv> fs_Accounts (as_data s)"

abbreviation tokens :: "AuthStore \<Rightarrow> Token list" where
  "tokens s \<equiv> fs_Tokens (as_data s)"

definition put_accounts :: "Account list \<Rightarrow> AuthStore \<Rightarrow> AuthStore" where
  "put_accounts xs s = s\<lparr>as_data := (as_data s)\<lparr>fs_Accounts := xs\<rparr>\<rparr>"

definition put_tokens :: "Token list \<Rightarrow> AuthStore \<Rightarrow> AuthStore" where
  "put_tokens xs s = s\<lparr>as_data := (as_data s)\<lparr>fs_Tokens := xs\<rparr>\<rparr>"

definition HasAccounts :: "AuthStore \<Rightarrow> bool" where
  "HasAccounts s = (accounts s \<noteq> [])"

definition account_of :: "string \<Rightarrow> AuthStore \<Rightarrow> Account option" where
  "account_of name s = find (\<lambda>a. ac_Name a = name) (accounts s)"

definition adminsLocked :: "string \<Rightarrow> AuthStore \<Rightarrow> nat" where
  "adminsLocked except s = length (filter (\<lambda>a. ac_Role a = RoleAdmin \<and> ac_Name a \<noteq> except) (accounts s))"

subsection \<open>The cache of verified credentials\<close>

definition credSum :: "auth_env \<Rightarrow> string \<Rightarrow> string \<Rightarrow> bytes" where
  "credSum e name password = ae_sha256 e (name @ CHR 0x00 # password)"

definition forgetVerifiedLocked :: "string \<Rightarrow> AuthStore \<Rightarrow> AuthStore" where
  "forgetVerifiedLocked name s = s\<lparr>as_verified := filter (\<lambda>c. vc_name c \<noteq> name) (as_verified s)\<rparr>"

definition rememberLocked :: "bytes \<Rightarrow> string \<Rightarrow> instant \<Rightarrow> AuthStore \<Rightarrow> AuthStore" where
  "rememberLocked cred name now s =
     (let live = filter (\<lambda>c. \<not> now > vc_expires c) (as_verified s);
          live = (if length live \<ge> verifyCacheCap then [] else live)
      in s\<lparr>as_verified := live @ [\<lparr>vc_sum = cred, vc_name = name, vc_expires = now + verifyCacheTTL\<rparr>]\<rparr>)"

definition cachedLocked :: "bytes \<Rightarrow> string \<Rightarrow> instant \<Rightarrow> AuthStore \<Rightarrow> Account option" where
  "cachedLocked cred name now s =
     (case find (\<lambda>c. \<not> now > vc_expires c \<and> vc_sum c = cred \<and> vc_name c = name) (as_verified s) of
        None \<Rightarrow> None
      | Some c \<Rightarrow> find (\<lambda>a. ac_Name a = vc_name c) (accounts s))"

subsection \<open>Accounts\<close>

text \<open>The loop over the accounts stops at the first one with the name.\<close>

fun update_first :: "('a \<Rightarrow> bool) \<Rightarrow> ('a \<Rightarrow> 'a) \<Rightarrow> 'a list \<Rightarrow> 'a list" where
  "update_first P f [] = []"
| "update_first P f (x # xs) = (if P x then f x # xs else x # update_first P f xs)"

fun remove_first :: "('a \<Rightarrow> bool) \<Rightarrow> 'a list \<Rightarrow> 'a list" where
  "remove_first P [] = []"
| "remove_first P (x # xs) = (if P x then xs else x # remove_first P xs)"

definition AddAccount ::
  "auth_env \<Rightarrow> bool \<Rightarrow> bytes option \<Rightarrow> string \<Rightarrow> Role \<Rightarrow> string \<Rightarrow> instant \<Rightarrow> AuthStore \<Rightarrow> AuthStore \<times> auth_error option" where
  "AddAccount e written salt name role password now s =
     (if name = [] then (s, Some AccountNameRequired)
      else if salt = None then (s, Some RandomFailed)
      else (case hashPassword (ae_idKey e) salt password of
              None \<Rightarrow> (s, Some HashPanics)
            | Some h \<Rightarrow>
                if account_of name s \<noteq> None then (s, Some (ErrExists name))
                else save written (put_accounts (accounts s @ [\<lparr>ac_Name = name, ac_Role = role, ac_Hash = h, ac_Created = now, ac_LastLogin = 0\<rparr>]) s)))"

definition DeleteAccount :: "bool \<Rightarrow> string \<Rightarrow> AuthStore \<Rightarrow> AuthStore \<times> auth_error option" where
  "DeleteAccount written name s =
     (case account_of name s of
        None \<Rightarrow> (s, Some (ErrNotFound name))
      | Some a \<Rightarrow>
          if ac_Role a = RoleAdmin \<and> adminsLocked name s = 0 then (s, Some (ErrLastAdmin name))
          else save written (forgetVerifiedLocked name (put_accounts (remove_first (\<lambda>a. ac_Name a = name) (accounts s)) s)))"

definition SetRole :: "bool \<Rightarrow> string \<Rightarrow> Role \<Rightarrow> AuthStore \<Rightarrow> AuthStore \<times> auth_error option" where
  "SetRole written name role s =
     (case account_of name s of
        None \<Rightarrow> (s, Some (ErrNotFound name))
      | Some a \<Rightarrow>
          if ac_Role a = role then (s, None)
          else if ac_Role a = RoleAdmin \<and> adminsLocked name s = 0 then (s, Some (ErrLastAdmin name))
          else save written (put_accounts (update_first (\<lambda>a. ac_Name a = name) (\<lambda>a. a\<lparr>ac_Role := role\<rparr>) (accounts s)) s))"

definition SetPassword :: "auth_env \<Rightarrow> bool \<Rightarrow> bytes option \<Rightarrow> string \<Rightarrow> string \<Rightarrow> AuthStore \<Rightarrow> AuthStore \<times> auth_error option" where
  "SetPassword e written salt name password s =
     (if salt = None then (s, Some RandomFailed)
      else (case hashPassword (ae_idKey e) salt password of
              None \<Rightarrow> (s, Some HashPanics)
            | Some h \<Rightarrow>
                if account_of name s = None then (s, Some (ErrNotFound name))
                else save written (forgetVerifiedLocked name
                       (put_accounts (update_first (\<lambda>a. ac_Name a = name) (\<lambda>a. a\<lparr>ac_Hash := h\<rparr>) (accounts s)) s))))"

text \<open>A hash in the file that asks for zero rounds or zero threads makes the verification panic; the
  lock is released and nothing has changed.\<close>

datatype login = LoginOK Account | LoginRefused | LoginPanics

definition VerifyPassword :: "auth_env \<Rightarrow> bool \<Rightarrow> string \<Rightarrow> string \<Rightarrow> instant \<Rightarrow> AuthStore \<Rightarrow> AuthStore \<times> login" where
  "VerifyPassword e written name password now s =
     (let cred = credSum e name password in
      case cachedLocked cred name now s of
        Some a \<Rightarrow> (s, LoginOK a)
      | None \<Rightarrow>
          (case account_of name s of
             None \<Rightarrow> (s, LoginRefused)
           | Some a \<Rightarrow>
               (case verifyPassword (ae_idKey e) password (ac_Hash a) of
                  None \<Rightarrow> (s, LoginPanics)
                | Some False \<Rightarrow> (s, LoginRefused)
                | Some True \<Rightarrow>
                    (let s = put_accounts (update_first (\<lambda>a. ac_Name a = name) (\<lambda>a. a\<lparr>ac_LastLogin := now\<rparr>) (accounts s)) s;
                         s = fst (save written s)
                     in (rememberLocked cred name now s, LoginOK (a\<lparr>ac_LastLogin := now\<rparr>))))))"

subsection \<open>Tokens\<close>

definition token_hash :: "auth_env \<Rightarrow> string \<Rightarrow> string" where
  "token_hash e secret = hex_encode (ae_sha256 e secret)"

text \<open>\<open>raw\<close> is the encoded random part of the secret, \<open>None\<close> when the random source fails.\<close>

definition CreateToken ::
  "auth_env \<Rightarrow> bool \<Rightarrow> string option \<Rightarrow> string \<Rightarrow> Role \<Rightarrow> instant \<Rightarrow> AuthStore \<Rightarrow> AuthStore \<times> (auth_error + string \<times> Token)" where
  "CreateToken e written raw name role now s =
     (if name = [] then (s, Inl TokenNameRequired)
      else (case raw of
              None \<Rightarrow> (s, Inl RandomFailed)
            | Some r \<Rightarrow>
                if list_ex (\<lambda>t. tk_Name t = name \<and> \<not> tk_Revoked t) (tokens s) then (s, Inl (ErrExists name))
                else (let secret = tokenPrefix @ r;
                          tok = \<lparr>tk_Name = name, tk_Role = role, tk_Hash = token_hash e secret, tk_Created = now, tk_Revoked = False\<rparr>;
                          (s, err) = save written (put_tokens (tokens s @ [tok]) s)
                      in (s, case err of Some x \<Rightarrow> Inl x | None \<Rightarrow> Inr (secret, tok)))))"

definition RevokeToken :: "bool \<Rightarrow> string \<Rightarrow> AuthStore \<Rightarrow> AuthStore \<times> auth_error option" where
  "RevokeToken written name s =
     (if list_ex (\<lambda>t. tk_Name t = name \<and> \<not> tk_Revoked t) (tokens s)
      then save written (put_tokens (update_first (\<lambda>t. tk_Name t = name \<and> \<not> tk_Revoked t) (\<lambda>t. t\<lparr>tk_Revoked := True\<rparr>) (tokens s)) s)
      else (s, Some (ErrNotFound name)))"

definition VerifyToken :: "auth_env \<Rightarrow> string \<Rightarrow> AuthStore \<Rightarrow> Token option" where
  "VerifyToken e secret s = find (\<lambda>t. \<not> tk_Revoked t \<and> tk_Hash t = token_hash e secret) (tokens s)"

subsection \<open>Sessions\<close>

record Session =
  ss_ID :: string
  ss_Account :: string
  ss_Role :: Role
  ss_CSRF :: string
  ss_Expires :: instant

record Sessions =
  st_ttl :: int
  st_m :: "(string \<times> Session) list"

definition NewSessions :: "int \<Rightarrow> Sessions" where
  "NewSessions ttl = \<lparr>st_ttl = ttl, st_m = []\<rparr>"

definition sweep_sessions :: "instant \<Rightarrow> Sessions \<Rightarrow> Sessions" where
  "sweep_sessions now t = t\<lparr>st_m := filter (\<lambda>(i, x). \<not> now > ss_Expires x) (st_m t)\<rparr>"

definition Create_session :: "string \<Rightarrow> string \<Rightarrow> string \<Rightarrow> Role \<Rightarrow> instant \<Rightarrow> Sessions \<Rightarrow> Sessions \<times> Session" where
  "Create_session sid csrf account role now t =
     (let x = \<lparr>ss_ID = sid, ss_Account = account, ss_Role = role, ss_CSRF = csrf, ss_Expires = now + st_ttl t\<rparr>;
          t = sweep_sessions now t
      in (t\<lparr>st_m := map_put sid x (st_m t)\<rparr>, x))"

definition Get_session :: "string \<Rightarrow> instant \<Rightarrow> Sessions \<Rightarrow> Sessions \<times> Session option" where
  "Get_session sid now t =
     (case map_of (st_m t) sid of
        Some x \<Rightarrow> if now > ss_Expires x then (t\<lparr>st_m := map_del sid (st_m t)\<rparr>, None) else (t, Some x)
      | None \<Rightarrow> (t\<lparr>st_m := map_del sid (st_m t)\<rparr>, None))"

definition Delete_session :: "string \<Rightarrow> Sessions \<Rightarrow> Sessions" where
  "Delete_session sid t = t\<lparr>st_m := map_del sid (st_m t)\<rparr>"

definition DeleteOthers :: "string \<Rightarrow> string \<Rightarrow> Sessions \<Rightarrow> Sessions" where
  "DeleteOthers account keep t = t\<lparr>st_m := filter (\<lambda>(i, x). \<not> (ss_Account x = account \<and> i \<noteq> keep)) (st_m t)\<rparr>"

definition CheckCSRF :: "Session \<Rightarrow> string \<Rightarrow> bool" where
  "CheckCSRF x token = (token \<noteq> [] \<and> ss_CSRF x = token)"


subsection \<open>Runs\<close>

text \<open>Every event carries the outcome of the write it may do. A restart opens the accounts file again.\<close>

datatype auth_event =
  EvAdd bool "bytes option" string Role string instant
| EvDelete bool string
| EvSetRole bool string Role
| EvSetPassword bool "bytes option" string string
| EvLogin bool string string instant
| EvCreateToken bool "string option" string Role instant
| EvRevoke bool string
| EvRestart

definition restart :: "AuthStore \<Rightarrow> AuthStore" where
  "restart s = s\<lparr>as_data := (case as_file s of None \<Rightarrow> empty_schema | Some d \<Rightarrow> d), as_verified := []\<rparr>"

fun auth_apply :: "auth_env \<Rightarrow> auth_event \<Rightarrow> AuthStore \<Rightarrow> AuthStore" where
  "auth_apply e (EvAdd w salt name role pw now) s = fst (AddAccount e w salt name role pw now s)"
| "auth_apply e (EvDelete w name) s = fst (DeleteAccount w name s)"
| "auth_apply e (EvSetRole w name role) s = fst (SetRole w name role s)"
| "auth_apply e (EvSetPassword w salt name pw) s = fst (SetPassword e w salt name pw s)"
| "auth_apply e (EvLogin w name pw now) s = fst (VerifyPassword e w name pw now s)"
| "auth_apply e (EvCreateToken w raw name role now) s = fst (CreateToken e w raw name role now s)"
| "auth_apply e (EvRevoke w name) s = fst (RevokeToken w name s)"
| "auth_apply e EvRestart s = restart s"

subsection \<open>Lists\<close>

lemma find_remove_other: "(\<And>x. P x \<Longrightarrow> \<not> Q x) \<Longrightarrow> find Q (remove_first P xs) = find Q xs"
  by (induction xs) auto

lemma find_append: "find P (xs @ ys) = (case find P xs of None \<Rightarrow> find P ys | Some x \<Rightarrow> Some x)"
  by (induction xs) auto

lemma update_first_mem: "x \<in> set (update_first P f xs) \<Longrightarrow> x \<in> set xs \<or> (\<exists>y. find P xs = Some y \<and> x = f y)"
  by (induction xs) (auto split: if_splits)

lemma update_first_keeps: "x \<in> set xs \<Longrightarrow> find P xs \<noteq> Some x \<Longrightarrow> x \<in> set (update_first P f xs)"
  by (induction xs) (auto split: if_splits)

lemma remove_first_keeps: "x \<in> set xs \<Longrightarrow> find P xs \<noteq> Some x \<Longrightarrow> x \<in> set (remove_first P xs)"
  by (induction xs) (auto split: if_splits)

lemma find_member: "find P xs = Some x \<Longrightarrow> x \<in> set xs \<and> P x"
  by (auto simp: find_Some_iff)

subsection \<open>What memory and file keep\<close>

lemma save_simps [simp]: "as_data (fst (save w s)) = as_data s" "as_verified (fst (save w s)) = as_verified s"
  by (simp_all add: save_def)

lemma save_file: "as_file (fst (save w s)) \<in> {as_file s, Some (as_data s)}"
  by (simp add: save_def)

lemma put_simps [simp]:
  "accounts (put_accounts xs s) = xs" "tokens (put_accounts xs s) = tokens s" "as_verified (put_accounts xs s) = as_verified s"
  "as_file (put_accounts xs s) = as_file s" "accounts (put_tokens ts s) = accounts s" "tokens (put_tokens ts s) = ts"
  "as_verified (put_tokens ts s) = as_verified s" "as_file (put_tokens ts s) = as_file s"
  "as_data (forgetVerifiedLocked n s) = as_data s" "as_file (forgetVerifiedLocked n s) = as_file s"
  "as_data (rememberLocked c n now s) = as_data s" "as_file (rememberLocked c n now s) = as_file s"
  by (simp_all add: put_accounts_def put_tokens_def forgetVerifiedLocked_def rememberLocked_def Let_def)

lemmas auth_ops = AddAccount_def DeleteAccount_def SetRole_def SetPassword_def VerifyPassword_def CreateToken_def RevokeToken_def Let_def
  case_prod_beta

text \<open>Outside a restart the file is what it was, or the data in memory.\<close>

lemma apply_file: "ev \<noteq> EvRestart \<Longrightarrow> as_file (auth_apply e ev s) \<in> {as_file s, Some (as_data (auth_apply e ev s))}"
  by (cases ev) (auto simp: auth_ops save_def split: option.split bool.split)

text \<open>A property of the data that every operation keeps holds in memory and in the file a restart
  reads, also when writes fail.\<close>

definition stored :: "(fileSchema \<Rightarrow> bool) \<Rightarrow> AuthStore \<Rightarrow> bool" where
  "stored Q s \<longleftrightarrow> Q (as_data s) \<and> (\<exists>d. as_file s = Some d \<and> Q d)"

locale kept =
  fixes e :: auth_env and allowed_event :: "auth_event \<Rightarrow> bool" and Q :: "fileSchema \<Rightarrow> bool"
  assumes op: "Q (as_data s) \<Longrightarrow> allowed_event ev \<Longrightarrow> ev \<noteq> EvRestart \<Longrightarrow> Q (as_data (auth_apply e ev s))"
begin

lemma apply_stored: "stored Q s \<Longrightarrow> allowed_event ev \<Longrightarrow> stored Q (auth_apply e ev s)"
proof (cases "ev = EvRestart")
  case False
  assume "stored Q s" "allowed_event ev"
  with op [of s ev] apply_file [OF False, of e s] False show ?thesis by (auto simp: stored_def)
qed (auto simp: stored_def restart_def)

lemma run_stored: "stored Q s \<Longrightarrow> list_all allowed_event evs \<Longrightarrow> stored Q (fold (auth_apply e) evs s)"
  by (induction evs arbitrary: s) (auto intro: apply_stored)

end

subsection \<open>An administrator stays\<close>

definition is_admin :: "Account \<Rightarrow> bool" where
  "is_admin a = (ac_Role a = RoleAdmin)"

definition has_admin :: "fileSchema \<Rightarrow> bool" where
  "has_admin d = list_ex is_admin (fs_Accounts d)"

definition named :: "fileSchema \<Rightarrow> bool" where
  "named d = distinct (map ac_Name (fs_Accounts d))"

lemma has_admin_iff: "has_admin d \<longleftrightarrow> (\<exists>a \<in> set (fs_Accounts d). is_admin a)"
  by (simp add: has_admin_def list_ex_iff)

lemma is_admin_update [simp]: "is_admin (a\<lparr>ac_Hash := h\<rparr>) = is_admin a" "is_admin (a\<lparr>ac_LastLogin := t\<rparr>) = is_admin a"
  by (simp_all add: is_admin_def)

text \<open>An administrator other than the account an operation is about to change.\<close>

lemma admin_survives:
  assumes "has_admin (as_data s)" and "account_of name s = Some a"
    and "\<not> (ac_Role a = RoleAdmin \<and> adminsLocked name s = 0)"
  obtains b where "b \<in> set (accounts s)" "is_admin b" "account_of name s \<noteq> Some b"
proof (cases "is_admin a")
  case True
  with assms(3) obtain b where "b \<in> set (accounts s)" "is_admin b" "ac_Name b \<noteq> name"
    by (auto simp: adminsLocked_def filter_empty_conv is_admin_def)
  with that show ?thesis by (auto simp: account_of_def dest: find_member)
next
  case False
  with assms that show ?thesis by (auto simp: has_admin_iff)
qed

lemma update_first_map: "(\<And>a. g (f a) = g a) \<Longrightarrow> map g (update_first P f xs) = map g xs"
  by (induction xs) auto

lemma update_first_ex: "(\<And>a. Q (f a) = Q a) \<Longrightarrow> list_ex Q (update_first P f xs) = list_ex Q xs"
  by (induction xs) auto

lemma apply_admin:
  assumes "has_admin (as_data s)" "ev \<noteq> EvRestart"
  shows "has_admin (as_data (auth_apply e ev s))"
proof (cases ev)
  case (EvDelete w name)
  have "has_admin (as_data (put_accounts (remove_first (\<lambda>a. ac_Name a = name) (accounts s)) s))"
    if a: "account_of name s = Some a" "\<not> (ac_Role a = RoleAdmin \<and> adminsLocked name s = 0)" for a
  proof -
    obtain b where b: "b \<in> set (accounts s)" "is_admin b" "account_of name s \<noteq> Some b"
      by (rule admin_survives [OF assms(1) a])
    from remove_first_keeps [OF b(1) b(3) [unfolded account_of_def]] b(2) show ?thesis unfolding has_admin_iff put_simps by blast
  qed
  with EvDelete assms(1) show ?thesis by (auto simp: DeleteAccount_def split: option.split)
next
  case (EvSetRole w name role)
  have "has_admin (as_data (put_accounts (update_first (\<lambda>a. ac_Name a = name) (\<lambda>a. a\<lparr>ac_Role := role\<rparr>) (accounts s)) s))"
    if a: "account_of name s = Some a" "\<not> (ac_Role a = RoleAdmin \<and> adminsLocked name s = 0)" for a
  proof -
    obtain b where b: "b \<in> set (accounts s)" "is_admin b" "account_of name s \<noteq> Some b"
      by (rule admin_survives [OF assms(1) a])
    from update_first_keeps [OF b(1) b(3) [unfolded account_of_def]] b(2) show ?thesis unfolding has_admin_iff put_simps by blast
  qed
  with EvSetRole assms(1) show ?thesis by (auto simp: SetRole_def split: option.split)
qed (use assms in \<open>auto simp: auth_ops has_admin_def update_first_ex split: option.split bool.split\<close>)

lemma remove_first_distinct: "distinct (map g xs) \<Longrightarrow> distinct (map g (remove_first P xs))"
proof (induction xs)
  case (Cons x xs)
  have "set (remove_first P xs) \<subseteq> set xs" by (induction xs) auto
  with Cons show ?case by auto
qed simp

lemma account_of_None: "account_of n s = None \<longleftrightarrow> n \<notin> set (map ac_Name (accounts s))"
  by (auto simp: account_of_def find_None_iff)

lemma apply_named:
  assumes "named (as_data s)" "ev \<noteq> EvRestart"
  shows "named (as_data (auth_apply e ev s))"
  using assms account_of_None [of _ s]
  by (cases ev) (auto simp: auth_ops named_def update_first_map remove_first_distinct split: option.split bool.split)

interpretation admins: kept e "\<lambda>_. True" "\<lambda>d. has_admin d \<and> named d" for e
  by unfold_locales (auto intro: apply_admin apply_named)

subsection \<open>The cache agrees with the hashes\<close>

text \<open>Every cached credential is one whose password verifies against the hash the account has now.\<close>

definition cache_current :: "auth_env \<Rightarrow> AuthStore \<Rightarrow> bool" where
  "cache_current e s \<longleftrightarrow> (\<forall>c \<in> set (as_verified s). \<exists>a pw. account_of (vc_name c) s = Some a
     \<and> vc_sum c = credSum e (vc_name c) pw \<and> verifyPassword (ae_idKey e) pw (ac_Hash a) = Some True)"

lemma account_of_put [simp]:
  "account_of n (put_accounts xs s) = find (\<lambda>a. ac_Name a = n) xs"
  by (simp add: account_of_def)

lemma account_of_cong [simp]:
  "account_of n (fst (save w s)) = account_of n s" "account_of n (put_tokens ts s) = account_of n s"
  "account_of n (forgetVerifiedLocked m s) = account_of n s" "account_of n (rememberLocked c m now s) = account_of n s"
  by (simp_all add: account_of_def)

lemma find_named_update:
  assumes "\<And>a. ac_Name (f a) = ac_Name a"
  shows "find (\<lambda>a. ac_Name a = n) (update_first (\<lambda>a. ac_Name a = m) f xs) =
    (if n = m then map_option f (find (\<lambda>a. ac_Name a = n) xs) else find (\<lambda>a. ac_Name a = n) xs)"
  using assms by (induction xs) auto

text \<open>The accounts of the cached names keep their hashes.\<close>

lemma cache_current_mono:
  assumes "cache_current e s" and "set (as_verified t) \<subseteq> set (as_verified s)"
    and "\<And>n a. n \<in> vc_name ` set (as_verified t) \<Longrightarrow> account_of n s = Some a \<Longrightarrow> \<exists>b. account_of n t = Some b \<and> ac_Hash b = ac_Hash a"
  shows "cache_current e t"
  unfolding cache_current_def
proof
  fix c
  assume c: "c \<in> set (as_verified t)"
  with assms(1,2) obtain a pw where a: "account_of (vc_name c) s = Some a" "vc_sum c = credSum e (vc_name c) pw"
    "verifyPassword (ae_idKey e) pw (ac_Hash a) = Some True" unfolding cache_current_def by blast
  with assms(3) [of "vc_name c" a] c show "\<exists>a pw. account_of (vc_name c) t = Some a \<and> vc_sum c = credSum e (vc_name c) pw
      \<and> verifyPassword (ae_idKey e) pw (ac_Hash a) = Some True" by fastforce
qed

lemma remember_current:
  assumes "cache_current e s" "account_of name s = Some a" "verifyPassword (ae_idKey e) pw (ac_Hash a) = Some True"
  shows "cache_current e (rememberLocked (credSum e name pw) name now s)"
  using assms by (auto simp: cache_current_def rememberLocked_def account_of_def Let_def)

lemma apply_cache:
  assumes "cache_current e s"
  shows "cache_current e (auth_apply e ev s)"
proof (cases ev)
  case (EvAdd w salt name role pw now)
  have "cache_current e (fst (save w (put_accounts (accounts s @ [b]) s)))" for b
    by (rule cache_current_mono [OF assms]) (auto simp: find_append account_of_def)
  with EvAdd assms show ?thesis by (auto simp: AddAccount_def split: option.split)
next
  case (EvDelete w name)
  have "cache_current e (fst (save w (forgetVerifiedLocked name (put_accounts (remove_first (\<lambda>a. ac_Name a = name) (accounts s)) s))))"
    by (rule cache_current_mono [OF assms]) (auto simp: forgetVerifiedLocked_def account_of_def find_remove_other)
  with EvDelete assms show ?thesis by (auto simp: DeleteAccount_def split: option.split)
next
  case (EvSetRole w name role)
  have "cache_current e (fst (save w (put_accounts (update_first (\<lambda>a. ac_Name a = name) (\<lambda>a. a\<lparr>ac_Role := role\<rparr>) (accounts s)) s)))"
    by (rule cache_current_mono [OF assms]) (auto simp: find_named_update account_of_def)
  with EvSetRole assms show ?thesis by (auto simp: SetRole_def split: option.split)
next
  case (EvSetPassword w salt name pw)
  have "cache_current e (fst (save w (forgetVerifiedLocked name
      (put_accounts (update_first (\<lambda>a. ac_Name a = name) (\<lambda>a. a\<lparr>ac_Hash := h\<rparr>) (accounts s)) s))))" for h
    by (rule cache_current_mono [OF assms]) (auto simp: forgetVerifiedLocked_def find_named_update account_of_def)
  with EvSetPassword assms show ?thesis by (auto simp: SetPassword_def split: option.split)
next
  case (EvLogin w name pw now)
  let ?t = "fst (save w (put_accounts (update_first (\<lambda>a. ac_Name a = name) (\<lambda>a. a\<lparr>ac_LastLogin := now\<rparr>) (accounts s)) s))"
  have t: "cache_current e ?t"
    by (rule cache_current_mono [OF assms]) (auto simp: find_named_update account_of_def)
  have "cache_current e (rememberLocked (credSum e name pw) name now ?t)"
    if "account_of name s = Some a" "verifyPassword (ae_idKey e) pw (ac_Hash a) = Some True" for a
    using that remember_current [OF t, of name "a\<lparr>ac_LastLogin := now\<rparr>" pw] by (simp add: find_named_update account_of_def)
  with EvLogin assms show ?thesis by (auto simp: VerifyPassword_def Let_def split: option.split bool.split)
next
  case (EvCreateToken w raw name role now)
  have "cache_current e (fst (save w (put_tokens ts s)))" for ts
    by (rule cache_current_mono [OF assms]) auto
  with EvCreateToken assms show ?thesis by (cases raw) (auto simp: CreateToken_def Let_def case_prod_beta)
next
  case (EvRevoke w name)
  have "cache_current e (fst (save w (put_tokens ts s)))" for ts
    by (rule cache_current_mono [OF assms]) auto
  with EvRevoke assms show ?thesis by (auto simp: RevokeToken_def)
next
  case EvRestart
  then show ?thesis by (simp add: restart_def cache_current_def)
qed

lemma run_cache: "cache_current e s \<Longrightarrow> cache_current e (fold (auth_apply e) evs s)"
  by (induction evs arbitrary: s) (auto intro: apply_cache)

lemma login_iff:
  assumes "cache_current e s" and "inj (ae_sha256 e)"
  shows "(\<exists>s' a. VerifyPassword e w name pw now s = (s', LoginOK a)) \<longleftrightarrow>
    (\<exists>a. account_of name s = Some a \<and> verifyPassword (ae_idKey e) pw (ac_Hash a) = Some True)"
proof (cases "cachedLocked (credSum e name pw) name now s")
  case None
  then show ?thesis by (auto simp: VerifyPassword_def Let_def split: option.splits bool.splits)
next
  case (Some a)
  then obtain c where c: "c \<in> set (as_verified s)" "vc_sum c = credSum e name pw" "vc_name c = name"
    by (auto simp: cachedLocked_def split: option.splits dest: find_member)
  with assms(1) obtain b pw' where b: "account_of name s = Some b" "credSum e name pw = credSum e name pw'"
    "verifyPassword (ae_idKey e) pw' (ac_Hash b) = Some True" unfolding cache_current_def by metis
  have "pw' = pw" using injD [OF assms(2) b(2) [unfolded credSum_def]] by simp
  with b Some show ?thesis by (auto simp: VerifyPassword_def Let_def)
qed

lemma login_account:
  assumes "VerifyPassword e w name pw now s = (s', LoginOK a)"
  shows "\<exists>b. account_of name s = Some b \<and> ac_Name a = name \<and> ac_Role a = ac_Role b \<and> ac_Hash a = ac_Hash b"
  using assms
  by (auto simp: VerifyPassword_def cachedLocked_def account_of_def Let_def split: option.splits bool.splits dest: find_member)

subsection \<open>Tokens only lose their validity\<close>

text \<open>At most one live token per name.\<close>

definition one_live :: "fileSchema \<Rightarrow> bool" where
  "one_live d = distinct (map tk_Name (filter (\<lambda>t. \<not> tk_Revoked t) (fs_Tokens d)))"

lemma revoke_live: "distinct (map tk_Name (filter (\<lambda>t. \<not> tk_Revoked t) ts)) \<Longrightarrow>
    distinct (map tk_Name (filter (\<lambda>t. \<not> tk_Revoked t) (update_first P (\<lambda>t. t\<lparr>tk_Revoked := True\<rparr>) ts)))"
proof (induction ts)
  case (Cons t ts)
  have "set (filter (\<lambda>t. \<not> tk_Revoked t) (update_first P (\<lambda>t. t\<lparr>tk_Revoked := True\<rparr>) us)) \<subseteq> set (filter (\<lambda>t. \<not> tk_Revoked t) us)" for us
    by (induction us) auto
  with Cons show ?case by (fastforce split: if_splits)
qed simp

lemma apply_one_live:
  assumes "one_live (as_data s)" "ev \<noteq> EvRestart"
  shows "one_live (as_data (auth_apply e ev s))"
proof (cases ev)
  case (EvCreateToken w raw name role now)
  with assms show ?thesis by (cases raw) (auto simp: CreateToken_def Let_def case_prod_beta one_live_def list_ex_iff)
qed (use assms in \<open>auto simp: auth_ops one_live_def revoke_live split: option.split bool.split\<close>)

interpretation live_tokens: kept e "\<lambda>_. True" one_live for e
  by unfold_locales (auto intro: apply_one_live)

text \<open>A secret is dead when every token it matches is revoked; the secrets an event may mint.\<close>

definition dead :: "auth_env \<Rightarrow> string \<Rightarrow> fileSchema \<Rightarrow> bool" where
  "dead e secret d = list_all (\<lambda>t. tk_Hash t = token_hash e secret \<longrightarrow> tk_Revoked t) (fs_Tokens d)"

fun mints :: "auth_event \<Rightarrow> string set" where
  "mints (EvCreateToken w (Some r) name role now) = {tokenPrefix @ r}"
| "mints _ = {}"

definition spares :: "auth_env \<Rightarrow> string \<Rightarrow> auth_event \<Rightarrow> bool" where
  "spares e secret ev \<longleftrightarrow> (\<forall>x \<in> mints ev. token_hash e x \<noteq> token_hash e secret)"

lemma apply_dead:
  assumes "dead e secret (as_data s)" "spares e secret ev" "ev \<noteq> EvRestart"
  shows "dead e secret (as_data (auth_apply e ev s))"
proof (cases ev)
  case (EvCreateToken w raw name role now)
  with assms show ?thesis by (cases raw) (auto simp: CreateToken_def Let_def case_prod_beta dead_def spares_def)
next
  case (EvRevoke w name)
  have "dead e secret (as_data (put_tokens (update_first P (\<lambda>t. t\<lparr>tk_Revoked := True\<rparr>) (tokens s)) s))" for P
    using assms(1) by (auto simp: dead_def list_all_iff dest!: update_first_mem find_member)
  with EvRevoke assms(1) show ?thesis by (auto simp: RevokeToken_def)
qed (use assms in \<open>auto simp: auth_ops dead_def split: option.split bool.split\<close>)

interpretation dead_tokens: kept e "spares e secret" "dead e secret" for e secret
  by unfold_locales (auto intro: apply_dead)

lemma revoke_kills:
  assumes "distinct (map tk_Name (filter (\<lambda>t. \<not> tk_Revoked t) ts))"
    and "\<forall>t \<in> set ts. tk_Hash t = h \<longrightarrow> tk_Revoked t \<or> tk_Name t = name"
  shows "\<forall>t \<in> set (update_first (\<lambda>t. tk_Name t = name \<and> \<not> tk_Revoked t) (\<lambda>t. t\<lparr>tk_Revoked := True\<rparr>) ts). tk_Hash t = h \<longrightarrow> tk_Revoked t"
  using assms
proof (induction ts)
  case (Cons t ts)
  show ?case
  proof (cases "tk_Name t = name \<and> \<not> tk_Revoked t")
    case True
    then have "name \<notin> tk_Name ` {u \<in> set ts. \<not> tk_Revoked u}" using Cons.prems(1) by simp
    then have "\<forall>u \<in> set ts. \<not> tk_Revoked u \<longrightarrow> tk_Name u \<noteq> name" by blast
    with Cons.prems(2) True show ?thesis by auto
  next
    case False
    have "distinct (map tk_Name (filter (\<lambda>t. \<not> tk_Revoked t) ts))" using Cons.prems(1) by (simp split: if_splits)
    note rest = Cons.IH [OF this]
    have t: "tk_Hash t = h \<longrightarrow> tk_Revoked t" using False Cons.prems(2) by auto
    show ?thesis unfolding update_first.simps if_not_P [OF False] using rest t Cons.prems(2) by simp
  qed
qed simp

subsection \<open>Sessions\<close>

definition sessions_ok :: "Sessions \<Rightarrow> bool" where
  "sessions_ok t = (distinct (map fst (st_m t)) \<and> list_all (\<lambda>(i, x). ss_ID x = i) (st_m t))"

lemma filter_keys: "distinct (map fst m) \<Longrightarrow> map_of (filter P m) k = (case map_of m k of None \<Rightarrow> None | Some v \<Rightarrow> if P (k, v) then Some v else None)"
proof (induction m)
  case (Cons kv m)
  obtain k' v where kv: "kv = (k', v)" by force
  with Cons have "map_of m k' = None" by (simp add: map_of_eq_None_iff)
  then have "map_of (filter P m) k' = None" by (auto simp: map_of_eq_None_iff)
  with Cons kv show ?case by auto
qed simp

lemma DeleteOthers_closes:
  assumes "sessions_ok t" and "Get_session sid now (DeleteOthers account keep t) = (t', Some x)"
  shows "ss_Account x \<noteq> account \<or> sid = keep"
  using assms by (auto simp: sessions_ok_def Get_session_def DeleteOthers_def filter_keys split: option.splits if_splits)

subsection \<open>Main results\<close>

text \<open>C16: An instance never loses its last administrator. Start from a store whose accounts have
  distinct names and include an administrator, in memory and in the accounts file. After any
  sequence of account and token operations, logins, failed writes and restarts, some account that
  can be looked up by name is an administrator, in memory and after the next restart.\<close>

theorem administrator_remains:
  assumes "stored (\<lambda>d. has_admin d \<and> named d) s"
  shows "let t = fold (auth_apply e) evs s in
    (\<exists>name a. account_of name t = Some a \<and> is_admin a) \<and> (\<exists>name a. account_of name (restart t) = Some a \<and> is_admin a)"
proof -
  have found: "\<exists>name a. account_of name u = Some a \<and> is_admin a" if "has_admin (as_data u)" "named (as_data u)" for u
  proof -
    from that(1) obtain a where a: "a \<in> set (accounts u)" "is_admin a" by (auto simp: has_admin_iff)
    have "find (\<lambda>b. ac_Name b = ac_Name a) xs = Some a" if "a \<in> set xs" "distinct (map ac_Name xs)" for xs
      using that by (induction xs) force+
    then have "account_of (ac_Name a) u = Some a" using a(1) that(2) by (simp add: account_of_def named_def)
    with a(2) show ?thesis by blast
  qed
  have "stored (\<lambda>d. has_admin d \<and> named d) (fold (auth_apply e) evs s)"
    using admins.run_stored [OF assms] by (simp add: list_all_iff)
  then show ?thesis using found by (auto simp: stored_def restart_def Let_def)
qed

definition demo_schema :: fileSchema where
  "demo_schema = \<lparr>fs_Version = 1,
     fs_Accounts = [\<lparr>ac_Name = ''ann'', ac_Role = RoleAdmin, ac_Hash = phc ''s'' ''k'', ac_Created = 0, ac_LastLogin = 0\<rparr>],
     fs_Tokens = [\<lparr>tk_Name = ''ci'', tk_Role = RoleOperator, tk_Hash = hex_encode ''tby_A'', tk_Created = 0, tk_Revoked = False\<rparr>]\<rparr>"

definition demo_auth :: AuthStore where
  "demo_auth = \<lparr>as_path = ''/s/accounts.yaml'', as_data = demo_schema, as_verified = [], as_file = Some demo_schema\<rparr>"

definition demo_auth_env :: auth_env where
  "demo_auth_env = \<lparr>ae_sha256 = (\<lambda>x. x), ae_idKey = demo_idKey\<rparr>"

theorem administrator_remains_witness:
  "\<exists>name a. account_of name (fold (auth_apply demo_auth_env) [EvDelete True ''ann'', EvSetRole False ''ann'' RoleViewer, EvRestart] demo_auth) = Some a
     \<and> is_admin a"
proof -
  have "stored (\<lambda>d. has_admin d \<and> named d) demo_auth"
    by (simp add: stored_def demo_auth_def demo_schema_def has_admin_def named_def is_admin_def)
  from administrator_remains [OF this, of demo_auth_env "[EvDelete True ''ann'', EvSetRole False ''ann'' RoleViewer, EvRestart]"]
  show ?thesis by (simp only: Let_def)
qed

text \<open>C35: The cache of verified passwords never changes an answer. In every state reached from a store
  with an empty cache, and as long as the digest has no collisions, a login succeeds exactly when the
  account exists now and the password verifies against the hash it has now; the account returned
  carries the current role.\<close>

theorem login_cache_transparent:
  assumes "as_verified s0 = []" and "inj (ae_sha256 e)"
  shows "let s = fold (auth_apply e) evs s0 in
    ((\<exists>s' a. VerifyPassword e w name pw now s = (s', LoginOK a)) \<longleftrightarrow>
       (\<exists>a. account_of name s = Some a \<and> verifyPassword (ae_idKey e) pw (ac_Hash a) = Some True))
    \<and> (\<forall>s' a. VerifyPassword e w name pw now s = (s', LoginOK a) \<longrightarrow> map_option ac_Role (account_of name s) = Some (ac_Role a))"
proof -
  have "cache_current e s0" using assms(1) by (simp add: cache_current_def)
  note cur = run_cache [OF this, of evs]
  show ?thesis
    using login_iff [OF cur assms(2)] login_account [of e w name pw now "fold (auth_apply e) evs s0"]
    by (fastforce simp: Let_def)
qed

theorem login_cache_transparent_witness:
  "\<not> (\<exists>s' a. VerifyPassword demo_auth_env True ''ann'' ''no'' 5 (fold (auth_apply demo_auth_env) [EvDelete True ''bob''] demo_auth) = (s', LoginOK a))"
proof -
  let ?s = "fold (auth_apply demo_auth_env) [EvDelete True ''bob''] demo_auth"
  have c: "as_verified demo_auth = []" by (simp add: demo_auth_def)
  have i: "inj (ae_sha256 demo_auth_env)" by (simp add: demo_auth_env_def)
  have s: "account_of ''ann'' ?s = Some \<lparr>ac_Name = ''ann'', ac_Role = RoleAdmin, ac_Hash = phc ''s'' ''k'', ac_Created = 0, ac_LastLogin = 0\<rparr>"
    by (simp add: demo_auth_def demo_schema_def DeleteAccount_def account_of_def)
  have "verifyPassword (ae_idKey demo_auth_env) ''no'' (phc ''s'' ''k'') = Some False"
    by (simp add: verifyPassword_phc demo_auth_env_def demo_idKey_def)
  with login_cache_transparent [OF c i, of "[EvDelete True ''bob'']" True "''ann''" "''no''" 5] s show ?thesis
    by (simp add: Let_def)
qed

text \<open>A replaced password stops working at once, even when the change could not be written. After
  \<open>SetPassword\<close> has changed the account, a password logs in, now or later, exactly when the key
  derivation gives it the key of the new password.\<close>

theorem password_change_immediate:
  assumes "as_verified s0 = []" and "inj (ae_sha256 e)"
    and "SetPassword e w (Some salt) name new (fold (auth_apply e) evs s0) = (s, err)" and "err \<in> {None, Some SaveFailed}"
    and "\<And>pw key. ae_idKey e pw salt argonTime argonMemory argonThreads argonKeyLen = Some key \<Longrightarrow> length key = argonKeyLen"
  shows "\<exists>key. ae_idKey e new salt argonTime argonMemory argonThreads argonKeyLen = Some key
    \<and> ((\<exists>s' a. VerifyPassword e w' name pw now s = (s', LoginOK a)) \<longleftrightarrow>
         ae_idKey e pw salt argonTime argonMemory argonThreads argonKeyLen = Some key)"
proof -
  let ?s = "fold (auth_apply e) evs s0"
  have "cache_current e s0" using assms(1) by (simp add: cache_current_def)
  from run_cache [OF this, of "evs @ [EvSetPassword w (Some salt) name new]"] assms(3)
  have cur: "cache_current e s" by simp
  from assms(3,4) obtain key a where key: "ae_idKey e new salt argonTime argonMemory argonThreads argonKeyLen = Some key"
    and a: "account_of name s = Some a" "ac_Hash a = phc salt key"
    by (auto simp: SetPassword_def hashPassword_def find_named_update account_of_def save_def forgetVerifiedLocked_def put_accounts_def
        split: option.splits if_splits)
  have "length key = argonKeyLen" using assms(5) key by blast
  then have "verifyPassword (ae_idKey e) pw (ac_Hash a) = Some True \<longleftrightarrow>
      ae_idKey e pw salt argonTime argonMemory argonThreads argonKeyLen = Some key"
    by (simp add: a(2) verifyPassword_phc)
  with login_iff [OF cur assms(2), of w' name pw now] key a(1) show ?thesis by auto
qed

theorem password_change_immediate_witness:
  "\<exists>s. SetPassword demo_auth_env False (Some ''n'') ''ann'' ''new'' demo_auth = (s, Some SaveFailed)
     \<and> \<not> (\<exists>s' a. VerifyPassword demo_auth_env True ''ann'' ''old'' 5 s = (s', LoginOK a))"
proof -
  have c: "as_verified demo_auth = []" by (simp add: demo_auth_def)
  have i: "inj (ae_sha256 demo_auth_env)" by (simp add: demo_auth_env_def)
  obtain s where s: "SetPassword demo_auth_env False (Some ''n'') ''ann'' ''new'' demo_auth = (s, Some SaveFailed)"
    by (simp add: SetPassword_def hashPassword_def demo_auth_env_def demo_idKey_def demo_auth_def demo_schema_def account_of_def save_def)
  have len: "ae_idKey demo_auth_env pw x t m p n = Some key \<Longrightarrow> length key = n" for pw x t m p n key
    using demo_idKey_length by (simp add: demo_auth_env_def)
  have "\<exists>key. ae_idKey demo_auth_env ''new'' ''n'' argonTime argonMemory argonThreads argonKeyLen = Some key
    \<and> ((\<exists>s' a. VerifyPassword demo_auth_env True ''ann'' ''old'' 5 s = (s', LoginOK a)) \<longleftrightarrow>
         ae_idKey demo_auth_env ''old'' ''n'' argonTime argonMemory argonThreads argonKeyLen = Some key)"
    by (rule password_change_immediate [where evs = "[]", OF c i]) (use s len in auto)
  with s show ?thesis by (auto simp: demo_auth_env_def demo_idKey_def)
qed

text \<open>Revocation is immediate and permanent. Once \<open>RevokeToken\<close> has succeeded on the name a secret
  belongs to, no later sequence of operations, failed writes and restarts makes the secret verify
  again, unless a new token is minted with the same digest.\<close>

theorem revocation_permanent:
  assumes "stored one_live s0" and "RevokeToken w name (fold (auth_apply e) evs0 s0) = (s, None)"
    and "list_all (\<lambda>t. tk_Hash t = token_hash e secret \<longrightarrow> tk_Revoked t \<or> tk_Name t = name) (tokens (fold (auth_apply e) evs0 s0))"
    and "list_all (spares e secret) evs"
  shows "VerifyToken e secret (fold (auth_apply e) evs s) = None"
proof -
  let ?s = "fold (auth_apply e) evs0 s0"
  have "one_live (as_data ?s)" using live_tokens.run_stored [OF assms(1)] by (simp add: list_all_iff stored_def)
  then have live: "distinct (map tk_Name (filter (\<lambda>t. \<not> tk_Revoked t) (tokens ?s)))" by (simp add: one_live_def)
  have s: "tokens s = update_first (\<lambda>t. tk_Name t = name \<and> \<not> tk_Revoked t) (\<lambda>t. t\<lparr>tk_Revoked := True\<rparr>) (tokens ?s)"
    "as_file s = Some (as_data s)"
    using assms(2) by (auto simp: RevokeToken_def save_def put_tokens_def split: if_splits)
  have "dead e secret (as_data s)"
    unfolding dead_def list_all_iff s(1) by (rule revoke_kills [OF live assms(3) [unfolded list_all_iff]])
  with s(2) have "stored (dead e secret) s" by (simp add: stored_def)
  from dead_tokens.run_stored [OF this assms(4)] have "dead e secret (as_data (fold (auth_apply e) evs s))" by (simp add: stored_def)
  then show ?thesis by (auto simp: VerifyToken_def find_None_iff dead_def list_all_iff)
qed

theorem revocation_permanent_witness:
  "\<exists>s. RevokeToken True ''ci'' demo_auth = (s, None) \<and> VerifyToken demo_auth_env ''tby_A'' demo_auth \<noteq> None
     \<and> VerifyToken demo_auth_env ''tby_A'' (fold (auth_apply demo_auth_env) [EvRestart, EvDelete True ''bob''] s) = None"
proof -
  have l: "stored one_live demo_auth" by (simp add: stored_def demo_auth_def demo_schema_def one_live_def)
  obtain s where s: "RevokeToken True ''ci'' (fold (auth_apply demo_auth_env) [] demo_auth) = (s, None)"
    by (simp add: RevokeToken_def demo_auth_def demo_schema_def save_def)
  have "VerifyToken demo_auth_env ''tby_A'' (fold (auth_apply demo_auth_env) [EvRestart, EvDelete True ''bob''] s) = None"
    by (rule revocation_permanent [OF l s]) (simp_all add: demo_auth_def demo_schema_def spares_def)
  moreover have "VerifyToken demo_auth_env ''tby_A'' demo_auth \<noteq> None"
    by (simp add: VerifyToken_def demo_auth_def demo_schema_def token_hash_def demo_auth_env_def)
  ultimately show ?thesis using s by auto
qed

end
