(* ===== verification/Auth_Access.thy ===== *)
theory Auth_Access
  imports Auth
begin

text \<open>
  Who gets in: the failure limiter of \<^verbatim>\<open>auth/ratelimit.go\<close> and the machine surfaces of
  \<^verbatim>\<open>auth/middleware.go\<close>, with the parts of \<^verbatim>\<open>net/http\<close> and \<^verbatim>\<open>net\<close> that read a
  credential and an origin off a request. The budget of a bucket is counted in nanoseconds of
  refill instead of fractions of a failure, which makes it exact; log lines are left out and
  audit records are part of the result.
\<close>

subsection \<open>Requests\<close>

record request =
  rq_method :: string
  rq_authorization :: string
  rq_remoteAddr :: string
  rq_session :: "string option"
  rq_path :: string

text \<open>\<^verbatim>\<open>base64.StdEncoding\<close>: padded to groups of four.\<close>

definition drop_padding :: "string \<Rightarrow> string" where
  "drop_padding s =
     (if suffix ''=='' s then take (length s - 2) s else if suffix ''='' s then take (length s - 1) s else s)"

definition b64_std_decode :: "string \<Rightarrow> bytes option" where
  "b64_std_decode s =
     (let t = filter (\<lambda>c. c \<notin> {CHR 0x0A, CHR 0x0D}) s
      in if length t mod 4 \<noteq> 0 then None else b64_decode (drop_padding t))"

definition cut_colon :: "string \<Rightarrow> (string \<times> string) option" where
  "cut_colon s = map_option (\<lambda>i. (take i s, drop (Suc i) s)) (index_byte CHR '':'' s)"

definition BasicAuth :: "request \<Rightarrow> (string \<times> string) option" where
  "BasicAuth r =
     (let h = rq_authorization r
      in if to_lower (take 6 h) \<noteq> ''basic '' then None
         else Option.bind (b64_std_decode (drop 6 h)) cut_colon)"

text \<open>\<^verbatim>\<open>net.SplitHostPort\<close>, the host or an error.\<close>

definition split_host :: "string \<Rightarrow> string option" where
  "split_host hp =
     (case last_index_byte CHR '':'' hp of
        None \<Rightarrow> None
      | Some i \<Rightarrow>
          if has_prefix hp ''[''
          then (case index_byte CHR '']'' hp of
                  None \<Rightarrow> None
                | Some k \<Rightarrow>
                    if Suc k \<noteq> i then None
                    else (let host = take (k - 1) (drop 1 hp)
                          in if CHR ''['' \<in> set (drop 1 hp) \<or> CHR '']'' \<in> set (drop (Suc k) hp) then None else Some host))
          else (let host = take i hp
                in if CHR '':'' \<in> set host \<or> CHR ''['' \<in> set hp \<or> CHR '']'' \<in> set hp then None else Some host))"

definition ClientOrigin :: "request \<Rightarrow> string" where
  "ClientOrigin r = (case split_host (rq_remoteAddr r) of None \<Rightarrow> rq_remoteAddr r | Some host \<Rightarrow> host)"

subsection \<open>The failure limiter\<close>

abbreviation failureRefill :: int where "failureRefill \<equiv> 30 * second"
abbreviation failureBudget :: int where "failureBudget \<equiv> 10 * failureRefill"
abbreviation failureOrigins :: nat where "failureOrigins \<equiv> 4096"

record failureBucket =
  fb_remaining :: int
  fb_updated :: instant

type_synonym failureLimiter = "(string \<times> failureBucket) list"

definition refreshLocked :: "instant \<Rightarrow> failureBucket \<Rightarrow> failureBucket" where
  "refreshLocked now b =
     (let elapsed = now - fb_updated b;
          rem = (if elapsed > 0 then (let r = fb_remaining b + elapsed in if r > failureBudget then failureBudget else r) else fb_remaining b)
      in \<lparr>fb_remaining = rem, fb_updated = now\<rparr>)"

definition allowed :: "string \<Rightarrow> instant \<Rightarrow> failureLimiter \<Rightarrow> failureLimiter \<times> bool" where
  "allowed origin now l =
     (case map_of l origin of
        None \<Rightarrow> (l, True)
      | Some b \<Rightarrow> (let b = refreshLocked now b in (map_put origin b l, fb_remaining b \<ge> failureRefill)))"

definition sweepLocked :: "instant \<Rightarrow> failureLimiter \<Rightarrow> failureLimiter" where
  "sweepLocked now l =
     (if length l < failureOrigins then l
      else (let l = filter (\<lambda>(k, b). \<not> fb_remaining b \<ge> failureBudget) (map (\<lambda>(k, b). (k, refreshLocked now b)) l)
            in if length l \<ge> failureOrigins then [] else l))"

definition record_failure :: "string \<Rightarrow> instant \<Rightarrow> failureLimiter \<Rightarrow> failureLimiter \<times> bool" where
  "record_failure origin now l =
     (let (l, b) = (case map_of l origin of
                      Some b \<Rightarrow> (l, b)
                    | None \<Rightarrow> (sweepLocked now l, \<lparr>fb_remaining = failureBudget, fb_updated = now\<rparr>));
          b = refreshLocked now b;
          before = fb_remaining b;
          rem = before - failureRefill;
          rem = (if rem < 0 then 0 else rem)
      in (map_put origin (b\<lparr>fb_remaining := rem\<rparr>) l, before \<ge> failureRefill \<and> rem < failureRefill))"

subsection \<open>Authentication\<close>

record Authenticator =
  an_Store :: AuthStore
  an_Sessions :: "Sessions option"
  an_Disabled :: bool
  an_AuthWindow :: int
  an_seen :: "(string \<times> instant) list"
  an_failures :: failureLimiter

definition AnonymousIdentity :: Identity where
  "AnonymousIdentity = \<lparr>id_Name = ''anonymous'', id_Role = RoleAdmin, id_Token = False, id_Anonymous = True\<rparr>"

definition no_identity :: Identity where
  "no_identity = \<lparr>id_Name = [], id_Role = [], id_Token = False, id_Anonymous = False\<rparr>"

definition token_identity :: "Token \<Rightarrow> Identity" where
  "token_identity t = \<lparr>id_Name = tk_Name t, id_Role = tk_Role t, id_Token = True, id_Anonymous = False\<rparr>"

definition account_identity :: "Account \<Rightarrow> Identity" where
  "account_identity a = \<lparr>id_Name = ac_Name a, id_Role = ac_Role a, id_Token = False, id_Anonymous = False\<rparr>"

datatype authentication = Authenticated Identity | NotAuthenticated | AuthPanics

text \<open>\<open>written\<close> is the outcome of the best-effort write of the login time.\<close>

definition Authenticate :: "auth_env \<Rightarrow> bool \<Rightarrow> instant \<Rightarrow> request \<Rightarrow> Authenticator \<Rightarrow> Authenticator \<times> authentication" where
  "Authenticate e written now r a =
     (if an_Disabled a then (a, Authenticated AnonymousIdentity)
      else (let header = rq_authorization r in
            if has_prefix header ''Bearer ''
            then (a, case VerifyToken e (drop 7 header) (an_Store a) of
                       Some t \<Rightarrow> Authenticated (token_identity t)
                     | None \<Rightarrow> NotAuthenticated)
            else if has_prefix header ''Basic ''
            then (case BasicAuth r of
                    None \<Rightarrow> (a, NotAuthenticated)
                  | Some (name, pass) \<Rightarrow>
                      if has_prefix pass tokenPrefix
                      then (a, case VerifyToken e pass (an_Store a) of
                                 Some t \<Rightarrow> Authenticated (token_identity t)
                               | None \<Rightarrow> NotAuthenticated)
                      else (let (s, l) = VerifyPassword e written name pass now (an_Store a)
                            in (a\<lparr>an_Store := s\<rparr>,
                                case l of LoginOK acct \<Rightarrow> Authenticated (account_identity acct)
                                        | LoginRefused \<Rightarrow> NotAuthenticated
                                        | LoginPanics \<Rightarrow> AuthPanics)))
            else (a, NotAuthenticated)))"

datatype verdict = verdictOK | verdictNone | verdictFailed | verdictThrottled | verdictPanics

datatype audit_event =
  AuthSuccess string string string
| AuthFailure string string string
| AccessDenied string string string

definition credentialPresented :: "request \<Rightarrow> bool" where
  "credentialPresented r = (rq_authorization r \<noteq> [])"

definition presentedName :: "request \<Rightarrow> string" where
  "presentedName r = (case BasicAuth r of Some (name, _) \<Rightarrow> if name \<noteq> [] then name else ''unauthenticated'' | None \<Rightarrow> ''unauthenticated'')"

abbreviation defaultAuthWindow :: int where "defaultAuthWindow \<equiv> 3600 * second"
abbreviation seenCap :: nat where "seenCap \<equiv> 4096"

definition recordSuccess :: "auth_env \<Rightarrow> string \<Rightarrow> instant \<Rightarrow> request \<Rightarrow> Authenticator \<Rightarrow> Authenticator \<times> bool" where
  "recordSuccess e surface now r a =
     (let key = surface @ ''|'' @ ClientOrigin r @ ''|'' @ hex_encode (ae_sha256 e (rq_authorization r));
          window = (if an_AuthWindow a \<le> 0 then defaultAuthWindow else an_AuthWindow a);
          recent = (case map_of (an_seen a) key of Some prev \<Rightarrow> now - prev < window | None \<Rightarrow> False)
      in if recent then (a, False)
         else (let seen = (if length (an_seen a) \<ge> seenCap
                           then (let kept = filter (\<lambda>(k, t). \<not> now - t \<ge> window) (an_seen a)
                                 in if length kept \<ge> seenCap then [] else kept)
                           else an_seen a)
               in (a\<lparr>an_seen := map_put key now seen\<rparr>, True)))"

definition authenticateAudited ::
  "auth_env \<Rightarrow> bool \<Rightarrow> instant \<Rightarrow> string \<Rightarrow> request \<Rightarrow> Authenticator \<Rightarrow> Authenticator \<times> Identity \<times> verdict \<times> audit_event list" where
  "authenticateAudited e written now surface r a =
     (if an_Disabled a then (a, AnonymousIdentity, verdictOK, [])
      else if \<not> credentialPresented r then (a, no_identity, verdictNone, [])
      else (let origin = ClientOrigin r;
                (l, ok) = allowed origin now (an_failures a);
                a = a\<lparr>an_failures := l\<rparr>
            in if \<not> ok then (a, no_identity, verdictThrottled, [])
               else (case Authenticate e written now r a of
                       (a, AuthPanics) \<Rightarrow> (a, no_identity, verdictPanics, [])
                     | (a, NotAuthenticated) \<Rightarrow>
                         (a\<lparr>an_failures := fst (record_failure origin now (an_failures a))\<rparr>, no_identity, verdictFailed,
                          [AuthFailure (presentedName r) surface origin])
                     | (a, Authenticated i) \<Rightarrow>
                         (let (a, new) = recordSuccess e surface now r a
                          in (a, i, verdictOK, if new then [AuthSuccess (id_Name i) surface origin] else [])))))"

datatype response = Serve Identity | Unauthorized | Forbidden | TooManyRequests | Aborted

definition deny :: "request \<Rightarrow> string \<Rightarrow> audit_event" where
  "deny r actor = AccessDenied (if actor = [] then ''unauthenticated'' else actor) (rq_path r) (ClientOrigin r)"

definition reads :: "request \<Rightarrow> bool" where
  "reads r = (rq_method r = ''GET'' \<or> rq_method r = ''HEAD'')"

definition Registry_access ::
  "auth_env \<Rightarrow> bool \<Rightarrow> instant \<Rightarrow> request \<Rightarrow> Authenticator \<Rightarrow> Authenticator \<times> response \<times> audit_event list" where
  "Registry_access e written now r a =
     (let (a, i, v, log) = authenticateAudited e written now ''registry'' r a
      in case v of
           verdictThrottled \<Rightarrow> (a, TooManyRequests, log)
         | verdictPanics \<Rightarrow> (a, Aborted, log)
         | verdictNone \<Rightarrow> (a, Unauthorized, log @ [deny r []])
         | verdictFailed \<Rightarrow> (a, Unauthorized, log)
         | verdictOK \<Rightarrow>
             if \<not> AtLeast (id_Role i) (if reads r then RoleViewer else RoleOperator)
             then (a, Forbidden, log @ [deny r (id_Name i)])
             else (a, Serve i, log))"

definition sessionIdentity :: "instant \<Rightarrow> request \<Rightarrow> Authenticator \<Rightarrow> Authenticator \<times> Identity option" where
  "sessionIdentity now r a =
     (case (an_Sessions a, rq_session r) of
        (Some t, Some sid) \<Rightarrow>
          if sid = [] then (a, None)
          else (let (t, x) = Get_session sid now t
                in (a\<lparr>an_Sessions := Some t\<rparr>,
                    map_option (\<lambda>x. \<lparr>id_Name = ss_Account x, id_Role = ss_Role x, id_Token = False, id_Anonymous = False\<rparr>) x))
      | _ \<Rightarrow> (a, None))"

definition API_access ::
  "auth_env \<Rightarrow> bool \<Rightarrow> instant \<Rightarrow> request \<Rightarrow> Authenticator \<Rightarrow> Authenticator \<times> response \<times> audit_event list" where
  "API_access e written now r a =
     (let (a, i, v, log) = authenticateAudited e written now ''api'' r a
      in if v = verdictThrottled then (a, TooManyRequests, log)
         else if v = verdictPanics then (a, Aborted, log)
         else if v = verdictOK then (a, Serve i, log)
         else (let (a, s) = (if reads r then sessionIdentity now r a else (a, None))
               in case s of
                    Some i \<Rightarrow> (a, Serve i, log)
                  | None \<Rightarrow> (a, Unauthorized, if v = verdictNone then log @ [deny r []] else log)))"


subsection \<open>The budget of an origin\<close>

definition budget :: "string \<Rightarrow> instant \<Rightarrow> failureLimiter \<Rightarrow> int" where
  "budget org now l = (case map_of l org of None \<Rightarrow> failureBudget | Some b \<Rightarrow> fb_remaining (refreshLocked now b))"

definition bucket_ok :: "instant \<Rightarrow> failureBucket \<Rightarrow> bool" where
  "bucket_ok now b \<longleftrightarrow> 0 \<le> fb_remaining b \<and> fb_remaining b \<le> failureBudget \<and> fb_updated b \<le> now"

definition limiter_ok :: "instant \<Rightarrow> failureLimiter \<Rightarrow> bool" where
  "limiter_ok now l \<longleftrightarrow> distinct (map fst l) \<and> (\<forall>k b. map_of l k = Some b \<longrightarrow> bucket_ok now b)"

lemma refresh_simps [simp]:
  "fb_updated (refreshLocked now b) = now" "refreshLocked now (refreshLocked now b) = refreshLocked now b"
  by (simp_all add: refreshLocked_def Let_def)

lemma refresh_ok [simp]: "bucket_ok now b \<Longrightarrow> bucket_ok now (refreshLocked now b)"
  by (auto simp: bucket_ok_def refreshLocked_def Let_def)

lemma refresh_grows:
  assumes "bucket_ok t b" "t \<le> now"
  shows "fb_remaining (refreshLocked now b) \<le> fb_remaining (refreshLocked t b) + (now - t)"
  using assms by (auto simp: bucket_ok_def refreshLocked_def Let_def)

lemma budget_bounds: "limiter_ok now l \<Longrightarrow> 0 \<le> budget org now l \<and> budget org now l \<le> failureBudget"
  using refresh_ok by (fastforce simp: budget_def limiter_ok_def bucket_ok_def split: option.split)

lemma budget_grows: "limiter_ok t l \<Longrightarrow> t \<le> now \<Longrightarrow> budget org now l \<le> budget org t l + (now - t)"
  using refresh_grows by (auto simp: budget_def limiter_ok_def split: option.split)

lemma limiter_ok_later: "limiter_ok t l \<Longrightarrow> t \<le> now \<Longrightarrow> limiter_ok now l"
  by (fastforce simp: limiter_ok_def bucket_ok_def)

lemma limiter_ok_put:
  assumes "limiter_ok now l" "bucket_ok now b"
  shows "limiter_ok now (map_put k b l)"
  unfolding limiter_ok_def
proof (intro conjI allI impI)
  show "distinct (map fst (map_put k b l))" using assms(1) unfolding limiter_ok_def by (blast intro: distinct_put)
  show "bucket_ok now c" if "map_of (map_put k b l) j = Some c" for j c
    using that assms unfolding map_of_put limiter_ok_def by (metis fun_upd_apply option.inject)
qed

lemma allowed_step:
  assumes "allowed src now l = (l', ok)" and "limiter_ok now l"
  shows "limiter_ok now l'" "budget org now l' = budget org now l" "fst ` set l' = fst ` set l" "ok \<longleftrightarrow> budget src now l \<ge> failureRefill"
proof -
  have "limiter_ok now l' \<and> budget org now l' = budget org now l \<and> fst ` set l' = fst ` set l \<and> (ok \<longleftrightarrow> budget src now l \<ge> failureRefill)"
  proof (cases "map_of l src")
    case None
    with assms show ?thesis by (auto simp: allowed_def budget_def)
  next
    case (Some b)
    then have "src \<in> fst ` set l" by (metis map_of_eq_None_iff option.distinct(1))
    then have k: "fst ` set (map_put src (refreshLocked now b) l) = fst ` set l" unfolding keys_put by (rule insert_absorb)
    have "bucket_ok now b" using assms(2) Some unfolding limiter_ok_def by blast
    then have "limiter_ok now (map_put src (refreshLocked now b) l)" by (intro limiter_ok_put [OF assms(2)] refresh_ok)
    with Some assms(1) k show ?thesis by (auto simp: allowed_def budget_def Let_def)
  qed
  then show "limiter_ok now l'" "budget org now l' = budget org now l" "fst ` set l' = fst ` set l" "ok \<longleftrightarrow> budget src now l \<ge> failureRefill"
    by blast+
qed

lemma record_step:
  assumes "limiter_ok now l" "length l < failureOrigins" "budget src now l \<ge> failureRefill"
  defines "l' \<equiv> fst (record_failure src now l)"
  shows "limiter_ok now l'" "budget org now l' = budget org now l - (if org = src then failureRefill else 0)"
    "fst ` set l' = insert src (fst ` set l)"
proof -
  let ?b = "case map_of l src of Some b \<Rightarrow> b | None \<Rightarrow> \<lparr>fb_remaining = failureBudget, fb_updated = now\<rparr>"
  let ?c = "(refreshLocked now ?b)\<lparr>fb_remaining := fb_remaining (refreshLocked now ?b) - failureRefill\<rparr>"
  have full: "refreshLocked now \<lparr>fb_remaining = failureBudget, fb_updated = now\<rparr> = \<lparr>fb_remaining = failureBudget, fb_updated = now\<rparr>"
    by (simp add: refreshLocked_def)
  have b: "fb_remaining (refreshLocked now ?b) = budget src now l"
    using full by (auto simp: budget_def split: option.split)
  have l': "l' = map_put src ?c l"
    using assms(2,3) b by (auto simp: l'_def record_failure_def sweepLocked_def Let_def full split: option.splits)
  have c: "fb_remaining ?c = budget src now l - failureRefill" "fb_updated ?c = now" using b by simp_all
  have "refreshLocked now ?c = ?c" using c(2) by (simp add: refreshLocked_def)
  then show "budget org now l' = budget org now l - (if org = src then failureRefill else 0)"
    using c(1) by (auto simp: l' budget_def)
  have "bucket_ok now ?c" using c budget_bounds [OF assms(1), of src] assms(3) by (simp add: bucket_ok_def)
  then show "limiter_ok now l'" unfolding l' by (rule limiter_ok_put [OF assms(1)])
  show "fst ` set l' = insert src (fst ` set l)" using keys_put [of src ?c l] by (simp add: l')
qed

lemma Authenticate_failures: "Authenticate e w now r a = (a', x) \<Longrightarrow> an_failures a' = an_failures a \<and> an_Disabled a' = an_Disabled a"
  by (auto simp: Authenticate_def Let_def case_prod_beta split: if_splits option.splits)

lemma recordSuccess_failures: "an_failures (fst (recordSuccess e surface now r a)) = an_failures a"
  by (simp add: recordSuccess_def Let_def)

lemma audited_step:
  assumes run: "authenticateAudited e w now surface r a = (a', i, v, log)"
    and l: "limiter_ok now (an_failures a)" "length (an_failures a) < failureOrigins"
  shows "limiter_ok now (an_failures a')"
    "budget org now (an_failures a') = budget org now (an_failures a) - (if v = verdictFailed \<and> ClientOrigin r = org then failureRefill else 0)"
    "fst ` set (an_failures a') \<subseteq> insert (ClientOrigin r) (fst ` set (an_failures a))"
proof -
  let ?o = "ClientOrigin r"
  have "limiter_ok now (an_failures a') \<and> fst ` set (an_failures a') \<subseteq> insert ?o (fst ` set (an_failures a))
    \<and> budget org now (an_failures a') = budget org now (an_failures a) - (if v = verdictFailed \<and> ?o = org then failureRefill else 0)"
  proof (cases "an_Disabled a \<or> \<not> credentialPresented r")
    case True
    with run have "a' = a" "v \<noteq> verdictFailed" by (auto simp: authenticateAudited_def split: if_splits)
    with l(1) show ?thesis by auto
  next
    case False
    obtain l1 ok where al: "allowed ?o now (an_failures a) = (l1, ok)" by fastforce
    note st = allowed_step [OF al l(1)]
    show ?thesis
    proof (cases ok)
      case False
      with run \<open>\<not> (an_Disabled a \<or> \<not> credentialPresented r)\<close> al have "a' = a\<lparr>an_failures := l1\<rparr>" "v = verdictThrottled"
        by (simp_all add: authenticateAudited_def Let_def)
      then show ?thesis using st(1,3) st(2) [of org] by (simp add: subset_insertI)
    next
      case True
      obtain a1 x where au: "Authenticate e w now r (a\<lparr>an_failures := l1\<rparr>) = (a1, x)" by fastforce
      then have a1: "an_failures a1 = l1" using Authenticate_failures by fastforce
      have len: "length l1 < failureOrigins"
        using st(1,3) l by (metis distinct_card length_map limiter_ok_def set_map)
      have bud: "budget ?o now l1 \<ge> failureRefill" using True st(4) allowed_step(2) [OF al l(1), of ?o] by simp
      note rec = record_step [OF st(1) len bud]
      have "an_failures a' = l1 \<and> v \<noteq> verdictFailed \<or> an_failures a' = fst (record_failure ?o now l1) \<and> v = verdictFailed"
        using run \<open>\<not> (an_Disabled a \<or> \<not> credentialPresented r)\<close> al True au a1 recordSuccess_failures [of e surface now r a1]
        by (cases x) (auto simp: authenticateAudited_def Let_def case_prod_beta)
      then show ?thesis using st(1,3) rec(1,3) st(2) [of org] rec(2) [of org] by (elim disjE conjE) (simp_all add: subset_insertI)
    qed
  qed
  then show "limiter_ok now (an_failures a')"
    "budget org now (an_failures a') = budget org now (an_failures a) - (if v = verdictFailed \<and> ?o = org then failureRefill else 0)"
    "fst ` set (an_failures a') \<subseteq> insert ?o (fst ` set (an_failures a))" by blast+
qed


subsection \<open>Failures of one origin\<close>

text \<open>One request after the other, and the failed verifications of an origin among them.\<close>

type_synonym attempt_at = "instant \<times> bool \<times> string \<times> request"

fun failed_verifications :: "auth_env \<Rightarrow> string \<Rightarrow> attempt_at list \<Rightarrow> Authenticator \<Rightarrow> nat" where
  "failed_verifications e org [] a = 0"
| "failed_verifications e org ((now, w, surface, r) # xs) a =
     (let (a, i, v, log) = authenticateAudited e w now surface r a
      in (if v = verdictFailed \<and> ClientOrigin r = org then 1 else 0) + failed_verifications e org xs a)"

lemma failed_budget:
  assumes "limiter_ok t (an_failures a)" and "sorted (t # map fst xs @ [t'])"
    and "finite os" "card os < failureOrigins" "fst ` set (an_failures a) \<subseteq> os" "(\<lambda>(now, w, f, r). ClientOrigin r) ` set xs \<subseteq> os"
  shows "failureRefill * int (failed_verifications e org xs a) \<le> budget org t (an_failures a) + (t' - t)"
  using assms
proof (induction xs arbitrary: t a)
  case Nil
  then show ?case using budget_bounds [of t "an_failures a" org] by simp
next
  case (Cons x xs)
  obtain now w surface r where x: "x = (now, w, surface, r)" by (cases x)
  obtain a1 i v log where run: "authenticateAudited e w now surface r a = (a1, i, v, log)" by (metis prod_cases4)
  have t: "t \<le> now" "sorted (now # map fst xs @ [t'])" using Cons.prems(2) x by auto
  have l: "limiter_ok now (an_failures a)" by (rule limiter_ok_later [OF Cons.prems(1) t(1)])
  have "distinct (map fst (an_failures a))" using Cons.prems(1) unfolding limiter_ok_def by blast
  then have "length (an_failures a) \<le> card os"
    using card_mono [OF Cons.prems(3,5)] by (metis distinct_card length_map set_map)
  with Cons.prems(4) have len: "length (an_failures a) < failureOrigins" by simp
  note st = audited_step [OF run l len]
  have "ClientOrigin r \<in> os" using Cons.prems(6) x by simp
  with Cons.prems(5) have "insert (ClientOrigin r) (fst ` set (an_failures a)) \<subseteq> os" by simp
  with st(3) have keys: "fst ` set (an_failures a1) \<subseteq> os" by (rule subset_trans)
  from Cons.IH [OF st(1) t(2) Cons.prems(3,4) keys] Cons.prems(6)
  have "failureRefill * int (failed_verifications e org xs a1) \<le> budget org now (an_failures a1) + (t' - now)" by simp
  moreover have "budget org now (an_failures a) \<le> budget org t (an_failures a) + (now - t)" by (rule budget_grows [OF Cons.prems(1) t(1)])
  ultimately show ?case using st(2) [of org] by (auto simp: x run split: if_splits)
qed

subsection \<open>The check and the record are two steps\<close>

text \<open>A request takes the limiter's lock twice: before the verification it asks \<open>allowed\<close>, after a failed one
  it calls \<open>record_failure\<close>. The state is the limiter, the requests between the two, and the
  failed verifications so far; the clock stands still.\<close>

inductive race :: "string \<Rightarrow> instant \<Rightarrow> failureLimiter \<Rightarrow> nat \<Rightarrow> nat \<Rightarrow> bool" for org now where
  race_init: "race org now [] 0 0"
| race_check: "race org now l k n \<Longrightarrow> allowed org now l = (l', True) \<Longrightarrow> race org now l' (Suc k) n"
| race_fail: "race org now l (Suc k) n \<Longrightarrow> race org now (fst (record_failure org now l)) k (Suc n)"

lemma race_checks: "race org now [] k 0"
  by (induction k) (auto intro: race_init race_check simp: allowed_def)

lemma race_fails: "race org now l (k + m) n \<Longrightarrow> \<exists>l'. race org now l' k (n + m)"
proof (induction m arbitrary: l n)
  case (Suc m)
  from race_fail [of org now l "k + m" n] Suc.prems have "race org now (fst (record_failure org now l)) (k + m) (Suc n)" by simp
  from Suc.IH [OF this] show ?case by simp
qed auto


subsection \<open>Main results\<close>

text \<open>The credential a request presents, as the surfaces accept it: the secret of a live token as bearer or
  as basic password, or a name and password that log in.\<close>

definition presents :: "request \<Rightarrow> string \<Rightarrow> bool" where
  "presents r secret \<longleftrightarrow> rq_authorization r = ''Bearer '' @ secret \<or> (\<exists>name. BasicAuth r = Some (name, secret))"

definition justified :: "auth_env \<Rightarrow> bool \<Rightarrow> instant \<Rightarrow> AuthStore \<Rightarrow> request \<Rightarrow> Identity \<Rightarrow> bool" where
  "justified e w now s r i \<longleftrightarrow>
     (\<exists>secret t. presents r secret \<and> t \<in> set (tokens s) \<and> \<not> tk_Revoked t \<and> tk_Hash t = token_hash e secret \<and> i = token_identity t) \<or>
     (\<exists>name pw s' a. BasicAuth r = Some (name, pw) \<and> VerifyPassword e w name pw now s = (s', LoginOK a) \<and> i = account_identity a)"

lemma Authenticate_justified:
  assumes "Authenticate e w now r a = (a', Authenticated i)" "\<not> an_Disabled a"
  shows "justified e w now (an_Store a) r i"
proof -
  have tok: "justified e w now (an_Store a) r i" if "VerifyToken e secret (an_Store a) = Some t" "i = token_identity t" "presents r secret" for secret t
    using that find_member [of _ "tokens (an_Store a)" t] unfolding justified_def VerifyToken_def by blast
  have bearer: "presents r (drop 7 (rq_authorization r))" if "has_prefix (rq_authorization r) ''Bearer ''"
    using that by (auto simp: presents_def prefix_def)
  show ?thesis
    using assms tok [OF _ _ bearer] tok unfolding Authenticate_def Let_def
    by (auto simp: justified_def presents_def case_prod_beta prod_eq_iff split: if_splits option.splits login.splits)
qed

lemma audited_justified:
  assumes "authenticateAudited e w now surface r a = (a', i, verdictOK, log)" "\<not> an_Disabled a"
  shows "justified e w now (an_Store a) r i"
proof -
  obtain l ok where al: "allowed (ClientOrigin r) now (an_failures a) = (l, ok)" by fastforce
  obtain a1 x where au: "Authenticate e w now r (a\<lparr>an_failures := l\<rparr>) = (a1, x)" by fastforce
  have "x = Authenticated i"
    using assms al au by (cases x) (auto simp: authenticateAudited_def Let_def case_prod_beta split: if_splits)
  with Authenticate_justified [OF au [unfolded this]] assms(2) show ?thesis by simp
qed

text \<open>C17: Nobody reaches the registry without a right to. A request is served only with the secret of a
  token that is live at that moment, or with a password that logs in at that moment, under the role
  of that token or account, which is at least viewer for reads and at least operator for
  everything else; only the override that disables authentication serves without a credential.\<close>

theorem registry_access_sound:
  assumes "Registry_access e w now r a = (a', Serve i, log)"
  shows "AtLeast (id_Role i) (if reads r then RoleViewer else RoleOperator)
    \<and> (if an_Disabled a then i = AnonymousIdentity else justified e w now (an_Store a) r i)"
proof -
  obtain a1 j v log1 where au: "authenticateAudited e w now ''registry'' r a = (a1, j, v, log1)" by (metis prod_cases4)
  have v: "v = verdictOK" "j = i" "AtLeast (id_Role i) (if reads r then RoleViewer else RoleOperator)"
    using assms au by (auto simp: Registry_access_def Let_def split: verdict.splits if_splits)
  have "i = AnonymousIdentity" if "an_Disabled a" using au that v by (simp add: authenticateAudited_def)
  moreover have "justified e w now (an_Store a) r i" if "\<not> an_Disabled a"
    by (rule audited_justified [OF au [unfolded v(1,2)] that])
  ultimately show ?thesis using v(3) by simp
qed

definition demo_authn :: Authenticator where
  "demo_authn = \<lparr>an_Store = demo_auth, an_Sessions = None, an_Disabled = False, an_AuthWindow = 0, an_seen = [], an_failures = []\<rparr>"

definition demo_request :: "string \<Rightarrow> request" where
  "demo_request header = \<lparr>rq_method = ''PUT'', rq_authorization = header, rq_remoteAddr = ''10.0.0.1:555'', rq_session = None, rq_path = ''/v2/''\<rparr>"

lemma demo_bearer: "\<exists>a' log. Registry_access demo_auth_env True 5 (demo_request ''Bearer tby_A'') demo_authn =
    (a', Serve \<lparr>id_Name = ''ci'', id_Role = RoleOperator, id_Token = True, id_Anonymous = False\<rparr>, log)"
  by (simp add: Registry_access_def authenticateAudited_def demo_request_def demo_authn_def credentialPresented_def allowed_def
      Authenticate_def VerifyToken_def demo_auth_def demo_schema_def token_hash_def demo_auth_env_def token_identity_def
      AtLeast_def rank_def reads_def case_prod_beta Let_def)

theorem registry_access_sound_witness:
  "\<exists>t. t \<in> set (tokens demo_auth) \<and> \<not> tk_Revoked t \<and> AtLeast (tk_Role t) RoleOperator"
proof -
  let ?r = "demo_request ''Bearer tby_A''" and ?i = "\<lparr>id_Name = ''ci'', id_Role = RoleOperator, id_Token = True, id_Anonymous = False\<rparr>"
  obtain a' log where run: "Registry_access demo_auth_env True 5 ?r demo_authn = (a', Serve ?i, log)" using demo_bearer by blast
  have w: "\<not> reads ?r" by (simp add: reads_def demo_request_def)
  from registry_access_sound [OF run] w have j: "AtLeast (id_Role ?i) RoleOperator" "justified demo_auth_env True 5 demo_auth ?r ?i"
    by (simp_all add: demo_authn_def)
  from j(2) obtain t where "t \<in> set (tokens demo_auth)" "\<not> tk_Revoked t" "?i = token_identity t"
    by (auto simp: justified_def account_identity_def)
  with j(1) show ?thesis by (metis Identity.select_convs(2) token_identity_def)
qed

text \<open>Guessing is bounded. When requests are handled one after the other and fewer origins than the
  table holds are seen, the failed verifications of one origin number at most ten plus one for
  every thirty seconds that pass.\<close>

theorem failed_verifications_bound:
  assumes "an_failures a = []" and "sorted (t # map fst xs @ [t'])"
    and "card ((\<lambda>(now, w, f, r). ClientOrigin r) ` set xs) < failureOrigins"
  shows "failureRefill * int (failed_verifications e org xs a) \<le> 10 * failureRefill + (t' - t)"
proof -
  have "limiter_ok t (an_failures a)" using assms(1) by (simp add: limiter_ok_def)
  from failed_budget [OF this assms(2) finite_imageI [OF finite_set] assms(3), of e org] assms(1)
  show ?thesis by (simp add: budget_def)
qed

theorem failed_verifications_bound_witness:
  "failureRefill * int (failed_verifications demo_auth_env ''10.0.0.1'' (replicate 12 (5, True, ''api'', demo_request ''Bearer x'')) demo_authn)
     \<le> 10 * failureRefill + (7 - 5)"
  by (rule failed_verifications_bound) (simp_all add: demo_authn_def sorted_append card_insert_if numeral_eq_Suc)

text \<open>Under concurrent requests the bound does not hold. The limiter is asked before the verification
  and charged after it, so any number of requests of one origin can pass the check before the
  first one is charged: any number of failed verifications happen at one instant.\<close>

theorem limiter_race_unbounded:
  "\<exists>l. race org now l 0 n"
  using race_fails [of org now "[]" 0 n 0] race_checks [of org now n] by simp

text \<open>A throttled origin costs nothing. While its budget is short of one failure, a request with a
  credential is answered with 429 on both machine surfaces, and neither the accounts nor the
  sessions nor the audit trail are touched.\<close>

theorem throttled_costs_nothing:
  assumes "\<not> an_Disabled a" and "credentialPresented r" and "limiter_ok now (an_failures a)"
    and "budget (ClientOrigin r) now (an_failures a) < failureRefill"
  shows "\<exists>l. Registry_access e w now r a = (a\<lparr>an_failures := l\<rparr>, TooManyRequests, [])
    \<and> API_access e w now r a = (a\<lparr>an_failures := l\<rparr>, TooManyRequests, [])
    \<and> budget (ClientOrigin r) now l < failureRefill"
proof -
  obtain l ok where al: "allowed (ClientOrigin r) now (an_failures a) = (l, ok)" by fastforce
  from allowed_step(2,4) [OF al assms(3)] assms(4) have "\<not> ok" "budget (ClientOrigin r) now l < failureRefill" by simp_all
  with assms(1,2) al show ?thesis
    by (intro exI [of _ l]) (simp add: Registry_access_def API_access_def authenticateAudited_def Let_def)
qed

theorem throttled_costs_nothing_witness:
  "\<exists>l. Registry_access demo_auth_env True 5 (demo_request ''Bearer tby_A'')
     (demo_authn\<lparr>an_failures := [(''10.0.0.1'', \<lparr>fb_remaining = 0, fb_updated = 5\<rparr>)]\<rparr>)
     = (demo_authn\<lparr>an_failures := l\<rparr>, TooManyRequests, [])"
proof -
  let ?a = "demo_authn\<lparr>an_failures := [(''10.0.0.1'', \<lparr>fb_remaining = 0, fb_updated = 5\<rparr>)]\<rparr>" and ?r = "demo_request ''Bearer tby_A''"
  have o: "ClientOrigin ?r = ''10.0.0.1''" by code_simp
  have "\<exists>l. Registry_access demo_auth_env True 5 ?r ?a = (?a\<lparr>an_failures := l\<rparr>, TooManyRequests, [])
    \<and> API_access demo_auth_env True 5 ?r ?a = (?a\<lparr>an_failures := l\<rparr>, TooManyRequests, []) \<and> budget (ClientOrigin ?r) 5 l < failureRefill"
    proof (rule throttled_costs_nothing)
    show "credentialPresented ?r" by (simp add: credentialPresented_def demo_request_def)
  qed (simp_all add: o demo_authn_def limiter_ok_def bucket_ok_def budget_def refreshLocked_def)
  then show ?thesis by auto
qed

end
