(* ===== verification/Media_Write.thy ===== *)
theory Media_Write
  imports Media_Results Store "HOL-Library.Product_Lexorder" "HOL-Library.Multiset"
begin

text \<open>
  The producing side of a medium, \<^verbatim>\<open>Write\<close> of \<^verbatim>\<open>media/manifest.go\<close>, and what the two sides
  promise each other: a store that holds what its recipes deliver, written on one side and carried
  over unaltered, is cleared on the other.
\<close>

subsection \<open>The writer\<close>

text \<open>What \<^verbatim>\<open>filepath.WalkDir\<close> hands to the callback, in order: directories, other entries, regular
  files by their slash path below the root, and errors, of which ``does not exist'' is one.\<close>

datatype went = WDir | WOther | WFile string | WGone | WErr string

datatype write_error = NoStoreFormat | FormatUnparsed | GraphUnreadable store_error | Inventorying string string | WritingManifest

record meta_source =
  ms_medium :: medium
  ms_entries :: "string \<Rightarrow> went list"
  ms_cancel :: "string \<Rightarrow> nat \<Rightarrow> string option"
  ms_parse_format :: "string \<Rightarrow> int option"
  ms_records :: "store_error + RecipeRecord list"
  ms_mediaID :: string
  ms_version :: string
  ms_written :: bool

record WriteOptions =
  wo_Zone :: string
  wo_RunID :: string
  wo_ResolvedAt :: time

definition readStoreFormat :: "meta_source \<Rightarrow> write_error + int" where
  "readStoreFormat src =
     (case md_file (ms_medium src) ''meta/format.json'' of
        Content raw \<Rightarrow> (case ms_parse_format src raw of None \<Rightarrow> Inl FormatUnparsed | Some n \<Rightarrow> Inr n)
      | _ \<Rightarrow> Inl NoStoreFormat)"

definition hashFile :: "media_env \<Rightarrow> medium \<Rightarrow> string \<Rightarrow> string + File" where
  "hashFile e md p =
     (case md_file md p of
        Content bs \<Rightarrow> Inr \<lparr>fi_Path = p, fi_Size = int (length bs), fi_Digest = ''sha256:'' @ hex_encode (me_sum256 e bs)\<rparr>
      | Broken _ \<Rightarrow> Inl (me_text e (CannotRead p))
      | Irregular \<Rightarrow> Inl (me_text e (CannotRead p))
      | Absent \<Rightarrow> Inl (me_text e (CannotOpen p))
      | Sealed \<Rightarrow> Inl (me_text e (CannotOpen p)))"

text \<open>The callback over the entries of one covered root. ``Does not exist'' ends the walk of the root
  without an error, wherever it happens.\<close>

fun inventory_walk :: "media_env \<Rightarrow> medium \<Rightarrow> (nat \<Rightarrow> string option) \<Rightarrow> nat \<Rightarrow> went list \<Rightarrow> string + File list" where
  "inventory_walk e md ctx n [] = Inr []"
| "inventory_walk e md ctx n (x # xs) =
     (case x of
        WGone \<Rightarrow> Inr []
      | WErr d \<Rightarrow> Inl d
      | _ \<Rightarrow>
          (case ctx n of
             Some d \<Rightarrow> Inl d
           | None \<Rightarrow>
               (case x of
                  WFile p \<Rightarrow>
                    if \<not> covered p then inventory_walk e md ctx (Suc n) xs
                    else bind_r (hashFile e md p) (\<lambda>f. bind_r (inventory_walk e md ctx (Suc n) xs) (\<lambda>fs. Inr (f # fs)))
                | _ \<Rightarrow> inventory_walk e md ctx (Suc n) xs)))"

fun inventory_roots :: "media_env \<Rightarrow> meta_source \<Rightarrow> string list \<Rightarrow> write_error + File list" where
  "inventory_roots e src [] = Inr []"
| "inventory_roots e src (sub # subs) =
     (case inventory_walk e (ms_medium src) (ms_cancel src sub) 0 (ms_entries src sub) of
        Inl d \<Rightarrow> Inl (Inventorying sub d)
      | Inr fs \<Rightarrow> bind_r (inventory_roots e src subs) (\<lambda>gs. Inr (fs @ gs)))"

definition inventoryOf :: "media_env \<Rightarrow> meta_source \<Rightarrow> write_error + File list \<times> Totals" where
  "inventoryOf e src =
     bind_r (inventory_roots e src coveredRoots) (\<lambda>fs.
       Inr (sort_key fi_Path fs, \<lparr>to_Files = int (length fs), to_Bytes = sum_list (map fi_Size fs)\<rparr>))"

text \<open>\<^verbatim>\<open>sort.Slice\<close> leaves the order of equal keys open; the model keeps the order they came in.\<close>

definition ingredient_of :: "IngredientRecord \<Rightarrow> Ingredient" where
  "ingredient_of i = \<lparr>in_Name = ir_Name i, in_Kind = ir_Kind i, in_Repo = ir_Repo i, in_Tag = ir_Tag i, in_Digest = ir_Digest i\<rparr>"

definition recipe_of :: "RecipeRecord \<Rightarrow> Recipe" where
  "recipe_of r = \<lparr>rc_Name = rr_Name r, rc_Version = rr_Version r, rc_CookbookRepo = rr_CookbookRepo r, rc_ArtifactRepo = rr_ArtifactRepo r,
     rc_ArtifactTag = rr_ArtifactTag r, rc_Digest = rr_Digest r, rc_ResolvedAt = rr_ResolvedAt r,
     rc_Ingredients = sort_key in_Name (map ingredient_of (rr_Ingredients r))\<rparr>"

definition recipesOf :: "RecipeRecord list \<Rightarrow> Recipe list" where
  "recipesOf rs = sort_key (\<lambda>r. (rc_Name r, rc_Version r)) (map recipe_of rs)"

definition Write_media :: "media_env \<Rightarrow> meta_source \<Rightarrow> WriteOptions \<Rightarrow> time \<Rightarrow> write_error + Manifest" where
  "Write_media e src opts now =
     bind_r (readStoreFormat src) (\<lambda>format.
       case ms_records src of
         Inl x \<Rightarrow> Inl (GraphUnreadable x)
       | Inr records \<Rightarrow>
           bind_r (inventoryOf e src) (\<lambda>(files, totals).
             if \<not> ms_written src then Inl WritingManifest
             else Inr \<lparr>mm_MediaFormat = ManifestFormat, mm_StoreFormat = format, mm_MediaID = ms_mediaID src, mm_Zone = wo_Zone opts,
                  mm_ProducedBy = \<lparr>pd_Version = ms_version src, pd_RunID = wo_RunID opts\<rparr>,
                  mm_ResolvedAt = (if wo_ResolvedAt opts = 0 then now else wo_ResolvedAt opts), mm_WrittenAt = now,
                  mm_Recipes = recipesOf records, mm_Inventory = files, mm_Totals = totals\<rparr>))"

subsection \<open>The inventory\<close>

lemma inventory_walk_sound:
  "inventory_walk e md ctx n xs = Inr fs \<Longrightarrow> f \<in> set fs \<Longrightarrow> hashFile e md (fi_Path f) = Inr f \<and> covered (fi_Path f) \<and> WFile (fi_Path f) \<in> set xs"
proof (induction xs arbitrary: n fs)
  case (Cons x xs)
  show ?case
  proof (cases x)
    case (WFile p)
    show ?thesis
    proof (cases "covered p \<and> ctx n = None")
      case True
      then obtain g gs where g: "hashFile e md p = Inr g" "inventory_walk e md ctx (Suc n) xs = Inr gs" "fs = g # gs"
        using Cons.prems(1) WFile by (auto simp: bind_r_Inr_iff)
      have "fi_Path g = p" using g(1) by (auto simp: hashFile_def split: mfile.splits)
      with g Cons.IH [OF g(2)] Cons.prems(2) WFile True show ?thesis by auto
    next
      case False
      with Cons WFile show ?thesis by (fastforce split: option.splits)
    qed
  qed (use Cons in \<open>auto split: option.splits\<close>)
qed simp

text \<open>Every covered file the walk meets before it ends.\<close>

abbreviation met :: "went list \<Rightarrow> went set" where
  "met xs \<equiv> set (takeWhile (\<lambda>x. x \<noteq> WGone) xs)"

lemma inventory_walk_full:
  "inventory_walk e md ctx n xs = Inr fs \<Longrightarrow> WFile p \<in> met xs \<Longrightarrow> covered p \<Longrightarrow> p \<in> fi_Path ` set fs"
proof (induction xs arbitrary: n fs)
  case (Cons x xs)
  show ?case
  proof (cases x)
    case (WFile q)
    show ?thesis
    proof (cases "covered q \<and> ctx n = None")
      case True
      then obtain g gs where g: "hashFile e md q = Inr g" "inventory_walk e md ctx (Suc n) xs = Inr gs" "fs = g # gs"
        using Cons.prems(1) WFile by (auto simp: bind_r_Inr_iff)
      have "fi_Path g = q" using g(1) by (auto simp: hashFile_def split: mfile.splits)
      with g Cons.IH [OF g(2)] Cons.prems WFile show ?thesis by auto
    next
      case False
      with Cons WFile show ?thesis by (fastforce split: option.splits)
    qed
  qed (use Cons in \<open>auto split: option.splits\<close>)
qed simp

text \<open>An entry that is gone when the walk reaches it hides all that comes after it.\<close>

lemma inventory_walk_gone: "inventory_walk e md ctx n (xs @ WGone # ys) = inventory_walk e md ctx n xs"
  by (induction xs arbitrary: n) (auto split: went.split option.split)

lemma inventory_roots_sound:
  "inventory_roots e src subs = Inr fs \<Longrightarrow> f \<in> set fs \<Longrightarrow> hashFile e (ms_medium src) (fi_Path f) = Inr f \<and> covered (fi_Path f)"
  by (induction subs arbitrary: fs) (auto simp: bind_r_Inr_iff dest: inventory_walk_sound split: sum.splits)

lemma inventory_roots_full:
  "inventory_roots e src subs = Inr fs \<Longrightarrow> sub \<in> set subs \<Longrightarrow> WFile p \<in> met (ms_entries src sub) \<Longrightarrow> covered p \<Longrightarrow> p \<in> fi_Path ` set fs"
proof (induction subs arbitrary: fs)
  case (Cons x subs)
  then show ?case by (auto simp: bind_r_Inr_iff image_Un dest: inventory_walk_full split: sum.splits)
qed simp

subsection \<open>A walk over sound files\<close>

text \<open>Every listed file is sound and nobody cancels. A walk that goes on has no reason yet, the listed
  files as its inventory, and no cached refusal of a listed file.\<close>

definition clean :: "media_env \<Rightarrow> medium \<Rightarrow> (string \<times> File) list \<Rightarrow> bool" where
  "clean e md files \<longleftrightarrow> (\<forall>n. md_cancel md n = None) \<and> (\<forall>p. map_of files p \<noteq> None \<longrightarrow> sound e md files p)"

definition open_cache :: "media_env \<Rightarrow> medium \<Rightarrow> (string \<times> File) list \<Rightarrow> checker \<Rightarrow> bool" where
  "open_cache e md files c \<longleftrightarrow> ck_inventory c = files \<and> cache_ok e md c
     \<and> (\<forall>p. map_of files p \<noteq> None \<longrightarrow> ck_results c p \<in> {None, Some None})"

definition going :: "media_env \<Rightarrow> medium \<Rightarrow> (string \<times> File) list \<Rightarrow> walk \<Rightarrow> bool" where
  "going e md files w \<longleftrightarrow> wk_reason w = None \<and> open_cache e md files (wk_c w)"

lemma sound_checks:
  assumes "sound e md (ck_inventory c) p"
  shows "snd (checkUncached e md p recipe c) = None"
  using assms by (auto simp: sound_def checkUncached_def Let_def split: option.split)

lemma check_open:
  assumes "clean e md files" "open_cache e md files c" "map_of files p \<noteq> None"
  obtains c' where "check e md p recipe c = (c', None)" "open_cache e md files c'"
proof -
  obtain c' reason where ch: "check e md p recipe c = (c', reason)" by fastforce
  let ?c = "c\<lparr>ck_reached := insert p (ck_reached c)\<rparr>"
  have i: "ck_inventory c = files" "cache_ok e md c" and res: "ck_results c p \<in> {None, Some None}"
    using assms(2,3) by (auto simp: open_cache_def)
  have s: "sound e md files p" using assms(1,3) by (auto simp: clean_def)
  obtain c2 r2 where u: "checkUncached e md p recipe ?c = (c2, r2)" by fastforce
  have r2: "r2 = None" "ck_results c2 = ck_results c"
    using sound_checks [of e md ?c p recipe] s i(1) u checkUncached_keeps [OF u] by auto
  have "reason = None" "\<forall>q. ck_results c' q \<in> {ck_results c q, Some None}"
    using ch u r2 res by (auto simp: check_def Let_def split: option.splits)
  moreover have "ck_inventory c' = files" "cache_ok e md c'" using check_step(1,2) [OF ch] i by auto
  moreover have "ck_results c' q \<in> {None, Some None}" if "map_of files q \<noteq> None" for q
    using that calculation(2) assms(2) unfolding open_cache_def by (metis insert_iff singletonD)
  ultimately show ?thesis using that ch unfolding open_cache_def by blast
qed

lemma walk_file_going:
  assumes "clean e md files" "going e md files w" "map_of files p \<noteq> None"
  shows "going e md files (walk_file e md p w)"
proof -
  have w: "wk_reason w = None" "open_cache e md files (wk_c w)" using assms(2) by (auto simp: going_def)
  have po: "poll md (wk_c w) = ((wk_c w)\<lparr>ck_polls := Suc (ck_polls (wk_c w))\<rparr>, None)"
    using assms(1) by (simp add: poll_def clean_def)
  have "open_cache e md files ((wk_c w)\<lparr>ck_polls := Suc (ck_polls (wk_c w))\<rparr>)"
    using w(2) by (auto simp: open_cache_def cache_ok_def)
  from check_open [OF assms(1) this assms(3), of "wk_recipe w"] obtain c' where
    "check e md p (wk_recipe w) ((wk_c w)\<lparr>ck_polls := Suc (ck_polls (wk_c w))\<rparr>) = (c', None)" "open_cache e md files c'" by blast
  with w(1) po show ?thesis by (auto simp: walk_file_def going_def Let_def split: option.split)
qed

lemma optional_going: "clean e md files \<Longrightarrow> going e md files w \<Longrightarrow> going e md files (optional_entries e md dir es w)"
proof (induction e md dir es w rule: optional_entries.induct)
  case (3 e md dir n es w)
  let ?p = "dir @ ''/'' @ n"
  have inv: "ck_inventory (wk_c w) = files" using 3(4) by (simp add: going_def open_cache_def)
  show ?case
  proof (cases "map_of files ?p = None")
    case True
    have "going e md files (w\<lparr>wk_c := (wk_c w)\<lparr>ck_reached := insert ?p (ck_reached (wk_c w))\<rparr>\<rparr>)"
      using 3(4) by (auto simp: going_def open_cache_def cache_ok_def)
    with 3(1) [OF refl _ 3(3)] True inv show ?thesis by (simp add: Let_def)
  next
    case False
    from check_open [OF 3(3) _ False] 3(4) obtain c' where c: "check e md ?p (wk_recipe w) (wk_c w) = (c', None)" "open_cache e md files c'"
      unfolding going_def by metis
    then have "going e md files (w\<lparr>wk_c := c'\<rparr>)" using 3(4) by (simp add: going_def)
    with 3(2) [OF refl _ refl c(1) [symmetric] refl refl 3(3)] False inv c(1) show ?thesis by (auto simp: Let_def)
  qed
qed simp_all

lemma optionalTree_going: "clean e md files \<Longrightarrow> going e md files w \<Longrightarrow> going e md files (optionalTree e md dir w)"
  by (simp add: optionalTree_def optional_going split: option.split)

text \<open>A blob of a repository, and a manifest with its config and layers, among the listed files.\<close>

definition blob_listed :: "(string \<times> File) list \<Rightarrow> string \<Rightarrow> string \<Rightarrow> bool" where
  "blob_listed files repo d \<longleftrightarrow>
     (\<exists>h. digestHex d = Inr h \<and> map_of files (layerLinkPath repo h) \<noteq> None \<and> map_of files (blobPath h) \<noteq> None)"

definition manifest_listed :: "media_env \<Rightarrow> medium \<Rightarrow> (string \<times> File) list \<Rightarrow> string \<Rightarrow> string \<Rightarrow> bool" where
  "manifest_listed e md files repo d \<longleftrightarrow>
     (\<exists>h raw doc. digestHex d = Inr h \<and> map_of files (manifestLinkPath repo h) \<noteq> None \<and> map_of files (blobPath h) \<noteq> None
        \<and> md_file md (blobPath h) = Content raw \<and> length raw \<le> maxManifestBytes \<and> me_document e raw = Some doc
        \<and> (\<forall>b. od_Config doc = Some b \<longrightarrow> blob_listed files repo b) \<and> (\<forall>b \<in> set (od_Layers doc). blob_listed files repo b))"

lemma walk_blob_going:
  assumes "clean e md files" "going e md files w" "blob_listed files repo d"
  shows "going e md files (walk_blob e md repo d w)"
proof -
  obtain h where h: "digestHex d = Inr h" "map_of files (layerLinkPath repo h) \<noteq> None" "map_of files (blobPath h) \<noteq> None"
    using assms(3) unfolding blob_listed_def by blast
  have "wk_reason w = None" using assms(2) by (simp add: going_def)
  with h(1) walk_file_going [OF assms(1) walk_file_going [OF assms(1,2) h(2)] h(3)] show ?thesis by (simp add: walk_blob_def)
qed

lemma foldl_going:
  assumes "\<And>w x. going e md files w \<Longrightarrow> x \<in> set xs \<Longrightarrow> going e md files (f w x)" and "going e md files w"
  shows "going e md files (foldl f w xs)"
  using assms by (induction xs arbitrary: w) auto

lemma walk_manifest_going:
  assumes cl: "clean e md files" and w: "going e md files w" "card (open_digests repo w) < fuel"
    and D: "\<And>x. D x \<Longrightarrow> manifest_listed e md files repo x \<or> absent md x" "\<And>x y. D x \<Longrightarrow> lists_child e md x y \<Longrightarrow> D y"
    and d: "D d" "required \<Longrightarrow> manifest_listed e md files repo d"
  shows "going e md files (walk_manifest e md fuel repo d required w)"
  using w d
proof (induction fuel arbitrary: d required w)
  case (Suc fuel)
  have r: "wk_reason w = None" and c: "cache_ok e md (wk_c w)" using Suc.prems(1) by (auto simp: going_def open_cache_def)
  show ?case
  proof (cases "seen_key repo d \<in> wk_seen w")
    case True
    then show ?thesis using Suc.prems(1) r by (simp add: walk_manifest_eq)
  next
    case new: False
    let ?k = "w\<lparr>wk_seen := insert (seen_key repo d) (wk_seen w)\<rparr>"
    have k: "going e md files ?k" using Suc.prems(1) by (simp add: going_def)
    show ?thesis
    proof (cases "\<not> required \<and> absent md d")
      case True
      then show ?thesis using r new k by (auto simp: walk_manifest_eq absent_def)
    next
      case False
      then have "manifest_listed e md files repo d" using D(1) [OF Suc.prems(3)] Suc.prems(4) by blast
      then obtain h raw doc where h: "digestHex d = Inr h" "map_of files (manifestLinkPath repo h) \<noteq> None"
        "map_of files (blobPath h) \<noteq> None" "md_file md (blobPath h) = Content raw" "length raw \<le> maxManifestBytes"
        "me_document e raw = Some doc" "\<And>b. od_Config doc = Some b \<Longrightarrow> blob_listed files repo b"
        "\<And>b. b \<in> set (od_Layers doc) \<Longrightarrow> blob_listed files repo b"
        unfolding manifest_listed_def by blast
      have b: "going e md files (enter e md repo d h w)"
        unfolding enter_def by (intro walk_file_going [OF cl] k h)
      then have rb: "wk_reason (enter e md repo d h w) = None" by (simp add: going_def)
      have ex: "file_exists md (blobPath h)" using h(4) by (simp add: file_exists_def)
      have small: "card (open_digests repo (enter e md repo d h w)) < fuel"
        using enter_closes [OF c new h(1) rb] Suc.prems(2) by simp
      let ?kids = "foldl (\<lambda>w d. walk_manifest e md fuel repo d False w)"
      have kids: "going e md files (?kids v ds)" if "going e md files v" "extends e md (enter e md repo d h w) v" "set ds \<subseteq> set (od_Manifests doc)" for v ds
        using that
      proof (induction ds arbitrary: v)
        case (Cons x xs)
        have "card (open_digests repo v) < fuel"
          using card_mono [OF open_digests_bound(1) open_digests_mono [OF Cons.prems(2)]] small by (meson le_less_trans)
        moreover have "D x" using D(2) [OF Suc.prems(3)] h(1,4,6) Cons.prems(3) unfolding lists_child_def by fastforce
        ultimately have "going e md files (walk_manifest e md fuel repo x False v)" using Suc.IH [OF Cons.prems(1)] by simp
        from Cons.IH [OF this extends_trans [OF Cons.prems(2) walk_manifest_extends]] Cons.prems(3) show ?case by simp
      qed simp
      have "going e md files (contents e md fuel repo doc (enter e md repo d h w))"
        unfolding contents_def Let_def
        using foldl_going [of e md files "od_Layers doc" "\<lambda>w d. walk_blob e md repo d w"] walk_blob_going [OF cl] h(7,8)
          kids [OF b extends_refl order_refl]
        by (auto split: option.split)
      then show ?thesis using r new h(1,4-6) rb ex by (simp add: walk_manifest_eq walk_read_def)
    qed
  qed
qed simp


subsection \<open>A store that holds what its recipes deliver\<close>

definition holds :: "medium \<Rightarrow> string \<Rightarrow> bool" where
  "holds md p = (case md_file md p of Content _ \<Rightarrow> True | _ \<Rightarrow> False)"

definition blob_held :: "medium \<Rightarrow> string \<Rightarrow> string \<Rightarrow> bool" where
  "blob_held md repo d \<longleftrightarrow> (\<exists>h. digestHex d = Inr h \<and> holds md (layerLinkPath repo h) \<and> holds md (blobPath h))"

definition manifest_held :: "media_env \<Rightarrow> medium \<Rightarrow> string \<Rightarrow> string \<Rightarrow> bool" where
  "manifest_held e md repo d \<longleftrightarrow>
     (\<exists>h raw doc. digestHex d = Inr h \<and> holds md (manifestLinkPath repo h) \<and> md_file md (blobPath h) = Content raw
        \<and> length raw \<le> maxManifestBytes \<and> me_document e raw = Some doc
        \<and> (\<forall>b. od_Config doc = Some b \<longrightarrow> blob_held md repo b) \<and> (\<forall>b \<in> set (od_Layers doc). blob_held md repo b))"

text \<open>The artifact, its signatures, the ingredients and the tags are there; an index child is there or
  absent altogether.\<close>

definition stocked :: "media_env \<Rightarrow> medium \<Rightarrow> Recipe \<Rightarrow> bool" where
  "stocked e md r \<longleftrightarrow>
     manifest_held e md (rc_ArtifactRepo r) (rc_Digest r)
     \<and> (rc_ArtifactTag r \<noteq> [] \<longrightarrow> holds md (tagCurrentPath (rc_ArtifactRepo r) (rc_ArtifactTag r)))
     \<and> (\<forall>i \<in> set (rc_Ingredients r). manifest_held e md (in_Repo i) (in_Digest i)
          \<and> (in_Tag i \<noteq> [] \<longrightarrow> holds md (tagCurrentPath (in_Repo i) (in_Tag i))))
     \<and> (\<forall>s. signature_of md (rc_ArtifactRepo r) (rc_Digest r) s \<longrightarrow> manifest_held e md (rc_ArtifactRepo r) s)
     \<and> (\<forall>tag. file_exists md (tagCurrentPath (rc_ArtifactRepo r) tag) \<longrightarrow> holds md (tagCurrentPath (rc_ArtifactRepo r) tag))
     \<and> (\<forall>repo d. delivers e md r repo d \<longrightarrow> manifest_held e md repo d \<or> absent md d)"

definition lists_all :: "medium \<Rightarrow> (string \<times> File) list \<Rightarrow> bool" where
  "lists_all md files \<longleftrightarrow> (\<forall>p. covered p \<and> holds md p \<longrightarrow> map_of files p \<noteq> None)"

lemma layout_covered: "covered (blobPath h)" "covered (manifestLinkPath repo h)" "covered (layerLinkPath repo h)" "covered (tagCurrentPath repo tag)"
proof -
  have c: "covered (''docker/registry/v2/'' @ a @ CHR ''/'' # s)" if "s \<in> {''link'', ''data''}" for a s
    using that by (intro covered_content) auto
  show "covered (blobPath h)" using c [of "''data''" "''blobs/sha256/'' @ take 2 h @ ''/'' @ h"] by (simp add: blobPath_def)
  show "covered (manifestLinkPath repo h)"
    using c [of "''link''" "''repositories/'' @ repo @ ''/_manifests/revisions/sha256/'' @ h"] by (simp add: manifestLinkPath_def)
  show "covered (layerLinkPath repo h)"
    using c [of "''link''" "''repositories/'' @ repo @ ''/_layers/sha256/'' @ h"] by (simp add: layerLinkPath_def)
  show "covered (tagCurrentPath repo tag)"
    using c [of "''link''" "''repositories/'' @ repo @ ''/_manifests/tags/'' @ tag @ ''/current''"] by (simp add: tagCurrentPath_def)
qed

lemma held_listed:
  assumes "lists_all md files"
  shows "blob_held md repo d \<Longrightarrow> blob_listed files repo d" "manifest_held e md repo d \<Longrightarrow> manifest_listed e md files repo d"
    "holds md (tagCurrentPath repo tag) \<Longrightarrow> map_of files (tagCurrentPath repo tag) \<noteq> None"
proof -
  have l: "map_of files p \<noteq> None" if "covered p" "holds md p" for p using assms that by (simp add: lists_all_def)
  have b: "blob_held md repo d \<Longrightarrow> blob_listed files repo d" for repo d
    unfolding blob_held_def blob_listed_def using l [OF layout_covered(1)] l [OF layout_covered(3)] by metis
  then show "blob_held md repo d \<Longrightarrow> blob_listed files repo d" .
  assume "manifest_held e md repo d"
  then obtain h raw doc where h: "digestHex d = Inr h" "holds md (manifestLinkPath repo h)" "md_file md (blobPath h) = Content raw"
    "length raw \<le> maxManifestBytes" "me_document e raw = Some doc" "\<forall>b. od_Config doc = Some b \<longrightarrow> blob_held md repo b"
    "\<forall>b \<in> set (od_Layers doc). blob_held md repo b" unfolding manifest_held_def by blast
  have "holds md (blobPath h)" using h(3) by (simp add: holds_def)
  with h l [OF layout_covered(1)] l [OF layout_covered(2)] b show "manifest_listed e md files repo d"
    unfolding manifest_listed_def by (metis (no_types, lifting))
qed (use assms layout_covered(4) in \<open>auto simp: lists_all_def\<close>)

lemma walk_fuel_enough: "card (open_digests repo w) < walk_fuel w"
  using open_digests_bound(2) [of repo w] by (simp add: walk_fuel_def)

lemma tags_going:
  assumes "clean e md files" "going e md files w" "map_of files (tagCurrentPath repo tag) \<noteq> None"
  shows "going e md files (optionalTree e md (tagIndexDir repo tag) (walk_file e md (tagCurrentPath repo tag) w))"
  by (rule optionalTree_going [OF assms(1) walk_file_going [OF assms]])

lemma delivery_going:
  assumes cl: "clean e md files" and all: "lists_all md files" and w: "going e md files w" and s: "stocked e md r"
  shows "going e md files (delivery e md r w)"
proof -
  have D: "delivers e md r repo x \<Longrightarrow> manifest_listed e md files repo x \<or> absent md x" for repo x
    using s held_listed(2) [OF all] unfolding stocked_def by blast
  have man: "going e md files (walk_manifest e md (walk_fuel v) repo d True v)"
    if "going e md files v" "delivers e md r repo d" "manifest_held e md repo d" for v repo d
    by (rule walk_manifest_going [where D = "delivers e md r repo", OF cl that(1) walk_fuel_enough D delivers.child that(2)
          held_listed(2) [OF all that(3)]])
  have root: "going e md files (walk_root e md repo d tag v)"
    if "going e md files v" "delivers e md r repo d" "manifest_held e md repo d" "tag \<noteq> [] \<longrightarrow> holds md (tagCurrentPath repo tag)" for v repo d tag
  proof -
    have "going e md files (if tag \<noteq> [] then optionalTree e md (tagIndexDir repo tag) (walk_file e md (tagCurrentPath repo tag) v) else v)"
      using that(1,4) tags_going [OF cl that(1) held_listed(3) [OF all]] by simp
    from man [OF this that(2,3)] that(1) show ?thesis by (simp add: walk_root_def Let_def going_def)
  qed
  have sig: "going e md files (walk_signature e md (rc_ArtifactRepo r) tag v)"
    if "going e md files v" "digestHex (rc_Digest r) = Inr h" "tag \<in> {''sha256-'' @ h @ ''.sig'', ''sha256-'' @ h}" for v h tag
  proof (cases "file_exists md (tagCurrentPath (rc_ArtifactRepo r) tag)")
    case True
    then have "holds md (tagCurrentPath (rc_ArtifactRepo r) tag)" using s unfolding stocked_def by blast
    note t = tags_going [OF cl that(1) held_listed(3) [OF all this]]
    have "manifest_held e md (rc_ArtifactRepo r) x" "delivers e md r (rc_ArtifactRepo r) x"
      if "currentDigest md (rc_ArtifactRepo r) tag = Some x" for x
    proof -
      have "signature_of md (rc_ArtifactRepo r) (rc_Digest r) x"
        using that True \<open>digestHex (rc_Digest r) = Inr h\<close> \<open>tag \<in> _\<close> unfolding signature_of_def by blast
      then show "manifest_held e md (rc_ArtifactRepo r) x" "delivers e md r (rc_ArtifactRepo r) x"
        using s delivers.signature unfolding stocked_def by blast+
    qed
    with t man [OF t] True show ?thesis by (auto simp: walk_signature_def Let_def split: option.split)
  qed (simp add: walk_signature_def that)
  let ?w1 = "walk_root e md (rc_ArtifactRepo r) (rc_Digest r) (rc_ArtifactTag r) w"
  have w1: "going e md files ?w1" using root [OF w delivers.artifact] s unfolding stocked_def by blast
  have w2: "going e md files (signatures e md (rc_ArtifactRepo r) (rc_Digest r) ?w1)"
    unfolding signatures_def using w1 sig by (auto split: sum.split intro!: foldl_going)
  show ?thesis
    unfolding delivery_def Let_def
    by (rule foldl_going [OF _ w2]) (use root delivers.ingredient s in \<open>unfold stocked_def; blast\<close>)
qed


subsection \<open>Verification of a stocked medium\<close>

definition admits :: "media_env \<Rightarrow> Reader \<Rightarrow> VerifyOptions \<Rightarrow> Recipe \<Rightarrow> bool" where
  "admits e rd opts r \<longleftrightarrow> (\<forall>v. vd_Pushable (decide e rd r (vo_Trust opts) v))"

lemma verify_one_going:
  assumes "clean e md files" "lists_all md files" "open_cache e md files c" "stocked e md r" "admits e rd opts r"
  obtains c' v where "verify_one e md rd opts r c = (c', v)" "open_cache e md files c'" "vd_Pushable v"
proof -
  have "going e md files (new_walk c r)" using assms(3) by (simp add: going_def new_walk_def)
  note g = delivery_going [OF assms(1,2) this assms(4)]
  let ?c = "wk_c (delivery e md r (new_walk c r))"
  have po: "poll md ?c = (?c\<lparr>ck_polls := Suc (ck_polls ?c)\<rparr>, None)" using assms(1) by (simp add: poll_def clean_def)
  have "open_cache e md files (?c\<lparr>ck_polls := Suc (ck_polls ?c)\<rparr>)" using g by (auto simp: going_def open_cache_def cache_ok_def)
  with that g po assms(5) show ?thesis by (auto simp: verify_one_def going_def admits_def Let_def)
qed

lemma verifyRecipes_going:
  assumes "clean e md files" "lists_all md files" "open_cache e md files c" "\<forall>r \<in> set rs. stocked e md r \<and> admits e rd opts r"
  shows "\<exists>c' vs. verifyRecipes e md rd opts rs c = (c', vs) \<and> list_all vd_Pushable vs \<and> length vs = length rs"
  using assms(3,4)
proof (induction rs arbitrary: c)
  case (Cons r rs)
  then have r: "stocked e md r" "admits e rd opts r" by auto
  obtain c1 v where v: "verify_one e md rd opts r c = (c1, v)" "open_cache e md files c1" "vd_Pushable v"
    by (rule verify_one_going [OF assms(1,2) Cons.prems(1) r])
  from Cons.IH [OF v(2)] Cons.prems(2) obtain c' vs where "verifyRecipes e md rd opts rs c1 = (c', vs)" "list_all vd_Pushable vs" "length vs = length rs"
    by auto
  with v show ?case by simp
qed simp

lemma verify_clean:
  assumes "md_opens md" "readManifest e md = Inr m" and cl: "clean e md (listed_files m)" and all: "lists_all md (listed_files m)"
    and "holds md recipesFile" "mm_Zone m = vo_Zone opts" "case vo_LastImport opts of None \<Rightarrow> True | Some prev \<Rightarrow> im_ResolvedAt prev \<le> mm_ResolvedAt m"
    and rs: "\<forall>r \<in> set (mm_Recipes m). stocked e md r \<and> admits e rd opts r"
  shows "\<exists>rep. Verify_media e md rd opts = Some rep \<and> rt_Verdict rep = VerdictPushable \<and> rt_Blocks rep = []
    \<and> length (Pushable rep) = length (mm_Recipes m)"
proof -
  have "covered recipesFile" by code_simp
  then have l: "map_of (listed_files m) recipesFile \<noteq> None" using all assms(5) by (simp add: lists_all_def)
  have c0: "open_cache e md (listed_files m) (new_checker m)"
    by (simp add: open_cache_def listed_files_def cache_ok_def new_checker_def)
  obtain c1 where c1: "check e md recipesFile [] (new_checker m) = (c1, None)" "open_cache e md (listed_files m) c1"
    by (rule check_open [OF cl c0 l])
  then obtain fresh where g: "globalBlocks e md m opts (new_checker m) = (c1, [], fresh)"
    using assms(6,7) by (auto simp: globalBlocks_def Let_def split: option.splits)
  from verifyRecipes_going [OF cl all c1(2) rs] obtain c2 vs where vs: "verifyRecipes e md rd opts (mm_Recipes m) c1 = (c2, vs)"
    "list_all vd_Pushable vs" "length vs = length (mm_Recipes m)" by blast
  obtain c3 fs where f: "findings e md m c2 = (c3, fs)" by fastforce
  have "filter vd_Pushable vs = vs" "filter (\<lambda>v. \<not> vd_Pushable v) vs = []"
    using vs(2) by (auto simp: list_all_iff filter_id_conv filter_empty_conv)
  with assms(1,2) g vs f show ?thesis
    by (simp add: Verify_media_def standing_def finish_report_def Pushable_def empty_report_def Let_def)
qed

subsection \<open>From one side to the other\<close>

text \<open>The walk of the writer meets every covered file; blobs lie under the name of their content; the
  store is carried over unaltered, with the manifest that was written.\<close>

definition walked :: "meta_source \<Rightarrow> bool" where
  "walked src \<longleftrightarrow> (\<forall>p. covered p \<and> holds (ms_medium src) p \<longrightarrow> (\<exists>sub \<in> set coveredRoots. WFile p \<in> met (ms_entries src sub)))"

definition addressed :: "media_env \<Rightarrow> medium \<Rightarrow> bool" where
  "addressed e md \<longleftrightarrow> (\<forall>p bs want. md_file md p = Content bs \<and> hexOfBlobPath p = Some want \<longrightarrow> hex_encode (me_sum256 e bs) = want)"

definition carried :: "meta_source \<Rightarrow> bytes \<Rightarrow> medium \<Rightarrow> bool" where
  "carried src raw md \<longleftrightarrow> md_opens md \<and> (\<forall>n. md_cancel md n = None)
     \<and> (\<forall>p. p \<noteq> ManifestPath \<longrightarrow> md_file md p = md_file (ms_medium src) p) \<and> md_file md ManifestPath = Content raw"

text \<open>What \<^verbatim>\<open>filepath.WalkDir\<close> promises of a tree: below each root every path once, lexically clean. The
  reader asks more of a name than a file system does: no backslash, colon or control character.\<close>

definition files_of :: "went list \<Rightarrow> string list" where
  "files_of xs = concat (map (\<lambda>x. case x of WFile p \<Rightarrow> [p] | _ \<Rightarrow> []) xs)"

definition walk_tree :: "meta_source \<Rightarrow> bool" where
  "walk_tree src \<longleftrightarrow> (\<forall>sub \<in> set coveredRoots. distinct (files_of (ms_entries src sub))
     \<and> (\<forall>p \<in> set (files_of (ms_entries src sub)). (p = sub \<or> has_prefix p (sub @ ''/'')) \<and> safe_segments p))"

definition plain_names :: "medium \<Rightarrow> bool" where
  "plain_names md \<longleftrightarrow> (\<forall>p. covered p \<and> holds md p \<longrightarrow> list_all plain_char p)"

text \<open>A record of the graph with a name, a version, a cookbook reference and repository and tag names
  a registry accepts.\<close>

definition record_ok :: "RecipeRecord \<Rightarrow> bool" where
  "record_ok r \<longleftrightarrow> rr_Name r \<noteq> [] \<and> rr_Version r \<noteq> [] \<and> is_ok (Path (rr_CookbookRepo r)) \<and> is_ok (checkRepoName (rr_ArtifactRepo r))
     \<and> (rr_ArtifactTag r \<noteq> [] \<longrightarrow> is_ok (checkTag (rr_ArtifactTag r)))
     \<and> (\<forall>i \<in> set (rr_Ingredients r). is_ok (checkRepoName (ir_Repo i)) \<and> (ir_Tag i \<noteq> [] \<longrightarrow> is_ok (checkTag (ir_Tag i))))"

lemma Write_media_Inr:
  assumes "Write_media e src opts now = Inr m"
  obtains records fs where "ms_records src = Inr records" "inventory_roots e src coveredRoots = Inr fs"
    "readStoreFormat src = Inr (mm_StoreFormat m)" "mm_MediaFormat m = ManifestFormat" "mm_Zone m = wo_Zone opts"
    "mm_Recipes m = recipesOf records" "mm_Inventory m = sort_key fi_Path fs"
    "mm_ResolvedAt m = (if wo_ResolvedAt opts = 0 then now else wo_ResolvedAt opts)"
  using assms by (cases "ms_records src") (auto simp: Write_media_def inventoryOf_def bind_r_Inr_iff split: if_splits)

lemma written_listed:
  assumes "Write_media e src opts now = Inr m" "walked src" "addressed e (ms_medium src)" "carried src raw md"
  shows "clean e md (listed_files m)" "lists_all md (listed_files m)"
proof -
  obtain fs where inv: "inventory_roots e src coveredRoots = Inr fs" "mm_Inventory m = sort_key fi_Path fs"
    by (rule Write_media_Inr [OF assms(1)])
  have files: "map_of (listed_files m) p = Some f \<Longrightarrow> f \<in> set fs \<and> fi_Path f = p" for p f
    using inv(2) by (auto simp: listed_files_def new_checker_def dest!: map_of_SomeD)
  have same: "md_file md p = md_file (ms_medium src) p" if "covered p" for p
    using assms(4) that by (auto simp: carried_def covered_def split: if_splits)
  have "sound e md (listed_files m) p" if "map_of (listed_files m) p = Some f" for p f
  proof -
    from files [OF that] have f: "hashFile e (ms_medium src) p = Inr f" "covered p" using inventory_roots_sound [OF inv(1)] by blast+
    then obtain bs where "md_file md p = Content bs" "f = \<lparr>fi_Path = p, fi_Size = int (length bs), fi_Digest = ''sha256:'' @ hex_encode (me_sum256 e bs)\<rparr>"
      using same by (auto simp: hashFile_def split: mfile.splits)
    with that assms(3) same [OF f(2)] show ?thesis
      unfolding sound_def addressed_def by (intro exI [of _ f] exI [of _ bs]) simp
  qed
  then show "clean e md (listed_files m)" using assms(4) by (auto simp: clean_def carried_def)
  have "map_of (listed_files m) p \<noteq> None" if "covered p" "holds md p" for p
  proof -
    have "holds (ms_medium src) p" using that same by (simp add: holds_def)
    with assms(2) that(1) obtain sub where "sub \<in> set coveredRoots" "WFile p \<in> met (ms_entries src sub)" unfolding walked_def by blast
    from inventory_roots_full [OF inv(1) this that(1)] show ?thesis
      using inv(2) by (auto simp: listed_files_def new_checker_def map_of_eq_None_iff image_iff)
  qed
  then show "lists_all md (listed_files m)" by (simp add: lists_all_def)
qed

subsection \<open>The reader accepts what the writer wrote\<close>

lemma hex_encode_lower: "length (hex_encode s) = 2 * length s \<and> list_all lower_hex (hex_encode s)"
proof (induction s)
  case (Cons c s)
  have "n < 16 \<Longrightarrow> lower_hex (hex_digit n)" for n
    by (auto simp: lower_hex_def hex_digit_def Let_def)
  moreover have "(of_char c :: nat) div 16 < 16" using nat_of_char_less_256 [of c] by linarith
  ultimately show ?case using Cons by (simp add: hex_encode_def)
qed (simp add: hex_encode_def)

lemma sha256_digest: "length bs = 32 \<Longrightarrow> digestHex (''sha256:'' @ hex_encode bs) = Inr (hex_encode bs)"
  using hex_encode_lower [of bs] by (simp add: digestHex_iff)

lemma inventory_valid:
  "\<forall>f \<in> set fs. is_ok (checkInventoryPath (fi_Path f)) \<and> 0 \<le> fi_Size f \<and> is_ok (digestHex (fi_Digest f)) \<Longrightarrow>
     distinct (map fi_Path fs) \<Longrightarrow> fi_Path ` set fs \<inter> seen = {} \<Longrightarrow> validate_inventory e seen fs = Inr ()"
proof (induction fs arbitrary: seen)
  case (Cons f fs)
  then have "path_check e (checkInventoryPath (fi_Path f)) = Inr ()" "path_check e (digestHex (fi_Digest f)) = Inr ()"
    by (simp_all add: path_check_ok)
  with Cons show ?case by auto
qed simp

lemma path_check_pass: "is_ok r \<Longrightarrow> path_check e r = Inr ()"
  by (simp add: path_check_ok)

lemma ingredients_valid:
  "\<forall>i \<in> set is. is_ok (checkRepoName (in_Repo i)) \<and> (in_Tag i \<noteq> [] \<longrightarrow> is_ok (checkTag (in_Tag i))) \<and> is_ok (digestHex (in_Digest i)) \<Longrightarrow>
     validate_ingredients e is = Inr ()"
  by (induction "is") (auto simp: path_check_pass)

lemma recipes_valid: "\<forall>r \<in> set rs. validateRecipe e r = Inr () \<Longrightarrow> validate_recipes e rs = Inr ()"
  by (induction rs) auto

lemma inventory_walk_distinct:
  "inventory_walk e md ctx n xs = Inr fs \<Longrightarrow> distinct (files_of xs) \<Longrightarrow>
     distinct (map fi_Path fs) \<and> fi_Path ` set fs \<subseteq> set (files_of xs)"
proof (induction xs arbitrary: n fs)
  case (Cons x xs)
  show ?case
  proof (cases "\<exists>p. x = WFile p \<and> covered p \<and> ctx n = None")
    case True
    then obtain p g gs where g: "x = WFile p" "hashFile e md p = Inr g" "inventory_walk e md ctx (Suc n) xs = Inr gs" "fs = g # gs"
      using Cons.prems(1) by (auto simp: bind_r_Inr_iff)
    have "fi_Path g = p" using g(2) by (auto simp: hashFile_def split: mfile.splits)
    with g Cons.IH [OF g(3)] Cons.prems(2) show ?thesis by (auto simp: files_of_def)
  next
    case False
    with Cons show ?thesis by (cases x) (fastforce simp: files_of_def split: option.splits if_splits)+
  qed
qed simp

lemma inventory_roots_distinct:
  assumes "inventory_roots e src coveredRoots = Inr fs" "walk_tree src"
  shows "distinct (map fi_Path fs)" "\<And>f. f \<in> set fs \<Longrightarrow> safe_segments (fi_Path f)"
proof -
  let ?a = "''docker/registry/v2''" and ?b = "''meta''"
  obtain fa fb where w: "inventory_walk e (ms_medium src) (ms_cancel src ?a) 0 (ms_entries src ?a) = Inr fa"
    "inventory_walk e (ms_medium src) (ms_cancel src ?b) 0 (ms_entries src ?b) = Inr fb" "fs = fa @ fb"
    using assms(1) by (auto simp: coveredRoots_def bind_r_Inr_iff split: sum.splits)
  have t: "distinct (files_of (ms_entries src sub))" "p \<in> set (files_of (ms_entries src sub)) \<Longrightarrow> hd p = hd sub \<and> safe_segments p"
    if "sub \<in> {?a, ?b}" for sub p
  proof -
    have sub: "sub \<in> set coveredRoots" "sub \<noteq> []" using that by (auto simp: coveredRoots_def)
    show "distinct (files_of (ms_entries src sub))" using assms(2) sub(1) unfolding walk_tree_def by blast
    assume "p \<in> set (files_of (ms_entries src sub))"
    then have "p = sub \<or> has_prefix p (sub @ ''/'')" "safe_segments p" using assms(2) sub(1) unfolding walk_tree_def by blast+
    with sub(2) show "hd p = hd sub \<and> safe_segments p" by (auto simp: prefix_def)
  qed
  note d = inventory_walk_distinct [OF w(1) t(1)] inventory_walk_distinct [OF w(2) t(1)]
  have "fi_Path ` set fa \<inter> fi_Path ` set fb = {}"
  proof -
    have "hd p = CHR ''d''" if "p \<in> fi_Path ` set fa" for p using d(1) t(2) [of ?a p] that by auto
    moreover have "hd p = CHR ''m''" if "p \<in> fi_Path ` set fb" for p using d(2) t(2) [of ?b p] that by auto
    ultimately show ?thesis by fastforce
  qed
  with d w(3) show "distinct (map fi_Path fs)" by simp
  show "safe_segments (fi_Path f)" if "f \<in> set fs" for f
    using that d w(3) t(2) [of ?a "fi_Path f"] t(2) [of ?b "fi_Path f"] by auto
qed

lemma written_inventory:
  assumes "inventory_roots e src coveredRoots = Inr fs" "walk_tree src" "plain_names (ms_medium src)" "\<forall>bs. length (me_sum256 e bs) = 32"
  shows "validate_inventory e {} (sort_key fi_Path fs) = Inr ()"
proof (rule inventory_valid)
  have "mset (map fi_Path (sort_key fi_Path fs)) = mset (map fi_Path fs)" by simp
  then show "distinct (map fi_Path (sort_key fi_Path fs))"
    using inventory_roots_distinct(1) [OF assms(1,2)] mset_eq_imp_distinct_iff by blast
  show "\<forall>f \<in> set (sort_key fi_Path fs). is_ok (checkInventoryPath (fi_Path f)) \<and> 0 \<le> fi_Size f \<and> is_ok (digestHex (fi_Digest f))"
  proof
    fix f
    assume "f \<in> set (sort_key fi_Path fs)"
    then have f: "f \<in> set fs" by simp
    with inventory_roots_sound [OF assms(1) f] obtain bs where bs: "md_file (ms_medium src) (fi_Path f) = Content bs" "covered (fi_Path f)"
      "fi_Size f = int (length bs)" "fi_Digest f = ''sha256:'' @ hex_encode (me_sum256 e bs)"
      by (auto simp: hashFile_def split: mfile.splits) (metis File.select_convs(2,3))
    then have "list_all plain_char (fi_Path f)" using assms(3) by (simp add: plain_names_def holds_def)
    moreover have "digestHex (fi_Digest f) = Inr (hex_encode (me_sum256 e bs))" using bs(4) sha256_digest assms(4) by metis
    ultimately show "is_ok (checkInventoryPath (fi_Path f)) \<and> 0 \<le> fi_Size f \<and> is_ok (digestHex (fi_Digest f))"
      using bs(2,3) inventory_roots_distinct(2) [OF assms(1,2) f] by (simp add: checkInventoryPath_iff is_ok_iff)
  qed
qed simp

lemma written_recipe:
  assumes "record_ok r" "stocked e md (recipe_of r)"
  shows "validateRecipe e (recipe_of r) = Inr ()"
proof -
  have d: "is_ok (digestHex (rr_Digest r))" "\<forall>i \<in> set (rr_Ingredients r). is_ok (digestHex (ir_Digest i))"
    using assms(2) by (auto simp: stocked_def manifest_held_def recipe_of_def ingredient_of_def is_ok_iff)
  obtain q where "Path (rr_CookbookRepo r) = Inr q" using assms(1) by (auto simp: record_ok_def is_ok_iff)
  moreover have "validate_ingredients e (sort_key in_Name (map ingredient_of (rr_Ingredients r))) = Inr ()"
    using assms(1) d(2) by (intro ingredients_valid) (auto simp: record_ok_def ingredient_of_def)
  ultimately show ?thesis
    using assms(1) d(1) by (auto simp: validateRecipe_def recipe_of_def record_ok_def path_check_pass)
qed

text \<open>\<open>raw\<close> is the manifest as it lies on the medium: the JSON of what was written, within the bound of
  the reader.\<close>

lemma written_read:
  assumes "Write_media e src opts now = Inr m" "walk_tree src" "plain_names (ms_medium src)" "\<forall>bs. length (me_sum256 e bs) = 32"
    and "carried src raw md" "me_manifest e raw = Some m" "length raw \<le> maxManifestBytes * 64" "readStoreFormat src = Inr FormatVersion"
    and "ms_records src = Inr records" "\<forall>r \<in> set records. record_ok r \<and> stocked e md (recipe_of r)"
  shows "readManifest e md = Inr m"
proof -
  obtain fs where m: "inventory_roots e src coveredRoots = Inr fs" "mm_Inventory m = sort_key fi_Path fs" "mm_Recipes m = recipesOf records"
    "mm_MediaFormat m = ManifestFormat" "mm_StoreFormat m = FormatVersion"
    using assms(8,9) by (auto intro: Write_media_Inr [OF assms(1)])
  have "validate_recipes e (mm_Recipes m) = Inr ()"
    unfolding m(3) recipesOf_def using assms(10) written_recipe by (intro recipes_valid) auto
  then have "validate e m = Inr ()" using written_inventory [OF m(1) assms(2-4)] m(2) by (simp add: validate_def)
  with m(4,5) assms(5-7) show ?thesis by (simp add: readManifest_def carried_def Let_def)
qed

text \<open>C26: What one side writes the other clears. \<open>Write\<close> returned a manifest for a store in the current
  format, whose walk met every covered file once, whose blobs lie under the SHA-256 of their contents and
  whose files have names without backslash, colon or control characters; the graph is there, its records
  are well formed, and every recipe finds its artifact, signatures, ingredients and tags in the store and
  satisfies the trust policy. The medium carries the store unaltered, with the manifest on it as JSON the
  reader decodes to what was written, of at most 64 MiB. Then, for a medium of the reader's own zone and
  nothing fresher imported before, the reader accepts the manifest, \<open>Verify\<close> blocks nothing and clears
  every recipe of the graph.\<close>

theorem written_medium_clears:
  assumes "Write_media e src opts now = Inr m" "walked src" "walk_tree src" "plain_names (ms_medium src)"
    and "\<forall>bs. length (me_sum256 e bs) = 32" "addressed e (ms_medium src)"
    and "carried src raw md" "me_manifest e raw = Some m" "length raw \<le> maxManifestBytes * 64"
    and "readStoreFormat src = Inr FormatVersion" "holds (ms_medium src) recipesFile"
    and "vo_Zone vopts = wo_Zone opts"
    and "case vo_LastImport vopts of None \<Rightarrow> True | Some prev \<Rightarrow> im_ResolvedAt prev \<le> mm_ResolvedAt m"
    and "ms_records src = Inr records"
    and "\<forall>r \<in> set records. record_ok r \<and> stocked e md (recipe_of r) \<and> admits e rd vopts (recipe_of r)"
  shows "readManifest e md = Inr m \<and> (\<exists>rep. Verify_media e md rd vopts = Some rep \<and> rt_Verdict rep = VerdictPushable
    \<and> rt_Blocks rep = [] \<and> length (Pushable rep) = length records)"
proof -
  have m: "mm_Recipes m = recipesOf records" "mm_Zone m = vo_Zone vopts"
    using assms(12,14) by (auto intro: Write_media_Inr [OF assms(1)])
  have "holds md recipesFile" using assms(7,11) by (simp add: carried_def holds_def)
  moreover have r: "readManifest e md = Inr m"
    using written_read [OF assms(1,3-5,7-10,14)] assms(15) by blast
  ultimately show ?thesis
    using verify_clean [OF _ r written_listed [OF assms(1,2,6,7)] _ m(2) assms(13)] assms(7,15) m(1)
    by (auto simp: carried_def recipesOf_def)
qed


subsection \<open>A store, written and cleared\<close>

definition shelf_record :: RecipeRecord where
  "shelf_record = \<lparr>rr_Name = ''n'', rr_Version = ''1'', rr_CookbookRepo = ''h.io/lab/x'', rr_ArtifactRepo = ''cb'', rr_ArtifactTag = [],
     rr_Digest = zero_dgst, rr_RunID = [], rr_Zone = ''z'', rr_ResolvedAt = 7, rr_Verified = False, rr_TrustScope = [], rr_Ingredients = []\<rparr>"

definition shelf_medium :: medium where
  "shelf_medium = demo_medium\<lparr>md_file := \<lambda>p. if p = ''meta/format.json'' then Content ''1'' else md_file demo_medium p\<rparr>"

definition shelf_files :: "string list" where
  "shelf_files = demo_files @ [''meta/format.json'']"

definition shelf_source :: meta_source where
  "shelf_source = \<lparr>ms_medium = shelf_medium, ms_entries = \<lambda>sub. WDir # map WFile (filter (prefix sub) shelf_files),
     ms_cancel = \<lambda>_ _. None, ms_parse_format = \<lambda>_. Some 1, ms_records = Inr [shelf_record], ms_mediaID = ''m'', ms_version = ''dev'',
     ms_written = True\<rparr>"

definition shelf_entry :: "string \<Rightarrow> File" where
  "shelf_entry p = \<lparr>fi_Path = p, fi_Size = 1, fi_Digest = zero_dgst\<rparr>"

definition shelf_order :: "string list" where
  "shelf_order = filter (prefix ''docker/registry/v2'') shelf_files @ filter (prefix ''meta'') shelf_files"

definition shelf_manifest :: Manifest where
  "shelf_manifest = \<lparr>mm_MediaFormat = 1, mm_StoreFormat = 1, mm_MediaID = ''m'', mm_Zone = ''z'',
     mm_ProducedBy = \<lparr>pd_Version = ''dev'', pd_RunID = []\<rparr>, mm_ResolvedAt = 7, mm_WrittenAt = 8, mm_Recipes = [demo_recipe []],
     mm_Inventory = sort_key fi_Path (map shelf_entry shelf_order),
     mm_Totals = \<lparr>to_Files = 5, to_Bytes = 5\<rparr>\<rparr>"

definition shelf_env :: media_env where
  "shelf_env = (demo_env [])\<lparr>me_manifest := \<lambda>_. Some shelf_manifest\<rparr>"

lemma shelf_walk:
  assumes "\<forall>p \<in> set ps. covered p \<and> (\<exists>b. md_file md p = Content [b])"
  shows "inventory_walk shelf_env md (\<lambda>_. None) n (map WFile ps) = Inr (map shelf_entry ps)"
  using assms
proof (induction ps arbitrary: n)
  case (Cons p ps)
  then have "hashFile shelf_env md p = Inr (shelf_entry p)"
    by (auto simp: hashFile_def shelf_entry_def shelf_env_def demo_env_def zero_hex_sum zero_dgst_def)
  with Cons show ?case by simp
qed simp

lemma shelf_held:
  "p \<in> set shelf_files \<Longrightarrow> covered p \<and> (\<exists>b. md_file shelf_medium p = Content [b])"
  "md_file shelf_medium p = Content bs \<Longrightarrow> p \<in> set shelf_files \<or> p = ManifestPath"
  "file_exists shelf_medium p \<Longrightarrow> holds shelf_medium p"
proof -
  have "covered recipesFile" "covered ''meta/format.json''" by code_simp+
  then have "covered p" if "p \<in> set shelf_files" for p
    using that layout_covered by (auto simp: shelf_files_def demo_files_def)
  moreover have "\<not> covered ManifestPath" by code_simp
  ultimately show "p \<in> set shelf_files \<Longrightarrow> covered p \<and> (\<exists>b. md_file shelf_medium p = Content [b])"
    by (auto simp: shelf_files_def shelf_medium_def demo_medium_def)
qed (auto simp: shelf_files_def shelf_medium_def demo_medium_def file_exists_def holds_def split: if_splits)

lemma shelf_written:
  "Write_media shelf_env shelf_source \<lparr>wo_Zone = ''z'', wo_RunID = [], wo_ResolvedAt = 7\<rparr> 8 = Inr shelf_manifest"
proof -
  have w: "inventory_walk shelf_env shelf_medium (\<lambda>_. None) (Suc 0) (map WFile (filter P shelf_files)) = Inr (map shelf_entry (filter P shelf_files))" for P
    by (rule shelf_walk) (use shelf_held(1) in auto)
  have "inventory_roots shelf_env shelf_source coveredRoots = Inr (map shelf_entry shelf_order)"
    by (simp add: coveredRoots_def shelf_source_def shelf_order_def w)
  moreover have "map fi_Size (map shelf_entry ps) = replicate (length ps) 1" for ps by (simp add: shelf_entry_def comp_def map_replicate_const)
  moreover have "length shelf_order = 5"
    by (simp add: shelf_order_def shelf_files_def demo_files_def blobPath_def manifestLinkPath_def)
  ultimately have inv: "inventoryOf shelf_env shelf_source = Inr (sort_key fi_Path (map shelf_entry shelf_order), \<lparr>to_Files = 5, to_Bytes = 5\<rparr>)"
    by (simp add: inventoryOf_def sum_list_replicate)
  have f: "readStoreFormat shelf_source = Inr 1" by (simp add: readStoreFormat_def shelf_source_def shelf_medium_def)
  have r: "recipesOf [shelf_record] = [demo_recipe []]" by (simp add: recipesOf_def recipe_of_def shelf_record_def demo_recipe_def)
  have src: "ms_records shelf_source = Inr [shelf_record]" "ms_mediaID shelf_source = ''m''" "ms_version shelf_source = ''dev''" "ms_written shelf_source"
    by (simp_all add: shelf_source_def)
  show ?thesis by (simp add: Write_media_def inv f r src shelf_manifest_def)
qed

lemma shelf_tree: "walk_tree shelf_source"
proof -
  have e: "files_of (ms_entries shelf_source sub) = filter (prefix sub) shelf_files" for sub
    by (simp add: shelf_source_def files_of_def comp_def)
  have s: "safe_segments p" if "p \<in> set shelf_files" for p
  proof -
    have "checkInventoryPath ''meta/format.json'' = Inr ()" by code_simp
    then have "checkInventoryPath p = Inr ()" using that demo_paths_ok by (auto simp: shelf_files_def is_ok_iff)
    then show ?thesis by (simp add: checkInventoryPath_iff)
  qed
  have "distinct shelf_files" by (simp add: shelf_files_def demo_files_def blobPath_def manifestLinkPath_def)
  moreover have "has_prefix p (sub @ ''/'')" if "p \<in> set shelf_files" "prefix sub p" "sub \<in> set coveredRoots" for sub p
    using that by (auto simp: shelf_files_def demo_files_def coveredRoots_def blobPath_def manifestLinkPath_def)
  ultimately show ?thesis using s unfolding walk_tree_def e by auto
qed

lemma shelf_names: "plain_names shelf_medium"
proof -
  have "checkInventoryPath ''meta/format.json'' = Inr ()" by code_simp
  then have "list_all plain_char p" if "p \<in> set shelf_files" for p
    using that demo_paths_ok by (auto simp: shelf_files_def is_ok_iff checkInventoryPath_iff)
  moreover have "\<not> covered ManifestPath" by code_simp
  ultimately show ?thesis using shelf_held(2) by (auto simp: plain_names_def holds_def split: mfile.splits)
qed

lemma shelf_record_ok: "record_ok shelf_record"
  unfolding record_ok_def by code_simp

lemma shelf_absent: "\<not> file_exists shelf_medium (tagCurrentPath ''cb'' (''sha256-'' @ zero_hex))"
  "\<not> file_exists shelf_medium (tagCurrentPath ''cb'' (''sha256-'' @ zero_hex @ ''.sig''))" "\<not> file_exists shelf_medium (blobPath demo_hex)"
  using demo_distinct(1,3,4)
  by (simp_all add: file_exists_def shelf_medium_def demo_medium_def) (simp_all add: tagCurrentPath_def blobPath_def)

lemma shelf_unsigned: "\<not> signature_of shelf_medium ''cb'' zero_dgst s"
  using shelf_absent(1,2) unfolding signature_of_def zero_digest by auto

lemma shelf_manifest_held: "manifest_held shelf_env shelf_medium ''cb'' zero_dgst"
proof -
  have "holds shelf_medium (manifestLinkPath ''cb'' zero_hex)" "md_file shelf_medium (blobPath zero_hex) = Content ''m''"
    by (simp_all add: holds_def shelf_medium_def demo_medium_def demo_files_def) (simp_all add: manifestLinkPath_def blobPath_def)
  then show ?thesis by (simp add: manifest_held_def zero_digest shelf_env_def demo_env_def)
qed

lemma shelf_delivers:
  "delivers shelf_env shelf_medium (demo_recipe []) repo d \<Longrightarrow> repo = ''cb'' \<and> (d = zero_dgst \<or> d = child_dgst)"
proof (induction rule: delivers.induct)
  case (signature s)
  then show ?case using shelf_unsigned by (simp add: demo_recipe_def)
next
  case (child repo p d)
  then show ?case by (auto simp: lists_child_def shelf_env_def demo_env_def)
qed (simp_all add: demo_recipe_def)

lemma shelf_stocked: "stocked shelf_env shelf_medium (recipe_of shelf_record)"
proof -
  have r: "recipe_of shelf_record = demo_recipe []" by (simp add: recipe_of_def shelf_record_def demo_recipe_def)
  have "absent shelf_medium child_dgst" using shelf_absent(3) by (simp add: absent_def child_digest)
  then have "manifest_held shelf_env shelf_medium repo d \<or> absent shelf_medium d" if "delivers shelf_env shelf_medium (demo_recipe []) repo d" for repo d
    using shelf_delivers [OF that] shelf_manifest_held by blast
  then show ?thesis
    unfolding stocked_def r using shelf_manifest_held shelf_unsigned shelf_held(3) by (simp add: demo_recipe_def)
qed

lemma shelf_admits: "admits shelf_env demo_reader (demo_options lab_trust) r"
  by (simp add: admits_def decide_def demo_options_def lab_trust_def Let_def)

lemma shelf_walked: "walked shelf_source"
proof -
  have "p \<in> set shelf_files" if "covered p" "holds shelf_medium p" for p
  proof -
    have "\<not> covered ManifestPath" by code_simp
    with that shelf_held(2) [of p] show ?thesis by (cases "md_file shelf_medium p") (auto simp: holds_def)
  qed
  moreover have "\<exists>sub \<in> set coveredRoots. prefix sub p" if "p \<in> set shelf_files" for p
    using that by (auto simp: shelf_files_def demo_files_def coveredRoots_def blobPath_def manifestLinkPath_def)
  moreover have "met (ms_entries shelf_source sub) = insert WDir (WFile ` {p \<in> set shelf_files. prefix sub p})" for sub
  proof -
    have "takeWhile (\<lambda>x. x \<noteq> WGone) (WDir # map WFile ps) = WDir # map WFile ps" for ps by (simp add: takeWhile_eq_all_conv)
    then show ?thesis unfolding shelf_source_def meta_source.simps by (simp only:) auto
  qed
  moreover have "ms_medium shelf_source = shelf_medium" by (simp add: shelf_source_def)
  ultimately show ?thesis unfolding walked_def by (simp only:) blast
qed

lemma shelf_addressed: "addressed shelf_env shelf_medium"
proof -
  have n: "hexOfBlobPath ManifestPath = None" "hexOfBlobPath ''meta/format.json'' = None" by code_simp+
  have "want = zero_hex" if "md_file shelf_medium p = Content bs" "hexOfBlobPath p = Some want" for p bs want
    using shelf_held(2) [OF that(1)] that(2) n demo_hexOf by (auto simp: shelf_files_def)
  then show ?thesis by (auto simp: addressed_def shelf_env_def demo_env_def zero_hex_sum)
qed

lemma shelf_carried: "carried shelf_source ''M'' shelf_medium"
  by (simp add: carried_def shelf_source_def shelf_medium_def demo_medium_def)

theorem written_medium_clears_witness:
  "readManifest shelf_env shelf_medium = Inr shelf_manifest
     \<and> (\<exists>rep. Verify_media shelf_env shelf_medium demo_reader (demo_options lab_trust) = Some rep
          \<and> rt_Verdict rep = VerdictPushable \<and> rt_Blocks rep = [] \<and> length (Pushable rep) = 1)"
proof -
  have src: "ms_medium shelf_source = shelf_medium" "ms_records shelf_source = Inr [shelf_record]" "readStoreFormat shelf_source = Inr FormatVersion"
    by (simp_all add: shelf_source_def readStoreFormat_def shelf_medium_def)
  have h: "holds shelf_medium recipesFile" by (simp add: holds_def shelf_medium_def demo_medium_def demo_files_def)
  have e: "me_manifest shelf_env ''M'' = Some shelf_manifest" "\<forall>bs. length (me_sum256 shelf_env bs) = 32"
    by (simp_all add: shelf_env_def demo_env_def)
  show ?thesis
    using written_medium_clears [OF shelf_written shelf_walked shelf_tree _ e(2) _ shelf_carried e(1), where records = "[shelf_record]"
        and rd = demo_reader and vopts = "demo_options lab_trust"]
      shelf_names shelf_addressed shelf_record_ok shelf_stocked shelf_admits src h
    by (simp add: demo_options_def)
qed

end
