(* ===== verification/Spool.thy ===== *)
theory Spool
  imports Tasks Taxonomy
begin

text \<open>
  The spool of \<^verbatim>\<open>blobfetch/spool.go\<close>: one blob's partial download in the state directory, a file of
  received bytes and a sidecar with the offset that was made durable.

  The disk keeps, besides the file and the sidecar, what a crash may leave of them: \<open>dk_synced\<close> is the
  content of the last \<^verbatim>\<open>Sync\<close> as far as nothing was written over it, \<open>dk_floor\<close> how much of it no
  \<^verbatim>\<open>Truncate\<close> has taken back since. An absent file reads as an empty one, which \<^verbatim>\<open>openSpool\<close> creates.
  Every file operation may fail, and a failing write may leave some of its bytes behind. \<open>sp_past\<close>
  records every state the disk went through.
\<close>

subsection \<open>Errors\<close>

text \<open>The sources ask an error for its code, and whether the cancellation or the deadline of a context is
  among its causes.\<close>

datatype cause = Canceled | DeadlineExceeded | Because string

datatype fetch_error = Tax code params "cause option" | Ctx cause

definition retryable :: "fetch_error \<Rightarrow> bool" where
  "retryable err =
     (case err of
        Ctx c \<Rightarrow> c \<noteq> Canceled \<and> c \<noteq> DeadlineExceeded
      | Tax code ps cause \<Rightarrow>
          if cause = Some Canceled \<or> cause = Some DeadlineExceeded then False else class_of code = ClassOperational)"

subsection \<open>Files\<close>

datatype file_op = Mkdir | OpenFile | Stat | Truncate | Seek | ReadBack | WritePart | Sync | WriteSide | RenameSide | RemovePart | RemoveSide

record spoolMeta =
  sm_Offset :: int
  sm_Validator :: string
  sm_Updated :: time

record disk =
  dk_part :: string
  dk_synced :: string
  dk_floor :: nat
  dk_side :: "string option"

text \<open>What the spool relies on from outside: the digest verifier, the JSON form of the sidecar, the clock,
  the outcome of each file operation and the state of the caller's context, both asked by a running count.
  \<open>fe_decode\<close> is what \<^verbatim>\<open>json.Unmarshal\<close> leaves in the sidecar record, an error included.\<close>

record fetch_env =
  fe_verifies :: "string \<Rightarrow> string \<Rightarrow> bool"
  fe_encode :: "spoolMeta \<Rightarrow> string"
  fe_decode :: "string \<Rightarrow> spoolMeta"
  fe_now :: "nat \<Rightarrow> time"
  fe_fault :: "file_op \<Rightarrow> nat \<Rightarrow> string option"
  fe_short :: "nat \<Rightarrow> nat"
  fe_ctx :: "nat \<Rightarrow> cause option"

record spool =
  sp_dgst :: string
  sp_path :: string
  sp_disk :: disk
  sp_past :: "disk list"
  sp_pos :: nat
  sp_open :: bool
  sp_meta :: spoolMeta
  sp_verifier :: "string option"
  sp_hashed :: int
  sp_resumed :: bool
  sp_fired :: bool
  sp_ops :: nat

type_synonym spool_outcome = "spool \<times> fetch_error option"

definition spoolErr :: "string \<Rightarrow> string \<Rightarrow> fetch_error" where
  "spoolErr path detail = Tax CodeResumeSpool [(''path'', path), (''detail'', detail)] (Some (Because detail))"

abbreviation offset :: "spool \<Rightarrow> int" where
  "offset s \<equiv> sm_Offset (sp_meta s)"

abbreviation validator :: "spool \<Rightarrow> string" where
  "validator s \<equiv> sm_Validator (sp_meta s)"

definition set_disk :: "(disk \<Rightarrow> disk) \<Rightarrow> spool \<Rightarrow> spool" where
  "set_disk f s = s\<lparr>sp_disk := f (sp_disk s), sp_past := f (sp_disk s) # sp_past s\<rparr>"

lemma set_disk_simps [simp]:
  "sp_disk (set_disk f s) = f (sp_disk s)" "sp_past (set_disk f s) = f (sp_disk s) # sp_past s" "sp_meta (set_disk f s) = sp_meta s"
  "sp_dgst (set_disk f s) = sp_dgst s" "sp_path (set_disk f s) = sp_path s" "sp_pos (set_disk f s) = sp_pos s" "sp_open (set_disk f s) = sp_open s"
  "sp_verifier (set_disk f s) = sp_verifier s" "sp_hashed (set_disk f s) = sp_hashed s" "sp_resumed (set_disk f s) = sp_resumed s"
  "sp_fired (set_disk f s) = sp_fired s" "sp_ops (set_disk f s) = sp_ops s"
  by (simp_all add: set_disk_def)

definition then_s :: "spool_outcome \<Rightarrow> (spool \<Rightarrow> spool_outcome) \<Rightarrow> spool_outcome" where
  "then_s r f = (case r of (s, Some x) \<Rightarrow> (s, Some x) | (s, None) \<Rightarrow> f s)"

text \<open>One file operation with its effect when it succeeds.\<close>

definition file_op :: "fetch_env \<Rightarrow> file_op \<Rightarrow> (spool \<Rightarrow> spool) \<Rightarrow> spool \<Rightarrow> spool_outcome" where
  "file_op e op f s =
     (let s' = s\<lparr>sp_ops := Suc (sp_ops s)\<rparr> in
      case fe_fault e op (sp_ops s) of
        Some d \<Rightarrow> (s', Some (spoolErr (sp_path s) d))
      | None \<Rightarrow> (f s', None))"

definition truncate_disk :: "nat \<Rightarrow> disk \<Rightarrow> disk" where
  "truncate_disk n d = d\<lparr>dk_part := take n (dk_part d), dk_floor := min n (dk_floor d)\<rparr>"

definition sync_disk :: "disk \<Rightarrow> disk" where
  "sync_disk d = d\<lparr>dk_synced := dk_part d, dk_floor := length (dk_part d)\<rparr>"

text \<open>Writing past the end leaves a hole of zeros.\<close>

definition write_at :: "nat \<Rightarrow> string \<Rightarrow> string \<Rightarrow> string" where
  "write_at pos bs part = take pos (part @ replicate (pos - length part) (CHR 0x00)) @ bs @ drop (pos + length bs) part"

definition write_disk :: "nat \<Rightarrow> string \<Rightarrow> disk \<Rightarrow> disk" where
  "write_disk pos bs d = d\<lparr>dk_part := write_at pos bs (dk_part d), dk_synced := take pos (dk_synced d), dk_floor := min pos (dk_floor d)\<rparr>"

subsection \<open>The spool\<close>

definition no_meta :: spoolMeta where
  "no_meta = \<lparr>sm_Offset = 0, sm_Validator = [], sm_Updated = 0\<rparr>"

text \<open>The sidecar that cannot be read counts as absent; truncating to a negative length fails whatever the
  disk does.\<close>

definition openSpool :: "fetch_env \<Rightarrow> string \<Rightarrow> string \<Rightarrow> disk \<Rightarrow> nat \<Rightarrow> spool_outcome" where
  "openSpool e root dgst d n =
     (let s = \<lparr>sp_dgst = dgst, sp_path = root, sp_disk = d, sp_past = [d], sp_pos = 0, sp_open = False,
               sp_meta = (case dk_side d of None \<Rightarrow> no_meta | Some raw \<Rightarrow> fe_decode e raw),
               sp_verifier = None, sp_hashed = 0, sp_resumed = False, sp_fired = False, sp_ops = n\<rparr>
      in if root = [] then (s, Some (Tax CodeInternal [] (Some (Because []))))
         else
           then_s (file_op e Mkdir (\<lambda>s. s) s) (\<lambda>s.
           then_s (file_op e OpenFile (\<lambda>s. s\<lparr>sp_open := True\<rparr>) s) (\<lambda>s.
           case file_op e Stat (\<lambda>s. s) s of
             (s, Some x) \<Rightarrow> (s\<lparr>sp_open := False\<rparr>, Some x)
           | (s, None) \<Rightarrow>
               (let len = int (length (dk_part (sp_disk s)));
                    s = (if offset s > len then s\<lparr>sp_meta := (sp_meta s)\<lparr>sm_Offset := len\<rparr>\<rparr> else s)
                in case (if len > offset s
                         then if offset s < 0 then (s, Some (spoolErr (sp_path s) ''invalid argument''))
                              else file_op e Truncate (set_disk (truncate_disk (nat (offset s)))) s
                         else (s, None)) of
                     (s, Some x) \<Rightarrow> (s\<lparr>sp_open := False\<rparr>, Some x)
                   | (s, None) \<Rightarrow> (s\<lparr>sp_resumed := offset s > 0\<rparr>, None)))))"

definition rehash :: "fetch_env \<Rightarrow> spool \<Rightarrow> spool_outcome" where
  "rehash e s =
     (let s = s\<lparr>sp_verifier := Some [], sp_hashed := 0\<rparr> in
      if offset s = 0 then (s, None)
      else
        then_s (file_op e Seek (\<lambda>s. s\<lparr>sp_pos := 0\<rparr>) s) (\<lambda>s.
        let bs = take (nat (offset s)) (dk_part (sp_disk s)) in
        then_s (file_op e ReadBack (\<lambda>s. s\<lparr>sp_verifier := Some bs, sp_hashed := int (length bs), sp_pos := length bs\<rparr>) s) (\<lambda>s.
        if int (length bs) < offset s then (s, Some (spoolErr (sp_path s) ''EOF'')) else (s, None))))"

definition setValidator :: "string \<Rightarrow> spool \<Rightarrow> spool" where
  "setValidator v s = s\<lparr>sp_meta := (sp_meta s)\<lparr>sm_Validator := v\<rparr>\<rparr>"

text \<open>The data is made durable before the sidecar claims it.\<close>

definition checkpoint :: "fetch_env \<Rightarrow> spool \<Rightarrow> spool_outcome" where
  "checkpoint e s =
     then_s (file_op e Sync (set_disk sync_disk) s) (\<lambda>s.
     let s = s\<lparr>sp_meta := (sp_meta s)\<lparr>sm_Updated := fe_now e (sp_ops s)\<rparr>\<rparr>; raw = fe_encode e (sp_meta s) in
     then_s (file_op e WriteSide (\<lambda>s. s) s) (file_op e RenameSide (set_disk (\<lambda>d. d\<lparr>dk_side := Some raw\<rparr>))))"

definition reset :: "fetch_env \<Rightarrow> spool \<Rightarrow> spool_outcome" where
  "reset e s =
     then_s (file_op e Truncate (set_disk (truncate_disk 0)) s) (\<lambda>s.
     then_s (file_op e Seek (\<lambda>s. s\<lparr>sp_pos := 0\<rparr>) s) (\<lambda>s.
     checkpoint e (s\<lparr>sp_meta := (sp_meta s)\<lparr>sm_Offset := 0, sm_Validator := []\<rparr>, sp_resumed := False,
       sp_verifier := Some [], sp_hashed := 0\<rparr>)))"

text \<open>What one \<^verbatim>\<open>Read\<close> of a body yields: bytes, and whether more may follow. A body that stops delivering is
  cut by the watchdog, \<open>sp_fired\<close>; it is a list of reads that ends without an end.\<close>

datatype read_end = More | EOF | Cut cause

definition checkpoint_bytes :: int where
  "checkpoint_bytes = 8388608"

definition receive :: "fetch_env \<Rightarrow> string \<Rightarrow> spool \<Rightarrow> spool_outcome" where
  "receive e bs s =
     (if bs = [] then (s, None)
      else case fe_fault e WritePart (sp_ops s) of
        Some d \<Rightarrow>
          (let some = take (fe_short e (sp_ops s)) bs
           in (set_disk (write_disk (sp_pos s) some) (s\<lparr>sp_ops := Suc (sp_ops s), sp_pos := sp_pos s + length some\<rparr>),
               Some (spoolErr (sp_path s) d)))
      | None \<Rightarrow>
          (set_disk (write_disk (sp_pos s) bs) s
             \<lparr>sp_ops := Suc (sp_ops s), sp_pos := sp_pos s + length bs,
              sp_verifier := map_option (\<lambda>v. v @ bs) (sp_verifier s),
              sp_meta := (sp_meta s)\<lparr>sm_Offset := offset s + int (length bs)\<rparr>,
              sp_hashed := sp_hashed s + int (length bs)\<rparr>, None))"

definition unreachable :: "string \<Rightarrow> cause \<Rightarrow> fetch_error" where
  "unreachable host c = Tax CodeRegistryUnreachable [(''host'', host)] (Some c)"

definition body_end :: "fetch_env \<Rightarrow> cause option \<Rightarrow> spool \<Rightarrow> spool_outcome" where
  "body_end e c s =
     then_s (checkpoint e s) (\<lambda>s. (s, map_option (unreachable ''the source registry'') c))"

definition poll_ctx :: "fetch_env \<Rightarrow> spool \<Rightarrow> spool \<times> cause option" where
  "poll_ctx e s = (s\<lparr>sp_ops := Suc (sp_ops s)\<rparr>, fe_ctx e (sp_ops s))"

fun append_loop :: "fetch_env \<Rightarrow> int \<Rightarrow> (string \<times> read_end) list \<Rightarrow> spool \<Rightarrow> spool_outcome" where
  "append_loop e since [] s =
     (case poll_ctx e s of
        (s, Some c) \<Rightarrow> (fst (checkpoint e s), Some (Ctx c))
      | (s, None) \<Rightarrow> body_end e (Some Canceled) (s\<lparr>sp_fired := True\<rparr>))"
| "append_loop e since ((bs, stop) # rds) s =
     (case poll_ctx e s of
        (s, Some c) \<Rightarrow> (fst (checkpoint e s), Some (Ctx c))
      | (s, None) \<Rightarrow>
          (let due = bs \<noteq> [] \<and> since + int (length bs) \<ge> checkpoint_bytes in
           case then_s (receive e bs s) (\<lambda>s. if due then checkpoint e s else (s, None)) of
             (s, Some x) \<Rightarrow> (s, Some x)
           | (s, None) \<Rightarrow>
               (case stop of
                  More \<Rightarrow> append_loop e (if due then 0 else since + int (length bs)) rds s
                | EOF \<Rightarrow> body_end e None s
                | Cut c \<Rightarrow> body_end e (Some c) s)))"

definition append_body :: "fetch_env \<Rightarrow> (string \<times> read_end) list \<Rightarrow> spool \<Rightarrow> spool_outcome" where
  "append_body e body s =
     then_s (file_op e Seek (\<lambda>s. s\<lparr>sp_pos := nat (offset s)\<rparr>) s) (\<lambda>s.
       append_loop e 0 body (if offset s > 0 then s\<lparr>sp_resumed := True\<rparr> else s))"

definition verified :: "fetch_env \<Rightarrow> spool \<Rightarrow> bool" where
  "verified e s = (case sp_verifier s of None \<Rightarrow> False | Some v \<Rightarrow> sp_hashed s = offset s \<and> fe_verifies e (sp_dgst s) v)"

definition close_spool :: "spool \<Rightarrow> spool" where
  "close_spool s = s\<lparr>sp_open := False\<rparr>"

text \<open>The two removals may fail, each for itself, and nobody hears of it.\<close>

definition discard :: "fetch_env \<Rightarrow> spool \<Rightarrow> spool" where
  "discard e s =
     (let s = fst (file_op e RemovePart (set_disk (\<lambda>d. d\<lparr>dk_part := [], dk_synced := [], dk_floor := 0\<rparr>)) (close_spool s))
      in fst (file_op e RemoveSide (set_disk (\<lambda>d. d\<lparr>dk_side := None\<rparr>)) s))"

text \<open>The reader streams the file from its start to its end; closing it after a complete read removes the
  spool.\<close>

definition reader :: "fetch_env \<Rightarrow> spool \<Rightarrow> spool_outcome" where
  "reader e s = file_op e Seek (\<lambda>s. s\<lparr>sp_pos := 0\<rparr>) s"

definition reader_bytes :: "spool \<Rightarrow> string" where
  "reader_bytes s = drop (sp_pos s) (dk_part (sp_disk s))"

definition Close_reader :: "fetch_env \<Rightarrow> bool \<Rightarrow> spool \<Rightarrow> spool" where
  "Close_reader e drained s = (if drained then discard e s else close_spool s)"

end
