(* ===== verification/Blobfetch.thy ===== *)
theory Blobfetch
  imports Spool
begin

text \<open>
  Resumable downloads, \<^verbatim>\<open>blobfetch/blobfetch.go\<close>: one attempt against the origin, the bounded loop of
  attempts, the check of the whole spool before a byte is handed out, and the lock per digest. The
  origin is a parameter that answers each request as it likes.
\<close>

subsection \<open>Requests and answers\<close>

record url =
  u_scheme :: string
  u_host :: string
  u_path :: string

record blob_request =
  rq_range :: "int option"
  rq_ifrange :: string

record blob_response =
  rs_status :: int
  rs_range :: string
  rs_etag :: string
  rs_modified :: string
  rs_body :: "(string \<times> read_end) list"

text \<open>\<open>NoAnswer\<close> carries the cause of the failure and whether it was a timeout.\<close>

datatype answer = NoAnswer cause bool | Answer blob_response

record Resumer =
  rm_root :: string
  rm_threshold :: int
  rm_keychain :: "cause option option"
  rm_transport :: "(cause \<times> bool) option"
  rm_origin :: "nat \<Rightarrow> blob_request \<Rightarrow> answer"

text \<open>\<open>rm_keychain\<close> is absent, or resolves with or without an error; \<open>rm_transport\<close> is the error of the
  authentication handshake, if any.\<close>

definition New_resumer :: "string \<Rightarrow> int \<Rightarrow> cause option option \<Rightarrow> (cause \<times> bool) option \<Rightarrow> (nat \<Rightarrow> blob_request \<Rightarrow> answer) \<Rightarrow> Resumer" where
  "New_resumer stateRoot threshold kc tr origin =
     \<lparr>rm_root = (if stateRoot \<noteq> [] then filepath_join stateRoot ''partials'' else []), rm_threshold = threshold,
      rm_keychain = kc, rm_transport = tr, rm_origin = origin\<rparr>"

definition Handles :: "Resumer option \<Rightarrow> int \<Rightarrow> bool" where
  "Handles r n = (case r of None \<Rightarrow> False | Some r \<Rightarrow> rm_root r \<noteq> [] \<and> rm_threshold r > 0 \<and> n \<ge> rm_threshold r)"

definition Threshold :: "Resumer option \<Rightarrow> int" where
  "Threshold r = (case r of None \<Rightarrow> 0 | Some r \<Rightarrow> if rm_root r = [] then 0 else rm_threshold r)"

definition redactURL :: "url \<Rightarrow> string" where
  "redactURL u = u_scheme u @ ''://'' @ u_host u @ u_path u"

definition dec :: "int \<Rightarrow> string" where
  "dec n = (if n < 0 then CHR ''-'' # nat_str (nat (- n)) else nat_str (nat n))"

definition rangeErr :: "url \<Rightarrow> string \<Rightarrow> fetch_error" where
  "rangeErr u detail = Tax CodeRangeUnusable [(''reference'', redactURL u), (''detail'', detail)] None"

definition mapTransportErr :: "string \<Rightarrow> cause \<Rightarrow> bool \<Rightarrow> fetch_error" where
  "mapTransportErr host c timeout =
     (if c = DeadlineExceeded \<or> timeout
      then Tax CodeInspectTimeout [(''host'', host), (''timeout'', ''the transfer deadline'')] (Some c)
      else unreachable host c)"

definition mapStatus :: "url \<Rightarrow> int \<Rightarrow> fetch_error" where
  "mapStatus u status =
     (if status = 401 \<or> status = 403 then Tax CodeRegistryAuth [(''host'', u_host u)] (Some (Because []))
      else if status = 404 then Tax CodeRefNotFound [(''reference'', redactURL u)] (Some (Because []))
      else if status = 416 then rangeErr u ''the source refused the requested byte range''
      else unreachable (u_host u) (Because []))"

definition responseValidator :: "blob_response \<Rightarrow> string" where
  "responseValidator resp = (if rs_etag resp \<noteq> [] then rs_etag resp else rs_modified resp)"

text \<open>\<^verbatim>\<open>strings.Cut\<close> at one byte.\<close>

definition cut_at :: "char \<Rightarrow> string \<Rightarrow> (string \<times> string) option" where
  "cut_at c s = map_option (\<lambda>i. (take i s, drop (Suc i) s)) (index_byte c s)"

definition parseContentRange :: "string \<Rightarrow> (int \<times> int) option" where
  "parseContentRange v =
     (let t = trim_space v in
      if \<not> has_prefix t ''bytes '' then None
      else case cut_at CHR ''/'' (drop 6 t) of
        None \<Rightarrow> None
      | Some (rng, totalStr) \<Rightarrow>
          (case cut_at CHR ''-'' rng of
             None \<Rightarrow> None
           | Some (startStr, endStr) \<Rightarrow>
               (case atoi startStr of
                  None \<Rightarrow> None
                | Some start \<Rightarrow>
                    if start < 0 then None
                    else (case atoi endStr of
                      None \<Rightarrow> None
                    | Some stop \<Rightarrow>
                        if stop < start then None
                        else if totalStr = ''*'' then Some (start, -1)
                        else (case atoi totalStr of
                          None \<Rightarrow> None
                        | Some tot \<Rightarrow> if tot \<le> stop then None else Some (start, tot))))))"

subsection \<open>One attempt\<close>

definition request_of :: "spool \<Rightarrow> blob_request" where
  "request_of s =
     (if offset s > 0 then \<lparr>rq_range = Some (offset s), rq_ifrange = validator s\<rparr>
      else \<lparr>rq_range = None, rq_ifrange = []\<rparr>)"

text \<open>Where the bytes go is decided by the status of the response, never by the request.\<close>

definition place :: "fetch_env \<Rightarrow> url \<Rightarrow> blob_response \<Rightarrow> int \<Rightarrow> spool \<Rightarrow> spool_outcome" where
  "place e u resp sz s =
     (if rs_status resp = 200 then reset e s
      else if rs_status resp = 206 then
        (case parseContentRange (rs_range resp) of
           None \<Rightarrow> (s, Some (rangeErr u (''unusable Content-Range '' @ rs_range resp)))
         | Some (start, tot) \<Rightarrow>
             if start \<noteq> offset s then (s, Some (rangeErr u (''206 starts at byte '' @ dec start @ '', '' @ dec (offset s) @ '' was requested'')))
             else if tot \<ge> 0 \<and> sz > 0 \<and> tot \<noteq> sz then (s, Some (rangeErr u (''206 declares a '' @ dec tot @ ''-byte blob, the manifest declares '' @ dec sz)))
             else (let before = validator s; now = responseValidator resp in
               if before \<noteq> [] \<and> now \<noteq> [] \<and> before \<noteq> now then then_s (reset e s) (\<lambda>s. (s, Some (rangeErr u (''the source content changed between two attempts (validator '' @ before @ '' became '' @ now @ '')''))))
             else (s, None)))
      else (s, Some (mapStatus u (rs_status resp))))"

definition pull :: "fetch_env \<Rightarrow> Resumer \<Rightarrow> url \<Rightarrow> int \<Rightarrow> spool \<Rightarrow> spool_outcome" where
  "pull e r u sz s =
     (case rm_origin r (sp_ops s) (request_of s) of
        NoAnswer c timeout \<Rightarrow> (s\<lparr>sp_ops := Suc (sp_ops s)\<rparr>, Some (mapTransportErr (u_host u) c timeout))
      | Answer resp \<Rightarrow>
          then_s (place e u resp sz (s\<lparr>sp_ops := Suc (sp_ops s)\<rparr>)) (\<lambda>s.
          let s = (if offset s = 0 then setValidator (responseValidator resp) s else s) in
          case append_body e (rs_body resp) (s\<lparr>sp_fired := False\<rparr>) of
            (s, x) \<Rightarrow>
              if sp_fired s \<and> fe_ctx e (sp_ops s) = None
              then (s\<lparr>sp_ops := Suc (sp_ops s)\<rparr>, Some (unreachable (u_host u) (Because ''stalled'')))
              else if x \<noteq> None then (s, x)
              else if sz > 0 \<and> offset s \<noteq> sz then (s, Some (rangeErr u (''the source closed after '' @ dec (offset s) @ '' of '' @ dec sz @ '' bytes'')))
              else (s, None)))"

subsection \<open>Opening a blob\<close>

definition client :: "Resumer \<Rightarrow> string \<Rightarrow> fetch_error option" where
  "client r host =
     (case rm_keychain r of
        Some (Some c) \<Rightarrow> Some (Tax CodeRegistryAuth [(''host'', host)] (Some c))
      | _ \<Rightarrow> (case rm_transport r of Some (c, timeout) \<Rightarrow> Some (mapTransportErr host c timeout) | None \<Rightarrow> None))"

definition blob_url :: "string \<Rightarrow> string \<Rightarrow> string \<Rightarrow> string \<Rightarrow> url" where
  "blob_url scheme host repo dgst = \<lparr>u_scheme = scheme, u_host = host, u_path = ''/v2/'' @ repo @ ''/blobs/'' @ dgst\<rparr>"

definition attempts :: nat where
  "attempts = 3"

fun attempt :: "fetch_env \<Rightarrow> Resumer \<Rightarrow> url \<Rightarrow> int \<Rightarrow> nat \<Rightarrow> fetch_error option \<Rightarrow> spool \<Rightarrow> spool_outcome" where
  "attempt e r u sz 0 lastErr s = (s, lastErr)"
| "attempt e r u sz (Suc n) lastErr s =
     (if sz > 0 \<and> offset s = sz then (s, None)
      else case (if lastErr = None then (s, None) else poll_ctx e s) of
        (s, Some c) \<Rightarrow> (s, Some (Ctx c))
      | (s, None) \<Rightarrow>
          (case pull e r u sz s of
             (s, None) \<Rightarrow> (s, None)
           | (s, Some x) \<Rightarrow> if retryable x then attempt e r u sz n (Some x) s else (s, Some x)))"

definition mismatch :: "string \<Rightarrow> string \<Rightarrow> spool \<Rightarrow> fetch_error" where
  "mismatch name dgst s = Tax CodeDigestMismatch [(''reference'', name @ ''@'' @ dgst), (''expected'', dgst),
     (''actual'', dec (offset s) @ '' bytes that do not hash to it'')] None"

text \<open>The body of \<^verbatim>\<open>Open\<close> under the lock of the digest. An error closes the spool; without one the spool is
  the reader.\<close>

definition Open_blob :: "fetch_env \<Rightarrow> Resumer \<Rightarrow> string \<Rightarrow> string \<Rightarrow> string \<Rightarrow> string \<Rightarrow> int \<Rightarrow> disk \<Rightarrow> nat \<Rightarrow> spool_outcome" where
  "Open_blob e r scheme host repo dgst sz d n =
     (let u = blob_url scheme host repo dgst;
          res = then_s (openSpool e (rm_root r) dgst d n) (\<lambda>s.
                case client r host of
                  Some x \<Rightarrow> (s, Some x)
                | None \<Rightarrow>
                    then_s (if offset s > sz then reset e s else (s, None)) (\<lambda>s.
                    then_s (rehash e s) (\<lambda>s.
                    then_s (attempt e r u sz attempts None s) (\<lambda>s.
                    if \<not> verified e s then (discard e s, Some (mismatch (host @ ''/'' @ repo) dgst s)) else reader e s))))
      in case res of (s, Some x) \<Rightarrow> (close_spool s, Some x) | (s, None) \<Rightarrow> (s, None))"

text \<open>The one-line form every transfer uses: the plain opener below the threshold.\<close>

definition OpenOr :: "fetch_env \<Rightarrow> Resumer option \<Rightarrow> string \<Rightarrow> string \<Rightarrow> string \<Rightarrow> string \<Rightarrow> int \<Rightarrow> disk \<Rightarrow> nat \<Rightarrow> 'a \<Rightarrow> 'a + spool_outcome" where
  "OpenOr e r scheme host repo dgst sz d n plain =
     (case r of
        Some r' \<Rightarrow> if Handles r sz then Inr (Open_blob e r' scheme host repo dgst sz d n) else Inl plain
      | None \<Rightarrow> Inl plain)"

subsection \<open>What is handed out was verified\<close>

text \<open>The spool is sealed when its file is exactly what the verifier has consumed.\<close>

definition level :: "spool \<Rightarrow> bool" where
  "level s \<longleftrightarrow> offset s = int (length (dk_part (sp_disk s)))"

definition sealed :: "string \<Rightarrow> spool \<Rightarrow> bool" where
  "sealed dgst s \<longleftrightarrow> level s \<and> sp_dgst s = dgst \<and> sp_verifier s = Some (dk_part (sp_disk s)) \<and> sp_hashed s = offset s"

text \<open>Positioning never fails, and a failing write leaves nothing behind.\<close>

definition steady :: "fetch_env \<Rightarrow> bool" where
  "steady e \<longleftrightarrow> (\<forall>n. fe_fault e Seek n = None) \<and> (\<forall>n. fe_short e n = 0)"

lemma then_s_cases:
  assumes "then_s r f = (s', x)"
  obtains y where "r = (s', Some y)" "x = Some y" | s where "r = (s, None)" "f s = (s', x)"
  using assms by (cases r, cases "snd r") (auto simp: then_s_def)

lemma then_s_Some [simp]: "then_s (s, Some x) f = (s, Some x)" "then_s (s, None) f = f s"
  by (simp_all add: then_s_def)

lemma checkpoint_keeps:
  assumes "checkpoint e s = (s', x)"
  shows "dk_part (sp_disk s') = dk_part (sp_disk s)" "offset s' = offset s" "validator s' = validator s" "sp_verifier s' = sp_verifier s"
    "sp_hashed s' = sp_hashed s" "sp_pos s' = sp_pos s" "sp_dgst s' = sp_dgst s" "sp_fired s' = sp_fired s"
  using assms
  by (auto simp: checkpoint_def file_op_def then_s_def set_disk_def sync_disk_def Let_def split: option.splits)

lemma checkpoint_sealed: "sealed dgst s \<Longrightarrow> sealed dgst (fst (checkpoint e s))"
  by (cases "checkpoint e s") (use checkpoint_keeps in \<open>fastforce simp: sealed_def level_def\<close>)

lemma reset_sealed:
  assumes "steady e"
  shows "reset e s = (s', None) \<Longrightarrow> sealed (sp_dgst s) s' \<and> offset s' = 0"
    and "sealed dgst s \<Longrightarrow> sealed dgst (fst (reset e s))"
proof -
  let ?t = "\<lambda>s. set_disk (truncate_disk 0) (s\<lparr>sp_ops := Suc (sp_ops s)\<rparr>)"
  let ?z = "\<lambda>s. s\<lparr>sp_ops := Suc (sp_ops s), sp_pos := 0, sp_meta := (sp_meta s)\<lparr>sm_Offset := 0, sm_Validator := []\<rparr>, sp_resumed := False,
       sp_verifier := Some [], sp_hashed := 0\<rparr>"
  have z: "sealed (sp_dgst s) (?z (?t s))" by (simp add: sealed_def level_def set_disk_def truncate_disk_def)
  have r: "reset e s = (case fe_fault e Truncate (sp_ops s) of
      Some d \<Rightarrow> (s\<lparr>sp_ops := Suc (sp_ops s)\<rparr>, Some (spoolErr (sp_path s) d)) | None \<Rightarrow> checkpoint e (?z (?t s)))"
    using assms by (simp add: reset_def file_op_def steady_def Let_def set_disk_def split: option.split)
  show "reset e s = (s', None) \<Longrightarrow> sealed (sp_dgst s) s' \<and> offset s' = 0"
    using r checkpoint_sealed [OF z, of e] checkpoint_keeps(2) [of e "?z (?t s)"] by (auto split: option.splits)
  show "sealed dgst s \<Longrightarrow> sealed dgst (fst (reset e s))"
    using r checkpoint_sealed [OF z, of e] by (auto simp: sealed_def level_def split: option.splits)
qed

text \<open>While a body is appended the file position is at the end.\<close>

definition ready :: "string \<Rightarrow> spool \<Rightarrow> bool" where
  "ready dgst s \<longleftrightarrow> sealed dgst s \<and> sp_pos s = length (dk_part (sp_disk s))"

lemma write_at_end [simp]: "write_at (length part) bs part = part @ bs"
  by (simp add: write_at_def)

lemma receive_ready:
  assumes "steady e" "ready dgst s" "receive e bs s = (s', x)"
  shows "ready dgst s'"
  using assms
  by (auto simp: receive_def ready_def sealed_def level_def steady_def set_disk_def write_disk_def Let_def split: if_splits option.splits)

lemma checkpoint_ready:
  assumes "ready dgst s" "checkpoint e s = (s', x)"
  shows "ready dgst s'"
  using checkpoint_sealed [of dgst s e] checkpoint_keeps [OF assms(2)] assms by (simp add: ready_def)

lemma body_end_sealed: "ready dgst s \<Longrightarrow> body_end e c s = (s', x) \<Longrightarrow> sealed dgst s'"
  unfolding body_end_def by (erule then_s_cases) (use checkpoint_ready [of dgst s e] in \<open>auto simp: ready_def\<close>)

lemma append_loop_sealed:
  "steady e \<Longrightarrow> ready dgst s \<Longrightarrow> append_loop e since body s = (s', x) \<Longrightarrow> sealed dgst s'"
proof (induction e since body s rule: append_loop.induct)
  case (1 e since s)
  have "ready dgst (s\<lparr>sp_ops := n, sp_fired := b\<rparr>)" "ready dgst (s\<lparr>sp_ops := n\<rparr>)" for n b
    using 1(2) by (simp_all add: ready_def sealed_def level_def)
  with 1(3) show ?case
    using checkpoint_sealed [of dgst "s\<lparr>sp_ops := Suc (sp_ops s)\<rparr>" e]
      body_end_sealed [of dgst "s\<lparr>sp_ops := Suc (sp_ops s), sp_fired := True\<rparr>" e "Some Canceled" s' x]
    by (auto simp: poll_ctx_def ready_def split: option.splits)
next
  case (2 e since bs stop rds s)
  let ?s = "s\<lparr>sp_ops := Suc (sp_ops s)\<rparr>"
  have r: "ready dgst ?s" using 2(3) by (simp add: ready_def sealed_def level_def)
  define due where "due \<longleftrightarrow> bs \<noteq> [] \<and> since + int (length bs) \<ge> checkpoint_bytes"
  obtain s1 y where s1: "then_s (receive e bs ?s) (\<lambda>s. if due then checkpoint e s else (s, None)) = (s1, y)" by fastforce
  then have r1: "ready dgst s1"
    by (rule then_s_cases) (auto dest: receive_ready [OF 2(2) r] checkpoint_ready split: if_splits)
  show ?case
  proof (cases "fe_ctx e (sp_ops s)")
    case None
    then have poll: "poll_ctx e s = (?s, None)" by (simp add: poll_ctx_def)
    show ?thesis
    proof (cases "y = None \<and> stop = More")
      case True
      then show ?thesis
        using 2(1) [OF poll [symmetric] refl due_def s1 [symmetric] _ _ 2(2) r1] 2(4) poll s1
        by (simp add: due_def)
    next
      case False
      then show ?thesis
        using 2(4) poll s1 r1 body_end_sealed [OF r1] unfolding due_def
        by (cases y; cases stop) (auto simp: ready_def)
    qed
  qed (use 2(4) r checkpoint_sealed [of dgst ?s e] in \<open>auto simp: poll_ctx_def ready_def\<close>)
qed

lemma append_body_sealed:
  assumes "steady e" "sealed dgst s" "append_body e body s = (s', x)"
  shows "sealed dgst s'"
proof -
  let ?s = "s\<lparr>sp_ops := Suc (sp_ops s), sp_pos := nat (offset s)\<rparr>"
  have "ready dgst ?s" "ready dgst (?s\<lparr>sp_resumed := True\<rparr>)" using assms(2) by (simp_all add: ready_def sealed_def level_def)
  with assms(1,3) append_loop_sealed [OF assms(1)] show ?thesis
    by (auto simp: append_body_def file_op_def steady_def Let_def split: if_splits)
qed

lemma pull_sealed:
  assumes "steady e" "sealed dgst s" "pull e r u sz s = (s', x)"
  shows "sealed dgst s'" "x = None \<Longrightarrow> sz > 0 \<Longrightarrow> offset s' = sz"
proof -
  let ?s = "s\<lparr>sp_ops := Suc (sp_ops s)\<rparr>"
  have s: "sealed dgst ?s" using assms(2) by (simp add: sealed_def level_def)
  have "sealed dgst s' \<and> (x = None \<longrightarrow> sz > 0 \<longrightarrow> offset s' = sz)"
  proof (cases "rm_origin r (sp_ops s) (request_of s)")
    case (NoAnswer c t)
    then show ?thesis using assms(3) s by (auto simp: pull_def)
  next
    case (Answer resp)
    obtain s1 y where p: "place e u resp sz ?s = (s1, y)" by fastforce
    have s1: "sealed dgst s1"
      using p s reset_sealed(2) [OF assms(1) s]
      by (auto simp: place_def Let_def then_s_def split: if_splits option.splits prod.splits)
    let ?v = "(if offset s1 = 0 then setValidator (responseValidator resp) s1 else s1)\<lparr>sp_fired := False\<rparr>"
    have "sealed dgst ?v" using s1 by (simp add: sealed_def level_def setValidator_def)
    moreover obtain s2 z where a: "append_body e (rs_body resp) ?v = (s2, z)" by fastforce
    ultimately have "sealed dgst s2" using append_body_sealed [OF assms(1)] by blast
    moreover from this have "sealed dgst (s2\<lparr>sp_ops := n\<rparr>)" for n by (simp add: sealed_def level_def)
    ultimately show ?thesis using assms(3) Answer p a s1 by (cases y) (auto simp: pull_def Let_def split: if_splits)
  qed
  then show "sealed dgst s'" "x = None \<Longrightarrow> sz > 0 \<Longrightarrow> offset s' = sz" by blast+
qed

lemma attempt_sealed:
  "steady e \<Longrightarrow> sealed dgst s \<Longrightarrow> attempt e r u sz n lastErr s = (s', x) \<Longrightarrow> n > 0 \<or> lastErr \<noteq> None \<Longrightarrow>
     sealed dgst s' \<and> (x = None \<longrightarrow> sz > 0 \<longrightarrow> offset s' = sz)"
proof (induction e r u sz n lastErr s rule: attempt.induct)
  case (2 e r u sz n lastErr s)
  show ?case
  proof (cases "sz > 0 \<and> offset s = sz")
    case False
    obtain s1 c where s1: "(if lastErr = None then (s, None) else poll_ctx e s) = (s1, c)" by fastforce
    have r1: "sealed dgst s1" using s1 2(3) by (auto simp: poll_ctx_def sealed_def level_def split: if_splits)
    obtain s2 y where p: "pull e r u sz s1 = (s2, y)" by fastforce
    note s2 = pull_sealed [OF 2(2) r1 p]
    show ?thesis
    proof (cases "c = None \<and> (\<exists>z. y = Some z \<and> retryable z)")
      case True
      then obtain z where z: "c = None" "y = Some z" "retryable z" by blast
      from 2(1) [OF False s1 [symmetric] z(1) p [unfolded z(2), symmetric] refl z(3) 2(2) s2(1)] 2(4) False s1 p z show ?thesis by simp
    next
      case stop: False
      then show ?thesis using 2(4) False s1 p s2 r1 by (cases c; cases y) auto
    qed
  qed (use 2 in auto)
qed auto

lemma openSpool_level:
  assumes "openSpool e root dgst d n = (s, None)"
  shows "level s" "sp_dgst s = dgst"
  using assms
  by (auto simp: openSpool_def file_op_def level_def set_disk_def truncate_disk_def then_s_def Let_def
      split: if_splits option.splits prod.splits)

lemma rehash_sealed: "level s \<Longrightarrow> rehash e s = (s', None) \<Longrightarrow> sealed (sp_dgst s) s'"
  by (auto simp: rehash_def file_op_def sealed_def level_def then_s_def Let_def split: if_splits option.splits)

text \<open>C18: Integrity is blocking: whatever is found in the state directory, whatever the origin answers and
  however the attempts fail, when \<open>Open\<close> hands out a reader, the bytes it streams hash to the digest that
  was asked for, and are as many as the manifest declared. The disk may fail at any operation, except
  that positioning works and a failing write leaves none of its bytes behind.\<close>

theorem open_verified:
  assumes "steady e" "Open_blob e r scheme host repo dgst sz d n = (s, None)"
  shows "fe_verifies e dgst (reader_bytes s) \<and> (sz > 0 \<longrightarrow> int (length (reader_bytes s)) = sz)"
proof -
  let ?u = "blob_url scheme host repo dgst"
  obtain s0 where s0: "openSpool e (rm_root r) dgst d n = (s0, None)" "client r host = None"
    and r0: "then_s (if offset s0 > sz then reset e s0 else (s0, None)) (\<lambda>s. then_s (rehash e s) (\<lambda>s.
        then_s (attempt e r ?u sz attempts None s) (\<lambda>s.
        if \<not> verified e s then (discard e s, Some (mismatch (host @ ''/'' @ repo) dgst s)) else reader e s))) = (s, None)"
    using assms(2) by (auto simp: Open_blob_def Let_def then_s_def split: prod.splits option.splits)
  from r0 obtain s1 where s1: "(if offset s0 > sz then reset e s0 else (s0, None)) = (s1, None)"
    and r1: "then_s (rehash e s1) (\<lambda>s. then_s (attempt e r ?u sz attempts None s) (\<lambda>s.
        if \<not> verified e s then (discard e s, Some (mismatch (host @ ''/'' @ repo) dgst s)) else reader e s)) = (s, None)"
    by (rule then_s_cases) auto
  from r1 obtain s2 where s2: "rehash e s1 = (s2, None)"
    and r2: "then_s (attempt e r ?u sz attempts None s2) (\<lambda>s.
        if \<not> verified e s then (discard e s, Some (mismatch (host @ ''/'' @ repo) dgst s)) else reader e s) = (s, None)"
    by (rule then_s_cases) auto
  from r2 obtain s3 where s3: "attempt e r ?u sz attempts None s2 = (s3, None)" "verified e s3" "reader e s3 = (s, None)"
    by (rule then_s_cases) (auto split: if_splits)
  have "level s1 \<and> sp_dgst s1 = dgst"
    using s1 openSpool_level [OF s0(1)] reset_sealed(1) [OF assms(1), of s0 s1] by (auto simp: sealed_def split: if_splits)
  then have "sealed dgst s2" using rehash_sealed [OF _ s2] by auto
  then have "sealed dgst s3 \<and> (sz > 0 \<longrightarrow> offset s3 = sz)" using attempt_sealed [OF assms(1) _ s3(1)] by (simp add: attempts_def)
  moreover have "reader_bytes s = dk_part (sp_disk s3)"
    using s3(3) by (auto simp: reader_def reader_bytes_def file_op_def Let_def split: option.splits)
  ultimately show ?thesis using s3(2) by (auto simp: verified_def sealed_def level_def)
qed

subsection \<open>A blob of two bytes\<close>

definition tiny_env :: fetch_env where
  "tiny_env = \<lparr>fe_verifies = \<lambda>_ bs. bs = ''ab'', fe_encode = \<lambda>m. replicate (nat (sm_Offset m)) CHR ''x'' @ '';'' @ sm_Validator m,
     fe_decode = \<lambda>raw. \<lparr>sm_Offset = int (length (takeWhile (\<lambda>c. c \<noteq> CHR '';'') raw)),
        sm_Validator = tl (dropWhile (\<lambda>c. c \<noteq> CHR '';'') raw), sm_Updated = 0\<rparr>,
     fe_now = \<lambda>_. 0, fe_fault = \<lambda>_ _. None, fe_short = \<lambda>_. 0, fe_ctx = \<lambda>_. None\<rparr>"

definition tiny_origin :: "nat \<Rightarrow> blob_request \<Rightarrow> answer" where
  "tiny_origin n rq = Answer (case rq_range rq of
     None \<Rightarrow> \<lparr>rs_status = 200, rs_range = [], rs_etag = ''e'', rs_modified = [], rs_body = [(''a'', Cut (Because []))]\<rparr>
   | Some k \<Rightarrow> \<lparr>rs_status = 206, rs_range = ''bytes 1-1/2'', rs_etag = ''e'', rs_modified = [], rs_body = [(''b'', More)]\<rparr>)"

definition tiny_resumer :: Resumer where
  "tiny_resumer = New_resumer ''/s'' 1 None None tiny_origin"

definition fresh_disk :: disk where
  "fresh_disk = \<lparr>dk_part = [], dk_synced = [], dk_floor = 0, dk_side = None\<rparr>"

definition half_disk :: disk where
  "half_disk = \<lparr>dk_part = ''a'', dk_synced = ''a'', dk_floor = 1, dk_side = Some ''x;''\<rparr>"

text \<open>The ninth operation, a write, fails, after two bytes or none; the origin had sent one byte more than was
  left and sends the right one when it is asked again.\<close>

definition short_env :: fetch_env where
  "short_env = tiny_env\<lparr>fe_fault := \<lambda>op n. if op = WritePart \<and> n = 8 then Some ''no space left on device'' else None, fe_short := \<lambda>_. 2\<rparr>"

definition short_resumer :: Resumer where
  "short_resumer = New_resumer ''/s'' 1 None None (\<lambda>n rq. Answer \<lparr>rs_status = 206, rs_range = ''bytes 1-1/2'', rs_etag = ''e'', rs_modified = [],
     rs_body = [(if n < 10 then ''bX'' else ''b'', EOF)]\<rparr>)"

definition full_env :: fetch_env where
  "full_env = short_env\<lparr>fe_short := \<lambda>_. 0\<rparr>"

theorem open_verified_witness:
  "\<exists>s. Open_blob full_env short_resumer ''https'' ''h'' ''r'' ''d'' 2 half_disk 0 = (s, None)
     \<and> fe_verifies full_env ''d'' (reader_bytes s) \<and> int (length (reader_bytes s)) = 2"
proof -
  have "snd (Open_blob full_env short_resumer ''https'' ''h'' ''r'' ''d'' 2 half_disk 0) = None" by code_simp
  then obtain s where s: "Open_blob full_env short_resumer ''https'' ''h'' ''r'' ''d'' 2 half_disk 0 = (s, None)" by (metis prod.collapse)
  have "steady full_env" by (simp add: steady_def full_env_def short_env_def)
  from open_verified [OF this s] s show ?thesis by simp
qed

text \<open>A write that fails half way leaves bytes behind the recorded offset, the next attempt of the same call
  does not cut them off, and the reader streams to the end of the file: \<open>Open\<close> hands out three bytes of
  which it verified two.\<close>

theorem open_streams_unverified_tail:
  "\<exists>s. Open_blob short_env short_resumer ''https'' ''h'' ''r'' ''d'' 2 half_disk 0 = (s, None)
     \<and> verified short_env s \<and> reader_bytes s = ''abX'' \<and> \<not> fe_verifies short_env ''d'' (reader_bytes s)"
proof -
  let ?o = "Open_blob short_env short_resumer ''https'' ''h'' ''r'' ''d'' 2 half_disk 0"
  have "snd ?o = None" by code_simp
  moreover have "verified short_env (fst ?o)" by code_simp
  moreover have "reader_bytes (fst ?o) = ''abX''" by code_simp
  moreover have "\<not> fe_verifies short_env ''d'' ''abX''" by code_simp
  ultimately show ?thesis by (metis prod.collapse)
qed

text \<open>A sidecar with a negative offset is not started over from: every call fails on it.\<close>

lemma negative_offset_wedges:
  assumes "\<forall>op n. fe_fault e op n = None" "dk_side d = Some raw" "sm_Offset (fe_decode e raw) < 0" "root \<noteq> []"
  shows "\<exists>s. openSpool e root dgst d n = (s, Some (spoolErr root ''invalid argument'')) \<and> sp_disk s = d"
  using assms by (simp add: openSpool_def file_op_def Let_def)

end
