(* ===== verification/Blobfetch_Resume.thy ===== *)
theory Blobfetch_Resume
  imports Blobfetch
begin

text \<open>
  Why downloads end: the sidecar never claims more than is durable, so that a process killed at any point
  resumes from what it had recorded, and an origin that delivers something on every attempt is
  finished after a bounded number of calls.
\<close>

subsection \<open>Crashes\<close>

definition recorded :: "fetch_env \<Rightarrow> disk \<Rightarrow> spoolMeta" where
  "recorded e d = (case dk_side d of None \<Rightarrow> no_meta | Some raw \<Rightarrow> fe_decode e raw)"

abbreviation rec_offset :: "fetch_env \<Rightarrow> disk \<Rightarrow> nat" where
  "rec_offset e d \<equiv> nat (sm_Offset (recorded e d))"

text \<open>A crash leaves the sidecar that was last put in place and a file that agrees with the synced content as
  far as both go, followed by anything; it is not shorter than what no truncation has taken back.\<close>

definition crash :: "disk \<Rightarrow> disk \<Rightarrow> bool" where
  "crash d d' \<longleftrightarrow> dk_side d' = dk_side d \<and> dk_floor d \<le> length (dk_part d')
     \<and> (prefix (dk_part d') (dk_synced d) \<or> prefix (dk_synced d) (dk_part d'))
     \<and> dk_synced d' = dk_part d' \<and> dk_floor d' = length (dk_part d')"

text \<open>What the sidecar claims is durable, is a prefix of the blob, and carries the origin's validator or none.\<close>

definition durable :: "fetch_env \<Rightarrow> string \<Rightarrow> string \<Rightarrow> disk \<Rightarrow> bool" where
  "durable e B v d \<longleftrightarrow> 0 \<le> sm_Offset (recorded e d) \<and> rec_offset e d \<le> dk_floor d \<and> dk_floor d \<le> length (dk_synced d)
     \<and> rec_offset e d \<le> length (dk_part d) \<and> take (rec_offset e d) (dk_part d) = take (rec_offset e d) (dk_synced d)
     \<and> prefix (take (rec_offset e d) (dk_part d)) B \<and> sm_Validator (recorded e d) \<in> {[], v}"

lemma prefix_take_eq: "prefix xs ys \<Longrightarrow> n \<le> length xs \<Longrightarrow> take n xs = take n ys"
  by (auto simp: prefix_def)

lemma crash_durable:
  assumes "durable e B v d" "crash d d'"
  shows "durable e B v d'" "recorded e d' = recorded e d"
proof -
  show r: "recorded e d' = recorded e d" using assms(2) by (simp add: recorded_def crash_def)
  let ?n = "rec_offset e d"
  have n: "?n \<le> length (dk_part d')" "?n \<le> length (dk_synced d)" using assms by (auto simp: durable_def crash_def)
  have "take ?n (dk_part d') = take ?n (dk_synced d)"
    using assms(2) n prefix_take_eq [of "dk_part d'" "dk_synced d" ?n] prefix_take_eq [of "dk_synced d" "dk_part d'" ?n]
    unfolding crash_def by auto
  with assms n r show "durable e B v d'" unfolding durable_def crash_def by auto
qed

subsection \<open>A disk that works and an origin that delivers\<close>

definition calm :: "fetch_env \<Rightarrow> bool" where
  "calm e \<longleftrightarrow> (\<forall>op n. fe_fault e op n = None) \<and> (\<forall>n. fe_ctx e n = None) \<and> (\<forall>n. fe_short e n = 0)
     \<and> (\<forall>m. 0 \<le> sm_Offset m \<longrightarrow> sm_Offset (fe_decode e (fe_encode e m)) = sm_Offset m
          \<and> sm_Validator (fe_decode e (fe_encode e m)) = sm_Validator m)"

fun body_bytes :: "(string \<times> read_end) list \<Rightarrow> string" where
  "body_bytes [] = []"
| "body_bytes ((bs, stop) # rds) = bs @ (if stop = More then body_bytes rds else [])"

definition plain_cuts :: "(string \<times> read_end) list \<Rightarrow> bool" where
  "plain_cuts body \<longleftrightarrow> (\<forall>(bs, stop) \<in> set body. stop \<noteq> Cut Canceled \<and> stop \<noteq> Cut DeadlineExceeded)"

text \<open>The origin honours ranges and delivers at least one byte of the rest before it closes, breaks off or
  falls silent.\<close>

definition delivering :: "string \<Rightarrow> string \<Rightarrow> (nat \<Rightarrow> blob_request \<Rightarrow> answer) \<Rightarrow> bool" where
  "delivering B v origin \<longleftrightarrow> (\<forall>n rq. \<exists>resp. origin n rq = Answer resp \<and> responseValidator resp = v
     \<and> plain_cuts (rs_body resp) \<and> body_bytes (rs_body resp) \<noteq> []
     \<and> (case rq_range rq of
          None \<Rightarrow> rs_status resp = 200 \<and> prefix (body_bytes (rs_body resp)) B
        | Some k \<Rightarrow> 0 < k \<and> k < int (length B) \<longrightarrow>
            rs_status resp = 206 \<and> parseContentRange (rs_range resp) = Some (k, int (length B))
            \<and> prefix (body_bytes (rs_body resp)) (drop (nat k) B)))"

definition working :: "fetch_env \<Rightarrow> string \<Rightarrow> string \<Rightarrow> nat \<Rightarrow> string \<Rightarrow> spool \<Rightarrow> bool" where
  "working e B v low dgst s \<longleftrightarrow> sealed dgst s \<and> prefix (dk_part (sp_disk s)) B \<and> rec_offset e (sp_disk s) \<le> nat (offset s)
     \<and> validator s \<in> {[], v} \<and> sp_disk s \<in> set (sp_past s) \<and> (\<forall>d \<in> set (sp_past s). durable e B v d \<and> low \<le> rec_offset e d)"

lemma working_fields [simp]:
  "working e B v low dgst (s\<lparr>sp_ops := n\<rparr>) = working e B v low dgst s"
  "working e B v low dgst (s\<lparr>sp_fired := b\<rparr>) = working e B v low dgst s"
  "working e B v low dgst (s\<lparr>sp_pos := n\<rparr>) = working e B v low dgst s"
  "working e B v low dgst (s\<lparr>sp_resumed := b\<rparr>) = working e B v low dgst s"
  "working e B v low dgst (s\<lparr>sp_meta := (sp_meta s)\<lparr>sm_Updated := t\<rparr>\<rparr>) = working e B v low dgst s"
  unfolding working_def sealed_def level_def by simp_all

lemma calm_ops: "calm e \<Longrightarrow> file_op e op f s = (f (s\<lparr>sp_ops := Suc (sp_ops s)\<rparr>), None)"
  by (simp add: calm_def file_op_def Let_def)

lemma working_set_disk:
  assumes "working e B v low dgst s" "dk_part (f (sp_disk s)) = dk_part (sp_disk s)" "durable e B v (f (sp_disk s))"
    "low \<le> rec_offset e (f (sp_disk s))" "rec_offset e (f (sp_disk s)) \<le> nat (offset s)"
  shows "working e B v low dgst (set_disk f s)"
  using assms unfolding working_def by (simp add: set_disk_def sealed_def level_def)

lemma checkpoint_working:
  assumes "calm e" "working e B v low dgst s"
  obtains s' where "checkpoint e s = (s', None)" "working e B v low dgst s'" "rec_offset e (sp_disk s') = nat (offset s')"
    "offset s' = offset s" "sp_pos s' = sp_pos s" "sp_fired s' = sp_fired s"
proof -
  let ?d = "sp_disk s"
  let ?s1 = "set_disk sync_disk (s\<lparr>sp_ops := Suc (sp_ops s)\<rparr>)"
  let ?m = "(sp_meta s)\<lparr>sm_Updated := fe_now e (Suc (sp_ops s))\<rparr>"
  let ?s2 = "?s1\<lparr>sp_meta := ?m, sp_ops := Suc (Suc (Suc (sp_ops s)))\<rparr>"
  let ?f = "\<lambda>d. d\<lparr>dk_side := Some (fe_encode e ?m)\<rparr>"
  have w: "sealed dgst s" "durable e B v ?d" "low \<le> rec_offset e ?d" "validator s \<in> {[], v}" "prefix (dk_part ?d) B"
    using assms(2) by (auto simp: working_def)
  have off: "offset s = int (length (dk_part ?d))" using w(1) by (simp add: sealed_def level_def)
  have "durable e B v (sync_disk ?d)" using w(2) by (auto simp: durable_def sync_disk_def recorded_def)
  then have "working e B v low dgst ?s1"
    using assms(2) w off by (intro working_set_disk) (auto simp: working_def sync_disk_def recorded_def sealed_def level_def)
  then have "working e B v low dgst (?s1\<lparr>sp_meta := ?m\<rparr>)"
    using working_fields(5) [where s = ?s1] by simp
  then have w2: "working e B v low dgst ?s2" by simp
  have rec: "recorded e (?f (sp_disk ?s2)) = fe_decode e (fe_encode e ?m)" by (simp add: recorded_def)
  have dec: "sm_Offset (fe_decode e (fe_encode e ?m)) = offset s" "sm_Validator (fe_decode e (fe_encode e ?m)) = validator s"
    using assms(1) off by (auto simp: calm_def)
  have "low \<le> nat (offset s)" using assms(2) w(3) unfolding working_def by linarith
  then have a: "working e B v low dgst (set_disk ?f ?s2)"
    using w2 w rec dec off by (intro working_set_disk) (auto simp: durable_def set_disk_def sync_disk_def)
  have b: "rec_offset e (sp_disk (set_disk ?f ?s2)) = nat (offset (set_disk ?f ?s2))"
    using rec dec by (simp add: set_disk_def)
  have "checkpoint e s = (set_disk ?f ?s2, None)"
    using assms(1) by (simp add: checkpoint_def calm_ops Let_def)
  from that [OF this a b] show ?thesis by simp
qed


text \<open>Bytes of the blob keep the spool working.\<close>

lemma receive_working:
  assumes "calm e" "working e B v low dgst s" "sp_pos s = length (dk_part (sp_disk s))" "prefix (dk_part (sp_disk s) @ bs) B"
  obtains s' where "receive e bs s = (s', None)" "working e B v low dgst s'" "offset s' = offset s + int (length bs)"
    "dk_part (sp_disk s') = dk_part (sp_disk s) @ bs" "sp_pos s' = length (dk_part (sp_disk s'))" "sp_fired s' = sp_fired s"
proof (cases "bs = []")
  case True
  then show ?thesis using that [of s] assms by (simp add: receive_def)
next
  case False
  let ?d = "write_disk (sp_pos s) bs (sp_disk s)"
  have w: "sealed dgst s" "durable e B v (sp_disk s)" "rec_offset e (sp_disk s) \<le> nat (offset s)" "low \<le> rec_offset e (sp_disk s)"
    using assms(2) by (auto simp: working_def)
  have part: "dk_part ?d = dk_part (sp_disk s) @ bs" using assms(3) by (simp add: write_disk_def)
  have rec: "recorded e ?d = recorded e (sp_disk s)" by (simp add: write_disk_def recorded_def)
  have pos: "rec_offset e (sp_disk s) \<le> sp_pos s" using w(1,3) assms(3) by (simp add: sealed_def level_def)
  have "durable e B v ?d"
    using w(2) pos part rec assms(3) by (auto simp: durable_def write_disk_def min_def)
  moreover have "receive e bs s = (set_disk (write_disk (sp_pos s) bs) s\<lparr>sp_ops := Suc (sp_ops s), sp_pos := sp_pos s + length bs,
      sp_verifier := map_option (\<lambda>v. v @ bs) (sp_verifier s), sp_meta := (sp_meta s)\<lparr>sm_Offset := offset s + int (length bs)\<rparr>,
      sp_hashed := sp_hashed s + int (length bs)\<rparr>, None)" (is "_ = (?s, None)")
    using False assms(1) by (simp add: receive_def calm_def)
  moreover have "working e B v low dgst ?s"
    using assms(2,4) w \<open>durable e B v ?d\<close> part rec by (auto simp: working_def sealed_def level_def)
  ultimately show ?thesis using that [of ?s] part assms(3) by simp
qed

lemma body_end_working:
  assumes "calm e" "working e B v low dgst s"
  obtains s' where "body_end e c s = (s', map_option (unreachable ''the source registry'') c)" "working e B v low dgst s'"
    "rec_offset e (sp_disk s') = nat (offset s')" "offset s' = offset s" "sp_fired s' = sp_fired s"
proof -
  from checkpoint_working [OF assms] obtain s' where "checkpoint e s = (s', None)" "working e B v low dgst s'"
    "rec_offset e (sp_disk s') = nat (offset s')" "offset s' = offset s" "sp_fired s' = sp_fired s" by metis
  then show ?thesis using that [of s'] by (simp add: body_end_def)
qed

definition fair_end :: "bool \<Rightarrow> fetch_error option \<Rightarrow> bool" where
  "fair_end fired x \<longleftrightarrow> fired \<or> (case x of None \<Rightarrow> True | Some y \<Rightarrow> retryable y)"

lemma unreachable_retryable: "retryable (unreachable host (Because d))"
proof -
  have "class_of CodeRegistryUnreachable = ClassOperational" by code_simp
  then show ?thesis by (simp add: retryable_def unreachable_def)
qed

lemma rangeErr_retryable: "retryable (rangeErr u d)"
proof -
  have "class_of CodeRangeUnusable = ClassOperational" by code_simp
  then show ?thesis by (simp add: retryable_def rangeErr_def)
qed

lemma append_loop_working:
  assumes "calm e" "working e B v low dgst s" "sp_pos s = length (dk_part (sp_disk s))" "prefix (dk_part (sp_disk s) @ body_bytes body) B"
    "plain_cuts body" "\<not> sp_fired s"
  shows "\<exists>s' x. append_loop e since body s = (s', x) \<and> working e B v low dgst s' \<and> rec_offset e (sp_disk s') = nat (offset s')
    \<and> offset s' = offset s + int (length (body_bytes body)) \<and> fair_end (sp_fired s') x \<and> (x = None \<longrightarrow> \<not> sp_fired s')"
  using assms(2-)
proof (induction body arbitrary: s since)
  case Nil
  let ?s = "s\<lparr>sp_ops := Suc (sp_ops s), sp_fired := True\<rparr>"
  obtain s' where "body_end e (Some Canceled) ?s = (s', Some (unreachable ''the source registry'' Canceled))"
    "working e B v low dgst s'" "rec_offset e (sp_disk s') = nat (offset s')" "offset s' = offset s" "sp_fired s'"
    by (rule body_end_working [OF assms(1), where c = "Some Canceled" and s = ?s]) (use Nil.prems(1) in auto)
  then show ?case using assms(1) by (auto simp: poll_ctx_def calm_def fair_end_def)
next
  case (Cons rd body)
  obtain bs stop where rd: "rd = (bs, stop)" by fastforce
  let ?s = "s\<lparr>sp_ops := Suc (sp_ops s)\<rparr>"
  define due where "due \<longleftrightarrow> bs \<noteq> [] \<and> since + int (length bs) \<ge> checkpoint_bytes"
  have w: "working e B v low dgst ?s" using Cons.prems(1) by simp
  have pre: "prefix (dk_part (sp_disk ?s) @ bs) B" using Cons.prems(3) rd by (auto simp: prefix_def)
  obtain s1 where s1: "receive e bs ?s = (s1, None)" "working e B v low dgst s1" "offset s1 = offset s + int (length bs)"
    "dk_part (sp_disk s1) = dk_part (sp_disk s) @ bs" "sp_pos s1 = length (dk_part (sp_disk s1))" "\<not> sp_fired s1"
    using receive_working [OF assms(1) w _ pre] Cons.prems(2,5) by auto
  obtain s2 where s2: "(if due then checkpoint e s1 else (s1, None)) = (s2, None)" "working e B v low dgst s2" "offset s2 = offset s1"
    "dk_part (sp_disk s2) = dk_part (sp_disk s1)" "sp_pos s2 = sp_pos s1" "\<not> sp_fired s2"
    using checkpoint_working [OF assms(1) s1(2)] checkpoint_keeps(1) [of e s1] s1 by (metis (no_types, lifting))
  have loop: "append_loop e since (rd # body) s = (case stop of
      More \<Rightarrow> append_loop e (if due then 0 else since + int (length bs)) body s2 | EOF \<Rightarrow> body_end e None s2 | Cut c \<Rightarrow> body_end e (Some c) s2)"
    using assms(1) s1(1) s2(1) rd by (simp add: poll_ctx_def calm_def due_def Let_def)
  show ?case
  proof (cases "stop = More")
    case True
    have "prefix (dk_part (sp_disk s2) @ body_bytes body) B" using Cons.prems(3) rd True s1(4) s2(4) by simp
    from Cons.IH [OF s2(2) _ this, of "if due then 0 else since + int (length bs)"] show ?thesis
      using loop True s1 s2 Cons.prems(4) rd by (auto simp: plain_cuts_def)
  next
    case False
    define c where "c = (case stop of Cut c \<Rightarrow> Some c | _ \<Rightarrow> None)"
    have c: "append_loop e since (rd # body) s = body_end e c s2" using loop False by (cases stop) (auto simp: c_def)
    have fair: "fair_end b (map_option (unreachable ''the source registry'') c)" for b
    proof (cases c)
      case (Some z)
      then have "z \<noteq> Canceled \<and> z \<noteq> DeadlineExceeded" using Cons.prems(4) rd by (auto simp: plain_cuts_def c_def split: read_end.splits)
      then obtain d where "z = Because d" by (cases z) auto
      then show ?thesis using Some unreachable_retryable by (simp add: fair_end_def)
    qed (simp add: fair_end_def)
    from body_end_working [OF assms(1) s2(2), of c] obtain s' where "body_end e c s2 = (s', map_option (unreachable ''the source registry'') c)"
      "working e B v low dgst s'" "rec_offset e (sp_disk s') = nat (offset s')" "offset s' = offset s2" "sp_fired s' = sp_fired s2" by metis
    then show ?thesis using c fair s1 s2 False rd by (auto simp: c_def)
  qed
qed


text \<open>An attempt from an unfinished spool takes over everything the body delivers.\<close>

lemma calm_steady: "calm e \<Longrightarrow> steady e"
  by (simp add: calm_def steady_def)

lemma restart_working:
  assumes "calm e" "working e B v low dgst s" "offset s = 0"
  obtains s' where "reset e s = (s', None)" "working e B v low dgst s'" "offset s' = 0"
proof -
  let ?s1 = "set_disk (truncate_disk 0) (s\<lparr>sp_ops := Suc (sp_ops s)\<rparr>)"
  let ?s2 = "?s1\<lparr>sp_ops := Suc (sp_ops ?s1), sp_pos := 0\<rparr>\<lparr>sp_meta := (sp_meta s)\<lparr>sm_Offset := 0, sm_Validator := []\<rparr>, sp_resumed := False,
    sp_verifier := Some [], sp_hashed := 0\<rparr>"
  have w: "rec_offset e (sp_disk s) = 0" "dk_part (sp_disk s) = []" "durable e B v (sp_disk s)" "low \<le> rec_offset e (sp_disk s)" "sp_dgst s = dgst"
    using assms(2,3) unfolding working_def by (auto simp: sealed_def level_def)
  have rec: "recorded e (truncate_disk 0 (sp_disk s)) = recorded e (sp_disk s)" by (simp add: truncate_disk_def recorded_def)
  have "durable e B v (truncate_disk 0 (sp_disk s))" using w rec by (simp add: durable_def truncate_disk_def)
  then have "working e B v low dgst ?s2"
    using assms(2) w rec unfolding working_def by (simp add: sealed_def level_def truncate_disk_def)
  from checkpoint_working [OF assms(1) this] obtain s' where "checkpoint e ?s2 = (s', None)" "working e B v low dgst s'" "offset s' = offset ?s2" by metis
  then show ?thesis using that [of s'] assms(1) by (simp add: reset_def calm_ops)
qed

lemma pull_working:
  assumes "calm e" "working e B v low dgst s" "delivering B v (rm_origin r)" "offset s < int (length B)" "rec_offset e (sp_disk s) = nat (offset s)"
  shows "\<exists>s' x. pull e r u (int (length B)) s = (s', x) \<and> working e B v low dgst s' \<and> rec_offset e (sp_disk s') = nat (offset s')
    \<and> offset s < offset s' \<and> (case x of None \<Rightarrow> offset s' = int (length B) | Some y \<Rightarrow> retryable y)"
proof -
  let ?s = "s\<lparr>sp_ops := Suc (sp_ops s)\<rparr>"
  obtain resp where resp: "rm_origin r (sp_ops s) (request_of s) = Answer resp" "responseValidator resp = v" "plain_cuts (rs_body resp)"
    "body_bytes (rs_body resp) \<noteq> []"
    "case rq_range (request_of s) of None \<Rightarrow> rs_status resp = 200 \<and> prefix (body_bytes (rs_body resp)) B
       | Some k \<Rightarrow> 0 < k \<and> k < int (length B) \<longrightarrow> rs_status resp = 206 \<and> parseContentRange (rs_range resp) = Some (k, int (length B))
            \<and> prefix (body_bytes (rs_body resp)) (drop (nat k) B)"
    using assms(3) unfolding delivering_def by meson
  have off: "offset s = int (length (dk_part (sp_disk s)))" and pre: "prefix (dk_part (sp_disk s)) B" and val: "validator s \<in> {[], v}"
    using assms(2) unfolding working_def by (auto simp: sealed_def level_def)
  have w: "working e B v low dgst ?s" using assms(2) by simp
  have "\<exists>s1. place e u resp (int (length B)) ?s = (s1, None) \<and> working e B v low dgst s1 \<and> offset s1 = offset s
      \<and> prefix (dk_part (sp_disk s1) @ body_bytes (rs_body resp)) B"
  proof (cases "offset s > 0")
    case True
    then have r: "rs_status resp = 206" "parseContentRange (rs_range resp) = Some (offset s, int (length B))"
      "prefix (body_bytes (rs_body resp)) (drop (nat (offset s)) B)" using resp(5) assms(4) by (simp_all add: request_of_def)
    have "B = dk_part (sp_disk s) @ drop (nat (offset s)) B" using pre off by (metis append_eq_conv_conj nat_int prefix_def)
    then have "prefix (dk_part (sp_disk s) @ body_bytes (rs_body resp)) B" using r(3) by (metis same_prefix_prefix)
    then show ?thesis using w r val resp(2) by (auto simp: place_def Let_def)
  next
    case False
    then have z: "offset s = 0" using off by simp
    then have r: "rs_status resp = 200" "prefix (body_bytes (rs_body resp)) B" using resp(5) by (simp_all add: request_of_def)
    obtain s1 where s1: "reset e ?s = (s1, None)" "working e B v low dgst s1" "offset s1 = 0"
      using restart_working [OF assms(1) w] z by auto
    moreover have "dk_part (sp_disk s1) = []" using s1(2,3) unfolding working_def by (auto simp: sealed_def level_def)
    ultimately show ?thesis using r z by (simp add: place_def)
  qed
  then obtain s1 where s1: "place e u resp (int (length B)) ?s = (s1, None)" "working e B v low dgst s1" "offset s1 = offset s"
    "prefix (dk_part (sp_disk s1) @ body_bytes (rs_body resp)) B" by blast
  define s2 where "s2 = (if offset s1 = 0 then setValidator (responseValidator resp) s1 else s1)\<lparr>sp_fired := False\<rparr>"
  define s3 where "s3 = (let t = s2\<lparr>sp_ops := Suc (sp_ops s2), sp_pos := nat (offset s2)\<rparr> in if offset t > 0 then t\<lparr>sp_resumed := True\<rparr> else t)"
  have "working e B v low dgst (setValidator v s1)" using s1(2) unfolding working_def by (auto simp: setValidator_def sealed_def level_def)
  then have w2: "working e B v low dgst s2" using s1(2) resp(2) by (simp add: s2_def)
  then have w3: "working e B v low dgst s3" by (simp add: s3_def Let_def)
  have f2: "offset s2 = offset s" "sp_disk s2 = sp_disk s1" using s1(3) by (auto simp: s2_def setValidator_def)
  have f3: "offset s3 = offset s" "sp_disk s3 = sp_disk s1" "\<not> sp_fired s3" "sp_pos s3 = nat (offset s)"
    using f2 by (auto simp: s3_def Let_def s2_def)
  have "sp_pos s3 = length (dk_part (sp_disk s3))" using w3 f3 unfolding working_def by (auto simp: sealed_def level_def)
  from append_loop_working [OF assms(1) w3 this _ resp(3) f3(3), where since = 0] s1(4) f3
  obtain s4 x where s4: "append_loop e 0 (rs_body resp) s3 = (s4, x)" "working e B v low dgst s4" "rec_offset e (sp_disk s4) = nat (offset s4)"
    "offset s4 = offset s + int (length (body_bytes (rs_body resp)))" "fair_end (sp_fired s4) x" "x = None \<longrightarrow> \<not> sp_fired s4" by auto
  have app: "append_body e (rs_body resp) s2 = (s4, x)" using s4(1) assms(1) by (simp add: append_body_def calm_ops s3_def Let_def)
  have grow: "offset s < offset s4" using s4(4) resp(4) by simp
  have "pull e r u (int (length B)) s = (if sp_fired s4 then (s4\<lparr>sp_ops := Suc (sp_ops s4)\<rparr>, Some (unreachable (u_host u) (Because ''stalled'')))
      else if x \<noteq> None then (s4, x) else if int (length B) > 0 \<and> offset s4 \<noteq> int (length B)
      then (s4, Some (rangeErr u (''the source closed after '' @ dec (offset s4) @ '' of '' @ dec (int (length B)) @ '' bytes''))) else (s4, None))"
    using resp(1) s1(1) app assms(1) unfolding s2_def by (simp add: pull_def calm_def Let_def)
  then show ?thesis using s4 grow off assms(4) unreachable_retryable rangeErr_retryable by (auto simp: fair_end_def split: option.splits)
qed


lemma attempt_working:
  assumes "calm e" "delivering B v (rm_origin r)" "B \<noteq> []"
  shows "working e B v low dgst s \<Longrightarrow> rec_offset e (sp_disk s) = nat (offset s) \<Longrightarrow>
    \<exists>s' x. attempt e r u (int (length B)) n lastErr s = (s', x) \<and> working e B v low dgst s' \<and> rec_offset e (sp_disk s') = nat (offset s')
      \<and> (x = None \<longrightarrow> offset s' = int (length B) \<or> n = 0 \<and> lastErr = None) \<and> (x \<noteq> None \<longrightarrow> min (length B) (nat (offset s) + n) \<le> nat (offset s'))
      \<and> (offset s = int (length B) \<and> n > 0 \<longrightarrow> x = None)"
proof (induction n arbitrary: s lastErr)
  case 0
  then show ?case by (auto split: option.splits)
next
  case (Suc n)
  show ?case
  proof (cases "offset s = int (length B)")
    case True
    then show ?thesis using Suc.prems assms(3) by simp
  next
    case False
    define s0 where "s0 = (if lastErr = None then s else s\<lparr>sp_ops := Suc (sp_ops s)\<rparr>)"
    have s0: "(if lastErr = None then (s, None) else poll_ctx e s) = (s0, None)" "working e B v low dgst s0" "offset s0 = offset s" "sp_disk s0 = sp_disk s"
      using Suc.prems(1) assms(1) by (auto simp: s0_def poll_ctx_def calm_def)
    have "offset s0 < int (length B)"
    proof -
      have "offset s0 = int (length (dk_part (sp_disk s)))" "prefix (dk_part (sp_disk s)) B"
        using s0(2,4) unfolding working_def by (auto simp: sealed_def level_def)
      then show ?thesis using False s0(3) prefix_length_le by fastforce
    qed
    with pull_working [OF assms(1) s0(2) assms(2), where u = u] s0 Suc.prems(2) obtain s1 x where
      s1: "pull e r u (int (length B)) s0 = (s1, x)" "working e B v low dgst s1" "rec_offset e (sp_disk s1) = nat (offset s1)" "offset s < offset s1"
        "case x of None \<Rightarrow> offset s1 = int (length B) | Some y \<Rightarrow> retryable y" by auto
    have pos: "0 \<le> offset s" using Suc.prems(1) unfolding working_def by (auto simp: sealed_def level_def)
    show ?thesis
    proof (cases x)
      case None
      then show ?thesis using s0(1) s1 False by auto
    next
      case (Some y)
      from Suc.IH [OF s1(2,3), of "Some y"] obtain s' z where "attempt e r u (int (length B)) n (Some y) s1 = (s', z)" "working e B v low dgst s'"
        "rec_offset e (sp_disk s') = nat (offset s')"
        "z = None \<longrightarrow> offset s' = int (length B)" "z \<noteq> None \<longrightarrow> min (length B) (nat (offset s1) + n) \<le> nat (offset s')" by blast
      note z = this
      have "z \<noteq> None \<longrightarrow> min (length B) (nat (offset s) + Suc n) \<le> nat (offset s')"
        using z(5) s1(4) pos by linarith
      with z(1-4) show ?thesis using s0(1) s1 False Some by simp
    qed
  qed
qed

subsection \<open>Calls of Open, interrupted and repeated\<close>

lemma openSpool_working:
  assumes "calm e" "durable e B v d" "root \<noteq> []"
  obtains s where "openSpool e root dgst d n = (s, None)" "offset s = sm_Offset (recorded e d)" "rec_offset e (sp_disk s) = nat (offset s)"
    "prefix (dk_part (sp_disk s)) B" "level s" "sp_dgst s = dgst" "validator s \<in> {[], v}" "sp_disk s \<in> set (sp_past s)"
    "\<forall>d' \<in> set (sp_past s). durable e B v d' \<and> recorded e d' = recorded e d"
proof -
  let ?k = "sm_Offset (recorded e d)"
  have d: "0 \<le> ?k" "nat ?k \<le> length (dk_part d)" "prefix (take (nat ?k) (dk_part d)) B" "sm_Validator (recorded e d) \<in> {[], v}"
    using assms(2) by (auto simp: durable_def)
  define s0 where "s0 = \<lparr>sp_dgst = dgst, sp_path = root, sp_disk = d, sp_past = [d], sp_pos = 0, sp_open = True,
      sp_meta = recorded e d, sp_verifier = None, sp_hashed = 0, sp_resumed = False, sp_fired = False, sp_ops = Suc (Suc (Suc n))\<rparr>"
  define t where "t = (if int (length (dk_part d)) > ?k then set_disk (truncate_disk (nat ?k)) (s0\<lparr>sp_ops := Suc (sp_ops s0)\<rparr>) else s0)"
  have "openSpool e root dgst d n = (t\<lparr>sp_resumed := offset t > 0\<rparr>, None)"
    using assms(1,3) d(1,2) by (auto simp: openSpool_def calm_ops t_def s0_def recorded_def Let_def)
  moreover have "durable e B v (truncate_disk (nat ?k) d)" "recorded e (truncate_disk (nat ?k) d) = recorded e d"
    using assms(2) by (auto simp: durable_def truncate_disk_def recorded_def min_def)
  moreover have "sp_meta t = recorded e d" "sp_dgst t = dgst" "sp_disk t \<in> set (sp_past t)" "set (sp_past t) \<subseteq> {d, truncate_disk (nat ?k) d}"
    "dk_part (sp_disk t) = take (nat ?k) (dk_part d)"
    using d(1,2) by (auto simp: t_def s0_def truncate_disk_def)
  ultimately show ?thesis using d assms(2) by (intro that [of "t\<lparr>sp_resumed := offset t > 0\<rparr>"]) (auto simp: level_def)
qed

lemma open_working:
  assumes "calm e" "durable e B v d" "delivering B v (rm_origin r)" "B \<noteq> []" "fe_verifies e dgst B" "rm_root r \<noteq> []" "client r host = None"
  shows "\<exists>s x. Open_blob e r scheme host repo dgst (int (length B)) d n = (s, x)
    \<and> (\<forall>d' \<in> set (sp_past s). durable e B v d' \<and> rec_offset e d \<le> rec_offset e d') \<and> sp_disk s \<in> set (sp_past s)
    \<and> (x = None \<longrightarrow> reader_bytes s = B) \<and> (x \<noteq> None \<longrightarrow> min (length B) (rec_offset e d + attempts) \<le> rec_offset e (sp_disk s))
    \<and> (length B \<le> rec_offset e d \<longrightarrow> x = None)"
proof -
  let ?u = "blob_url scheme host repo dgst" and ?low = "rec_offset e d"
  obtain s0 where s0: "openSpool e (rm_root r) dgst d n = (s0, None)" "offset s0 = sm_Offset (recorded e d)" "rec_offset e (sp_disk s0) = nat (offset s0)"
    "prefix (dk_part (sp_disk s0)) B" "level s0" "sp_dgst s0 = dgst" "validator s0 \<in> {[], v}" "sp_disk s0 \<in> set (sp_past s0)"
    "\<forall>d' \<in> set (sp_past s0). durable e B v d' \<and> recorded e d' = recorded e d"
    by (rule openSpool_working [OF assms(1,2,6)])
  have le: "\<not> offset s0 > int (length B)" using s0(4,5) prefix_length_le by (fastforce simp: level_def)
  have "\<exists>s1. rehash e s0 = (s1, None) \<and> sp_disk s1 = sp_disk s0 \<and> sp_past s1 = sp_past s0 \<and> sp_meta s1 = sp_meta s0"
    using s0(5) assms(1) by (simp add: rehash_def calm_ops level_def Let_def)
  then obtain s1 where s1: "rehash e s0 = (s1, None)" "sp_disk s1 = sp_disk s0" "sp_past s1 = sp_past s0" "sp_meta s1 = sp_meta s0" by blast
  have "sealed dgst s1" using rehash_sealed [OF s0(5) s1(1)] s0(6) by simp
  then have w1: "working e B v ?low dgst s1" using s0 s1 unfolding working_def by simp
  from attempt_working [OF assms(1,3,4) w1, where u = ?u and n = attempts and lastErr = None] s0(2,3) s1
  obtain s2 x where s2: "attempt e r ?u (int (length B)) attempts None s1 = (s2, x)" "working e B v ?low dgst s2" "rec_offset e (sp_disk s2) = nat (offset s2)"
    "x = None \<longrightarrow> offset s2 = int (length B)" "x \<noteq> None \<longrightarrow> min (length B) (nat (offset s1) + attempts) \<le> nat (offset s2)"
    "offset s1 = int (length B) \<longrightarrow> x = None"
    by (auto simp: attempts_def)
  have past: "\<forall>d' \<in> set (sp_past s2). durable e B v d' \<and> ?low \<le> rec_offset e d'" "sp_disk s2 \<in> set (sp_past s2)" and se: "sealed dgst s2"
    and pre: "prefix (dk_part (sp_disk s2)) B" using s2(2) unfolding working_def by blast+
  have o: "Open_blob e r scheme host repo dgst (int (length B)) d n = (case x of
      Some y \<Rightarrow> (close_spool s2, Some y)
    | None \<Rightarrow> (case (if \<not> verified e s2 then (discard e s2, Some (mismatch (host @ ''/'' @ repo) dgst s2)) else reader e s2) of
        (s, Some x) \<Rightarrow> (close_spool s, Some x) | (s, None) \<Rightarrow> (s, None)))"
    using s0(1) assms(7) le s1(1) s2(1) by (simp add: Open_blob_def Let_def split: option.split)
  have full: "length B \<le> ?low \<longrightarrow> x = None"
    using s2(6) s0(2,4,5) s1(4) prefix_length_le [OF s0(4)] by (auto simp: level_def)
  show ?thesis
  proof (cases x)
    case None
    then have "dk_part (sp_disk s2) = B" using s2(4) se pre by (auto simp: sealed_def level_def prefix_def)
    then have "verified e s2" using se assms(5) by (simp add: verified_def sealed_def)
    with None o assms(1) past \<open>dk_part (sp_disk s2) = B\<close> show ?thesis by (simp add: reader_def calm_ops reader_bytes_def)
  next
    case (Some y)
    then show ?thesis using o past s2(3,5) s0(2) s1(4) full by (simp add: close_spool_def)
  qed
qed


fun opens :: "fetch_env \<Rightarrow> Resumer \<Rightarrow> string \<Rightarrow> string \<Rightarrow> string \<Rightarrow> string \<Rightarrow> int \<Rightarrow> nat \<Rightarrow> disk \<Rightarrow> nat \<Rightarrow> spool_outcome" where
  "opens e r scheme host repo dgst sz 0 d n = Open_blob e r scheme host repo dgst sz d n"
| "opens e r scheme host repo dgst sz (Suc k) d n =
     (case Open_blob e r scheme host repo dgst sz d n of
        (s, None) \<Rightarrow> (s, None)
      | (s, Some x) \<Rightarrow> opens e r scheme host repo dgst sz k (sp_disk s) (sp_ops s))"

text \<open>A call killed at any state of the disk it went through, followed by a crash; again and again.\<close>

inductive interrupted :: "fetch_env \<Rightarrow> Resumer \<Rightarrow> string \<Rightarrow> string \<Rightarrow> string \<Rightarrow> string \<Rightarrow> int \<Rightarrow> disk \<Rightarrow> disk \<Rightarrow> bool"
  for e r scheme host repo dgst sz d where
  start: "interrupted e r scheme host repo dgst sz d d"
| killed: "interrupted e r scheme host repo dgst sz d d1 \<Longrightarrow> Open_blob e r scheme host repo dgst sz d1 n = (s, x) \<Longrightarrow>
    d2 \<in> set (sp_past s) \<Longrightarrow> crash d2 d3 \<Longrightarrow> interrupted e r scheme host repo dgst sz d d3"

lemma interrupted_durable:
  assumes "calm e" "delivering B v (rm_origin r)" "B \<noteq> []" "fe_verifies e dgst B" "rm_root r \<noteq> []" "client r host = None"
    and "interrupted e r scheme host repo dgst (int (length B)) d d'" and "durable e B v d"
  shows "durable e B v d' \<and> rec_offset e d \<le> rec_offset e d'"
  using assms(7)
proof (induction rule: interrupted.induct)
  case start
  then show ?case using assms(8) by simp
next
  case (killed d1 n s x d2 d3)
  with open_working [OF assms(1) _ assms(2-6), of d1 scheme repo n] have "durable e B v d2" "rec_offset e d1 \<le> rec_offset e d2" by auto
  with crash_durable [OF _ killed(4)] killed(5) show ?case by auto
qed

lemma opens_working:
  assumes "calm e" "delivering B v (rm_origin r)" "B \<noteq> []" "fe_verifies e dgst B" "rm_root r \<noteq> []" "client r host = None"
  shows "durable e B v d \<Longrightarrow> length B \<le> rec_offset e d + k * attempts \<Longrightarrow>
    \<exists>s. opens e r scheme host repo dgst (int (length B)) k d n = (s, None) \<and> reader_bytes s = B"
proof (induction k arbitrary: d n)
  case 0
  then show ?case using open_working [OF assms(1) 0(1) assms(2-6), of scheme repo n] by auto
next
  case (Suc k)
  obtain s x where s: "Open_blob e r scheme host repo dgst (int (length B)) d n = (s, x)"
    "\<forall>d' \<in> set (sp_past s). durable e B v d' \<and> rec_offset e d \<le> rec_offset e d'" "sp_disk s \<in> set (sp_past s)" "x = None \<longrightarrow> reader_bytes s = B"
    "x \<noteq> None \<longrightarrow> min (length B) (rec_offset e d + attempts) \<le> rec_offset e (sp_disk s)"
    using open_working [OF assms(1) Suc.prems(1) assms(2-6), of scheme repo n] by blast
  show ?case
  proof (cases x)
    case (Some y)
    then have "length B \<le> rec_offset e (sp_disk s) + k * attempts" using s(5) Suc.prems(2) by auto
    from Suc.IH [OF _ this, of "sp_ops s"] s Some show ?thesis by auto
  qed (use s in auto)
qed

text \<open>C19: Downloads end, against a well-behaved origin and disk: no file operation fails and no context ends (\<open>calm\<close>), and the
  origin always answers a range request with that range, under one validator, and delivers at least one byte of the
  rest per attempt before it closes, breaks off or falls silent (\<open>delivering\<close>). Then a call of \<open>Open\<close> killed at any point
  and followed by a crash, any number of times, loses no byte the sidecar had recorded; and from there a third as
  many calls as bytes are missing return a reader over exactly the blob. An origin that answers a range request
  with the whole blob, or whose validator moved, makes the download start over and is not covered.\<close>

theorem download_completes:
  assumes "calm e" "delivering B v (rm_origin r)" "B \<noteq> []" "fe_verifies e dgst B" "rm_root r \<noteq> []" "client r host = None"
    and "interrupted e r scheme host repo dgst (int (length B)) d d'" and "durable e B v d" and "length B \<le> rec_offset e d' + k * attempts"
  shows "rec_offset e d \<le> rec_offset e d' \<and> (\<exists>s. opens e r scheme host repo dgst (int (length B)) k d' n = (s, None) \<and> reader_bytes s = B)"
  using interrupted_durable [OF assms(1-8)] opens_working [OF assms(1-6) _ assms(9)] by blast

lemma tiny_calm: "calm tiny_env"
proof -
  have "takeWhile (\<lambda>c. c \<noteq> CHR '';'') (replicate n CHR ''x'' @ CHR '';'' # v) = replicate n CHR ''x''"
    "dropWhile (\<lambda>c. c \<noteq> CHR '';'') (replicate n CHR ''x'' @ CHR '';'' # v) = CHR '';'' # v" for n v
    by (induction n) auto
  then show ?thesis by (simp add: calm_def tiny_env_def)
qed

lemma tiny_delivering: "delivering ''ab'' ''e'' tiny_origin"
proof -
  have "parseContentRange ''bytes 1-1/2'' = Some (1, 2)" by code_simp
  moreover have "prefix ''b'' (drop (nat k) ''ab'') \<and> k = 1" if "0 < k" "k < (2::int)" for k
  proof -
    have "k = 1" using that by linarith
    then show ?thesis by simp
  qed
  ultimately show ?thesis
    by (auto simp: delivering_def tiny_origin_def plain_cuts_def responseValidator_def split: option.split)
qed

theorem download_completes_witness:
  "\<exists>s. opens tiny_env tiny_resumer ''https'' ''h'' ''r'' ''d'' 2 1 fresh_disk 0 = (s, None) \<and> reader_bytes s = ''ab''"
proof -
  have r: "rm_origin tiny_resumer = tiny_origin" "rm_root tiny_resumer \<noteq> []" "client tiny_resumer ''h'' = None"
    by (simp_all add: tiny_resumer_def New_resumer_def client_def) code_simp
  have "durable tiny_env ''ab'' ''e'' fresh_disk" by (simp add: durable_def fresh_disk_def recorded_def no_meta_def)
  then show ?thesis
    using download_completes [OF tiny_calm, of "''ab''" "''e''" tiny_resumer "''d''" "''h''" "''https''" "''r''" fresh_disk fresh_disk 1 0]
      tiny_delivering r interrupted.start
    by (simp add: tiny_env_def attempts_def fresh_disk_def recorded_def no_meta_def)
qed

end
