(* ===== verification/Blobfetch_Lock.thy ===== *)
theory Blobfetch_Lock
  imports Prelude
begin

text \<open>
  The lock per digest of \<^verbatim>\<open>blobfetch/blobfetch.go\<close>: a map from digests to channels under a mutex. A caller
  that finds the digest taken waits for its channel to be closed and tries again; releasing deletes
  the entry under the mutex and closes the channel afterwards. The calls of any number of threads
  interleave.
\<close>

datatype thread = Idle | Trying string | Waiting string nat | Holding string | Closing nat | Panicked

record locks =
  lk_map :: "string \<Rightarrow> nat option"
  lk_closed :: "nat set"
  lk_next :: nat
  lk_thread :: "nat \<Rightarrow> thread"

definition set_thread :: "nat \<Rightarrow> thread \<Rightarrow> locks \<Rightarrow> locks" where
  "set_thread t st l = l\<lparr>lk_thread := (lk_thread l)(t := st)\<rparr>"

text \<open>One round of the loop of \<^verbatim>\<open>lock\<close>, under the mutex.\<close>

definition lock_try :: "nat \<Rightarrow> string \<Rightarrow> locks \<Rightarrow> locks" where
  "lock_try t key l =
     (case lk_map l key of
        None \<Rightarrow> set_thread t (Holding key) (l\<lparr>lk_map := (lk_map l)(key \<mapsto> lk_next l), lk_next := Suc (lk_next l)\<rparr>)
      | Some held \<Rightarrow> set_thread t (Waiting key held) l)"

text \<open>The release function: the entry goes under the mutex, the channel is closed after it. Closing an absent or
  a closed channel panics.\<close>

definition release_entry :: "nat \<Rightarrow> string \<Rightarrow> locks \<Rightarrow> locks" where
  "release_entry t key l =
     (case lk_map l key of
        None \<Rightarrow> set_thread t Panicked l
      | Some ch \<Rightarrow> set_thread t (Closing ch) (l\<lparr>lk_map := (lk_map l)(key := None)\<rparr>))"

definition release_close :: "nat \<Rightarrow> nat \<Rightarrow> locks \<Rightarrow> locks" where
  "release_close t ch l =
     (if ch \<in> lk_closed l then set_thread t Panicked l
      else set_thread t Idle (l\<lparr>lk_closed := insert ch (lk_closed l)\<rparr>))"

inductive lstep :: "locks \<Rightarrow> locks \<Rightarrow> bool" where
  want: "lk_thread l t = Idle \<Longrightarrow> lstep l (set_thread t (Trying key) l)"
| round: "lk_thread l t = Trying key \<Longrightarrow> lstep l (lock_try t key l)"
| wake: "lk_thread l t = Waiting key ch \<Longrightarrow> ch \<in> lk_closed l \<Longrightarrow> lstep l (set_thread t (Trying key) l)"
| cancel: "lk_thread l t = Waiting key ch \<Longrightarrow> lstep l (set_thread t Idle l)"
| release: "lk_thread l t = Holding key \<Longrightarrow> lstep l (release_entry t key l)"
| close: "lk_thread l t = Closing ch \<Longrightarrow> lstep l (release_close t ch l)"

definition lock_init :: "locks \<Rightarrow> bool" where
  "lock_init l \<longleftrightarrow> lk_map l = Map.empty \<and> lk_closed l = {} \<and> (\<forall>t. lk_thread l t = Idle)"

text \<open>Every entry has exactly one holder and an open channel of its own; every channel a thread waits for is
  closed, about to be closed by one thread, or that of the entry.\<close>

definition owner :: "locks \<Rightarrow> nat \<Rightarrow> nat \<Rightarrow> bool" where
  "owner l t ch \<longleftrightarrow> lk_thread l t = Closing ch \<or> (\<exists>key. lk_thread l t = Holding key \<and> lk_map l key = Some ch)"

definition lock_inv :: "locks \<Rightarrow> bool" where
  "lock_inv l \<longleftrightarrow>
     (\<forall>t key. lk_thread l t = Holding key \<longrightarrow> lk_map l key \<noteq> None)
     \<and> (\<forall>key. lk_map l key \<noteq> None \<longrightarrow> (\<exists>t. lk_thread l t = Holding key))
     \<and> (\<forall>t u ch. owner l t ch \<longrightarrow> owner l u ch \<longrightarrow> t = u)
     \<and> (\<forall>t u key. lk_thread l t = Holding key \<longrightarrow> lk_thread l u = Holding key \<longrightarrow> t = u)
     \<and> (\<forall>t ch. owner l t ch \<longrightarrow> ch \<notin> lk_closed l \<and> ch < lk_next l)
     \<and> (\<forall>ch \<in> lk_closed l. ch < lk_next l)
     \<and> (\<forall>t key ch. lk_thread l t = Waiting key ch \<longrightarrow> ch \<in> lk_closed l \<or> (\<exists>u. lk_thread l u = Closing ch) \<or> lk_map l key = Some ch)
     \<and> (\<forall>t. lk_thread l t \<noteq> Panicked)"

lemma set_thread_simps [simp]:
  "lk_map (set_thread t st l) = lk_map l" "lk_closed (set_thread t st l) = lk_closed l" "lk_next (set_thread t st l) = lk_next l"
  "lk_thread (set_thread t st l) = (lk_thread l)(t := st)"
  by (simp_all add: set_thread_def)

lemma lock_invD:
  assumes "lock_inv l"
  shows "lk_thread l t = Holding key \<Longrightarrow> \<exists>ch. lk_map l key = Some ch" "lk_map l key = Some ch \<Longrightarrow> \<exists>t. lk_thread l t = Holding key"
    "owner l t ch \<Longrightarrow> owner l u ch \<Longrightarrow> t = u" "lk_thread l t = Holding key \<Longrightarrow> lk_thread l u = Holding key \<Longrightarrow> t = u"
    "owner l t ch \<Longrightarrow> ch \<notin> lk_closed l" "owner l t ch \<Longrightarrow> ch < lk_next l" "ch \<in> lk_closed l \<Longrightarrow> ch < lk_next l"
    "lk_thread l t = Waiting key ch \<Longrightarrow> ch \<in> lk_closed l \<or> (\<exists>u. lk_thread l u = Closing ch) \<or> lk_map l key = Some ch"
    "lk_thread l t \<noteq> Panicked"
  using assms unfolding lock_inv_def by blast+

lemma lock_invI:
  assumes "\<And>t key. lk_thread l t = Holding key \<Longrightarrow> lk_map l key \<noteq> None" "\<And>key ch. lk_map l key = Some ch \<Longrightarrow> \<exists>t. lk_thread l t = Holding key"
    "\<And>t u ch. owner l t ch \<Longrightarrow> owner l u ch \<Longrightarrow> t = u" "\<And>t u key. lk_thread l t = Holding key \<Longrightarrow> lk_thread l u = Holding key \<Longrightarrow> t = u"
    "\<And>t ch. owner l t ch \<Longrightarrow> ch \<notin> lk_closed l \<and> ch < lk_next l" "\<And>ch. ch \<in> lk_closed l \<Longrightarrow> ch < lk_next l"
    "\<And>t key ch. lk_thread l t = Waiting key ch \<Longrightarrow> ch \<in> lk_closed l \<or> (\<exists>u. lk_thread l u = Closing ch) \<or> lk_map l key = Some ch"
    "\<And>t. lk_thread l t \<noteq> Panicked"
  shows "lock_inv l"
  using assms unfolding lock_inv_def by blast

text \<open>A thread without a channel changes to another state without one.\<close>

lemma lock_inv_free:
  assumes "lock_inv l" "\<forall>ch. \<not> owner l t ch" "\<forall>key. st \<noteq> Holding key" "\<forall>ch. st \<noteq> Closing ch" "st \<noteq> Panicked"
    "\<forall>key ch. st = Waiting key ch \<longrightarrow> lk_map l key = Some ch"
  shows "lock_inv (set_thread t st l)"
proof -
  let ?l = "set_thread t st l"
  have h: "lk_thread ?l u = Holding key \<longleftrightarrow> lk_thread l u = Holding key" "lk_thread ?l u = Closing ch \<longleftrightarrow> lk_thread l u = Closing ch" for u key ch
    using assms(2-4) lock_invD(1) [OF assms(1), of t key] by (auto simp: owner_def)
  then have o: "owner ?l u ch \<longleftrightarrow> owner l u ch" for u ch by (simp add: owner_def)
  show ?thesis
  proof (rule lock_invI)
    show "ch \<in> lk_closed ?l \<or> (\<exists>u. lk_thread ?l u = Closing ch) \<or> lk_map ?l key = Some ch" if "lk_thread ?l u = Waiting key ch" for u key ch
      unfolding h using that assms(6) lock_invD(8) [OF assms(1), of u key ch] by (auto split: if_splits)
    show "lk_thread ?l u \<noteq> Panicked" for u using assms(5) lock_invD(9) [OF assms(1)] by simp
  qed (use lock_invD [OF assms(1)] h o in auto)
qed

lemma lock_inv_step:
  assumes "lock_inv l" "lstep l l'"
  shows "lock_inv l'"
  using assms(2)
proof cases
  case (want t key)
  then show ?thesis using lock_inv_free [OF assms(1), of t "Trying key"] by (simp add: owner_def)
next
  case (round t key)
  show ?thesis
  proof (cases "lk_map l key")
    case None
    let ?c = "lk_next l"
    have t: "lk_thread l' u = (if u = t then Holding key else lk_thread l u)" "lk_map l' k = (if k = key then Some ?c else lk_map l k)"
      "lk_closed l' = lk_closed l" "lk_next l' = Suc ?c" for u k using round None by (simp_all add: lock_try_def)
    have o: "owner l' u ch \<longleftrightarrow> (if u = t then ch = ?c else owner l u ch)" for u ch
      using t None lock_invD(1) [OF assms(1), of u key] by (auto simp: owner_def)
    have fresh: "\<not> owner l u ?c" "?c \<notin> lk_closed l" for u using lock_invD(6,7) [OF assms(1)] by blast+
    have other: "lk_thread l u \<noteq> Holding key" for u using None lock_invD(1) [OF assms(1)] by fastforce
    show ?thesis
    proof (rule lock_invI)
      show "\<exists>u. lk_thread l' u = Holding k" if "lk_map l' k = Some ch" for k ch
        using that t round(2) lock_invD(2) [OF assms(1), of k ch] by (cases "k = key") (auto, metis thread.distinct)
      show "ch \<in> lk_closed l' \<or> (\<exists>u. lk_thread l' u = Closing ch) \<or> lk_map l' k = Some ch" if "lk_thread l' u = Waiting k ch" for u k ch
        using that t None round(2) lock_invD(8) [OF assms(1), of u k ch] by (auto split: if_splits; metis thread.distinct)
    qed (use lock_invD(1,3-7,9) [OF assms(1)] t o other fresh in \<open>auto split: if_splits simp: less_Suc_eq\<close>)
  next
    case (Some ch)
    then show ?thesis using round lock_inv_free [OF assms(1), of t "Waiting key ch"] by (simp add: owner_def lock_try_def)
  qed
next
  case (wake t key ch)
  then show ?thesis using lock_inv_free [OF assms(1), of t "Trying key"] by (simp add: owner_def)
next
  case (cancel t key ch)
  then show ?thesis using lock_inv_free [OF assms(1), of t Idle] by (simp add: owner_def)
next
  case (release t key)
  then obtain c where c: "lk_map l key = Some c" using lock_invD(1) [OF assms(1)] by blast
  have t: "lk_thread l' u = (if u = t then Closing c else lk_thread l u)" "lk_map l' k = (if k = key then None else lk_map l k)"
    "lk_closed l' = lk_closed l" "lk_next l' = lk_next l" for u k using release c by (simp_all add: release_entry_def)
  have only: "lk_thread l u = Holding key \<Longrightarrow> u = t" for u using release(2) lock_invD(4) [OF assms(1)] by blast
  have o: "owner l' u ch \<longleftrightarrow> owner l u ch" for u ch
  proof (cases "u = t")
    case True
    then show ?thesis using t(1) c release(2) by (auto simp: owner_def)
  next
    case False
    then have "lk_thread l u \<noteq> Holding key" using only by blast
    then show ?thesis unfolding owner_def t(1,2) using False by (metis (full_types))
  qed
  show ?thesis
  proof (rule lock_invI)
    show "\<exists>u. lk_thread l' u = Holding k" if "lk_map l' k = Some ch" for k ch
      using that t release(2) lock_invD(2) [OF assms(1), of k ch] by (auto split: if_splits; metis thread.inject(3))
    show "ch \<in> lk_closed l' \<or> (\<exists>u. lk_thread l' u = Closing ch) \<or> lk_map l' k = Some ch" if "lk_thread l' u = Waiting k ch" for u k ch
      using that t c release(2) lock_invD(8) [OF assms(1), of u k ch] by (auto split: if_splits; metis thread.distinct)
  qed (use lock_invD [OF assms(1)] t o only in \<open>auto split: if_splits\<close>)
next
  case (close t c)
  then have own: "owner l t c" by (simp add: owner_def)
  have t: "lk_thread l' u = (if u = t then Idle else lk_thread l u)" "lk_map l' = lk_map l" "lk_closed l' = insert c (lk_closed l)" "lk_next l' = lk_next l" for u
    using close lock_invD(5) [OF assms(1) own] by (simp_all add: release_close_def)
  have o: "owner l' u ch \<longleftrightarrow> u \<noteq> t \<and> owner l u ch" for u ch using t by (auto simp: owner_def)
  show ?thesis
  proof (rule lock_invI)
    show "\<exists>u. lk_thread l' u = Holding k" if "lk_map l' k = Some ch" for k ch
      using that t close(2) lock_invD(2) [OF assms(1), of k ch] by (auto, metis thread.distinct)
    show "ch \<in> lk_closed l' \<or> (\<exists>u. lk_thread l' u = Closing ch) \<or> lk_map l' k = Some ch" if "lk_thread l' u = Waiting k ch" for u k ch
      using that t close(2) lock_invD(8) [OF assms(1), of u k ch] by (auto split: if_splits; metis thread.inject(4))
    show "ch \<notin> lk_closed l' \<and> ch < lk_next l'" if "owner l' u ch" for u ch
      using that o t lock_invD(3) [OF assms(1) own, of u] lock_invD(5,6) [OF assms(1), of u ch] by auto
  qed (use lock_invD [OF assms(1)] t o own in \<open>auto split: if_splits\<close>)
qed

interpretation digest_lock: invariant lock_init lstep lock_inv
proof
  show "lock_init l \<Longrightarrow> lock_inv l" for l by (simp add: lock_init_def lock_inv_def owner_def)
qed (rule lock_inv_step)

text \<open>C34: The lock per digest. However the calls of any number of threads interleave, at most one thread holds a
  digest, no release ever closes a channel twice or a missing one, and no waiter is stranded: when
  nobody holds its digest, its channel is closed already or some thread is about to close it.\<close>

theorem digest_lock_exclusive:
  assumes "reach lock_init lstep l"
  shows "(\<forall>t u key. lk_thread l t = Holding key \<and> lk_thread l u = Holding key \<longrightarrow> t = u) \<and> (\<forall>t. lk_thread l t \<noteq> Panicked)
    \<and> (\<forall>t key ch. lk_thread l t = Waiting key ch \<longrightarrow>
         (\<exists>u. lk_thread l u = Holding key) \<or> ch \<in> lk_closed l \<or> (\<exists>u. lk_thread l u = Closing ch))"
proof -
  note i = lock_invD [OF digest_lock.reach_inv [OF assms]]
  show ?thesis using i(2,4,8,9) by blast
qed

definition two_locks :: locks where
  "two_locks = \<lparr>lk_map = [''d'' \<mapsto> 0], lk_closed = {}, lk_next = 1, lk_thread = (\<lambda>_. Idle)(0 := Holding ''d'', 1 := Waiting ''d'' 0)\<rparr>"

theorem digest_lock_exclusive_witness:
  "lk_thread two_locks 1 = Waiting ''d'' 0 \<and> (\<exists>u. lk_thread two_locks u = Holding ''d'') \<and> (\<forall>t. lk_thread two_locks t \<noteq> Panicked)"
proof -
  define a where "a = \<lparr>lk_map = Map.empty, lk_closed = {}, lk_next = 0, lk_thread = \<lambda>_. Idle\<rparr>"
  define b where "b = set_thread 0 (Trying ''d'') a"
  define c where "c = lock_try 0 ''d'' b"
  define d where "d = set_thread 1 (Trying ''d'') c"
  have "lock_init a" by (simp add: a_def lock_init_def)
  then have "reach lock_init lstep a" by (rule reach_init)
  moreover have "lstep a b" unfolding b_def by (rule lstep.want) (simp add: a_def)
  moreover have "lstep b c" unfolding c_def by (rule lstep.round) (simp add: b_def)
  moreover have "lstep c d" unfolding d_def by (rule lstep.want) (simp add: c_def b_def a_def lock_try_def)
  moreover have "lstep d (lock_try 1 ''d'' d)" by (rule lstep.round) (simp add: d_def)
  moreover have "lock_try 1 ''d'' d = two_locks"
    by (simp add: d_def c_def b_def a_def lock_try_def two_locks_def set_thread_def fun_eq_iff)
  ultimately have "reach lock_init lstep two_locks" by (metis reach_step)
  note ok = digest_lock_exclusive [OF this]
  have "lk_thread two_locks 0 = Holding ''d''" "lk_thread two_locks 1 = Waiting ''d'' 0" by (simp_all add: two_locks_def)
  with ok show ?thesis by blast
qed

end
