(* ===== verification/Copying.thy ===== *)
theory Copying
  imports Taxonomy Relocate
begin

text \<open>
  The bit-exact copy of images, indexes and artifacts into a store, \<^verbatim>\<open>engine/transfer.go\<close>, and the mapping of
  errors of \<^verbatim>\<open>engine/errors.go\<close>.

  The store is the Go interface \<^verbatim>\<open>Store\<close>, a record of operations on a state the copy knows nothing about;
  what its documentation promises is the predicate \<open>lawful\<close>. Images and indexes are what the
  registry client hands out, every access of which may fail.
\<close>

subsection \<open>Errors\<close>

datatype eng_error =
    ETax code params
  | EFileTooLarge string
  | EField string string
  | ELayout string
  | ENoTrustedKey string
  | EBadSignature string
  | ENoSignature
  | EVersion string string
  | ERef ref_error
  | EDeadline
  | EStatus int "(string \<times> string) list"
  | EUnknown
  | ENetwork
  | ELibUnknown
  | EStoreMissing
  | EOther string

text \<open>\<open>EUnknown\<close> is an error whose text says that a manifest or a name is unknown, or that something does not
  exist; \<open>ENetwork\<close> is any refused, unresolved or broken connection; \<open>EStatus\<close> is the
  status of a registry's answer with the codes and messages it lists; \<open>ELibUnknown\<close> is the storage library's answer that a repository, tag, manifest or blob is unknown,
  \<open>EStoreMissing\<close> the store's own \<^verbatim>\<open>ErrNotFound\<close>.\<close>

text \<open>\<^verbatim>\<open>%q\<close> on ASCII.\<close>

definition quote_char :: "char \<Rightarrow> string" where
  "quote_char c =
     (if c = CHR 0x22 \<or> c = CHR 0x5C then [CHR 0x5C, c]
      else if c = CHR 0x07 then [CHR 0x5C, CHR ''a''] else if c = CHR 0x08 then [CHR 0x5C, CHR ''b'']
      else if c = CHR 0x0C then [CHR 0x5C, CHR ''f''] else if c = CHR 0x0A then [CHR 0x5C, CHR ''n'']
      else if c = CHR 0x0D then [CHR 0x5C, CHR ''r''] else if c = CHR 0x09 then [CHR 0x5C, CHR ''t'']
      else if c = CHR 0x0B then [CHR 0x5C, CHR ''v'']
      else if of_char c < (32 :: nat) \<or> of_char c = (127 :: nat) then [CHR 0x5C, CHR ''x''] @ hex_encode [c]
      else [c])"

definition go_quote :: "string \<Rightarrow> string" where
  "go_quote s = [CHR 0x22] @ concat (map quote_char s) @ [CHR 0x22]"

definition layoutPath :: string where
  "layoutPath = ''artifact layout (RECIPE-SPEC '' @ [CHR 0xC2, CHR 0xA7] @ ''11.2)''"

text \<open>The text of a registry's refusal lists its codes and messages.\<close>

definition says :: "string list \<Rightarrow> (string \<times> string) list \<Rightarrow> bool" where
  "says words errs = list_ex (\<lambda>(code, msg). list_ex (\<lambda>w. contains code w \<or> contains msg w) words) errs"

fun mapEngineError :: "eng_error \<Rightarrow> string \<Rightarrow> code \<times> params" where
  "mapEngineError (ETax c ps) subject = (c, ps)"
| "mapEngineError (EField path msg) subject = (CodeValidation, [(''file'', subject), (''path'', path), (''constraint'', msg)])"
| "mapEngineError (ELayout msg) subject = (CodeValidation, [(''file'', subject), (''path'', layoutPath), (''constraint'', msg)])"
| "mapEngineError (ENoTrustedKey tried) subject = (CodeSignature, [(''recipe'', subject), (''fingerprints'', tried)])"
| "mapEngineError (EBadSignature reason) subject = (CodeSignature, [(''recipe'', subject), (''fingerprints'', reason)])"
| "mapEngineError ENoSignature subject = (CodeSignature, [(''recipe'', subject), (''fingerprints'', ''no signature artifact found'')])"
| "mapEngineError (EVersion expr msg) subject =
     (CodeVersionResolve, [(''reference'', subject), (''constraint'', []), (''detail'', ''version '' @ go_quote expr @ '': '' @ msg)])"
| "mapEngineError (ERef e) subject = (CodeInternal, [])"
| "mapEngineError EDeadline subject = (CodeInspectTimeout, [(''host'', subject), (''timeout'', ''sync'')])"
| "mapEngineError (EStatus st errs) subject =
     (if st = 401 \<or> st = 403 then (CodeRegistryAuth, [(''host'', subject)])
      else if st = 404 \<or> says [''MANIFEST_UNKNOWN'', ''NAME_UNKNOWN''] errs then (CodeRefNotFound, [(''reference'', subject)])
      else if says [''connection refused'', ''no such host''] errs then (CodeRegistryUnreachable, [(''host'', subject)])
      else (CodeInternal, []))"
| "mapEngineError EUnknown subject = (CodeRefNotFound, [(''reference'', subject)])"
| "mapEngineError ENetwork subject = (CodeRegistryUnreachable, [(''host'', subject)])"
| "mapEngineError ELibUnknown subject = (CodeInternal, [])"
| "mapEngineError EStoreMissing subject = (CodeInternal, [])"
| "mapEngineError (EFileTooLarge d) subject = (CodeInternal, [])"
| "mapEngineError (EOther d) subject = (CodeInternal, [])"

subsection \<open>The store and the sources\<close>

record 's dst_store =
  ds_HasManifest :: "'s \<Rightarrow> string \<Rightarrow> string \<Rightarrow> bool"
  ds_ResolveTag :: "'s \<Rightarrow> string \<Rightarrow> string \<Rightarrow> string option"
  ds_HasBlob :: "'s \<Rightarrow> string \<Rightarrow> string \<Rightarrow> bool"
  ds_WriteBlob :: "string \<Rightarrow> string \<Rightarrow> string \<Rightarrow> 's \<Rightarrow> 's \<times> eng_error option"
  ds_PutManifest :: "string \<Rightarrow> string \<Rightarrow> string \<Rightarrow> string \<Rightarrow> 's \<Rightarrow> 's \<times> (eng_error + string)"

record layer =
  ly_digest :: "eng_error + string"
  ly_size :: int
  ly_compressed :: "eng_error + string"

record src_image =
  im_manifest :: "eng_error + (string \<times> int \<times> string)"
  im_layers :: "eng_error + layer list"
  im_rawConfig :: "eng_error + string"
  im_raw :: "eng_error + string"

text \<open>A platform is an operating system, an architecture and a variant.\<close>

type_synonym platform = "string \<times> string \<times> string"

datatype src_index = Index (ix_manifest: "eng_error + kid list") (ix_raw: "eng_error + string") (ix_mediaType: "eng_error + string")
  and kid = KidImage string "platform option" "eng_error + src_image" | KidIndex string "platform option" "eng_error + src_index"

fun kid_digest :: "kid \<Rightarrow> string" where
  "kid_digest (KidImage d _ _) = d"
| "kid_digest (KidIndex d _ _) = d"

fun kid_platform :: "kid \<Rightarrow> platform option" where
  "kid_platform (KidImage _ pf _) = pf"
| "kid_platform (KidIndex _ pf _) = pf"

text \<open>The opener of a blob: the resumable path or the plain one, by digest, size and plain opener.\<close>

type_synonym opener = "string \<Rightarrow> int \<Rightarrow> eng_error + string \<Rightarrow> eng_error + string"

subsection \<open>Copies\<close>

definition write_one :: "'s dst_store \<Rightarrow> opener \<Rightarrow> string \<Rightarrow> string \<Rightarrow> int \<Rightarrow> eng_error + string \<Rightarrow> 's \<times> int \<Rightarrow> ('s \<times> int) \<times> eng_error option" where
  "write_one D bl repo d sz plain sn =
     (case sn of (s, n) \<Rightarrow>
      if ds_HasBlob D s repo d then ((s, n), None)
      else case bl d sz plain of
        Inl x \<Rightarrow> ((s, n), Some x)
      | Inr bytes \<Rightarrow>
          (case ds_WriteBlob D repo d bytes s of
             (s, Some x) \<Rightarrow> ((s, n), Some x)
           | (s, None) \<Rightarrow> ((s, n + sz), None)))"

fun copy_layers :: "'s dst_store \<Rightarrow> opener \<Rightarrow> string \<Rightarrow> layer list \<Rightarrow> 's \<times> int \<Rightarrow> ('s \<times> int) \<times> eng_error option" where
  "copy_layers D bl repo [] sn = (sn, None)"
| "copy_layers D bl repo (l # ls) sn =
     (case ly_digest l of
        Inl x \<Rightarrow> (sn, Some x)
      | Inr d \<Rightarrow>
          (case write_one D bl repo d (ly_size l) (ly_compressed l) sn of
             (sn, Some x) \<Rightarrow> (sn, Some x)
           | (sn, None) \<Rightarrow> copy_layers D bl repo ls sn))"

definition put_last :: "'s dst_store \<Rightarrow> string \<Rightarrow> string \<Rightarrow> string \<Rightarrow> string \<Rightarrow> 's \<times> int \<Rightarrow> ('s \<times> int) \<times> eng_error option" where
  "put_last D repo mt payload tag sn =
     (case sn of (s, n) \<Rightarrow>
      case ds_PutManifest D repo mt payload tag s of
        (s, Inl x) \<Rightarrow> ((s, n), Some x)
      | (s, Inr _) \<Rightarrow> ((s, n), None))"

definition copyImage :: "'s dst_store \<Rightarrow> opener \<Rightarrow> string \<Rightarrow> string \<Rightarrow> src_image \<Rightarrow> 's \<Rightarrow> ('s \<times> int) \<times> eng_error option" where
  "copyImage D bl repo tag img s =
     (case im_manifest img of
        Inl x \<Rightarrow> ((s, 0), Some x)
      | Inr (cfg, cfgSize, mt) \<Rightarrow>
          (case im_layers img of
             Inl x \<Rightarrow> ((s, 0), Some x)
           | Inr ls \<Rightarrow>
               (case copy_layers D bl repo ls (s, 0) of
                  (sn, Some x) \<Rightarrow> (sn, Some x)
                | (sn, None) \<Rightarrow>
                    (case im_rawConfig img of
                       Inl x \<Rightarrow> (sn, Some x)
                     | Inr raw \<Rightarrow>
                         (case write_one D bl repo cfg cfgSize (Inr raw) sn of
                            (sn, Some x) \<Rightarrow> (sn, Some x)
                          | (sn, None) \<Rightarrow>
                              (case im_raw img of
                                 Inl x \<Rightarrow> (sn, Some x)
                               | Inr payload \<Rightarrow> put_last D repo mt payload tag sn))))))"

function (sequential) copyNestedIndex :: "'s dst_store \<Rightarrow> opener \<Rightarrow> string \<Rightarrow> src_index \<Rightarrow> 's \<Rightarrow> ('s \<times> int) \<times> eng_error option"
  and copy_kids :: "'s dst_store \<Rightarrow> opener \<Rightarrow> string \<Rightarrow> string set option \<Rightarrow> kid list \<Rightarrow> 's \<times> int \<Rightarrow> ('s \<times> int) \<times> eng_error option" where
  "copyNestedIndex D bl repo (Index man raw mt) s =
     (case man of
        Inl x \<Rightarrow> ((s, 0), Some x)
      | Inr kids \<Rightarrow>
          (case copy_kids D bl repo None kids (s, 0) of
             (sn, Some x) \<Rightarrow> (sn, Some x)
           | (sn, None) \<Rightarrow>
               (case raw of
                  Inl x \<Rightarrow> (sn, Some x)
                | Inr payload \<Rightarrow> (case mt of Inl x \<Rightarrow> (sn, Some x) | Inr m \<Rightarrow> put_last D repo m payload [] sn))))"
| "copy_kids D bl repo sel [] sn = (sn, None)"
| "copy_kids D bl repo sel (KidImage d pf img # ks) (s, n) =
     (if (case sel of None \<Rightarrow> False | Some S \<Rightarrow> d \<notin> S) \<or> ds_HasManifest D s repo d then copy_kids D bl repo sel ks (s, n)
      else case img of
        Inl x \<Rightarrow> ((s, n), Some x)
      | Inr i \<Rightarrow>
          (case copyImage D bl repo [] i s of
             ((s, m), Some x) \<Rightarrow> ((s, n + m), Some x)
           | ((s, m), None) \<Rightarrow> copy_kids D bl repo sel ks (s, n + m)))"
| "copy_kids D bl repo sel (KidIndex d pf idx # ks) (s, n) =
     (if (case sel of None \<Rightarrow> False | Some S \<Rightarrow> d \<notin> S) \<or> ds_HasManifest D s repo d then copy_kids D bl repo sel ks (s, n)
      else case idx of
        Inl x \<Rightarrow> ((s, n), Some x)
      | Inr i \<Rightarrow>
          (case copyNestedIndex D bl repo i s of
             ((s, m), Some x) \<Rightarrow> ((s, n + m), Some x)
           | ((s, m), None) \<Rightarrow> copy_kids D bl repo sel ks (s, n + m)))"
  by pat_completeness auto
termination
  by (relation "measure (\<lambda>x. case x of Inl (_, _, _, i, _) \<Rightarrow> size i | Inr (_, _, _, _, ks, _) \<Rightarrow> size_list size ks)") auto

text \<open>The top index comes with the media type of its descriptor.\<close>

definition copyIndexChildren :: "'s dst_store \<Rightarrow> opener \<Rightarrow> string \<Rightarrow> string \<Rightarrow> string \<Rightarrow> eng_error + src_index \<Rightarrow> string set option \<Rightarrow> 's \<Rightarrow>
    ('s \<times> int) \<times> eng_error option" where
  "copyIndexChildren D bl repo tag mt desc sel s =
     (case desc of
        Inl x \<Rightarrow> ((s, 0), Some x)
      | Inr idx \<Rightarrow>
          (case ix_manifest idx of
             Inl x \<Rightarrow> ((s, 0), Some x)
           | Inr kids \<Rightarrow>
               (case copy_kids D bl repo sel kids (s, 0) of
                  (sn, Some x) \<Rightarrow> (sn, Some x)
                | (sn, None) \<Rightarrow> (case ix_raw idx of Inl x \<Rightarrow> (sn, Some x) | Inr payload \<Rightarrow> put_last D repo mt payload tag sn))))"


text \<open>Artifacts: a parsed manifest names its config and layers, an empty digest is skipped. Whether a digest parses,
  and what the bounded read of a blob yields, are parameters.\<close>

fun copy_blobs :: "'s dst_store \<Rightarrow> (string \<Rightarrow> bool) \<Rightarrow> (string \<Rightarrow> eng_error + string) \<Rightarrow> string \<Rightarrow> string list \<Rightarrow> 's \<Rightarrow> 's \<times> eng_error option" where
  "copy_blobs D ok fetch repo [] s = (s, None)"
| "copy_blobs D ok fetch repo (d # ds) s =
     (if d = [] then copy_blobs D ok fetch repo ds s
      else if \<not> ok d then (s, Some (EOther ''artifact blob digest''))
      else if ds_HasBlob D s repo d then copy_blobs D ok fetch repo ds s
      else case fetch d of
        Inl x \<Rightarrow> (s, Some x)
      | Inr bytes \<Rightarrow>
          (case ds_WriteBlob D repo d bytes s of
             (s, Some x) \<Rightarrow> (s, Some x)
           | (s, None) \<Rightarrow> copy_blobs D ok fetch repo ds s))"

definition copyArtifact :: "'s dst_store \<Rightarrow> (string \<Rightarrow> bool) \<Rightarrow> (string \<Rightarrow> (string \<times> string list) option) \<Rightarrow> eng_error + (string \<Rightarrow> eng_error + string) \<Rightarrow>
    string \<Rightarrow> string \<Rightarrow> string \<Rightarrow> string \<Rightarrow> 's \<Rightarrow> 's \<times> eng_error option" where
  "copyArtifact D ok parse remote localRepo tag payload mt s =
     (case parse payload of
        None \<Rightarrow> (s, Some (EOther ''parsing artifact manifest''))
      | Some (cfg, layers) \<Rightarrow>
          (case remote of
             Inl x \<Rightarrow> (s, Some x)
           | Inr fetch \<Rightarrow>
               (case copy_blobs D ok fetch localRepo (cfg # layers) s of
                  (s, Some x) \<Rightarrow> (s, Some x)
                | (s, None) \<Rightarrow>
                    (case ds_PutManifest D localRepo mt payload tag s of (s, Inl x) \<Rightarrow> (s, Some x) | (s, Inr _) \<Rightarrow> (s, None)))))"

subsection \<open>What the store promises\<close>

text \<open>Writes land whole or not at all, under the digest of their content; nothing stored is lost by a write; a
  failed \<^verbatim>\<open>PutManifest\<close> may have stored the manifest and not the tag.\<close>

definition lawful :: "'s dst_store \<Rightarrow> (string \<Rightarrow> string) \<Rightarrow> bool" where
  "lawful D dig \<longleftrightarrow>
     (\<forall>repo d bytes s s' x. ds_WriteBlob D repo d bytes s = (s', x) \<longrightarrow>
        ds_HasManifest D s' = ds_HasManifest D s \<and> ds_ResolveTag D s' = ds_ResolveTag D s
        \<and> (\<forall>r e. ds_HasBlob D s r e \<longrightarrow> ds_HasBlob D s' r e) \<and> (x = None \<longrightarrow> ds_HasBlob D s' repo d))
     \<and> (\<forall>repo mt payload tag s s' x. ds_PutManifest D repo mt payload tag s = (s', x) \<longrightarrow>
        ds_HasBlob D s' = ds_HasBlob D s \<and> (\<forall>r m. ds_HasManifest D s r m \<longrightarrow> ds_HasManifest D s' r m)
        \<and> (\<forall>r m. ds_HasManifest D s' r m \<longrightarrow> ds_HasManifest D s r m \<or> (r, m) = (repo, dig payload))
        \<and> (\<forall>r t. (r, t) \<noteq> (repo, tag) \<longrightarrow> ds_ResolveTag D s' r t = ds_ResolveTag D s r t)
        \<and> (case x of
             Inl _ \<Rightarrow> ds_ResolveTag D s' = ds_ResolveTag D s
           | Inr d \<Rightarrow> d = dig payload \<and> ds_HasManifest D s' repo d \<and> (tag \<noteq> [] \<longrightarrow> ds_ResolveTag D s' repo tag = Some d)))"

text \<open>Every stored manifest has its blobs beside it. \<open>needs\<close> gives the blobs of a manifest by its digest.\<close>

definition blob_closed :: "'s dst_store \<Rightarrow> (string \<Rightarrow> string set) \<Rightarrow> 's \<Rightarrow> bool" where
  "blob_closed D needs s \<longleftrightarrow> (\<forall>r m. ds_HasManifest D s r m \<longrightarrow> (\<forall>b \<in> needs m. ds_HasBlob D s r b))"

text \<open>The client hands out layers and config as the manifest lists them, and children under their digests.\<close>

definition coherent_image :: "(string \<Rightarrow> string) \<Rightarrow> (string \<Rightarrow> string set) \<Rightarrow> src_image \<Rightarrow> bool" where
  "coherent_image dig needs img \<longleftrightarrow> (\<forall>cfg sz mt ls payload. im_manifest img = Inr (cfg, sz, mt) \<and> im_layers img = Inr ls \<and> im_raw img = Inr payload \<longrightarrow>
     needs (dig payload) \<subseteq> insert cfg {d. \<exists>l \<in> set ls. ly_digest l = Inr d})"

fun coherent_index :: "(string \<Rightarrow> string) \<Rightarrow> (string \<Rightarrow> string set) \<Rightarrow> src_index \<Rightarrow> bool"
  and coherent_kid :: "(string \<Rightarrow> string) \<Rightarrow> (string \<Rightarrow> string set) \<Rightarrow> kid \<Rightarrow> bool" where
  "coherent_index dig needs (Index man raw mt) =
     ((\<forall>payload. raw = Inr payload \<longrightarrow> needs (dig payload) = {}) \<and> (case man of Inl _ \<Rightarrow> True | Inr ks \<Rightarrow> list_all (coherent_kid dig needs) ks))"
| "coherent_kid dig needs (KidImage d pf img) =
     (case img of Inl _ \<Rightarrow> True | Inr i \<Rightarrow> coherent_image dig needs i \<and> (\<forall>p. im_raw i = Inr p \<longrightarrow> dig p = d))"
| "coherent_kid dig needs (KidIndex d pf idx) =
     (case idx of Inl _ \<Rightarrow> True | Inr i \<Rightarrow> coherent_index dig needs i \<and> (\<forall>p. ix_raw i = Inr p \<longrightarrow> dig p = d))"

definition grows :: "'s dst_store \<Rightarrow> 's \<Rightarrow> 's \<Rightarrow> bool" where
  "grows D s s' \<longleftrightarrow> (\<forall>r d. ds_HasBlob D s r d \<longrightarrow> ds_HasBlob D s' r d) \<and> (\<forall>r m. ds_HasManifest D s r m \<longrightarrow> ds_HasManifest D s' r m)"

lemma grows_refl [simp]: "grows D s s" and grows_trans: "grows D s t \<Longrightarrow> grows D t u \<Longrightarrow> grows D s u"
  by (auto simp: grows_def)

lemma lawful_write:
  assumes "lawful D dig" "ds_WriteBlob D repo d bytes s = (s', x)"
  shows "grows D s s'" "blob_closed D needs s \<Longrightarrow> blob_closed D needs s'" "x = None \<Longrightarrow> ds_HasBlob D s' repo d"
    "ds_HasManifest D s' = ds_HasManifest D s" "ds_ResolveTag D s' = ds_ResolveTag D s"
proof -
  have *: "ds_HasManifest D s' = ds_HasManifest D s \<and> ds_ResolveTag D s' = ds_ResolveTag D s
      \<and> (\<forall>r e. ds_HasBlob D s r e \<longrightarrow> ds_HasBlob D s' r e) \<and> (x = None \<longrightarrow> ds_HasBlob D s' repo d)"
    using assms unfolding lawful_def by blast
  then show "grows D s s'" "blob_closed D needs s \<Longrightarrow> blob_closed D needs s'" "x = None \<Longrightarrow> ds_HasBlob D s' repo d"
    "ds_HasManifest D s' = ds_HasManifest D s" "ds_ResolveTag D s' = ds_ResolveTag D s"
    by (auto simp: grows_def blob_closed_def)
qed

lemma lawful_put:
  assumes "lawful D dig" "ds_PutManifest D repo mt payload tag s = (s', x)"
  shows "grows D s s'" "blob_closed D needs s \<Longrightarrow> \<forall>b \<in> needs (dig payload). ds_HasBlob D s repo b \<Longrightarrow> blob_closed D needs s'"
    "x = Inr d \<Longrightarrow> d = dig payload \<and> ds_HasManifest D s' repo d \<and> (tag \<noteq> [] \<longrightarrow> ds_ResolveTag D s' repo tag = Some d)"
    "(r, t) \<noteq> (repo, tag) \<Longrightarrow> ds_ResolveTag D s' r t = ds_ResolveTag D s r t" "x = Inl y \<Longrightarrow> ds_ResolveTag D s' = ds_ResolveTag D s"
proof -
  have *: "ds_HasBlob D s' = ds_HasBlob D s" "\<forall>r m. ds_HasManifest D s r m \<longrightarrow> ds_HasManifest D s' r m"
    "\<forall>r m. ds_HasManifest D s' r m \<longrightarrow> ds_HasManifest D s r m \<or> (r, m) = (repo, dig payload)"
    "\<forall>r t. (r, t) \<noteq> (repo, tag) \<longrightarrow> ds_ResolveTag D s' r t = ds_ResolveTag D s r t"
    "case x of Inl _ \<Rightarrow> ds_ResolveTag D s' = ds_ResolveTag D s
       | Inr d \<Rightarrow> d = dig payload \<and> ds_HasManifest D s' repo d \<and> (tag \<noteq> [] \<longrightarrow> ds_ResolveTag D s' repo tag = Some d)"
    using assms unfolding lawful_def by meson+
  from * show "grows D s s'" "x = Inr d \<Longrightarrow> d = dig payload \<and> ds_HasManifest D s' repo d \<and> (tag \<noteq> [] \<longrightarrow> ds_ResolveTag D s' repo tag = Some d)"
    "(r, t) \<noteq> (repo, tag) \<Longrightarrow> ds_ResolveTag D s' r t = ds_ResolveTag D s r t" "x = Inl y \<Longrightarrow> ds_ResolveTag D s' = ds_ResolveTag D s"
    by (auto simp: grows_def)
  show "blob_closed D needs s \<Longrightarrow> \<forall>b \<in> needs (dig payload). ds_HasBlob D s repo b \<Longrightarrow> blob_closed D needs s'"
    using *(1,3) by (fastforce simp: blob_closed_def)
qed


text \<open>Every tag names a manifest its repository holds.\<close>

definition tags_held :: "'s dst_store \<Rightarrow> 's \<Rightarrow> bool" where
  "tags_held D s \<longleftrightarrow> (\<forall>r t d. t \<noteq> [] \<and> ds_ResolveTag D s r t = Some d \<longrightarrow> ds_HasManifest D s r d)"

definition preserves :: "'s dst_store \<Rightarrow> (string \<Rightarrow> string set) \<Rightarrow> 's \<Rightarrow> 's \<Rightarrow> bool" where
  "preserves D needs s s' \<longleftrightarrow> grows D s s' \<and> (blob_closed D needs s \<longrightarrow> blob_closed D needs s') \<and> (tags_held D s \<longrightarrow> tags_held D s')"

lemma preserves_refl [simp]: "preserves D needs s s" and preserves_trans: "preserves D needs s t \<Longrightarrow> preserves D needs t u \<Longrightarrow> preserves D needs s u"
  by (auto simp: preserves_def intro: grows_trans)

lemma write_preserves:
  assumes "lawful D dig" "ds_WriteBlob D repo d bytes s = (s', x)"
  shows "preserves D needs s s'"
  using lawful_write [OF assms] by (simp add: preserves_def tags_held_def)

lemma put_preserves:
  assumes "lawful D dig" "ds_PutManifest D repo mt payload tag s = (s', x)"
    and "blob_closed D needs s \<Longrightarrow> \<forall>b \<in> needs (dig payload). ds_HasBlob D s repo b"
  shows "preserves D needs s s'"
proof -
  note l = lawful_put [OF assms(1,2)]
  have "ds_HasManifest D s' r d" if h: "tags_held D s" "t \<noteq> []" "ds_ResolveTag D s' r t = Some d" for r t d
  proof (cases "\<exists>e. x = Inr e \<and> (r, t) = (repo, tag)")
    case True
    then show ?thesis using l(3) h by auto
  next
    case False
    then have "ds_ResolveTag D s r t = Some d" using l(4,5) h(3) by (cases x) (auto simp: fun_eq_iff)
    then show ?thesis using h l(1) by (auto simp: tags_held_def grows_def)
  qed
  then show ?thesis using l(1,2) assms(3) by (auto simp: preserves_def tags_held_def)
qed

subsection \<open>Copies keep the store closed\<close>

lemma write_one_keeps:
  assumes "lawful D dig" "write_one D bl repo d sz plain (s, n) = ((s', n'), x)"
  shows "preserves D needs s s'" "x = None \<Longrightarrow> ds_HasBlob D s' repo d"
  using assms(2) write_preserves [OF assms(1), where repo = repo and d = d] lawful_write(3) [OF assms(1), where repo = repo and d = d]
  by (auto simp: write_one_def split: if_splits sum.splits prod.splits option.splits)

lemma copy_layers_keeps:
  "lawful D dig \<Longrightarrow> copy_layers D bl repo ls (s, n) = ((s', n'), x) \<Longrightarrow>
     preserves D needs s s' \<and> (x = None \<longrightarrow> (\<forall>l \<in> set ls. \<forall>d. ly_digest l = Inr d \<longrightarrow> ds_HasBlob D s' repo d))"
proof (induction ls arbitrary: s n)
  case (Cons l ls)
  show ?case
  proof (cases "ly_digest l")
    case (Inr d)
    obtain s1 n1 y where w: "write_one D bl repo d (ly_size l) (ly_compressed l) (s, n) = ((s1, n1), y)" by (metis prod.exhaust)
    note k = write_one_keeps [OF Cons.prems(1) w]
    show ?thesis
    proof (cases y)
      case None
      with Cons.prems(2) Inr w have "copy_layers D bl repo ls (s1, n1) = ((s', n'), x)" by simp
      from Cons.IH [OF Cons.prems(1) this] k None Inr show ?thesis by (auto simp: preserves_def grows_def)
    qed (use Cons.prems(2) Inr w k in auto)
  qed (use Cons.prems(2) in auto)
qed simp

lemma put_last_keeps:
  assumes "lawful D dig" "put_last D repo mt payload tag (s, n) = ((s', n'), x)" "blob_closed D needs s \<Longrightarrow> \<forall>b \<in> needs (dig payload). ds_HasBlob D s repo b"
  shows "preserves D needs s s'" "x = None \<Longrightarrow> ds_HasManifest D s' repo (dig payload) \<and> (tag \<noteq> [] \<longrightarrow> ds_ResolveTag D s' repo tag = Some (dig payload))"
proof -
  obtain t y where p: "ds_PutManifest D repo mt payload tag s = (t, y)" by fastforce
  have "t = s'" "x = None \<longleftrightarrow> (\<exists>d. y = Inr d)" using assms(2) p by (auto simp: put_last_def split: sum.splits)
  then show "preserves D needs s s'" "x = None \<Longrightarrow> ds_HasManifest D s' repo (dig payload) \<and> (tag \<noteq> [] \<longrightarrow> ds_ResolveTag D s' repo tag = Some (dig payload))"
    using put_preserves [where needs = needs, OF assms(1) p assms(3)] lawful_put(3) [OF assms(1) p] by auto
qed

lemma copyImage_keeps:
  assumes "lawful D dig" "coherent_image dig needs img" "copyImage D bl repo tag img s = ((s', n), x)"
  shows "preserves D needs s s'"
    "x = None \<Longrightarrow> \<exists>p. im_raw img = Inr p \<and> ds_HasManifest D s' repo (dig p) \<and> (tag \<noteq> [] \<longrightarrow> ds_ResolveTag D s' repo tag = Some (dig p))"
proof -
  have "preserves D needs s s' \<and> (x = None \<longrightarrow>
      (\<exists>p. im_raw img = Inr p \<and> ds_HasManifest D s' repo (dig p) \<and> (tag \<noteq> [] \<longrightarrow> ds_ResolveTag D s' repo tag = Some (dig p))))"
  proof (cases "\<exists>cfg sz mt ls. im_manifest img = Inr (cfg, sz, mt) \<and> im_layers img = Inr ls")
    case True
    then obtain cfg sz mt ls where m: "im_manifest img = Inr (cfg, sz, mt)" "im_layers img = Inr ls" by blast
    obtain s1 n1 y where l: "copy_layers D bl repo ls (s, 0) = ((s1, n1), y)" by (metis prod.exhaust)
    have k1: "preserves D needs s s1" "y = None \<longrightarrow> (\<forall>l \<in> set ls. \<forall>d. ly_digest l = Inr d \<longrightarrow> ds_HasBlob D s1 repo d)"
      using copy_layers_keeps [OF assms(1) l] by blast+
    show ?thesis
    proof (cases "y = None \<and> (\<exists>raw. im_rawConfig img = Inr raw)")
      case True
      then obtain raw where r: "y = None" "im_rawConfig img = Inr raw" by blast
      obtain s2 n2 z where w: "write_one D bl repo cfg sz (Inr raw) (s1, n1) = ((s2, n2), z)" by (metis prod.exhaust)
      note k2 = write_one_keeps [OF assms(1) w]
      have k: "preserves D needs s s2" using preserves_trans [OF k1(1) k2(1)] .
      show ?thesis
      proof (cases "z = None \<and> (\<exists>p. im_raw img = Inr p)")
        case True
        then obtain p where p: "z = None" "im_raw img = Inr p" by blast
        have blobs: "ds_HasBlob D s2 repo b" if "b \<in> needs (dig p)" for b
        proof -
          have "b = cfg \<or> (\<exists>l \<in> set ls. ly_digest l = Inr b)" using assms(2) m p(2) that unfolding coherent_image_def by blast
          then show ?thesis using k1(2) k2 r(1) p(1) by (auto simp: preserves_def grows_def)
        qed
        have last: "put_last D repo mt p tag (s2, n2) = ((s', n), x)" using assms(3) m l r w p by (simp add: copyImage_def)
        have "\<forall>b \<in> needs (dig p). ds_HasBlob D s2 repo b" using blobs by blast
        note q = put_last_keeps [where needs = needs, OF assms(1) last this]
        show ?thesis using preserves_trans [OF k q(1)] q(2) p(2) by simp
      qed (use assms(3) m l r w k in \<open>auto simp: copyImage_def split: option.splits sum.splits\<close>)
    qed (use assms(3) m l k1 in \<open>auto simp: copyImage_def split: option.splits sum.splits\<close>)
  qed (use assms(3) in \<open>auto simp: copyImage_def split: sum.splits\<close>)
  then show "preserves D needs s s'"
    "x = None \<Longrightarrow> \<exists>p. im_raw img = Inr p \<and> ds_HasManifest D s' repo (dig p) \<and> (tag \<noteq> [] \<longrightarrow> ds_ResolveTag D s' repo tag = Some (dig p))"
    by blast+
qed

definition wanted :: "string set option \<Rightarrow> string \<Rightarrow> bool" where
  "wanted sel d = (case sel of None \<Rightarrow> True | Some S \<Rightarrow> d \<in> S)"

lemma copies_keep:
  shows "lawful D dig \<Longrightarrow> coherent_index dig needs idx \<Longrightarrow> copyNestedIndex D bl repo idx s = ((s', n), x) \<Longrightarrow>
      preserves D needs s s' \<and> (x = None \<longrightarrow> (\<exists>p. ix_raw idx = Inr p \<and> ds_HasManifest D s' repo (dig p)))"
    and "lawful D dig \<Longrightarrow> list_all (coherent_kid dig needs) ks \<Longrightarrow> copy_kids D bl repo sel ks sn = ((s', n), x) \<Longrightarrow>
      preserves D needs (fst sn) s' \<and> (x = None \<longrightarrow> (\<forall>k \<in> set ks. wanted sel (kid_digest k) \<longrightarrow> ds_HasManifest D s' repo (kid_digest k)))"
proof (induction D bl repo idx s and D bl repo sel ks sn arbitrary: s' n x and s' n x rule: copyNestedIndex_copy_kids.induct)
  case (1 D bl repo man raw mt s)
  show ?case
  proof (cases man)
    case (Inr ks)
    obtain s1 n1 y where k: "copy_kids D bl repo None ks (s, 0) = ((s1, n1), y)" by (metis prod.exhaust)
    have c: "list_all (coherent_kid dig needs) ks" using 1(3) Inr by simp
    have k1: "preserves D needs s s1" using 1(1) [OF Inr 1(2) c k] by simp
    show ?thesis
    proof (cases "y = None \<and> (\<exists>p m. raw = Inr p \<and> mt = Inr m)")
      case True
      then obtain p m where p: "y = None" "raw = Inr p" "mt = Inr m" by blast
      then have "put_last D repo m p [] (s1, n1) = ((s', n), x)" using 1(4) Inr k by simp
      from put_last_keeps [OF 1(2) this, of needs] 1(3) p preserves_trans [OF k1] show ?thesis by auto
    qed (use 1(4) Inr k k1 in \<open>auto split: option.splits sum.splits\<close>)
  qed (use 1(4) in auto)
next
  case (3 D bl repo sel d pf img ks s m)
  show ?case
  proof (cases "\<not> wanted sel d \<or> ds_HasManifest D s repo d")
    case True
    then have skip: "(case sel of None \<Rightarrow> False | Some S \<Rightarrow> d \<notin> S) \<or> ds_HasManifest D s repo d" by (auto simp: wanted_def split: option.splits)
    then have "copy_kids D bl repo sel ks (s, m) = ((s', n), x)" using 3(5) by simp
    from 3(1) [OF skip 3(3) _ this] 3(4) True show ?thesis by (auto simp: preserves_def grows_def)
  next
    case False
    then have no: "\<not> ((case sel of None \<Rightarrow> False | Some S \<Rightarrow> d \<notin> S) \<or> ds_HasManifest D s repo d)" by (auto simp: wanted_def split: option.splits)
    show ?thesis
    proof (cases img)
      case (Inr i)
      obtain s1 m1 y where c: "copyImage D bl repo [] i s = ((s1, m1), y)" by (metis prod.exhaust)
      have co: "coherent_image dig needs i" "\<forall>p. im_raw i = Inr p \<longrightarrow> dig p = d" using 3(4) Inr by auto
      note k = copyImage_keeps [OF 3(3) co(1) c]
      show ?thesis
      proof (cases y)
        case None
        then have "copy_kids D bl repo sel ks (s1, m + m1) = ((s', n), x)" using 3(5) no Inr c by simp
        from 3(2) [OF no Inr c [symmetric] refl None 3(3) _ this] 3(4) k None co(2) show ?thesis by (auto simp: preserves_def grows_def)
      qed (use 3(5) no Inr c k in auto)
    qed (use 3(5) no in auto)
  qed
next
  case (4 D bl repo sel d pf idx ks s m)
  show ?case
  proof (cases "\<not> wanted sel d \<or> ds_HasManifest D s repo d")
    case True
    then have skip: "(case sel of None \<Rightarrow> False | Some S \<Rightarrow> d \<notin> S) \<or> ds_HasManifest D s repo d" by (auto simp: wanted_def split: option.splits)
    then have "copy_kids D bl repo sel ks (s, m) = ((s', n), x)" using 4(6) by simp
    from 4(1) [OF skip 4(4) _ this] 4(5) True show ?thesis by (auto simp: preserves_def grows_def)
  next
    case False
    then have no: "\<not> ((case sel of None \<Rightarrow> False | Some S \<Rightarrow> d \<notin> S) \<or> ds_HasManifest D s repo d)" by (auto simp: wanted_def split: option.splits)
    show ?thesis
    proof (cases idx)
      case (Inr i)
      obtain s1 m1 y where c: "copyNestedIndex D bl repo i s = ((s1, m1), y)" by (metis prod.exhaust)
      have co: "coherent_index dig needs i" "\<forall>p. ix_raw i = Inr p \<longrightarrow> dig p = d" using 4(5) Inr by auto
      note k = 4(2) [OF no Inr 4(4) co(1) c]
      show ?thesis
      proof (cases y)
        case None
        then have "copy_kids D bl repo sel ks (s1, m + m1) = ((s', n), x)" using 4(6) no Inr c by simp
        from 4(3) [OF no Inr c [symmetric] refl None 4(4) _ this] 4(5) k None co(2) show ?thesis by (auto simp: preserves_def grows_def)
      qed (use 4(6) no Inr c k in auto)
    qed (use 4(6) no in auto)
  qed
qed auto


lemma copy_index_keeps:
  assumes "lawful D dig" "\<forall>idx. desc = Inr idx \<longrightarrow> coherent_index dig needs idx"
    and "copyIndexChildren D bl repo tag mt desc sel s = ((s', n), x)"
  shows "preserves D needs s s' \<and> (x = None \<longrightarrow> (\<exists>idx ks p. desc = Inr idx \<and> ix_manifest idx = Inr ks \<and> ix_raw idx = Inr p
       \<and> ds_HasManifest D s' repo (dig p) \<and> (tag \<noteq> [] \<longrightarrow> ds_ResolveTag D s' repo tag = Some (dig p))
       \<and> (\<forall>k \<in> set ks. wanted sel (kid_digest k) \<longrightarrow> ds_HasManifest D s' repo (kid_digest k))))"
proof (cases "\<exists>idx ks. desc = Inr idx \<and> ix_manifest idx = Inr ks")
  case True
  then obtain idx ks where d: "desc = Inr idx" "ix_manifest idx = Inr ks" by blast
  then have co: "coherent_index dig needs idx" "list_all (coherent_kid dig needs) ks" using assms(2) by (cases idx; auto)+
  obtain s1 n1 y where k: "copy_kids D bl repo sel ks (s, 0) = ((s1, n1), y)" by (metis prod.exhaust)
  have k1: "preserves D needs s s1" "y = None \<longrightarrow> (\<forall>k \<in> set ks. wanted sel (kid_digest k) \<longrightarrow> ds_HasManifest D s1 repo (kid_digest k))"
    using copies_keep(2) [OF assms(1) co(2) k] by auto
  show ?thesis
  proof (cases "y = None \<and> (\<exists>p. ix_raw idx = Inr p)")
    case True
    then obtain p where p: "y = None" "ix_raw idx = Inr p" by blast
    then have "needs (dig p) = {}" using co(1) by (cases idx) auto
    moreover have "put_last D repo mt p tag (s1, n1) = ((s', n), x)" using assms(3) d k p by (simp add: copyIndexChildren_def)
    ultimately have q: "preserves D needs s1 s'" "x = None \<Longrightarrow> ds_HasManifest D s' repo (dig p) \<and> (tag \<noteq> [] \<longrightarrow> ds_ResolveTag D s' repo tag = Some (dig p))"
      using put_last_keeps [where needs = needs, OF assms(1)] by auto
    have "\<forall>k \<in> set ks. wanted sel (kid_digest k) \<longrightarrow> ds_HasManifest D s' repo (kid_digest k)"
      using k1(2) p(1) q(1) by (auto simp: preserves_def grows_def)
    with preserves_trans [OF k1(1) q(1)] q(2) d p(2) show ?thesis by blast
  qed (use assms(3) d k k1 in \<open>auto simp: copyIndexChildren_def split: option.splits sum.splits\<close>)
qed (use assms(3) in \<open>auto simp: copyIndexChildren_def split: sum.splits\<close>)

text \<open>C22: A manifest never lands before its blobs. Copying an index, nested ones and all, leaves the store closed
  wherever it fails, so that an interrupted copy is never taken for a complete one; when it succeeds, the
  index is stored under its digest and tag, and every child that was selected is there with its blobs.\<close>

theorem copy_index_closed:
  assumes "lawful D dig" "blob_closed D needs s" "\<forall>idx. desc = Inr idx \<longrightarrow> coherent_index dig needs idx"
    and "copyIndexChildren D bl repo tag mt desc sel s = ((s', n), x)"
  shows "blob_closed D needs s' \<and> grows D s s' \<and> (x = None \<longrightarrow>
    (\<exists>idx ks p. desc = Inr idx \<and> ix_manifest idx = Inr ks \<and> ix_raw idx = Inr p
       \<and> ds_HasManifest D s' repo (dig p) \<and> (tag \<noteq> [] \<longrightarrow> ds_ResolveTag D s' repo tag = Some (dig p))
       \<and> (\<forall>k \<in> set ks. wanted sel (kid_digest k) \<longrightarrow>
            ds_HasManifest D s' repo (kid_digest k) \<and> (\<forall>b \<in> needs (kid_digest k). ds_HasBlob D s' repo b))))"
proof -
  note core = copy_index_keeps [OF assms(1,3,4)]
  then have closed: "blob_closed D needs s'" "grows D s s'" using assms(2) by (simp_all add: preserves_def)
  show ?thesis
  proof (intro conjI impI closed)
    assume "x = None"
    with core obtain idx ks p where e: "desc = Inr idx" "ix_manifest idx = Inr ks" "ix_raw idx = Inr p" "ds_HasManifest D s' repo (dig p)"
      "tag \<noteq> [] \<longrightarrow> ds_ResolveTag D s' repo tag = Some (dig p)" "\<forall>k \<in> set ks. wanted sel (kid_digest k) \<longrightarrow> ds_HasManifest D s' repo (kid_digest k)" by blast
    from e(6) closed(1) have "\<forall>k \<in> set ks. wanted sel (kid_digest k) \<longrightarrow>
        ds_HasManifest D s' repo (kid_digest k) \<and> (\<forall>b \<in> needs (kid_digest k). ds_HasBlob D s' repo b)" unfolding blob_closed_def by blast
    with e(1-5) show "\<exists>idx ks p. desc = Inr idx \<and> ix_manifest idx = Inr ks \<and> ix_raw idx = Inr p
       \<and> ds_HasManifest D s' repo (dig p) \<and> (tag \<noteq> [] \<longrightarrow> ds_ResolveTag D s' repo tag = Some (dig p))
       \<and> (\<forall>k \<in> set ks. wanted sel (kid_digest k) \<longrightarrow>
            ds_HasManifest D s' repo (kid_digest k) \<and> (\<forall>b \<in> needs (kid_digest k). ds_HasBlob D s' repo b))"
      by (intro exI conjI)
  qed
qed

lemma copy_blobs_keeps:
  "lawful D dig \<Longrightarrow> copy_blobs D ok fetch repo ds s = (s', x) \<Longrightarrow>
     preserves D needs s s' \<and> (x = None \<longrightarrow> (\<forall>d \<in> set ds. d \<noteq> [] \<longrightarrow> ds_HasBlob D s' repo d))"
proof (induction ds arbitrary: s)
  case (Cons d ds)
  show ?case
  proof (cases "d = [] \<or> \<not> ok d \<or> ds_HasBlob D s repo d")
    case True
    then show ?thesis using Cons by (auto simp: preserves_def grows_def split: if_splits)
  next
    case False
    show ?thesis
    proof (cases "fetch d")
      case (Inr bytes)
      obtain s1 y where w: "ds_WriteBlob D repo d bytes s = (s1, y)" by fastforce
      have k: "preserves D needs s s1" "y = None \<longrightarrow> ds_HasBlob D s1 repo d" using write_preserves [OF Cons.prems(1) w] lawful_write(3) [OF Cons.prems(1) w] by auto
      show ?thesis
      proof (cases y)
        case None
        then have "copy_blobs D ok fetch repo ds s1 = (s', x)" using Cons.prems(2) False Inr w by simp
        from Cons.IH [OF Cons.prems(1) this] k None show ?thesis by (auto simp: preserves_def grows_def)
      qed (use Cons.prems(2) False Inr w k in auto)
    qed (use Cons.prems(2) False in auto)
  qed
qed simp

lemma copyArtifact_keeps:
  assumes "lawful D dig" "\<forall>cfg ls. parse payload = Some (cfg, ls) \<longrightarrow> needs (dig payload) \<subseteq> set (cfg # ls) - {[]}"
    and "copyArtifact D ok parse remote repo tag payload mt s = (s', x)"
  shows "preserves D needs s s'" "x = None \<Longrightarrow> ds_HasManifest D s' repo (dig payload) \<and> (tag \<noteq> [] \<longrightarrow> ds_ResolveTag D s' repo tag = Some (dig payload))"
proof -
  have "preserves D needs s s' \<and> (x = None \<longrightarrow> ds_HasManifest D s' repo (dig payload) \<and> (tag \<noteq> [] \<longrightarrow> ds_ResolveTag D s' repo tag = Some (dig payload)))"
  proof (cases "\<exists>cfg ls fetch. parse payload = Some (cfg, ls) \<and> remote = Inr fetch")
    case True
    then obtain cfg ls fetch where p: "parse payload = Some (cfg, ls)" "remote = Inr fetch" by blast
    obtain s1 y where c: "copy_blobs D ok fetch repo (cfg # ls) s = (s1, y)" by fastforce
    note k = copy_blobs_keeps [OF assms(1) c, of needs]
    show ?thesis
    proof (cases y)
      case None
      obtain z where put: "ds_PutManifest D repo mt payload tag s1 = (s', z)" "x = None \<longleftrightarrow> (\<exists>d. z = Inr d)"
        using assms(3) p c None by (auto simp: copyArtifact_def split: prod.splits sum.splits)
      have "\<forall>b \<in> needs (dig payload). ds_HasBlob D s1 repo b" using k None assms(2) p(1) by fastforce
      then have "preserves D needs s1 s'" by (intro put_preserves [OF assms(1) put(1)])
      with k lawful_put(3) [OF assms(1) put(1)] put(2) show ?thesis by (auto intro: preserves_trans)
    qed (use assms(3) p c k in \<open>auto simp: copyArtifact_def\<close>)
  qed (use assms(3) in \<open>auto simp: copyArtifact_def split: option.splits sum.splits\<close>)
  then show "preserves D needs s s'" "x = None \<Longrightarrow> ds_HasManifest D s' repo (dig payload) \<and> (tag \<noteq> [] \<longrightarrow> ds_ResolveTag D s' repo tag = Some (dig payload))"
    by blast+
qed

subsection \<open>A store in memory\<close>

record shelf =
  sh_blobs :: "(string \<times> string) set"
  sh_manifests :: "(string \<times> string) set"
  sh_tags :: "(string \<times> string) \<Rightarrow> string option"

definition shelf_store :: "shelf dst_store" where
  "shelf_store = \<lparr>ds_HasManifest = \<lambda>s r m. (r, m) \<in> sh_manifests s, ds_ResolveTag = \<lambda>s r t. sh_tags s (r, t),
     ds_HasBlob = \<lambda>s r d. (r, d) \<in> sh_blobs s,
     ds_WriteBlob = \<lambda>r d bytes s. if bytes = d then (s\<lparr>sh_blobs := insert (r, d) (sh_blobs s)\<rparr>, None) else (s, Some (EOther ''digest'')),
     ds_PutManifest = \<lambda>r mt payload tag s.
       (s\<lparr>sh_manifests := insert (r, payload) (sh_manifests s),
          sh_tags := (if tag = [] then sh_tags s else (sh_tags s)((r, tag) \<mapsto> payload))\<rparr>, Inr payload)\<rparr>"

definition bare_shelf :: shelf where
  "bare_shelf = \<lparr>sh_blobs = {}, sh_manifests = {}, sh_tags = Map.empty\<rparr>"

lemma shelf_lawful: "lawful shelf_store (\<lambda>p. p)"
  by (simp add: lawful_def shelf_store_def)

definition two_platforms :: src_index where
  "two_platforms = Index (Inr [KidImage ''amd'' (Some (''linux'', ''amd64'', [])) (Inr \<lparr>im_manifest = Inr (''c'', 1, ''image''), im_layers = Inr [\<lparr>ly_digest = Inr ''l'', ly_size = 1, ly_compressed = Inr ''l''\<rparr>],
       im_rawConfig = Inr ''c'', im_raw = Inr ''amd''\<rparr>), KidImage ''arm'' (Some (''linux'', ''arm64'', ''v8'')) (Inl ENetwork)]) (Inr ''idx'') (Inr ''index'')"

definition platform_needs :: "string \<Rightarrow> string set" where
  "platform_needs m = (if m = ''amd'' then {''c'', ''l''} else {})"

theorem copy_index_closed_witness:
  "\<exists>s' n. copyIndexChildren shelf_store (\<lambda>d sz plain. plain) ''r'' ''v'' ''index'' (Inr two_platforms) (Some {''amd''}) bare_shelf = ((s', n), None)
     \<and> blob_closed shelf_store platform_needs s' \<and> ds_HasManifest shelf_store s' ''r'' ''amd'' \<and> ds_ResolveTag shelf_store s' ''r'' ''v'' = Some ''idx''"
proof -
  let ?o = "copyIndexChildren shelf_store (\<lambda>d sz plain. plain) ''r'' ''v'' ''index'' (Inr two_platforms) (Some {''amd''}) bare_shelf"
  have "snd ?o = None"
    by (simp add: copyIndexChildren_def two_platforms_def copyImage_def write_one_def put_last_def shelf_store_def bare_shelf_def)
  then obtain s' n where o: "?o = ((s', n), None)" by (metis prod.collapse)
  have "blob_closed shelf_store platform_needs bare_shelf" by (simp add: blob_closed_def shelf_store_def bare_shelf_def)
  moreover have "coherent_index (\<lambda>p. p) platform_needs two_platforms"
    by (auto simp: two_platforms_def platform_needs_def coherent_image_def)
  ultimately show ?thesis
    using copy_index_closed [OF shelf_lawful _ _ o] o by (auto simp: two_platforms_def wanted_def)
qed

end
