(* ===== verification/Store_Write.thy ===== *)
theory Store_Write
  imports Copying Allowlist
begin

text \<open>
  The direct writes and reads of the store, \<^verbatim>\<open>store/write.go\<close> and \<^verbatim>\<open>store/read.go\<close>. Both call the registry library,
  which is the record \<open>library\<close>; what its documentation promises is \<open>library_ok\<close>. The result is that
  the store keeps the contract \<open>lawful\<close> the copies of \<open>Copying\<close> rely on.
\<close>

subsection \<open>The registry library\<close>

text \<open>\<open>'m\<close> is the library's type of parsed manifests; \<^verbatim>\<open>Payload\<close> gives back the media type and the bytes of one.\<close>

record ('s, 'm) library =
  lb_nameOK :: "string \<Rightarrow> bool"
  lb_repository :: "string \<Rightarrow> eng_error option"
  lb_manifests :: "string \<Rightarrow> eng_error option"
  lb_digestOK :: "string \<Rightarrow> bool"
  lb_Exists :: "'s \<Rightarrow> string \<Rightarrow> string \<Rightarrow> eng_error + bool"
  lb_ManifestGet :: "'s \<Rightarrow> string \<Rightarrow> string \<Rightarrow> eng_error + 'm"
  lb_Payload :: "'m \<Rightarrow> eng_error + (string \<times> string)"
  lb_TagGet :: "'s \<Rightarrow> string \<Rightarrow> string \<Rightarrow> eng_error + string"
  lb_TagAll :: "'s \<Rightarrow> string \<Rightarrow> eng_error + string list"
  lb_Stat :: "'s \<Rightarrow> string \<Rightarrow> string \<Rightarrow> bool"
  lb_Open :: "'s \<Rightarrow> string \<Rightarrow> string \<Rightarrow> eng_error + string"
  lb_Create :: "string \<Rightarrow> 's \<Rightarrow> 's \<times> eng_error option"
  lb_Copy :: "string \<Rightarrow> 's \<Rightarrow> 's \<times> eng_error option"
  lb_Commit :: "string \<Rightarrow> string \<Rightarrow> string \<Rightarrow> 's \<Rightarrow> 's \<times> eng_error option"
  lb_Cancel :: "'s \<Rightarrow> 's"
  lb_Unmarshal :: "string \<Rightarrow> string \<Rightarrow> eng_error + 'm"
  lb_Put :: "string \<Rightarrow> 'm \<Rightarrow> 's \<Rightarrow> 's \<times> (eng_error + string)"
  lb_Tag :: "string \<Rightarrow> string \<Rightarrow> string \<Rightarrow> 's \<Rightarrow> 's \<times> eng_error option"

subsection \<open>Repositories\<close>

definition mapBrowseErr :: "eng_error \<Rightarrow> eng_error" where
  "mapBrowseErr e = (if e = ELibUnknown then EStoreMissing else e)"

definition repository_fault :: "('s, 'm) library \<Rightarrow> string \<Rightarrow> eng_error option" where
  "repository_fault L name = (if \<not> lb_nameOK L name then Some EStoreMissing else map_option mapBrowseErr (lb_repository L name))"

definition map_browse :: "eng_error + 'a \<Rightarrow> eng_error + 'a" where
  "map_browse r = (case r of Inl e \<Rightarrow> Inl (mapBrowseErr e) | Inr x \<Rightarrow> Inr x)"

lemma map_browse_Inr [simp]: "map_browse (Inr x) = Inr x"
  by (simp add: map_browse_def)

subsection \<open>Writes\<close>

definition HasManifest :: "('s, 'm) library \<Rightarrow> 's \<Rightarrow> string \<Rightarrow> string \<Rightarrow> bool" where
  "HasManifest L s name d =
     (if repository_fault L name \<noteq> None then False
      else if lb_manifests L name \<noteq> None then False
      else if \<not> lb_digestOK L d then False
      else lb_Exists L s name d = Inr True)"

definition ResolveTag :: "('s, 'm) library \<Rightarrow> 's \<Rightarrow> string \<Rightarrow> string \<Rightarrow> string option" where
  "ResolveTag L s name tag =
     (if repository_fault L name \<noteq> None then None
      else case lb_TagGet L s name tag of Inl _ \<Rightarrow> None | Inr d \<Rightarrow> Some d)"

definition HasBlob :: "('s, 'm) library \<Rightarrow> 's \<Rightarrow> string \<Rightarrow> string \<Rightarrow> bool" where
  "HasBlob L s name d = (if repository_fault L name \<noteq> None then False else lb_Stat L s name d)"

definition WriteBlob :: "('s, 'm) library \<Rightarrow> string \<Rightarrow> string \<Rightarrow> string \<Rightarrow> 's \<Rightarrow> 's \<times> eng_error option" where
  "WriteBlob L name d bytes s =
     (case repository_fault L name of
        Some e \<Rightarrow> (s, Some e)
      | None \<Rightarrow>
          if lb_Stat L s name d then (s, None)
          else case lb_Create L name s of
            (s, Some e) \<Rightarrow> (s, Some e)
          | (s, None) \<Rightarrow>
              (case lb_Copy L bytes s of
                 (s, Some e) \<Rightarrow> (lb_Cancel L s, Some e)
               | (s, None) \<Rightarrow>
                   (case lb_Commit L name d bytes s of
                      (s, Some e) \<Rightarrow> (lb_Cancel L s, Some e)
                    | (s, None) \<Rightarrow> (s, None))))"

definition PutManifest :: "('s, 'm) library \<Rightarrow> string \<Rightarrow> string \<Rightarrow> string \<Rightarrow> string \<Rightarrow> 's \<Rightarrow> 's \<times> (eng_error + string)" where
  "PutManifest L name mediaType payload tag s =
     (case repository_fault L name of
        Some e \<Rightarrow> (s, Inl e)
      | None \<Rightarrow>
          (case lb_manifests L name of
             Some e \<Rightarrow> (s, Inl e)
           | None \<Rightarrow>
               (case lb_Unmarshal L mediaType payload of
                  Inl e \<Rightarrow> (s, Inl e)
                | Inr man \<Rightarrow>
                    (case lb_Put L name man s of
                       (s, Inl e) \<Rightarrow> (s, Inl e)
                     | (s, Inr d) \<Rightarrow>
                         if tag \<noteq> [] then
                           (case lb_Tag L name tag d s of (s, Some e) \<Rightarrow> (s, Inl e) | (s, None) \<Rightarrow> (s, Inr d))
                         else (s, Inr d)))))"

definition store_dst :: "('s, 'm) library \<Rightarrow> 's dst_store" where
  "store_dst L = \<lparr>ds_HasManifest = HasManifest L, ds_ResolveTag = ResolveTag L, ds_HasBlob = HasBlob L,
     ds_WriteBlob = WriteBlob L, ds_PutManifest = PutManifest L\<rparr>"

subsection \<open>Reads\<close>

definition RawManifest :: "('s, 'm) library \<Rightarrow> 's \<Rightarrow> string \<Rightarrow> string \<Rightarrow> eng_error + (string \<times> string \<times> string)" where
  "RawManifest L s name reference =
     (case repository_fault L name of
        Some e \<Rightarrow> Inl e
      | None \<Rightarrow>
          bind_r (if lb_digestOK L reference then Inr reference else map_browse (lb_TagGet L s name reference)) (\<lambda>d.
            (case lb_manifests L name of
               Some e \<Rightarrow> Inl (mapBrowseErr e)
             | None \<Rightarrow> bind_r (map_browse (lb_ManifestGet L s name d)) (\<lambda>man. bind_r (lb_Payload L man) (\<lambda>(mt, raw). Inr (raw, mt, d))))))"

definition BlobReader :: "('s, 'm) library \<Rightarrow> 's \<Rightarrow> string \<Rightarrow> string \<Rightarrow> eng_error + string" where
  "BlobReader L s name d =
     (case repository_fault L name of
        Some e \<Rightarrow> Inl e
      | None \<Rightarrow> if \<not> lb_digestOK L d then Inl EStoreMissing else map_browse (lb_Open L s name d))"

definition Tags :: "('s, 'm) library \<Rightarrow> 's \<Rightarrow> string \<Rightarrow> eng_error + string list" where
  "Tags L s name =
     (case repository_fault L name of
        Some e \<Rightarrow> Inl e
      | None \<Rightarrow> bind_r (map_browse (lb_TagAll L s name)) (\<lambda>tags. Inr (sort tags)))"

subsection \<open>What the library promises\<close>

text \<open>An upload is invisible until it is committed, a commit lands only bytes of the digest, a parsed manifest keeps its
  bytes, manifests are stored under the digest of their bytes, and a tag moves nothing but itself.\<close>

definition bytes_of :: "('s, 'm) library \<Rightarrow> 's \<Rightarrow> string \<Rightarrow> string \<Rightarrow> string \<Rightarrow> bool" where
  "bytes_of L s n d p \<longleftrightarrow> (\<exists>man mt. lb_ManifestGet L s n d = Inr man \<and> lb_Payload L man = Inr (mt, p))"

definition invisible :: "('s, 'm) library \<Rightarrow> 's \<Rightarrow> 's \<Rightarrow> bool" where
  "invisible L s s' \<longleftrightarrow> lb_Exists L s' = lb_Exists L s \<and> lb_TagGet L s' = lb_TagGet L s \<and> lb_Stat L s' = lb_Stat L s
     \<and> lb_ManifestGet L s' = lb_ManifestGet L s \<and> lb_Open L s' = lb_Open L s"

definition commit_law :: "('s, 'm) library \<Rightarrow> (string \<Rightarrow> string) \<Rightarrow> string \<Rightarrow> string \<Rightarrow> string \<Rightarrow> 's \<Rightarrow> 's \<Rightarrow> eng_error option \<Rightarrow> bool" where
  "commit_law L dig name d b s s' x \<longleftrightarrow>
     lb_Exists L s' = lb_Exists L s \<and> lb_TagGet L s' = lb_TagGet L s \<and> lb_ManifestGet L s' = lb_ManifestGet L s
     \<and> (\<forall>n e. lb_Stat L s n e \<longrightarrow> lb_Stat L s' n e) \<and> (x = None \<longrightarrow> dig b = d \<and> lb_Stat L s' name d)"

definition put_law :: "('s, 'm) library \<Rightarrow> (string \<Rightarrow> string) \<Rightarrow> string \<Rightarrow> string \<Rightarrow> 's \<Rightarrow> 's \<Rightarrow> eng_error + string \<Rightarrow> bool" where
  "put_law L dig name p s s' x \<longleftrightarrow>
     lb_TagGet L s' = lb_TagGet L s \<and> lb_Stat L s' = lb_Stat L s
     \<and> (\<forall>n m. lb_Exists L s n m = Inr True \<longrightarrow> lb_Exists L s' n m = Inr True)
     \<and> (\<forall>n m. lb_Exists L s' n m = Inr True \<longrightarrow> lb_Exists L s n m = Inr True \<or> (n, m) = (name, dig p))
     \<and> (\<forall>d. x = Inr d \<longrightarrow> d = dig p \<and> lb_digestOK L d \<and> lb_Exists L s' name d = Inr True \<and> bytes_of L s' name d p)"

definition tag_law :: "('s, 'm) library \<Rightarrow> string \<Rightarrow> string \<Rightarrow> string \<Rightarrow> 's \<Rightarrow> 's \<Rightarrow> eng_error option \<Rightarrow> bool" where
  "tag_law L name tag d s s' x \<longleftrightarrow>
     lb_Exists L s' = lb_Exists L s \<and> lb_Stat L s' = lb_Stat L s \<and> lb_ManifestGet L s' = lb_ManifestGet L s
     \<and> (\<forall>n t. (n, t) \<noteq> (name, tag) \<longrightarrow> lb_TagGet L s' n t = lb_TagGet L s n t)
     \<and> (x = None \<longrightarrow> lb_TagGet L s' name tag = Inr d) \<and> (x \<noteq> None \<longrightarrow> lb_TagGet L s' = lb_TagGet L s)"

definition library_ok :: "('s, 'm) library \<Rightarrow> (string \<Rightarrow> string) \<Rightarrow> bool" where
  "library_ok L dig \<longleftrightarrow>
     (\<forall>name s s' x. lb_Create L name s = (s', x) \<longrightarrow> invisible L s s') \<and> (\<forall>b s s' x. lb_Copy L b s = (s', x) \<longrightarrow> invisible L s s')
     \<and> (\<forall>s. invisible L s (lb_Cancel L s))
     \<and> (\<forall>name d b s s' x. lb_Commit L name d b s = (s', x) \<longrightarrow> commit_law L dig name d b s s' x)
     \<and> (\<forall>mt p man. lb_Unmarshal L mt p = Inr man \<longrightarrow> (\<exists>mt'. lb_Payload L man = Inr (mt', p)))
     \<and> (\<forall>name man mt p s s' x. lb_Payload L man = Inr (mt, p) \<longrightarrow> lb_Put L name man s = (s', x) \<longrightarrow> put_law L dig name p s s' x)
     \<and> (\<forall>name tag d s s' x. lb_Tag L name tag d s = (s', x) \<longrightarrow> tag_law L name tag d s s' x)"

text \<open>A put, successful or not, leaves the manifests under other digests as they are, and its own bytes under their digest.\<close>

definition stable_law :: "('s, 'm) library \<Rightarrow> (string \<Rightarrow> string) \<Rightarrow> string \<Rightarrow> string \<Rightarrow> 's \<Rightarrow> 's \<Rightarrow> bool" where
  "stable_law L dig name p s s' \<longleftrightarrow> (\<forall>n m q. (n, m) \<noteq> (name, dig p) \<longrightarrow> bytes_of L s n m q \<longrightarrow> bytes_of L s' n m q)
     \<and> (bytes_of L s name (dig p) p \<longrightarrow> bytes_of L s' name (dig p) p)"

definition library_stable :: "('s, 'm) library \<Rightarrow> (string \<Rightarrow> string) \<Rightarrow> bool" where
  "library_stable L dig \<longleftrightarrow> (\<forall>name man mt p s s' x. lb_Payload L man = Inr (mt, p) \<longrightarrow> lb_Put L name man s = (s', x) \<longrightarrow> stable_law L dig name p s s')"

lemma library_laws:
  assumes "library_ok L dig"
  shows "lb_Create L name s = (s', x) \<Longrightarrow> invisible L s s'" "lb_Copy L b s = (s', x) \<Longrightarrow> invisible L s s'" "invisible L s (lb_Cancel L s)"
    "lb_Commit L name d b s = (s', x) \<Longrightarrow> commit_law L dig name d b s s' x"
    "lb_Unmarshal L mt p = Inr man \<Longrightarrow> lb_Put L name man s = (s', y) \<Longrightarrow> put_law L dig name p s s' y"
    "lb_Tag L name tag d s = (s', x) \<Longrightarrow> tag_law L name tag d s s' x"
    "lb_Unmarshal L mt p = Inr man \<Longrightarrow> \<exists>mt'. lb_Payload L man = Inr (mt', p)"
proof -
  note laws = assms [unfolded library_ok_def]
  note rest = laws [THEN conjunct2, THEN conjunct2, THEN conjunct2]
  show "lb_Create L name s = (s', x) \<Longrightarrow> invisible L s s'" by (rule laws [THEN conjunct1, rule_format])
  show "lb_Copy L b s = (s', x) \<Longrightarrow> invisible L s s'" by (rule laws [THEN conjunct2, THEN conjunct1, rule_format])
  show "invisible L s (lb_Cancel L s)" by (rule laws [THEN conjunct2, THEN conjunct2, THEN conjunct1, rule_format])
  show "lb_Commit L name d b s = (s', x) \<Longrightarrow> commit_law L dig name d b s s' x" by (rule rest [THEN conjunct1, rule_format])
  show payload: "lb_Unmarshal L mt p = Inr man \<Longrightarrow> \<exists>mt'. lb_Payload L man = Inr (mt', p)" by (rule rest [THEN conjunct2, THEN conjunct1, rule_format])
  have put: "lb_Payload L man = Inr (mt', p) \<Longrightarrow> lb_Put L name man s = (s', y) \<Longrightarrow> put_law L dig name p s s' y" for mt'
    by (rule rest [THEN conjunct2, THEN conjunct2, THEN conjunct1, rule_format])
  show "lb_Unmarshal L mt p = Inr man \<Longrightarrow> lb_Put L name man s = (s', y) \<Longrightarrow> put_law L dig name p s s' y" using payload put by blast
  show "lb_Tag L name tag d s = (s', x) \<Longrightarrow> tag_law L name tag d s s' x" by (rule rest [THEN conjunct2, THEN conjunct2, THEN conjunct2, rule_format])
qed

lemma WriteBlob_law:
  assumes "library_ok L dig" "WriteBlob L repo d bytes s = (s', x)"
  shows "HasManifest L s' = HasManifest L s \<and> ResolveTag L s' = ResolveTag L s
    \<and> (\<forall>r e. HasBlob L s r e \<longrightarrow> HasBlob L s' r e) \<and> (x = None \<longrightarrow> HasBlob L s' repo d)"
proof (cases "repository_fault L repo \<noteq> None \<or> lb_Stat L s repo d")
  case False
  obtain s1 x1 where c: "lb_Create L repo s = (s1, x1)" by fastforce
  obtain s2 x2 where y: "lb_Copy L bytes s1 = (s2, x2)" by fastforce
  obtain s3 x3 where m: "lb_Commit L repo d bytes s2 = (s3, x3)" by fastforce
  have laws: "invisible L s s1" "invisible L s1 s2" "invisible L s2 (lb_Cancel L s2)" "invisible L s3 (lb_Cancel L s3)" "commit_law L dig repo d bytes s2 s3 x3"
    using library_laws(1,2,4) [OF assms(1)] library_laws(3) [OF assms(1)] c y m by simp_all
  have "(s', x) = (if x1 \<noteq> None then (s1, x1) else if x2 \<noteq> None then (lb_Cancel L s2, x2) else if x3 \<noteq> None then (lb_Cancel L s3, x3) else (s3, None))"
    using assms(2) False c y m by (auto simp: WriteBlob_def split: option.splits)
  then show ?thesis using laws False
    by (auto simp: invisible_def commit_law_def HasManifest_def ResolveTag_def HasBlob_def fun_eq_iff split: if_splits)
qed (use assms(2) in \<open>auto simp: WriteBlob_def HasBlob_def split: option.splits if_splits\<close>)

lemma PutManifest_cases:
  assumes "library_ok L dig" "PutManifest L repo mt payload tag s = (s', x)"
  obtains (refused) e where "x = Inl e" "s' = s"
  | (failed) e where "put_law L dig repo payload s s' (Inl e)" "x = Inl e"
  | (untagged) d where "put_law L dig repo payload s s' (Inr d)" "tag = []" "x = Inr d" "repository_fault L repo = None" "lb_manifests L repo = None"
  | (tagged) t d z where "put_law L dig repo payload s t (Inr d)" "tag_law L repo tag d t s' z" "tag \<noteq> []"
      "x = (case z of Some e \<Rightarrow> Inl e | None \<Rightarrow> Inr d)" "repository_fault L repo = None" "lb_manifests L repo = None"
proof (cases "repository_fault L repo \<noteq> None \<or> lb_manifests L repo \<noteq> None \<or> (\<exists>e. lb_Unmarshal L mt payload = Inl e)")
  case True
  then have "\<exists>e. x = Inl e \<and> s' = s" using assms(2) by (auto simp: PutManifest_def split: option.splits sum.splits)
  then show ?thesis using refused by blast
next
  case False
  then obtain man where man: "lb_Unmarshal L mt payload = Inr man" by (cases "lb_Unmarshal L mt payload") auto
  obtain t y where p: "lb_Put L repo man s = (t, y)" by fastforce
  note law = library_laws(5) [OF assms(1) man p]
  show ?thesis
  proof (cases y)
    case (Inr d)
    obtain u z where g: "lb_Tag L repo tag d t = (u, z)" by fastforce
    have "(s', x) = (if tag = [] then (t, Inr d) else (u, case z of Some e \<Rightarrow> Inl e | None \<Rightarrow> Inr d))"
      using Inr g p man False assms(2) by (auto simp: PutManifest_def split: option.splits)
    then show ?thesis using untagged [of d] tagged [of t d z] law Inr library_laws(6) [OF assms(1) g] False by (auto split: if_splits)
  qed (use law p man False assms(2) failed in \<open>auto simp: PutManifest_def\<close>)
qed

lemma PutManifest_law:
  assumes "library_ok L dig" "PutManifest L repo mt payload tag s = (s', x)"
  shows "HasBlob L s' = HasBlob L s \<and> (\<forall>r m. HasManifest L s r m \<longrightarrow> HasManifest L s' r m)
    \<and> (\<forall>r m. HasManifest L s' r m \<longrightarrow> HasManifest L s r m \<or> (r, m) = (repo, dig payload))
    \<and> (\<forall>r t. (r, t) \<noteq> (repo, tag) \<longrightarrow> ResolveTag L s' r t = ResolveTag L s r t)
    \<and> (case x of
         Inl _ \<Rightarrow> ResolveTag L s' = ResolveTag L s
       | Inr d \<Rightarrow> d = dig payload \<and> HasManifest L s' repo d \<and> (tag \<noteq> [] \<longrightarrow> ResolveTag L s' repo tag = Some d))"
proof (rule PutManifest_cases [OF assms], goal_cases refused failed untagged tagged)
  case (tagged t d z)
  then show ?thesis
    by (cases z) (auto simp: put_law_def tag_law_def HasManifest_def HasBlob_def ResolveTag_def fun_eq_iff)
qed (auto simp: put_law_def HasManifest_def HasBlob_def ResolveTag_def fun_eq_iff)

text \<open>C31: The store keeps the contract of the engine's \<^verbatim>\<open>Store\<close> interface: given a registry library that does what it
  documents, blobs land under their digest or not at all, no write loses anything stored, and a manifest put
  under a tag is found under it.\<close>

theorem store_writes_lawful:
  assumes "library_ok L dig"
  shows "lawful (store_dst L) dig"
proof -
  have ops: "ds_HasManifest (store_dst L) = HasManifest L" "ds_ResolveTag (store_dst L) = ResolveTag L" "ds_HasBlob (store_dst L) = HasBlob L"
    "ds_WriteBlob (store_dst L) = WriteBlob L" "ds_PutManifest (store_dst L) = PutManifest L" by (simp_all add: store_dst_def)
  show ?thesis unfolding lawful_def ops
    by (rule conjI) (intro allI impI, rule WriteBlob_law [OF assms] PutManifest_law [OF assms], assumption)+
qed

subsection \<open>A history of writes\<close>

datatype write_op = Op_blob string string string | Op_put string string string string

text \<open>\<open>seen\<close> is what a client that watches the answers of the writes expects under each tag.\<close>

fun run_ops :: "('s, 'm) library \<Rightarrow> write_op list \<Rightarrow> 's \<times> (string \<times> string \<rightharpoonup> string) \<Rightarrow> 's \<times> (string \<times> string \<rightharpoonup> string)" where
  "run_ops L [] (s, seen) = (s, seen)"
| "run_ops L (Op_blob name d bytes # ops) (s, seen) = run_ops L ops (fst (WriteBlob L name d bytes s), seen)"
| "run_ops L (Op_put name mt payload tag # ops) (s, seen) =
     (case PutManifest L name mt payload tag s of
        (s, Inl _) \<Rightarrow> run_ops L ops (s, seen)
      | (s, Inr _) \<Rightarrow> run_ops L ops (s, if tag = [] then seen else seen((name, tag) \<mapsto> payload)))"

definition as_seen :: "('s, 'm) library \<Rightarrow> (string \<Rightarrow> string) \<Rightarrow> 's \<times> (string \<times> string \<rightharpoonup> string) \<Rightarrow> bool" where
  "as_seen L dig x \<longleftrightarrow> (case x of (s, seen) \<Rightarrow> \<forall>name tag p. seen (name, tag) = Some p \<longrightarrow>
     repository_fault L name = None \<and> lb_manifests L name = None \<and> lb_TagGet L s name tag = Inr (dig p) \<and> lb_digestOK L (dig p) \<and> bytes_of L s name (dig p) p)"

lemma WriteBlob_quiet:
  assumes "library_ok L dig"
  shows "lb_TagGet L (fst (WriteBlob L name d bytes s)) = lb_TagGet L s \<and> lb_ManifestGet L (fst (WriteBlob L name d bytes s)) = lb_ManifestGet L s"
proof -
  have quiet: "lb_TagGet L s' = lb_TagGet L s \<and> lb_ManifestGet L s' = lb_ManifestGet L s"
    if "invisible L s s' \<or> (\<exists>name d b x. commit_law L dig name d b s s' x)" for s s'
    using that by (auto simp: invisible_def commit_law_def)
  have each: "invisible L s (fst (lb_Create L name s))" "invisible L s (fst (lb_Copy L bytes s))" "invisible L s (lb_Cancel L s)"
    "commit_law L dig name d bytes s (fst (lb_Commit L name d bytes s)) (snd (lb_Commit L name d bytes s))" for s
    using library_laws(1,2,4) [OF assms prod.collapse [symmetric]] library_laws(3) [OF assms] by auto
  show ?thesis
    using quiet [OF disjI1 [OF each(1) [of s]]] quiet [OF disjI1 [OF each(2)]] quiet [OF disjI1 [OF each(3)]] quiet [OF disjI2, of _ "fst (lb_Commit L name d bytes _)"] each(4)
    by (auto simp: WriteBlob_def split: option.splits prod.splits) (metis fst_conv)+
qed

lemma PutManifest_stable:
  assumes "library_ok L dig" "library_stable L dig" "PutManifest L repo mt payload tag s = (s', x)"
  shows "stable_law L dig repo payload s s'"
proof (cases "\<exists>man. repository_fault L repo = None \<and> lb_manifests L repo = None \<and> lb_Unmarshal L mt payload = Inr man")
  case True
  then obtain man where man: "repository_fault L repo = None" "lb_manifests L repo = None" "lb_Unmarshal L mt payload = Inr man" by blast
  obtain t y where p: "lb_Put L repo man s = (t, y)" by fastforce
  obtain mt' where "lb_Payload L man = Inr (mt', payload)" using library_laws(7) [OF assms(1) man(3)] by blast
  then have st: "stable_law L dig repo payload s t" using assms(2) p unfolding library_stable_def by blast
  have "lb_ManifestGet L (fst (lb_Tag L repo tag d t)) = lb_ManifestGet L t" for d
    using library_laws(6) [OF assms(1) prod.collapse [symmetric]] by (simp add: tag_law_def)
  moreover have "s' = t \<or> (\<exists>d. s' = fst (lb_Tag L repo tag d t))"
    using assms(3) man p by (auto simp: PutManifest_def split: sum.splits prod.splits option.splits if_splits) (metis fst_conv)+
  ultimately have "lb_ManifestGet L s' = lb_ManifestGet L t" by auto
  with st show ?thesis by (simp add: stable_law_def bytes_of_def)
next
  case False
  then have "s' = s" using assms(3) by (auto simp: PutManifest_def split: option.splits sum.splits)
  then show ?thesis by (simp add: stable_law_def)
qed

lemma as_seen_put:
  assumes "library_ok L dig" "library_stable L dig" "inj dig" "as_seen L dig (s, seen)" "PutManifest L repo mt payload tag s = (s', x)"
  shows "as_seen L dig (s', case x of Inl _ \<Rightarrow> seen | Inr _ \<Rightarrow> if tag = [] then seen else seen((repo, tag) \<mapsto> payload))"
proof -
  have keep: "bytes_of L s' name (dig p) p" if "bytes_of L s name (dig p) p" for name p
    using PutManifest_stable [OF assms(1,2,5)] that injD [OF assms(3)] by (cases "(name, dig p) = (repo, dig payload)") (auto simp: stable_law_def)
  from assms(1,5) show ?thesis
  proof (cases rule: PutManifest_cases)
    case (refused e)
    then show ?thesis using assms(4) by simp
  next
    case (failed e)
    then show ?thesis using assms(4) keep by (auto simp: as_seen_def put_law_def)
  next
    case (untagged d)
    then show ?thesis using assms(4) keep by (auto simp: as_seen_def put_law_def)
  next
    case (tagged t d z)
    have old: "lb_TagGet L t = lb_TagGet L s" using tagged(1) by (simp add: put_law_def)
    have "bytes_of L s' n m q = bytes_of L t n m q" for n m q using tagged(2) by (simp add: bytes_of_def tag_law_def)
    then have new: "d = dig payload" "lb_digestOK L d" "bytes_of L s' repo d payload" using tagged(1) by (auto simp: put_law_def)
    have moved: "lb_TagGet L s' n u = lb_TagGet L s n u" if "(n, u) \<noteq> (repo, tag) \<or> z \<noteq> None" for n u
      using tagged(2) that old by (auto simp: tag_law_def)
    show ?thesis
    proof (cases z)
      case None
      have "lb_TagGet L s' repo tag = Inr d" using tagged(2) None by (simp add: tag_law_def)
      then show ?thesis using tagged None assms(4) new moved keep by (auto simp: as_seen_def)
    next
      case (Some e)
      then show ?thesis using tagged assms(4) moved keep by (auto simp: as_seen_def)
    qed
  qed
qed

lemma run_ops_seen:
  assumes "library_ok L dig" "library_stable L dig" "inj dig"
  shows "as_seen L dig (s, seen) \<Longrightarrow> as_seen L dig (run_ops L ops (s, seen))"
proof (induction ops arbitrary: s seen)
  case (Cons op ops)
  show ?case
  proof (cases op)
    case (Op_blob name d bytes)
    have "as_seen L dig (fst (WriteBlob L name d bytes s), seen)"
      using Cons.prems WriteBlob_quiet [OF assms(1), of name d bytes s] by (simp add: as_seen_def bytes_of_def)
    then show ?thesis using Cons.IH Op_blob by simp
  next
    case (Op_put name mt payload tag)
    obtain t x where p: "PutManifest L name mt payload tag s = (t, x)" by fastforce
    from Cons.IH [OF as_seen_put [OF assms Cons.prems p]] p Op_put show ?thesis by (cases x) simp_all
  qed
qed simp

text \<open>C32: A tag serves what was last put under it. Whatever sequence of blob and manifest writes the store went through,
  refused and failed ones included, a reader that asks for a tag gets, byte for byte, the payload of the last put under
  it that was answered with success, and gets it by its digest too; given that digests do not collide, that the library
  lets no put disturb the manifests under other digests, and that the tag itself does not parse as a digest.\<close>

theorem put_then_read:
  assumes "library_ok L dig" "library_stable L dig" "inj dig" "run_ops L ops (s, Map.empty) = (s', seen)" "seen (name, tag) = Some payload" "\<not> lb_digestOK L tag"
  shows "\<exists>mt. RawManifest L s' name tag = Inr (payload, mt, dig payload) \<and> RawManifest L s' name (dig payload) = Inr (payload, mt, dig payload)"
proof -
  have "as_seen L dig (s', seen)" using run_ops_seen [OF assms(1-3), of s Map.empty ops] assms(4) by (simp add: as_seen_def)
  then have "repository_fault L name = None" "lb_manifests L name = None" "lb_TagGet L s' name tag = Inr (dig payload)" "lb_digestOK L (dig payload)"
    "bytes_of L s' name (dig payload) payload" using assms(5) by (auto simp: as_seen_def)
  then show ?thesis using assms(6) by (auto simp: RawManifest_def bytes_of_def)
qed

subsection \<open>A library in memory\<close>

record vault =
  vt_blobs :: "(string \<times> string) set"
  vt_manifests :: "(string \<times> string) \<Rightarrow> (string \<times> string) option"
  vt_tags :: "(string \<times> string) \<Rightarrow> string option"

definition vault_library :: "(vault, string \<times> string) library" where
  "vault_library = \<lparr>lb_nameOK = \<lambda>n. n \<noteq> [], lb_repository = \<lambda>n. None, lb_manifests = \<lambda>_. None, lb_digestOK = \<lambda>d. has_prefix d ''@'',
     lb_Exists = \<lambda>s r m. Inr (vt_manifests s (r, m) \<noteq> None),
     lb_ManifestGet = \<lambda>s r m. (case vt_manifests s (r, m) of None \<Rightarrow> Inl ELibUnknown | Some x \<Rightarrow> Inr x), lb_Payload = \<lambda>man. Inr man,
     lb_TagGet = \<lambda>s r t. (case vt_tags s (r, t) of None \<Rightarrow> Inl ELibUnknown | Some d \<Rightarrow> Inr d), lb_TagAll = \<lambda>s r. Inr [],
     lb_Stat = \<lambda>s r d. (r, d) \<in> vt_blobs s, lb_Open = \<lambda>s r d. Inl ELibUnknown,
     lb_Create = \<lambda>r s. (s, None), lb_Copy = \<lambda>b s. (s, None),
     lb_Commit = \<lambda>r d b s. if ''@'' @ b = d then (s\<lparr>vt_blobs := insert (r, d) (vt_blobs s)\<rparr>, None) else (s, Some (EOther ''digest'')),
     lb_Cancel = \<lambda>s. s, lb_Unmarshal = \<lambda>mt p. if p = [] then Inl (EOther ''parse'') else Inr (mt, p),
     lb_Put = \<lambda>r man s. (s\<lparr>vt_manifests := (vt_manifests s)((r, ''@'' @ snd man) \<mapsto> man)\<rparr>, Inr (''@'' @ snd man)),
     lb_Tag = \<lambda>r t d s. (s\<lparr>vt_tags := (vt_tags s)((r, t) \<mapsto> d)\<rparr>, None)\<rparr>"

definition bare_vault :: vault where
  "bare_vault = \<lparr>vt_blobs = {}, vt_manifests = Map.empty, vt_tags = Map.empty\<rparr>"

lemma vault_ok: "library_ok vault_library (\<lambda>p. ''@'' @ p)"
  by (auto simp: library_ok_def invisible_def commit_law_def put_law_def tag_law_def bytes_of_def vault_library_def split: if_splits option.splits)

lemma vault_stable: "library_stable vault_library (\<lambda>p. ''@'' @ p)"
  by (auto simp: library_stable_def stable_law_def bytes_of_def vault_library_def split: if_splits option.splits)

theorem store_writes_lawful_witness: "lawful (store_dst vault_library) (\<lambda>p. ''@'' @ p)"
  using store_writes_lawful [OF vault_ok] .

text \<open>The tag \<open>v1\<close> is put, put again, put with bytes that do not parse, and other content is written behind it.\<close>

definition vault_ops :: "write_op list" where
  "vault_ops = [Op_put ''r'' ''mt'' ''p'' ''v1'', Op_put ''r'' ''mt'' ''q'' ''v1'', Op_put ''r'' ''mt'' [] ''v1'', Op_blob ''r'' ''@b'' ''b'', Op_put ''r'' ''mt'' ''p'' ''v2'']"

theorem put_then_read_witness:
  "\<exists>s' seen mt. run_ops vault_library vault_ops (bare_vault, Map.empty) = (s', seen) \<and> RawManifest vault_library s' ''r'' ''v1'' = Inr (''q'', mt, ''@q'')"
proof -
  obtain s' seen where r: "run_ops vault_library vault_ops (bare_vault, Map.empty) = (s', seen)" by fastforce
  have "snd (run_ops vault_library vault_ops (bare_vault, Map.empty)) (''r'', ''v1'') = Some ''q''"
    by (simp add: vault_ops_def PutManifest_def WriteBlob_def repository_fault_def vault_library_def bare_vault_def)
  then have seen: "seen (''r'', ''v1'') = Some ''q''" using r by simp
  have "inj (\<lambda>p. ''@'' @ p)" "\<not> lb_digestOK vault_library ''v1''" by (simp_all add: inj_def vault_library_def)
  from put_then_read [OF vault_ok vault_stable this(1) r seen this(2)] r show ?thesis by auto
qed

end
