(* ===== verification/Remotes.thy ===== *)
theory Remotes
  imports Allowlist Trust Copying
begin

text \<open>
  Access to source registries: \<^verbatim>\<open>engine/remote.go\<close> (substitution, credentials, the allowlist check before every
  connection), \<^verbatim>\<open>engine/cookbook.go\<close>, \<^verbatim>\<open>engine/resolve.go\<close> and \<^verbatim>\<open>engine/retriever.go\<close>.

  The registry client library and the network behind it are the record \<open>reg_client\<close>, the recipe format library
  the record \<open>sdk\<close>; both are parameters. A client is what the network answers at one instant.
\<close>

subsection \<open>The client and the format library\<close>

record repository =
  nr_Registry :: string
  nr_Path :: string
  nr_Insecure :: bool

datatype reference = Tag_ref repository string | Digest_ref repository string

fun ref_repository :: "reference \<Rightarrow> repository" where
  "ref_repository (Tag_ref r _) = r"
| "ref_repository (Digest_ref r _) = r"

record descriptor =
  de_Digest :: string
  de_MediaType :: string
  de_Size :: int
  de_Manifest :: string
  de_ImageIndex :: "eng_error + src_index"
  de_Image :: "eng_error + src_image"

text \<open>A body: the bytes it delivers and the error it ends with, if any.\<close>

type_synonym body = "string \<times> eng_error option"

record reg_client =
  cl_NewRepository :: "string \<Rightarrow> bool \<Rightarrow> eng_error + repository"
  cl_Get :: "reference \<Rightarrow> eng_error + descriptor"
  cl_List :: "repository \<Rightarrow> eng_error + string list"
  cl_Referrers :: "repository \<Rightarrow> string \<Rightarrow> eng_error + (eng_error + string list)"
  cl_Layer :: "repository \<Rightarrow> string \<Rightarrow> eng_error + (eng_error + body)"
  cl_HTTP :: "string \<Rightarrow> eng_error + (int \<times> body)"
  cl_text :: "eng_error \<Rightarrow> string"

record SpecIngredient =
  in_Name :: string
  in_Kind :: string
  in_Ref :: string
  in_Version :: string
  in_Digest :: string
  in_Platforms :: "string list"
  in_ArtifactType :: string

record SpecRecipe =
  re_Name :: string
  re_Version :: string
  re_Ingredients :: "SpecIngredient list"

record RecipeSelector =
  sl_Name :: string
  sl_Version :: string
  sl_Cookbook :: string

record Retriever =
  rv_Name :: string
  rv_Cookbook :: string
  rv_Recipes :: "RecipeSelector list"

record constraint =
  cn_IsExact :: bool
  cn_Resolve :: "string list \<Rightarrow> string + string"

text \<open>The fields of an artifact manifest the copy paths read.\<close>

record artifactManifest =
  am_ArtifactType :: string
  am_ConfigMediaType :: string
  am_ConfigDigest :: string
  am_Layers :: "string list"

record sdk =
  sk_ParseConstraint :: "string \<Rightarrow> string + constraint"
  sk_ParseRetriever :: "string \<Rightarrow> eng_error + Retriever"
  sk_ParseRecipe :: "string \<Rightarrow> eng_error + SpecRecipe"
  sk_Validate :: "SpecRecipe \<Rightarrow> eng_error option"
  sk_ValidatePublishLocation :: "SpecRecipe \<Rightarrow> string \<Rightarrow> string \<Rightarrow> eng_error option"
  sk_VerifyManifest :: "string \<Rightarrow> eng_error + (string \<times> string)"
  sk_MaxDocumentBytes :: nat
  sk_manifest :: "string \<Rightarrow> artifactManifest option"

definition host_part :: "char \<Rightarrow> string \<Rightarrow> string" where
  "host_part c s = takeWhile (\<lambda>x. x \<noteq> c) s"

subsection \<open>Credentials\<close>

record authEntry =
  ae_Auth :: string
  ae_Username :: string
  ae_Password :: string
  ae_Identity :: string

record AuthConfig =
  ac_User :: string
  ac_Pass :: string
  ac_Token :: string

definition trim_prefix :: "string \<Rightarrow> string \<Rightarrow> string" where
  "trim_prefix p s = (if has_prefix s p then drop (length p) s else s)"

definition keychain_host :: "string \<Rightarrow> string" where
  "keychain_host h = host_part CHR ''/'' (trim_prefix ''http://'' (trim_prefix ''https://'' h))"

text \<open>The entries in the order the Go map is walked. An undecodable \<^verbatim>\<open>auth\<close> refuses the file.\<close>

fun newDockerConfigKeychain :: "(string \<Rightarrow> string option) \<Rightarrow> (string \<times> authEntry) list \<Rightarrow> (string \<times> AuthConfig) list \<Rightarrow>
    string + (string \<times> AuthConfig) list" where
  "newDockerConfigKeychain b64 [] kc = Inr kc"
| "newDockerConfigKeychain b64 ((host, a) # rest) kc =
     (let cfg = \<lparr>ac_User = ae_Username a, ac_Pass = ae_Password a, ac_Token = ae_Identity a\<rparr> in
      if ae_Auth a = [] then newDockerConfigKeychain b64 rest (map_put (keychain_host host) cfg kc)
      else case b64 (ae_Auth a) of
        None \<Rightarrow> Inl host
      | Some dec \<Rightarrow>
          newDockerConfigKeychain b64 rest
            (map_put (keychain_host host)
               (case index_byte CHR '':'' dec of
                  None \<Rightarrow> cfg
                | Some i \<Rightarrow> cfg\<lparr>ac_User := take i dec, ac_Pass := drop (Suc i) dec\<rparr>) kc))"

text \<open>\<open>None\<close> is the anonymous authenticator.\<close>

definition Resolve_keychain :: "(string \<times> AuthConfig) list \<Rightarrow> string \<Rightarrow> AuthConfig option" where
  "Resolve_keychain kc registry =
     (case map_of kc registry of
        Some cfg \<Rightarrow> Some cfg
      | None \<Rightarrow> if registry = ''index.docker.io'' then map_of kc ''docker.io'' else None)"

text \<open>A keychain: what it offers a registry. \<open>read\<close> is the file system, \<open>parse\<close> the JSON decoder and \<open>fallback\<close> the user's own
  keychain; the multi-keychain asks the file first and then the fallback.\<close>

type_synonym keychain = "string \<Rightarrow> AuthConfig option"

datatype remotes_error = BadSubstitution ref_error | BadCredentials string

definition keychainFor :: "(string \<Rightarrow> string option) \<Rightarrow> (string \<Rightarrow> (string \<times> authEntry) list option) \<Rightarrow> (string \<Rightarrow> string + string) \<Rightarrow> keychain \<Rightarrow>
    string \<Rightarrow> remotes_error + keychain" where
  "keychainFor b64 parse read fallback credentialsFile =
     (if credentialsFile = [] then Inr fallback
      else case read credentialsFile of
        Inl e \<Rightarrow> Inl (BadCredentials e)
      | Inr raw \<Rightarrow>
          (case parse raw of
             None \<Rightarrow> Inl (BadCredentials ''parsing dockerconfigjson'')
           | Some entries \<Rightarrow>
               (case newDockerConfigKeychain b64 entries [] of
                  Inl host \<Rightarrow> Inl (BadCredentials host)
                | Inr kc \<Rightarrow> Inr (\<lambda>registry. case Resolve_keychain kc registry of Some cfg \<Rightarrow> Some cfg | None \<Rightarrow> fallback registry))))"

subsection \<open>Remotes\<close>

record Remotes =
  rm_subs :: "(string \<times> string) list"
  rm_insecure :: "string set"
  rm_allowlist :: "allowlist option"
  rm_keychain :: keychain

fun load_subs :: "(string \<times> string) list \<Rightarrow> (string \<times> string) list \<Rightarrow> ref_error + (string \<times> string) list" where
  "load_subs [] m = Inr m"
| "load_subs ((nominal, base) # rest) m =
     bind_r (Host nominal) (\<lambda>canonical. load_subs rest (map_put canonical (trim_by (\<lambda>c. c = CHR ''/'') base) m))"

text \<open>\<open>credentials\<close> is what \<open>keychainFor\<close> makes of the configured credentials file.\<close>

definition NewRemotes :: "(string \<times> string) list \<Rightarrow> string list \<Rightarrow> allowlist option \<Rightarrow> remotes_error + keychain \<Rightarrow> remotes_error + Remotes" where
  "NewRemotes substitutions insecure allow credentials =
     (case load_subs substitutions [] of
        Inl e \<Rightarrow> Inl (BadSubstitution e)
      | Inr m \<Rightarrow> bind_r credentials (\<lambda>kc. Inr \<lparr>rm_subs = m, rm_insecure = set insecure, rm_allowlist = allow, rm_keychain = kc\<rparr>))"

definition Effective :: "Remotes \<Rightarrow> string \<Rightarrow> eng_error + string" where
  "Effective r nominalRepo =
     (case Path nominalRepo of
        Inl e \<Rightarrow> Inl (ERef e)
      | Inr canonical \<Rightarrow>
          (case map_of (rm_subs r) (replace_byte CHR ''_'' CHR '':'' (host_part CHR ''/'' canonical)) of
             None \<Rightarrow> Inr nominalRepo
           | Some base \<Rightarrow> Inr (base @ ''/'' @ canonical)))"

definition Repository :: "reg_client \<Rightarrow> Remotes \<Rightarrow> string \<Rightarrow> eng_error + (repository \<times> string)" where
  "Repository C r nominalRepo =
     bind_r (Effective r nominalRepo) (\<lambda>eff.
     bind_r (cl_NewRepository C eff (host_part CHR ''/'' eff \<in> rm_insecure r)) (\<lambda>repo.
       (case fst (Check (rm_allowlist r) (nr_Registry repo)) of
          Some (NotAllowlisted host) \<Rightarrow> Inl (ETax CodeNotAllowlisted [(''host'', host)])
        | None \<Rightarrow> Inr (repo, eff))))"

definition parseInRepo :: "repository \<Rightarrow> string \<Rightarrow> reference" where
  "parseInRepo repo reference =
     (if has_prefix reference ''sha256:'' \<or> has_prefix reference ''sha512:'' then Digest_ref repo reference else Tag_ref repo reference)"

definition Get_desc :: "reg_client \<Rightarrow> Remotes \<Rightarrow> string \<Rightarrow> string \<Rightarrow> eng_error + descriptor" where
  "Get_desc C r nominalRepo reference = bind_r (Repository C r nominalRepo) (\<lambda>(repo, _). cl_Get C (parseInRepo repo reference))"

definition ListTags :: "reg_client \<Rightarrow> Remotes \<Rightarrow> string \<Rightarrow> eng_error + string list" where
  "ListTags C r nominalRepo = bind_r (Repository C r nominalRepo) (\<lambda>(repo, _). cl_List C repo)"

text \<open>Go reads one byte more than the bound, so that an error behind it is never seen.\<close>

definition readBounded :: "nat \<Rightarrow> body \<Rightarrow> eng_error + string" where
  "readBounded limit b =
     (case b of (bytes, err) \<Rightarrow>
      if length bytes > limit then Inl (EOther ''content exceeds the bound'')
      else case err of Some e \<Rightarrow> Inl e | None \<Rightarrow> Inr bytes)"

text \<open>The layer of a nominal repository, read under a bound.\<close>

definition bounded_blob :: "reg_client \<Rightarrow> nat \<Rightarrow> repository \<Rightarrow> string \<Rightarrow> eng_error + string" where
  "bounded_blob C limit repo d = bind_r (cl_Layer C repo d) (\<lambda>compressed. bind_r compressed (readBounded limit))"

definition read_layer :: "reg_client \<Rightarrow> Remotes \<Rightarrow> nat \<Rightarrow> string \<Rightarrow> string \<Rightarrow> eng_error + string" where
  "read_layer C r limit nominalRepo d = bind_r (Repository C r nominalRepo) (\<lambda>(repo, _). bounded_blob C limit repo d)"

definition isNotFound :: "eng_error \<Rightarrow> bool" where
  "isNotFound e =
     (case e of
        EStatus st errs \<Rightarrow> st = 404 \<or> says [''MANIFEST_UNKNOWN'', ''NAME_UNKNOWN''] errs
      | EUnknown \<Rightarrow> True
      | _ \<Rightarrow> False)"

definition src_fault :: "reg_client \<Rightarrow> eng_error \<Rightarrow> src_error" where
  "src_fault C e = SrcFailed (cl_text C e)"

definition Manifest_of :: "reg_client \<Rightarrow> Remotes \<Rightarrow> string \<Rightarrow> string \<Rightarrow> src_error + string" where
  "Manifest_of C r nominal reference =
     (case Get_desc C r nominal reference of
        Inl e \<Rightarrow> if isNotFound e then Inl NotFound else Inl (src_fault C e)
      | Inr desc \<Rightarrow> Inr (de_Manifest desc))"

definition Referrers :: "reg_client \<Rightarrow> Remotes \<Rightarrow> string \<Rightarrow> string \<Rightarrow> string list \<times> src_error option" where
  "Referrers C r nominal subjectDigest =
     (case Repository C r nominal of
        Inl e \<Rightarrow> ([], Some (src_fault C e))
      | Inr (repo, _) \<Rightarrow>
          (case cl_Referrers C repo subjectDigest of
             Inl e \<Rightarrow> if isNotFound e then ([], None) else ([], Some (src_fault C e))
           | Inr (Inl e) \<Rightarrow> ([], Some (src_fault C e))
           | Inr (Inr digests) \<Rightarrow> (digests, None)))"

definition Blob_of :: "reg_client \<Rightarrow> Remotes \<Rightarrow> string \<Rightarrow> string \<Rightarrow> src_error + string" where
  "Blob_of C r nominal d =
     (case read_layer C r 1048576 nominal d of
        Inl e \<Rightarrow> Inl (src_fault C e)
      | Inr bytes \<Rightarrow> Inr bytes)"

text \<open>The repository argument of the interface is ignored: the adapter is bound to its nominal repository.\<close>

definition Manifests :: "reg_client \<Rightarrow> Remotes \<Rightarrow> string \<Rightarrow> manifests" where
  "Manifests C r nominal =
     \<lparr>ms_Manifest = \<lambda>_ reference. Manifest_of C r nominal reference, ms_Blob = \<lambda>_ d. Blob_of C r nominal d,
      ms_Referrers = Some (\<lambda>_ d. Referrers C r nominal d)\<rparr>"

subsection \<open>Cookbooks\<close>

definition Versions :: "reg_client \<Rightarrow> Remotes \<Rightarrow> string \<Rightarrow> string \<Rightarrow> eng_error + string list" where
  "Versions C r nominal name =
     bind_r (ListTags C r (nominal @ ''/'' @ name)) (\<lambda>tags. Inr (filter (\<lambda>t. \<not> has_prefix t ''sha256-'') tags))"

record FetchedRecipe =
  fr_NominalRepo :: string
  fr_Tag :: string
  fr_ManifestBytes :: string
  fr_MediaType :: string
  fr_ManifestDigest :: string
  fr_ConfigDigest :: string
  fr_LayerDigest :: string
  fr_YAML :: string
  fr_Recipe :: "SpecRecipe option"

definition FetchArtifact :: "sdk \<Rightarrow> reg_client \<Rightarrow> Remotes \<Rightarrow> string \<Rightarrow> string \<Rightarrow> string \<Rightarrow> eng_error + FetchedRecipe" where
  "FetchArtifact S C r nominal recipeName tag =
     (let nominalRepo = nominal @ ''/'' @ recipeName in
      bind_r (Get_desc C r nominalRepo tag) (\<lambda>desc.
      bind_r (sk_VerifyManifest S (de_Manifest desc)) (\<lambda>(config, document).
        Inr \<lparr>fr_NominalRepo = nominalRepo, fr_Tag = tag, fr_ManifestBytes = de_Manifest desc, fr_MediaType = de_MediaType desc,
             fr_ManifestDigest = de_Digest desc, fr_ConfigDigest = config, fr_LayerDigest = document, fr_YAML = [], fr_Recipe = None\<rparr>)))"

definition LoadDocument :: "sdk \<Rightarrow> reg_client \<Rightarrow> Remotes \<Rightarrow> FetchedRecipe \<Rightarrow> string \<Rightarrow> eng_error + FetchedRecipe" where
  "LoadDocument S C r f recipeName =
     bind_r (read_layer C r (sk_MaxDocumentBytes S) (fr_NominalRepo f) (fr_LayerDigest f)) (\<lambda>yaml.
     bind_r (sk_ParseRecipe S yaml) (\<lambda>recipe.
       (case sk_Validate S recipe of
          Some e \<Rightarrow> Inl e
        | None \<Rightarrow>
            (case sk_ValidatePublishLocation S recipe recipeName (fr_Tag f) of
               Some e \<Rightarrow> Inl e
             | None \<Rightarrow> Inr (f\<lparr>fr_YAML := yaml, fr_Recipe := Some recipe\<rparr>)))))"

text \<open>\<^verbatim>\<open>strings.Replace(d, "sha256:", "sha256-", 1)\<close> rewrites the first occurrence, wherever it is.\<close>

definition dash_first :: "string \<Rightarrow> string" where
  "dash_first d = (case str_index d ''sha256:'' of None \<Rightarrow> d | Some i \<Rightarrow> take i d @ ''sha256-'' @ drop (i + 7) d)"

definition SignatureTag :: "string \<Rightarrow> string" where
  "SignatureTag manifestDigest = dash_first manifestDigest @ ''.sig''"

definition ResolveVersion :: "sdk \<Rightarrow> string \<Rightarrow> string list \<Rightarrow> eng_error + string" where
  "ResolveVersion S expr tags =
     (case sk_ParseConstraint S expr of
        Inl e \<Rightarrow> Inl (EVersion expr e)
      | Inr c \<Rightarrow>
          if cn_IsExact c then (if expr \<in> set tags then Inr expr else Inl (EVersion expr ''tag not found''))
          else (case cn_Resolve c tags of Inl e \<Rightarrow> Inl (EVersion expr e) | Inr tag \<Rightarrow> Inr tag))"

subsection \<open>The Retriever\<close>

definition hasDriveDesignator :: "string \<Rightarrow> bool" where
  "hasDriveDesignator source =
     (case source of
        c # d # _ \<Rightarrow> d = CHR '':'' \<and> is_letter c
      | _ \<Rightarrow> False)"

definition fetchRetrieverURL :: "sdk \<Rightarrow> reg_client \<Rightarrow> string \<Rightarrow> eng_error + string" where
  "fetchRetrieverURL S C url =
     bind_r (cl_HTTP C url) (\<lambda>(status, resp).
       if status \<noteq> 200 then Inl (EOther ''fetching retriever'') else readBounded (sk_MaxDocumentBytes S) resp)"

definition fetchRetrieverOCI :: "sdk \<Rightarrow> reg_client \<Rightarrow> Remotes \<Rightarrow> string \<Rightarrow> eng_error + string" where
  "fetchRetrieverOCI S C r reference =
     (let (repoPath, tag) =
        (case last_index_byte CHR '':'' reference of
           None \<Rightarrow> (reference, ''latest'')
         | Some i \<Rightarrow>
             if (case last_index_byte CHR ''/'' reference of None \<Rightarrow> True | Some j \<Rightarrow> i > j)
             then (take i reference, drop (Suc i) reference) else (reference, ''latest''))
      in bind_r (Get_desc C r repoPath tag) (\<lambda>desc.
         (case sk_manifest S (de_Manifest desc) of
            None \<Rightarrow> Inl (EOther ''unparseable manifest'')
          | Some man \<Rightarrow>
              (case am_Layers man of
                 [layer] \<Rightarrow> read_layer C r (sk_MaxDocumentBytes S) repoPath layer
               | _ \<Rightarrow> Inl (EOther ''want exactly one document layer'')))))"

text \<open>\<open>fs\<close> is the file system: nothing at a path, or what reading it yields.\<close>

definition readRetrieverSource :: "sdk \<Rightarrow> (string \<Rightarrow> (eng_error + string) option) \<Rightarrow> reg_client \<Rightarrow> Remotes \<Rightarrow> string \<Rightarrow> eng_error + string" where
  "readRetrieverSource S fs C r source =
     (if source = [] then Inl (EOther ''retriever.source is not configured'')
      else if has_prefix source ''http://'' \<or> has_prefix source ''https://'' then fetchRetrieverURL S C source
      else if has_prefix source ''oci://'' then fetchRetrieverOCI S C r (drop 6 source)
      else case fs source of
        Some answer \<Rightarrow> answer
      | None \<Rightarrow>
          if CHR ''/'' \<in> set source \<and> \<not> hasDriveDesignator source
             \<and> (let host = host_part CHR ''/'' source in CHR ''.'' \<in> set host \<or> CHR '':'' \<in> set host \<or> host = ''localhost'')
          then fetchRetrieverOCI S C r source
          else Inl (EOther ''retriever file does not exist''))"

definition LoadRetriever :: "sdk \<Rightarrow> (string \<Rightarrow> (eng_error + string) option) \<Rightarrow> reg_client \<Rightarrow> Remotes \<Rightarrow> string \<Rightarrow> eng_error + Retriever" where
  "LoadRetriever S fs C r source = bind_r (readRetrieverSource S fs C r source) (sk_ParseRetriever S)"

subsection \<open>Policy follows the wire\<close>

text \<open>Two clients that may differ in what registries outside \<open>ok\<close> answer, and in what plain HTTP servers answer; in nothing
  else.\<close>

definition same_within :: "(string \<Rightarrow> bool) \<Rightarrow> reg_client \<Rightarrow> reg_client \<Rightarrow> bool" where
  "same_within ok C C' \<longleftrightarrow>
     cl_NewRepository C = cl_NewRepository C' \<and> cl_text C = cl_text C'
     \<and> (\<forall>ref. ok (nr_Registry (ref_repository ref)) \<longrightarrow> cl_Get C ref = cl_Get C' ref)
     \<and> (\<forall>repo. ok (nr_Registry repo) \<longrightarrow> cl_List C repo = cl_List C' repo \<and> cl_Referrers C repo = cl_Referrers C' repo
          \<and> cl_Layer C repo = cl_Layer C' repo)"

lemma bind_r_cong: "r = r' \<Longrightarrow> (\<And>x. r = Inr x \<Longrightarrow> f x = g x) \<Longrightarrow> bind_r r f = bind_r r' g"
  by (cases r) auto

lemma Repository_allowed: "Repository C r n = Inr (repo, eff) \<Longrightarrow> Allows (rm_allowlist r) (nr_Registry repo)"
  by (auto simp: Repository_def bind_r_Inr_iff Check_def split: option.splits policy_refusal.splits if_splits)

lemma Repository_refuses:
  assumes "Effective r n = Inr eff" "cl_NewRepository C eff (host_part CHR ''/'' eff \<in> rm_insecure r) = Inr repo" "\<not> Allows (rm_allowlist r) (nr_Registry repo)"
  shows "Get_desc C r n reference = Inl (ETax CodeNotAllowlisted [(''host'', nr_Registry repo)])"
  using assms by (simp add: Get_desc_def Repository_def Check_def)

lemma parseInRepo_repository [simp]: "ref_repository (parseInRepo repo reference) = repo"
  by (simp add: parseInRepo_def)

lemma within_same:
  assumes "same_within (Allows (rm_allowlist r)) C C'"
  shows within_Repository: "Repository C r n = Repository C' r n"
    and within_Get: "Get_desc C r n reference = Get_desc C' r n reference"
    and within_ListTags: "ListTags C r n = ListTags C' r n"
    and within_layer: "read_layer C r limit n d = read_layer C' r limit n d"
    and within_fault: "src_fault C = src_fault C'"
    and within_Referrers: "Referrers C r n d = Referrers C' r n d"
proof -
  show rep: "Repository C r n = Repository C' r n" for n
    using assms by (simp add: Repository_def same_within_def)
  show "Get_desc C r n reference = Get_desc C' r n reference" "ListTags C r n = ListTags C' r n" "read_layer C r limit n d = read_layer C' r limit n d"
    unfolding Get_desc_def ListTags_def read_layer_def using assms Repository_allowed [of C r n]
    by (auto intro!: bind_r_cong [OF rep] simp: same_within_def bounded_blob_def)
  show fault: "src_fault C = src_fault C'" using assms by (simp add: src_fault_def [abs_def] same_within_def)
  show "Referrers C r n d = Referrers C' r n d"
  proof (cases "Repository C r n")
    case (Inr x)
    obtain repo eff where x: "x = (repo, eff)" by fastforce
    then have "cl_Referrers C repo = cl_Referrers C' repo"
      using Inr assms Repository_allowed [of C r n repo eff] by (simp add: same_within_def)
    then show ?thesis unfolding Referrers_def fault using Inr x rep [of n] by simp
  qed (use rep [of n] fault in \<open>simp add: Referrers_def\<close>)
qed

lemmas within = within_Get within_ListTags within_layer within_fault within_Referrers

definition over_http :: "string \<Rightarrow> bool" where
  "over_http source \<longleftrightarrow> has_prefix source ''http://'' \<or> has_prefix source ''https://''"

text \<open>C23: Policy follows the wire. Whatever the registries outside the allowlist hold or answer, no manifest, tag
  list, layer, signature or recipe the engine reads depends on it, and no Retriever, unless its source is an
  HTTP address: the name of the registry actually dialled, after substitution, is checked before every access
  to a registry. (The HTTP source of a Retriever is not checked against the allowlist.)\<close>

theorem reads_within_allowlist:
  assumes "same_within (Allows (rm_allowlist r)) C C'"
  shows "Get_desc C r n reference = Get_desc C' r n reference \<and> ListTags C r n = ListTags C' r n \<and> Manifests C r n = Manifests C' r n
    \<and> FetchArtifact S C r n name tag = FetchArtifact S C' r n name tag \<and> LoadDocument S C r f name = LoadDocument S C' r f name
    \<and> (\<not> over_http source \<longrightarrow> LoadRetriever S fs C r source = LoadRetriever S fs C' r source)"
proof -
  note same = within [OF assms]
  have "LoadDocument S C r f name = LoadDocument S C' r f name" "Manifests C r n = Manifests C' r n"
    "FetchArtifact S C r n name tag = FetchArtifact S C' r n name tag"
    unfolding LoadDocument_def Manifests_def Manifest_of_def Blob_of_def FetchArtifact_def same by simp_all
  moreover have "LoadRetriever S fs C r source = LoadRetriever S fs C' r source" if "\<not> over_http source"
    using that unfolding LoadRetriever_def readRetrieverSource_def fetchRetrieverOCI_def over_http_def same by simp
  ultimately show ?thesis using same(1,2) by simp
qed

definition fence_remotes :: Remotes where
  "fence_remotes = \<lparr>rm_subs = [], rm_insecure = {},
     rm_allowlist = Some \<lparr>al_declared = True, al_patterns = [''ok.example''], al_observed = False\<rparr>, rm_keychain = \<lambda>_. None\<rparr>"

definition fence_client :: "eng_error + descriptor \<Rightarrow> reg_client" where
  "fence_client answer = \<lparr>cl_NewRepository = \<lambda>eff insec. Inr \<lparr>nr_Registry = host_part CHR ''/'' eff, nr_Path = eff, nr_Insecure = insec\<rparr>,
     cl_Get = \<lambda>ref. if nr_Registry (ref_repository ref) = ''evil.example'' then answer else Inl EUnknown,
     cl_List = \<lambda>_. Inr [], cl_Referrers = \<lambda>_ _. Inl EUnknown, cl_Layer = \<lambda>_ _. Inl EUnknown, cl_HTTP = \<lambda>_. Inl ENetwork, cl_text = \<lambda>_. []\<rparr>"

theorem reads_within_allowlist_witness:
  "Get_desc (fence_client (Inl EDeadline)) fence_remotes ''evil.example/x'' ''v1'' = Get_desc (fence_client (Inl ENetwork)) fence_remotes ''evil.example/x'' ''v1''
     \<and> cl_Get (fence_client (Inl EDeadline)) \<noteq> cl_Get (fence_client (Inl ENetwork))"
proof -
  have no: "\<not> Allows (rm_allowlist fence_remotes) ''evil.example''" by code_simp
  have "same_within (Allows (rm_allowlist fence_remotes)) (fence_client (Inl EDeadline)) (fence_client (Inl ENetwork))"
    using no by (auto simp: same_within_def fence_client_def)
  note same = reads_within_allowlist [OF this]
  let ?ref = "Tag_ref \<lparr>nr_Registry = ''evil.example'', nr_Path = [], nr_Insecure = False\<rparr> []"
  have "cl_Get (fence_client (Inl EDeadline)) ?ref \<noteq> cl_Get (fence_client (Inl ENetwork)) ?ref" by (simp add: fence_client_def)
  then have "cl_Get (fence_client (Inl EDeadline)) \<noteq> cl_Get (fence_client (Inl ENetwork))" by metis
  with same [of "''evil.example/x''" "''v1''"] show ?thesis by blast
qed

text \<open>A drive letter never names a registry: such a source is a file or an error, whatever the network says.\<close>

lemma drive_is_local:
  assumes "hasDriveDesignator source"
  shows "readRetrieverSource S fs C r source = (case fs source of Some answer \<Rightarrow> answer | None \<Rightarrow> Inl (EOther ''retriever file does not exist''))"
proof -
  obtain c rest where "source = c # CHR '':'' # rest" using assms by (auto simp: hasDriveDesignator_def split: list.splits)
  then show ?thesis using assms by (auto simp: readRetrieverSource_def split: option.splits)
qed

subsection \<open>Credentials follow the host\<close>

text \<open>What an entry of the file says: its token, and the user and password in front of and behind the first colon of the decoded
  \<^verbatim>\<open>auth\<close>, or in their own fields when there is no \<^verbatim>\<open>auth\<close> or no colon in it.\<close>

definition states :: "(string \<Rightarrow> string option) \<Rightarrow> authEntry \<Rightarrow> AuthConfig \<Rightarrow> bool" where
  "states b64 a cfg \<longleftrightarrow> ac_Token cfg = ae_Identity a
     \<and> (if \<exists>dec. ae_Auth a \<noteq> [] \<and> b64 (ae_Auth a) = Some dec \<and> CHR '':'' \<in> set dec
        then b64 (ae_Auth a) = Some (ac_User cfg @ CHR '':'' # ac_Pass cfg) \<and> CHR '':'' \<notin> set (ac_User cfg)
        else ac_User cfg = ae_Username a \<and> ac_Pass cfg = ae_Password a)"

lemma keychain_step:
  assumes "newDockerConfigKeychain b64 ((h, a) # es) kc = Inr kc'"
  obtains cfg where "newDockerConfigKeychain b64 es (map_put (keychain_host h) cfg kc) = Inr kc'" "states b64 a cfg"
proof (cases "ae_Auth a = [] \<or> (\<exists>dec. b64 (ae_Auth a) = Some dec \<and> index_byte CHR '':'' dec = None)")
  case True
  then have n: "\<not> (\<exists>dec. ae_Auth a \<noteq> [] \<and> b64 (ae_Auth a) = Some dec \<and> CHR '':'' \<in> set dec)" by (auto simp: index_byte_None)
  show ?thesis
    by (rule that [of "\<lparr>ac_User = ae_Username a, ac_Pass = ae_Password a, ac_Token = ae_Identity a\<rparr>"])
      (use assms True n in \<open>auto simp: Let_def states_def split: if_splits\<close>)
next
  case False
  then obtain dec i where d: "ae_Auth a \<noteq> []" "b64 (ae_Auth a) = Some dec" "index_byte CHR '':'' dec = Some i"
    using assms by (auto simp: Let_def split: option.splits)
  then have "dec = take i dec @ CHR '':'' # drop (Suc i) dec" "CHR '':'' \<notin> set (take i dec)" by (auto elim!: index_byte_SomeE)
  then have "states b64 a \<lparr>ac_User = take i dec, ac_Pass = drop (Suc i) dec, ac_Token = ae_Identity a\<rparr>"
    using d by (auto simp: states_def)
  with that assms d show ?thesis by (simp add: Let_def)
qed

lemma keychain_origin:
  "newDockerConfigKeychain b64 es kc = Inr kc' \<Longrightarrow> map_of kc' host = Some cfg \<Longrightarrow>
     map_of kc host = Some cfg \<or> (\<exists>(h, a) \<in> set es. keychain_host h = host \<and> states b64 a cfg)"
proof (induction es arbitrary: kc)
  case (Cons e es)
  obtain h a where e: "e = (h, a)" by fastforce
  obtain z where z: "newDockerConfigKeychain b64 es (map_put (keychain_host h) z kc) = Inr kc'" "states b64 a z"
    using keychain_step Cons.prems(1) unfolding e by blast
  from Cons.IH [OF z(1) Cons.prems(2)] e z(2) show ?case by (auto simp: map_of_put split: if_splits)
qed simp

lemma keychain_covers:
  "newDockerConfigKeychain b64 es kc = Inr kc' \<Longrightarrow> map_of kc host \<noteq> None \<or> (\<exists>(h, a) \<in> set es. keychain_host h = host) \<Longrightarrow> map_of kc' host \<noteq> None"
proof (induction es arbitrary: kc)
  case (Cons e es)
  obtain h a where e: "e = (h, a)" by fastforce
  obtain z where z: "newDockerConfigKeychain b64 es (map_put (keychain_host h) z kc) = Inr kc'"
    using keychain_step Cons.prems(1) unfolding e by blast
  show ?case by (rule Cons.IH [OF z]) (use Cons.prems(2) e in \<open>auto simp: map_of_put\<close>)
qed simp

text \<open>C30: A registry is offered only what was declared for it. What the keychain of the instance yields for the host actually
  contacted is what an entry of the credentials file states whose key names that host (Docker Hub's two names being
  one); or, when the file names that host nowhere or there is no file, what the user's own keychain yields for it.\<close>

theorem credentials_follow_host:
  assumes "keychainFor b64 parse read fallback credentialsFile = Inr kc" "kc registry = Some cfg"
  shows "(\<exists>raw entries h a. credentialsFile \<noteq> [] \<and> read credentialsFile = Inr raw \<and> parse raw = Some entries \<and> (h, a) \<in> set entries
      \<and> (keychain_host h = registry \<or> registry = ''index.docker.io'' \<and> keychain_host h = ''docker.io'') \<and> states b64 a cfg)
    \<or> fallback registry = Some cfg
      \<and> (credentialsFile = [] \<or> (\<exists>raw entries. read credentialsFile = Inr raw \<and> parse raw = Some entries \<and> (\<forall>(h, a) \<in> set entries. keychain_host h \<noteq> registry)))"
proof (cases "credentialsFile = []")
  case False
  then obtain raw entries ks where f: "read credentialsFile = Inr raw" "parse raw = Some entries" "newDockerConfigKeychain b64 entries [] = Inr ks"
    and kc: "kc = (\<lambda>registry. case Resolve_keychain ks registry of Some cfg \<Rightarrow> Some cfg | None \<Rightarrow> fallback registry)"
    using assms(1) by (auto simp: keychainFor_def split: sum.splits option.splits)
  show ?thesis
  proof (cases "Resolve_keychain ks registry")
    case None
    then have "map_of ks registry = None" by (auto simp: Resolve_keychain_def split: option.splits)
    then have "\<forall>(h, a) \<in> set entries. keychain_host h \<noteq> registry" using keychain_covers [OF f(3), of registry] by auto
    moreover have "fallback registry = Some cfg" using assms(2) kc None by simp
    ultimately show ?thesis using f(1,2) by blast
  next
    case (Some c)
    then have "map_of ks registry = Some cfg \<or> registry = ''index.docker.io'' \<and> map_of ks ''docker.io'' = Some cfg"
      using assms(2) kc by (auto simp: Resolve_keychain_def split: option.splits if_splits)
    then obtain h a where "(h, a) \<in> set entries" "keychain_host h = registry \<or> registry = ''index.docker.io'' \<and> keychain_host h = ''docker.io''" "states b64 a cfg"
      using keychain_origin [OF f(3)] by fastforce
    then show ?thesis using False f(1,2) by blast
  qed
qed (use assms in \<open>simp add: keychainFor_def\<close>)

text \<open>A file with an entry for Docker Hub and one for a private registry; \<open>dTpw\<close> decodes to \<open>u:p\<close>.\<close>

definition demo_entries :: "(string \<times> authEntry) list" where
  "demo_entries = [(''https://docker.io/v1/'', \<lparr>ae_Auth = ''dTpw'', ae_Username = [], ae_Password = [], ae_Identity = []\<rparr>),
     (''r.example'', \<lparr>ae_Auth = [], ae_Username = ''v'', ae_Password = ''q'', ae_Identity = []\<rparr>)]"

definition demo_b64 :: "string \<Rightarrow> string option" where
  "demo_b64 x = (if x = ''dTpw'' then Some ''u:p'' else None)"

theorem credentials_follow_host_witness:
  "\<exists>kc cfg. keychainFor demo_b64 (\<lambda>_. Some demo_entries) (\<lambda>_. Inr []) (\<lambda>_. None) ''f'' = Inr kc \<and> kc ''index.docker.io'' = Some cfg
     \<and> ac_User cfg = ''u'' \<and> (\<exists>h a. (h, a) \<in> set demo_entries \<and> keychain_host h = ''docker.io'' \<and> states demo_b64 a cfg)"
proof -
  let ?K = "keychainFor demo_b64 (\<lambda>_. Some demo_entries) (\<lambda>_. Inr []) (\<lambda>_. None) ''f''"
  have "case ?K of Inl _ \<Rightarrow> False | Inr kc \<Rightarrow> map_option ac_User (kc ''index.docker.io'') = Some ''u''" by code_simp
  then obtain kc cfg where kc: "?K = Inr kc" "kc ''index.docker.io'' = Some cfg" "ac_User cfg = ''u''" by (auto split: sum.splits)
  have h: "keychain_host ''https://docker.io/v1/'' = ''docker.io''" "keychain_host ''r.example'' = ''r.example''" by code_simp+
  from credentials_follow_host [OF kc(1,2)] have "\<exists>h a. (h, a) \<in> set demo_entries \<and> keychain_host h = ''docker.io'' \<and> states demo_b64 a cfg"
    using h by (auto simp: demo_entries_def)
  with kc show ?thesis by blast
qed

subsection \<open>The cascade\<close>

lemma load_subs_get:
  "load_subs subs m = Inr m' \<Longrightarrow> Host h = Inr c \<Longrightarrow> \<forall>(h', v') \<in> set subs. Host h' = Inr c \<longrightarrow> v' = v \<Longrightarrow>
     (h, v) \<in> set subs \<or> map_of m c = Some (trim_by (\<lambda>c. c = CHR ''/'') v) \<Longrightarrow> map_of m' c = Some (trim_by (\<lambda>c. c = CHR ''/'') v)"
  by (induction subs m rule: load_subs.induct) (auto simp: bind_r_Inr_iff map_of_put)

text \<open>C29: An instance that substitutes a registry by an upstream instance reads every artifact of it exactly where
  the upstream stores it, whatever spelling of the registry the reference and the configuration use.\<close>

theorem cascade_reads_where_stored:
  assumes "NewRemotes substitutions insecure allow credentials = Inr r"
    and "(h, upstream @ (if base = [] then [] else ''/'' @ base)) \<in> set substitutions"
    and "\<forall>(h', v') \<in> set substitutions. Host h' = Host h \<longrightarrow> v' = upstream @ (if base = [] then [] else ''/'' @ base)"
    and "trim_by (\<lambda>c. c = CHR ''/'') (upstream @ (if base = [] then [] else ''/'' @ base)) = upstream @ (if base = [] then [] else ''/'' @ base)"
    and "trim_by (\<lambda>c. c = CHR ''/'') base = base"
    and "Host (host_part CHR ''/'' ref) = Host h" and "PathWithBase base ref = Inr stored"
  shows "Effective r ref = Inr (upstream @ ''/'' @ stored)"
proof -
  obtain p where p: "Path ref = Inr p" "stored = (if base = [] then p else base @ ''/'' @ p)"
    using assms(5,7) by (auto simp: PathWithBase_def bind_r_Inr_iff Let_def split: if_splits)
  obtain g host repo where s: "ref = g @ CHR ''/'' # repo" "p = host @ CHR ''/'' # repo" "CHR ''/'' \<notin> set g" "g \<noteq> []"
    "\<not> has_prefix g ''[''" "CHR ''@'' \<notin> set ref" "canonical_host g host" "host_recognizable (to_lower g)"
    using p(1) by (auto simp: Path_iff splitRef_canonical)
  have cut: "host_part CHR ''/'' (w @ CHR ''/'' # z) = w" if "CHR ''/'' \<notin> set w" for w z
    using that by (simp add: host_part_def takeWhile_append)
  have host: "host_part CHR ''/'' p = host" "host_part CHR ''/'' ref = g" using s canonical_host_slash cut by auto
  have "Host g = Inr (replace_byte CHR ''_'' CHR '':'' host)" using Host_iff [OF s(3)] s by auto
  then have c: "Host h = Inr (replace_byte CHR ''_'' CHR '':'' host)" using assms(6) host(2) by simp
  obtain m where m: "load_subs substitutions [] = Inr m" "rm_subs r = m" using assms(1) by (auto simp: NewRemotes_def bind_r_Inr_iff split: sum.splits)
  have "map_of m (replace_byte CHR ''_'' CHR '':'' host) = Some (upstream @ (if base = [] then [] else ''/'' @ base))"
    using load_subs_get [OF m(1) c] assms(2-4) c by simp
  then show ?thesis using p host(1) m(2) by (simp add: Effective_def)
qed

theorem cascade_reads_where_stored_witness:
  "\<exists>r. NewRemotes [(''Registry-1.docker.io'', ''up.example:5000/cache'')] [] None (Inr (\<lambda>_. None)) = Inr r
     \<and> Effective r ''docker.io/library/redis'' = Inr ''up.example:5000/cache/docker.io/library/redis''"
proof -
  have h: "Host ''Registry-1.docker.io'' = Inr ''docker.io''" "Host (host_part CHR ''/'' ''docker.io/library/redis'') = Inr ''docker.io''" by code_simp+
  have q: "PathWithBase ''cache'' ''docker.io/library/redis'' = Inr ''cache/docker.io/library/redis''" by code_simp
  obtain r where r: "NewRemotes [(''Registry-1.docker.io'', ''up.example:5000/cache'')] [] None (Inr (\<lambda>_. None)) = Inr r" using h(1) by (simp add: NewRemotes_def)
  have "Effective r ''docker.io/library/redis'' = Inr (''up.example:5000'' @ ''/'' @ ''cache/docker.io/library/redis'')"
    by (rule cascade_reads_where_stored [OF r, where h = "''Registry-1.docker.io''" and base = "''cache''"]) (use h q in \<open>simp_all add: trim_by_def\<close>)
  with r show ?thesis by simp
qed

end
