(* ===== verification/Sync.thy ===== *)
theory Sync
  imports Remotes Prune
begin

text \<open>
  One synchronization, \<^verbatim>\<open>engine/sync.go\<close>: every Retriever entry is resolved, its recipe verified before its document
  is read, its ingredients fetched by digest, the recipe artifact stored and the recipe graph recorded;
  then pruning and the media manifest.

  The state is the store, the task of the run, what the run resolved, and the number of steps taken so far:
  the network answers at instant \<open>n\<close> are the client \<open>se_world n\<close>, and every step of a run (a listing, a
  fetch, a verification, an attempt) moves on to the next instant. Ingredients run one after another, which is the schedule of \<^verbatim>\<open>parallelism: 1\<close>. Progress rows,
  meters and log lines are left out; promotion and the pre-flight gate are parameters here.
\<close>

subsection \<open>Platforms\<close>

text \<open>\<^verbatim>\<open>importer/inspect.go\<close>\<close>

definition MatchesPlatform :: "string \<Rightarrow> platform \<Rightarrow> bool" where
  "MatchesPlatform selector pf =
     (case pf of (os, arch, variant) \<Rightarrow>
      let want = split_on CHR ''/'' selector in
      if length want < 2 \<or> length want > 3 then False
      else if want ! 0 \<noteq> os \<or> want ! 1 \<noteq> arch then False
      else length want = 2 \<or> want ! 2 = variant)"

definition platformLabel :: "platform \<Rightarrow> string" where
  "platformLabel pf = (case pf of (os, arch, variant) \<Rightarrow> os @ ''/'' @ arch @ (if variant \<noteq> [] then ''/'' @ variant else []))"

fun join_comma :: "string list \<Rightarrow> string" where
  "join_comma [] = []"
| "join_comma [x] = x"
| "join_comma (x # y # ys) = x @ '', '' @ join_comma (y # ys)"

definition platformList :: "string list \<Rightarrow> string" where
  "platformList available = (if available = [] then ''no platform-tagged child at all'' else join_comma available)"

text \<open>\<open>None\<close> is every child.\<close>

definition selectPlatforms :: "descriptor \<Rightarrow> SpecIngredient \<Rightarrow> eng_error + string set option" where
  "selectPlatforms desc ing =
     (if in_Platforms ing = [] then Inr None
      else bind_r (de_ImageIndex desc) (\<lambda>idx.
           bind_r (ix_manifest idx) (\<lambda>kids.
             let tagged = filter (\<lambda>k. kid_platform k \<noteq> None) kids;
                 available = map (\<lambda>k. platformLabel (the (kid_platform k))) tagged;
                 selected = set (map kid_digest (filter (\<lambda>k. list_ex (\<lambda>want. MatchesPlatform want (the (kid_platform k))) (in_Platforms ing)) tagged));
                 missing = filter (\<lambda>want. \<not> list_ex (\<lambda>k. MatchesPlatform want (the (kid_platform k))) tagged) (in_Platforms ing)
             in if missing \<noteq> [] then
                  Inl (ETax CodePlatformMissing [(''reference'', in_Ref ing), (''platforms'', join_comma (sort missing)),
                         (''available'', platformList (sort available))])
                else Inr (Some selected))))"

definition artifactTypeOf :: "sdk \<Rightarrow> string \<Rightarrow> string" where
  "artifactTypeOf S manifest =
     (case sk_manifest S manifest of
        None \<Rightarrow> []
      | Some man \<Rightarrow> if am_ArtifactType man \<noteq> [] then am_ArtifactType man else am_ConfigMediaType man)"

subsection \<open>Retries\<close>

text \<open>Refusals that no retry can change: a file-size ceiling, and every error of the taxonomy that is not operational.\<close>

definition permanent :: "eng_error \<Rightarrow> bool" where
  "permanent e =
     (case e of
        EFileTooLarge _ \<Rightarrow> True
      | ETax c _ \<Rightarrow> class_of c \<noteq> ClassOperational
      | _ \<Rightarrow> False)"

text \<open>\<open>cancelled\<close> tells, of the state after an attempt, whether the context ends during the wait.\<close>

function withRetries :: "('a \<Rightarrow> bool) \<Rightarrow> int \<Rightarrow> ('a \<Rightarrow> 'a \<times> eng_error option) \<Rightarrow> nat \<Rightarrow> 'a \<Rightarrow> 'a \<times> eng_error option" where
  "withRetries cancelled retries fn attempt s =
     (case fn s of
        (s, None) \<Rightarrow> (s, None)
      | (s, Some e) \<Rightarrow>
          if int attempt \<ge> retries \<or> permanent e \<or> cancelled s then (s, Some e)
          else withRetries cancelled retries fn (Suc attempt) s)"
  by pat_completeness auto
termination
  by (relation "measure (\<lambda>(_, retries, _, attempt, _). nat (retries - int attempt))") auto

declare withRetries.simps [simp del]

subsection \<open>Engine and state\<close>

record 's MetaStore =
  me_Store :: "'s dst_store"
  me_SetProvenance :: "string \<Rightarrow> Provenance \<Rightarrow> 's \<Rightarrow> 's \<times> eng_error option"
  me_PutRecipeRecord :: "RecipeRecord \<Rightarrow> 's \<Rightarrow> 's \<times> eng_error option"

record 's sync_engine =
  se_store :: "'s MetaStore"
  se_remotes :: Remotes
  se_trust :: TrustPolicy
  se_source :: string
  se_base :: string
  se_retries :: int
  se_sdk :: sdk
  se_codec :: codec
  se_world :: "nat \<Rightarrow> reg_client"
  se_open :: "nat \<Rightarrow> repository \<Rightarrow> opener"
  se_cancelled :: "nat \<Rightarrow> bool"
  se_now :: "nat \<Rightarrow> time"
  se_files :: "string \<Rightarrow> (eng_error + string) option"
  se_digestOK :: "string \<Rightarrow> bool"
  se_isIndex :: "string \<Rightarrow> bool"
  se_indexDigests :: "string \<Rightarrow> string list option"
  se_marshalIndex :: "(string \<times> int \<times> string \<times> string) list \<Rightarrow> eng_error + string"
  se_fault :: "string \<Rightarrow> eng_error"
  se_reason :: "(string \<times> sig_reason) list \<Rightarrow> string"
  se_text :: "eng_error \<Rightarrow> string"
  se_tooLarge :: params
  se_OCIArtifact :: string
  se_HelmChart :: string
  se_OCIImageIndex :: string
  se_VerifyChart :: "src_image \<Rightarrow> ChartDependency list \<times> eng_error option"
  se_preflight :: "'s \<Rightarrow> (code \<times> params) option"
  se_promote :: "nat \<Rightarrow> FetchedRecipe \<Rightarrow> string \<Rightarrow> 's \<times> Task \<Rightarrow> 's \<times> Task"
  se_pruner :: "'s Pruner"
  se_media :: "(string \<Rightarrow> string \<Rightarrow> time \<Rightarrow> 's \<Rightarrow> 's \<times> eng_error option) option"

abbreviation se_dst :: "'s sync_engine \<Rightarrow> 's dst_store" where "se_dst E \<equiv> me_Store (se_store E)"

record 's sync_state =
  st_store :: 's
  st_task :: Task
  st_resolved :: resolvedRecipes
  st_tick :: nat

definition tick :: "'s sync_state \<Rightarrow> 's sync_state" where
  "tick st = st\<lparr>st_tick := Suc (st_tick st)\<rparr>"

definition now_client :: "'s sync_engine \<Rightarrow> 's sync_state \<Rightarrow> reg_client" where
  "now_client E st = se_world E (st_tick st)"

subsection \<open>Task items\<close>

definition new_item :: "string \<Rightarrow> Item" where
  "new_item name = \<lparr>it_Name = name, it_Digest = [], it_SizeBytes = 0, it_Status = StatusPending, it_Error = None, it_Blobs = []\<rparr>"

text \<open>\<open>itemFor\<close> hands out a pointer to the item, found or appended; here it takes what the caller does to it.\<close>

fun itemFor :: "string \<Rightarrow> (Item \<Rightarrow> Item) \<Rightarrow> Item list \<Rightarrow> Item list" where
  "itemFor name f [] = [f (new_item name)]"
| "itemFor name f (i # rest) = (if it_Name i = name then f i # rest else i # itemFor name f rest)"

definition on_item :: "string \<Rightarrow> (Item \<Rightarrow> Item) \<Rightarrow> 's sync_state \<Rightarrow> 's sync_state" where
  "on_item name f st = st\<lparr>st_task := (st_task st)\<lparr>tk_Items := itemFor name f (tk_Items (st_task st))\<rparr>\<rparr>"

definition item_settled :: "string \<Rightarrow> 's sync_state \<Rightarrow> bool" where
  "item_settled name st =
     (case find (\<lambda>i. it_Name i = name) (tk_Items (st_task st)) of
        None \<Rightarrow> False
      | Some i \<Rightarrow> it_Status i = StatusDone \<or> it_Status i = StatusSkipped)"

definition add_resolution :: "Resolution \<Rightarrow> 's sync_state \<Rightarrow> 's sync_state" where
  "add_resolution r st = st\<lparr>st_task := (st_task st)\<lparr>tk_Resolutions := tk_Resolutions (st_task st) @ [r]\<rparr>\<rparr>"

definition mapError :: "'s sync_engine \<Rightarrow> eng_error \<Rightarrow> string \<Rightarrow> code \<times> params" where
  "mapError E e subject = (case e of EFileTooLarge _ \<Rightarrow> (CodeFileTooLarge, se_tooLarge E) | _ \<Rightarrow> mapEngineError e subject)"

definition item_error :: "'s sync_engine \<Rightarrow> eng_error \<Rightarrow> string \<Rightarrow> ItemError" where
  "item_error E e subject =
     \<lparr>ie_Code = fst (mapError E e subject), ie_Params = snd (mapError E e subject),
      ie_Detail = (case e of ETax _ _ \<Rightarrow> [] | _ \<Rightarrow> se_text E e)\<rparr>"

text \<open>The failure of an item makes the run incomplete.\<close>

definition fail_item :: "'s sync_engine \<Rightarrow> string \<Rightarrow> eng_error \<Rightarrow> string \<Rightarrow> 's sync_state \<Rightarrow> 's sync_state" where
  "fail_item E name e subject st =
     on_item name (\<lambda>i. i\<lparr>it_Status := StatusFailed, it_Error := Some (item_error E e subject)\<rparr>)
       (st\<lparr>st_resolved := failed_recipe (st_resolved st)\<rparr>)"

subsection \<open>Artifacts and signatures\<close>

definition copy_artifact :: "'s sync_engine \<Rightarrow> reg_client \<Rightarrow> string \<Rightarrow> string \<Rightarrow> string \<Rightarrow> string \<Rightarrow> string \<Rightarrow> 's \<Rightarrow> 's \<times> eng_error option" where
  "copy_artifact E C nominalRepo localRepo tag payload mt s =
     copyArtifact (se_dst E) (se_digestOK E) (\<lambda>p. map_option (\<lambda>m. (am_ConfigDigest m, am_Layers m)) (sk_manifest (se_sdk E) p))
       (case Repository C (se_remotes E) nominalRepo of
          Inl e \<Rightarrow> Inl e
        | Inr (repo, _) \<Rightarrow> Inr (bounded_blob C (sk_MaxDocumentBytes (se_sdk E)) repo))
       localRepo tag payload mt s"

fun copy_referrers :: "'s sync_engine \<Rightarrow> reg_client \<Rightarrow> string \<Rightarrow> string \<Rightarrow> string list \<Rightarrow> string set \<Rightarrow> 's \<Rightarrow> 's \<times> (string \<times> int \<times> string \<times> string) list" where
  "copy_referrers E C nominalRepo localRepo [] seen s = (s, [])"
| "copy_referrers E C nominalRepo localRepo (d # ds) seen s =
     (if d = [] \<or> d \<in> seen then copy_referrers E C nominalRepo localRepo ds seen s
      else case Get_desc C (se_remotes E) nominalRepo d of
        Inl _ \<Rightarrow> copy_referrers E C nominalRepo localRepo ds (insert d seen) s
      | Inr desc \<Rightarrow>
          (case copy_artifact E C nominalRepo localRepo [] (de_Manifest desc) (de_MediaType desc) s of
             (s, Some _) \<Rightarrow> copy_referrers E C nominalRepo localRepo ds (insert d seen) s
           | (s, None) \<Rightarrow>
               (case copy_referrers E C nominalRepo localRepo ds (insert d seen) s of
                  (s, copied) \<Rightarrow> (s, (de_MediaType desc, de_Size desc, de_Digest desc, artifactTypeOf (se_sdk E) (de_Manifest desc)) # copied))))"

definition copyReferringSignatures :: "'s sync_engine \<Rightarrow> reg_client \<Rightarrow> string \<Rightarrow> string \<Rightarrow> string \<Rightarrow> 's \<Rightarrow> 's" where
  "copyReferringSignatures E C nominalRepo localRepo manifestDigest s =
     (let listed = fst (Referrers C (se_remotes E) nominalRepo manifestDigest);
          fallbackTag = ''sha256-'' @ trim_prefix ''sha256:'' manifestDigest;
          fallback = (case Get_desc C (se_remotes E) nominalRepo fallbackTag of
                        Inl _ \<Rightarrow> []
                      | Inr desc \<Rightarrow> (case se_indexDigests E (de_Manifest desc) of None \<Rightarrow> [] | Some ds \<Rightarrow> ds))
      in case copy_referrers E C nominalRepo localRepo (listed @ fallback) {} s of
           (s, copied) \<Rightarrow>
             if copied = [] then s
             else (case se_marshalIndex E copied of
                     Inl _ \<Rightarrow> s
                   | Inr idx \<Rightarrow> fst (ds_PutManifest (se_dst E) localRepo (se_OCIImageIndex E) idx fallbackTag s)))"

definition copyAttachedSignature :: "'s sync_engine \<Rightarrow> reg_client \<Rightarrow> string \<Rightarrow> string \<Rightarrow> string \<Rightarrow> 's \<Rightarrow> 's" where
  "copyAttachedSignature E C nominalRepo localRepo manifestDigest s =
     (let tag = SignatureTag manifestDigest;
          s = (case Get_desc C (se_remotes E) nominalRepo tag of
                 Inl _ \<Rightarrow> s
               | Inr desc \<Rightarrow> fst (copy_artifact E C nominalRepo localRepo tag (de_Manifest desc) (de_MediaType desc) s))
      in copyReferringSignatures E C nominalRepo localRepo manifestDigest s)"

definition recipe_provenance :: "string \<Rightarrow> string \<Rightarrow> string \<Rightarrow> Provenance" where
  "recipe_provenance name version runID =
     \<lparr>pv_Class = ProvenanceRecipe, pv_Origin = [], pv_Recipe = name, pv_RecipeVersion = version, pv_RunID = runID, pv_RecordedAt = 0\<rparr>"

definition storeRecipeArtifact :: "'s sync_engine \<Rightarrow> reg_client \<Rightarrow> FetchedRecipe \<Rightarrow> SpecRecipe \<Rightarrow> 's \<Rightarrow> 's \<times> (eng_error + string)" where
  "storeRecipeArtifact E C f recipe s =
     (case PathWithBase (se_base E) (fr_NominalRepo f) of
        Inl e \<Rightarrow> (s, Inl (ERef e))
      | Inr local \<Rightarrow>
          if ds_ResolveTag (se_dst E) s local (fr_Tag f) = Some (fr_ManifestDigest f) then (s, Inr ''up-to-date'')
          else (case copy_artifact E C (fr_NominalRepo f) local (fr_Tag f) (fr_ManifestBytes f) (fr_MediaType f) s of
                  (s, Some e) \<Rightarrow> (s, Inl e)
                | (s, None) \<Rightarrow>
                    (let s = copyAttachedSignature E C (fr_NominalRepo f) local (fr_ManifestDigest f) s in
                     case me_SetProvenance (se_store E) local (recipe_provenance (re_Name recipe) (re_Version recipe) []) s of
                       (s, Some e) \<Rightarrow> (s, Inl e)
                     | (s, None) \<Rightarrow> (s, Inr ''new''))))"

subsection \<open>Ingredients\<close>

definition ingredientRecord :: "'s sync_engine \<Rightarrow> SpecIngredient \<Rightarrow> IngredientRecord" where
  "ingredientRecord E ing =
     \<lparr>ir_Name = in_Name ing, ir_Kind = in_Kind ing,
      ir_Repo = (case PathWithBase (se_base E) (in_Ref ing) of Inl _ \<Rightarrow> [] | Inr repo \<Rightarrow> repo),
      ir_Tag = in_Version ing, ir_Digest = in_Digest ing\<rparr>"

definition recordProvenance :: "'s sync_engine \<Rightarrow> string \<Rightarrow> string \<Rightarrow> 's sync_state \<Rightarrow> 's sync_state" where
  "recordProvenance E repo rid st =
     (let (name, version) = (case index_byte CHR ''@'' rid of None \<Rightarrow> (rid, []) | Some i \<Rightarrow> (take i rid, drop (Suc i) rid)) in
      st\<lparr>st_store := fst (me_SetProvenance (se_store E) repo (recipe_provenance name version (tk_RunID (st_task st))) (st_store st))\<rparr>)"

definition transferIngredient :: "'s sync_engine \<Rightarrow> SpecIngredient \<Rightarrow> string \<Rightarrow> 's sync_state \<Rightarrow> ('s sync_state \<times> int) \<times> eng_error option" where
  "transferIngredient E ing repo st =
     (let C = now_client E st; n = st_tick st; st = tick st in
      case Get_desc C (se_remotes E) (in_Ref ing) (in_Digest ing) of
        Inl e \<Rightarrow> ((st, 0), Some e)
      | Inr desc \<Rightarrow>
          (case Repository C (se_remotes E) (in_Ref ing) of
             Inl e \<Rightarrow> ((st, 0), Some e)
           | Inr (src, _) \<Rightarrow>
               (let bl = se_open E n src in
                if de_Digest desc \<noteq> in_Digest ing then
                  ((st, 0), Some (ETax CodeDigestMismatch [(''reference'', in_Ref ing), (''expected'', in_Digest ing), (''actual'', de_Digest desc)]))
                else if in_Kind ing = se_OCIArtifact E \<and> in_ArtifactType ing \<noteq> [] \<and> artifactTypeOf (se_sdk E) (de_Manifest desc) \<noteq> in_ArtifactType ing then
                  ((st, 0), Some (ETax CodeArtifactType [(''reference'', in_Ref ing), (''expected'', in_ArtifactType ing),
                     (''actual'', artifactTypeOf (se_sdk E) (de_Manifest desc))]))
                else if se_isIndex E (de_MediaType desc) then
                  (case selectPlatforms desc ing of
                     Inl e \<Rightarrow> ((st, 0), Some e)
                   | Inr selected \<Rightarrow>
                       (case copyIndexChildren (se_dst E) bl repo (in_Version ing) (de_MediaType desc) (de_ImageIndex desc) selected (st_store st) of
                          ((s, m), x) \<Rightarrow> ((st\<lparr>st_store := s\<rparr>, m), x)))
                else
                  (case de_Image desc of
                     Inl e \<Rightarrow> ((st, 0), Some e)
                   | Inr img \<Rightarrow>
                       (let (rows, x) = (if in_Kind ing = se_HelmChart E then se_VerifyChart E img else ([], None));
                            st = st\<lparr>st_task := (st_task st)\<lparr>tk_ChartDependencies := tk_ChartDependencies (st_task st) @ rows\<rparr>\<rparr>
                        in if x \<noteq> None then ((st, 0), x)
                           else (case copyImage (se_dst E) bl repo (in_Version ing) img (st_store st) of
                                   ((s, m), x) \<Rightarrow> ((st\<lparr>st_store := s\<rparr>, m), x)))))))"

text \<open>The closure handed to \<^verbatim>\<open>withRetries\<close>: one attempt, its bytes added up.\<close>

definition transfer_attempt :: "'s sync_engine \<Rightarrow> SpecIngredient \<Rightarrow> string \<Rightarrow> 's sync_state \<times> int \<Rightarrow> ('s sync_state \<times> int) \<times> eng_error option" where
  "transfer_attempt E ing repo sn =
     (case sn of (st, transferred) \<Rightarrow>
      case transferIngredient E ing repo st of ((st, m), x) \<Rightarrow> ((st, transferred + m), x))"

definition ingredient_resolution :: "string \<Rightarrow> SpecIngredient \<Rightarrow> Resolution" where
  "ingredient_resolution rid ing =
     \<lparr>rs_Recipe = rid, rs_Ingredient = in_Name ing, rs_Requested = in_Version ing, rs_Resolved = in_Version ing,
      rs_Digest = in_Digest ing, rs_Status = [], rs_Effective = [], rs_TrustScope = [], rs_Destination = [],
      rs_DestinationStatus = [], rs_PushedBytes = 0\<rparr>"

definition syncIngredient :: "'s sync_engine \<Rightarrow> SpecIngredient \<Rightarrow> string \<Rightarrow> 's sync_state \<Rightarrow> 's sync_state \<times> Resolution \<times> eng_error option" where
  "syncIngredient E ing rid st =
     (let repo = ir_Repo (ingredientRecord E ing); res = ingredient_resolution rid ing; itemName = rid @ ''/'' @ in_Name ing in
      case Effective (se_remotes E) (in_Ref ing) of
        Inl e \<Rightarrow> (st, res, Some e)
      | Inr eff \<Rightarrow>
          (let res = (if eff \<noteq> in_Ref ing then res\<lparr>rs_Effective := eff\<rparr> else res);
               held = ds_HasManifest (se_dst E) (st_store st) repo (in_Digest ing) in
           if held \<and> ds_ResolveTag (se_dst E) (st_store st) repo (in_Version ing) = Some (in_Digest ing) then
             (recordProvenance E repo rid (on_item itemName (\<lambda>i. i\<lparr>it_Status := StatusSkipped\<rparr>) st),
              res\<lparr>rs_Status := ''up-to-date''\<rparr>, None)
           else
             (let res = res\<lparr>rs_Status := (if held then ''outdated'' else ''new'')\<rparr> in
              case withRetries (\<lambda>(st, _). se_cancelled E (st_tick st)) (se_retries E) (transfer_attempt E ing repo) 0 (st, 0) of
                ((st, transferred), Some e) \<Rightarrow> (st, res, Some e)
              | ((st, transferred), None) \<Rightarrow>
                  (let s = copyAttachedSignature E (now_client E st) (in_Ref ing) repo (in_Digest ing) (st_store st);
                       st = recordProvenance E repo rid (tick st\<lparr>st_store := s\<rparr>);
                       st = on_item itemName (\<lambda>i. i\<lparr>it_Status := StatusDone, it_SizeBytes := transferred\<rparr>) st
                   in (st, res, None)))))"

subsection \<open>Recipes\<close>

definition no_record :: IngredientRecord where
  "no_record = \<lparr>ir_Name = [], ir_Kind = [], ir_Repo = [], ir_Tag = [], ir_Digest = []\<rparr>"

definition sync_one :: "'s sync_engine \<Rightarrow> string \<Rightarrow> SpecIngredient \<Rightarrow> 's sync_state \<Rightarrow> 's sync_state \<times> IngredientRecord" where
  "sync_one E rid ing st =
     (let itemName = rid @ ''/'' @ in_Name ing in
      if item_settled itemName st then (st, ingredientRecord E ing)
      else
        (let st = on_item itemName (\<lambda>i. i\<lparr>it_Status := StatusRunning, it_Digest := in_Digest ing\<rparr>) st in
         case syncIngredient E ing rid st of
           (st, res, None) \<Rightarrow> (add_resolution res st, ingredientRecord E ing)
         | (st, res, Some e) \<Rightarrow> (fail_item E itemName e (in_Ref ing) st, no_record)))"

fun sync_ingredients :: "'s sync_engine \<Rightarrow> string \<Rightarrow> SpecIngredient list \<Rightarrow> 's sync_state \<Rightarrow> 's sync_state \<times> IngredientRecord list" where
  "sync_ingredients E rid [] st = (st, [])"
| "sync_ingredients E rid (ing # ings) st =
     (case sync_one E rid ing st of
        (st, rec) \<Rightarrow> (case sync_ingredients E rid ings st of (st, recs) \<Rightarrow> (st, rec # recs)))"

definition admit_fault :: "'s sync_engine \<Rightarrow> admit_error \<Rightarrow> eng_error" where
  "admit_fault E a =
     (case a of
        SignatureError ErrNoSignature \<Rightarrow> ENoSignature
      | SignatureError (NoTrustedKeyError tried) \<Rightarrow> ENoTrustedKey (join_comma tried)
      | SignatureError (BadSignatureError rs) \<Rightarrow> EBadSignature (se_reason E rs)
      | SignatureError (ReadFailed _ _ (SrcFailed msg)) \<Rightarrow> se_fault E msg
      | SignatureError (ReadFailed _ _ NotFound) \<Rightarrow> EOther ''signature source''
      | SignatureError NoTrustRoots \<Rightarrow> EOther ''no trust roots''
      | SignatureError (BadSubjectDigest _) \<Rightarrow> EOther ''subject digest''
      | NoRootConfigured subject \<Rightarrow> ETax CodeSignature [(''recipe'', subject), (''fingerprints'', ''none '' @ [CHR 0xE2, CHR 0x80, CHR 0x94] @ '' no trust root is configured'')])"

text \<open>The end of an entry: the recipe artifact, promotion, the graph record and the key prune keeps.\<close>

definition recipe_record :: "'s sync_engine \<Rightarrow> FetchedRecipe \<Rightarrow> SpecRecipe \<Rightarrow> string \<Rightarrow> bool \<Rightarrow> string \<Rightarrow> IngredientRecord list \<Rightarrow> 's sync_state \<Rightarrow> RecipeRecord" where
  "recipe_record E f recipe zone verified scope records st =
     \<lparr>rr_Name = re_Name recipe, rr_Version = re_Version recipe, rr_CookbookRepo = fr_NominalRepo f,
      rr_ArtifactRepo = (case PathWithBase (se_base E) (fr_NominalRepo f) of Inl _ \<Rightarrow> [] | Inr repo \<Rightarrow> repo),
      rr_ArtifactTag = fr_Tag f, rr_Digest = fr_ManifestDigest f, rr_RunID = tk_RunID (st_task st), rr_Zone = zone,
      rr_ResolvedAt = se_now E (st_tick st), rr_Verified = verified, rr_TrustScope = scope,
      rr_Ingredients = filter (\<lambda>r. ir_Repo r \<noteq> []) records\<rparr>"

definition record_recipe :: "'s sync_engine \<Rightarrow> FetchedRecipe \<Rightarrow> SpecRecipe \<Rightarrow> string \<Rightarrow> string \<Rightarrow> string \<Rightarrow> bool \<Rightarrow> string \<Rightarrow> IngredientRecord list \<Rightarrow> 's sync_state \<Rightarrow> 's sync_state" where
  "record_recipe E f recipe subject rid zone verified scope records st =
     (let (s, t) = se_promote E (st_tick st) f rid (st_store st, st_task st);
          st = st\<lparr>st_store := s, st_task := t\<rparr>
      in case me_PutRecipeRecord (se_store E) (recipe_record E f recipe zone verified scope records st) (st_store st) of
           (s, Some e) \<Rightarrow> fail_item E rid e subject (st\<lparr>st_store := s\<rparr>)
         | (s, None) \<Rightarrow> st\<lparr>st_store := s, st_resolved := keep_recipe (re_Name recipe) (re_Version recipe) (st_resolved st)\<rparr>)"

definition finish_recipe :: "'s sync_engine \<Rightarrow> FetchedRecipe \<Rightarrow> SpecRecipe \<Rightarrow> string \<Rightarrow> string \<Rightarrow> string \<Rightarrow> bool \<Rightarrow> string \<Rightarrow> IngredientRecord list \<Rightarrow> 's sync_state \<Rightarrow> 's sync_state" where
  "finish_recipe E f recipe subject rid zone verified scope records st =
     (let itemName = rid @ ''/recipe'' in
      if item_settled itemName st then record_recipe E f recipe subject rid zone verified scope records st
      else
        (let st = on_item itemName (\<lambda>i. i\<lparr>it_Status := StatusRunning\<rparr>) st in
         case storeRecipeArtifact E (now_client E st) f recipe (st_store st) of
           (s, Inl e) \<Rightarrow> fail_item E itemName e rid (tick st\<lparr>st_store := s\<rparr>)
         | (s, Inr status) \<Rightarrow>
             record_recipe E f recipe subject rid zone verified scope records
               (on_item itemName (\<lambda>i. i\<lparr>it_Status := (if status = ''up-to-date'' then StatusSkipped else StatusDone), it_Digest := fr_ManifestDigest f\<rparr>)
                  (tick st\<lparr>st_store := s\<rparr>))))"

definition recipe_resolution :: "string \<Rightarrow> string \<Rightarrow> string \<Rightarrow> string \<Rightarrow> string \<Rightarrow> Resolution" where
  "recipe_resolution rid requested resolved dgst scope =
     \<lparr>rs_Recipe = rid, rs_Ingredient = [], rs_Requested = requested, rs_Resolved = resolved, rs_Digest = dgst, rs_Status = [],
      rs_Effective = [], rs_TrustScope = scope, rs_Destination = [], rs_DestinationStatus = [], rs_PushedBytes = 0\<rparr>"

definition syncRecipe :: "'s sync_engine \<Rightarrow> string \<Rightarrow> RecipeSelector \<Rightarrow> string \<Rightarrow> 's sync_state \<Rightarrow> 's sync_state" where
  "syncRecipe E cookbookRef entry zone st =
     (let name = sl_Name entry; fail = (\<lambda>itemName e st. fail_item E itemName e name st) in
      case Versions (now_client E st) (se_remotes E) cookbookRef name of
        Inl e \<Rightarrow> fail name e (tick st)
      | Inr versions \<Rightarrow>
      (case ResolveVersion (se_sdk E) (sl_Version entry) versions of
        Inl e \<Rightarrow> fail name e (tick st)
      | Inr tag \<Rightarrow>
      (let rid = name @ ''@'' @ tag; st = tick st in
       case FetchArtifact (se_sdk E) (now_client E st) (se_remotes E) cookbookRef name tag of
        Inl e \<Rightarrow> fail rid e (tick st)
      | Inr fetched \<Rightarrow>
      (let st = tick st in
       case nominalRepoOf cookbookRef name of
        Inl e \<Rightarrow> fail rid (ERef e) st
      | Inr trustRepo \<Rightarrow>
      (case verifyRecipe (se_codec E) (Manifests (now_client E st) (se_remotes E) (fr_NominalRepo fetched))
              (fr_NominalRepo fetched) (fr_Tag fetched) (fr_ManifestDigest fetched) (Decide (se_trust E) trustRepo) of
        (_, _, Some e) \<Rightarrow> fail rid (admit_fault E e) (tick st)
      | (verified, scope, None) \<Rightarrow>
      (let st = tick st in
       case LoadDocument (se_sdk E) (now_client E st) (se_remotes E) fetched name of
        Inl e \<Rightarrow> fail rid e (tick st)
      | Inr loaded \<Rightarrow>
      (case fr_Recipe loaded of
        None \<Rightarrow> tick st
      | Some recipe \<Rightarrow>
      (let st = add_resolution (recipe_resolution rid (sl_Version entry) tag (fr_ManifestDigest loaded) scope) (tick st) in
       case sync_ingredients E rid (re_Ingredients recipe) st of
        (st, records) \<Rightarrow> finish_recipe E loaded recipe name rid zone verified scope records st))))))))"

subsection \<open>The run\<close>

definition entry_cookbook :: "Retriever \<Rightarrow> RecipeSelector \<Rightarrow> string" where
  "entry_cookbook retr entry = (if sl_Cookbook entry = [] then rv_Cookbook retr else sl_Cookbook entry)"

fun sync_recipes :: "'s sync_engine \<Rightarrow> Retriever \<Rightarrow> RecipeSelector list \<Rightarrow> 's sync_state \<Rightarrow> 's sync_state" where
  "sync_recipes E retr [] st = st"
| "sync_recipes E retr (entry # entries) st =
     sync_recipes E retr entries (syncRecipe E (entry_cookbook retr entry) entry (rv_Name retr) st)"

definition prune_run :: "'s sync_engine \<Rightarrow> 's sync_state \<Rightarrow> 's sync_state" where
  "prune_run E st =
     (if tk_Prune (st_task st) then
        (case pruneToRetriever (se_pruner E) (se_base E) (st_resolved st) (st_store st) of
           (s, report) \<Rightarrow> st\<lparr>st_store := s, st_task := (case report of None \<Rightarrow> st_task st | Some p \<Rightarrow> (st_task st)\<lparr>tk_Pruned := p\<rparr>)\<rparr>)
      else st)"

definition run_sync :: "'s sync_engine \<Rightarrow> 's sync_state \<Rightarrow> 's sync_state \<times> (code \<times> params) option" where
  "run_sync E st =
     (case LoadRetriever (se_sdk E) (se_files E) (now_client E st) (se_remotes E) (se_source E) of
        Inl e \<Rightarrow> (tick st, Some (mapError E e (se_source E)))
      | Inr retr \<Rightarrow>
          (let st = tick st; resolvedAt = se_now E (st_tick st) in
           case se_preflight E (st_store st) of
             Some refusal \<Rightarrow> (st, Some refusal)
           | None \<Rightarrow>
               (let st = st\<lparr>st_task := (st_task st)\<lparr>tk_Resolutions := []\<rparr>, st_resolved := newResolvedRecipes\<rparr>;
                    st = prune_run E (sync_recipes E retr (rv_Recipes retr) st)
                in case se_media E of
                     None \<Rightarrow> (st, None)
                   | Some write \<Rightarrow>
                       (case write (rv_Name retr) (tk_RunID (st_task st)) resolvedAt (st_store st) of
                          (s, Some e) \<Rightarrow> (st\<lparr>st_store := s\<rparr>, Some (mapError E e (rv_Name retr)))
                        | (s, None) \<Rightarrow> (st\<lparr>st_store := s\<rparr>, None)))))"

end
