(* ===== verification/Sync_Results.thy ===== *)
theory Sync_Results
  imports Sync
begin

text \<open>
  What a synchronization guarantees: the store stays closed and only grows, an entry that is counted as resolved
  was admitted by the trust policy and delivered whole, and a recipe that was not admitted changes nothing.
\<close>

subsection \<open>What the engine relies on\<close>

definition same_content :: "'s dst_store \<Rightarrow> 's \<Rightarrow> 's \<Rightarrow> bool" where
  "same_content D s s' \<longleftrightarrow> ds_HasManifest D s' = ds_HasManifest D s \<and> ds_HasBlob D s' = ds_HasBlob D s \<and> ds_ResolveTag D s' = ds_ResolveTag D s"

text \<open>Ledger writes leave the content alone.\<close>

definition meta_quiet :: "'s MetaStore \<Rightarrow> bool" where
  "meta_quiet M \<longleftrightarrow> (\<forall>repo p s. same_content (me_Store M) s (fst (me_SetProvenance M repo p s)))
     \<and> (\<forall>r s. same_content (me_Store M) s (fst (me_PutRecipeRecord M r s)))"

text \<open>What a registry serves under a digest hashes to it and names its own blobs; the client checks the former.\<close>

definition coherent_desc :: "(string \<Rightarrow> string) \<Rightarrow> (string \<Rightarrow> string set) \<Rightarrow> descriptor \<Rightarrow> bool" where
  "coherent_desc dig needs desc \<longleftrightarrow>
     (\<forall>idx. de_ImageIndex desc = Inr idx \<longrightarrow> coherent_index dig needs idx \<and> (\<forall>p. ix_raw idx = Inr p \<longrightarrow> dig p = de_Digest desc))
     \<and> (\<forall>img. de_Image desc = Inr img \<longrightarrow> coherent_image dig needs img \<and> (\<forall>p. im_raw img = Inr p \<longrightarrow> dig p = de_Digest desc))"

definition faithful_world :: "'s sync_engine \<Rightarrow> (string \<Rightarrow> string) \<Rightarrow> (string \<Rightarrow> string set) \<Rightarrow> bool" where
  "faithful_world E dig needs \<longleftrightarrow>
     (\<forall>n ref desc. cl_Get (se_world E n) ref = Inr desc \<longrightarrow> coherent_desc dig needs desc)
     \<and> (\<forall>p m. sk_manifest (se_sdk E) p = Some m \<longrightarrow> needs (dig p) \<subseteq> set (am_ConfigDigest m # am_Layers m) - {[]})
     \<and> (\<forall>copied idx. se_marshalIndex E copied = Inr idx \<longrightarrow> needs (dig idx) = {})"

text \<open>Promotion may complete a sparse index and writes task items of its own.\<close>

definition promote_quiet :: "'s sync_engine \<Rightarrow> (string \<Rightarrow> string set) \<Rightarrow> bool" where
  "promote_quiet E needs \<longleftrightarrow> (\<forall>n f rid s t s' t'. se_promote E n f rid (s, t) = (s', t') \<longrightarrow>
     preserves (se_dst E) needs s s' \<and> tk_Prune t' = tk_Prune t
     \<and> (\<forall>name. \<not> has_prefix name ''push/'' \<longrightarrow> find (\<lambda>i. it_Name i = name) (tk_Items t') = find (\<lambda>i. it_Name i = name) (tk_Items t)))"

text \<open>The client computes the digest of a descriptor from the manifest bytes it received.\<close>

definition named_world :: "'s sync_engine \<Rightarrow> (string \<Rightarrow> string) \<Rightarrow> bool" where
  "named_world E dig \<longleftrightarrow> (\<forall>n ref desc. cl_Get (se_world E n) ref = Inr desc \<longrightarrow> dig (de_Manifest desc) = de_Digest desc)"

definition sound_engine :: "'s sync_engine \<Rightarrow> (string \<Rightarrow> string) \<Rightarrow> (string \<Rightarrow> string set) \<Rightarrow> bool" where
  "sound_engine E dig needs \<longleftrightarrow>
     lawful (se_dst E) dig \<and> meta_quiet (se_store E) \<and> faithful_world E dig needs \<and> promote_quiet E needs \<and> named_world E dig"

lemma sound_engineD:
  assumes "sound_engine E dig needs"
  shows "lawful (se_dst E) dig" "meta_quiet (se_store E)" "faithful_world E dig needs" "promote_quiet E needs" "named_world E dig"
  using assms by (simp_all add: sound_engine_def)

lemma same_content_preserves: "same_content D s s' \<Longrightarrow> preserves D needs s s'"
  by (simp add: same_content_def preserves_def grows_def blob_closed_def tags_held_def)

lemma meta_quiet_preserves:
  assumes "meta_quiet M"
  shows "preserves (me_Store M) needs s (fst (me_SetProvenance M repo p s))" "preserves (me_Store M) needs s (fst (me_PutRecipeRecord M r s))"
  using assms by (simp_all add: meta_quiet_def same_content_preserves)

subsection \<open>Artifacts and signatures\<close>

lemma copy_artifact_keeps:
  assumes "sound_engine E dig needs" "copy_artifact E C nominalRepo localRepo tag payload mt s = (s', x)"
  shows "preserves (se_dst E) needs s s'"
    "x = None \<Longrightarrow> ds_HasManifest (se_dst E) s' localRepo (dig payload) \<and> (tag \<noteq> [] \<longrightarrow> ds_ResolveTag (se_dst E) s' localRepo tag = Some (dig payload))"
proof -
  let ?parse = "\<lambda>p. map_option (\<lambda>m. (am_ConfigDigest m, am_Layers m)) (sk_manifest (se_sdk E) p)"
  have "needs (dig payload) \<subseteq> set (cfg # ls) - {[]}" if parsed: "?parse payload = Some (cfg, ls)" for cfg ls
  proof -
    obtain m where m: "sk_manifest (se_sdk E) payload = Some m" "cfg = am_ConfigDigest m" "ls = am_Layers m" using parsed by auto
    have "faithful_world E dig needs" using assms(1) by (rule sound_engineD)
    then have "needs (dig payload) \<subseteq> set (am_ConfigDigest m # am_Layers m) - {[]}" using m(1) unfolding faithful_world_def by blast
    with m show ?thesis by simp
  qed
  then have needs: "\<forall>cfg ls. ?parse payload = Some (cfg, ls) \<longrightarrow> needs (dig payload) \<subseteq> set (cfg # ls) - {[]}" by blast
  note k = copyArtifact_keeps [where needs = needs, OF sound_engineD(1) [OF assms(1)] needs assms(2) [unfolded copy_artifact_def]]
  show "preserves (se_dst E) needs s s'" by (rule k(1))
  show "x = None \<Longrightarrow> ds_HasManifest (se_dst E) s' localRepo (dig payload) \<and> (tag \<noteq> [] \<longrightarrow> ds_ResolveTag (se_dst E) s' localRepo tag = Some (dig payload))"
    by (rule k(2))
qed

lemma copy_referrers_keeps:
  assumes "sound_engine E dig needs"
  shows "copy_referrers E C nominalRepo localRepo ds seen s = (s', copied) \<Longrightarrow> preserves (se_dst E) needs s s'"
proof (induction ds arbitrary: seen s copied)
  case (Cons d ds)
  show ?case
  proof (cases "d = [] \<or> d \<in> seen")
    case False
    show ?thesis
    proof (cases "Get_desc C (se_remotes E) nominalRepo d")
      case (Inr desc)
      obtain s1 x where c: "copy_artifact E C nominalRepo localRepo [] (de_Manifest desc) (de_MediaType desc) s = (s1, x)" by fastforce
      obtain copied' where "copy_referrers E C nominalRepo localRepo ds (insert d seen) s1 = (s', copied')"
        using Cons.prems False Inr c by (auto split: option.splits prod.splits)
      from preserves_trans [OF copy_artifact_keeps(1) [OF assms c] Cons.IH [OF this]] show ?thesis .
    qed (use Cons False in auto)
  qed (use Cons in auto)
qed simp

lemma copyReferringSignatures_keeps:
  assumes "sound_engine E dig needs"
  shows "preserves (se_dst E) needs s (copyReferringSignatures E C nominalRepo localRepo d s)"
proof -
  let ?ds = "fst (Referrers C (se_remotes E) nominalRepo d) @ (case Get_desc C (se_remotes E) nominalRepo (''sha256-'' @ trim_prefix ''sha256:'' d) of
      Inl _ \<Rightarrow> [] | Inr desc \<Rightarrow> (case se_indexDigests E (de_Manifest desc) of None \<Rightarrow> [] | Some ds \<Rightarrow> ds))"
  obtain s1 copied where r: "copy_referrers E C nominalRepo localRepo ?ds {} s = (s1, copied)" by fastforce
  note k = copy_referrers_keeps [OF assms r]
  show ?thesis
  proof (cases "copied = [] \<or> (\<exists>e. se_marshalIndex E copied = Inl e)")
    case True
    then show ?thesis using r k by (auto simp: copyReferringSignatures_def Let_def)
  next
    case False
    then obtain idx where idx: "se_marshalIndex E copied = Inr idx" by (cases "se_marshalIndex E copied") auto
    obtain s2 y where p: "ds_PutManifest (se_dst E) localRepo (se_OCIImageIndex E) idx (''sha256-'' @ trim_prefix ''sha256:'' d) s1 = (s2, y)" by fastforce
    have "needs (dig idx) = {}" using sound_engineD(3) [OF assms] idx unfolding faithful_world_def by blast
    then have "preserves (se_dst E) needs s1 s2" by (intro put_preserves [OF sound_engineD(1) [OF assms] p]) simp
    then show ?thesis using preserves_trans [OF k] r False idx p by (simp add: copyReferringSignatures_def Let_def)
  qed
qed

lemma copyAttachedSignature_keeps:
  assumes "sound_engine E dig needs"
  shows "preserves (se_dst E) needs s (copyAttachedSignature E C nominalRepo localRepo d s)"
proof -
  let ?s = "case Get_desc C (se_remotes E) nominalRepo (SignatureTag d) of Inl _ \<Rightarrow> s
    | Inr desc \<Rightarrow> fst (copy_artifact E C nominalRepo localRepo (SignatureTag d) (de_Manifest desc) (de_MediaType desc) s)"
  have "preserves (se_dst E) needs s ?s" using copy_artifact_keeps(1) [OF assms prod.collapse [symmetric]] by (auto split: sum.splits)
  from preserves_trans [OF this copyReferringSignatures_keeps [OF assms]] show ?thesis
    by (simp add: copyAttachedSignature_def Let_def)
qed

text \<open>The artifact is in its local repository, under the digest that was fetched.\<close>

definition artifact_held :: "'s sync_engine \<Rightarrow> FetchedRecipe \<Rightarrow> 's \<Rightarrow> bool" where
  "artifact_held E f s \<longleftrightarrow> (\<exists>repo. PathWithBase (se_base E) (fr_NominalRepo f) = Inr repo \<and> ds_HasManifest (se_dst E) s repo (fr_ManifestDigest f))"

lemma artifact_held_grows: "preserves (se_dst E) needs s s' \<Longrightarrow> artifact_held E f s \<Longrightarrow> artifact_held E f s'"
  by (auto simp: artifact_held_def preserves_def grows_def)

lemma storeRecipeArtifact_keeps:
  assumes "sound_engine E dig needs" "storeRecipeArtifact E C f recipe s = (s', x)"
  shows "preserves (se_dst E) needs s s'"
    "x = Inr status \<Longrightarrow> tags_held (se_dst E) s \<Longrightarrow> fr_Tag f \<noteq> [] \<Longrightarrow> dig (fr_ManifestBytes f) = fr_ManifestDigest f \<Longrightarrow> artifact_held E f s'"
proof -
  have "preserves (se_dst E) needs s s' \<and> ((\<exists>status. x = Inr status) \<longrightarrow> tags_held (se_dst E) s \<longrightarrow> fr_Tag f \<noteq> [] \<longrightarrow>
      dig (fr_ManifestBytes f) = fr_ManifestDigest f \<longrightarrow> artifact_held E f s')"
  proof (cases "\<exists>local. PathWithBase (se_base E) (fr_NominalRepo f) = Inr local \<and> ds_ResolveTag (se_dst E) s local (fr_Tag f) \<noteq> Some (fr_ManifestDigest f)")
    case True
    then obtain local where l: "PathWithBase (se_base E) (fr_NominalRepo f) = Inr local" "ds_ResolveTag (se_dst E) s local (fr_Tag f) \<noteq> Some (fr_ManifestDigest f)" by blast
    obtain s1 y where c: "copy_artifact E C (fr_NominalRepo f) local (fr_Tag f) (fr_ManifestBytes f) (fr_MediaType f) s = (s1, y)" by fastforce
    let ?s2 = "copyAttachedSignature E C (fr_NominalRepo f) local (fr_ManifestDigest f) s1"
    let ?s3 = "fst (me_SetProvenance (se_store E) local (recipe_provenance (re_Name recipe) (re_Version recipe) []) ?s2)"
    have k: "preserves (se_dst E) needs s s1" "preserves (se_dst E) needs s1 ?s2" "preserves (se_dst E) needs ?s2 ?s3"
      using copy_artifact_keeps(1) [OF assms(1) c] copyAttachedSignature_keeps [OF assms(1)] meta_quiet_preserves(1) [OF sound_engineD(2) [OF assms(1)]] by auto
    have out: "s' = (if y = None then ?s3 else s1)" "y = None \<or> (\<exists>e. x = Inl e)"
      using assms(2) l c by (auto simp: storeRecipeArtifact_def Let_def split: option.splits prod.splits)
    have "artifact_held E f ?s3" if "y = None" "dig (fr_ManifestBytes f) = fr_ManifestDigest f"
    proof (rule artifact_held_grows [OF preserves_trans [OF k(2,3)]])
      show "artifact_held E f s1" using copy_artifact_keeps(2) [OF assms(1) c] l(1) that by (simp add: artifact_held_def)
    qed
    with preserves_trans [OF k(1) preserves_trans [OF k(2,3)]] k(1) out show ?thesis by auto
  next
    case False
    then have "s' = s" "\<forall>status. x = Inr status \<longrightarrow> (\<exists>local. PathWithBase (se_base E) (fr_NominalRepo f) = Inr local
        \<and> ds_ResolveTag (se_dst E) s local (fr_Tag f) = Some (fr_ManifestDigest f))"
      using assms(2) by (auto simp: storeRecipeArtifact_def split: sum.splits if_splits)
    then show ?thesis unfolding artifact_held_def tags_held_def by auto
  qed
  then show "preserves (se_dst E) needs s s'"
    "x = Inr status \<Longrightarrow> tags_held (se_dst E) s \<Longrightarrow> fr_Tag f \<noteq> [] \<Longrightarrow> dig (fr_ManifestBytes f) = fr_ManifestDigest f \<Longrightarrow> artifact_held E f s'" by blast+
qed

subsection \<open>Retries\<close>

lemma withRetries_keeps:
  assumes "\<And>s. R s s" "\<And>s t u. R s t \<Longrightarrow> R t u \<Longrightarrow> R s u" "\<And>s s' x. fn s = (s', x) \<Longrightarrow> R s s'"
  shows "withRetries cancelled retries fn attempt s = (s', x) \<Longrightarrow> R s s' \<and> (x = None \<longrightarrow> (\<exists>s0. R s s0 \<and> fn s0 = (s', None)))"
proof (induction "nat (retries - int attempt)" arbitrary: attempt s rule: less_induct)
  case less
  obtain s1 y where f: "fn s = (s1, y)" by fastforce
  note r1 = assms(3) [OF f]
  show ?case
  proof (cases "\<exists>e. y = Some e \<and> \<not> (int attempt \<ge> retries \<or> permanent e \<or> cancelled s1)")
    case True
    then have "withRetries cancelled retries fn (Suc attempt) s1 = (s', x)" "nat (retries - int (Suc attempt)) < nat (retries - int attempt)"
      using less.prems f by (auto simp: withRetries.simps [of cancelled retries fn attempt s])
    from less.hyps [OF this(2,1)] assms(2) [OF r1] show ?thesis by blast
  next
    case False
    then have "s' = s1 \<and> x = y" using less.prems f by (auto simp: withRetries.simps [of cancelled retries fn attempt s] split: option.splits if_splits)
    with r1 f assms(1) show ?thesis by auto
  qed
qed

subsection \<open>Items\<close>

lemma find_itemFor:
  assumes "\<And>i. it_Name (f i) = it_Name i"
  shows "find (\<lambda>i. it_Name i = n) (itemFor name f items) =
    (if n = name then Some (f (case find (\<lambda>i. it_Name i = name) items of Some i \<Rightarrow> i | None \<Rightarrow> new_item name)) else find (\<lambda>i. it_Name i = n) items)"
  using assms by (induction items) (auto simp: new_item_def)

lemma settled_on_item:
  assumes "\<And>i. it_Name (f i) = it_Name i" "n \<noteq> name"
  shows "item_settled n (on_item name f st) = item_settled n st"
  using find_itemFor [OF assms(1)] assms(2) by (simp add: item_settled_def on_item_def)

lemma on_item_fields [simp]:
  "tk_Prune (st_task (on_item name f st)) = tk_Prune (st_task st)" "st_store (on_item name f st) = st_store st" "st_resolved (on_item name f st) = st_resolved st" "st_tick (on_item name f st) = st_tick st"
  by (simp_all add: on_item_def)

lemma add_resolution_fields [simp]:
  "tk_Prune (st_task (add_resolution r st)) = tk_Prune (st_task st)" "st_store (add_resolution r st) = st_store st" "st_resolved (add_resolution r st) = st_resolved st" "item_settled n (add_resolution r st) = item_settled n st"
  by (simp_all add: add_resolution_def item_settled_def)

lemma tick_fields [simp]:
  "st_store (tick st) = st_store st" "st_resolved (tick st) = st_resolved st" "st_task (tick st) = st_task st" "item_settled n (tick st) = item_settled n st"
  by (simp_all add: tick_def item_settled_def)

lemma item_settled_store [simp]: "item_settled n (st\<lparr>st_store := s\<rparr>) = item_settled n st" "item_settled n (st\<lparr>st_resolved := r\<rparr>) = item_settled n st"
  "item_settled n (st\<lparr>st_tick := k\<rparr>) = item_settled n st"
  by (simp_all add: item_settled_def)

subsection \<open>Steps\<close>

text \<open>A step of the run: the store keeps what it held, an incomplete run stays incomplete, kept recipes stay kept,
  and only the items of \<open>T\<close> are touched.\<close>

definition moves :: "'s sync_engine \<Rightarrow> (string \<Rightarrow> string set) \<Rightarrow> (string \<Rightarrow> bool) \<Rightarrow> 's sync_state \<Rightarrow> 's sync_state \<Rightarrow> bool" where
  "moves E needs T st st' \<longleftrightarrow> preserves (se_dst E) needs (st_store st) (st_store st')
     \<and> (rs_complete (st_resolved st') \<longrightarrow> rs_complete (st_resolved st)) \<and> rs_keys (st_resolved st) \<subseteq> rs_keys (st_resolved st')
     \<and> tk_Prune (st_task st') = tk_Prune (st_task st) \<and> (\<forall>n. \<not> T n \<longrightarrow> item_settled n st' = item_settled n st)"

lemma moves_refl [simp]: "moves E needs T st st"
  by (simp add: moves_def)

lemma moves_trans: "moves E needs T st st1 \<Longrightarrow> moves E needs T st1 st2 \<Longrightarrow> moves E needs T st st2"
  by (auto simp: moves_def intro: preserves_trans)

lemma moves_weaken: "moves E needs T st st' \<Longrightarrow> (\<And>n. T n \<Longrightarrow> T' n) \<Longrightarrow> moves E needs T' st st'"
  by (auto simp: moves_def)

lemma moves_holds: "moves E needs T st st' \<Longrightarrow> ds_HasManifest (se_dst E) (st_store st) r m \<Longrightarrow> ds_HasManifest (se_dst E) (st_store st') r m"
  by (simp add: moves_def preserves_def grows_def)

lemma moves_tick: "moves E needs T st (tick st)"
  by (simp add: moves_def)

lemma moves_resolution: "moves E needs T st (add_resolution r st)"
  by (simp add: moves_def)

lemma moves_on_item: "(\<And>i. it_Name (f i) = it_Name i) \<Longrightarrow> T name \<Longrightarrow> moves E needs T st (on_item name f st)"
proof -
  assume a: "\<And>i. it_Name (f i) = it_Name i" "T name"
  have "item_settled n (on_item name f st) = item_settled n st" if "\<not> T n" for n
    by (rule settled_on_item) (use a that in auto)
  then show ?thesis by (simp add: moves_def)
qed

lemma moves_store: "preserves (se_dst E) needs (st_store st) s \<Longrightarrow> moves E needs T st (st\<lparr>st_store := s\<rparr>)"
  by (simp add: moves_def)

lemma moves_fail: "T name \<Longrightarrow> moves E needs T st (fail_item E name e subject st)"
proof -
  assume "T name"
  have "moves E needs T st (st\<lparr>st_resolved := failed_recipe (st_resolved st)\<rparr>)" by (simp add: moves_def failed_recipe_def)
  moreover have "moves E needs T (st\<lparr>st_resolved := failed_recipe (st_resolved st)\<rparr>) (fail_item E name e subject st)"
    unfolding fail_item_def by (rule moves_on_item) (simp_all add: \<open>T name\<close>)
  ultimately show ?thesis by (rule moves_trans)
qed

lemma fail_incomplete [simp]: "\<not> rs_complete (st_resolved (fail_item E name e subject st))"
  by (simp add: fail_item_def failed_recipe_def)

lemma moves_provenance:
  assumes "sound_engine E dig needs"
  shows "moves E needs T st (recordProvenance E repo rid st)"
  by (auto simp: recordProvenance_def intro!: moves_store meta_quiet_preserves(1) [OF sound_engineD(2) [OF assms]] split: prod.splits)

subsection \<open>Ingredients\<close>

lemma Get_faithful:
  assumes "faithful_world E dig needs" "Get_desc (se_world E n) r ref d = Inr desc"
  shows "coherent_desc dig needs desc"
proof -
  obtain repo eff where "cl_Get (se_world E n) (parseInRepo repo d) = Inr desc" using assms(2) by (auto simp: Get_desc_def bind_r_Inr_iff)
  with assms(1) show ?thesis unfolding faithful_world_def by blast
qed

lemma index_lands:
  assumes "sound_engine E dig needs" "coherent_desc dig needs desc" "de_Digest desc = d"
    and "copyIndexChildren (se_dst E) bl repo tag mt (de_ImageIndex desc) sel s = ((s', m), x)"
  shows "preserves (se_dst E) needs s s'" "x = None \<Longrightarrow> ds_HasManifest (se_dst E) s' repo d \<and> (tag \<noteq> [] \<longrightarrow> ds_ResolveTag (se_dst E) s' repo tag = Some d)"
proof -
  have "\<forall>idx. de_ImageIndex desc = Inr idx \<longrightarrow> coherent_index dig needs idx" using assms(2) by (simp add: coherent_desc_def)
  note k = copy_index_keeps [OF sound_engineD(1) [OF assms(1)] this assms(4)]
  show "preserves (se_dst E) needs s s'" using k by blast
  assume "x = None"
  with k obtain idx p where "de_ImageIndex desc = Inr idx" "ix_raw idx = Inr p" "ds_HasManifest (se_dst E) s' repo (dig p)"
    "tag \<noteq> [] \<longrightarrow> ds_ResolveTag (se_dst E) s' repo tag = Some (dig p)" by blast
  with assms(2,3) show "ds_HasManifest (se_dst E) s' repo d \<and> (tag \<noteq> [] \<longrightarrow> ds_ResolveTag (se_dst E) s' repo tag = Some d)" by (auto simp: coherent_desc_def)
qed

text \<open>The pinned digest is there, and the version names it.\<close>

definition pinned :: "'s sync_engine \<Rightarrow> SpecIngredient \<Rightarrow> string \<Rightarrow> 's \<Rightarrow> bool" where
  "pinned E ing repo s \<longleftrightarrow> ds_HasManifest (se_dst E) s repo (in_Digest ing)
     \<and> (in_Version ing \<noteq> [] \<longrightarrow> ds_ResolveTag (se_dst E) s repo (in_Version ing) = Some (in_Digest ing))"

lemma transferIngredient_keeps:
  assumes "sound_engine E dig needs" "transferIngredient E ing repo st = ((st', m), x)"
  shows "moves E needs T st st'" "x = None \<Longrightarrow> pinned E ing repo (st_store st')"
proof -
  have "moves E needs T st st' \<and> (x = None \<longrightarrow> pinned E ing repo (st_store st'))"
  proof (cases "Get_desc (now_client E st) (se_remotes E) (in_Ref ing) (in_Digest ing)")
    case (Inr desc)
    have co: "coherent_desc dig needs desc" using Get_faithful [OF sound_engineD(3) [OF assms(1)]] Inr by (simp add: now_client_def)
    show ?thesis
    proof (cases "Repository (now_client E st) (se_remotes E) (in_Ref ing)")
      case (Inr r)
      obtain src eff where r: "r = (src, eff)" by fastforce
      note open_simps = transferIngredient_def Let_def \<open>Get_desc _ _ _ _ = Inr desc\<close> Inr r
      show ?thesis
      proof (cases "de_Digest desc \<noteq> in_Digest ing \<or> in_Kind ing = se_OCIArtifact E \<and> in_ArtifactType ing \<noteq> [] \<and> artifactTypeOf (se_sdk E) (de_Manifest desc) \<noteq> in_ArtifactType ing")
        case True
        then show ?thesis using assms(2) moves_tick by (auto simp: open_simps split: if_splits)
      next
        case False
        show ?thesis
        proof (cases "se_isIndex E (de_MediaType desc)")
          case True
          show ?thesis
          proof (cases "selectPlatforms desc ing")
            case (Inr sel)
            obtain s1 k y where c: "copyIndexChildren (se_dst E) (se_open E (st_tick st) src) repo (in_Version ing) (de_MediaType desc) (de_ImageIndex desc) sel (st_store st) = ((s1, k), y)"
              by (metis prod.exhaust)
            have "st' = tick st\<lparr>st_store := s1\<rparr> \<and> x = y" using assms(2) False True Inr c by (auto simp: open_simps)
            then show ?thesis using index_lands [OF assms(1) co _ c] False moves_trans [OF moves_tick moves_store] by (auto simp: pinned_def)
          qed (use assms(2) False True moves_tick in \<open>auto simp: open_simps\<close>)
        next
          case image: False
          show ?thesis
          proof (cases "de_Image desc")
            case (Inr img)
            obtain rows z where v: "(if in_Kind ing = se_HelmChart E then se_VerifyChart E img else ([], None)) = (rows, z)" by fastforce
            let ?st = "tick st\<lparr>st_task := (st_task st)\<lparr>tk_ChartDependencies := tk_ChartDependencies (st_task st) @ rows\<rparr>\<rparr>"
            have mv: "moves E needs T st ?st" by (simp add: moves_def item_settled_def)
            obtain s1 k y where c: "copyImage (se_dst E) (se_open E (st_tick st) src) repo (in_Version ing) img (st_store st) = ((s1, k), y)" by (metis prod.exhaust)
            have out: "(st', x) = (if z \<noteq> None then (?st, z) else (?st\<lparr>st_store := s1\<rparr>, y))"
              using assms(2) False image Inr v c by (auto simp: open_simps split: if_splits)
            have ci: "coherent_image dig needs img" "\<forall>p. im_raw img = Inr p \<longrightarrow> dig p = in_Digest ing" using co Inr False by (auto simp: coherent_desc_def)
            note k = copyImage_keeps [OF sound_engineD(1) [OF assms(1)] ci(1) c]
            have "moves E needs T ?st (?st\<lparr>st_store := s1\<rparr>)" using k(1) by (intro moves_store) simp
            with mv out k ci(2) show ?thesis by (auto simp: pinned_def split: if_splits intro: moves_trans)
          qed (use assms(2) False image moves_tick in \<open>auto simp: open_simps\<close>)
        qed
      qed
    qed (use assms(2) Inr moves_tick in \<open>auto simp: transferIngredient_def Let_def\<close>)
  qed (use assms(2) moves_tick in \<open>auto simp: transferIngredient_def Let_def\<close>)
  then show "moves E needs T st st'" "x = None \<Longrightarrow> pinned E ing repo (st_store st')" by blast+
qed

lemma transfers_keep:
  assumes "sound_engine E dig needs"
    and "withRetries cancelled retries (transfer_attempt E ing repo) attempt (st, n) = ((st', n'), x)"
  shows "moves E needs T st st'" "x = None \<Longrightarrow> pinned E ing repo (st_store st')"
proof -
  let ?R = "\<lambda>a b. moves E needs T (fst a) (fst b)"
  have one: "?R a b" "x = None \<Longrightarrow> pinned E ing repo (st_store (fst b))"
    if "transfer_attempt E ing repo a = (b, x)" for a b x
  proof -
    obtain st1 m where "transferIngredient E ing repo (fst a) = ((st1, m), x)" "fst b = st1"
      using \<open>transfer_attempt E ing repo a = (b, x)\<close> by (cases a) (auto simp: transfer_attempt_def split: prod.splits)
    with transferIngredient_keeps [OF assms(1)] show "?R a b" "x = None \<Longrightarrow> pinned E ing repo (st_store (fst b))" by simp_all
  qed
  have "?R (st, n) (st', n') \<and> (x = None \<longrightarrow> (\<exists>a. ?R (st, n) a \<and> transfer_attempt E ing repo a = ((st', n'), None)))"
    by (rule withRetries_keeps [OF _ _ one(1) assms(2)]) (auto intro: moves_trans)
  with one(2) show "moves E needs T st st'" "x = None \<Longrightarrow> pinned E ing repo (st_store st')" by fastforce+
qed

lemma Effective_PathWithBase:
  assumes "Effective r ref = Inr eff"
  shows "\<exists>repo. PathWithBase base ref = Inr repo \<and> repo \<noteq> []"
proof -
  obtain p where p: "Path ref = Inr p" using assms by (auto simp: Effective_def split: sum.splits)
  then have "p \<noteq> []" by (auto simp: Path_iff)
  with p show ?thesis by (auto simp: PathWithBase_def Let_def)
qed

text \<open>The ingredient is where its graph record says.\<close>

definition landed :: "'s sync_engine \<Rightarrow> SpecIngredient \<Rightarrow> 's \<Rightarrow> bool" where
  "landed E ing s \<longleftrightarrow> (\<exists>repo. PathWithBase (se_base E) (in_Ref ing) = Inr repo \<and> ir_Repo (ingredientRecord E ing) = repo \<and> repo \<noteq> []
     \<and> ds_HasManifest (se_dst E) s repo (in_Digest ing))"

lemma landed_moves: "moves E needs T st st' \<Longrightarrow> landed E ing (st_store st) \<Longrightarrow> landed E ing (st_store st')"
  using moves_holds unfolding landed_def by blast

lemma syncIngredient_keeps:
  assumes "sound_engine E dig needs" "syncIngredient E ing rid st = (st', res, x)"
  shows "moves E needs (\<lambda>n. n = rid @ ''/'' @ in_Name ing) st st'" "x = None \<Longrightarrow> landed E ing (st_store st')"
proof -
  let ?T = "\<lambda>n. n = rid @ ''/'' @ in_Name ing" and ?repo = "ir_Repo (ingredientRecord E ing)"
  have "moves E needs ?T st st' \<and> (x = None \<longrightarrow> landed E ing (st_store st'))"
  proof (cases "Effective (se_remotes E) (in_Ref ing)")
    case (Inr eff)
    then obtain repo where path: "PathWithBase (se_base E) (in_Ref ing) = Inr repo" "?repo = repo" "repo \<noteq> []"
      using Effective_PathWithBase [OF Inr, of "se_base E"] by (auto simp: ingredientRecord_def)
    let ?held = "ds_HasManifest (se_dst E) (st_store st) repo (in_Digest ing)"
    show ?thesis
    proof (cases "?held \<and> ds_ResolveTag (se_dst E) (st_store st) repo (in_Version ing) = Some (in_Digest ing)")
      case True
      let ?st = "on_item (rid @ ''/'' @ in_Name ing) (\<lambda>i. i\<lparr>it_Status := StatusSkipped\<rparr>) st"
      have "moves E needs ?T st ?st" by (rule moves_on_item) simp_all
      then have mv: "moves E needs ?T st (recordProvenance E repo rid ?st)" by (rule moves_trans [OF _ moves_provenance [OF assms(1)]])
      have "landed E ing (st_store st)" using True path by (simp add: landed_def)
      with mv landed_moves [OF mv] True Inr path assms(2) show ?thesis by (simp add: syncIngredient_def Let_def)
    next
      case False
      obtain st1 n1 y where w: "withRetries (\<lambda>(st, _). se_cancelled E (st_tick st)) (se_retries E) (transfer_attempt E ing repo) 0 (st, 0) = ((st1, n1), y)" by (metis prod.exhaust)
      note k = transfers_keep(1) [where T = ?T, OF assms(1) w] transfers_keep(2) [OF assms(1) w]
      let ?s = "copyAttachedSignature E (now_client E st1) (in_Ref ing) repo (in_Digest ing) (st_store st1)"
      let ?st2 = "recordProvenance E repo rid (tick st1\<lparr>st_store := ?s\<rparr>)"
      let ?st3 = "on_item (rid @ ''/'' @ in_Name ing) (\<lambda>i. i\<lparr>it_Status := StatusDone, it_SizeBytes := n1\<rparr>) ?st2"
      have "moves E needs ?T st1 (tick st1\<lparr>st_store := ?s\<rparr>)"
        using copyAttachedSignature_keeps [OF assms(1)] by (auto intro!: moves_trans [OF moves_tick moves_store])
      then have "moves E needs ?T st1 ?st2" by (rule moves_trans [OF _ moves_provenance [OF assms(1)]])
      moreover have "moves E needs ?T ?st2 ?st3" by (rule moves_on_item) simp_all
      ultimately have m3: "moves E needs ?T st1 ?st3" by (rule moves_trans)
      have "st' = (if y = None then ?st3 else st1) \<and> x = y"
        using assms(2) Inr path False w by (auto simp: syncIngredient_def Let_def split: option.splits)
      moreover have "landed E ing (st_store st1)" if "y = None" using k(2) path that by (simp add: landed_def pinned_def)
      ultimately show ?thesis using k(1) moves_trans [OF k(1) m3] landed_moves [OF m3] by (cases y) auto
    qed
  qed (use assms(2) in \<open>auto simp: syncIngredient_def Let_def\<close>)
  then show "moves E needs ?T st st'" "x = None \<Longrightarrow> landed E ing (st_store st')" by blast+
qed

lemma sync_one_keeps:
  assumes "sound_engine E dig needs" "sync_one E rid ing st = (st', rec)"
  shows "moves E needs (\<lambda>n. n = rid @ ''/'' @ in_Name ing) st st'"
    "\<not> item_settled (rid @ ''/'' @ in_Name ing) st \<Longrightarrow> rs_complete (st_resolved st') \<Longrightarrow> landed E ing (st_store st') \<and> rec = ingredientRecord E ing"
proof -
  let ?T = "\<lambda>n. n = rid @ ''/'' @ in_Name ing"
  have "moves E needs ?T st st' \<and> (\<not> item_settled (rid @ ''/'' @ in_Name ing) st \<longrightarrow> rs_complete (st_resolved st') \<longrightarrow>
      landed E ing (st_store st') \<and> rec = ingredientRecord E ing)"
  proof (cases "item_settled (rid @ ''/'' @ in_Name ing) st")
    case False
    let ?st = "on_item (rid @ ''/'' @ in_Name ing) (\<lambda>i. i\<lparr>it_Status := StatusRunning, it_Digest := in_Digest ing\<rparr>) st"
    have m1: "moves E needs ?T st ?st" by (rule moves_on_item) simp_all
    obtain st1 res x where s: "syncIngredient E ing rid ?st = (st1, res, x)" by (metis prod.exhaust)
    note k = syncIngredient_keeps [OF assms(1) s]
    have m2: "moves E needs ?T st st1" using m1 k(1) by (rule moves_trans)
    show ?thesis
    proof (cases x)
      case None
      then show ?thesis using assms(2) False s k(2) moves_trans [OF m2 moves_resolution] by (auto simp: sync_one_def Let_def)
    next
      case (Some e)
      then show ?thesis using assms(2) False s moves_trans [OF m2 moves_fail] by (auto simp: sync_one_def Let_def)
    qed
  qed (use assms(2) in \<open>auto simp: sync_one_def Let_def\<close>)
  then show "moves E needs ?T st st'"
    "\<not> item_settled (rid @ ''/'' @ in_Name ing) st \<Longrightarrow> rs_complete (st_resolved st') \<Longrightarrow> landed E ing (st_store st') \<and> rec = ingredientRecord E ing" by blast+
qed

lemma sync_ingredients_keep:
  assumes "sound_engine E dig needs"
  shows "sync_ingredients E rid ings st = (st', recs) \<Longrightarrow>
    moves E needs (\<lambda>n. \<exists>ing \<in> set ings. n = rid @ ''/'' @ in_Name ing) st st'
    \<and> (distinct (map in_Name ings) \<and> (\<forall>ing \<in> set ings. \<not> item_settled (rid @ ''/'' @ in_Name ing) st) \<and> rs_complete (st_resolved st') \<longrightarrow>
         (\<forall>ing \<in> set ings. landed E ing (st_store st')) \<and> recs = map (ingredientRecord E) ings)"
proof (induction ings arbitrary: st recs)
  case (Cons ing ings)
  let ?T = "\<lambda>n. \<exists>i \<in> set (ing # ings). n = rid @ ''/'' @ in_Name i"
  obtain st1 rec where o: "sync_one E rid ing st = (st1, rec)" by fastforce
  obtain recs' where r: "sync_ingredients E rid ings st1 = (st', recs')" "recs = rec # recs'" using Cons.prems o by (auto split: prod.splits)
  note one = sync_one_keeps [OF assms o]
  note ih = Cons.IH [OF r(1)]
  have m2: "moves E needs (\<lambda>n. \<exists>i \<in> set ings. n = rid @ ''/'' @ in_Name i) st1 st'" using ih by blast
  have "moves E needs ?T st st1" "moves E needs ?T st1 st'" using moves_weaken [OF one(1)] moves_weaken [OF m2] by auto
  then have mv: "moves E needs ?T st st'" by (rule moves_trans)
  have "(\<forall>i \<in> set (ing # ings). landed E i (st_store st')) \<and> recs = map (ingredientRecord E) (ing # ings)"
    if a: "distinct (map in_Name (ing # ings))" "\<forall>i \<in> set (ing # ings). \<not> item_settled (rid @ ''/'' @ in_Name i) st" "rs_complete (st_resolved st')"
  proof -
    have c1: "rs_complete (st_resolved st1)" using m2 a(3) by (simp add: moves_def)
    have "landed E ing (st_store st1)" "rec = ingredientRecord E ing" using one(2) a(2) c1 by auto
    moreover have "\<not> item_settled (rid @ ''/'' @ in_Name i) st1" if "i \<in> set ings" for i
    proof -
      have "in_Name ing \<notin> in_Name ` set ings" using a(1) by simp
      then have "in_Name i \<noteq> in_Name ing" using that by (metis imageI)
      then show ?thesis using one(1) a(2) that by (simp add: moves_def)
    qed
    ultimately show ?thesis using ih a(1,3) landed_moves [OF m2] r(2) by auto
  qed
  with mv show ?case by blast
qed simp

subsection \<open>Recipes\<close>

lemma moves_promote:
  assumes "sound_engine E dig needs" "se_promote E n f rid (st_store st, st_task st) = (s, t)"
  shows "moves E needs (\<lambda>n. has_prefix n ''push/'') st (st\<lparr>st_store := s, st_task := t\<rparr>)"
proof -
  note q = sound_engineD(4) [OF assms(1), unfolded promote_quiet_def, rule_format, OF assms(2)]
  then show ?thesis by (simp add: moves_def item_settled_def)
qed

text \<open>The recipe is kept, and the graph took a record of it that names the digest fetched and the ingredients \<open>recs\<close>; the
  content of the store has lost nothing since.\<close>

definition recorded :: "'s sync_engine \<Rightarrow> FetchedRecipe \<Rightarrow> SpecRecipe \<Rightarrow> IngredientRecord list \<Rightarrow> 's sync_state \<Rightarrow> bool" where
  "recorded E f recipe recs st \<longleftrightarrow> recipeKey (re_Name recipe) (re_Version recipe) \<in> rs_keys (st_resolved st)
     \<and> (\<exists>r s0 s1. me_PutRecipeRecord (se_store E) r s0 = (s1, None) \<and> grows (se_dst E) s1 (st_store st)
          \<and> rr_Name r = re_Name recipe \<and> rr_Version r = re_Version recipe \<and> rr_CookbookRepo r = fr_NominalRepo f
          \<and> rr_ArtifactTag r = fr_Tag f \<and> rr_Digest r = fr_ManifestDigest f \<and> rr_Ingredients r = recs)"

lemma recorded_moves: "moves E needs T st st' \<Longrightarrow> recorded E f recipe recs st \<Longrightarrow> recorded E f recipe recs st'"
  unfolding recorded_def moves_def preserves_def by (blast intro: grows_trans)

lemma record_recipe_keeps:
  assumes "sound_engine E dig needs" "st' = record_recipe E f recipe subject rid zone verified scope records st"
  shows "moves E needs (\<lambda>n. n = rid \<or> has_prefix n ''push/'') st st'"
    "rs_complete (st_resolved st') \<Longrightarrow> recorded E f recipe (filter (\<lambda>r. ir_Repo r \<noteq> []) records) st'"
proof -
  let ?T = "\<lambda>n. n = rid \<or> has_prefix n ''push/''"
  obtain s t where pr: "se_promote E (st_tick st) f rid (st_store st, st_task st) = (s, t)" by fastforce
  let ?st = "st\<lparr>st_store := s, st_task := t\<rparr>"
  have m1: "moves E needs ?T st ?st" by (rule moves_weaken [OF moves_promote [OF assms(1) pr]]) simp
  let ?rec = "recipe_record E f recipe zone verified scope records ?st"
  obtain s2 x where put1: "me_PutRecipeRecord (se_store E) ?rec s = (s2, x)" by fastforce
  have put2: "st' = (case x of Some e \<Rightarrow> fail_item E rid e subject (?st\<lparr>st_store := s2\<rparr>)
       | None \<Rightarrow> ?st\<lparr>st_store := s2, st_resolved := keep_recipe (re_Name recipe) (re_Version recipe) (st_resolved ?st)\<rparr>)"
    using assms(2) pr put1 by (cases x) (simp_all add: record_recipe_def Let_def)
  have "preserves (se_dst E) needs s s2" using meta_quiet_preserves(2) [OF sound_engineD(2) [OF assms(1)], of needs s ?rec] put1 by simp
  then have m2: "moves E needs ?T ?st (?st\<lparr>st_store := s2\<rparr>)" by (intro moves_store) simp
  have "moves E needs ?T (?st\<lparr>st_store := s2\<rparr>) st'"
  proof (cases x)
    case None
    then show ?thesis using put2 by (auto simp: moves_def keep_recipe_def item_settled_def)
  next
    case (Some e)
    then show ?thesis using put2 moves_fail [of ?T rid] by simp
  qed
  with m1 m2 show "moves E needs ?T st st'" by (blast intro: moves_trans)
  have r: "rr_Name ?rec = re_Name recipe" "rr_Version ?rec = re_Version recipe" "rr_CookbookRepo ?rec = fr_NominalRepo f" "rr_ArtifactTag ?rec = fr_Tag f"
    "rr_Digest ?rec = fr_ManifestDigest f" "rr_Ingredients ?rec = filter (\<lambda>r. ir_Repo r \<noteq> []) records" by (simp_all add: recipe_record_def)
  show "recorded E f recipe (filter (\<lambda>r. ir_Repo r \<noteq> []) records) st'" if c: "rs_complete (st_resolved st')"
  proof -
    have x: "x = None" using put2 c by (cases x) auto
    then have "st_store st' = s2" "recipeKey (re_Name recipe) (re_Version recipe) \<in> rs_keys (st_resolved st')" using put2 by (auto simp: keep_recipe_def)
    then show ?thesis unfolding recorded_def using put1 x r by (intro conjI exI [of _ ?rec] exI [of _ s] exI [of _ s2]) simp_all
  qed
qed

lemma finish_recipe_keeps:
  assumes "sound_engine E dig needs" "st' = finish_recipe E f recipe subject rid zone verified scope records st"
  shows "moves E needs (\<lambda>n. n = rid \<or> n = rid @ ''/recipe'' \<or> has_prefix n ''push/'') st st'"
    "rs_complete (st_resolved st') \<Longrightarrow> recorded E f recipe (filter (\<lambda>r. ir_Repo r \<noteq> []) records) st'"
    "rs_complete (st_resolved st') \<Longrightarrow> \<not> item_settled (rid @ ''/recipe'') st \<Longrightarrow> tags_held (se_dst E) (st_store st) \<Longrightarrow> fr_Tag f \<noteq> [] \<Longrightarrow>
       dig (fr_ManifestBytes f) = fr_ManifestDigest f \<Longrightarrow> artifact_held E f (st_store st')"
proof -
  let ?T = "\<lambda>n. n = rid \<or> n = rid @ ''/recipe'' \<or> has_prefix n ''push/''"
  let ?recs = "filter (\<lambda>r. ir_Repo r \<noteq> []) records" and ?noted = "record_recipe E f recipe subject rid zone verified scope records"
  have rec: "moves E needs ?T a (?noted a)" "rs_complete (st_resolved (?noted a)) \<Longrightarrow> recorded E f recipe ?recs (?noted a)" for a
  proof -
    show "moves E needs ?T a (?noted a)" by (rule moves_weaken [OF record_recipe_keeps(1) [OF assms(1) refl]]) auto
  qed (rule record_recipe_keeps(2) [OF assms(1) refl])
  let ?held = "tags_held (se_dst E) (st_store st) \<longrightarrow> fr_Tag f \<noteq> [] \<longrightarrow> dig (fr_ManifestBytes f) = fr_ManifestDigest f \<longrightarrow> artifact_held E f (st_store st')"
  have "moves E needs ?T st st' \<and> (rs_complete (st_resolved st') \<longrightarrow> recorded E f recipe ?recs st')
    \<and> (rs_complete (st_resolved st') \<longrightarrow> \<not> item_settled (rid @ ''/recipe'') st \<longrightarrow> ?held)"
  proof (cases "item_settled (rid @ ''/recipe'') st")
    case False
    let ?st = "on_item (rid @ ''/recipe'') (\<lambda>i. i\<lparr>it_Status := StatusRunning\<rparr>) st"
    have m1: "moves E needs ?T st ?st" by (rule moves_on_item) simp_all
    obtain s x where s: "storeRecipeArtifact E (now_client E ?st) f recipe (st_store st) = (s, x)" by fastforce
    have m2: "moves E needs ?T ?st (tick ?st\<lparr>st_store := s\<rparr>)"
      using storeRecipeArtifact_keeps(1) [OF assms(1) s] by (auto intro!: moves_trans [OF moves_tick moves_store])
    show ?thesis
    proof (cases x)
      case (Inl e)
      then have "st' = fail_item E (rid @ ''/recipe'') e rid (tick ?st\<lparr>st_store := s\<rparr>)" using assms(2) False s by (simp add: finish_recipe_def Let_def)
      then show ?thesis using moves_trans [OF m1 moves_trans [OF m2 moves_fail]] by simp
    next
      case (Inr status)
      let ?it = "\<lambda>i. i\<lparr>it_Status := (if status = ''up-to-date'' then StatusSkipped else StatusDone), it_Digest := fr_ManifestDigest f\<rparr>"
      let ?st3 = "on_item (rid @ ''/recipe'') ?it (tick ?st\<lparr>st_store := s\<rparr>)"
      have m3: "moves E needs ?T (tick ?st\<lparr>st_store := s\<rparr>) ?st3" by (rule moves_on_item) simp_all
      have out: "st' = ?noted ?st3" using assms(2) False s Inr by (simp add: finish_recipe_def Let_def)
      then have "preserves (se_dst E) needs s (st_store st')" using rec(1) [of ?st3] by (simp add: moves_def)
      from artifact_held_grows [OF this, of f] storeRecipeArtifact_keeps(2) [OF assms(1) s Inr] have ?held by blast
      with moves_trans [OF m1 moves_trans [OF m2 moves_trans [OF m3 rec(1)]]] rec(2) [of ?st3] out show ?thesis by simp
    qed
  qed (use rec assms(2) in \<open>simp add: finish_recipe_def Let_def\<close>)
  then show "moves E needs ?T st st'" "rs_complete (st_resolved st') \<Longrightarrow> recorded E f recipe ?recs st'"
    "rs_complete (st_resolved st') \<Longrightarrow> \<not> item_settled (rid @ ''/recipe'') st \<Longrightarrow> tags_held (se_dst E) (st_store st) \<Longrightarrow> fr_Tag f \<noteq> [] \<Longrightarrow>
       dig (fr_ManifestBytes f) = fr_ManifestDigest f \<Longrightarrow> artifact_held E f (st_store st')" by blast+
qed

text \<open>The artifact was fetched, its digest passed the trust decision of its nominal repository, and only then its document
  was read and validated: three instants of the run, in this order.\<close>

definition admitted_recipe :: "'s sync_engine \<Rightarrow> string \<Rightarrow> string \<Rightarrow> FetchedRecipe \<Rightarrow> SpecRecipe \<Rightarrow> bool" where
  "admitted_recipe E cookbookRef name f recipe \<longleftrightarrow>
     (\<exists>n f0 repo verified scope. FetchArtifact (se_sdk E) (se_world E n) (se_remotes E) cookbookRef name (fr_Tag f) = Inr f0
        \<and> nominalRepoOf cookbookRef name = Inr repo
        \<and> verifyRecipe (se_codec E) (Manifests (se_world E (Suc n)) (se_remotes E) (cookbookRef @ ''/'' @ name)) (cookbookRef @ ''/'' @ name)
            (fr_Tag f) (fr_ManifestDigest f0) (Decide (se_trust E) repo) = (verified, scope, None)
        \<and> LoadDocument (se_sdk E) (se_world E (Suc (Suc n))) (se_remotes E) f0 name = Inr f)
     \<and> fr_Recipe f = Some recipe"

lemma FetchArtifact_repo:
  "FetchArtifact S C r cb name tag = Inr f \<Longrightarrow> fr_NominalRepo f = cb @ ''/'' @ name \<and> fr_Tag f = tag
     \<and> (\<exists>desc. Get_desc C r (cb @ ''/'' @ name) tag = Inr desc \<and> fr_ManifestBytes f = de_Manifest desc \<and> fr_ManifestDigest f = de_Digest desc)"
  by (auto simp: FetchArtifact_def Let_def bind_r_Inr_iff)

lemma LoadDocument_loaded:
  assumes "LoadDocument S C r f name = Inr g"
  shows "\<exists>recipe. fr_Recipe g = Some recipe \<and> sk_Validate S recipe = None \<and> fr_NominalRepo g = fr_NominalRepo f \<and> fr_Tag g = fr_Tag f
    \<and> fr_ManifestDigest g = fr_ManifestDigest f \<and> fr_ManifestBytes g = fr_ManifestBytes f"
  using assms by (auto simp: LoadDocument_def bind_r_Inr_iff split: option.splits)

lemma admitted_recipe_parts:
  assumes "admitted_recipe E cb name f recipe"
  shows "sk_Validate (se_sdk E) recipe = None" "fr_NominalRepo f = cb @ ''/'' @ name"
    "named_world E dig \<Longrightarrow> dig (fr_ManifestBytes f) = fr_ManifestDigest f"
proof -
  obtain n f0 where a: "FetchArtifact (se_sdk E) (se_world E n) (se_remotes E) cb name (fr_Tag f) = Inr f0"
    "LoadDocument (se_sdk E) (se_world E (Suc (Suc n))) (se_remotes E) f0 name = Inr f" "fr_Recipe f = Some recipe"
    using assms unfolding admitted_recipe_def by blast
  note g = LoadDocument_loaded [OF a(2)] and h = FetchArtifact_repo [OF a(1)]
  show "sk_Validate (se_sdk E) recipe = None" "fr_NominalRepo f = cb @ ''/'' @ name" using g h a(3) by auto
  obtain desc where d: "Get_desc (se_world E n) (se_remotes E) (cb @ ''/'' @ name) (fr_Tag f) = Inr desc" "fr_ManifestBytes f0 = de_Manifest desc"
    "fr_ManifestDigest f0 = de_Digest desc" using h by blast
  then obtain ref where "cl_Get (se_world E n) ref = Inr desc" by (auto simp: Get_desc_def bind_r_Inr_iff)
  then show "named_world E dig \<Longrightarrow> dig (fr_ManifestBytes f) = fr_ManifestDigest f" using d g by (auto simp: named_world_def)
qed

lemma tick_twice: "tick st = st\<lparr>st_tick := Suc (st_tick st)\<rparr>" "(st\<lparr>st_tick := k\<rparr>)\<lparr>st_tick := l\<rparr> = st\<lparr>st_tick := l\<rparr>"
  by (simp_all add: tick_def)

text \<open>Either the entry is refused before anything was stored, or its recipe was admitted and carried through.\<close>

lemma syncRecipe_cases:
  obtains (refused) k itemName e where "syncRecipe E cb entry zone st = fail_item E itemName e (sl_Name entry) (st\<lparr>st_tick := k\<rparr>)"
      "itemName = sl_Name entry \<or> has_prefix itemName (sl_Name entry @ ''@'')"
  | (admitted) k tag f recipe r verified scope st1 records where "admitted_recipe E cb (sl_Name entry) f recipe"
      "sync_ingredients E (sl_Name entry @ ''@'' @ tag) (re_Ingredients recipe) (add_resolution r (st\<lparr>st_tick := k\<rparr>)) = (st1, records)"
      "syncRecipe E cb entry zone st = finish_recipe E f recipe (sl_Name entry) (sl_Name entry @ ''@'' @ tag) zone verified scope records st1"
proof (cases "Versions (now_client E st) (se_remotes E) cb (sl_Name entry)")
  case (Inl e)
  then show ?thesis using refused [of "sl_Name entry" e "Suc (st_tick st)"] by (simp add: syncRecipe_def Let_def tick_def)
next
  case v: (Inr versions)
  show ?thesis
  proof (cases "ResolveVersion (se_sdk E) (sl_Version entry) versions")
    case (Inl e)
    then show ?thesis using v refused [of "sl_Name entry" e "Suc (st_tick st)"] by (simp add: syncRecipe_def Let_def tick_def)
  next
    case t: (Inr tag)
    let ?rid = "sl_Name entry @ ''@'' @ tag"
    have pre: "?rid = sl_Name entry \<or> has_prefix ?rid (sl_Name entry @ ''@'')" by (simp add: prefix_def)
    show ?thesis
    proof (cases "FetchArtifact (se_sdk E) (now_client E (tick st)) (se_remotes E) cb (sl_Name entry) tag")
      case (Inl e)
      then show ?thesis using v t pre refused [of ?rid e "Suc (Suc (st_tick st))"] by (simp add: syncRecipe_def Let_def tick_def)
    next
      case f: (Inr fetched)
      let ?st = "tick (tick st)"
      note fr = FetchArtifact_repo [OF f]
      show ?thesis
      proof (cases "nominalRepoOf cb (sl_Name entry)")
        case (Inl e)
        then show ?thesis using v t f pre refused [of ?rid "ERef e" "Suc (Suc (st_tick st))"] by (simp add: syncRecipe_def Let_def tick_def)
      next
        case r: (Inr repo)
        obtain verified scope x where d: "verifyRecipe (se_codec E) (Manifests (now_client E ?st) (se_remotes E) (fr_NominalRepo fetched))
            (fr_NominalRepo fetched) (fr_Tag fetched) (fr_ManifestDigest fetched) (Decide (se_trust E) repo) = (verified, scope, x)" by (metis prod.exhaust)
        show ?thesis
        proof (cases x)
          case (Some e)
          then show ?thesis using v t f r d pre refused [of ?rid "admit_fault E e" "Suc (Suc (Suc (st_tick st)))"] by (simp add: syncRecipe_def Let_def tick_def)
        next
          case a: None
          show ?thesis
          proof (cases "LoadDocument (se_sdk E) (now_client E (tick ?st)) (se_remotes E) fetched (sl_Name entry)")
            case (Inl e)
            then show ?thesis using v t f r d a pre refused [of ?rid e "Suc (Suc (Suc (Suc (st_tick st))))"] by (simp add: syncRecipe_def Let_def tick_def)
          next
            case l: (Inr g)
            obtain recipe where g: "fr_Recipe g = Some recipe" "sk_Validate (se_sdk E) recipe = None" "fr_NominalRepo g = fr_NominalRepo fetched"
              "fr_Tag g = fr_Tag fetched" "fr_ManifestDigest g = fr_ManifestDigest fetched" using LoadDocument_loaded [OF l] by blast
            let ?res = "recipe_resolution ?rid (sl_Version entry) tag (fr_ManifestDigest g) scope"
            let ?st4 = "st\<lparr>st_tick := Suc (Suc (Suc (Suc (st_tick st))))\<rparr>"
            obtain st1 records where i: "sync_ingredients E ?rid (re_Ingredients recipe) (add_resolution ?res ?st4) = (st1, records)" by fastforce
            have fetch: "FetchArtifact (se_sdk E) (se_world E (Suc (st_tick st))) (se_remotes E) cb (sl_Name entry) (fr_Tag g) = Inr fetched"
              using f fr g by (simp add: now_client_def tick_def)
            have load: "LoadDocument (se_sdk E) (se_world E (Suc (Suc (Suc (st_tick st))))) (se_remotes E) fetched (sl_Name entry) = Inr g"
              using l by (simp add: now_client_def tick_def)
            have decide: "verifyRecipe (se_codec E) (Manifests (se_world E (Suc (Suc (st_tick st)))) (se_remotes E) (cb @ ''/'' @ sl_Name entry))
                (cb @ ''/'' @ sl_Name entry) (fr_Tag g) (fr_ManifestDigest fetched) (Decide (se_trust E) repo) = (verified, scope, None)"
              using d a fr g by (simp add: now_client_def tick_def)
            have ok: "admitted_recipe E cb (sl_Name entry) g recipe" unfolding admitted_recipe_def
              using fetch r decide load g(1) by blast
            have "syncRecipe E cb entry zone st = finish_recipe E g recipe (sl_Name entry) ?rid zone verified scope records st1"
              using v t f r d a l g i by (simp add: syncRecipe_def Let_def tick_def)
            with ok i show ?thesis using admitted by blast
          qed
        qed
      qed
    qed
  qed
qed

text \<open>The items an entry may touch, its own and those of promotion.\<close>

definition entry_items :: "string \<Rightarrow> string \<Rightarrow> bool" where
  "entry_items name n \<longleftrightarrow> n = name \<or> has_prefix n (name @ ''@'') \<or> has_prefix n ''push/''"

definition plain_name :: "string \<Rightarrow> bool" where
  "plain_name n \<longleftrightarrow> CHR ''@'' \<notin> set n \<and> CHR ''/'' \<notin> set n"

lemma entry_items_apart:
  assumes "plain_name n1" "plain_name n2" "n1 \<noteq> n2" "has_prefix n (n2 @ ''@'')"
  shows "\<not> entry_items n1 n"
proof
  obtain w where w: "n = n2 @ CHR ''@'' # w" using assms(4) by (auto simp: prefix_def)
  assume "entry_items n1 n"
  then consider "n = n1" | v where "n = n1 @ CHR ''@'' # v" | v where "n = ''push/'' @ v" by (auto simp: entry_items_def prefix_def)
  then show False
  proof cases
    case (2 v)
    then have "n1 @ CHR ''@'' # v = n2 @ CHR ''@'' # w" using w by simp
    then show ?thesis using assms(1-3) first_sep_unique unfolding plain_name_def by metis
  next
    case (3 v)
    then have "n2 @ (CHR ''@'' # w) = ''push/'' @ v" using w by simp
    then obtain us where "n2 = ''push/'' @ us \<or> (''push/'' = n2 @ us \<and> us @ v = CHR ''@'' # w)"
      unfolding append_eq_append_conv2 [of n2] by metis
    then show ?thesis
    proof
      assume us: "''push/'' = n2 @ us \<and> us @ v = CHR ''@'' # w"
      then have "us = [] \<or> CHR ''@'' \<in> set us" by (cases us) auto
      moreover have "set us \<subseteq> set ''push/''" using us by (metis set_append sup_ge2)
      then have "CHR ''@'' \<notin> set us" by fastforce
      ultimately have "n2 = ''push/''" using us by simp
      then show False using assms(2) by (simp add: plain_name_def)
    qed (use assms(2) in \<open>simp add: plain_name_def\<close>)
  qed (use w assms(1) in \<open>auto simp: plain_name_def\<close>)
qed

definition delivered_entry :: "'s sync_engine \<Rightarrow> string \<Rightarrow> string \<Rightarrow> 's sync_state \<Rightarrow> bool" where
  "delivered_entry E cookbookRef name st \<longleftrightarrow> (\<exists>f recipe. admitted_recipe E cookbookRef name f recipe
     \<and> recorded E f recipe (map (ingredientRecord E) (re_Ingredients recipe)) st
     \<and> (\<forall>ing \<in> set (re_Ingredients recipe). landed E ing (st_store st))
     \<and> (fr_Tag f \<noteq> [] \<and> ''recipe'' \<notin> set (map in_Name (re_Ingredients recipe)) \<longrightarrow> artifact_held E f (st_store st)))"

lemma delivered_entry_moves: "moves E needs T st st' \<Longrightarrow> delivered_entry E cb name st \<Longrightarrow> delivered_entry E cb name st'"
proof -
  assume m: "moves E needs T st st'" and "delivered_entry E cb name st"
  then obtain f recipe where d: "admitted_recipe E cb name f recipe" "recorded E f recipe (map (ingredientRecord E) (re_Ingredients recipe)) st"
    "\<forall>ing \<in> set (re_Ingredients recipe). landed E ing (st_store st)"
    "fr_Tag f \<noteq> [] \<and> ''recipe'' \<notin> set (map in_Name (re_Ingredients recipe)) \<longrightarrow> artifact_held E f (st_store st)" unfolding delivered_entry_def by blast
  have "preserves (se_dst E) needs (st_store st) (st_store st')" using m by (simp add: moves_def)
  note later = recorded_moves [OF m d(2)] artifact_held_grows [OF this, of f]
  show ?thesis unfolding delivered_entry_def
    by (intro exI [of _ f] exI [of _ recipe]) (use d(1,3,4) later landed_moves [OF m] in blast)
qed

definition distinct_ingredients :: "sdk \<Rightarrow> bool" where
  "distinct_ingredients S \<longleftrightarrow> (\<forall>recipe. sk_Validate S recipe = None \<longrightarrow> distinct (map in_Name (re_Ingredients recipe)))"

lemma syncRecipe_keeps:
  assumes "sound_engine E dig needs" "st' = syncRecipe E cb entry zone st"
  shows "moves E needs (entry_items (sl_Name entry)) st st'"
    "distinct_ingredients (se_sdk E) \<Longrightarrow> tags_held (se_dst E) (st_store st) \<Longrightarrow> \<forall>n. has_prefix n (sl_Name entry @ ''@'') \<longrightarrow> \<not> item_settled n st \<Longrightarrow> rs_complete (st_resolved st') \<Longrightarrow>
       delivered_entry E cb (sl_Name entry) st'"
proof -
  let ?T = "entry_items (sl_Name entry)"
  have at: "moves E needs ?T st (st\<lparr>st_tick := k\<rparr>)" for k by (simp add: moves_def item_settled_def)
  have "moves E needs ?T st st' \<and> (distinct_ingredients (se_sdk E) \<longrightarrow> tags_held (se_dst E) (st_store st) \<longrightarrow> (\<forall>n. has_prefix n (sl_Name entry @ ''@'') \<longrightarrow> \<not> item_settled n st) \<longrightarrow>
      rs_complete (st_resolved st') \<longrightarrow> delivered_entry E cb (sl_Name entry) st')"
  proof (rule syncRecipe_cases [of E cb entry zone st])
    fix k itemName e
    assume "syncRecipe E cb entry zone st = fail_item E itemName e (sl_Name entry) (st\<lparr>st_tick := k\<rparr>)"
      "itemName = sl_Name entry \<or> has_prefix itemName (sl_Name entry @ ''@'')"
    moreover then have "?T itemName" by (auto simp: entry_items_def)
    ultimately show ?thesis using moves_trans [OF at moves_fail [of ?T]] assms(2) by auto
  next
    fix k tag f recipe r verified scope st1 records
    let ?rid = "sl_Name entry @ ''@'' @ tag"
    assume a: "admitted_recipe E cb (sl_Name entry) f recipe"
      "sync_ingredients E ?rid (re_Ingredients recipe) (add_resolution r (st\<lparr>st_tick := k\<rparr>)) = (st1, records)"
      "syncRecipe E cb entry zone st = finish_recipe E f recipe (sl_Name entry) ?rid zone verified scope records st1"
    note ing = sync_ingredients_keep [OF assms(1) a(2)]
    note fin = finish_recipe_keeps [OF assms(1) assms(2) [unfolded a(3)]]
    have rid: "has_prefix (?rid @ x) (sl_Name entry @ ''@'')" for x by (simp add: prefix_def)
    have m0: "moves E needs ?T st (add_resolution r (st\<lparr>st_tick := k\<rparr>))" by (rule moves_trans [OF at moves_resolution])
    have m1: "moves E needs ?T (add_resolution r (st\<lparr>st_tick := k\<rparr>)) st1"
      by (rule moves_weaken [OF conjunct1 [OF ing]]) (use rid in \<open>auto simp: entry_items_def\<close>)
    have m2: "moves E needs ?T st1 st'" by (rule moves_weaken [OF fin(1)]) (use rid [of "[]"] rid [of "''/recipe''"] in \<open>auto simp: entry_items_def\<close>)
    have "delivered_entry E cb (sl_Name entry) st'"
      if h: "distinct_ingredients (se_sdk E)" "\<forall>n. has_prefix n (sl_Name entry @ ''@'') \<longrightarrow> \<not> item_settled n st" "rs_complete (st_resolved st')"
        "tags_held (se_dst E) (st_store st)"
    proof -
      note parts = admitted_recipe_parts [OF a(1)]
      have "distinct (map in_Name (re_Ingredients recipe))" using h(1) parts(1) by (simp add: distinct_ingredients_def)
      moreover have "\<not> item_settled (?rid @ ''/'' @ in_Name i) (add_resolution r (st\<lparr>st_tick := k\<rparr>))" for i
        using h(2) [rule_format, OF rid [of "''/'' @ in_Name i"]] by simp
      moreover have "rs_complete (st_resolved st1)" using m2 h(3) by (simp add: moves_def)
      ultimately have landed: "\<forall>i \<in> set (re_Ingredients recipe). landed E i (st_store st1)" "records = map (ingredientRecord E) (re_Ingredients recipe)"
        using ing by blast+
      have "filter (\<lambda>r. ir_Repo r \<noteq> []) records = records" using landed by (auto simp: landed_def filter_id_conv)
      then have rec: "recorded E f recipe (map (ingredientRecord E) (re_Ingredients recipe)) st'" using fin(2) [OF h(3)] landed(2) by simp
      have "artifact_held E f (st_store st')" if n: "fr_Tag f \<noteq> []" "''recipe'' \<notin> set (map in_Name (re_Ingredients recipe))"
      proof (rule fin(3) [OF h(3) _ _ n(1) parts(3) [OF sound_engineD(5) [OF assms(1)]]])
        have "\<not> item_settled (?rid @ ''/recipe'') (add_resolution r (st\<lparr>st_tick := k\<rparr>))" using h(2) [rule_format, OF rid [of "''/recipe''"]] by simp
        moreover have "\<not> (\<exists>i \<in> set (re_Ingredients recipe). ?rid @ ''/recipe'' = ?rid @ ''/'' @ in_Name i)" using n(2) by auto
        ultimately show "\<not> item_settled (?rid @ ''/recipe'') st1" using conjunct1 [OF ing] unfolding moves_def by blast
        show "tags_held (se_dst E) (st_store st1)" using h(4) m0 m1 by (simp add: moves_def preserves_def)
      qed
      then show ?thesis using a(1) rec landed(1) landed_moves [OF m2] unfolding delivered_entry_def by blast
    qed
    with moves_trans [OF m0 moves_trans [OF m1 m2]] show ?thesis by blast
  qed
  then show "moves E needs ?T st st'" "distinct_ingredients (se_sdk E) \<Longrightarrow> tags_held (se_dst E) (st_store st) \<Longrightarrow> \<forall>n. has_prefix n (sl_Name entry @ ''@'') \<longrightarrow> \<not> item_settled n st \<Longrightarrow>
      rs_complete (st_resolved st') \<Longrightarrow> delivered_entry E cb (sl_Name entry) st'" by blast+
qed

lemma sync_recipes_keep:
  assumes "sound_engine E dig needs" "distinct_ingredients (se_sdk E)"
  shows "st' = sync_recipes E retr entries st \<Longrightarrow> distinct (map sl_Name entries) \<Longrightarrow> \<forall>e \<in> set entries. plain_name (sl_Name e) \<Longrightarrow> tags_held (se_dst E) (st_store st) \<Longrightarrow>
    \<forall>e \<in> set entries. \<forall>n. has_prefix n (sl_Name e @ ''@'') \<longrightarrow> \<not> item_settled n st \<Longrightarrow>
    moves E needs (\<lambda>_. True) st st' \<and> (rs_complete (st_resolved st') \<longrightarrow> (\<forall>e \<in> set entries. delivered_entry E (entry_cookbook retr e) (sl_Name e) st'))"
proof (induction entries arbitrary: st)
  case (Cons e entries)
  let ?st = "syncRecipe E (entry_cookbook retr e) e (rv_Name retr) st"
  note one = syncRecipe_keeps [OF assms(1) refl, where cb = "entry_cookbook retr e" and entry = e and zone = "rv_Name retr" and st = st]
  have "\<not> item_settled n ?st" if "e' \<in> set entries" "has_prefix n (sl_Name e' @ ''@'')" for e' n
  proof -
    have "sl_Name e \<notin> sl_Name ` set entries" using Cons.prems(2) by simp
    then have "sl_Name e \<noteq> sl_Name e'" using that(1) by (metis imageI)
    then have "\<not> entry_items (sl_Name e) n" using entry_items_apart [OF _ _ _ that(2), of "sl_Name e"] Cons.prems(3) that(1) by simp
    then show ?thesis using one(1) Cons.prems(5) that by (simp add: moves_def)
  qed
  then have ih: "moves E needs (\<lambda>_. True) ?st st'" "rs_complete (st_resolved st') \<Longrightarrow> \<forall>e \<in> set entries. delivered_entry E (entry_cookbook retr e) (sl_Name e) st'"
    using Cons.IH [of ?st] Cons.prems one(1) by (simp_all add: moves_def preserves_def)
  have "delivered_entry E (entry_cookbook retr e) (sl_Name e) st'" if "rs_complete (st_resolved st')"
  proof -
    have "rs_complete (st_resolved ?st)" using ih(1) that by (simp add: moves_def)
    then have "delivered_entry E (entry_cookbook retr e) (sl_Name e) ?st" using one(2) [OF assms(2) Cons.prems(4)] Cons.prems(5) by simp
    then show ?thesis by (rule delivered_entry_moves [OF ih(1)])
  qed
  moreover have "moves E needs (\<lambda>_. True) st ?st" by (rule moves_weaken [OF one(1)]) simp
  ultimately show ?case using ih moves_trans by auto
qed simp

subsection \<open>Main results\<close>

text \<open>Two engines that cannot be told apart by what they ask and hear before instant \<open>n\<close>: the same registries until then, the
  same version constraints, manifest checks, trust policy and rendering of errors. Everything else may differ, the
  store, the documents and how they are parsed included.\<close>

definition agree_until :: "nat \<Rightarrow> 's sync_engine \<Rightarrow> 's sync_engine \<Rightarrow> bool" where
  "agree_until n E E' \<longleftrightarrow> (\<forall>k < n. se_world E' k = se_world E k) \<and> se_remotes E' = se_remotes E
     \<and> sk_ParseConstraint (se_sdk E') = sk_ParseConstraint (se_sdk E) \<and> sk_VerifyManifest (se_sdk E') = sk_VerifyManifest (se_sdk E)
     \<and> se_codec E' = se_codec E \<and> se_trust E' = se_trust E
     \<and> se_reason E' = se_reason E \<and> se_fault E' = se_fault E \<and> se_text E' = se_text E \<and> se_tooLarge E' = se_tooLarge E"

lemma agree_until_refl [simp]: "agree_until n E E"
  by (simp add: agree_until_def)

lemma agree_until_ops:
  assumes "agree_until n E E'"
  shows "fail_item E' name e subject st = fail_item E name e subject st" "admit_fault E' a = admit_fault E a"
    "ResolveVersion (se_sdk E') = ResolveVersion (se_sdk E)" "FetchArtifact (se_sdk E') = FetchArtifact (se_sdk E)"
proof -
  have same: "se_reason E' = se_reason E" "se_fault E' = se_fault E" "se_text E' = se_text E" "se_tooLarge E' = se_tooLarge E"
    "sk_ParseConstraint (se_sdk E') = sk_ParseConstraint (se_sdk E)" "sk_VerifyManifest (se_sdk E') = sk_VerifyManifest (se_sdk E)"
    using assms by (simp_all add: agree_until_def)
  then have "item_error E' = item_error E" by (intro ext) (simp only: item_error_def mapError_def)
  with same show "fail_item E' name e subject st = fail_item E name e subject st" "admit_fault E' a = admit_fault E a"
    "ResolveVersion (se_sdk E') = ResolveVersion (se_sdk E)" "FetchArtifact (se_sdk E') = FetchArtifact (se_sdk E)"
    by (simp_all only: fail_item_def admit_fault_def ResolveVersion_def [abs_def] FetchArtifact_def [abs_def])
qed

text \<open>Before the trust decision an entry only asks; a refusal is the same for all engines that agree so far.\<close>

lemma syncRecipe_gate:
  obtains (refused) k itemName e where "\<And>E'. agree_until (Suc (Suc (Suc (st_tick st)))) E E' \<Longrightarrow>
      syncRecipe E' cb entry zone st = fail_item E itemName e (sl_Name entry) (st\<lparr>st_tick := k\<rparr>)"
  | (admitted) versions tag f repo verified scope where "Versions (se_world E (st_tick st)) (se_remotes E) cb (sl_Name entry) = Inr versions"
      "ResolveVersion (se_sdk E) (sl_Version entry) versions = Inr tag"
      "FetchArtifact (se_sdk E) (se_world E (Suc (st_tick st))) (se_remotes E) cb (sl_Name entry) tag = Inr f"
      "nominalRepoOf cb (sl_Name entry) = Inr repo"
      "verifyRecipe (se_codec E) (Manifests (se_world E (Suc (Suc (st_tick st)))) (se_remotes E) (cb @ ''/'' @ sl_Name entry))
         (cb @ ''/'' @ sl_Name entry) tag (fr_ManifestDigest f) (Decide (se_trust E) repo) = (verified, scope, None)"
proof -
  let ?n = "Suc (Suc (Suc (st_tick st)))" and ?name = "sl_Name entry"
  have same: "se_world E' (st_tick st) = se_world E (st_tick st)" "se_world E' (Suc (st_tick st)) = se_world E (Suc (st_tick st))"
    "se_world E' (Suc (Suc (st_tick st))) = se_world E (Suc (Suc (st_tick st)))" "se_remotes E' = se_remotes E" "se_codec E' = se_codec E" "se_trust E' = se_trust E"
    if "agree_until ?n E E'" for E' using that by (simp_all add: agree_until_def)
  note step = syncRecipe_def Let_def tick_def now_client_def
  let ?v = "Versions (se_world E (st_tick st)) (se_remotes E) cb ?name"
  let ?t = "ResolveVersion (se_sdk E) (sl_Version entry)" and ?f = "FetchArtifact (se_sdk E) (se_world E (Suc (st_tick st))) (se_remotes E) cb ?name"
  have "(\<exists>e. ?v = Inl e) \<or> (\<exists>vs e. ?v = Inr vs \<and> ?t vs = Inl e) \<or> (\<exists>vs tag e. ?v = Inr vs \<and> ?t vs = Inr tag \<and> ?f tag = Inl e)
      \<or> (\<exists>vs tag f. ?v = Inr vs \<and> ?t vs = Inr tag \<and> ?f tag = Inr f)" by (meson old.sum.exhaust)
  then consider (v) e where "?v = Inl e" | (t) vs e where "?v = Inr vs" "?t vs = Inl e"
    | (f) vs tag e where "?v = Inr vs" "?t vs = Inr tag" "?f tag = Inl e" | (got) vs tag f where "?v = Inr vs" "?t vs = Inr tag" "?f tag = Inr f" by blast
  then show thesis
  proof cases
    case (v e)
    show thesis
    proof (rule refused [of ?name e "Suc (st_tick st)"])
      fix E' assume a: "agree_until ?n E E'"
      show "syncRecipe E' cb entry zone st = fail_item E ?name e ?name (st\<lparr>st_tick := Suc (st_tick st)\<rparr>)"
        by (simp add: step same [OF a] agree_until_ops [OF a] v)
    qed
  next
    case (t vs e)
    show thesis
    proof (rule refused [of ?name e "Suc (st_tick st)"])
      fix E' assume a: "agree_until ?n E E'"
      show "syncRecipe E' cb entry zone st = fail_item E ?name e ?name (st\<lparr>st_tick := Suc (st_tick st)\<rparr>)"
        by (simp add: step same [OF a] agree_until_ops [OF a] t)
    qed
  next
    case (f vs tag e)
    show thesis
    proof (rule refused [of "?name @ ''@'' @ tag" e "Suc (Suc (st_tick st))"])
      fix E' assume a: "agree_until ?n E E'"
      show "syncRecipe E' cb entry zone st = fail_item E (?name @ ''@'' @ tag) e ?name (st\<lparr>st_tick := Suc (Suc (st_tick st))\<rparr>)"
        by (simp add: step same [OF a] agree_until_ops [OF a] f)
    qed
  next
    case (got vs tag f)
    note fr = FetchArtifact_repo [OF got(3)]
    show thesis
    proof (cases "nominalRepoOf cb ?name")
      case (Inl e)
      show thesis
      proof (rule refused [of "?name @ ''@'' @ tag" "ERef e" "Suc (Suc (st_tick st))"])
        fix E' assume a: "agree_until ?n E E'"
        show "syncRecipe E' cb entry zone st = fail_item E (?name @ ''@'' @ tag) (ERef e) ?name (st\<lparr>st_tick := Suc (Suc (st_tick st))\<rparr>)"
          by (simp add: step same [OF a] agree_until_ops [OF a] got Inl)
      qed
    next
      case (Inr repo)
      obtain verified scope x where d: "verifyRecipe (se_codec E) (Manifests (se_world E (Suc (Suc (st_tick st)))) (se_remotes E) (cb @ ''/'' @ ?name))
          (cb @ ''/'' @ ?name) tag (fr_ManifestDigest f) (Decide (se_trust E) repo) = (verified, scope, x)" by (metis prod.exhaust)
      show thesis
      proof (cases x)
        case None
        with admitted got Inr d show thesis by blast
      next
        case (Some a)
        show thesis
        proof (rule refused [of "?name @ ''@'' @ tag" "admit_fault E a" ?n])
          fix E' assume b: "agree_until ?n E E'"
          show "syncRecipe E' cb entry zone st = fail_item E (?name @ ''@'' @ tag) (admit_fault E a) ?name (st\<lparr>st_tick := ?n\<rparr>)"
            using got Inr d Some fr by (simp add: step same [OF b] agree_until_ops [OF b])
        qed
      qed
    qed
  qed
qed

text \<open>C6: Fail closed, and before anything is read. If an entry changes the store, is counted as resolved, or ends in a way
  that depends on anything served or parsed after the trust decision (the document of the recipe, the SDK's
  reading of it, the store itself), then the artifact this very run fetched, under the version it resolved, was
  admitted: at the next instant a configured key had signed the digest of the fetched manifest in its repository,
  or a declared scope waives signatures for the nominal repository.\<close>

theorem unadmitted_recipe_stores_nothing:
  assumes "st_store (syncRecipe E cb entry zone st) \<noteq> st_store st \<or> rs_keys (st_resolved (syncRecipe E cb entry zone st)) \<noteq> rs_keys (st_resolved st)
    \<or> (\<exists>E'. agree_until (st_tick st + 3) E E' \<and> syncRecipe E' cb entry zone st \<noteq> syncRecipe E cb entry zone st)"
  shows "\<exists>versions tag f repo. Versions (se_world E (st_tick st)) (se_remotes E) cb (sl_Name entry) = Inr versions
    \<and> ResolveVersion (se_sdk E) (sl_Version entry) versions = Inr tag
    \<and> FetchArtifact (se_sdk E) (se_world E (st_tick st + 1)) (se_remotes E) cb (sl_Name entry) tag = Inr f
    \<and> nominalRepoOf cb (sl_Name entry) = Inr repo
    \<and> ((\<exists>k. policy_key (se_trust E) k \<and> signed_by (se_codec E) (Manifests (se_world E (st_tick st + 2)) (se_remotes E) (cb @ ''/'' @ sl_Name entry))
             (cb @ ''/'' @ sl_Name entry) (fr_ManifestDigest f) k)
       \<or> (\<exists>scope. relaxed_scope (se_trust E) scope repo))"
proof (cases rule: syncRecipe_gate [of st E cb entry zone])
  case (refused k itemName e)
  from refused [OF agree_until_refl] have "st_store (syncRecipe E cb entry zone st) = st_store st"
    "rs_keys (st_resolved (syncRecipe E cb entry zone st)) = rs_keys (st_resolved st)" by (simp_all add: fail_item_def failed_recipe_def)
  moreover have "st_tick st + 3 = Suc (Suc (Suc (st_tick st)))" by simp
  ultimately show ?thesis using assms refused [OF agree_until_refl] refused by metis
next
  case (admitted versions tag f repo verified scope)
  have "(\<exists>k. policy_key (se_trust E) k \<and> signed_by (se_codec E) (Manifests (se_world E (Suc (Suc (st_tick st)))) (se_remotes E) (cb @ ''/'' @ sl_Name entry))
      (cb @ ''/'' @ sl_Name entry) (fr_ManifestDigest f) k) \<or> (\<exists>scope. relaxed_scope (se_trust E) scope repo)"
    using policy_trust.admitted [OF admitted(5)] by (cases verified) blast+
  with admitted(1-4) show ?thesis by (simp add: numeral_2_eq_2)
qed


subsection \<open>A small registry\<close>

record depot = "shelf" +
  dp_records :: "RecipeRecord list"

definition depot_dst :: "depot dst_store" where
  "depot_dst = \<lparr>ds_HasManifest = \<lambda>s r m. (r, m) \<in> sh_manifests s, ds_ResolveTag = \<lambda>s r t. sh_tags s (r, t),
     ds_HasBlob = \<lambda>s r d. (r, d) \<in> sh_blobs s,
     ds_WriteBlob = \<lambda>r d bytes s. if bytes = d then (s\<lparr>sh_blobs := insert (r, d) (sh_blobs s)\<rparr>, None) else (s, Some (EOther ''digest'')),
     ds_PutManifest = \<lambda>r mt payload tag s.
       (s\<lparr>sh_manifests := insert (r, payload) (sh_manifests s),
          sh_tags := (if tag = [] then sh_tags s else (sh_tags s)((r, tag) \<mapsto> payload))\<rparr>, Inr payload)\<rparr>"

definition depot_ingredient :: "string \<Rightarrow> string \<Rightarrow> string list \<Rightarrow> SpecIngredient" where
  "depot_ingredient name d platforms =
     \<lparr>in_Name = name, in_Kind = ''image'', in_Ref = ''h.io/web'', in_Version = ''2'', in_Digest = d, in_Platforms = platforms, in_ArtifactType = []\<rparr>"

definition plain_image :: "string \<Rightarrow> src_image" where
  "plain_image d = \<lparr>im_manifest = Inr (''c'', 1, ''image''), im_layers = Inr [], im_rawConfig = Inr ''c'', im_raw = Inr d\<rparr>"

definition depot_desc :: "string \<Rightarrow> string \<Rightarrow> eng_error + src_index \<Rightarrow> eng_error + src_image \<Rightarrow> descriptor" where
  "depot_desc d mt idx img = \<lparr>de_Digest = d, de_MediaType = mt, de_Size = 1, de_Manifest = d, de_ImageIndex = idx, de_Image = img\<rparr>"

definition pair_index :: src_index where
  "pair_index = Index (Inr [KidImage ''P'' (Some (''linux'', ''amd64'', [])) (Inr (plain_image ''P'')),
     KidImage ''Q'' (Some (''linux'', ''arm64'', ''v8'')) (Inr (plain_image ''Q''))]) (Inr ''X'') (Inr ''index'')"

text \<open>A registry with one recipe, one image \<open>I\<close> and one index \<open>X\<close>; what it answers for \<open>I\<close> varies.\<close>

definition depot_client :: "eng_error + src_image \<Rightarrow> reg_client" where
  "depot_client answer = \<lparr>cl_NewRepository = \<lambda>eff insec. Inr \<lparr>nr_Registry = host_part CHR ''/'' eff, nr_Path = eff, nr_Insecure = insec\<rparr>,
     cl_Get = \<lambda>ref. (case ref of
         Tag_ref r t \<Rightarrow>
           if t = ''1'' then Inr (depot_desc ''R'' ''recipe'' (Inl EUnknown) (Inl EUnknown))
           else if t = ''I'' then (case answer of Inl e \<Rightarrow> Inl e | Inr img \<Rightarrow> Inr (depot_desc ''I'' ''image'' (Inl EUnknown) (Inr img)))
           else if t = ''X'' then Inr (depot_desc ''X'' ''index'' (Inr pair_index) (Inl EUnknown)) else Inl EUnknown
       | Digest_ref r d \<Rightarrow> Inl EUnknown),
     cl_List = \<lambda>_. Inr [''1''], cl_Referrers = \<lambda>_ _. Inl EUnknown, cl_Layer = \<lambda>_ d. Inr (Inr (d, None)), cl_HTTP = \<lambda>_. Inl ENetwork, cl_text = \<lambda>_. []\<rparr>"

definition depot_sdk :: "SpecRecipe \<Rightarrow> sdk" where
  "depot_sdk recipe = \<lparr>sk_ParseConstraint = \<lambda>_. Inr \<lparr>cn_IsExact = True, cn_Resolve = \<lambda>_. Inl []\<rparr>,
     sk_ParseRetriever = \<lambda>_. Inr \<lparr>rv_Name = ''z'', rv_Cookbook = ''h.io/book'', rv_Recipes = [\<lparr>sl_Name = ''app'', sl_Version = ''1'', sl_Cookbook = []\<rparr>]\<rparr>,
     sk_ParseRecipe = \<lambda>_. Inr recipe, sk_Validate = \<lambda>r. (if distinct (map in_Name (re_Ingredients r)) then None else Some EUnknown),
     sk_ValidatePublishLocation = \<lambda>_ _ _. None, sk_VerifyManifest = \<lambda>_. Inr (''e'', ''doc''), sk_MaxDocumentBytes = 9,
     sk_manifest = \<lambda>p. if p = ''R'' then Some \<lparr>am_ArtifactType = [], am_ConfigMediaType = [], am_ConfigDigest = [], am_Layers = [''doc'']\<rparr>
       else if p = ''I'' then Some \<lparr>am_ArtifactType = [], am_ConfigMediaType = [], am_ConfigDigest = ''c'', am_Layers = []\<rparr> else None\<rparr>"

definition depot_recipe :: "SpecIngredient list \<Rightarrow> SpecRecipe" where
  "depot_recipe ings = \<lparr>re_Name = ''app'', re_Version = ''1'', re_Ingredients = ings\<rparr>"

definition depot_trust :: TrustPolicy where
  "depot_trust = \<lparr>tp_roots = [], tp_all = None,
     tp_scopes = [\<lparr>ts_Name = ''lab'', ts_Repositories = [''h.io/book/*''], ts_AllowUnsigned = True, ts_Roots = []\<rparr>]\<rparr>"

definition depot_engine :: "SpecIngredient list \<Rightarrow> eng_error + src_image \<Rightarrow> depot sync_engine" where
  "depot_engine ings answer = \<lparr>se_store = \<lparr>me_Store = depot_dst, me_SetProvenance = \<lambda>_ _ s. (s, None),
       me_PutRecipeRecord = \<lambda>r s. (s\<lparr>dp_records := r # dp_records s\<rparr>, None)\<rparr>,
     se_remotes = \<lparr>rm_subs = [], rm_insecure = {}, rm_allowlist = None, rm_keychain = \<lambda>_. None\<rparr>,
     se_trust = depot_trust,
     se_source = ''f'', se_base = [], se_retries = 0, se_sdk = depot_sdk (depot_recipe ings), se_codec = demo_codec, se_world = \<lambda>_. depot_client answer, se_open = \<lambda>_ _ d sz plain. plain,
     se_cancelled = \<lambda>_. False, se_now = \<lambda>_. 0, se_files = \<lambda>_. Some (Inr []), se_digestOK = \<lambda>_. True, se_isIndex = \<lambda>mt. mt = ''index'',
     se_indexDigests = \<lambda>_. None, se_marshalIndex = \<lambda>_. Inl EUnknown, se_fault = \<lambda>_. EUnknown, se_reason = \<lambda>_. [], se_text = \<lambda>_. [], se_tooLarge = [],
     se_OCIArtifact = ''artifact'', se_HelmChart = ''chart'', se_OCIImageIndex = ''index'', se_VerifyChart = \<lambda>_. ([], None), se_preflight = \<lambda>_. None,
     se_promote = \<lambda>_ _ _ x. x, se_pruner = \<lparr>pn_RecipeRecords = \<lambda>_. Inr [], pn_DeleteRecipeRecord = \<lambda>_ _ s. Inr s, pn_ProvenanceOf = \<lambda>_ _. None,
       pn_PruneTags = \<lambda>_ s. (s, Inr \<lparr>ps_Tags = 0, ps_Repositories = 0, ps_ContentSwept = 0, ps_ContentDeferred = 0\<rparr>), pn_ManifestSize = \<lambda>_ _ _. None\<rparr>,
     se_media = None\<rparr>"

definition empty_task :: Task where
  "empty_task = \<lparr>tk_ID = [], tk_RunID = ''run'', tk_Type = ''sync'', tk_Reference = [], tk_Actor = [], tk_Status = StatusRunning, tk_Created = 0,
     tk_Started = 0, tk_Finished = 0, tk_Resumed = False, tk_VendorDependencies = False, tk_Layout = None, tk_MediaOverrides = [], tk_Error = None,
     tk_Items = [], tk_ChartDependencies = [], tk_Prune = False, tk_Pruned = [], tk_Resolutions = []\<rparr>"

definition depot_start :: "depot sync_state" where
  "depot_start = \<lparr>st_store = \<lparr>sh_blobs = {}, sh_manifests = {}, sh_tags = Map.empty, dp_records = []\<rparr>, st_task = empty_task,
     st_resolved = newResolvedRecipes, st_tick = 0\<rparr>"


definition depot_needs :: "string \<Rightarrow> string set" where
  "depot_needs m = (if m = ''R'' then {''doc''} else if m \<in> {''I'', ''P'', ''Q''} then {''c''} else {})"

lemma depot_sound: "sound_engine (depot_engine ings (Inr (plain_image ''I''))) (\<lambda>p. p) depot_needs"
proof -
  let ?E = "depot_engine ings (Inr (plain_image ''I''))"
  have "lawful depot_dst (\<lambda>p. p)" by (auto simp: lawful_def depot_dst_def)
  moreover have "meta_quiet (se_store ?E)" by (simp add: meta_quiet_def same_content_def depot_engine_def depot_dst_def)
  moreover have "promote_quiet ?E depot_needs" by (simp add: promote_quiet_def depot_engine_def)
  moreover have "coherent_desc (\<lambda>p. p) depot_needs desc" if "cl_Get (depot_client (Inr (plain_image ''I''))) ref = Inr desc" for ref desc
    using that by (cases ref)
      (auto simp: depot_client_def depot_desc_def coherent_desc_def pair_index_def coherent_image_def plain_image_def depot_needs_def split: if_splits)
  moreover have "depot_needs p \<subseteq> set (am_ConfigDigest m # am_Layers m) - {[]}" if "sk_manifest (depot_sdk r) p = Some m" for r p m
    using that by (auto simp: depot_sdk_def depot_needs_def split: if_splits)
  moreover have "named_world ?E (\<lambda>p. p)"
    by (auto simp: named_world_def depot_engine_def depot_client_def depot_desc_def split: reference.splits if_splits sum.splits)
  ultimately show ?thesis
    by (simp add: sound_engine_def faithful_world_def depot_engine_def)
qed

lemma depot_distinct: "distinct_ingredients (depot_sdk r)"
  by (auto simp: distinct_ingredients_def depot_sdk_def split: if_splits)


theorem unadmitted_recipe_stores_nothing_witness:
  "\<exists>repo scope. nominalRepoOf ''h.io/book'' ''app'' = Inr repo \<and> relaxed_scope depot_trust scope repo"
proof -
  let ?E = "depot_engine [] (Inl EUnknown)" and ?entry = "\<lparr>sl_Name = ''app'', sl_Version = ''1'', sl_Cookbook = []\<rparr>"
  have "recipeKey ''app'' ''1'' \<in> rs_keys (st_resolved (syncRecipe ?E ''h.io/book'' ?entry ''z'' depot_start))" by code_simp
  moreover have "rs_keys (st_resolved depot_start) = {}" by (simp add: depot_start_def newResolvedRecipes_def)
  ultimately have "rs_keys (st_resolved (syncRecipe ?E ''h.io/book'' ?entry ''z'' depot_start)) \<noteq> rs_keys (st_resolved depot_start)" by blast
  from unadmitted_recipe_stores_nothing [OF disjI2 [OF disjI1 [OF this]]]
  obtain repo where r: "nominalRepoOf ''h.io/book'' ''app'' = Inr repo" "(\<exists>k. policy_key depot_trust k) \<or> (\<exists>scope. relaxed_scope depot_trust scope repo)"
    by (auto simp: depot_engine_def)
  have "\<not> policy_key depot_trust k" for k by (simp add: policy_key_def depot_trust_def)
  with r show ?thesis by blast
qed

subsection \<open>What a complete run does not promise\<close>

lemma copy_blobs_tags:
  assumes "lawful D dig"
  shows "copy_blobs D ok fetch repo ds s = (s', x) \<Longrightarrow> ds_ResolveTag D s' = ds_ResolveTag D s"
  by (induction ds arbitrary: s) (auto dest: lawful_write(5) [OF assms] split: if_splits sum.splits prod.splits option.splits)

lemma copy_artifact_tags:
  assumes "sound_engine E dig needs" "copy_artifact E C nominalRepo repo tag payload mt s = (s', x)" "t \<noteq> tag"
  shows "ds_ResolveTag (se_dst E) s' r t = ds_ResolveTag (se_dst E) s r t"
proof -
  note law = sound_engineD(1) [OF assms(1)]
  show ?thesis
    using assms(2,3) lawful_put(4) [OF law, of repo mt payload tag _ _ _ r t]
    by (auto simp: copy_artifact_def copyArtifact_def simp del: copy_blobs.simps dest!: copy_blobs_tags [OF law] split: option.splits sum.splits prod.splits)
qed

lemma copy_referrers_tags:
  assumes "sound_engine E dig needs" "t \<noteq> []"
  shows "copy_referrers E C nominalRepo repo ds seen s = (s', copied) \<Longrightarrow> ds_ResolveTag (se_dst E) s' r t = ds_ResolveTag (se_dst E) s r t"
proof (induction ds arbitrary: seen s copied)
  case (Cons d ds)
  show ?case
  proof (cases "d = [] \<or> d \<in> seen \<or> (\<exists>e. Get_desc C (se_remotes E) nominalRepo d = Inl e)")
    case False
    then obtain desc where g: "Get_desc C (se_remotes E) nominalRepo d = Inr desc" by (cases "Get_desc C (se_remotes E) nominalRepo d") auto
    obtain s1 x where c: "copy_artifact E C nominalRepo repo [] (de_Manifest desc) (de_MediaType desc) s = (s1, x)" by fastforce
    obtain copied' where "copy_referrers E C nominalRepo repo ds (insert d seen) s1 = (s', copied')"
      using Cons.prems False g c by (auto split: option.splits prod.splits)
    from Cons.IH [OF this] copy_artifact_tags [OF assms(1) c assms(2)] show ?thesis by simp
  qed (use Cons in \<open>auto split: if_splits\<close>)
qed simp

lemma copyAttachedSignature_tags:
  assumes "sound_engine E dig needs" "t \<notin> {[], SignatureTag d, ''sha256-'' @ trim_prefix ''sha256:'' d}"
  shows "ds_ResolveTag (se_dst E) (copyAttachedSignature E C nominalRepo repo d s) r t = ds_ResolveTag (se_dst E) s r t"
proof -
  let ?tag = "''sha256-'' @ trim_prefix ''sha256:'' d"
  have "ds_ResolveTag (se_dst E) (copyReferringSignatures E C nominalRepo repo d s0) r t = ds_ResolveTag (se_dst E) s0 r t" for s0
  proof -
    let ?ds = "fst (Referrers C (se_remotes E) nominalRepo d) @ (case Get_desc C (se_remotes E) nominalRepo ?tag of
      Inl _ \<Rightarrow> [] | Inr desc \<Rightarrow> (case se_indexDigests E (de_Manifest desc) of None \<Rightarrow> [] | Some ds \<Rightarrow> ds))"
    obtain s1 copied where c: "copy_referrers E C nominalRepo repo ?ds {} s0 = (s1, copied)" by fastforce
    have "t \<noteq> []" "t \<noteq> ?tag" using assms(2) by auto
    note same = copy_referrers_tags [OF assms(1) this(1) c, of r]
    have "ds_ResolveTag (se_dst E) (fst (ds_PutManifest (se_dst E) repo mt idx ?tag s1)) r t = ds_ResolveTag (se_dst E) s1 r t" for mt idx
      using lawful_put(4) [OF sound_engineD(1) [OF assms(1)] prod.collapse [symmetric]] \<open>t \<noteq> ?tag\<close> by (metis prod.inject)
    with same c show ?thesis by (simp add: copyReferringSignatures_def Let_def split: sum.split)
  qed
  moreover have "ds_ResolveTag (se_dst E) (fst (copy_artifact E C nominalRepo repo (SignatureTag d) p mt s)) r t = ds_ResolveTag (se_dst E) s r t" for p mt
    using copy_artifact_tags [OF assms(1) prod.collapse [symmetric], where t = t] assms(2) by simp
  ultimately show ?thesis by (simp add: copyAttachedSignature_def Let_def split: sum.split)
qed

lemma recordProvenance_content:
  assumes "sound_engine E dig needs"
  shows "same_content (se_dst E) (st_store st) (st_store (recordProvenance E repo rid st))"
  using sound_engineD(2) [OF assms] by (auto simp: recordProvenance_def meta_quiet_def split: prod.splits)

text \<open>What a transfer leaves behind: the version names the pinned digest, whatever platforms were selected.\<close>

lemma synced_pinned:
  assumes "sound_engine E dig needs" "syncIngredient E ing rid st = (st', res, None)"
    and "in_Version ing \<notin> {[], SignatureTag (in_Digest ing), ''sha256-'' @ trim_prefix ''sha256:'' (in_Digest ing)}"
  shows "pinned E ing (ir_Repo (ingredientRecord E ing)) (st_store st')"
proof -
  let ?repo = "ir_Repo (ingredientRecord E ing)"
  obtain eff where eff: "Effective (se_remotes E) (in_Ref ing) = Inr eff" using assms(2) by (auto simp: syncIngredient_def Let_def split: sum.splits)
  have keep: "pinned E ing ?repo (st_store (recordProvenance E ?repo rid st0))" if "pinned E ing ?repo (st_store st0)" for st0
    using recordProvenance_content [OF assms(1)] that by (simp add: pinned_def same_content_def)
  show ?thesis
  proof (cases "ds_HasManifest (se_dst E) (st_store st) ?repo (in_Digest ing) \<and> ds_ResolveTag (se_dst E) (st_store st) ?repo (in_Version ing) = Some (in_Digest ing)")
    case True
    then have "pinned E ing ?repo (st_store st)" by (simp add: pinned_def)
    then show ?thesis using keep [of "on_item _ _ st"] assms(2) eff True by (auto simp: syncIngredient_def Let_def)
  next
    case False
    obtain st1 n1 where w: "withRetries (\<lambda>(st, _). se_cancelled E (st_tick st)) (se_retries E) (transfer_attempt E ing ?repo) 0 (st, 0) = ((st1, n1), None)"
      and st': "st_store st' = st_store (recordProvenance E ?repo rid
          (tick st1\<lparr>st_store := copyAttachedSignature E (now_client E st1) (in_Ref ing) ?repo (in_Digest ing) (st_store st1)\<rparr>))"
      using assms(2) eff False by (auto simp: syncIngredient_def Let_def split: prod.splits option.splits)
    have "pinned E ing ?repo (st_store st1)" using transfers_keep(2) [OF assms(1) w] by simp
    moreover have "ds_HasManifest (se_dst E) (copyAttachedSignature E (now_client E st1) (in_Ref ing) ?repo (in_Digest ing) (st_store st1)) r m"
      if "ds_HasManifest (se_dst E) (st_store st1) r m" for r m
      using copyAttachedSignature_keeps [OF assms(1)] that by (simp add: preserves_def grows_def)
    ultimately show ?thesis unfolding st' using copyAttachedSignature_tags [OF assms(1,3)] by (intro keep) (simp add: pinned_def)
  qed
qed



text \<open>A recipe one of whose ingredients failed is recorded all the same, without that ingredient.\<close>

lemma failed_ingredient_recorded:
  "let ings = [depot_ingredient ''web'' ''I'' []]; (st', x) = run_sync (depot_engine ings (Inl EUnknown)) depot_start
   in x = None \<and> \<not> rs_complete (st_resolved st') \<and> recipeKey ''app'' ''1'' \<in> rs_keys (st_resolved st')
      \<and> map rr_Ingredients (dp_records (st_store st')) = [[]]"
  by code_simp

text \<open>An ingredient named \<open>recipe\<close> shares its task item with the recipe artifact: the artifact counts as settled and is
  never stored.\<close>

lemma ingredient_named_recipe:
  "let ings = [depot_ingredient ''recipe'' ''I'' []]; (st', x) = run_sync (depot_engine ings (Inr (plain_image ''I''))) depot_start
   in x = None \<and> rs_complete (st_resolved st') \<and> recipeKey ''app'' ''1'' \<in> rs_keys (st_resolved st')
      \<and> ds_HasManifest depot_dst (st_store st') ''h.io/web'' ''I'' \<and> \<not> ds_HasManifest depot_dst (st_store st') ''h.io/book/app'' ''R''"
  by code_simp

subsection \<open>Retries and selection\<close>

lemma tagged_matches:
  "(\<exists>k \<in> set (filter (\<lambda>k. kid_platform k \<noteq> None) kids). Q k \<and> MatchesPlatform want (the (kid_platform k))) \<longleftrightarrow>
     (\<exists>k \<in> set kids. Q k \<and> (\<exists>pf. kid_platform k = Some pf \<and> MatchesPlatform want pf))"
  by force

text \<open>Every wanted platform is served or named: a selection succeeds exactly when each selector matches a child of the
  index, and then the children copied are those some selector matches, an omitted variant matching any.\<close>

theorem selectPlatforms_exact:
  assumes "in_Platforms ing \<noteq> []" "de_ImageIndex desc = Inr idx" "ix_manifest idx = Inr kids"
  shows "selectPlatforms desc ing = Inr (Some S) \<longleftrightarrow>
      (\<forall>want \<in> set (in_Platforms ing). \<exists>k \<in> set kids. \<exists>pf. kid_platform k = Some pf \<and> MatchesPlatform want pf)
      \<and> S = {kid_digest k | k. k \<in> set kids \<and> (\<exists>pf. kid_platform k = Some pf \<and> (\<exists>want \<in> set (in_Platforms ing). MatchesPlatform want pf))}"
proof -
  let ?tagged = "filter (\<lambda>k. kid_platform k \<noteq> None) kids"
  let ?selected = "set (map kid_digest (filter (\<lambda>k. list_ex (\<lambda>want. MatchesPlatform want (the (kid_platform k))) (in_Platforms ing)) ?tagged))"
  let ?missing = "filter (\<lambda>want. \<not> list_ex (\<lambda>k. MatchesPlatform want (the (kid_platform k))) ?tagged) (in_Platforms ing)"
  have "selectPlatforms desc ing = Inr (Some S) \<longleftrightarrow> ?missing = [] \<and> S = ?selected"
    using assms by (auto simp: selectPlatforms_def Let_def)
  moreover have "?missing = [] \<longleftrightarrow> (\<forall>want \<in> set (in_Platforms ing). \<exists>k \<in> set kids. \<exists>pf. kid_platform k = Some pf \<and> MatchesPlatform want pf)"
    using tagged_matches [of kids "\<lambda>_. True"] by (simp add: filter_empty_conv list_ex_iff)
  moreover have "?selected = {kid_digest k | k. k \<in> set kids \<and> (\<exists>pf. kid_platform k = Some pf \<and> (\<exists>want \<in> set (in_Platforms ing). MatchesPlatform want pf))}"
    by (fastforce simp: list_ex_iff)
  ultimately show ?thesis by simp
qed

theorem selectPlatforms_exact_witness:
  "\<exists>kids. ix_manifest pair_index = Inr kids \<and> {kid_digest k | k. k \<in> set kids \<and> (\<exists>pf. kid_platform k = Some pf \<and>
     (\<exists>want \<in> set [''linux/arm64'']. MatchesPlatform want pf))} = {''Q''}"
proof -
  let ?ing = "depot_ingredient ''b'' ''X'' [''linux/arm64'']" and ?desc = "depot_desc ''X'' ''index'' (Inr pair_index) (Inl EUnknown)"
  have sel: "selectPlatforms ?desc ?ing = Inr (Some {''Q''})" by code_simp
  obtain kids where k: "ix_manifest pair_index = Inr kids" by (simp add: pair_index_def)
  have i: "in_Platforms ?ing = [''linux/arm64'']" "de_ImageIndex ?desc = Inr pair_index" by (simp_all add: depot_ingredient_def depot_desc_def)
  have "in_Platforms ?ing \<noteq> []" using i(1) by simp
  note e = conjunct2 [OF selectPlatforms_exact [OF this i(2) k, THEN iffD1, OF sel], unfolded i(1)]
  show ?thesis by (intro exI conjI) (rule k, rule e [symmetric])
qed

text \<open>The attempts of a function, counted.\<close>

definition counted :: "('a \<Rightarrow> 'a \<times> eng_error option) \<Rightarrow> 'a \<times> nat \<Rightarrow> ('a \<times> nat) \<times> eng_error option" where
  "counted fn sk = (case sk of (s, k) \<Rightarrow> (case fn s of (s', x) \<Rightarrow> ((s', Suc k), x)))"

lemma attempts_from:
  "withRetries cancelled retries (counted fn) attempt (s, k) = ((s', k'), x) \<Longrightarrow> k < k' \<and> int k' \<le> int k + 1 + max 0 (retries - int attempt)
     \<and> ((\<forall>s s' e. fn s = (s', Some e) \<longrightarrow> permanent e) \<longrightarrow> k' = Suc k)"
proof (induction "nat (retries - int attempt)" arbitrary: attempt s k rule: less_induct)
  case less
  obtain s1 y where f: "fn s = (s1, y)" by fastforce
  then have c: "counted fn (s, k) = ((s1, Suc k), y)" by (simp add: counted_def)
  show ?case
  proof (cases "\<exists>e. y = Some e \<and> \<not> (int attempt \<ge> retries \<or> permanent e \<or> cancelled (s1, Suc k))")
    case True
    then have w: "withRetries cancelled retries (counted fn) (Suc attempt) (s1, Suc k) = ((s', k'), x)" "nat (retries - int (Suc attempt)) < nat (retries - int attempt)"
      using less.prems c by (auto simp: withRetries.simps [of cancelled retries "counted fn" attempt])
    note ih = less.hyps [OF w(2,1)]
    obtain e where e: "fn s = (s1, Some e)" "\<not> permanent e" "int attempt < retries" using True f by auto
    then have "\<not> (\<forall>s s' e. fn s = (s', Some e) \<longrightarrow> permanent e)" by blast
    then show ?thesis using ih e(3) by (simp add: max_def)
  next
    case False
    then have "k' = Suc k" using less.prems c by (auto simp: withRetries.simps [of cancelled retries "counted fn" attempt] split: option.splits if_splits)
    then show ?thesis by simp
  qed
qed

text \<open>C33: Retries are bounded: at least one attempt, at most one more than configured (a negative number counting as
  none), and exactly one when every failure is a verdict no retry can change. The loop always ends.\<close>

theorem retries_bounded:
  assumes "withRetries cancelled retries (counted fn) 0 (s, 0) = ((s', k), x)"
  shows "1 \<le> k \<and> int k \<le> 1 + max 0 retries \<and> ((\<forall>s s' e. fn s = (s', Some e) \<longrightarrow> permanent e) \<longrightarrow> k = 1)"
  using attempts_from [OF assms] by simp

theorem retries_bounded_witness:
  "\<exists>k. withRetries (\<lambda>_. False) 5 (counted (\<lambda>s. (s, Some (ETax CodeSignature [])))) 0 ((), 0) = (((), k), Some (ETax CodeSignature [])) \<and> k = 1"
proof -
  have p: "permanent (ETax CodeSignature [])" by code_simp
  have w: "withRetries (\<lambda>_. False) 5 (counted (\<lambda>s. (s, Some (ETax CodeSignature [])))) 0 ((), 0) = (((), 1), Some (ETax CodeSignature []))"
    using p by (simp add: withRetries.simps counted_def)
  from retries_bounded [OF w] w p show ?thesis by simp
qed

end
