(* ===== verification/Promote.thy ===== *)
theory Promote
  imports Sync_Results
begin

text \<open>
  Promotion into the destination zone: \<^verbatim>\<open>engine/promote.go\<close>, \<^verbatim>\<open>engine/push.go\<close> and \<^verbatim>\<open>engine/destination.go\<close>. Ingredients are pushed
  first, each after its refusals, blobs before the manifest that names them; the recipe is published last.

  The registry at the destination is a record of requests on a state of its own, of which the documentation
  of the client library is all that is known (\<open>far_lawful\<close>). Meters and log lines are left out.
\<close>

subsection \<open>The destination\<close>

record Destination =
  dn_host :: string
  dn_basePath :: string
  dn_cookbook :: string
  dn_insecure :: bool
  dn_allowlist :: "allowlist option"

text \<open>What the libraries provide: the bound of the name grammar, the parser of
  repository names with the text of its refusal.\<close>

record far_names =
  fn_NameMax :: nat
  fn_NewRepository :: "string \<Rightarrow> bool \<Rightarrow> string + repository"
  
definition NewDestination :: "string \<Rightarrow> string \<Rightarrow> string \<Rightarrow> string list \<Rightarrow> allowlist option \<Rightarrow> string \<Rightarrow> ref_error + Destination option" where
  "NewDestination registry basePath cookbook insecure allow defaultCookbook =
     (if registry = [] then Inr None
      else bind_r (Host registry) (\<lambda>host.
        let slash = (\<lambda>c. c = CHR ''/''); book = trim_by slash cookbook in
        Inr (Some \<lparr>dn_host = host, dn_basePath = trim_by slash basePath, dn_cookbook = (if book = [] then defaultCookbook else book),
                   dn_insecure = list_ex (\<lambda>h. Host h = Inr host) insecure, dn_allowlist = allow\<rparr>)))"

definition Path_far :: "Destination \<Rightarrow> string \<Rightarrow> string" where
  "Path_far d relocated = (if dn_basePath d = [] then relocated else dn_basePath d @ ''/'' @ relocated)"

definition Repository_far :: "far_names \<Rightarrow> Destination \<Rightarrow> string \<Rightarrow> eng_error + repository" where
  "Repository_far N d relocated =
     (let path = Path_far d relocated; full = dn_host d @ ''/'' @ path in
      if length path > fn_NameMax N then
        Inl (ETax CodeDestinationLimit [(''reference'', full),
          (''limit'', ''repository names are bounded at '' @ nat_str (fn_NameMax N) @ '' characters by the OCI name grammar; the relocated path is '' @ nat_str (length path))])
      else case fn_NewRepository N full (dn_insecure d) of
        Inl text \<Rightarrow> Inl (ETax CodeDestinationLimit [(''reference'', full), (''limit'', ''the relocated path is not a valid OCI repository name: '' @ text)])
      | Inr repo \<Rightarrow>
          (case fst (Check (dn_allowlist d) (nr_Registry repo)) of
             Some (NotAllowlisted host) \<Rightarrow> Inl (ETax CodeNotAllowlisted [(''host'', host)])
           | None \<Rightarrow> Inr repo))"

definition cookbookPath :: "Destination \<Rightarrow> string \<Rightarrow> string" where
  "cookbookPath d recipeName = dn_cookbook d @ ''/'' @ recipeName"

definition CookbookTag :: "far_names \<Rightarrow> Destination \<Rightarrow> string \<Rightarrow> string \<Rightarrow> eng_error + (repository \<times> string)" where
  "CookbookTag N d recipeName version = bind_r (Repository_far N d (cookbookPath d recipeName)) (\<lambda>repo. Inr (repo, version))"

text \<open>Requests to the destination: \<open>fa_Put\<close> takes the tag or the digest it writes under.\<close>

datatype far_target = Under_tag string | Under_digest string

record 'd far =
  fa_Head :: "'d \<Rightarrow> repository \<Rightarrow> string \<Rightarrow> eng_error + string"
  fa_Get :: "'d \<Rightarrow> repository \<Rightarrow> string \<Rightarrow> eng_error + string"
  fa_List :: "'d \<Rightarrow> repository \<Rightarrow> eng_error option"
  fa_WriteLayer :: "repository \<Rightarrow> string \<Rightarrow> eng_error + string \<Rightarrow> 'd \<Rightarrow> ('d \<times> int) \<times> eng_error option"
  fa_Put :: "repository \<Rightarrow> far_target \<Rightarrow> string \<Rightarrow> string \<Rightarrow> 'd \<Rightarrow> 'd \<times> eng_error option"

definition repo_string :: "repository \<Rightarrow> string" where
  "repo_string r = nr_Registry r @ ''/'' @ nr_Path r"

definition count_byte :: "char \<Rightarrow> string \<Rightarrow> nat" where
  "count_byte c s = length (filter (\<lambda>x. x = c) s)"

fun join_semi :: "string list \<Rightarrow> string" where
  "join_semi [] = []"
| "join_semi [x] = x"
| "join_semi (x # y # ys) = x @ ''; '' @ join_semi (y # ys)"

definition registryDiagnostic :: "(string \<times> string) list \<Rightarrow> string" where
  "registryDiagnostic errs =
     (let parts = concat (map (\<lambda>(code, message). let msg = trim_space message in
            if code \<noteq> [] \<and> msg \<noteq> [] then [code @ '': '' @ msg] else if code \<noteq> [] then [code] else if msg \<noteq> [] then [msg] else []) errs)
      in if parts = [] then ''no diagnostic supplied'' else join_semi parts)"

definition probe :: "'d far \<Rightarrow> repository \<Rightarrow> 'd \<Rightarrow> eng_error option" where
  "probe F repo d =
     (case fa_List F d repo of
        None \<Rightarrow> None
      | Some (EStatus st errs) \<Rightarrow>
          if st = 404 then None
          else if st = 400 \<or> st = 405 \<or> st = 501 then
            Some (ETax CodeDestinationLimit [(''reference'', repo_string repo),
              (''limit'', ''the destination refuses this name (HTTP '' @ nat_str (nat st) @ ''): '' @ registryDiagnostic errs @ '' '' @ [CHR 0xE2, CHR 0x80, CHR 0x94]
                 @ '' the relocated path has '' @ nat_str (count_byte CHR ''/'' (nr_Path repo) + 1) @ '' components (RECIPE-SPEC '' @ [CHR 0xC2, CHR 0xA7]
                 @ ''11.5); a registry limited to fewer needs destination.basePath shortened or a registry that accepts nested repositories'')])
          else Some (EStatus st errs)
      | Some e \<Rightarrow> Some e)"

text \<open>Only verdicts on names are cached.\<close>

type_synonym accepted = "(string \<times> eng_error option) list"

definition Accepts :: "'d far \<Rightarrow> repository \<Rightarrow> 'd \<Rightarrow> accepted \<Rightarrow> accepted \<times> eng_error option" where
  "Accepts F repo d cache =
     (case map_of cache (repo_string repo) of
        Some verdict \<Rightarrow> (cache, verdict)
      | None \<Rightarrow>
          (case probe F repo d of
             None \<Rightarrow> (map_put (repo_string repo) None cache, None)
           | Some e \<Rightarrow>
               ((case e of ETax c _ \<Rightarrow> if c = CodeDestinationLimit then map_put (repo_string repo) (Some e) cache else cache | _ \<Rightarrow> cache), Some e)))"

definition Status_far :: "'d far \<Rightarrow> repository \<Rightarrow> string \<Rightarrow> string \<Rightarrow> 'd \<Rightarrow> eng_error + string" where
  "Status_far F repo tag want d =
     (case fa_Head F d repo tag of
        Inl e \<Rightarrow> if isNotFound e then Inr ''new'' else Inl e
      | Inr got \<Rightarrow> Inr (if got = want then ''up-to-date'' else ''outdated''))"

subsection \<open>Pushing manifests\<close>

text \<open>The store as the push reads it.\<close>

record 's StoreReader =
  sr_RawManifest :: "'s \<Rightarrow> string \<Rightarrow> string \<Rightarrow> eng_error + (string \<times> string \<times> string)"
  sr_BlobReader :: "'s \<Rightarrow> string \<Rightarrow> string \<Rightarrow> eng_error + string"

text \<open>At instant \<open>n\<close> of a run the destination answers as \<open>po_far n\<close>. \<open>po_identical\<close> is the format's rule on writing to
  an existing tag.\<close>

record ('s, 'd) promoter =
  po_engine :: "'s sync_engine"
  po_reader :: "'s StoreReader"
  po_names :: far_names
  po_dest :: Destination
  po_far :: "nat \<Rightarrow> 'd far"
  po_hashOK :: "string \<Rightarrow> bool"
  po_identical :: "string \<Rightarrow> string \<Rightarrow> bool"
  po_levels :: nat

fun pushBlobs :: "('s, 'd) promoter \<Rightarrow> 'd far \<Rightarrow> 's \<Rightarrow> string \<Rightarrow> repository \<Rightarrow> string list \<Rightarrow> 'd \<times> int \<Rightarrow> ('d \<times> int) \<times> eng_error option" where
  "pushBlobs P F s srcRepo dst [] (d, moved) = ((d, moved), None)"
| "pushBlobs P F s srcRepo dst (b # bs) (d, moved) =
     (if b = [] then pushBlobs P F s srcRepo dst bs (d, moved)
      else if \<not> po_hashOK P b then ((d, moved), Some (EOther ''blob digest''))
      else case fa_WriteLayer F dst b (sr_BlobReader (po_reader P) s srcRepo b) d of
        ((d, n), Some e) \<Rightarrow> ((d, moved + n), Some e)
      | ((d, n), None) \<Rightarrow> pushBlobs P F s srcRepo dst bs (d, moved + n))"

text \<open>The descent into indexes is cut after \<open>po_levels\<close> levels, which are enough when no index contains itself
  (\<open>levels_enough\<close>).\<close>

fun pushManifest :: "('s, 'd) promoter \<Rightarrow> 'd far \<Rightarrow> 's \<Rightarrow> nat \<Rightarrow> string \<Rightarrow> repository \<Rightarrow> string \<Rightarrow> string \<Rightarrow> 'd \<times> int \<Rightarrow> ('d \<times> int) \<times> eng_error option"
  and pushIndexChildren :: "('s, 'd) promoter \<Rightarrow> 'd far \<Rightarrow> 's \<Rightarrow> nat \<Rightarrow> string \<Rightarrow> repository \<Rightarrow> string list \<Rightarrow> 'd \<times> int \<Rightarrow> ('d \<times> int) \<times> eng_error option" where
  "pushManifest P F s 0 srcRepo dst ref tag dm = (dm, Some (EOther ''levels''))"
| "pushManifest P F s (Suc lv) srcRepo dst ref tag dm =
     (case sr_RawManifest (po_reader P) s srcRepo ref of
        Inl e \<Rightarrow> (dm, Some e)
      | Inr (payload, mt, dgst) \<Rightarrow>
          (case (if se_isIndex (po_engine P) mt then
                   (case se_indexDigests (po_engine P) payload of
                      None \<Rightarrow> (dm, Some (EOther ''parsing the index''))
                    | Some children \<Rightarrow> pushIndexChildren P F s lv srcRepo dst children dm)
                 else
                   (case sk_manifest (se_sdk (po_engine P)) payload of
                      None \<Rightarrow> (dm, Some (EOther ''parsing the manifest''))
                    | Some man \<Rightarrow> pushBlobs P F s srcRepo dst (am_ConfigDigest man # am_Layers man) dm)) of
             (dm, Some e) \<Rightarrow> (dm, Some e)
           | ((d, moved), None) \<Rightarrow>
               (case fa_Put F dst (if tag \<noteq> [] then Under_tag tag else Under_digest dgst) payload mt d of
                  (d, x) \<Rightarrow> ((d, moved), x))))"
| "pushIndexChildren P F s lv srcRepo dst [] dm = (dm, None)"
| "pushIndexChildren P F s lv srcRepo dst (child # children) dm =
     (case pushManifest P F s lv srcRepo dst child [] dm of
        (dm, Some e) \<Rightarrow> if e = EStoreMissing then pushIndexChildren P F s lv srcRepo dst children dm else (dm, Some e)
      | (dm, None) \<Rightarrow> pushIndexChildren P F s lv srcRepo dst children dm)"

subsection \<open>The state of a promotion\<close>

record ('s, 'd) push_state =
  ps_store :: 's
  ps_far :: 'd
  ps_task :: Task
  ps_accepted :: accepted
  ps_tick :: nat

record origin =
  og_stored :: "string \<Rightarrow> string \<Rightarrow> eng_error + string"
  og_upstream :: bool

definition ownContent :: "'s sync_engine \<Rightarrow> origin" where
  "ownContent E = \<lparr>og_stored = \<lambda>ref _. (case PathWithBase (se_base E) ref of Inl e \<Rightarrow> Inl (ERef e) | Inr p \<Rightarrow> Inr p), og_upstream = True\<rparr>"

definition now_far :: "('s, 'd) promoter \<Rightarrow> ('s, 'd) push_state \<Rightarrow> 'd far" where
  "now_far P st = po_far P (ps_tick st)"

definition wait :: "('s, 'd) push_state \<Rightarrow> ('s, 'd) push_state" where
  "wait st = st\<lparr>ps_tick := Suc (ps_tick st)\<rparr>"

definition push_item :: "string \<Rightarrow> string \<Rightarrow> (Item \<Rightarrow> Item) \<Rightarrow> ('s, 'd) push_state \<Rightarrow> ('s, 'd) push_state" where
  "push_item rid what f st =
     st\<lparr>ps_task := (ps_task st)\<lparr>tk_Items := itemFor (''push/'' @ rid @ ''/'' @ what) f (tk_Items (ps_task st))\<rparr>\<rparr>"

definition push_resolution :: "Resolution \<Rightarrow> ('s, 'd) push_state \<Rightarrow> ('s, 'd) push_state" where
  "push_resolution r st = st\<lparr>ps_task := (ps_task st)\<lparr>tk_Resolutions := tk_Resolutions (ps_task st) @ [r]\<rparr>\<rparr>"

definition pushFailed :: "('s, 'd) promoter \<Rightarrow> string \<Rightarrow> string \<Rightarrow> eng_error \<Rightarrow> string \<Rightarrow> ('s, 'd) push_state \<Rightarrow> ('s, 'd) push_state \<times> bool" where
  "pushFailed P rid what e subject st =
     (push_item rid what (\<lambda>i. i\<lparr>it_Status := StatusFailed, it_Error := Some (item_error (po_engine P) e subject)\<rparr>) st, False)"

text \<open>The store as a source of signatures, without a referrers index.\<close>

definition storeManifests :: "('s, 'd) promoter \<Rightarrow> 's \<Rightarrow> string \<Rightarrow> manifests" where
  "storeManifests P s repo =
     \<lparr>ms_Manifest = \<lambda>_ reference.
        (case sr_RawManifest (po_reader P) s repo reference of
           Inl e \<Rightarrow> if e = EStoreMissing then Inl NotFound else Inl (SrcFailed (se_text (po_engine P) e))
         | Inr (payload, _, _) \<Rightarrow> Inr payload),
      ms_Blob = \<lambda>_ d.
        (case sr_BlobReader (po_reader P) s repo d of
           Inl e \<Rightarrow> if e = EStoreMissing then Inl NotFound else Inl (SrcFailed (se_text (po_engine P) e))
         | Inr bytes \<Rightarrow> (case readBounded 1048576 (bytes, None) of Inl e \<Rightarrow> Inl (SrcFailed (se_text (po_engine P) e)) | Inr b \<Rightarrow> Inr b)),
      ms_Referrers = None\<rparr>"

definition referrersFallbackTag :: "string \<Rightarrow> string" where
  "referrersFallbackTag subject = dash_first subject"

definition signatureTags :: "string \<Rightarrow> string list" where
  "signatureTags subject = [SignatureTag subject, referrersFallbackTag subject]"

definition PushManifest :: "('s, 'd) promoter \<Rightarrow> string \<Rightarrow> repository \<Rightarrow> string \<Rightarrow> string \<Rightarrow> ('s, 'd) push_state \<Rightarrow>
    (('s, 'd) push_state \<times> int) \<times> eng_error option" where
  "PushManifest P local dst ref tag st =
     (case pushManifest P (now_far P st) (ps_store st) (po_levels P) local dst ref tag (ps_far st, 0) of
        ((d, n), x) \<Rightarrow> ((wait st\<lparr>ps_far := d\<rparr>, n), x))"

fun push_tags :: "('s, 'd) promoter \<Rightarrow> string \<Rightarrow> repository \<Rightarrow> string list \<Rightarrow> ('s, 'd) push_state \<times> int \<Rightarrow> ('s, 'd) push_state \<times> int" where
  "push_tags P local dst [] (st, moved) = (st, moved)"
| "push_tags P local dst (tag # tags) (st, moved) =
     (case PushManifest P local dst tag tag st of ((st, n), _) \<Rightarrow> push_tags P local dst tags (st, moved + n))"

definition pushAttachedSignatures :: "('s, 'd) promoter \<Rightarrow> string \<Rightarrow> repository \<Rightarrow> string \<Rightarrow> ('s, 'd) push_state \<Rightarrow> ('s, 'd) push_state \<times> int" where
  "pushAttachedSignatures P local dst subject st = push_tags P local dst (signatureTags subject) (st, 0)"

subsection \<open>Ingredients\<close>

definition sparseIndexRefused :: "eng_error \<Rightarrow> bool" where
  "sparseIndexRefused e =
     (case e of
        EStatus _ errs \<Rightarrow> list_ex (\<lambda>(code, _). code \<in> {''MANIFEST_BLOB_UNKNOWN'', ''MANIFEST_UNKNOWN'', ''MANIFEST_INVALID'', ''MANIFEST_UNVERIFIED''}) errs
      | _ \<Rightarrow> False)"

definition completeIndex :: "'s sync_engine \<Rightarrow> nat \<Rightarrow> SpecIngredient \<Rightarrow> string \<Rightarrow> 's \<Rightarrow> 's \<times> eng_error option" where
  "completeIndex E n ing local s =
     (let C = se_world E n in
      case Get_desc C (se_remotes E) (in_Ref ing) (in_Digest ing) of
        Inl e \<Rightarrow> (s, Some e)
      | Inr desc \<Rightarrow>
          if \<not> se_isIndex E (de_MediaType desc) then (s, None)
          else (case Repository C (se_remotes E) (in_Ref ing) of
                  Inl e \<Rightarrow> (s, Some e)
                | Inr (src, _) \<Rightarrow>
                    (case copyIndexChildren (se_dst E) (se_open E n src) local (in_Version ing) (de_MediaType desc) (de_ImageIndex desc) None s of
                       ((s, _), x) \<Rightarrow> (s, x))))"

definition push_attempt :: "('s, 'd) promoter \<Rightarrow> SpecIngredient \<Rightarrow> string \<Rightarrow> repository \<Rightarrow> ('s, 'd) push_state \<times> int \<Rightarrow> (('s, 'd) push_state \<times> int) \<times> eng_error option" where
  "push_attempt P ing local dst sn =
     (case sn of (st, moved) \<Rightarrow>
      case PushManifest P local dst (in_Digest ing) (in_Version ing) st of ((st, n), x) \<Rightarrow> ((st, moved + n), x))"

definition push_retried :: "('s, 'd) promoter \<Rightarrow> SpecIngredient \<Rightarrow> string \<Rightarrow> repository \<Rightarrow> ('s, 'd) push_state \<times> int \<Rightarrow> (('s, 'd) push_state \<times> int) \<times> eng_error option" where
  "push_retried P ing local dst sn =
     withRetries (\<lambda>(st, _). se_cancelled (po_engine P) (ps_tick st)) (se_retries (po_engine P)) (push_attempt P ing local dst) 0 sn"

text \<open>A destination that refuses the sparse index gets every platform.\<close>

definition push_widened :: "('s, 'd) promoter \<Rightarrow> origin \<Rightarrow> SpecIngredient \<Rightarrow> string \<Rightarrow> repository \<Rightarrow> ('s, 'd) push_state \<Rightarrow> (('s, 'd) push_state \<times> int) \<times> eng_error option" where
  "push_widened P org ing local dst st =
     (case push_retried P ing local dst (st, 0) of
        (sn, None) \<Rightarrow> (sn, None)
      | ((st, moved), Some e) \<Rightarrow>
          if og_upstream org \<and> sparseIndexRefused e then
            (case completeIndex (po_engine P) (ps_tick st) ing local (ps_store st) of
               (s, Some e) \<Rightarrow> ((wait st\<lparr>ps_store := s\<rparr>, moved), Some e)
             | (s, None) \<Rightarrow> push_retried P ing local dst (wait st\<lparr>ps_store := s\<rparr>, moved))
          else ((st, moved), Some e))"

definition destination_resolution :: "string \<Rightarrow> string \<Rightarrow> string \<Rightarrow> string \<Rightarrow> string \<Rightarrow> string \<Rightarrow> int \<Rightarrow> Resolution" where
  "destination_resolution rid ingredient version dgst destination status pushed =
     \<lparr>rs_Recipe = rid, rs_Ingredient = ingredient, rs_Requested = version, rs_Resolved = version, rs_Digest = dgst, rs_Status = [],
      rs_Effective = [], rs_TrustScope = [], rs_Destination = destination, rs_DestinationStatus = status, rs_PushedBytes = pushed\<rparr>"

text \<open>The refusals that come before any byte: the name, the allowlist, the destination's acceptance, the signature.\<close>

definition ingredient_target :: "('s, 'd) promoter \<Rightarrow> SpecIngredient \<Rightarrow> eng_error + repository" where
  "ingredient_target P ing =
     (case PathWithBase (se_base (po_engine P)) (in_Ref ing) of
        Inl e \<Rightarrow> Inl (ERef e)
      | Inr target \<Rightarrow> Repository_far (po_names P) (po_dest P) target)"

definition accept_name :: "('s, 'd) promoter \<Rightarrow> repository \<Rightarrow> ('s, 'd) push_state \<Rightarrow> ('s, 'd) push_state \<times> eng_error option" where
  "accept_name P dst st =
     (case Accepts (now_far P st) dst (ps_far st) (ps_accepted st) of (cache, x) \<Rightarrow> (wait st\<lparr>ps_accepted := cache\<rparr>, x))"

definition verify_ingredient :: "('s, 'd) promoter \<Rightarrow> SpecIngredient \<Rightarrow> string \<Rightarrow> ('s, 'd) push_state \<Rightarrow> verify_error option" where
  "verify_ingredient P ing local st =
     verifySignedStored (se_codec (po_engine P)) (storeManifests P (ps_store st) local) (se_trust (po_engine P)) local (in_Ref ing) (in_Digest ing)"

definition transfer_far :: "('s, 'd) promoter \<Rightarrow> origin \<Rightarrow> SpecIngredient \<Rightarrow> string \<Rightarrow> string \<Rightarrow> repository \<Rightarrow> string \<Rightarrow> ('s, 'd) push_state \<Rightarrow> ('s, 'd) push_state \<times> bool" where
  "transfer_far P org ing rid local dst status st =
     (let st = push_item rid (in_Name ing) (\<lambda>i. i\<lparr>it_Status := StatusRunning, it_Digest := in_Digest ing\<rparr>) st in
      case push_widened P org ing local dst st of
        ((st, moved), Some e) \<Rightarrow> pushFailed P rid (in_Name ing) e (in_Ref ing) st
      | ((st, moved), None) \<Rightarrow>
          (case pushAttachedSignatures P local dst (in_Digest ing) st of
             (st, n) \<Rightarrow>
               (push_resolution (destination_resolution rid (in_Name ing) (in_Version ing) (in_Digest ing) (repo_string dst) status (moved + n))
                  (push_item rid (in_Name ing) (\<lambda>i. i\<lparr>it_Status := StatusDone, it_SizeBytes := moved + n\<rparr>) st), True)))"

definition promoteIngredient :: "('s, 'd) promoter \<Rightarrow> origin \<Rightarrow> SpecIngredient \<Rightarrow> string \<Rightarrow> ('s, 'd) push_state \<Rightarrow> ('s, 'd) push_state \<times> bool" where
  "promoteIngredient P org ing rid st =
     (let failed = (\<lambda>e st. pushFailed P rid (in_Name ing) e (in_Ref ing) st) in
      case og_stored org (in_Ref ing) (in_Name ing) of
        Inl e \<Rightarrow> failed e st
      | Inr local \<Rightarrow>
      (case ingredient_target P ing of
        Inl e \<Rightarrow> failed e st
      | Inr dst \<Rightarrow>
      (case accept_name P dst st of
        (st, Some e) \<Rightarrow> failed e st
      | (st, None) \<Rightarrow>
      (case verify_ingredient P ing local st of
        Some e \<Rightarrow> failed (admit_fault (po_engine P) (SignatureError e)) st
      | None \<Rightarrow>
      (case Status_far (now_far P st) dst (in_Version ing) (in_Digest ing) (ps_far st) of
        Inl e \<Rightarrow> failed e (wait st)
      | Inr status \<Rightarrow>
          if status = ''up-to-date'' then
            (push_resolution (destination_resolution rid (in_Name ing) (in_Version ing) (in_Digest ing) (repo_string dst) status 0)
               (push_item rid (in_Name ing) (\<lambda>i. i\<lparr>it_Status := StatusSkipped\<rparr>) (wait st)), True)
          else transfer_far P org ing rid local dst status (wait st))))))"

subsection \<open>The recipe\<close>

text \<open>\<^verbatim>\<open>validationError\<close> of \<^verbatim>\<open>engine/publish.go\<close>.\<close>

definition validationError :: "'s sync_engine \<Rightarrow> string \<Rightarrow> eng_error \<Rightarrow> eng_error" where
  "validationError E ref e =
     ETax CodeValidation [(''file'', ref), (''path'', (case e of EField path _ \<Rightarrow> path | ELayout _ \<Rightarrow> layoutPath | _ \<Rightarrow> [])), (''constraint'', se_text E e)]"

definition tag_string :: "repository \<Rightarrow> string \<Rightarrow> string" where
  "tag_string dst tag = repo_string dst @ '':'' @ tag"

text \<open>What an existing tag means: the same artifact, the same document, or a conflict.\<close>

definition republication :: "('s, 'd) promoter \<Rightarrow> 'd far \<Rightarrow> 'd \<Rightarrow> repository \<Rightarrow> string \<Rightarrow> string \<Rightarrow> string \<Rightarrow> string \<Rightarrow> eng_error option" where
  "republication P F d dst tag existing dgst document =
     (if existing = dgst then None
      else case fa_Get F d dst tag of
        Inl e \<Rightarrow> Some e
      | Inr published \<Rightarrow>
          (case sk_VerifyManifest (se_sdk (po_engine P)) published of
             Inl _ \<Rightarrow> Some (ETax CodeTagImmutable [(''reference'', tag_string dst tag), (''published'', existing), (''candidate'', dgst)])
           | Inr (_, there) \<Rightarrow>
               if po_identical P there document then None
               else Some (ETax CodeTagImmutable [(''reference'', tag_string dst tag), (''published'', there), (''candidate'', document)])))"

definition publish_recipe :: "('s, 'd) promoter \<Rightarrow> FetchedRecipe \<Rightarrow> string \<Rightarrow> string \<Rightarrow> repository \<Rightarrow> string \<Rightarrow> string \<Rightarrow> ('s, 'd) push_state \<Rightarrow> ('s, 'd) push_state \<times> bool" where
  "publish_recipe P f local rid dst tag dgst st =
     (let st = push_item rid ''recipe'' (\<lambda>i. i\<lparr>it_Status := StatusRunning, it_Digest := dgst\<rparr>) st in
      case PushManifest P local dst (fr_Tag f) (fr_Tag f) st of
        ((st, moved), Some e) \<Rightarrow> pushFailed P rid ''recipe'' e rid st
      | ((st, moved), None) \<Rightarrow>
          (case pushAttachedSignatures P local dst dgst st of
             (st, n) \<Rightarrow>
               (push_resolution (destination_resolution rid [] (fr_Tag f) dgst (tag_string dst tag) ''new'' (moved + n))
                  (push_item rid ''recipe'' (\<lambda>i. i\<lparr>it_Status := StatusDone, it_SizeBytes := moved + n\<rparr>) st), True)))"

definition propagateRecipe :: "('s, 'd) promoter \<Rightarrow> FetchedRecipe \<Rightarrow> SpecRecipe \<Rightarrow> string \<Rightarrow> string \<Rightarrow> ('s, 'd) push_state \<Rightarrow> ('s, 'd) push_state \<times> bool" where
  "propagateRecipe P f recipe local rid st =
     (let failed = (\<lambda>e st. pushFailed P rid ''recipe'' e rid st) in
      case CookbookTag (po_names P) (po_dest P) (re_Name recipe) (re_Version recipe) of
        Inl e \<Rightarrow> failed e st
      | Inr (dst, tag) \<Rightarrow>
      (case accept_name P dst st of
        (st, Some e) \<Rightarrow> failed e st
      | (st, None) \<Rightarrow>
      (case sr_RawManifest (po_reader P) (ps_store st) local (fr_Tag f) of
        Inl e \<Rightarrow> failed e st
      | Inr (payload, _, dgst) \<Rightarrow>
      (case sk_VerifyManifest (se_sdk (po_engine P)) payload of
        Inl e \<Rightarrow> failed (validationError (po_engine P) (tag_string dst tag) e) st
      | Inr (_, document) \<Rightarrow>
      (case fa_Head (now_far P st) (ps_far st) dst tag of
        Inr existing \<Rightarrow>
          (case republication P (now_far P st) (ps_far st) dst tag existing dgst document of
             Some e \<Rightarrow> failed e (wait st)
           | None \<Rightarrow>
               (push_resolution (destination_resolution rid [] (fr_Tag f) dgst (tag_string dst tag) ''up-to-date'' 0)
                  (push_item rid ''recipe'' (\<lambda>i. i\<lparr>it_Status := StatusSkipped\<rparr>) (wait st)), True))
      | Inl e \<Rightarrow>
          if \<not> isNotFound e then failed e (wait st)
          else publish_recipe P f local rid dst tag dgst (wait st))))))"

fun promote_ingredients :: "('s, 'd) promoter \<Rightarrow> origin \<Rightarrow> string \<Rightarrow> SpecIngredient list \<Rightarrow> ('s, 'd) push_state \<times> bool \<Rightarrow> ('s, 'd) push_state \<times> bool" where
  "promote_ingredients P org rid [] sb = sb"
| "promote_ingredients P org rid (ing # ings) (st, allPushed) =
     (case promoteIngredient P org ing rid st of (st, ok) \<Rightarrow> promote_ingredients P org rid ings (st, allPushed \<and> ok))"

definition promoteRecipe :: "('s, 'd) promoter \<Rightarrow> origin \<Rightarrow> FetchedRecipe \<Rightarrow> SpecRecipe \<Rightarrow> string \<Rightarrow> ('s, 'd) push_state \<Rightarrow> ('s, 'd) push_state \<times> bool" where
  "promoteRecipe P org f recipe rid st =
     (case og_stored org (fr_NominalRepo f) [] of
        Inl e \<Rightarrow> pushFailed P rid ''recipe'' e rid st
      | Inr local \<Rightarrow>
          (case verifyStored (se_codec (po_engine P)) (storeManifests P (ps_store st) local) (se_trust (po_engine P)) local
                  (fr_NominalRepo f) (fr_ManifestDigest f) (fr_NominalRepo f @ '':'' @ fr_Tag f) of
             Some e \<Rightarrow> pushFailed P rid ''recipe'' (admit_fault (po_engine P) e) rid st
           | None \<Rightarrow>
               (case promote_ingredients P org rid (re_Ingredients recipe) (st, True) of
                  (st, allPushed) \<Rightarrow> if allPushed then propagateRecipe P f recipe local rid st else (st, False))))"

end
