(* ===== verification/Promote_Results.thy ===== *)
theory Promote_Results
  imports Promote
begin

text \<open>
  What promotion guarantees: the destination is never left with a manifest whose blobs are missing, whatever
  fails; the cookbook of the zone gets a recipe only after every ingredient has arrived; a published version is
  never re-pointed; the local store and the items of the fetch side are left as they were.
\<close>

subsection \<open>What the destination promises\<close>

text \<open>A view of the registry at the other end: manifests, blobs and tags it holds. A blob lands before the upload
  reports success, a manifest is stored under the digest of its bytes, and what a request reports is what is held.\<close>

record 'd far_view =
  fv_holds :: "'d \<Rightarrow> repository \<Rightarrow> string \<Rightarrow> bool"
  fv_blob :: "'d \<Rightarrow> repository \<Rightarrow> string \<Rightarrow> bool"
  fv_tag :: "'d \<Rightarrow> repository \<Rightarrow> string \<Rightarrow> string option"

definition layer_law :: "'d far_view \<Rightarrow> repository \<Rightarrow> string \<Rightarrow> 'd \<Rightarrow> 'd \<Rightarrow> eng_error option \<Rightarrow> bool" where
  "layer_law V repo b d d' x \<longleftrightarrow> fv_holds V d' = fv_holds V d \<and> fv_tag V d' = fv_tag V d
     \<and> (\<forall>r e. fv_blob V d r e \<longrightarrow> fv_blob V d' r e) \<and> (x = None \<longrightarrow> fv_blob V d' repo b)"

definition put_far_law :: "'d far_view \<Rightarrow> (string \<Rightarrow> string) \<Rightarrow> repository \<Rightarrow> far_target \<Rightarrow> string \<Rightarrow> 'd \<Rightarrow> 'd \<Rightarrow> eng_error option \<Rightarrow> bool" where
  "put_far_law V dig repo t p d d' x \<longleftrightarrow> fv_blob V d' = fv_blob V d \<and> (\<forall>r m. fv_holds V d r m \<longrightarrow> fv_holds V d' r m)
     \<and> (\<forall>r m. fv_holds V d' r m \<longrightarrow> fv_holds V d r m \<or> (r, m) = (repo, dig p))
     \<and> (\<forall>r u. t \<noteq> Under_tag u \<or> r \<noteq> repo \<longrightarrow> fv_tag V d' r u = fv_tag V d r u)
     \<and> (x = None \<longrightarrow> fv_holds V d' repo (dig p) \<and> (\<forall>u. t = Under_tag u \<longrightarrow> fv_tag V d' repo u = Some (dig p)))"

definition far_lawful :: "'d far \<Rightarrow> 'd far_view \<Rightarrow> (string \<Rightarrow> string) \<Rightarrow> bool" where
  "far_lawful F V dig \<longleftrightarrow>
     (\<forall>repo b rd d d' n x. fa_WriteLayer F repo b rd d = ((d', n), x) \<longrightarrow> layer_law V repo b d d' x)
     \<and> (\<forall>repo t p mt d d' x. fa_Put F repo t p mt d = (d', x) \<longrightarrow> put_far_law V dig repo t p d d' x)
     \<and> (\<forall>d repo t m. fa_Head F d repo t = Inr m \<longrightarrow> fv_tag V d repo t = Some m \<and> fv_holds V d repo m)
     \<and> (\<forall>d repo t e. fa_Head F d repo t = Inl e \<and> isNotFound e \<longrightarrow> fv_tag V d repo t = None)"

lemma far_laws:
  assumes "far_lawful F V dig"
  shows "fa_WriteLayer F repo b rd d = ((d', n), x) \<Longrightarrow> layer_law V repo b d d' x"
    "fa_Put F repo t p mt d = (d', x) \<Longrightarrow> put_far_law V dig repo t p d d' x"
    "fa_Head F d repo u = Inr m \<Longrightarrow> fv_tag V d repo u = Some m \<and> fv_holds V d repo m"
    "fa_Head F d repo u = Inl e \<Longrightarrow> isNotFound e \<Longrightarrow> fv_tag V d repo u = None"
proof -
  note laws = assms [unfolded far_lawful_def]
  note rest = laws [THEN conjunct2, THEN conjunct2]
  show "fa_WriteLayer F repo b rd d = ((d', n), x) \<Longrightarrow> layer_law V repo b d d' x" by (rule laws [THEN conjunct1, rule_format])
  show "fa_Put F repo t p mt d = (d', x) \<Longrightarrow> put_far_law V dig repo t p d d' x" by (rule laws [THEN conjunct2, THEN conjunct1, rule_format])
  show "fa_Head F d repo u = Inr m \<Longrightarrow> fv_tag V d repo u = Some m \<and> fv_holds V d repo m" by (rule rest [THEN conjunct1, rule_format])
  show "fa_Head F d repo u = Inl e \<Longrightarrow> isNotFound e \<Longrightarrow> fv_tag V d repo u = None" by (rule rest [THEN conjunct2, rule_format]) simp
qed

text \<open>The store reads back what it holds: the digest is that of the bytes, a manifest names its blobs.\<close>

definition reader_sound :: "('s, 'd) promoter \<Rightarrow> (string \<Rightarrow> string) \<Rightarrow> (string \<Rightarrow> string set) \<Rightarrow> bool" where
  "reader_sound P dig needs \<longleftrightarrow>
     (\<forall>s repo ref p mt m. sr_RawManifest (po_reader P) s repo ref = Inr (p, mt, m) \<longrightarrow>
        dig p = m \<and> (se_digestOK (po_engine P) ref \<longrightarrow> m = ref)
        \<and> (if se_isIndex (po_engine P) mt then needs m = {}
           else \<forall>man. sk_manifest (se_sdk (po_engine P)) p = Some man \<longrightarrow> needs m \<subseteq> set (am_ConfigDigest man # am_Layers man) - {[]}))"

lemma reader_digest:
  assumes "reader_sound P dig needs" "sr_RawManifest (po_reader P) s repo ref = Inr (p, mt, m)"
  shows "dig p = m" "se_digestOK (po_engine P) ref \<Longrightarrow> m = ref"
  using assms unfolding reader_sound_def by blast+

definition far_closed :: "'d far_view \<Rightarrow> (string \<Rightarrow> string set) \<Rightarrow> 'd \<Rightarrow> bool" where
  "far_closed V needs d \<longleftrightarrow> (\<forall>r m. fv_holds V d r m \<longrightarrow> (\<forall>b \<in> needs m. fv_blob V d r b))"

text \<open>What a step may do to the destination: closed stays closed, nothing is lost, and only the repositories \<open>R\<close>
  get manifests or tags.\<close>

definition far_moves :: "'d far_view \<Rightarrow> (string \<Rightarrow> string set) \<Rightarrow> repository set \<Rightarrow> 'd \<Rightarrow> 'd \<Rightarrow> bool" where
  "far_moves V needs R d d' \<longleftrightarrow>
     (far_closed V needs d \<longrightarrow> far_closed V needs d')
     \<and> (\<forall>r m. fv_holds V d r m \<longrightarrow> fv_holds V d' r m) \<and> (\<forall>r b. fv_blob V d r b \<longrightarrow> fv_blob V d' r b)
     \<and> (\<forall>r m. r \<notin> R \<longrightarrow> fv_holds V d' r m = fv_holds V d r m) \<and> (\<forall>r t. r \<notin> R \<longrightarrow> fv_tag V d' r t = fv_tag V d r t)"

lemma far_moves_refl [simp]: "far_moves V needs R d d"
  by (simp add: far_moves_def)

lemma far_moves_trans: "far_moves V needs R d d1 \<Longrightarrow> far_moves V needs R d1 d2 \<Longrightarrow> far_moves V needs R d d2"
  by (simp add: far_moves_def)

lemma far_moves_mono: "far_moves V needs R d d' \<Longrightarrow> R \<subseteq> R' \<Longrightarrow> far_moves V needs R' d d'"
  by (auto simp: far_moves_def)

lemma far_moves_holds: "far_moves V needs R d d' \<Longrightarrow> fv_holds V d r m \<Longrightarrow> fv_holds V d' r m"
  by (simp add: far_moves_def)

lemma layer_moves: "layer_law V repo b d d' x \<Longrightarrow> far_moves V needs R d d'"
  by (auto simp: layer_law_def far_moves_def far_closed_def)

lemma put_moves:
  assumes "put_far_law V dig repo t p d d' x" "\<forall>b \<in> needs (dig p). fv_blob V d repo b"
  shows "far_moves V needs {repo} d d'"
proof -
  have law: "fv_blob V d' = fv_blob V d" "\<forall>r m. fv_holds V d r m \<longrightarrow> fv_holds V d' r m"
    "\<forall>r m. fv_holds V d' r m \<longrightarrow> fv_holds V d r m \<or> (r, m) = (repo, dig p)" "\<forall>r u. r \<noteq> repo \<longrightarrow> fv_tag V d' r u = fv_tag V d r u"
    using assms(1) by (simp_all add: put_far_law_def)
  have "far_closed V needs d'" if "far_closed V needs d"
    unfolding far_closed_def
  proof (intro allI impI ballI)
    fix r m b assume "fv_holds V d' r m" "b \<in> needs m"
    then show "fv_blob V d' r b" using law(1,3) assms(2) that unfolding far_closed_def by fastforce
  qed
  with law show ?thesis by (auto simp: far_moves_def)
qed

subsection \<open>Pushes\<close>

lemma pushBlobs_moves:
  assumes "far_lawful F V dig"
  shows "pushBlobs P F s srcRepo dst bs (d, n) = ((d', n'), x) \<Longrightarrow>
    far_moves V needs R d d' \<and> (x = None \<longrightarrow> (\<forall>b \<in> set bs - {[]}. fv_blob V d' dst b))"
proof (induction bs arbitrary: d n)
  case (Cons b bs)
  obtain d1 m y where w: "fa_WriteLayer F dst b (sr_BlobReader (po_reader P) s srcRepo b) d = ((d1, m), y)" by (metis prod.exhaust)
  note law = far_laws(1) [OF assms w]
  show ?case
  proof (cases "b \<noteq> [] \<and> po_hashOK P b \<and> y = None")
    case True
    then have "pushBlobs P F s srcRepo dst bs (d1, n + m) = ((d', n'), x)" using Cons.prems w by simp
    note ih = Cons.IH [OF this]
    have "fv_blob V d1 dst b" using law True by (simp add: layer_law_def)
    then have "fv_blob V d' dst b" using ih by (simp add: far_moves_def)
    then show ?thesis using ih far_moves_trans [OF layer_moves [OF law]] by auto
  next
    case False
    show ?thesis
    proof (cases "b = []")
      case True
      then show ?thesis using Cons.IH [of d n] Cons.prems by simp
    qed (use False Cons.prems w layer_moves [OF law] in \<open>auto split: if_splits option.splits\<close>)
  qed
qed simp

lemma children_move:
  assumes "\<And>child dm dm' x. pushManifest P F s lv srcRepo dst child [] dm = (dm', x) \<Longrightarrow> far_moves V needs {dst} (fst dm) (fst dm')"
  shows "pushIndexChildren P F s lv srcRepo dst children dm = (dm', x) \<Longrightarrow> far_moves V needs {dst} (fst dm) (fst dm')"
proof (induction children arbitrary: dm)
  case (Cons child children)
  obtain dm1 y where p: "pushManifest P F s lv srcRepo dst child [] dm = (dm1, y)" by fastforce
  then have "dm' = dm1 \<or> pushIndexChildren P F s lv srcRepo dst children dm1 = (dm', x)" using Cons.prems by (auto split: option.splits if_splits)
  then show ?case using assms [OF p] far_moves_trans [OF assms [OF p] Cons.IH] by blast
qed simp

definition body_far :: "('s, 'd) promoter \<Rightarrow> 'd far \<Rightarrow> 's \<Rightarrow> nat \<Rightarrow> string \<Rightarrow> repository \<Rightarrow> string \<Rightarrow> string \<Rightarrow> 'd \<times> int \<Rightarrow> ('d \<times> int) \<times> eng_error option" where
  "body_far P F s lv srcRepo dst payload mt dm =
     (if se_isIndex (po_engine P) mt then
        (case se_indexDigests (po_engine P) payload of
           None \<Rightarrow> (dm, Some (EOther ''parsing the index''))
         | Some children \<Rightarrow> pushIndexChildren P F s lv srcRepo dst children dm)
      else
        (case sk_manifest (se_sdk (po_engine P)) payload of
           None \<Rightarrow> (dm, Some (EOther ''parsing the manifest''))
         | Some man \<Rightarrow> pushBlobs P F s srcRepo dst (am_ConfigDigest man # am_Layers man) dm))"

lemma pushManifest_body:
  "pushManifest P F s (Suc lv) srcRepo dst ref tag dm =
     (case sr_RawManifest (po_reader P) s srcRepo ref of
        Inl e \<Rightarrow> (dm, Some e)
      | Inr (payload, mt, dgst) \<Rightarrow>
          (case body_far P F s lv srcRepo dst payload mt dm of
             (dm, Some e) \<Rightarrow> (dm, Some e)
           | ((d, moved), None) \<Rightarrow>
               (case fa_Put F dst (if tag \<noteq> [] then Under_tag tag else Under_digest dgst) payload mt d of
                  (d, x) \<Rightarrow> ((d, moved), x))))"
  unfolding body_far_def by (rule pushManifest.simps)

lemma body_moves:
  assumes "far_lawful F V dig" "reader_sound P dig needs" "sr_RawManifest (po_reader P) s srcRepo ref = Inr (payload, mt, m)"
    and "\<And>child dm dm' x. pushManifest P F s lv srcRepo dst child [] dm = (dm', x) \<Longrightarrow> far_moves V needs {dst} (fst dm) (fst dm')"
    and "body_far P F s lv srcRepo dst payload mt dm = (dm', x)"
  shows "far_moves V needs {dst} (fst dm) (fst dm')" "x = None \<Longrightarrow> \<forall>b \<in> needs m. fv_blob V (fst dm') dst b"
proof -
  have r: "if se_isIndex (po_engine P) mt then needs m = {}
      else \<forall>man. sk_manifest (se_sdk (po_engine P)) payload = Some man \<longrightarrow> needs m \<subseteq> set (am_ConfigDigest man # am_Layers man) - {[]}"
    using assms(2,3) unfolding reader_sound_def by blast
  have "far_moves V needs {dst} (fst dm) (fst dm') \<and> (x = None \<longrightarrow> (\<forall>b \<in> needs m. fv_blob V (fst dm') dst b))"
  proof (cases "se_isIndex (po_engine P) mt")
    case True
    show ?thesis
    proof (cases "se_indexDigests (po_engine P) payload")
      case (Some children)
      then have "pushIndexChildren P F s lv srcRepo dst children dm = (dm', x)" using True assms(5) by (simp add: body_far_def)
      from children_move [OF assms(4) this] r True show ?thesis by simp
    qed (use True r assms(5) in \<open>auto simp: body_far_def\<close>)
  next
    case False
    show ?thesis
    proof (cases "sk_manifest (se_sdk (po_engine P)) payload")
      case (Some man)
      then have "pushBlobs P F s srcRepo dst (am_ConfigDigest man # am_Layers man) (fst dm, snd dm) = ((fst dm', snd dm'), x)"
        using False assms(5) by (simp add: body_far_def del: pushBlobs.simps)
      from pushBlobs_moves [OF assms(1) this, where R = "{dst}" and needs = needs] r False Some show ?thesis by auto
    qed (use False assms(5) in \<open>auto simp: body_far_def\<close>)
  qed
  then show "far_moves V needs {dst} (fst dm) (fst dm')" "x = None \<Longrightarrow> \<forall>b \<in> needs m. fv_blob V (fst dm') dst b" by simp_all
qed

lemma pushManifest_moves:
  assumes "far_lawful F V dig" "reader_sound P dig needs"
  shows "pushManifest P F s lv srcRepo dst ref tag dm = (dm', x) \<Longrightarrow>
      far_moves V needs {dst} (fst dm) (fst dm')
      \<and> (x = None \<longrightarrow> (\<exists>p mt m. sr_RawManifest (po_reader P) s srcRepo ref = Inr (p, mt, m) \<and> fv_holds V (fst dm') dst m
           \<and> (tag \<noteq> [] \<longrightarrow> fv_tag V (fst dm') dst tag = Some m)))"
proof (induction lv arbitrary: ref tag dm dm' x)
  case (Suc lv)
  show ?case
  proof (cases "sr_RawManifest (po_reader P) s srcRepo ref")
    case (Inr r)
    obtain p mt m where r: "sr_RawManifest (po_reader P) s srcRepo ref = Inr (p, mt, m)" using Inr by (metis prod.exhaust)
    obtain d1 n1 y where b: "body_far P F s lv srcRepo dst p mt dm = ((d1, n1), y)" by (metis prod.exhaust)
    have ih: "far_moves V needs {dst} (fst dm) (fst dm')" if "pushManifest P F s lv srcRepo dst child [] dm = (dm', x)" for child dm dm' x
      using Suc.IH [OF that] by blast
    note body = body_moves [OF assms r ih b]
    obtain d2 z where put: "fa_Put F dst (if tag \<noteq> [] then Under_tag tag else Under_digest m) p mt d1 = (d2, z)" by fastforce
    note law = far_laws(2) [OF assms(1) put]
    have m: "dig p = m" using assms(2) r unfolding reader_sound_def by blast
    have out: "(dm', x) = (if y = None then ((d2, n1), z) else ((d1, n1), y))"
      using Suc.prems r b put by (auto simp: pushManifest_body simp del: pushManifest.simps)
    have "far_moves V needs {dst} (fst dm) d2" if "y = None"
      using far_moves_trans [OF body(1)] put_moves [OF law] body(2) that m by simp
    with out body(1) law m r show ?thesis by (auto simp: put_far_law_def split: if_splits)
  qed (use Suc.prems in auto)
qed simp

text \<open>A push names what it pushes by one tag at most; children go by digest.\<close>

lemma children_tags:
  assumes "\<And>child dm dm' x. pushManifest P F s lv srcRepo dst child [] dm = (dm', x) \<Longrightarrow> fv_tag V (fst dm') r u = fv_tag V (fst dm) r u"
  shows "pushIndexChildren P F s lv srcRepo dst children dm = (dm', x) \<Longrightarrow> fv_tag V (fst dm') r u = fv_tag V (fst dm) r u"
proof (induction children arbitrary: dm)
  case (Cons child children)
  obtain dm1 y where p: "pushManifest P F s lv srcRepo dst child [] dm = (dm1, y)" by fastforce
  then have "dm' = dm1 \<or> pushIndexChildren P F s lv srcRepo dst children dm1 = (dm', x)" using Cons.prems by (auto split: option.splits if_splits)
  then show ?case using assms [OF p] Cons.IH [of dm1] by auto
qed simp

lemma pushManifest_tags:
  assumes "far_lawful F V dig"
  shows "pushManifest P F s lv srcRepo dst ref tag dm = (dm', x) \<Longrightarrow> tag = [] \<or> (r, u) \<noteq> (dst, tag) \<Longrightarrow> fv_tag V (fst dm') r u = fv_tag V (fst dm) r u"
proof (induction lv arbitrary: ref tag dm dm' x)
  case (Suc lv)
  show ?case
  proof (cases "sr_RawManifest (po_reader P) s srcRepo ref")
    case (Inr q)
    obtain p mt m where q: "sr_RawManifest (po_reader P) s srcRepo ref = Inr (p, mt, m)" using Inr by (metis prod.exhaust)
    obtain d1 n1 y where b: "body_far P F s lv srcRepo dst p mt dm = ((d1, n1), y)" by (metis prod.exhaust)
    have child: "fv_tag V (fst dm') r u = fv_tag V (fst dm) r u" if "pushManifest P F s lv srcRepo dst c [] dm = (dm', x)" for c dm dm' x
      using Suc.IH [OF that] by simp
    have blobs: "fv_tag V d' r u = fv_tag V (fst dm) r u" if "pushBlobs P F s srcRepo dst bs dm = ((d', n'), x)" for bs d' n' x
    proof -
      have "pushBlobs P F s srcRepo dst bs (fst dm, snd dm) = ((d', n'), x)" using that by simp
      from pushBlobs_moves [OF assms this, where R = "{}"] show ?thesis by (simp add: far_moves_def)
    qed
    have "fv_tag V d1 r u = fv_tag V (fst dm) r u"
      using b children_tags [OF child, where dm = dm and dm' = "(d1, n1)" and x = y] blobs by (auto simp: body_far_def simp del: pushBlobs.simps split: if_splits option.splits)
    moreover obtain d2 z where put: "fa_Put F dst (if tag \<noteq> [] then Under_tag tag else Under_digest m) p mt d1 = (d2, z)" by fastforce
    have "fv_tag V d2 r u = fv_tag V d1 r u"
      using far_laws(2) [OF assms put] Suc.prems(2) by (auto simp: put_far_law_def split: if_splits)
    moreover have "(dm', x) = (if y = None then ((d2, n1), z) else ((d1, n1), y))"
      using Suc.prems(1) q b put by (auto simp: pushManifest_body simp del: pushManifest.simps)
    ultimately show ?thesis by (auto split: if_splits)
  qed (use Suc.prems in auto)
qed simp

subsection \<open>Steps of a promotion\<close>

text \<open>A step moves the destination inside \<open>R\<close>, keeps the store closed and growing, and touches the items of the
  promotion only.\<close>

definition push_moves :: "('s, 'd) promoter \<Rightarrow> 'd far_view \<Rightarrow> (string \<Rightarrow> string set) \<Rightarrow> repository set \<Rightarrow> ('s, 'd) push_state \<Rightarrow> ('s, 'd) push_state \<Rightarrow> bool" where
  "push_moves P V needs R st st' \<longleftrightarrow>
     far_moves V needs R (ps_far st) (ps_far st') \<and> preserves (se_dst (po_engine P)) needs (ps_store st) (ps_store st')
     \<and> tk_Prune (ps_task st') = tk_Prune (ps_task st)
     \<and> (\<forall>name. \<not> has_prefix name ''push/'' \<longrightarrow>
          find (\<lambda>i. it_Name i = name) (tk_Items (ps_task st')) = find (\<lambda>i. it_Name i = name) (tk_Items (ps_task st)))"

lemma push_moves_refl [simp]: "push_moves P V needs R st st"
  by (simp add: push_moves_def)

lemma push_moves_trans: "push_moves P V needs R st st1 \<Longrightarrow> push_moves P V needs R st1 st2 \<Longrightarrow> push_moves P V needs R st st2"
  unfolding push_moves_def using far_moves_trans preserves_trans by metis

lemma push_moves_far: "push_moves P V needs R st st' \<Longrightarrow> far_moves V needs R (ps_far st) (ps_far st')"
  by (simp add: push_moves_def)

lemma push_moves_mono:
  assumes "push_moves P V needs R st st'" "R \<subseteq> R'"
  shows "push_moves P V needs R' st st'"
  using assms(1) far_moves_mono [OF push_moves_far [OF assms(1)] assms(2)] by (simp add: push_moves_def)

lemma push_item_moves: "(\<And>i. it_Name (f i) = it_Name i) \<Longrightarrow> push_moves P V needs R st (push_item rid what f st)"
  by (auto simp: push_moves_def push_item_def find_itemFor)

lemma push_resolution_moves: "push_moves P V needs R st (push_resolution r st)"
  by (simp add: push_moves_def push_resolution_def)

lemma wait_moves: "push_moves P V needs R st (wait st)"
  by (simp add: push_moves_def wait_def)

lemma pushFailed_moves: "pushFailed P rid what e subject st = (st', ok) \<Longrightarrow> push_moves P V needs R st st' \<and> \<not> ok"
  unfolding pushFailed_def by (auto intro!: push_item_moves)

lemma pushFailed_far: "pushFailed P rid what e subject st = (st', ok) \<Longrightarrow> ps_far st' = ps_far st \<and> ps_store st' = ps_store st"
  by (auto simp: pushFailed_def push_item_def)

lemma accept_moves: "accept_name P dst st = (st', x) \<Longrightarrow> push_moves P V needs R st st' \<and> ps_far st' = ps_far st \<and> ps_store st' = ps_store st"
  by (auto simp: accept_name_def push_moves_def wait_def split: prod.splits)

text \<open>What the promotion relies on.\<close>

definition sound_promoter :: "('s, 'd) promoter \<Rightarrow> 'd far_view \<Rightarrow> (string \<Rightarrow> string) \<Rightarrow> (string \<Rightarrow> string set) \<Rightarrow> bool" where
  "sound_promoter P V dig needs \<longleftrightarrow> (\<forall>n. far_lawful (po_far P n) V dig) \<and> reader_sound P dig needs
     \<and> lawful (se_dst (po_engine P)) dig \<and> faithful_world (po_engine P) dig needs"

lemma sound_promoterD:
  assumes "sound_promoter P V dig needs"
  shows "far_lawful (po_far P n) V dig" "reader_sound P dig needs" "lawful (se_dst (po_engine P)) dig" "faithful_world (po_engine P) dig needs"
  using assms by (simp_all add: sound_promoter_def)

lemma PushManifest_moves:
  assumes "sound_promoter P V dig needs" "PushManifest P local dst ref tag st = ((st', n), x)"
  shows "push_moves P V needs {dst} st st'"
    "x = None \<Longrightarrow> \<exists>p mt m. sr_RawManifest (po_reader P) (ps_store st) local ref = Inr (p, mt, m) \<and> fv_holds V (ps_far st') dst m
       \<and> (tag \<noteq> [] \<longrightarrow> fv_tag V (ps_far st') dst tag = Some m)"
proof -
  obtain d m where p: "pushManifest P (now_far P st) (ps_store st) (po_levels P) local dst ref tag (ps_far st, 0) = ((d, m), x)"
      "st' = wait st\<lparr>ps_far := d\<rparr>" using assms(2) by (auto simp: PushManifest_def split: prod.splits)
  have law: "far_lawful (now_far P st) V dig" unfolding now_far_def by (rule sound_promoterD(1) [OF assms(1)])
  note k = pushManifest_moves [OF law sound_promoterD(2) [OF assms(1)] p(1)]
  show "push_moves P V needs {dst} st st'" using k p(2) by (simp add: push_moves_def wait_def)
  show "x = None \<Longrightarrow> \<exists>p mt m. sr_RawManifest (po_reader P) (ps_store st) local ref = Inr (p, mt, m) \<and> fv_holds V (ps_far st') dst m
       \<and> (tag \<noteq> [] \<longrightarrow> fv_tag V (ps_far st') dst tag = Some m)" using k p(2) by simp
qed

lemma push_tags_moves:
  assumes "sound_promoter P V dig needs"
  shows "push_tags P local dst tags (st, n) = (st', n') \<Longrightarrow> push_moves P V needs {dst} st st'"
proof (induction tags arbitrary: st n)
  case (Cons tag tags)
  obtain st1 m x where p: "PushManifest P local dst tag tag st = ((st1, m), x)" by (metis prod.exhaust)
  then have "push_tags P local dst tags (st1, n + m) = (st', n')" using Cons.prems by simp
  from push_moves_trans [OF PushManifest_moves(1) [OF assms p] Cons.IH [OF this]] show ?case .
qed simp

lemma PushManifest_tags:
  assumes "sound_promoter P V dig needs" "PushManifest P local dst ref tag st = ((st', n), x)" "(r, u) \<noteq> (dst, tag)"
  shows "fv_tag V (ps_far st') r u = fv_tag V (ps_far st) r u"
proof -
  obtain d m where p: "pushManifest P (now_far P st) (ps_store st) (po_levels P) local dst ref tag (ps_far st, 0) = ((d, m), x)"
      "st' = wait st\<lparr>ps_far := d\<rparr>" using assms(2) by (auto simp: PushManifest_def split: prod.splits)
  have law: "far_lawful (now_far P st) V dig" unfolding now_far_def by (rule sound_promoterD(1) [OF assms(1)])
  from pushManifest_tags [OF law p(1), where r = r and u = u] assms(3) p(2) show ?thesis by simp
qed

lemma push_tags_tags:
  assumes "sound_promoter P V dig needs" "r \<noteq> dst \<or> u \<notin> set tags"
  shows "push_tags P local dst tags (st, n) = (st', n') \<Longrightarrow> fv_tag V (ps_far st') r u = fv_tag V (ps_far st) r u"
  using assms(2)
proof (induction tags arbitrary: st n)
  case (Cons tag tags)
  obtain st1 m x where p: "PushManifest P local dst tag tag st = ((st1, m), x)" by (metis prod.exhaust)
  then have "push_tags P local dst tags (st1, n + m) = (st', n')" using Cons.prems(1) by simp
  from Cons.IH [OF this] PushManifest_tags [OF assms(1) p] Cons.prems(2) show ?case by auto
qed simp

lemma signatures_move:
  assumes "sound_promoter P V dig needs" "pushAttachedSignatures P local dst subject st = (st', n)"
  shows "push_moves P V needs {dst} st st'"
  using push_tags_moves [OF assms(1)] assms(2) by (simp add: pushAttachedSignatures_def)

lemma completeIndex_keeps:
  assumes "sound_promoter P V dig needs" "completeIndex (po_engine P) n ing local s = (s', x)"
  shows "preserves (se_dst (po_engine P)) needs s s'"
proof (cases "Get_desc (se_world (po_engine P) n) (se_remotes (po_engine P)) (in_Ref ing) (in_Digest ing)")
  case (Inr desc)
  have co: "coherent_desc dig needs desc" using Get_faithful [OF sound_promoterD(4) [OF assms(1)]] Inr by simp
  show ?thesis
  proof (cases "\<exists>r. Repository (se_world (po_engine P) n) (se_remotes (po_engine P)) (in_Ref ing) = Inr r \<and> se_isIndex (po_engine P) (de_MediaType desc)")
    case True
    then obtain src eff where r: "Repository (se_world (po_engine P) n) (se_remotes (po_engine P)) (in_Ref ing) = Inr (src, eff)"
      "se_isIndex (po_engine P) (de_MediaType desc)" by (metis prod.exhaust)
    obtain s1 m y where c: "copyIndexChildren (se_dst (po_engine P)) (se_open (po_engine P) n src) local (in_Version ing) (de_MediaType desc) (de_ImageIndex desc) None s
        = ((s1, m), y)" by (metis prod.exhaust)
    have "s' = s1" using assms(2) Inr r c by (simp add: completeIndex_def Let_def)
    moreover have "\<forall>idx. de_ImageIndex desc = Inr idx \<longrightarrow> coherent_index dig needs idx" using co by (simp add: coherent_desc_def)
    ultimately show ?thesis using copy_index_keeps [OF sound_promoterD(3) [OF assms(1)] _ c] by blast
  qed (use assms(2) Inr in \<open>auto simp: completeIndex_def Let_def split: if_splits sum.splits prod.splits\<close>)
qed (use assms(2) in \<open>simp add: completeIndex_def Let_def\<close>)

subsection \<open>Ingredients\<close>

definition arrived :: "('s, 'd) promoter \<Rightarrow> 'd far_view \<Rightarrow> repository \<Rightarrow> SpecIngredient \<Rightarrow> 'd \<Rightarrow> bool" where
  "arrived P V dst ing d \<longleftrightarrow> (se_digestOK (po_engine P) (in_Digest ing) \<longrightarrow> fv_holds V d dst (in_Digest ing))"

lemma push_retried_moves:
  assumes "sound_promoter P V dig needs" "push_retried P ing local dst (st, n) = ((st', n'), x)"
  shows "push_moves P V needs {dst} st st' \<and> (x = None \<longrightarrow> arrived P V dst ing (ps_far st'))"
proof -
  let ?R = "\<lambda>a b. push_moves P V needs {dst} (fst a) (fst b)"
  have one: "?R a b \<and> (x = None \<longrightarrow> arrived P V dst ing (ps_far (fst b)))" if "push_attempt P ing local dst a = (b, x)" for a b x
  proof -
    obtain st1 m where p: "PushManifest P local dst (in_Digest ing) (in_Version ing) (fst a) = ((st1, m), x)" "fst b = st1"
      using \<open>push_attempt P ing local dst a = (b, x)\<close> by (cases a) (auto simp: push_attempt_def split: prod.splits)
    have "arrived P V dst ing (ps_far st1)" if "x = None"
      using PushManifest_moves(2) [OF assms(1) p(1) that] reader_digest(2) [OF sound_promoterD(2) [OF assms(1)]] unfolding arrived_def by blast
    with PushManifest_moves(1) [OF assms(1) p(1)] p(2) show ?thesis by simp
  qed
  have "?R (st, n) (st', n') \<and> (x = None \<longrightarrow> (\<exists>a. ?R (st, n) a \<and> push_attempt P ing local dst a = ((st', n'), None)))"
    by (rule withRetries_keeps [OF _ _ _ assms(2) [unfolded push_retried_def]]) (auto intro: push_moves_trans dest: one)
  with one show ?thesis by fastforce
qed

lemma push_widened_moves:
  assumes "sound_promoter P V dig needs" "push_widened P org ing local dst st = ((st', n'), x)"
  shows "push_moves P V needs {dst} st st' \<and> (x = None \<longrightarrow> arrived P V dst ing (ps_far st'))"
proof -
  obtain st1 n1 y where r: "push_retried P ing local dst (st, 0) = ((st1, n1), y)" by (metis prod.exhaust)
  note k = push_retried_moves [OF assms(1) r]
  show ?thesis
  proof (cases "\<exists>e. y = Some e \<and> og_upstream org \<and> sparseIndexRefused e")
    case True
    obtain s z where c: "completeIndex (po_engine P) (ps_tick st1) ing local (ps_store st1) = (s, z)" by fastforce
    let ?st2 = "wait st1\<lparr>ps_store := s\<rparr>"
    have "push_moves P V needs {dst} st1 ?st2" using completeIndex_keeps [OF assms(1) c] by (simp add: push_moves_def wait_def)
    then have m: "push_moves P V needs {dst} st ?st2" using k push_moves_trans by blast
    show ?thesis
    proof (cases z)
      case None
      then have "push_retried P ing local dst (?st2, n1) = ((st', n'), x)" using assms(2) True r c by (auto simp: push_widened_def)
      from push_retried_moves [OF assms(1) this] push_moves_trans [OF m] show ?thesis by blast
    qed (use assms(2) True r c m in \<open>auto simp: push_widened_def\<close>)
  qed (use assms(2) r k in \<open>auto simp: push_widened_def split: option.splits if_splits\<close>)
qed

lemma promoteIngredient_cases:
  assumes "promoteIngredient P org ing rid st = (st', ok)"
  obtains (failed) e st1 where "pushFailed P rid (in_Name ing) e (in_Ref ing) st1 = (st', ok)" "\<And>V needs R. push_moves P V needs R st st1" "ps_far st1 = ps_far st"
  | (held) dst st1 status where "ingredient_target P ing = Inr dst" "\<And>V needs R. push_moves P V needs R st st1" "ps_far st1 = ps_far st"
      "fa_Head (now_far P st1) (ps_far st1) dst (in_Version ing) = Inr (in_Digest ing)" "ok"
      "st' = push_resolution (destination_resolution rid (in_Name ing) (in_Version ing) (in_Digest ing) (repo_string dst) status 0)
               (push_item rid (in_Name ing) (\<lambda>i. i\<lparr>it_Status := StatusSkipped\<rparr>) (wait st1))"
  | (moved) dst local st1 status where "ingredient_target P ing = Inr dst" "\<And>V needs R. push_moves P V needs R st st1"
      "og_stored org (in_Ref ing) (in_Name ing) = Inr local" "transfer_far P org ing rid local dst status (wait st1) = (st', ok)"
proof (cases "og_stored org (in_Ref ing) (in_Name ing)")
  case (Inl e)
  show ?thesis by (rule failed [of e st]) (use assms Inl in \<open>simp_all add: promoteIngredient_def Let_def\<close>)
next
  case l: (Inr local)
  show ?thesis
  proof (cases "ingredient_target P ing")
    case (Inl e)
    show ?thesis by (rule failed [of e st]) (use assms Inl l in \<open>simp_all add: promoteIngredient_def Let_def\<close>)
  next
    case t: (Inr dst)
    obtain st1 x where a: "accept_name P dst st = (st1, x)" by fastforce
    note am = accept_moves [OF a]
    show ?thesis
    proof (cases x)
      case (Some e)
      show ?thesis by (rule failed [of e st1]) (use assms l t a am Some in \<open>simp_all add: promoteIngredient_def Let_def\<close>)
    next
      case None
      show ?thesis
      proof (cases "verify_ingredient P ing local st1")
        case (Some e)
        show ?thesis by (rule failed [of "admit_fault (po_engine P) (SignatureError e)" st1])
          (use assms l t a am None Some in \<open>simp_all add: promoteIngredient_def Let_def\<close>)
      next
        case v: None
        show ?thesis
        proof (cases "Status_far (now_far P st1) dst (in_Version ing) (in_Digest ing) (ps_far st1)")
          case (Inl e)
          have "push_moves P V needs R st (wait st1)" for V :: "'b far_view" and needs R using am push_moves_trans wait_moves by blast
          then show ?thesis using failed [of e "wait st1"] assms l t a am None v Inl by (simp add: promoteIngredient_def Let_def wait_def)
        next
          case (Inr status)
          show ?thesis
          proof (cases "status = ''up-to-date''")
            case True
            then have "fa_Head (now_far P st1) (ps_far st1) dst (in_Version ing) = Inr (in_Digest ing)"
              using Inr by (auto simp: Status_far_def split: sum.splits if_splits)
            with held [of dst st1 status] show ?thesis using assms l t a am None v Inr True by (simp add: promoteIngredient_def Let_def)
          next
            case False
            then show ?thesis using moved [of dst st1 local status] assms l t a am None v Inr by (simp add: promoteIngredient_def Let_def)
          qed
        qed
      qed
    qed
  qed
qed

lemma transfer_far_moves:
  assumes "sound_promoter P V dig needs" "transfer_far P org ing rid local dst status st = (st', ok)"
  shows "push_moves P V needs {dst} st st' \<and> (ok \<longrightarrow> arrived P V dst ing (ps_far st'))"
proof -
  define st0 where "st0 = push_item rid (in_Name ing) (\<lambda>i. i\<lparr>it_Status := StatusRunning, it_Digest := in_Digest ing\<rparr>) st"
  have m0: "push_moves P V needs {dst} st st0" unfolding st0_def by (rule push_item_moves) simp
  obtain st1 n y where w: "push_widened P org ing local dst st0 = ((st1, n), y)" by (metis prod.exhaust)
  note k = push_widened_moves [OF assms(1) w]
  show ?thesis
  proof (cases y)
    case None
    obtain st2 n2 where g: "pushAttachedSignatures P local dst (in_Digest ing) st1 = (st2, n2)" by fastforce
    note gm = signatures_move [OF assms(1) g]
    define st3 where "st3 = push_item rid (in_Name ing) (\<lambda>i. i\<lparr>it_Status := StatusDone, it_SizeBytes := n + n2\<rparr>) st2"
    have "push_moves P V needs {dst} st2 st3" unfolding st3_def by (rule push_item_moves) simp
    then have m: "push_moves P V needs {dst} st1 (push_resolution r st3)" for r using gm push_moves_trans push_resolution_moves by blast
    have out: "ok \<and> (\<exists>r. st' = push_resolution r st3)" using assms(2) w None g by (auto simp: transfer_far_def Let_def st0_def st3_def)
    have "arrived P V dst ing (ps_far st1)" using k None by simp
    then have "arrived P V dst ing (ps_far st')" using m out unfolding arrived_def push_moves_def far_moves_def by blast
    with m out k m0 show ?thesis using push_moves_trans by blast
  next
    case (Some e)
    have "pushFailed P rid (in_Name ing) e (in_Ref ing) st1 = (st', ok)" using assms(2) w Some by (simp add: transfer_far_def Let_def st0_def)
    from pushFailed_moves [OF this] k m0 push_moves_trans show ?thesis by blast
  qed
qed

lemma promoteIngredient_moves:
  assumes "sound_promoter P V dig needs" "promoteIngredient P org ing rid st = (st', ok)"
  shows "push_moves P V needs {r. ingredient_target P ing = Inr r} st st'
    \<and> (ok \<longrightarrow> (\<exists>dst. ingredient_target P ing = Inr dst \<and> arrived P V dst ing (ps_far st')))"
  using assms(2)
proof (cases rule: promoteIngredient_cases)
  case (failed e st1)
  from pushFailed_moves [OF failed(1)] failed(2) push_moves_trans show ?thesis by blast
next
  case (held dst st1 status)
  have "push_moves P V needs R st1 st'" for R
    unfolding held(6) by (rule push_moves_trans [OF push_moves_trans [OF wait_moves push_item_moves] push_resolution_moves]) simp
  moreover have "arrived P V dst ing (ps_far st1)"
    using far_laws(3) [OF sound_promoterD(1) [OF assms(1)] held(4) [unfolded now_far_def]] by (simp add: arrived_def)
  then have "arrived P V dst ing (ps_far st')" unfolding held(6) by (simp add: push_resolution_def push_item_def wait_def)
  ultimately show ?thesis using held push_moves_trans by blast
next
  case (moved dst local st1 status)
  have "push_moves P V needs {dst} st (wait st1)" using moved(2) wait_moves push_moves_trans by blast
  with transfer_far_moves [OF assms(1) moved(4)] push_moves_trans moved(1) show ?thesis by fastforce
qed

subsection \<open>Recipes\<close>

definition targets :: "('s, 'd) promoter \<Rightarrow> SpecIngredient list \<Rightarrow> repository set" where
  "targets P ings = {r. \<exists>ing \<in> set ings. ingredient_target P ing = Inr r}"

definition all_arrived :: "('s, 'd) promoter \<Rightarrow> 'd far_view \<Rightarrow> SpecIngredient list \<Rightarrow> 'd \<Rightarrow> bool" where
  "all_arrived P V ings d \<longleftrightarrow> (\<forall>ing \<in> set ings. \<exists>dst. ingredient_target P ing = Inr dst \<and> arrived P V dst ing d)"

lemma arrived_moves: "push_moves P V needs R st st' \<Longrightarrow> arrived P V dst ing (ps_far st) \<Longrightarrow> arrived P V dst ing (ps_far st')"
  by (auto simp: push_moves_def far_moves_def arrived_def)

lemma all_arrived_moves: "push_moves P V needs R st st' \<Longrightarrow> all_arrived P V ings (ps_far st) \<Longrightarrow> all_arrived P V ings (ps_far st')"
  unfolding all_arrived_def using arrived_moves by blast

lemma promote_ingredients_move:
  assumes "sound_promoter P V dig needs"
  shows "promote_ingredients P org rid ings (st, all) = (st', ok) \<Longrightarrow>
    push_moves P V needs (targets P ings) st st' \<and> (ok \<longrightarrow> all \<and> all_arrived P V ings (ps_far st'))"
proof (induction ings arbitrary: st all)
  case (Cons ing ings)
  obtain st1 b where i: "promoteIngredient P org ing rid st = (st1, b)" by fastforce
  then have rest: "promote_ingredients P org rid ings (st1, all \<and> b) = (st', ok)" using Cons.prems by simp
  note k = promoteIngredient_moves [OF assms i]
  have sub: "{r. ingredient_target P ing = Inr r} \<subseteq> targets P (ing # ings)" "targets P ings \<subseteq> targets P (ing # ings)" by (auto simp: targets_def)
  have m: "push_moves P V needs (targets P (ing # ings)) st1 st'" using Cons.IH [OF rest] push_moves_mono [OF _ sub(2)] by blast
  have "push_moves P V needs (targets P (ing # ings)) st st'" using k push_moves_mono [OF _ sub(1)] push_moves_trans [OF _ m] by blast
  then show ?case using Cons.IH [OF rest] k arrived_moves [OF m] by (auto simp: all_arrived_def)
qed (simp add: all_arrived_def)

lemma publish_moves:
  assumes "sound_promoter P V dig needs" "publish_recipe P f local rid dst tag dgst st = (st', ok)"
  shows "push_moves P V needs {dst} st st'
    \<and> (ok \<longrightarrow> (\<exists>p mt m. sr_RawManifest (po_reader P) (ps_store st) local (fr_Tag f) = Inr (p, mt, m) \<and> fv_holds V (ps_far st') dst m))"
proof -
  define st0 where "st0 = push_item rid ''recipe'' (\<lambda>i. i\<lparr>it_Status := StatusRunning, it_Digest := dgst\<rparr>) st"
  have m0: "push_moves P V needs {dst} st st0" unfolding st0_def by (rule push_item_moves) simp
  have s0: "ps_store st0 = ps_store st" by (simp add: st0_def push_item_def)
  obtain st1 n y where p: "PushManifest P local dst (fr_Tag f) (fr_Tag f) st0 = ((st1, n), y)" by (metis prod.exhaust)
  note k = PushManifest_moves [OF assms(1) p]
  show ?thesis
  proof (cases y)
    case None
    obtain st2 n2 where g: "pushAttachedSignatures P local dst dgst st1 = (st2, n2)" by fastforce
    define st3 where "st3 = push_item rid ''recipe'' (\<lambda>i. i\<lparr>it_Status := StatusDone, it_SizeBytes := n + n2\<rparr>) st2"
    have "push_moves P V needs {dst} st2 st3" unfolding st3_def by (rule push_item_moves) simp
    then have m: "push_moves P V needs {dst} st1 (push_resolution r st3)" for r
      using signatures_move [OF assms(1) g] push_moves_trans push_resolution_moves by blast
    have out: "\<exists>r. st' = push_resolution r st3" using assms(2) p None g by (auto simp: publish_recipe_def Let_def st0_def st3_def)
    then have m1: "push_moves P V needs {dst} st1 st'" using m by blast
    obtain q mt d where q: "sr_RawManifest (po_reader P) (ps_store st0) local (fr_Tag f) = Inr (q, mt, d)" "fv_holds V (ps_far st1) dst d"
      using k(2) [OF None] by blast
    have "fv_holds V (ps_far st') dst d" using far_moves_holds [OF push_moves_far [OF m1] q(2)] .
    with q(1) s0 push_moves_trans [OF push_moves_trans [OF m0 k(1)] m1] show ?thesis by auto
  next
    case (Some e)
    have "pushFailed P rid ''recipe'' e rid st1 = (st', ok)" using assms(2) p Some by (simp add: publish_recipe_def Let_def st0_def)
    from pushFailed_moves [OF this] push_moves_trans [OF push_moves_trans [OF m0 k(1)]] show ?thesis by blast
  qed
qed

text \<open>Publishing a recipe writes its own tag and those of its signatures.\<close>

lemma publish_tags:
  assumes "sound_promoter P V dig needs" "publish_recipe P f local rid dst tag dgst st = (st', ok)"
    and "r \<noteq> dst \<or> u \<notin> set (fr_Tag f # signatureTags dgst)"
  shows "fv_tag V (ps_far st') r u = fv_tag V (ps_far st) r u"
proof -
  define st0 where "st0 = push_item rid ''recipe'' (\<lambda>i. i\<lparr>it_Status := StatusRunning, it_Digest := dgst\<rparr>) st"
  have s0: "ps_far st0 = ps_far st" by (simp add: st0_def push_item_def)
  obtain st1 n y where p: "PushManifest P local dst (fr_Tag f) (fr_Tag f) st0 = ((st1, n), y)" by (metis prod.exhaust)
  have one: "fv_tag V (ps_far st1) r u = fv_tag V (ps_far st0) r u" using PushManifest_tags [OF assms(1) p] assms(3) by auto
  show ?thesis
  proof (cases y)
    case None
    obtain st2 n2 where g: "push_tags P local dst (signatureTags dgst) (st1, 0) = (st2, n2)" by fastforce
    have "fv_tag V (ps_far st2) r u = fv_tag V (ps_far st1) r u" by (rule push_tags_tags [OF assms(1) _ g]) (use assms(3) in auto)
    moreover have "ps_far st' = ps_far st2"
      using assms(2) p [unfolded st0_def] None g by (auto simp: publish_recipe_def Let_def pushAttachedSignatures_def push_resolution_def push_item_def)
    ultimately show ?thesis using one s0 by simp
  next
    case (Some e)
    have "pushFailed P rid ''recipe'' e rid st1 = (st', ok)" using assms(2) p Some by (simp add: publish_recipe_def Let_def st0_def)
    from pushFailed_far [OF this] one s0 show ?thesis by simp
  qed
qed

lemma propagate_cases:
  assumes "propagateRecipe P f recipe local rid st = (st', ok)"
  obtains (failed) e st1 where "pushFailed P rid ''recipe'' e rid st1 = (st', ok)" "\<And>V needs R. push_moves P V needs R st st1" "ps_far st1 = ps_far st"
  | (there) dst tag st1 p mt dgst config document existing where "CookbookTag (po_names P) (po_dest P) (re_Name recipe) (re_Version recipe) = Inr (dst, tag)"
      "\<And>V needs R. push_moves P V needs R st st1" "ps_far st1 = ps_far st" "sr_RawManifest (po_reader P) (ps_store st) local (fr_Tag f) = Inr (p, mt, dgst)"
      "sk_VerifyManifest (se_sdk (po_engine P)) p = Inr (config, document)"
      "fa_Head (now_far P st1) (ps_far st1) dst tag = Inr existing" "republication P (now_far P st1) (ps_far st1) dst tag existing dgst document = None" "ok"
      "st' = push_resolution (destination_resolution rid [] (fr_Tag f) dgst (tag_string dst tag) ''up-to-date'' 0)
               (push_item rid ''recipe'' (\<lambda>i. i\<lparr>it_Status := StatusSkipped\<rparr>) (wait st1))"
  | (fresh) dst tag st1 p mt dgst e where "CookbookTag (po_names P) (po_dest P) (re_Name recipe) (re_Version recipe) = Inr (dst, tag)"
      "\<And>V needs R. push_moves P V needs R st st1" "ps_far st1 = ps_far st" "ps_store st1 = ps_store st" "sr_RawManifest (po_reader P) (ps_store st) local (fr_Tag f) = Inr (p, mt, dgst)"
      "fa_Head (now_far P st1) (ps_far st1) dst tag = Inl e" "isNotFound e"
      "publish_recipe P f local rid dst tag dgst (wait st1) = (st', ok)"
proof (cases "CookbookTag (po_names P) (po_dest P) (re_Name recipe) (re_Version recipe)")
  case (Inl e)
  show ?thesis by (rule failed [of e st]) (use assms Inl in \<open>simp_all add: propagateRecipe_def Let_def\<close>)
next
  case (Inr c)
  obtain dst tag where c: "CookbookTag (po_names P) (po_dest P) (re_Name recipe) (re_Version recipe) = Inr (dst, tag)" using Inr by (metis prod.exhaust)
  obtain st1 x where a: "accept_name P dst st = (st1, x)" by fastforce
  note am = accept_moves [OF a]
  note go = assms c a am
  show ?thesis
  proof (cases x)
    case (Some e)
    show ?thesis by (rule failed [of e st1]) (use go Some in \<open>simp_all add: propagateRecipe_def Let_def\<close>)
  next
    case x: None
    show ?thesis
    proof (cases "sr_RawManifest (po_reader P) (ps_store st1) local (fr_Tag f)")
      case (Inl e)
      show ?thesis by (rule failed [of e st1]) (use go x Inl in \<open>simp_all add: propagateRecipe_def Let_def\<close>)
    next
      case (Inr r)
      obtain p mt dgst where r: "sr_RawManifest (po_reader P) (ps_store st1) local (fr_Tag f) = Inr (p, mt, dgst)" using Inr by (metis prod.exhaust)
      show ?thesis
      proof (cases "sk_VerifyManifest (se_sdk (po_engine P)) p")
        case (Inl e)
        show ?thesis by (rule failed [of "validationError (po_engine P) (tag_string dst tag) e" st1])
          (use go x r Inl in \<open>simp_all add: propagateRecipe_def Let_def\<close>)
      next
        case (Inr l)
        obtain config document where l: "sk_VerifyManifest (se_sdk (po_engine P)) p = Inr (config, document)" using Inr by (metis prod.exhaust)
        have w: "push_moves P V needs R st (wait st1)" for V :: "'b far_view" and needs R using am push_moves_trans wait_moves by blast
        note go = go x r l w
        show ?thesis
        proof (cases "fa_Head (now_far P st1) (ps_far st1) dst tag")
          case (Inl e)
          then show ?thesis using go failed [of e "wait st1"] fresh [of dst tag st1 p mt dgst e] by (cases "isNotFound e") (simp_all add: propagateRecipe_def Let_def wait_def)
        next
          case (Inr existing)
          then show ?thesis using go failed [of _ "wait st1"] there [of dst tag st1 p mt dgst config document existing]
            by (cases "republication P (now_far P st1) (ps_far st1) dst tag existing dgst document") (simp_all add: propagateRecipe_def Let_def wait_def)
        qed
      qed
    qed
  qed
qed

definition cookbook_repo :: "('s, 'd) promoter \<Rightarrow> SpecRecipe \<Rightarrow> repository set" where
  "cookbook_repo P recipe = {r. \<exists>t. CookbookTag (po_names P) (po_dest P) (re_Name recipe) (re_Version recipe) = Inr (r, t)}"

lemma propagate_moves:
  assumes "sound_promoter P V dig needs" "propagateRecipe P f recipe local rid st = (st', ok)"
  shows "push_moves P V needs (cookbook_repo P recipe) st st'"
    "ps_far st' = ps_far st \<or> (\<exists>dst tag. CookbookTag (po_names P) (po_dest P) (re_Name recipe) (re_Version recipe) = Inr (dst, tag) \<and> fv_tag V (ps_far st) dst tag = None)"
proof -
  have "push_moves P V needs (cookbook_repo P recipe) st st'
    \<and> (ps_far st' = ps_far st \<or> (\<exists>dst tag. CookbookTag (po_names P) (po_dest P) (re_Name recipe) (re_Version recipe) = Inr (dst, tag) \<and> fv_tag V (ps_far st) dst tag = None))"
    using assms(2)
  proof (cases rule: propagate_cases)
    case (failed e st1)
    then show ?thesis using pushFailed_moves [OF failed(1)] pushFailed_far [OF failed(1)] push_moves_trans by metis
  next
    case (there dst tag st1 p mt dgst config document existing)
    have "push_moves P V needs (cookbook_repo P recipe) st1 st'"
      unfolding there(9) by (rule push_moves_trans [OF push_moves_trans [OF wait_moves push_item_moves] push_resolution_moves]) simp
    moreover have "ps_far st' = ps_far st" unfolding there(9) using there(3) by (simp add: push_resolution_def push_item_def wait_def)
    ultimately show ?thesis using there(2) push_moves_trans by blast
  next
    case (fresh dst tag st1 p mt dgst e)
    have "push_moves P V needs {dst} st st'" by (rule push_moves_trans [OF push_moves_trans [OF fresh(2) wait_moves] publish_moves [OF assms(1) fresh(8), THEN conjunct1]])
    then have "push_moves P V needs (cookbook_repo P recipe) st st'" by (rule push_moves_mono) (simp add: cookbook_repo_def fresh(1))
    moreover have "fv_tag V (ps_far st) dst tag = None"
      using far_laws(4) [OF sound_promoterD(1) [OF assms(1)] fresh(6) [unfolded now_far_def] fresh(7)] fresh(3) by simp
    ultimately show ?thesis using fresh(1) by blast
  qed
  then show "push_moves P V needs (cookbook_repo P recipe) st st'"
    "ps_far st' = ps_far st \<or> (\<exists>dst tag. CookbookTag (po_names P) (po_dest P) (re_Name recipe) (re_Version recipe) = Inr (dst, tag) \<and> fv_tag V (ps_far st) dst tag = None)"
    by simp_all
qed

definition stored_admitted :: "('s, 'd) promoter \<Rightarrow> origin \<Rightarrow> FetchedRecipe \<Rightarrow> 's \<Rightarrow> bool" where
  "stored_admitted P org f s \<longleftrightarrow> (\<exists>local. og_stored org (fr_NominalRepo f) [] = Inr local
     \<and> verifyStored (se_codec (po_engine P)) (storeManifests P s local) (se_trust (po_engine P)) local
         (fr_NominalRepo f) (fr_ManifestDigest f) (fr_NominalRepo f @ '':'' @ fr_Tag f) = None)"

lemma promoteRecipe_cases:
  assumes "promoteRecipe P org f recipe rid st = (st', ok)"
  obtains (refused) e where "pushFailed P rid ''recipe'' e rid st = (st', ok)"
  | (kept) "stored_admitted P org f (ps_store st)" "promote_ingredients P org rid (re_Ingredients recipe) (st, True) = (st', False)" "\<not> ok"
  | (published) local st1 where "og_stored org (fr_NominalRepo f) [] = Inr local" "stored_admitted P org f (ps_store st)"
      "promote_ingredients P org rid (re_Ingredients recipe) (st, True) = (st1, True)" "propagateRecipe P f recipe local rid st1 = (st', ok)"
proof (cases "stored_admitted P org f (ps_store st)")
  case True
  then obtain local where l: "og_stored org (fr_NominalRepo f) [] = Inr local"
    "verifyStored (se_codec (po_engine P)) (storeManifests P (ps_store st) local) (se_trust (po_engine P)) local
       (fr_NominalRepo f) (fr_ManifestDigest f) (fr_NominalRepo f @ '':'' @ fr_Tag f) = None" by (auto simp: stored_admitted_def)
  obtain st1 b where i: "promote_ingredients P org rid (re_Ingredients recipe) (st, True) = (st1, b)" by fastforce
  show ?thesis
  proof (cases b)
    case True
    then show ?thesis using published [OF l(1) \<open>stored_admitted P org f (ps_store st)\<close>, of st1] assms l i by (simp add: promoteRecipe_def)
  next
    case False
    then show ?thesis using kept [OF \<open>stored_admitted P org f (ps_store st)\<close>] assms l i by (simp add: promoteRecipe_def)
  qed
next
  case False
  then have "\<exists>e. pushFailed P rid ''recipe'' e rid st = (st', ok)" using assms by (auto simp: promoteRecipe_def stored_admitted_def split: sum.splits option.splits)
  then show ?thesis using refused by blast
qed

lemma promoteRecipe_moves:
  assumes "sound_promoter P V dig needs" "promoteRecipe P org f recipe rid st = (st', ok)"
  shows "push_moves P V needs (targets P (re_Ingredients recipe) \<union> cookbook_repo P recipe) st st'"
  using assms(2)
proof (cases rule: promoteRecipe_cases)
  case (refused e)
  then show ?thesis using pushFailed_moves by blast
next
  case kept
  have "push_moves P V needs (targets P (re_Ingredients recipe)) st st'" using promote_ingredients_move [OF assms(1) kept(2)] by blast
  then show ?thesis by (rule push_moves_mono) simp
next
  case (published local st1)
  have "push_moves P V needs (targets P (re_Ingredients recipe)) st st1" using promote_ingredients_move [OF assms(1) published(3)] by blast
  then have "push_moves P V needs (targets P (re_Ingredients recipe) \<union> cookbook_repo P recipe) st st1" by (rule push_moves_mono) simp
  moreover have "push_moves P V needs (targets P (re_Ingredients recipe) \<union> cookbook_repo P recipe) st1 st'"
    by (rule push_moves_mono [OF propagate_moves(1) [OF assms(1) published(4)]]) simp
  ultimately show ?thesis by (rule push_moves_trans)
qed

subsection \<open>Properties\<close>

text \<open>C20: Whatever a promotion runs into (a refused name, a lost connection, a store that cannot read a blob), it leaves
  the destination with no manifest whose config or layers are missing, takes nothing away from it, and
  keeps the local store closed.\<close>

theorem promotion_keeps_closed:
  assumes "sound_promoter P V dig needs" "promoteRecipe P org f recipe rid st = (st', ok)"
    and "far_closed V needs (ps_far st)" "blob_closed (se_dst (po_engine P)) needs (ps_store st)"
  shows "far_closed V needs (ps_far st') \<and> (\<forall>r m. fv_holds V (ps_far st) r m \<longrightarrow> fv_holds V (ps_far st') r m)
    \<and> blob_closed (se_dst (po_engine P)) needs (ps_store st')"
  using promoteRecipe_moves [OF assms(1,2)] assms(3,4) by (simp add: push_moves_def far_moves_def preserves_def)

text \<open>C7: The zone's cookbook never advertises a recipe whose content has not arrived. The destination is touched only
  when the stored recipe satisfies the trust policy; repositories other than those of the ingredients are touched
  only when every ingredient is at its destination under its pinned digest, and so it is when the
  promotion reports success.\<close>

theorem cookbook_after_ingredients:
  assumes "sound_promoter P V dig needs" "promoteRecipe P org f recipe rid st = (st', ok)"
  shows "(ps_far st' = ps_far st \<or> stored_admitted P org f (ps_store st))
    \<and> (all_arrived P V (re_Ingredients recipe) (ps_far st')
       \<or> \<not> ok \<and> (\<forall>r. r \<notin> targets P (re_Ingredients recipe) \<longrightarrow>
            fv_holds V (ps_far st') r = fv_holds V (ps_far st) r \<and> fv_tag V (ps_far st') r = fv_tag V (ps_far st) r))"
  using assms(2)
proof (cases rule: promoteRecipe_cases)
  case (refused e)
  then show ?thesis using pushFailed_far [OF refused] pushFailed_moves [OF refused] by simp
next
  case kept
  have "far_moves V needs (targets P (re_Ingredients recipe)) (ps_far st) (ps_far st')"
    using promote_ingredients_move [OF assms(1) kept(2)] push_moves_far by blast
  then show ?thesis using kept(1,3) by (simp add: far_moves_def fun_eq_iff)
next
  case (published local st1)
  have "all_arrived P V (re_Ingredients recipe) (ps_far st1)" using promote_ingredients_move [OF assms(1) published(3)] by blast
  then have "all_arrived P V (re_Ingredients recipe) (ps_far st')" by (rule all_arrived_moves [OF propagate_moves(1) [OF assms(1) published(4)]])
  with published(2) show ?thesis by blast
qed

lemma propagate_tags:
  assumes "sound_promoter P V dig needs" "propagateRecipe P f recipe local rid st = (st', ok)"
    and "CookbookTag (po_names P) (po_dest P) (re_Name recipe) (re_Version recipe) = Inr (dst, tag)" "fv_tag V (ps_far st') r u \<noteq> fv_tag V (ps_far st) r u"
  shows "r = dst \<and> fv_tag V (ps_far st) dst tag = None \<and> (\<exists>p mt dgst. sr_RawManifest (po_reader P) (ps_store st) local (fr_Tag f) = Inr (p, mt, dgst)
    \<and> u \<in> set (fr_Tag f # signatureTags dgst))"
  using assms(2)
proof (cases rule: propagate_cases)
  case (failed e st1)
  then show ?thesis using assms(4) pushFailed_far [OF failed(1)] by simp
next
  case (there dst' tag' st1 p mt dgst config document existing)
  have "ps_far st' = ps_far st" unfolding there(9) using there(3) by (simp add: push_resolution_def push_item_def wait_def)
  then show ?thesis using assms(4) by simp
next
  case (fresh dst' tag' st1 p mt dgst e)
  have same: "dst' = dst" "tag' = tag" using fresh(1) assms(3) by auto
  have "ps_far (wait st1) = ps_far st" using fresh(3) by (simp add: wait_def)
  then have "r = dst \<and> u \<in> set (fr_Tag f # signatureTags dgst)" using publish_tags [OF assms(1) fresh(8), of r u] assms(4) same by auto
  moreover have "fv_tag V (ps_far st) dst tag = None"
    using far_laws(4) [OF sound_promoterD(1) [OF assms(1)] fresh(6) [unfolded now_far_def] fresh(7)] fresh(3) same by simp
  ultimately show ?thesis using fresh(5) by blast
qed

text \<open>C21: What the zone has published is immutable. A promotion never re-points a tag of a repository that is no
  ingredient's target: not the version of the recipe it promotes, not that of any other recipe. The one exception
  are the two tags under which the signatures of a digest are attached, in the cookbook repository, and only when
  the version itself was not published yet. The tag the recipe is published under is the one that was fetched, as
  the publishing rules of the format ask. An ingredient that relocates into the cookbook's own repository may
  re-point tags there: its repository is a target.\<close>

theorem published_version_immutable:
  assumes "sound_promoter P V dig needs" "promoteRecipe P org f recipe rid st = (st', ok)"
    and "CookbookTag (po_names P) (po_dest P) (re_Name recipe) (re_Version recipe) = Inr (dst, fr_Tag f)"
    and "r \<notin> targets P (re_Ingredients recipe)" "fv_tag V (ps_far st) r u = Some m"
  shows "fv_tag V (ps_far st') r u = Some m
    \<or> r = dst \<and> u \<noteq> fr_Tag f \<and> fv_tag V (ps_far st) dst (fr_Tag f) = None
      \<and> (\<exists>local s p mt dgst. og_stored org (fr_NominalRepo f) [] = Inr local \<and> sr_RawManifest (po_reader P) s local (fr_Tag f) = Inr (p, mt, dgst)
           \<and> u \<in> set (signatureTags dgst))"
  using assms(2)
proof (cases rule: promoteRecipe_cases)
  case (refused e)
  then show ?thesis using pushFailed_far [OF refused] assms(5) by simp
next
  case kept
  then show ?thesis using promote_ingredients_move [OF assms(1) kept(2)] assms(4,5) by (simp add: push_moves_def far_moves_def)
next
  case (published local st1)
  have t: "fv_tag V (ps_far st1) r v = fv_tag V (ps_far st) r v" for v
    using promote_ingredients_move [OF assms(1) published(3)] assms(4) by (simp add: push_moves_def far_moves_def)
  show ?thesis
  proof (cases "fv_tag V (ps_far st') r u = fv_tag V (ps_far st1) r u")
    case True
    then show ?thesis using t assms(5) by simp
  next
    case False
    note w = propagate_tags [OF assms(1) published(4) assms(3) False]
    then have "r = dst" "fv_tag V (ps_far st) dst (fr_Tag f) = None" "u \<noteq> fr_Tag f" using t assms(5) by auto
    with w published(1) show ?thesis by fastforce
  qed
qed

text \<open>The synchronization may take this promotion as its own: it keeps what a run asks of its promotion.\<close>

definition promotes_by :: "'s sync_engine \<Rightarrow> ('s, 'd) promoter \<Rightarrow> bool" where
  "promotes_by E P \<longleftrightarrow> se_dst (po_engine P) = se_dst E \<and> (\<forall>n f rid s t s' t'. se_promote E n f rid (s, t) = (s', t') \<longrightarrow>
     (\<exists>recipe st st' ok. ps_store st = s \<and> ps_task st = t \<and> promoteRecipe P (ownContent E) f recipe rid st = (st', ok) \<and> ps_store st' = s' \<and> ps_task st' = t'))"

lemma promotion_quiet:
  assumes "sound_promoter P V dig needs" "promotes_by E P"
  shows "promote_quiet E needs"
  unfolding promote_quiet_def
proof (intro allI impI)
  fix n f rid s t s' t' assume "se_promote E n f rid (s, t) = (s', t')"
  then obtain recipe st st' ok where r: "promoteRecipe P (ownContent E) f recipe rid st = (st', ok)"
    "ps_store st = s" "ps_task st = t" "ps_store st' = s'" "ps_task st' = t'" using assms(2) unfolding promotes_by_def by blast
  have "se_dst (po_engine P) = se_dst E" using assms(2) by (simp add: promotes_by_def)
  with promoteRecipe_moves [OF assms(1) r(1)] r show "preserves (se_dst E) needs s s' \<and> tk_Prune t' = tk_Prune t
     \<and> (\<forall>name. \<not> has_prefix name ''push/'' \<longrightarrow> find (\<lambda>i. it_Name i = name) (tk_Items t') = find (\<lambda>i. it_Name i = name) (tk_Items t))"
    by (simp add: push_moves_def)
qed

subsection \<open>Levels\<close>

text \<open>If every index lists digests of a lower rank, a descent as deep as the rank sees everything: more levels change
  nothing.\<close>

definition ranked :: "('s, 'd) promoter \<Rightarrow> 's \<Rightarrow> string \<Rightarrow> (string \<Rightarrow> nat) \<Rightarrow> bool" where
  "ranked P s repo rank \<longleftrightarrow> (\<forall>ref p mt m children. sr_RawManifest (po_reader P) s repo ref = Inr (p, mt, m) \<and> se_isIndex (po_engine P) mt
     \<and> se_indexDigests (po_engine P) p = Some children \<longrightarrow> (\<forall>c \<in> set children. rank c < rank ref))"

lemma children_levels:
  assumes "\<And>c dm. c \<in> set children \<Longrightarrow> pushManifest P F s lv repo dst c [] dm = pushManifest P F s lv' repo dst c [] dm"
  shows "pushIndexChildren P F s lv repo dst children dm = pushIndexChildren P F s lv' repo dst children dm"
  using assms by (induction children arbitrary: dm) (simp_all split: prod.splits option.splits)

lemma levels_enough:
  assumes "ranked P s repo rank"
  shows "rank ref < lv \<Longrightarrow> rank ref < lv' \<Longrightarrow> pushManifest P F s lv repo dst ref tag dm = pushManifest P F s lv' repo dst ref tag dm"
proof (induction lv arbitrary: lv' ref tag dm)
  case (Suc lv)
  obtain lw where lw: "lv' = Suc lw" using Suc.prems by (cases lv') auto
  have "body_far P F s lv repo dst p mt dm = body_far P F s lw repo dst p mt dm" if r: "sr_RawManifest (po_reader P) s repo ref = Inr (p, mt, m)" for p mt m
  proof (cases "se_isIndex (po_engine P) mt")
    case True
    have "pushIndexChildren P F s lv repo dst children dm = pushIndexChildren P F s lw repo dst children dm"
      if "se_indexDigests (po_engine P) p = Some children" for children
    proof (rule children_levels)
      fix c dm assume "c \<in> set children"
      then have "rank c < rank ref" using assms r True that unfolding ranked_def by blast
      then show "pushManifest P F s lv repo dst c [] dm = pushManifest P F s lw repo dst c [] dm" using Suc.prems lw by (intro Suc.IH) linarith+
    qed
    then show ?thesis using True by (simp add: body_far_def split: option.splits)
  qed (simp add: body_far_def)
  then show ?case unfolding lw pushManifest_body by (simp split: sum.splits prod.splits)
qed simp

subsection \<open>A zone\<close>

record zone =
  zn_blobs :: "(repository \<times> string) set"
  zn_manifests :: "(repository \<times> string) set"
  zn_tags :: "(repository \<times> string) \<Rightarrow> string option"

definition zone_view :: "zone far_view" where
  "zone_view = \<lparr>fv_holds = \<lambda>z r m. (r, m) \<in> zn_manifests z, fv_blob = \<lambda>z r b. (r, b) \<in> zn_blobs z, fv_tag = \<lambda>z r t. zn_tags z (r, t)\<rparr>"

definition zone_far :: "zone far" where
  "zone_far = \<lparr>
     fa_Head = \<lambda>z r t. (case zn_tags z (r, t) of None \<Rightarrow> Inl (EStatus 404 []) | Some m \<Rightarrow> if (r, m) \<in> zn_manifests z then Inr m else Inl ENetwork),
     fa_Get = \<lambda>z r t. (case zn_tags z (r, t) of None \<Rightarrow> Inl (EStatus 404 []) | Some m \<Rightarrow> Inr m),
     fa_List = \<lambda>z r. None,
     fa_WriteLayer = \<lambda>r b rd z. (case rd of
         Inl e \<Rightarrow> ((z, 0), Some e)
       | Inr bytes \<Rightarrow> ((z\<lparr>zn_blobs := insert (r, b) (zn_blobs z)\<rparr>, int (length bytes)), None)),
     fa_Put = \<lambda>r t p mt z. (z\<lparr>zn_manifests := insert (r, p) (zn_manifests z),
         zn_tags := (case t of Under_tag u \<Rightarrow> (zn_tags z)((r, u) \<mapsto> p) | Under_digest _ \<Rightarrow> zn_tags z)\<rparr>, None)\<rparr>"

lemma zone_lawful: "far_lawful zone_far zone_view (\<lambda>p. p)"
  by (auto simp: far_lawful_def layer_law_def put_far_law_def zone_far_def zone_view_def isNotFound_def says_def split: sum.splits option.splits if_splits far_target.splits)

text \<open>The store of the example holds manifests under their own text.\<close>

definition other_digest :: string where
  "other_digest = ''sha256:'' @ replicate 64 CHR ''2''"

definition pier_digest :: "string \<Rightarrow> bool" where
  "pier_digest d = (d \<in> {''R'', ''I'', ''P'', ''Q'', ''X'', demo_digest, other_digest})"

definition pier_kind :: "string \<Rightarrow> nat" where
  "pier_kind p = (if p \<in> {''R'', demo_digest, other_digest} then 1 else if p \<in> {''I'', ''P'', ''Q''} then 2 else if p = ''X'' then 3 else 0)"

definition pier_sdk :: "SpecRecipe \<Rightarrow> sdk" where
  "pier_sdk r = (depot_sdk r)\<lparr>sk_manifest := \<lambda>p.
     if pier_kind p = 1 then Some \<lparr>am_ArtifactType = [], am_ConfigMediaType = [], am_ConfigDigest = [], am_Layers = [''doc'']\<rparr>
     else if pier_kind p = 2 then Some \<lparr>am_ArtifactType = [], am_ConfigMediaType = [], am_ConfigDigest = ''c'', am_Layers = []\<rparr> else None\<rparr>"

definition pier_engine :: "TrustPolicy \<Rightarrow> SpecIngredient list \<Rightarrow> depot sync_engine" where
  "pier_engine trust ings = (depot_engine ings (Inr (plain_image ''I'')))\<lparr>se_sdk := pier_sdk (depot_recipe ings), se_digestOK := pier_digest,
     se_indexDigests := \<lambda>p. if p = ''X'' then Some [''P'', ''Q''] else None, se_trust := trust\<rparr>"

definition pier_reader :: "depot StoreReader" where
  "pier_reader = \<lparr>
     sr_RawManifest = \<lambda>s repo ref.
       (case (if pier_digest ref then Some ref else sh_tags s (repo, ref)) of
          None \<Rightarrow> Inl EStoreMissing
        | Some m \<Rightarrow> if (repo, m) \<in> sh_manifests s then Inr (m, (if pier_kind m = 3 then ''index'' else ''image''), m) else Inl EStoreMissing),
     sr_BlobReader = \<lambda>s repo d. if (repo, d) \<in> sh_blobs s then Inr (if d = demo_digest then ''payload'' else d) else Inl EStoreMissing\<rparr>"

definition pier :: "TrustPolicy \<Rightarrow> SpecIngredient list \<Rightarrow> (depot, zone) promoter" where
  "pier trust ings = \<lparr>po_engine = pier_engine trust ings, po_reader = pier_reader,
     po_names = \<lparr>fn_NameMax = 255, fn_NewRepository = \<lambda>full insec. Inr \<lparr>nr_Registry = host_part CHR ''/'' full, nr_Path = full, nr_Insecure = insec\<rparr>\<rparr>,
     po_dest = \<lparr>dn_host = ''zone.io'', dn_basePath = [], dn_cookbook = ''cookbook'', dn_insecure = False, dn_allowlist = None\<rparr>,
     po_far = \<lambda>_. zone_far, po_hashOK = \<lambda>_. True, po_identical = \<lambda>a b. a = b, po_levels = 3\<rparr>"

definition zone_repo :: "string \<Rightarrow> repository" where
  "zone_repo path = \<lparr>nr_Registry = ''zone.io'', nr_Path = ''zone.io/'' @ path, nr_Insecure = False\<rparr>"

definition pier_needs :: "string \<Rightarrow> string set" where
  "pier_needs m = (if pier_kind m = 1 then {''doc''} else if pier_kind m = 2 then {''c''} else {})"

definition pier_recipe :: "string \<Rightarrow> SpecIngredient list \<Rightarrow> FetchedRecipe" where
  "pier_recipe d ings = \<lparr>fr_NominalRepo = ''h.io/book/app'', fr_Tag = ''1'', fr_ManifestBytes = d, fr_MediaType = ''image'', fr_ManifestDigest = d,
     fr_ConfigDigest = [], fr_LayerDigest = ''doc'', fr_YAML = [], fr_Recipe = Some (depot_recipe ings)\<rparr>"

text \<open>Recipes, one of them signed, of which the tag \<open>1\<close> names \<open>tagged\<close>; an image and an index with one of its children.
  \<open>blobs\<close> are the blobs beside the images.\<close>

definition pier_store :: "string \<Rightarrow> string set \<Rightarrow> depot" where
  "pier_store tagged blobs = \<lparr>
     sh_blobs = insert (''h.io/book/app'', ''doc'') (insert (''h.io/book/app'', demo_digest) ((\<lambda>b. (''h.io/web'', b)) ` blobs)),
     sh_manifests = {(''h.io/book/app'', ''R''), (''h.io/book/app'', demo_digest), (''h.io/book/app'', other_digest), (''h.io/book/app'', ''m''),
       (''h.io/web'', ''I''), (''h.io/web'', ''X''), (''h.io/web'', ''P'')},
     sh_tags = [(''h.io/book/app'', ''1'') \<mapsto> tagged, (''h.io/book/app'', SignatureTag demo_digest) \<mapsto> ''m''],
     dp_records = []\<rparr>"

definition pier_start :: "string \<Rightarrow> string set \<Rightarrow> (depot, zone) push_state" where
  "pier_start tagged blobs = \<lparr>ps_store = pier_store tagged blobs, ps_far = \<lparr>zn_blobs = {}, zn_manifests = {}, zn_tags = Map.empty\<rparr>,
     ps_task = empty_task, ps_accepted = [], ps_tick = 0\<rparr>"

lemma pier_kinds:
  "pier_kind ''R'' = 1" "pier_kind ''I'' = 2" "pier_kind ''P'' = 2" "pier_kind ''Q'' = 2" "pier_kind ''X'' = 3" "pier_kind ''m'' = 0"
  "pier_kind demo_digest = 1" "pier_kind other_digest = 1"
  by (simp_all add: pier_kind_def demo_digest_def other_digest_def)

lemma pier_sound: "sound_promoter (pier trust ings) zone_view (\<lambda>p. p) pier_needs"
proof -
  have "reader_sound (pier trust ings) (\<lambda>p. p) pier_needs"
    by (auto simp: reader_sound_def pier_def pier_reader_def pier_engine_def depot_engine_def pier_sdk_def pier_needs_def split: option.splits if_splits)
  moreover have "lawful (se_dst (po_engine (pier trust ings))) (\<lambda>p. p)"
    using sound_engineD(1) [OF depot_sound [of ings]] by (simp add: pier_def pier_engine_def)
  moreover have "coherent_desc (\<lambda>p. p) pier_needs desc" if "cl_Get (depot_client (Inr (plain_image ''I''))) ref = Inr desc" for ref desc
    using that by (cases ref)
      (auto simp: depot_client_def depot_desc_def coherent_desc_def pair_index_def coherent_image_def plain_image_def pier_needs_def pier_kinds split: if_splits)
  moreover have "pier_needs p \<subseteq> set (am_ConfigDigest m # am_Layers m) - {[]}" if "sk_manifest (pier_sdk r) p = Some m" for r p m
    using that by (auto simp: pier_sdk_def pier_needs_def split: if_splits)
  ultimately show ?thesis using zone_lawful
    by (simp add: sound_promoter_def faithful_world_def pier_def pier_engine_def depot_engine_def)
qed

definition pier_run :: "(depot, zone) push_state \<Rightarrow> (depot, zone) push_state \<times> bool" where
  "pier_run st = (let ings = [depot_ingredient ''web'' ''I'' []] in
     promoteRecipe (pier depot_trust ings) (ownContent (pier_engine depot_trust ings)) (pier_recipe ''R'' ings) (depot_recipe ings) ''app@1'' st)"

lemma pier_runs: "snd (pier_run (pier_start ''R'' {''c''})) \<and> (zone_repo ''cookbook/app'', ''R'') \<in> zn_manifests (ps_far (fst (pier_run (pier_start ''R'' {''c''}))))"
  by code_simp

text \<open>A child of an index that is stored, but has lost a blob, is skipped like a platform that was never selected: the
  index is pushed without it and the ingredient counts as promoted; the next run finds the tag up to date and, even
  after the store was repaired, does not push the child.\<close>

theorem damaged_child_skipped:
  "let P = pier depot_trust []; ing = depot_ingredient ''web'' ''X'' []; org = ownContent (pier_engine depot_trust []);
       (st1, ok1) = promoteIngredient P org ing ''app@1'' (pier_start ''R'' {});
       (st2, ok2) = promoteIngredient P org ing ''app@1'' (st1\<lparr>ps_store := pier_store ''R'' {''c''}\<rparr>)
   in ok1 \<and> ok2 \<and> (''h.io/web'', ''P'') \<in> sh_manifests (ps_store st1)
     \<and> (zone_repo ''h.io/web'', ''X'') \<in> zn_manifests (ps_far st2) \<and> (zone_repo ''h.io/web'', ''P'') \<notin> zn_manifests (ps_far st2)"
  by code_simp

theorem promotion_keeps_closed_witness:
  "\<exists>st'. pier_run (pier_start ''R'' {''c''}) = (st', True) \<and> far_closed zone_view pier_needs (ps_far st')"
proof -
  let ?ings = "[depot_ingredient ''web'' ''I'' []]" and ?st = "pier_start ''R'' {''c''}"
  obtain st' where r: "pier_run ?st = (st', True)" using pier_runs by (metis prod.collapse)
  have s: "sh_manifests (ps_store ?st) = {(''h.io/book/app'', ''R''), (''h.io/book/app'', demo_digest), (''h.io/book/app'', other_digest), (''h.io/book/app'', ''m''),
       (''h.io/web'', ''I''), (''h.io/web'', ''X''), (''h.io/web'', ''P'')}"
    "sh_blobs (ps_store ?st) = {(''h.io/book/app'', ''doc''), (''h.io/book/app'', demo_digest), (''h.io/web'', ''c'')}"
    by (simp_all add: pier_start_def pier_store_def)
  have "far_closed zone_view pier_needs (ps_far ?st)" by (simp add: far_closed_def zone_view_def pier_start_def)
  moreover have "blob_closed (se_dst (po_engine (pier depot_trust ?ings))) pier_needs (ps_store ?st)"
    by (auto simp: blob_closed_def pier_def pier_engine_def depot_engine_def depot_dst_def s pier_needs_def pier_kinds)
  ultimately show ?thesis using promotion_keeps_closed [OF pier_sound r [unfolded pier_run_def Let_def]] r by blast
qed

theorem cookbook_after_ingredients_witness:
  "\<exists>st'. pier_run (pier_start ''R'' {''c''}) = (st', True) \<and> (zone_repo ''h.io/web'', ''I'') \<in> zn_manifests (ps_far st')"
proof -
  let ?ings = "[depot_ingredient ''web'' ''I'' []]"
  obtain st' where r: "pier_run (pier_start ''R'' {''c''}) = (st', True)" using pier_runs by (metis prod.collapse)
  have "all_arrived (pier depot_trust ?ings) zone_view ?ings (ps_far st')"
    using cookbook_after_ingredients [OF pier_sound r [unfolded pier_run_def Let_def]] by (simp add: depot_recipe_def)
  moreover have "ingredient_target (pier depot_trust ?ings) (depot_ingredient ''web'' ''I'' []) = Inr (zone_repo ''h.io/web'')" by code_simp
  moreover have "pier_digest ''I''" by (simp add: pier_digest_def)
  ultimately show ?thesis using r
    by (auto simp: all_arrived_def arrived_def zone_view_def pier_def pier_engine_def depot_ingredient_def)
qed

text \<open>The cookbook of this zone already has version 1, with another document.\<close>

definition pier_taken :: "(depot, zone) push_state" where
  "pier_taken = (pier_start ''R'' {''c''})\<lparr>ps_far := \<lparr>zn_blobs = {}, zn_manifests = {(zone_repo ''cookbook/app'', ''Z'')},
     zn_tags = [(zone_repo ''cookbook/app'', ''1'') \<mapsto> ''Z'']\<rparr>\<rparr>"

theorem published_version_immutable_witness:
  "zn_tags (ps_far (fst (pier_run pier_taken))) (zone_repo ''cookbook/app'', ''1'') = Some ''Z''"
proof -
  let ?ings = "[depot_ingredient ''web'' ''I'' []]"
  obtain st' ok where r: "pier_run pier_taken = (st', ok)" by fastforce
  have c: "CookbookTag (po_names (pier depot_trust ?ings)) (po_dest (pier depot_trust ?ings)) (re_Name (depot_recipe ?ings)) (re_Version (depot_recipe ?ings))
      = Inr (zone_repo ''cookbook/app'', fr_Tag (pier_recipe ''R'' ?ings))" by code_simp
  have tag: "fr_Tag (pier_recipe ''R'' ?ings) = ''1''" by code_simp
  have "ingredient_target (pier depot_trust ?ings) (depot_ingredient ''web'' ''I'' []) = Inr (zone_repo ''h.io/web'')" by code_simp
  then have n: "zone_repo ''cookbook/app'' \<notin> targets (pier depot_trust ?ings) (re_Ingredients (depot_recipe ?ings))"
    by (simp add: targets_def depot_recipe_def zone_repo_def)
  have t: "fv_tag zone_view (ps_far pier_taken) (zone_repo ''cookbook/app'') ''1'' = Some ''Z''" by (simp add: zone_view_def pier_taken_def)
  from published_version_immutable [OF pier_sound r [unfolded pier_run_def Let_def] c n t] r tag show ?thesis by (simp add: zone_view_def)
qed

subsection \<open>A moved tag\<close>

definition strict_trust :: TrustPolicy where
  "strict_trust = \<lparr>tp_roots = [], tp_all = Some [demo_key], tp_scopes = []\<rparr>"

definition strict_src :: manifests where
  "strict_src = storeManifests (pier strict_trust []) (pier_store other_digest {}) ''h.io/book/app''"

lemma strict_blob: "ms_Blob strict_src ''h.io/book/app'' demo_digest = Inr ''payload''"
  by (simp add: strict_src_def storeManifests_def pier_def pier_reader_def pier_store_def readBounded_def)

lemma strict_manifests:
  "ms_Manifest strict_src ''h.io/book/app'' (''sha256-'' @ replicate 64 CHR ''1'' @ ''.sig'') = Inr ''m''"
  "ms_Manifest strict_src ''h.io/book/app'' (''sha256-'' @ replicate 64 CHR ''2'' @ ''.sig'') = Inl NotFound"
  "ms_Manifest strict_src ''h.io/book/app'' (''sha256-'' @ replicate 64 CHR ''2'') = Inl NotFound"
  by code_simp+

lemma strict_referrers: "ms_Referrers strict_src = None"
  by (simp add: strict_src_def storeManifests_def)

lemmas strict_src_simps = strict_blob strict_manifests [simplified] strict_referrers

lemma strict_classic: "sig \<noteq> [] \<Longrightarrow> classic_layer demo_codec strict_src ''h.io/book/app'' demo_digest (demo_layer sig) = Inr (Inr (''payload'', sig))"
  by (simp add: classic_layer_def signaturePayload_def parse_demo hex_encode_demo demo_simps strict_src_simps)

lemma strict_signed: "verifyStored demo_codec strict_src strict_trust ''h.io/book/app'' nominal demo_digest subject = None"
  using demo_simps(6) by (simp add: verifyStored_def Decide_def strict_trust_def Verify_def Let_def parse_demo demo_simps strict_src_simps strict_classic)

lemma strict_unsigned: "verifyStored demo_codec strict_src strict_trust ''h.io/book/app'' nominal other_digest subject \<noteq> None"
proof -
  have "parseSHA256Digest other_digest = Inr (replicate 64 CHR ''2'')"
    by (simp add: parseSHA256Digest_def other_digest_def is_hex_def to_lower_def lower_char_def is_upper_def list_all_iff Let_def)
  then show ?thesis
    by (simp add: verifyStored_def Decide_def strict_trust_def Verify_def Let_def strict_src_simps verifyBundles_def bundleCandidates_def)
qed

lemma strict_propagates:
  "let run = propagateRecipe (pier strict_trust []) (pier_recipe demo_digest []) (depot_recipe []) ''h.io/book/app'' ''app@1'' (pier_start other_digest {})
   in snd run \<and> zn_tags (ps_far (fst run)) (zone_repo ''cookbook/app'', ''1'') = Some other_digest"
  by code_simp

text \<open>C39: The signature is checked over the digest the synchronization resolved, but what is published is whatever the
  local tag names at that moment. When the tag was moved in between, an artifact the trust policy refuses is
  published in the zone's cookbook and reported as delivered.\<close>

theorem moved_tag_published_unverified:
  "let run = promoteRecipe (pier strict_trust []) (ownContent (pier_engine strict_trust [])) (pier_recipe demo_digest []) (depot_recipe []) ''app@1'' (pier_start other_digest {})
   in snd run \<and> zn_tags (ps_far (fst run)) (zone_repo ''cookbook/app'', ''1'') = Some other_digest
     \<and> verifyStored demo_codec strict_src strict_trust ''h.io/book/app'' ''h.io/book/app'' other_digest [] \<noteq> None"
proof -
  let ?P = "pier strict_trust []" and ?f = "pier_recipe demo_digest []" and ?st = "pier_start other_digest {}"
  have l: "og_stored (ownContent (pier_engine strict_trust [])) (fr_NominalRepo ?f) [] = Inr ''h.io/book/app''" by code_simp
  have e: "se_codec (po_engine ?P) = demo_codec" "se_trust (po_engine ?P) = strict_trust" "re_Ingredients (depot_recipe []) = []" "fr_ManifestDigest ?f = demo_digest"
    "storeManifests ?P (ps_store ?st) ''h.io/book/app'' = strict_src"
    by (simp_all add: pier_def pier_engine_def depot_engine_def depot_recipe_def pier_recipe_def pier_start_def strict_src_def)
  have "promoteRecipe ?P (ownContent (pier_engine strict_trust [])) ?f (depot_recipe []) ''app@1'' ?st = propagateRecipe ?P ?f (depot_recipe []) ''h.io/book/app'' ''app@1'' ?st"
    unfolding promoteRecipe_def l sum.case e by (simp add: strict_signed)
  then show ?thesis using strict_propagates strict_unsigned by (simp add: Let_def)
qed

end
