(* ===== verification/Media_Import.thy ===== *)
theory Media_Import
  imports Gate Promote_Results
begin

text \<open>
  The import of a transported medium, \<^verbatim>\<open>engine/mediaimport.go\<close>: verify, push what verification cleared, record the import.
  The verification is \<open>VerifyMedia\<close> of \<open>Gate\<close>, the push is \<open>promoteRecipe\<close> of \<open>Promote\<close> with the paths the
  medium's own graph states, the register is that of \<open>Media_Paths\<close>.

  The store is one state: \<open>ip_medium\<close> is its files as verification reads them, \<open>ip_records\<close> its graph. The
  caller's report hook, the log and the cause a mapped error wraps are left out.
\<close>

subsection \<open>Parameters and state\<close>

record ('s, 'd) importer =
  ip_env :: media_env
  ip_zone :: string
  ip_root :: string
  ip_medium :: "'s \<Rightarrow> medium \<times> Reader"
  ip_records :: "'s \<Rightarrow> eng_error + RecipeRecord list"
  ip_promoter :: "('s, 'd) promoter option"
  ip_written :: "nat \<Rightarrow> bool"
  ip_now :: "nat \<Rightarrow> time"

record ('s, 'd) import_state =
  mt_push :: "('s, 'd) push_state"
  mt_imports :: "Imports option"

definition hasOverride :: "Task \<Rightarrow> string \<Rightarrow> bool" where
  "hasOverride t guard = list_ex (\<lambda>g. g = guard) (tk_MediaOverrides t)"

text \<open>The engine of an import. It is built with the policy \<^verbatim>\<open>LoadTrust\<close> returned, which is never nil
  (both \<^verbatim>\<open>cli/media.go\<close> and \<^verbatim>\<open>cli/serve.go\<close> stop on its error), so the policy is always there; the nil
  policy of \<^verbatim>\<open>VerifyMedia\<close> is a case of \<open>VerifyMedia\<close> itself.\<close>

definition medium_engine :: "('s, 'd) importer \<Rightarrow> ('s, 'd) promoter \<Rightarrow> ('s, 'd) import_state \<Rightarrow> engine" where
  "medium_engine I P st =
     (let (md, rd) = ip_medium I (ps_store (mt_push st)) in
      \<lparr>eg_zone = ip_zone I, eg_trust = Some (se_trust (po_engine P)), eg_imports = mt_imports st, eg_store = md, eg_reader = rd\<rparr>)"

subsection \<open>Task items\<close>

definition media_item :: "string \<Rightarrow> (Item \<Rightarrow> Item) \<Rightarrow> ('s, 'd) import_state \<Rightarrow> ('s, 'd) import_state" where
  "media_item rid f st =
     (let p = mt_push st in
      st\<lparr>mt_push := p\<lparr>ps_task := (ps_task p)\<lparr>tk_Items := itemFor (''media/'' @ rid) f (tk_Items (ps_task p))\<rparr>\<rparr>\<rparr>)"

definition reason_error :: "Reason \<Rightarrow> ItemError" where
  "reason_error r =
     (case Lookup (re_Code r) of
        None \<Rightarrow> \<lparr>ie_Code = CodeInternal, ie_Params = [], ie_Detail = []\<rparr>
      | Some _ \<Rightarrow> \<lparr>ie_Code = re_Code r, ie_Params = re_Params r, ie_Detail = []\<rparr>)"

definition verdict_item :: "RecipeVerdict \<Rightarrow> Item \<Rightarrow> Item" where
  "verdict_item v i =
     (let i = i\<lparr>it_Digest := vd_Digest v, it_SizeBytes := vd_Bytes v\<rparr> in
      if vd_Pushable v then i\<lparr>it_Status := StatusRunning\<rparr>
      else (case vd_Reason v of
              None \<Rightarrow> i\<lparr>it_Status := StatusFailed\<rparr>
            | Some r \<Rightarrow> i\<lparr>it_Status := StatusFailed, it_Error := Some (reason_error r)\<rparr>))"

definition recordVerdicts :: "Report \<Rightarrow> ('s, 'd) import_state \<Rightarrow> ('s, 'd) import_state" where
  "recordVerdicts rep st = foldl (\<lambda>st v. media_item (vd_Name v @ ''@'' @ vd_Version v) (verdict_item v) st) st (rt_Recipes rep)"

text \<open>The reason of a delivery that did not land is that of the first failed push item.\<close>

definition settleDelivery :: "string \<Rightarrow> bool \<Rightarrow> ('s, 'd) import_state \<Rightarrow> ('s, 'd) import_state" where
  "settleDelivery rid ok st =
     (if ok then media_item rid (\<lambda>i. i\<lparr>it_Status := StatusDone\<rparr>) st
      else media_item rid (\<lambda>i.
        (case find (\<lambda>j. it_Status j = StatusFailed \<and> it_Error j \<noteq> None \<and> has_prefix (it_Name j) (''push/'' @ rid @ ''/'')) (tk_Items (ps_task (mt_push st))) of
           None \<Rightarrow> i\<lparr>it_Status := StatusFailed\<rparr>
         | Some j \<Rightarrow> i\<lparr>it_Status := StatusFailed, it_Error := it_Error j\<rparr>)) st)"

subsection \<open>The delivery\<close>

definition record_id :: "RecipeRecord \<Rightarrow> string" where
  "record_id r = rr_Name r @ ''@'' @ rr_Version r"

definition mediumGraph :: "('s, 'd) importer \<Rightarrow> 's \<Rightarrow> eng_error + (string \<times> RecipeRecord) list" where
  "mediumGraph I s = bind_r (ip_records I s) (\<lambda>records. Inr (foldl (\<lambda>m r. map_put (record_id r) r m) [] (sort_key record_id records)))"

text \<open>A Go map filled from the ingredients: the last one of a name counts.\<close>

definition mediumContent :: "RecipeRecord \<Rightarrow> origin" where
  "mediumContent rec =
     \<lparr>og_stored = \<lambda>ref ingredient.
        if ingredient = [] then Inr (rr_ArtifactRepo rec)
        else (case map_of (rev (map (\<lambda>i. (ir_Name i, ir_Repo i)) (rr_Ingredients rec))) ingredient of
                None \<Rightarrow> Inl (EOther ''the graph does not say where the ingredient landed'')
              | Some repo \<Rightarrow> if repo \<noteq> [] then Inr repo else Inl (EOther ''the graph does not say where the ingredient landed'')),
      og_upstream = False\<rparr>"

definition recipeOnMedium :: "('s, 'd) promoter \<Rightarrow> 's \<Rightarrow> RecipeRecord \<Rightarrow> eng_error + (FetchedRecipe \<times> SpecRecipe)" where
  "recipeOnMedium P s rec =
     (if rr_ArtifactRepo rec = [] \<or> rr_ArtifactTag rec = [] then Inl (EOther ''the graph does not say where the artifact landed'')
      else
        bind_r (sr_RawManifest (po_reader P) s (rr_ArtifactRepo rec) (rr_ArtifactTag rec)) (\<lambda>(payload, mediaType, dgst).
          if dgst \<noteq> rr_Digest rec then Inl (EOther ''the tag does not resolve to the digest the graph pins'')
          else bind_r (sk_VerifyManifest (se_sdk (po_engine P)) payload) (\<lambda>(config, document).
            bind_r (sr_BlobReader (po_reader P) s (rr_ArtifactRepo rec) document) (\<lambda>blob.
            bind_r (readBounded (sk_MaxDocumentBytes (se_sdk (po_engine P))) (blob, None)) (\<lambda>yaml.
            bind_r (sk_ParseRecipe (se_sdk (po_engine P)) yaml) (\<lambda>recipe.
              (case sk_Validate (se_sdk (po_engine P)) recipe of
                 Some e \<Rightarrow> Inl e
               | None \<Rightarrow>
                   (case sk_ValidatePublishLocation (se_sdk (po_engine P)) recipe (rr_Name rec) (rr_ArtifactTag rec) of
                      Some e \<Rightarrow> Inl e
                    | None \<Rightarrow>
                        Inr (\<lparr>fr_NominalRepo = rr_CookbookRepo rec, fr_Tag = rr_ArtifactTag rec, fr_ManifestBytes = payload, fr_MediaType = mediaType,
                              fr_ManifestDigest = dgst, fr_ConfigDigest = config, fr_LayerDigest = document, fr_YAML = yaml, fr_Recipe = Some recipe\<rparr>, recipe)))))))))"

definition importDelivery :: "('s, 'd) promoter \<Rightarrow> (string \<times> RecipeRecord) list \<Rightarrow> RecipeVerdict \<Rightarrow> ('s, 'd) import_state \<Rightarrow> ('s, 'd) import_state \<times> bool" where
  "importDelivery P graph v st =
     (let rid = vd_Name v @ ''@'' @ vd_Version v;
          fail = (\<lambda>e. (media_item rid (\<lambda>i. i\<lparr>it_Status := StatusFailed, it_Error := Some (item_error (po_engine P) e rid)\<rparr>) st, False))
      in case map_of graph rid of
           None \<Rightarrow> fail (EOther ''the graph carries no entry'')
         | Some rec \<Rightarrow>
             if rr_Digest rec \<noteq> vd_Digest v \<or> rr_ArtifactRepo rec \<noteq> vd_ArtifactRepo v then fail (EOther ''manifest and graph disagree'')
             else (case recipeOnMedium P (ps_store (mt_push st)) rec of
                     Inl e \<Rightarrow> fail e
                   | Inr (f, recipe) \<Rightarrow>
                       (case promoteRecipe P (mediumContent rec) f recipe rid (mt_push st) of
                          (p, ok) \<Rightarrow> (settleDelivery rid ok (st\<lparr>mt_push := p\<rparr>), ok))))"

fun import_all :: "('s, 'd) promoter \<Rightarrow> (string \<times> RecipeRecord) list \<Rightarrow> RecipeVerdict list \<Rightarrow> ('s, 'd) import_state \<times> nat \<Rightarrow> ('s, 'd) import_state \<times> nat" where
  "import_all P graph [] sn = sn"
| "import_all P graph (v # vs) (st, done_n) =
     (case importDelivery P graph v st of (st, ok) \<Rightarrow> import_all P graph vs (st, if ok then Suc done_n else done_n))"

subsection \<open>The import\<close>

text \<open>A register that cannot be written is a warning.\<close>

definition recordImport :: "('s, 'd) importer \<Rightarrow> Report \<Rightarrow> ('s, 'd) import_state \<Rightarrow> ('s, 'd) import_state" where
  "recordImport I rep st =
     (case rt_Media rep of
        None \<Rightarrow> st
      | Some info \<Rightarrow>
          (case mt_imports st of
             None \<Rightarrow> st
           | Some imports \<Rightarrow>
               (let n = ps_tick (mt_push st);
                    record = \<lparr>im_MediaID = nf_MediaID info, im_ResolvedAt = nf_ResolvedAt info, im_ImportedAt = ip_now I n, im_RunID = tk_RunID (ps_task (mt_push st))\<rparr>
                in case Record (ip_written I n) (ip_now I n) (ip_zone I) record imports of
                     Inl _ \<Rightarrow> st
                   | Inr imports \<Rightarrow> st\<lparr>mt_imports := Some imports\<rparr>)))"

definition noDestinationDetail :: string where
  "noDestinationDetail = ''no destination registry is configured (destination.registry, FR-052): a medium can be verified without one, but not imported''"

definition failed_import :: "('s, 'd) promoter \<Rightarrow> eng_error \<Rightarrow> string \<Rightarrow> unit attempt" where
  "failed_import P e subject = (case mapError (po_engine P) e subject of (c, ps) \<Rightarrow> raise c ps)"

text \<open>The one error \<open>VerifyMedia\<close> returns that is not in the catalog is that of a store that does not open.\<close>

definition importMedia :: "('s, 'd) importer \<Rightarrow> gate_options \<Rightarrow> ('s, 'd) import_state \<Rightarrow> ('s, 'd) import_state \<times> unit attempt" where
  "importMedia I opts st =
     (case ip_promoter I of
        None \<Rightarrow> (st, raise CodeConfigInvalid [(''detail'', noDestinationDetail)])
      | Some P \<Rightarrow>
          (case VerifyMedia (ip_env I) (medium_engine I P st) opts of
             Refused te \<Rightarrow> (st, Refused te)
           | Failed \<Rightarrow> (st, failed_import P (EOther ''opening the transported store'') (ip_root I))
           | Panics \<Rightarrow> (st, Panics)
           | Returned rep \<Rightarrow>
               (let st = recordVerdicts rep st in
                if rt_Verdict rep = VerdictBlocked then (st, blockingError rep)
                else (case mediumGraph I (ps_store (mt_push st)) of
                        Inl e \<Rightarrow> (st, failed_import P e (ip_root I))
                      | Inr graph \<Rightarrow>
                          (case import_all P graph (Pushable rep) (st, 0) of
                             (st, done_n) \<Rightarrow> (if done_n = length (Pushable rep) then recordImport I rep st else st, Returned ()))))))"

text \<open>The waivers an administrator gave are read off the task.\<close>

definition MediaImportRunner :: "('s, 'd) importer \<Rightarrow> ('s, 'd) import_state \<Rightarrow> ('s, 'd) import_state \<times> unit attempt" where
  "MediaImportRunner I st =
     (let t = ps_task (mt_push st) in
      importMedia I \<lparr>go_AllowZoneMismatch = hasOverride t ''zone'', go_AllowStale = hasOverride t ''freshness''\<rparr> st)"

subsection \<open>The store is only read\<close>

text \<open>Without an upstream to widen from, promotion never writes the store it reads.\<close>

lemma PushManifest_store: "PushManifest P local dst ref tag st = ((st', n), x) \<Longrightarrow> ps_store st' = ps_store st"
  by (auto simp: PushManifest_def wait_def split: prod.splits)

lemma push_tags_store: "push_tags P local dst tags (st, n) = (st', n') \<Longrightarrow> ps_store st' = ps_store st"
proof (induction tags arbitrary: st n)
  case (Cons tag tags)
  obtain st1 m x where p: "PushManifest P local dst tag tag st = ((st1, m), x)" by (metis prod.exhaust)
  then have "push_tags P local dst tags (st1, n + m) = (st', n')" using Cons.prems by simp
  from Cons.IH [OF this] PushManifest_store [OF p] show ?case by simp
qed simp

lemma push_retried_store:
  assumes "push_retried P ing local dst (st, n) = ((st', n'), x)"
  shows "ps_store st' = ps_store st"
proof -
  let ?R = "\<lambda>a b. ps_store (fst b) = ps_store (fst a)"
  have one: "?R a b" if "push_attempt P ing local dst a = (b, x)" for a b x
  proof -
    obtain st1 m where "PushManifest P local dst (in_Digest ing) (in_Version ing) (fst a) = ((st1, m), x)" "fst b = st1"
      using \<open>push_attempt P ing local dst a = (b, x)\<close> by (cases a) (auto simp: push_attempt_def split: prod.splits)
    then show ?thesis using PushManifest_store by fastforce
  qed
  have "?R (st, n) (st', n') \<and> (x = None \<longrightarrow> (\<exists>a. ?R (st, n) a \<and> push_attempt P ing local dst a = ((st', n'), None)))"
    by (rule withRetries_keeps [OF _ _ _ assms [unfolded push_retried_def]]) (auto dest: one)
  then show ?thesis by simp
qed

lemma transfer_far_store:
  assumes "\<not> og_upstream org" "transfer_far P org ing rid local dst status st = (st', ok)"
  shows "ps_store st' = ps_store st"
proof -
  define st0 where "st0 = push_item rid (in_Name ing) (\<lambda>i. i\<lparr>it_Status := StatusRunning, it_Digest := in_Digest ing\<rparr>) st"
  obtain st1 n y where r: "push_retried P ing local dst (st0, 0) = ((st1, n), y)" by (metis prod.exhaust)
  have s1: "ps_store st1 = ps_store st" using push_retried_store [OF r] by (simp add: st0_def push_item_def)
  have w: "push_widened P org ing local dst st0 = ((st1, n), y)" using assms(1) r by (auto simp: push_widened_def split: option.splits)
  show ?thesis
  proof (cases y)
    case None
    obtain st2 m where g: "push_tags P local dst (signatureTags (in_Digest ing)) (st1, 0) = (st2, m)" by fastforce
    from push_tags_store [OF g] s1 None w g assms(2) show ?thesis
      by (auto simp: transfer_far_def Let_def st0_def pushAttachedSignatures_def push_resolution_def push_item_def)
  next
    case (Some e)
    then have "pushFailed P rid (in_Name ing) e (in_Ref ing) st1 = (st', ok)" using w assms(2) by (simp add: transfer_far_def Let_def st0_def)
    from pushFailed_far [OF this] s1 show ?thesis by simp
  qed
qed

lemma promoteIngredient_store:
  assumes "\<not> og_upstream org" "promoteIngredient P org ing rid st = (st', ok)"
  shows "ps_store st' = ps_store st"
proof (cases "\<exists>local dst status st1. accept_name P dst st = (st1, None) \<and> transfer_far P org ing rid local dst status (wait st1) = (st', ok)")
  case True
  then obtain local dst status st1 where t: "accept_name P dst st = (st1, None)" "transfer_far P org ing rid local dst status (wait st1) = (st', ok)" by blast
  from transfer_far_store [OF assms(1) t(2)] accept_moves [OF t(1)] show ?thesis by (simp add: wait_def)
next
  case False
  with assms(2) show ?thesis
    by (auto simp: promoteIngredient_def Let_def pushFailed_def push_item_def push_resolution_def wait_def dest!: accept_moves split: sum.splits option.splits prod.splits if_splits)
qed

lemma promote_ingredients_store:
  assumes "\<not> og_upstream org"
  shows "promote_ingredients P org rid ings (st, b) = (st', ok) \<Longrightarrow> ps_store st' = ps_store st"
proof (induction ings arbitrary: st b)
  case (Cons ing ings)
  obtain st1 c where i: "promoteIngredient P org ing rid st = (st1, c)" by fastforce
  then have "promote_ingredients P org rid ings (st1, b \<and> c) = (st', ok)" using Cons.prems by simp
  from Cons.IH [OF this] promoteIngredient_store [OF assms i] show ?case by simp
qed simp

lemma publish_recipe_store:
  assumes "publish_recipe P f local rid dst tag dgst st = (st', ok)"
  shows "ps_store st' = ps_store st"
proof -
  define st0 where "st0 = push_item rid ''recipe'' (\<lambda>i. i\<lparr>it_Status := StatusRunning, it_Digest := dgst\<rparr>) st"
  obtain st1 n y where p: "PushManifest P local dst (fr_Tag f) (fr_Tag f) st0 = ((st1, n), y)" by (metis prod.exhaust)
  obtain st2 m where g: "push_tags P local dst (signatureTags dgst) (st1, 0) = (st2, m)" by fastforce
  have s1: "ps_store st1 = ps_store st" using PushManifest_store [OF p] by (simp add: st0_def push_item_def)
  from assms p g s1 push_tags_store [OF g] show ?thesis
    by (cases y) (auto simp: publish_recipe_def Let_def st0_def pushAttachedSignatures_def push_resolution_def push_item_def pushFailed_def)
qed

lemma propagate_store:
  assumes "propagateRecipe P f recipe local rid st = (st', ok)"
  shows "ps_store st' = ps_store st"
proof (cases "\<exists>dst tag dgst st1. accept_name P dst st = (st1, None) \<and> publish_recipe P f local rid dst tag dgst (wait st1) = (st', ok)")
  case True
  then obtain dst tag dgst st1 where t: "accept_name P dst st = (st1, None)" "publish_recipe P f local rid dst tag dgst (wait st1) = (st', ok)" by blast
  from publish_recipe_store [OF t(2)] accept_moves [OF t(1)] show ?thesis by (simp add: wait_def)
next
  case False
  with assms show ?thesis
    by (auto simp: propagateRecipe_def Let_def pushFailed_def push_item_def push_resolution_def wait_def dest!: accept_moves split: sum.splits option.splits prod.splits if_splits)
qed

lemma promoteRecipe_store:
  assumes "\<not> og_upstream org" "promoteRecipe P org f recipe rid st = (st', ok)"
  shows "ps_store st' = ps_store st"
  using assms(2)
proof (cases rule: promoteRecipe_cases)
  case (refused e)
  then show ?thesis using pushFailed_far by blast
next
  case kept
  then show ?thesis using promote_ingredients_store [OF assms(1)] by blast
next
  case (published local st1)
  then show ?thesis using promote_ingredients_store [OF assms(1) published(3)] propagate_store by metis
qed

lemma promoteRecipe_arrives:
  assumes "sound_promoter P V dig needs" "promoteRecipe P org f recipe rid st = (st', True)"
  shows "all_arrived P V (re_Ingredients recipe) (ps_far st')"
  using assms(2)
proof (cases rule: promoteRecipe_cases)
  case (refused e)
  then show ?thesis using pushFailed_moves by blast
next
  case (published local st1)
  have "all_arrived P V (re_Ingredients recipe) (ps_far st1)" using promote_ingredients_move [OF assms(1) published(3)] by blast
  then show ?thesis by (rule all_arrived_moves [OF propagate_moves(1) [OF assms(1) published(4)]])
qed simp

subsection \<open>Deliveries\<close>

text \<open>The recipe a cleared verdict stands for, as the medium holds it.\<close>

definition carries :: "('s, 'd) promoter \<Rightarrow> (string \<times> RecipeRecord) list \<Rightarrow> 's \<Rightarrow> RecipeVerdict \<Rightarrow> SpecRecipe \<Rightarrow> bool" where
  "carries P graph s v recipe \<longleftrightarrow> (\<exists>rec f. map_of graph (vd_Name v @ ''@'' @ vd_Version v) = Some rec \<and> rr_Digest rec = vd_Digest v
     \<and> recipeOnMedium P s rec = Inr (f, recipe))"

definition delivery_repos :: "('s, 'd) promoter \<Rightarrow> (string \<times> RecipeRecord) list \<Rightarrow> 's \<Rightarrow> RecipeVerdict list \<Rightarrow> repository set" where
  "delivery_repos P graph s vs = {r. \<exists>v \<in> set vs. \<exists>recipe. carries P graph s v recipe \<and> r \<in> targets P (re_Ingredients recipe) \<union> cookbook_repo P recipe}"

definition delivery_done :: "('s, 'd) promoter \<Rightarrow> 'd far_view \<Rightarrow> (string \<times> RecipeRecord) list \<Rightarrow> 's \<Rightarrow> 'd \<Rightarrow> RecipeVerdict \<Rightarrow> bool" where
  "delivery_done P V graph s d v \<longleftrightarrow> (\<exists>recipe. carries P graph s v recipe \<and> all_arrived P V (re_Ingredients recipe) d)"

lemma media_item_fields [simp]:
  "ps_far (mt_push (media_item rid f st)) = ps_far (mt_push st)" "ps_store (mt_push (media_item rid f st)) = ps_store (mt_push st)"
  "mt_imports (media_item rid f st) = mt_imports st"
  by (simp_all add: media_item_def Let_def)

lemma settle_fields [simp]:
  "ps_far (mt_push (settleDelivery rid b st)) = ps_far (mt_push st)" "ps_store (mt_push (settleDelivery rid b st)) = ps_store (mt_push st)"
  "mt_imports (settleDelivery rid b st) = mt_imports st"
  by (simp_all add: settleDelivery_def)

lemma recordVerdicts_fields [simp]:
  "ps_far (mt_push (recordVerdicts rep st)) = ps_far (mt_push st)" "ps_store (mt_push (recordVerdicts rep st)) = ps_store (mt_push st)"
  "mt_imports (recordVerdicts rep st) = mt_imports st"
proof -
  have "ps_far (mt_push (foldl (\<lambda>st v. media_item (vd_Name v @ ''@'' @ vd_Version v) (verdict_item v) st) st vs)) = ps_far (mt_push st)
    \<and> ps_store (mt_push (foldl (\<lambda>st v. media_item (vd_Name v @ ''@'' @ vd_Version v) (verdict_item v) st) st vs)) = ps_store (mt_push st)
    \<and> mt_imports (foldl (\<lambda>st v. media_item (vd_Name v @ ''@'' @ vd_Version v) (verdict_item v) st) st vs) = mt_imports st" for vs
    by (induction vs arbitrary: st) simp_all
  then show "ps_far (mt_push (recordVerdicts rep st)) = ps_far (mt_push st)" "ps_store (mt_push (recordVerdicts rep st)) = ps_store (mt_push st)"
    "mt_imports (recordVerdicts rep st) = mt_imports st" by (simp_all add: recordVerdicts_def)
qed

lemma importDelivery_moves:
  assumes "sound_promoter P V dig needs" "importDelivery P graph v st = (st', ok)"
  shows "far_moves V needs (delivery_repos P graph (ps_store (mt_push st)) [v]) (ps_far (mt_push st)) (ps_far (mt_push st'))
    \<and> ps_store (mt_push st') = ps_store (mt_push st) \<and> mt_imports st' = mt_imports st
    \<and> (ok \<longrightarrow> delivery_done P V graph (ps_store (mt_push st)) (ps_far (mt_push st')) v)"
proof (cases "\<exists>rec f recipe. map_of graph (vd_Name v @ ''@'' @ vd_Version v) = Some rec \<and> rr_Digest rec = vd_Digest v \<and> rr_ArtifactRepo rec = vd_ArtifactRepo v
    \<and> recipeOnMedium P (ps_store (mt_push st)) rec = Inr (f, recipe)")
  case True
  then obtain rec f recipe where r: "map_of graph (vd_Name v @ ''@'' @ vd_Version v) = Some rec" "rr_Digest rec = vd_Digest v" "rr_ArtifactRepo rec = vd_ArtifactRepo v"
    "recipeOnMedium P (ps_store (mt_push st)) rec = Inr (f, recipe)" by blast
  let ?rid = "vd_Name v @ ''@'' @ vd_Version v"
  obtain p b where p: "promoteRecipe P (mediumContent rec) f recipe ?rid (mt_push st) = (p, b)" by fastforce
  have out: "st' = settleDelivery ?rid b (st\<lparr>mt_push := p\<rparr>)" "ok = b" using assms(2) r p by (auto simp: importDelivery_def Let_def)
  have c: "carries P graph (ps_store (mt_push st)) v recipe" using r by (auto simp: carries_def)
  have "targets P (re_Ingredients recipe) \<union> cookbook_repo P recipe \<subseteq> delivery_repos P graph (ps_store (mt_push st)) [v]"
    using c by (auto simp: delivery_repos_def)
  then have "far_moves V needs (delivery_repos P graph (ps_store (mt_push st)) [v]) (ps_far (mt_push st)) (ps_far p)"
    by (rule far_moves_mono [OF push_moves_far [OF promoteRecipe_moves [OF assms(1) p]]])
  moreover have "ps_store p = ps_store (mt_push st)" by (rule promoteRecipe_store [OF _ p]) (simp add: mediumContent_def)
  moreover have "b \<longrightarrow> all_arrived P V (re_Ingredients recipe) (ps_far p)" using promoteRecipe_arrives [OF assms(1), of "mediumContent rec" f recipe ?rid "mt_push st" p] p by (cases b) auto
  ultimately show ?thesis using out c by (auto simp: delivery_done_def)
next
  case False
  then have "(\<exists>g. st' = media_item (vd_Name v @ ''@'' @ vd_Version v) g st) \<and> \<not> ok"
    using assms(2) unfolding importDelivery_def Let_def by (simp split: option.splits if_splits sum.splits prod.splits) blast+
  then show ?thesis by auto
qed

lemma all_arrived_far: "far_moves V needs R d d' \<Longrightarrow> all_arrived P V ings d \<Longrightarrow> all_arrived P V ings d'"
  unfolding all_arrived_def arrived_def using far_moves_holds by metis

lemma delivery_done_moves:
  assumes "far_moves V needs R d d'" "delivery_done P V graph s d v"
  shows "delivery_done P V graph s d' v"
proof -
  obtain recipe where "carries P graph s v recipe" "all_arrived P V (re_Ingredients recipe) d" using assms(2) by (auto simp: delivery_done_def)
  with all_arrived_far [OF assms(1) this(2)] show ?thesis by (auto simp: delivery_done_def)
qed

lemma import_all_moves:
  assumes "sound_promoter P V dig needs"
  shows "import_all P graph vs (st, n) = (st', n') \<Longrightarrow>
    far_moves V needs (delivery_repos P graph (ps_store (mt_push st)) vs) (ps_far (mt_push st)) (ps_far (mt_push st'))
    \<and> ps_store (mt_push st') = ps_store (mt_push st) \<and> mt_imports st' = mt_imports st \<and> n' \<le> n + length vs
    \<and> (n' = n + length vs \<longrightarrow> (\<forall>v \<in> set vs. delivery_done P V graph (ps_store (mt_push st)) (ps_far (mt_push st')) v))"
proof (induction vs arbitrary: st n)
  case (Cons v vs)
  let ?s = "ps_store (mt_push st)"
  obtain st1 b where i: "importDelivery P graph v st = (st1, b)" by fastforce
  note k = importDelivery_moves [OF assms i]
  have rest: "import_all P graph vs (st1, if b then Suc n else n) = (st', n')" using Cons.prems i by simp
  note ih = Cons.IH [OF rest]
  have s1: "ps_store (mt_push st1) = ?s" using k by blast
  have m1: "far_moves V needs (delivery_repos P graph ?s (v # vs)) (ps_far (mt_push st)) (ps_far (mt_push st1))"
    using k by (auto simp: delivery_repos_def elim!: far_moves_mono)
  have m2: "far_moves V needs (delivery_repos P graph ?s (v # vs)) (ps_far (mt_push st1)) (ps_far (mt_push st'))"
    using ih unfolding s1 by (auto simp: delivery_repos_def elim!: far_moves_mono)
  have "n' \<le> n + length (v # vs)" using ih by (auto split: if_splits)
  moreover have "delivery_done P V graph ?s (ps_far (mt_push st')) w" if all: "n' = n + length (v # vs)" and w: "w \<in> set (v # vs)" for w
  proof -
    have "b" "n' = (if b then Suc n else n) + length vs" using all ih by (auto split: if_splits)
    then show ?thesis using w ih k delivery_done_moves [OF m2] unfolding s1 by auto
  qed
  ultimately show ?case using far_moves_trans [OF m1 m2] ih k by auto
qed simp

subsection \<open>Properties\<close>

lemma importMedia_cases:
  assumes "importMedia I opts st = (st', out)"
  obtains (idle) "ps_far (mt_push st') = ps_far (mt_push st)" "ps_store (mt_push st') = ps_store (mt_push st)" "mt_imports st' = mt_imports st"
  | (pushed) P rep graph st1 n where "ip_promoter I = Some P" "VerifyMedia (ip_env I) (medium_engine I P st) opts = Returned rep" "rt_Verdict rep \<noteq> VerdictBlocked"
      "mediumGraph I (ps_store (mt_push st)) = Inr graph" "import_all P graph (Pushable rep) (recordVerdicts rep st, 0) = (st1, n)"
      "st' = (if n = length (Pushable rep) then recordImport I rep st1 else st1)" "out = Returned ()"
proof (cases "\<exists>P rep graph. ip_promoter I = Some P \<and> VerifyMedia (ip_env I) (medium_engine I P st) opts = Returned rep \<and> rt_Verdict rep \<noteq> VerdictBlocked
    \<and> mediumGraph I (ps_store (mt_push st)) = Inr graph")
  case True
  then obtain P rep graph where g: "ip_promoter I = Some P" "VerifyMedia (ip_env I) (medium_engine I P st) opts = Returned rep" "rt_Verdict rep \<noteq> VerdictBlocked"
    "mediumGraph I (ps_store (mt_push st)) = Inr graph" by blast
  obtain st1 n where a: "import_all P graph (Pushable rep) (recordVerdicts rep st, 0) = (st1, n)" by fastforce
  show ?thesis by (rule pushed [OF g a]) (use assms g a in \<open>auto simp: importMedia_def Let_def\<close>)
next
  case False
  then have "st' = st \<or> (\<exists>rep. st' = recordVerdicts rep st)"
    using assms by (auto simp: importMedia_def Let_def split: option.splits attempt.splits if_splits sum.splits prod.splits)
  then show ?thesis using idle by auto
qed

lemma recordImport_fields [simp]: "mt_push (recordImport I rep st) = mt_push st"
  by (simp add: recordImport_def Let_def split: option.splits sum.splits)

text \<open>C8: An import never writes the medium, and puts nothing into the zone that verification did not clear: a repository
  of the zone that gained a manifest or whose tags moved belongs to a recipe of the medium's graph whose verdict is
  pushable, in a report that is not blocked. The zone stays closed throughout.\<close>

theorem import_pushes_only_cleared:
  assumes "ip_promoter I = Some P" "sound_promoter P V dig needs" "importMedia I opts st = (st', out)"
  shows "ps_store (mt_push st') = ps_store (mt_push st)
    \<and> (far_closed V needs (ps_far (mt_push st)) \<longrightarrow> far_closed V needs (ps_far (mt_push st')))
    \<and> (\<forall>r. fv_holds V (ps_far (mt_push st')) r \<noteq> fv_holds V (ps_far (mt_push st)) r \<or> fv_tag V (ps_far (mt_push st')) r \<noteq> fv_tag V (ps_far (mt_push st)) r \<longrightarrow>
        (\<exists>rep graph v recipe. VerifyMedia (ip_env I) (medium_engine I P st) opts = Returned rep \<and> rt_Verdict rep \<noteq> VerdictBlocked
           \<and> v \<in> set (rt_Recipes rep) \<and> vd_Pushable v \<and> mediumGraph I (ps_store (mt_push st)) = Inr graph
           \<and> carries P graph (ps_store (mt_push st)) v recipe \<and> r \<in> targets P (re_Ingredients recipe) \<union> cookbook_repo P recipe))"
  using assms(3)
proof (cases rule: importMedia_cases)
  case idle
  then show ?thesis by simp
next
  case (pushed P' rep graph st1 n)
  have P: "P' = P" using pushed(1) assms(1) by simp
  note k = import_all_moves [OF assms(2) pushed(5) [unfolded P]]
  have far: "ps_far (mt_push st') = ps_far (mt_push st1)" "ps_store (mt_push st') = ps_store (mt_push st1)" using pushed(6) by simp_all
  have m: "far_moves V needs (delivery_repos P graph (ps_store (mt_push st)) (Pushable rep)) (ps_far (mt_push st)) (ps_far (mt_push st'))"
    using k far by simp
  have "r \<in> delivery_repos P graph (ps_store (mt_push st)) (Pushable rep)"
    if "fv_holds V (ps_far (mt_push st')) r \<noteq> fv_holds V (ps_far (mt_push st)) r \<or> fv_tag V (ps_far (mt_push st')) r \<noteq> fv_tag V (ps_far (mt_push st)) r" for r
    using m that unfolding far_moves_def fun_eq_iff by blast
  moreover have "v \<in> set (rt_Recipes rep) \<and> vd_Pushable v" if "v \<in> set (Pushable rep)" for v using that pushed(3) by (auto simp: Pushable_def)
  ultimately have "\<exists>v recipe. v \<in> set (rt_Recipes rep) \<and> vd_Pushable v \<and> carries P graph (ps_store (mt_push st)) v recipe
      \<and> r \<in> targets P (re_Ingredients recipe) \<union> cookbook_repo P recipe"
    if "fv_holds V (ps_far (mt_push st')) r \<noteq> fv_holds V (ps_far (mt_push st)) r \<or> fv_tag V (ps_far (mt_push st')) r \<noteq> fv_tag V (ps_far (mt_push st)) r" for r
    using that unfolding delivery_repos_def by blast
  moreover have "far_closed V needs (ps_far (mt_push st)) \<longrightarrow> far_closed V needs (ps_far (mt_push st'))" using m by (simp add: far_moves_def)
  moreover have "ps_store (mt_push st') = ps_store (mt_push st)" using k far by simp
  ultimately show ?thesis using pushed(2-4) unfolding P by metis
qed

text \<open>C9: The register of imports advances only for a completed import: when it changes, every delivery verification
  cleared has arrived in the zone, each ingredient under its pinned digest.\<close>

theorem import_recorded_when_delivered:
  assumes "ip_promoter I = Some P" "sound_promoter P V dig needs" "importMedia I opts st = (st', out)" "mt_imports st' \<noteq> mt_imports st"
  shows "\<exists>rep graph. VerifyMedia (ip_env I) (medium_engine I P st) opts = Returned rep \<and> mediumGraph I (ps_store (mt_push st)) = Inr graph
    \<and> (\<forall>v \<in> set (Pushable rep). delivery_done P V graph (ps_store (mt_push st)) (ps_far (mt_push st')) v)"
  using assms(3)
proof (cases rule: importMedia_cases)
  case (pushed P' rep graph st1 n)
  have P: "P' = P" using pushed(1) assms(1) by simp
  note k = import_all_moves [OF assms(2) pushed(5) [unfolded P]]
  then have "n = length (Pushable rep)" using assms(4) pushed(6) by (auto split: if_splits)
  then show ?thesis using k pushed(2,4,6) unfolding P by auto
qed (use assms(4) in simp)

subsection \<open>An import\<close>

definition mole_reader :: "depot StoreReader" where
  "mole_reader = \<lparr>
     sr_RawManifest = \<lambda>s repo ref. if ref = ''I'' then Inr (''I'', ''image'', ''I'') else if ref = ''1'' \<or> ref = zero_dgst then Inr (zero_dgst, ''image'', zero_dgst) else Inl EStoreMissing,
     sr_BlobReader = \<lambda>s repo d. if d = ''doc'' then Inr d else Inl EStoreMissing\<rparr>"

definition mole :: "(depot, zone) promoter" where
  "mole = (let ings = [depot_ingredient ''web'' ''I'' []]; E = pier_engine lab_policy ings in
     (pier lab_policy ings)\<lparr>po_reader := mole_reader, po_engine := E\<lparr>se_digestOK := \<lambda>d. d = ''I'' \<or> d = zero_dgst, se_sdk := (se_sdk E)\<lparr>
       sk_manifest := \<lambda>p. Some \<lparr>am_ArtifactType = [], am_ConfigMediaType = [], am_ConfigDigest = [], am_Layers = []\<rparr>\<rparr>\<rparr>\<rparr>)"

definition mole_record :: RecipeRecord where
  "mole_record = \<lparr>rr_Name = ''n'', rr_Version = ''1'', rr_CookbookRepo = ''h.io/lab/x'', rr_ArtifactRepo = ''cb'', rr_ArtifactTag = ''1'', rr_Digest = zero_dgst,
     rr_RunID = [], rr_Zone = ''z'', rr_ResolvedAt = 7, rr_Verified = False, rr_TrustScope = ''lab'',
     rr_Ingredients = [\<lparr>ir_Name = ''web'', ir_Kind = ''image'', ir_Repo = ''r'', ir_Tag = ''2'', ir_Digest = ''I''\<rparr>]\<rparr>"

definition mole_importer :: "(depot, zone) importer" where
  "mole_importer = \<lparr>ip_env = demo_env [], ip_zone = ''z'', ip_root = ''/m'', ip_medium = \<lambda>_. (demo_medium, demo_reader),
     ip_records = \<lambda>_. Inr [mole_record], ip_promoter = Some mole, ip_written = \<lambda>_. True, ip_now = \<lambda>_. 9\<rparr>"

definition mole_start :: "(depot, zone) import_state" where
  "mole_start = \<lparr>mt_push = pier_start [] {}, mt_imports = Some \<lparr>is_path = ''/s'', is_records = [], is_file = None\<rparr>\<rparr>"

lemma mole_sound: "sound_promoter mole zone_view (\<lambda>p. p) (\<lambda>_. {})"
proof -
  have "coherent_desc (\<lambda>p. p) (\<lambda>_. {}) desc" if "cl_Get (depot_client (Inr (plain_image ''I''))) ref = Inr desc" for ref desc
    using that by (cases ref)
      (auto simp: depot_client_def depot_desc_def coherent_desc_def pair_index_def coherent_image_def plain_image_def split: if_splits)
  then have "faithful_world (po_engine mole) (\<lambda>p. p) (\<lambda>_. {})"
    by (simp add: faithful_world_def mole_def Let_def pier_engine_def depot_engine_def)
  moreover have "reader_sound mole (\<lambda>p. p) (\<lambda>_. {})"
    by (auto simp: reader_sound_def mole_def Let_def mole_reader_def zero_dgst_def split: if_splits)
  moreover have "lawful (se_dst (po_engine mole)) (\<lambda>p. p)"
    using sound_engineD(1) [OF depot_sound] by (simp add: mole_def Let_def pier_engine_def)
  moreover have "far_lawful (po_far mole n) zone_view (\<lambda>p. p)" for n using zone_lawful by (simp add: mole_def Let_def pier_def)
  ultimately show ?thesis by (simp add: sound_promoter_def)
qed

lemma mole_verified:
  obtains rep v where "VerifyMedia (ip_env mole_importer) (medium_engine mole_importer mole mole_start) no_waivers = Returned rep"
    "Pushable rep = [v]" "same_recipe (demo_recipe []) v" "rt_Verdict rep = VerdictPushable" "rt_Media rep = Some (info_of (demo_manifest []))"
proof -
  let ?t = "MediaTrust_Decide (Some lab_policy)"
  have "matchPattern ''h.io/lab/*'' ''h.io/lab/x''" by code_simp
  then have "dc_AllowUnsigned (?t ''h.io/lab/x'')" "dc_Keys (?t ''h.io/lab/x'') = None"
    by (simp_all add: MediaTrust_Decide_def Decide_def lab_policy_def)
  from demo_verified [where trust = ?t and ings = "[]", OF _ this] obtain rep v where
    r: "Verify_media (demo_env []) demo_medium demo_reader (demo_options ?t) = Some rep" "Pushable rep = [v]" "same_recipe (demo_recipe []) v" "rt_Verdict rep = VerdictPushable"
    by auto
  have "rt_Media rep = Some (info_of (demo_manifest []))"
    using r(1) demo_readManifest [of "[]"] by (auto simp: Verify_media_def finish_report_def Let_def split: if_splits prod.splits)
  moreover have "VerifyMedia (ip_env mole_importer) (medium_engine mole_importer mole mole_start) no_waivers = Returned rep"
    using r(1) by (simp add: VerifyMedia_def verify_options_def medium_engine_def mole_importer_def mole_start_def mole_def Let_def pier_engine_def depot_engine_def
        demo_options_def no_waivers_def Last_def)
  ultimately show ?thesis using that r by blast
qed

lemma mole_document:
  "\<exists>f. recipeOnMedium mole s mole_record = Inr (f, depot_recipe [depot_ingredient ''web'' ''I'' []]) \<and> fr_NominalRepo f = ''h.io/lab/x'' \<and> fr_Tag f = ''1'' \<and> fr_ManifestDigest f = zero_dgst"
  by (simp add: recipeOnMedium_def mole_record_def mole_def Let_def mole_reader_def pier_engine_def pier_sdk_def depot_sdk_def depot_recipe_def depot_ingredient_def readBounded_def)

definition mole_push :: "FetchedRecipe \<Rightarrow> Task \<Rightarrow> (depot, zone) push_state \<times> bool" where
  "mole_push f t = promoteRecipe mole (mediumContent mole_record) f (depot_recipe [depot_ingredient ''web'' ''I'' []]) ''n@1'' ((mt_push mole_start)\<lparr>ps_task := t\<rparr>)"

lemma mole_lands: "snd (mole_push \<lparr>fr_NominalRepo = ''h.io/lab/x'', fr_Tag = ''1'', fr_ManifestBytes = b, fr_MediaType = m,
     fr_ManifestDigest = zero_dgst, fr_ConfigDigest = c, fr_LayerDigest = l, fr_YAML = y, fr_Recipe = r\<rparr> t)"
  by code_simp

lemma mole_graph: "mediumGraph mole_importer s = Inr [(''n@1'', mole_record)]"
  by (simp add: mediumGraph_def mole_importer_def mole_record_def record_id_def)

lemma recordVerdicts_task: "\<exists>t. recordVerdicts rep st = st\<lparr>mt_push := (mt_push st)\<lparr>ps_task := t\<rparr>\<rparr>"
proof -
  have "\<exists>t. foldl (\<lambda>st v. media_item (vd_Name v @ ''@'' @ vd_Version v) (verdict_item v) st) st vs = st\<lparr>mt_push := (mt_push st)\<lparr>ps_task := t\<rparr>\<rparr>" for vs
  proof (induction vs arbitrary: st)
    case Nil
    show ?case by (intro exI [of _ "ps_task (mt_push st)"]) simp
  next
    case (Cons v vs)
    obtain t where "media_item (vd_Name v @ ''@'' @ vd_Version v) (verdict_item v) st = st\<lparr>mt_push := (mt_push st)\<lparr>ps_task := t\<rparr>\<rparr>" by (simp add: media_item_def Let_def)
    with Cons.IH [of "st\<lparr>mt_push := (mt_push st)\<lparr>ps_task := t\<rparr>\<rparr>"] show ?case by simp
  qed
  then show ?thesis by (simp add: recordVerdicts_def)
qed

lemma mole_imports:
  "\<exists>st'. importMedia mole_importer no_waivers mole_start = (st', Returned ()) \<and> mt_imports st' \<noteq> mt_imports mole_start"
proof -
  obtain rep v where r: "VerifyMedia (ip_env mole_importer) (medium_engine mole_importer mole mole_start) no_waivers = Returned rep"
    "Pushable rep = [v]" "same_recipe (demo_recipe []) v" "rt_Verdict rep = VerdictPushable" "rt_Media rep = Some (info_of (demo_manifest []))" by (rule mole_verified)
  obtain t where t: "recordVerdicts rep mole_start = mole_start\<lparr>mt_push := (mt_push mole_start)\<lparr>ps_task := t\<rparr>\<rparr>" using recordVerdicts_task by blast
  have v: "vd_Name v = ''n''" "vd_Version v = ''1''" "vd_Digest v = zero_dgst" "vd_ArtifactRepo v = ''cb''"
    using r(3) by (simp_all add: same_recipe_def demo_recipe_def)
  obtain f where f: "recipeOnMedium mole (ps_store (mt_push mole_start)) mole_record = Inr (f, depot_recipe [depot_ingredient ''web'' ''I'' []])"
    "fr_NominalRepo f = ''h.io/lab/x''" "fr_Tag f = ''1''" "fr_ManifestDigest f = zero_dgst" using mole_document by blast
  obtain p ok where p: "mole_push f t = (p, ok)" by fastforce
  have "f = \<lparr>fr_NominalRepo = ''h.io/lab/x'', fr_Tag = ''1'', fr_ManifestBytes = fr_ManifestBytes f, fr_MediaType = fr_MediaType f,
     fr_ManifestDigest = zero_dgst, fr_ConfigDigest = fr_ConfigDigest f, fr_LayerDigest = fr_LayerDigest f, fr_YAML = fr_YAML f, fr_Recipe = fr_Recipe f\<rparr>"
    using f(2-4) by simp
  then have "snd (mole_push f t)" using mole_lands by metis
  then have "ok" using p by simp
  then have "importDelivery mole [(''n@1'', mole_record)] v (recordVerdicts rep mole_start) = (settleDelivery ''n@1'' True (mole_start\<lparr>mt_push := p\<rparr>), True)"
    using f(1) p v t by (simp add: importDelivery_def Let_def mole_push_def, simp add: mole_record_def)
  then have a: "import_all mole [(''n@1'', mole_record)] (Pushable rep) (recordVerdicts rep mole_start, 0) = (settleDelivery ''n@1'' True (mole_start\<lparr>mt_push := p\<rparr>), 1)"
    using r(2) by simp
  let ?after = "recordImport mole_importer rep (settleDelivery ''n@1'' True (mole_start\<lparr>mt_push := p\<rparr>))"
  have "importMedia mole_importer no_waivers mole_start = (?after, Returned ())"
    using r a mole_graph by (simp add: importMedia_def Let_def mole_importer_def)
  moreover have "mt_imports ?after \<noteq> mt_imports mole_start"
    using r(5) by (simp add: recordImport_def Let_def mole_start_def Record_def mole_importer_def)
  ultimately show ?thesis by blast
qed

theorem import_pushes_only_cleared_witness:
  "\<exists>st'. importMedia mole_importer no_waivers mole_start = (st', Returned ()) \<and> far_closed zone_view (\<lambda>_. {}) (ps_far (mt_push st'))"
proof -
  obtain st' where i: "importMedia mole_importer no_waivers mole_start = (st', Returned ())" using mole_imports by blast
  have "ip_promoter mole_importer = Some mole" by (simp add: mole_importer_def)
  from import_pushes_only_cleared [OF this mole_sound i] i show ?thesis by (auto simp: far_closed_def)
qed

theorem import_recorded_when_delivered_witness:
  "\<exists>st' v. importMedia mole_importer no_waivers mole_start = (st', Returned ())
     \<and> delivery_done mole zone_view [(''n@1'', mole_record)] (ps_store (mt_push mole_start)) (ps_far (mt_push st')) v"
proof -
  obtain st' where i: "importMedia mole_importer no_waivers mole_start = (st', Returned ())" "mt_imports st' \<noteq> mt_imports mole_start" using mole_imports by blast
  obtain rep v where r: "VerifyMedia (ip_env mole_importer) (medium_engine mole_importer mole mole_start) no_waivers = Returned rep" "Pushable rep = [v]"
    by (rule mole_verified)
  have "ip_promoter mole_importer = Some mole" by (simp add: mole_importer_def)
  from import_recorded_when_delivered [OF this mole_sound i] r i(1) mole_graph show ?thesis by auto
qed

end
