(* ===== verification/Spec2Isabelle.thy ===== *)
theory Spec2Isabelle
  imports Allowlist Trust Queue_Results Prune Gate Auth_Access Media_Write Blobfetch_Resume Blobfetch_Lock
    Store_Write Promote_Results Media_Import
begin

text \<open>
  Tobby Fetch moves curated OCI content (recipes and their ingredients) between registries and
  across air gaps. An instance synchronizes what its Retriever asks for into an embedded
  registry store, verifies signatures against its own trust policy, prunes what is no longer
  asked for, writes a transport medium, and on the other side verifies the medium before
  anything is pushed or served. This library models the parts of the Go sources under
  \<^verbatim>\<open>src/internal\<close> that decide those things, and proves what makes them correct.

  \<^bold>\<open>Theories and the code they model\<close>

  \<^item> \<^verbatim>\<open>Prelude\<close>: results of fallible code, Go strings and 64-bit integers, Go maps as association
    lists, the transition-system locale \<open>invariant\<close>.
  \<^item> \<^verbatim>\<open>Relocate\<close> (\<^verbatim>\<open>relocate/relocate.go\<close>): where a reference lands. Distinct canonical registries
    never collide, relocation is idempotent; the underscore case is shown.
  \<^item> \<^verbatim>\<open>Wildcard\<close>, \<^verbatim>\<open>Allowlist\<close> (\<^verbatim>\<open>policy/allowlist.go\<close>): the greedy label matcher recognises exactly the
    declared glob language (locale \<open>segment_matcher\<close>).
  \<^item> \<^verbatim>\<open>Taxonomy\<close> (\<^verbatim>\<open>taxonomy/\<close>): error catalog, principal error, exit codes.
  \<^item> \<^verbatim>\<open>SigVerify\<close> (\<^verbatim>\<open>sigverify/\<close>): classic and bundle signatures. Soundness and completeness of
    \<open>Verify\<close>, the exact meaning of ``unsigned'', injectivity of the signed encoding.
  \<^item> \<^verbatim>\<open>Trust\<close> (\<^verbatim>\<open>engine/trust.go\<close>, \<^verbatim>\<open>config/config.go\<close> \<^verbatim>\<open>validateTrust\<close>, the callers in
    \<^verbatim>\<open>engine/sync.go\<close> and \<^verbatim>\<open>engine/promote.go\<close>): loading and deciding; the locale
    \<open>trust_decider\<close> is the contract every verifier relies on, interpreted on the policy and on
    the media adapter.
  \<^item> \<^verbatim>\<open>Tasks\<close>, \<^verbatim>\<open>Queue\<close>, \<^verbatim>\<open>Queue_Invariant\<close>, \<^verbatim>\<open>Queue_Results\<close> (\<^verbatim>\<open>tasks/\<close>): the durable task queue with its
    task directory. The step relation \<open>qstep\<close> interleaves creation, execution, crashes, restarts and a
    disk that fails on chosen files; the invariant holds in every reachable state. What a crash keeps is
    what reached the disk, and a task whose file could not be written is lost (\<open>unwritten_task_lost\<close>).
  \<^item> \<^verbatim>\<open>Store\<close>, \<^verbatim>\<open>Store_GC\<close> (\<^verbatim>\<open>store/meta.go\<close>, \<^verbatim>\<open>store/gc.go\<close>, \<^verbatim>\<open>store/reset.go\<close>): ledgers, mark and sweep,
    removal. A sweep keeps what the tags reach and what is fresh, provided no manifest is also a config or
    layer of another; \<open>shadowed_manifest_swept\<close> shows what is lost otherwise.
  \<^item> \<^verbatim>\<open>Prune\<close> (\<^verbatim>\<open>engine/prune.go\<close>): pruning to the Retriever over the Go interface \<^verbatim>\<open>Pruner\<close>, a record of
    operations; the locale \<open>pruner\<close> is interpreted on the store.
  \<^item> \<^verbatim>\<open>Media_Paths\<close> (\<^verbatim>\<open>media/paths.go\<close>, \<^verbatim>\<open>media/imports.go\<close>): validators of foreign names, layout paths, the
    register of completed imports.
  \<^item> \<^verbatim>\<open>Media\<close>, \<^verbatim>\<open>Media_Sound\<close>, \<^verbatim>\<open>Media_Results\<close> (\<^verbatim>\<open>media/verify.go\<close>, \<^verbatim>\<open>media/report.go\<close>,
    \<^verbatim>\<open>media/manifest.go\<close>): verification of a transported store. The locale \<open>media_walk\<close>
    carries the argument that a walk which ends without a reason has checked everything the
    recipe delivers.
  \<^item> \<^verbatim>\<open>Media_Write\<close> (\<^verbatim>\<open>media/manifest.go\<close> \<^verbatim>\<open>Write\<close>): the producing side, and that what one side writes of
    a well-named store that holds what its recipes deliver, the other side accepts and clears.
  \<^item> \<^verbatim>\<open>Gate\<close> (\<^verbatim>\<open>mediagate/\<close>, \<^verbatim>\<open>media/describe.go\<close>, \<^verbatim>\<open>engine/mediaimport.go\<close> up to the verdict): the gate in front of
    the content surfaces. A run in the background is three critical sections (the engine's own report, the end of the run, the
    report of the run), between which anything may happen. The locale \<open>refinement\<close> is interpreted on it:
    whatever the interleaving, the gate implements ``the last verdict heard'', and a gate that serves rests
    on a verification; the verdict heard last need not be the last one reached.
  \<^item> \<^verbatim>\<open>Auth_Password\<close>, \<^verbatim>\<open>Auth\<close>, \<^verbatim>\<open>Auth_Access\<close> (\<^verbatim>\<open>auth/\<close>): password hashes, accounts, tokens, sessions, the failure
    limiter, the registry and API surfaces. The locale \<open>kept\<close> states what memory and file keep across
    failed writes and restarts; it is interpreted for administrators, live tokens and revoked ones.

  \<^item> \<^verbatim>\<open>Spool\<close>, \<^verbatim>\<open>Blobfetch\<close>, \<^verbatim>\<open>Blobfetch_Resume\<close>, \<^verbatim>\<open>Blobfetch_Lock\<close> (\<^verbatim>\<open>blobfetch/\<close>): downloads that resume inside a
    blob, on a disk that may fail at every operation and crash at any point, against an origin that
    answers as it likes. What is handed out was verified. An origin that honours ranges, keeps its validator and delivers
    something each time is finished after a bounded number of calls on a disk without faults, and no
    recorded byte is lost meanwhile. The lock per digest is exclusive and strands nobody.
  \<^item> \<^verbatim>\<open>Copying\<close> (\<^verbatim>\<open>engine/transfer.go\<close>, \<^verbatim>\<open>engine/errors.go\<close>): the copy of images, indexes and artifacts into a store, which is
    the Go interface \<^verbatim>\<open>Store\<close> as a record of operations; its contract is \<open>lawful\<close>. However a copy ends, no
    manifest is left without its blobs.
  \<^item> \<^verbatim>\<open>Store_Write\<close> (\<^verbatim>\<open>store/write.go\<close>, \<^verbatim>\<open>store/read.go\<close>): the store keeps that contract over the registry library,
    whose manifests are parsed values with a payload; over any history of writes a tag serves what was last put under it.
  \<^item> \<^verbatim>\<open>Remotes\<close> (\<^verbatim>\<open>engine/remote.go\<close>, \<^verbatim>\<open>cookbook.go\<close>, \<^verbatim>\<open>resolve.go\<close>, \<^verbatim>\<open>retriever.go\<close>): where a reference is read from, with which
    credentials, with the keychain and its fallback. Registries outside the allowlist have no influence (a Retriever
    read over HTTP is not subject to it); a cascade reads what the instance above it stored.
  \<^item> \<^verbatim>\<open>Sync\<close>, \<^verbatim>\<open>Sync_Results\<close> (\<^verbatim>\<open>engine/sync.go\<close>): one run, from the Retriever to the recorded graph. A run
    without failures has delivered every entry, with the recipe artifact and its record; a recipe that is not admitted
    stores nothing, and nothing that comes after the trust decision has a say in it; retries are bounded.
  \<^item> \<^verbatim>\<open>Promote\<close>, \<^verbatim>\<open>Promote_Results\<close> (\<^verbatim>\<open>engine/promote.go\<close>, \<^verbatim>\<open>push.go\<close>, \<^verbatim>\<open>destination.go\<close>): pushes into the next zone, whose registry
    is a record of requests with the laws \<open>far_lawful\<close>. The zone stays closed, its cookbook gets a recipe after all
    its ingredients, and tags that are not targets of an ingredient stay as they are.
  \<^item> \<^verbatim>\<open>Media_Import\<close> (\<^verbatim>\<open>engine/mediaimport.go\<close>): the import of a transported medium, which composes verification, promotion and
    the register. Only what verification cleared reaches the zone; the register advances only for a complete import.

  \<^bold>\<open>Correspondence\<close>

  A Go struct is a record with a two-letter prefix on its fields, an enumeration or error type a
  datatype, a method a function from the receiver's state to its new state. Errors are
  \<open>Inl\<close>. Code outside the repository (the registry library, JSON, PEM and cryptographic
  primitives, file contents, network answers) is a parameter of the definitions that use it,
  collected in records (\<open>codec\<close>, \<open>keycodec\<close>, \<open>registry\<close>, \<open>media_env\<close>, \<open>auth_env\<close>, \<open>fetch_env\<close>), about which nothing is
  assumed beyond the named hypotheses of a theorem. Random identifiers and the clock are
  arguments.

  \<^bold>\<open>Bounds\<close>

  \<open>markManifest\<close> and \<open>walk_manifest\<close> take a number of steps: every descent marks a manifest that was
  not marked and is stored (listed), so one more than there are stored manifests (inventory
  entries) is enough (\<open>markManifest_enough\<close>, \<open>walk_manifest_stable\<close>). \<open>drain\<close> takes one step
  per waiting task. PEM parsing takes one step per input byte. A push descends \<open>po_levels\<close> levels of nested
  indexes; when no index contains itself, more levels change nothing (\<open>levels_enough\<close>). \<open>withRetries\<close> and the copies
  are total: attempts are counted, a nested index is smaller than the index that lists it.

  \<^bold>\<open>Not modelled\<close>

  Rendering (\<^verbatim>\<open>ui\<close>, \<^verbatim>\<open>help\<close>, \<^verbatim>\<open>cli\<close>, \<^verbatim>\<open>api\<close>), transports and TLS (\<^verbatim>\<open>netx\<close>, \<^verbatim>\<open>server\<close>, \<^verbatim>\<open>tlsadmin\<close>), logging and
  metrics are input and output around the decisions above. Of the engine, the projections of a run
  (\<^verbatim>\<open>plan.go\<close>), the pre-flight probes and publishing by hand are missing; ingredients of a recipe run one after
  another here, where the code runs them in parallel. Imports of packs and layouts, file serving and
  configuration decoding are not modelled.
\<close>

end
